(* ===== verification/Prelude.thy ===== *)
theory Prelude
  imports Main "HOL-Library.Word"
begin

text \<open>
  Shared ground of the development: bytes, little-endian fields, C array accesses on lists, disk
  images as byte-addressed functions, C's truncating division, and the lemma collections the
  component theories use. Nothing here translates a source file; the macros of the headers live
  in the component theories.
\<close>

unbundle bit_operations_syntax

named_theorems image_simps \<open>reading and writing ranges of a disk image\<close>
named_theorems codec_simps \<open>encoding and decoding of packed structures\<close>
named_theorems frame_simps \<open>fields an operation does not change\<close>

type_synonym byte = "8 word"
type_synonym image = "nat \<Rightarrow> byte"
type_synonym errno = int

text \<open>Undefined behaviour of the C code that a kernel turns into a panic.\<close>

datatype fault = NullDeref | OutOfBounds | Uninitialised | NoReturn | Panic string

text \<open>The error numbers of the FreeBSD kernel that the sources return.\<close>

definition ENOENT :: errno where "ENOENT = 2"
definition EIO :: errno where "EIO = 5"
definition ENOMEM :: errno where "ENOMEM = 12"
definition EBUSY :: errno where "EBUSY = 16"
definition EXDEV :: errno where "EXDEV = 18"
definition ENOTDIR :: errno where "ENOTDIR = 20"
definition EISDIR :: errno where "EISDIR = 21"
definition EINVAL :: errno where "EINVAL = 22"
definition ENOSPC :: errno where "ENOSPC = 28"
definition EOPNOTSUPP :: errno where "EOPNOTSUPP = 45"
definition EINTEGRITY :: errno where "EINTEGRITY = 97"
definition EJUSTRETURN :: errno where "EJUSTRETURN = -2"

lemmas errno_defs = ENOENT_def EIO_def ENOMEM_def EBUSY_def EXDEV_def ENOTDIR_def EISDIR_def
  EINVAL_def ENOSPC_def EOPNOTSUPP_def EINTEGRITY_def EJUSTRETURN_def

section \<open>Definitions\<close>

subsection \<open>C arrays as lists\<close>

text \<open>\<open>slice off n xs\<close> reads \<open>n\<close> elements from \<open>off\<close>; \<open>overlay off ys xs\<close> copies \<open>ys\<close> over \<open>xs\<close>
  at \<open>off\<close>. Both mean what \<open>memcpy\<close> does only when the range lies within the list; the models check
  that first and give \<^const>\<open>OutOfBounds\<close> otherwise.\<close>

definition slice :: "nat \<Rightarrow> nat \<Rightarrow> 'a list \<Rightarrow> 'a list" where
  "slice off n xs = take n (drop off xs)"

definition overlay :: "nat \<Rightarrow> 'a list \<Rightarrow> 'a list \<Rightarrow> 'a list" where
  "overlay off ys xs = take off xs @ ys @ drop (off + length ys) xs"

subsection \<open>Disk images\<close>

definition peek :: "image \<Rightarrow> nat \<Rightarrow> nat \<Rightarrow> byte list" where
  "peek m off n = map m [off..<off + n]"

definition poke :: "image \<Rightarrow> nat \<Rightarrow> byte list \<Rightarrow> image" where
  "poke m off bs = (\<lambda>i. if off \<le> i \<and> i < off + length bs then bs ! (i - off) else m i)"

subsection \<open>Little-endian fields\<close>

fun le_bytes :: "nat \<Rightarrow> nat \<Rightarrow> byte list" where
  "le_bytes 0 v = []"
| "le_bytes (Suc n) v = word_of_nat v # le_bytes n (v div 256)"

fun le_val :: "byte list \<Rightarrow> nat" where
  "le_val [] = 0"
| "le_val (b # bs) = unat b + 256 * le_val bs"

subsection \<open>C arithmetic\<close>

text \<open>Signed division of C rounds towards zero.\<close>

definition tdiv :: "int \<Rightarrow> int \<Rightarrow> int" where
  "tdiv a b = sgn a * sgn b * (\<bar>a\<bar> div \<bar>b\<bar>)"

text \<open>The value of an expression stored in a two's complement variable of \<open>w\<close> bits.\<close>

definition wrap_s :: "nat \<Rightarrow> int \<Rightarrow> int" where
  "wrap_s w v = (let m = v mod 2 ^ w in if m < 2 ^ (w - 1) then m else m - 2 ^ w)"

section \<open>Lemmas\<close>

subsection \<open>Slices\<close>

lemma length_slice [simp]: "off + n \<le> length xs \<Longrightarrow> length (slice off n xs) = n"
  by (simp add: slice_def)

lemma slice_nth: "i < n \<Longrightarrow> off + n \<le> length xs \<Longrightarrow> slice off n xs ! i = xs ! (off + i)"
  by (simp add: slice_def)

lemma length_overlay [simp]: "off + length ys \<le> length xs \<Longrightarrow> length (overlay off ys xs) = length xs"
  by (simp add: overlay_def)

lemma slice_overlay [simp]: "off + length ys \<le> length xs \<Longrightarrow> n = length ys
    \<Longrightarrow> slice off n (overlay off ys xs) = ys"
  by (simp add: slice_def overlay_def)

lemma overlay_nth:
  assumes "off + length ys \<le> length xs" and "i < length xs"
  shows "overlay off ys xs ! i =
    (if off \<le> i \<and> i < off + length ys then ys ! (i - off) else xs ! i)"
  using assms by (auto simp: overlay_def nth_append min_def)

lemma slice_slice: "o2 + n2 \<le> n1 \<Longrightarrow> slice o2 n2 (slice o1 n1 xs) = slice (o1 + o2) n2 xs"
  by (simp add: slice_def drop_take min_def add.commute)

lemma slice_all [simp]: "n = length xs \<Longrightarrow> slice 0 n xs = xs"
  by (simp add: slice_def)

lemma slice_overlay_disjoint:
  assumes "off + length ys \<le> length xs" "p + n \<le> length xs" "p + n \<le> off \<or> off + length ys \<le> p"
  shows "slice p n (overlay off ys xs) = slice p n xs"
  using assms by (intro nth_equalityI) (auto simp: slice_nth overlay_nth)

subsection \<open>Images\<close>

lemma length_peek [simp]: "length (peek m off n) = n"
  by (simp add: peek_def)

lemma nth_peek [simp]: "i < n \<Longrightarrow> peek m off n ! i = m (off + i)"
  by (simp add: peek_def)

lemma poke_apply: "poke m off bs i =
    (if off \<le> i \<and> i < off + length bs then bs ! (i - off) else m i)"
  by (simp add: poke_def)

lemma peek_poke_same [image_simps]: "n = length bs \<Longrightarrow> peek (poke m off bs) off n = bs"
  by (rule nth_equalityI) (simp_all add: poke_apply)

lemma peek_poke_disjoint [image_simps]:
  "p + n \<le> off \<or> off + length bs \<le> p \<Longrightarrow> peek (poke m off bs) p n = peek m p n"
  by (rule nth_equalityI) (auto simp: poke_apply)

lemma slice_peek [image_simps]: "p + k \<le> n \<Longrightarrow> slice p k (peek m off n) = peek m (off + p) k"
  by (rule nth_equalityI) (auto simp: slice_nth add.assoc)

lemma poke_overlay:
  assumes "p + length ys \<le> n"
  shows "poke m off (overlay p ys (peek m off n)) = poke m (off + p) ys"
proof
  fix i
  show "poke m off (overlay p ys (peek m off n)) i = poke m (off + p) ys i"
    using assms by (auto simp: poke_apply overlay_nth)
qed

lemma poke_peek_self [simp]: "poke m off (peek m off n) = m"
  by (rule ext) (auto simp: poke_apply)

lemma peek_eqI: "(\<And>i. i < n \<Longrightarrow> m (off + i) = m' (off + i)) \<Longrightarrow> peek m off n = peek m' off n"
  by (rule nth_equalityI) auto

lemma peek_eqD: "peek m off n = bs \<Longrightarrow> i < n \<Longrightarrow> m (off + i) = bs ! i"
  by auto

lemma peek_append: "peek m off (a + b) = peek m off a @ peek m (off + a) b"
  by (rule nth_equalityI) (auto simp: nth_append)

lemma peek_1 [simp]: "peek m off (Suc 0) = [m off]"
  by (simp add: peek_def)

subsection \<open>Little-endian round trips\<close>

lemma length_le_bytes [simp]: "length (le_bytes n v) = n"
  by (induction n v rule: le_bytes.induct) auto

lemma le_val_bound: "le_val bs < 256 ^ length bs"
proof (induction bs)
  case (Cons b bs)
  have "unat b < 256" using unsigned_less[of b] by simp
  with Cons show ?case by simp
qed simp

lemma le_val_le_bytes [codec_simps]: "le_val (le_bytes n v) = v mod 256 ^ n"
proof (induction n v rule: le_bytes.induct)
  case (2 n v)
  have "v mod (256 * 256 ^ n) = 256 * (v div 256 mod 256 ^ n) + v mod 256"
    by (rule mod_mult2_eq)
  with 2 show ?case by (simp add: unat_of_nat)
qed simp

lemma word_256_zero: "(256 :: byte) = 0"
  by simp

lemma le_bytes_le_val [codec_simps]: "n = length bs \<Longrightarrow> le_bytes n (le_val bs) = bs"
proof (induction bs arbitrary: n)
  case (Cons b bs)
  have b: "unat b < 256" using unsigned_less[of b] by simp
  then have "(unat b + 256 * le_val bs) div 256 = le_val bs" by simp
  moreover have "word_of_nat (unat b + 256 * le_val bs) = b"
    by (simp add: word_256_zero)
  ultimately show ?case using Cons by simp
qed simp

subsection \<open>Truncating division\<close>

lemma tdiv_nonneg: "0 \<le> a \<Longrightarrow> 0 < b \<Longrightarrow> tdiv a b = a div b"
  by (cases "a = 0") (simp_all add: tdiv_def)

lemma wrap_s_id: "- (2 ^ (w - 1)) \<le> v \<Longrightarrow> v < 2 ^ (w - 1) \<Longrightarrow> 0 < w \<Longrightarrow> wrap_s w v = v"
proof -
  assume a: "- (2 ^ (w - 1)) \<le> v" "v < 2 ^ (w - 1)" "0 < w"
  then have p: "(2::int) ^ w = 2 * 2 ^ (w - 1)" by (cases w) auto
  show ?thesis
  proof (cases "0 \<le> v")
    case True
    with a p have "v mod 2 ^ w = v" by (intro mod_pos_pos_trivial) auto
    with a show ?thesis by (simp add: wrap_s_def)
  next
    case False
    have "v mod 2 ^ w = (v + 2 ^ w) mod 2 ^ w" by simp
    also have "\<dots> = v + 2 ^ w" using False a p by (intro mod_pos_pos_trivial) auto
    finally show ?thesis using a p by (auto simp: wrap_s_def Let_def)
  qed
qed

section \<open>Tables of records\<close>

text \<open>\<open>n\<close> records of \<open>len\<close> bytes from \<open>base\<close> on.\<close>

definition records :: "(byte list \<Rightarrow> 'r) \<Rightarrow> nat \<Rightarrow> nat \<Rightarrow> nat \<Rightarrow> image \<Rightarrow> 'r list" where
  "records dec len base n d = map (\<lambda>i. dec (peek d (base + len * i) len)) [0..<n]"

lemma length_records [simp]: "length (records dec len base n d) = n"
  by (simp add: records_def)

lemma records_nth: "i < n \<Longrightarrow> records dec len base n d ! i = dec (peek d (base + len * i) len)"
  by (simp add: records_def)

lemma records_poke_elsewhere:
  assumes "base + len * n \<le> off \<or> off + length bs \<le> base"
  shows "records dec len base n (poke d off bs) = records dec len base n d"
proof (rule nth_equalityI)
  fix i assume "i < length (records dec len base n (poke d off bs))"
  then have i: "i < n" by simp
  then have "len * i + len \<le> len * n" using mult_le_mono2[of "Suc i" n len] by simp
  then have "peek (poke d off bs) (base + len * i) len = peek d (base + len * i) len"
    using assms by (intro peek_poke_disjoint) linarith
  then show "records dec len base n (poke d off bs) ! i = records dec len base n d ! i" using i by (simp add: records_nth)
qed simp

text \<open>A packed structure: its encoding has a fixed length and decodes to what was encoded.\<close>

locale record_codec =
  fixes len :: nat and enc :: "'r \<Rightarrow> byte list" and dec :: "byte list \<Rightarrow> 'r" and wf :: "'r \<Rightarrow> bool"
  assumes enc_length: "wf x \<Longrightarrow> length (enc x) = len"
    and dec_enc: "wf x \<Longrightarrow> dec (enc x) = x"
begin

text \<open>Writing one record of a table replaces one element of the list.\<close>

lemma records_put:
  assumes "i < n" "wf x"
  shows "records dec len base n (poke d (base + len * i) (enc x)) = (records dec len base n d)[i := x]"
proof (rule nth_equalityI)
  fix j assume "j < length (records dec len base n (poke d (base + len * i) (enc x)))"
  then have j: "j < n" by simp
  show "records dec len base n (poke d (base + len * i) (enc x)) ! j = (records dec len base n d)[i := x] ! j"
  proof (cases "j = i")
    case True
    then show ?thesis using assms by (simp add: records_nth peek_poke_same enc_length dec_enc)
  next
    case False
    then have "Suc j \<le> i \<or> Suc i \<le> j" by linarith
    then have "len * Suc j \<le> len * i \<or> len * Suc i \<le> len * j" using mult_le_mono2 by blast
    then have "base + len * j + len \<le> base + len * i \<or> base + len * i + length (enc x) \<le> base + len * j"
      using assms by (auto simp: enc_length)
    then have "peek (poke d (base + len * i) (enc x)) (base + len * j) len = peek d (base + len * j) len"
      by (rule peek_poke_disjoint)
    then show ?thesis using j False by (simp add: records_nth)
  qed
qed simp

end

section \<open>First matching element\<close>

fun index_of :: "('a \<Rightarrow> bool) \<Rightarrow> 'a list \<Rightarrow> nat option" where
  "index_of P [] = None"
| "index_of P (x # xs) = (if P x then Some 0 else map_option Suc (index_of P xs))"

lemma index_of_None: "index_of P xs = None \<longleftrightarrow> (\<forall>x \<in> set xs. \<not> P x)"
  by (induction xs) auto

lemma index_of_SomeD:
  assumes "index_of P xs = Some i"
  shows "i < length xs" "P (xs ! i)" "\<And>j. j < i \<Longrightarrow> \<not> P (xs ! j)"
proof -
  have "i < length xs \<and> P (xs ! i) \<and> (\<forall>j < i. \<not> P (xs ! j))"
    using assms
  proof (induction xs arbitrary: i)
    case (Cons x xs)
    then show ?case by (cases i) (auto split: if_splits simp: nth_Cons')
  qed simp
  then show "i < length xs" "P (xs ! i)" "\<And>j. j < i \<Longrightarrow> \<not> P (xs ! j)" by auto
qed

lemma index_of_append: "index_of P (xs @ ys) = (case index_of P xs of Some i \<Rightarrow> Some i
    | None \<Rightarrow> map_option (\<lambda>i. length xs + i) (index_of P ys))"
proof (induction xs)
  case Nil
  show ?case by (cases "index_of P ys") simp_all
next
  case (Cons x xs)
  then show ?case by (cases "index_of P ys") (auto split: option.splits)
qed

lemma index_of_ex: "x \<in> set xs \<Longrightarrow> P x \<Longrightarrow> \<exists>i. index_of P xs = Some i"
  using index_of_None[of P xs] by (cases "index_of P xs") auto

text \<open>A table of \<open>b\<close> blocks of \<open>e\<close> records each, read from its block \<open>i\<close> on.\<close>

lemma records_split: "records dec len base (a + b) d = records dec len base a d @ records dec len (base + len * a) b d"
proof -
  have "[0..<a + b] = [0..<a] @ map (\<lambda>i. a + i) [0..<b]"
    using map_add_upt[of a b] by (simp add: upt_add_eq_append[of 0 a b] add.commute)
  then show ?thesis by (simp add: records_def algebra_simps)
qed

end
