(* ===== verification/Kvfs_Util.thy ===== *)
theory Kvfs_Util
  imports Prelude
begin

text \<open>
  \<open>key-value-fs/src/kvfs.h\<close> and \<open>key-value-fs/src/kvfs_util.c\<close>: the constants and macros of kvfs,
  the packed on-disk structures with their byte layout, the conversion between 160-bit keys and
  40-digit file names, and the packing of timestamps. A value of a C type of \<open>w\<close> bits is a word
  of that width in the on-disk structures; \<open>off_t\<close>, \<open>ino_t\<close> and \<open>daddr_t\<close> values that the code
  only adds and shifts as 64-bit patterns are natural numbers below \<open>2 ^ 64\<close>, with the reduction
  written where an operation could leave that range.
\<close>

section \<open>Definitions\<close>

subsection \<open>Constants\<close>

definition BLOCKSIZE :: nat where "BLOCKSIZE = 4096"
definition KVFS_KEY_STRLEN :: nat where "KVFS_KEY_STRLEN = 40"
definition KVFS_SUPERBLOCK_MAGIC :: "16 word" where "KVFS_SUPERBLOCK_MAGIC = 0x666F"
definition KVFS_ROOT_INO :: nat where "KVFS_ROOT_INO = 0x800000008"
definition KVFS_INODE_ACTIVE :: "16 word" where "KVFS_INODE_ACTIVE = 1"
definition KVFS_INODE_FREE :: "16 word" where "KVFS_INODE_FREE = 2"

text \<open>\<open>DEV_BSIZE\<close> and \<open>btodb\<close> of FreeBSD's \<open>sys/param.h\<close>, on unsigned 64-bit values.\<close>

definition DEV_BSIZE :: nat where "DEV_BSIZE = 512"

definition btodb :: "nat \<Rightarrow> nat" where
  "btodb bytes = bytes div DEV_BSIZE"

subsection \<open>On-disk structures\<close>

record kvfs_superblock =
  magicnum :: "16 word"
  superblock_size :: "16 word"
  sb_freelist_off :: "64 word"
  sb_inode_off :: "64 word"
  sb_data_off :: "64 word"
  sb_block_count :: "32 word"
  sb_flags :: "64 word"
  fs_size :: "64 word"

record kvfs_inode =
  i_key :: "byte list"
  i_flags :: "16 word"
  i_ref_count :: "16 word"
  i_timestamp :: "64 word"

text \<open>Sizes of the packed structures, and their little-endian layout (\<open>memcpy\<close> of the structure).\<close>

definition sizeof_superblock :: nat where "sizeof_superblock = 48"
definition sizeof_inode :: nat where "sizeof_inode = 32"

definition encode_superblock :: "kvfs_superblock \<Rightarrow> byte list" where
  "encode_superblock sb =
     le_bytes 2 (unat (magicnum sb)) @ le_bytes 2 (unat (superblock_size sb)) @
     le_bytes 8 (unat (sb_freelist_off sb)) @ le_bytes 8 (unat (sb_inode_off sb)) @
     le_bytes 8 (unat (sb_data_off sb)) @ le_bytes 4 (unat (sb_block_count sb)) @
     le_bytes 8 (unat (sb_flags sb)) @ le_bytes 8 (unat (fs_size sb))"

definition decode_superblock :: "byte list \<Rightarrow> kvfs_superblock" where
  "decode_superblock bs =
     \<lparr>magicnum = word_of_nat (le_val (slice 0 2 bs)),
      superblock_size = word_of_nat (le_val (slice 2 2 bs)),
      sb_freelist_off = word_of_nat (le_val (slice 4 8 bs)),
      sb_inode_off = word_of_nat (le_val (slice 12 8 bs)),
      sb_data_off = word_of_nat (le_val (slice 20 8 bs)),
      sb_block_count = word_of_nat (le_val (slice 28 4 bs)),
      sb_flags = word_of_nat (le_val (slice 32 8 bs)),
      fs_size = word_of_nat (le_val (slice 40 8 bs))\<rparr>"

definition encode_inode :: "kvfs_inode \<Rightarrow> byte list" where
  "encode_inode i =
     i_key i @ le_bytes 2 (unat (i_flags i)) @ le_bytes 2 (unat (i_ref_count i)) @
     le_bytes 8 (unat (i_timestamp i))"

definition decode_inode :: "byte list \<Rightarrow> kvfs_inode" where
  "decode_inode bs =
     \<lparr>i_key = slice 0 20 bs,
      i_flags = word_of_nat (le_val (slice 20 2 bs)),
      i_ref_count = word_of_nat (le_val (slice 22 2 bs)),
      i_timestamp = word_of_nat (le_val (slice 24 8 bs))\<rparr>"

text \<open>The type of the \<open>key\<close> field is \<open>uint8_t[20]\<close>.\<close>

definition wf_inode :: "kvfs_inode \<Rightarrow> bool" where
  "wf_inode i \<longleftrightarrow> length (i_key i) = 20"

text \<open>\<open>struct kvfs_inode x = 0-initialised; x.flags |= KVFS_INODE_FREE\<close>, as \<open>mkkvfs\<close> and \<open>kvfs_remove\<close>
  build it.\<close>

definition empty_inode :: kvfs_inode where
  "empty_inode = \<lparr>i_key = replicate 20 0, i_flags = 0 OR KVFS_INODE_FREE, i_ref_count = 0, i_timestamp = 0\<rparr>"

subsection \<open>Macros\<close>

text \<open>\<open>CEIL(a, b)\<close> and \<open>PAD(bc)\<close> evaluated in the unsigned type of \<open>w\<close> bits of their argument.\<close>

definition CEIL :: "nat \<Rightarrow> nat \<Rightarrow> nat \<Rightarrow> nat" where
  "CEIL w a b = (a + b - 1) mod 2 ^ w div b"

definition PAD :: "nat \<Rightarrow> nat \<Rightarrow> nat" where
  "PAD w bc = CEIL w bc BLOCKSIZE * BLOCKSIZE mod 2 ^ w"

definition INO_TO_BLOCKNUM :: "nat \<Rightarrow> nat" where
  "INO_TO_BLOCKNUM ino = ino div sizeof_inode * BLOCKSIZE mod 2 ^ 64"

definition INO_TO_FREE_BYTE :: "nat \<Rightarrow> nat \<Rightarrow> nat" where
  "INO_TO_FREE_BYTE ino freelist_off = (ino div sizeof_inode div 8 + freelist_off) mod 2 ^ 64"

definition INO_TO_FREE_BIT_MASK :: "nat \<Rightarrow> byte" where
  "INO_TO_FREE_BIT_MASK ino = push_bit (ino div sizeof_inode mod 8) 1"

subsection \<open>Keys\<close>

text \<open>\<open>str[i]\<close> of a NUL-terminated C string. The callers never read past the terminator: the
  terminator is no hexadecimal digit.\<close>

definition str_at :: "string \<Rightarrow> nat \<Rightarrow> char" where
  "str_at str i = (if i < length str then str ! i else CHR 0x00)"

definition hexdigit :: "char \<Rightarrow> int" where
  "hexdigit c = (let v = of_char c :: int in
     if 48 \<le> v \<and> v \<le> 57 then v - 48
     else if (97 \<le> v \<and> v \<le> 102) \<or> (65 \<le> v \<and> v \<le> 70) then v - 97 + 10
     else - 1)"

definition digithex :: "int \<Rightarrow> char" where
  "digithex digit =
     (if digit \<le> 9 then char_of (48 + digit) else char_of (97 + digit - 10))"

function str_to_key_loop :: "string \<Rightarrow> nat \<Rightarrow> byte list \<Rightarrow> int \<times> byte list" where
  "str_to_key_loop str i out_key =
     (if i < 40 then
        (let d = hexdigit (str_at str i) in
         if d = - 1 then (1, out_key)
         else (let shift = (if i mod 2 = 0 then 4 else 0) in
               str_to_key_loop str (i + 1)
                 (out_key[i div 2 := out_key ! (i div 2) OR word_of_int (d * 2 ^ shift)])))
      else (0, out_key))"
  by pat_completeness auto
termination
  by (relation "measure (\<lambda>(str, i, out_key). 40 - i)") auto

text \<open>Returns the C result and the contents of \<open>out_key\<close>, which an error leaves half written.\<close>

definition str_to_key :: "string \<Rightarrow> int \<times> byte list" where
  "str_to_key str = str_to_key_loop str 0 (replicate 20 0)"

fun key_to_str_loop :: "nat \<Rightarrow> byte list \<Rightarrow> string" where
  "key_to_str_loop (Suc len) (b # key) =
     digithex (uint (drop_bit 4 b)) # digithex (uint (b AND 0x0f)) # key_to_str_loop len key"
| "key_to_str_loop _ _ = []"

definition key_to_str :: "byte list \<Rightarrow> string" where
  "key_to_str key = key_to_str_loop 20 key"

subsection \<open>Timestamps\<close>

record timespec =
  tv_sec :: int
  tv_nsec :: int

definition NS_PER_SEC :: nat where "NS_PER_SEC = 1000000000"

definition uint64_to_timespec :: "64 word \<Rightarrow> timespec" where
  "uint64_to_timespec packed =
     (let sec = unat packed div NS_PER_SEC in
      \<lparr>tv_sec = int sec, tv_nsec = int (unat (packed - word_of_nat (sec * NS_PER_SEC)))\<rparr>)"

definition timespec_to_uint64 :: "timespec \<Rightarrow> 64 word" where
  "timespec_to_uint64 ts = word_of_int (tv_sec ts) * word_of_nat NS_PER_SEC + word_of_int (tv_nsec ts)"

lemmas const_defs = BLOCKSIZE_def KVFS_KEY_STRLEN_def DEV_BSIZE_def sizeof_inode_def
  sizeof_superblock_def NS_PER_SEC_def

declare str_to_key_loop.simps [simp del]

section \<open>Layout of the on-disk structures\<close>

lemma length_encode_superblock [simp]: "length (encode_superblock sb) = sizeof_superblock"
  by (simp add: encode_superblock_def sizeof_superblock_def)

lemma length_encode_inode [simp]: "wf_inode i \<Longrightarrow> length (encode_inode i) = sizeof_inode"
  by (simp add: encode_inode_def sizeof_inode_def wf_inode_def)

lemma wf_empty_inode [simp]: "wf_inode empty_inode"
  by (simp add: wf_inode_def empty_inode_def)

lemma wf_decode_inode: "20 \<le> length bs \<Longrightarrow> wf_inode (decode_inode bs)"
  by (simp add: wf_inode_def decode_inode_def)

text \<open>A field of \<open>n\<close> bytes that follows a prefix of the right length is read back.\<close>

lemma slice_field: "length a = off \<Longrightarrow> length b = n \<Longrightarrow> slice off n (a @ b @ c) = b"
  by (simp add: slice_def)

lemma slice_skip: "length a \<le> off \<Longrightarrow> slice off n (a @ b) = slice (off - length a) n b"
  by (simp add: slice_def)

lemma slice_here: "length b = n \<Longrightarrow> slice 0 n (b @ c) = b"
  by (simp add: slice_def)

lemma unat_mod_len: "unat (w :: 'a::len word) mod 2 ^ LENGTH('a) = unat w"
  by simp

lemma le_field [codec_simps]:
  fixes w :: "'a::len word"
  assumes "256 ^ n = (2::nat) ^ LENGTH('a)"
  shows "word_of_nat (le_val (le_bytes n (unat w))) = w"
  using assms by (simp add: le_val_le_bytes)

lemma decode_encode_superblock: "decode_superblock (encode_superblock sb @ rest) = sb"
  by (simp add: decode_superblock_def encode_superblock_def slice_skip slice_here le_field)

lemma decode_encode_inode: "wf_inode i \<Longrightarrow> decode_inode (encode_inode i @ rest) = i"
  by (simp add: decode_inode_def encode_inode_def wf_inode_def slice_skip slice_here le_field)

lemma decode_encode_inode' [codec_simps]: "wf_inode i \<Longrightarrow> decode_inode (encode_inode i) = i"
  using decode_encode_inode[of i "[]"] by simp

lemma decode_inode_prefix: "32 \<le> length bs \<Longrightarrow> decode_inode bs = decode_inode (take 32 bs)"
  by (simp add: decode_inode_def slice_def drop_take min_def)

section \<open>Keys and names\<close>

subsection \<open>The digits\<close>

definition is_hex :: "char \<Rightarrow> bool" where
  "is_hex c \<longleftrightarrow> hexdigit c \<noteq> - 1"

definition is_lower_hex :: "char \<Rightarrow> bool" where
  "is_lower_hex c \<longleftrightarrow> (let v = of_char c :: int in (48 \<le> v \<and> v \<le> 57) \<or> (97 \<le> v \<and> v \<le> 102))"

lemma is_lower_hex_range: "is_lower_hex c \<Longrightarrow> 0 \<le> hexdigit c \<and> hexdigit c < 16"
  by (auto simp: is_lower_hex_def hexdigit_def Let_def)

lemma is_lower_hex_imp: "is_lower_hex c \<Longrightarrow> is_hex c"
  using is_lower_hex_range[of c] by (auto simp: is_hex_def)

lemma hexdigit_digithex: "0 \<le> d \<Longrightarrow> d < 16 \<Longrightarrow> hexdigit (digithex d) = d"
  by (auto simp: hexdigit_def digithex_def of_char_of)

lemma digithex_lower: "0 \<le> d \<Longrightarrow> d < 16 \<Longrightarrow> is_lower_hex (digithex d)"
  by (auto simp: is_lower_hex_def digithex_def of_char_of)

lemma digithex_hexdigit: "is_lower_hex c \<Longrightarrow> digithex (hexdigit c) = c"
  by (auto simp: is_lower_hex_def hexdigit_def digithex_def Let_def)

subsection \<open>The conversion loops\<close>

text \<open>What \<open>str_to_key\<close> contributes to byte \<open>j\<close> of the key: the two digits at \<open>2 * j\<close> and
  \<open>2 * j + 1\<close>, as the code shifts and truncates them.\<close>

definition hi_part :: "string \<Rightarrow> nat \<Rightarrow> byte" where
  "hi_part str j = word_of_int (hexdigit (str_at str (2 * j)) * 2 ^ 4)"

definition lo_part :: "string \<Rightarrow> nat \<Rightarrow> byte" where
  "lo_part str j = word_of_int (hexdigit (str_at str (2 * j + 1)))"

definition key_of :: "string \<Rightarrow> byte list" where
  "key_of str = map (\<lambda>j. hi_part str j OR lo_part str j) [0..<20]"

lemma length_key_of [simp]: "length (key_of str) = 20"
  by (simp add: key_of_def)

lemma str_to_key_loop_ok:
  assumes "i \<le> 40" "length k = 20" "\<forall>j. i \<le> j \<and> j < 40 \<longrightarrow> is_hex (str_at str j)"
  shows "str_to_key_loop str i k =
    (0, map (\<lambda>j. k ! j OR (if i \<le> 2 * j then hi_part str j else 0)
                      OR (if i \<le> 2 * j + 1 then lo_part str j else 0)) [0..<20])"
  using assms
proof (induction str i k rule: str_to_key_loop.induct)
  case (1 str i k)
  show ?case
  proof (cases "i < 40")
    case False
    then have "\<not> i \<le> 2 * j" "\<not> i \<le> 2 * j + 1" if "j < 20" for j
      using 1(2) that by auto
    then have "map (\<lambda>j. k ! j OR (if i \<le> 2 * j then hi_part str j else 0)
        OR (if i \<le> 2 * j + 1 then lo_part str j else 0)) [0..<20] = map (\<lambda>j. k ! j) [0..<20]"
      by (intro map_cong) auto
    also have "\<dots> = k" using 1(3) by (metis map_nth)
    finally show ?thesis using False by (simp add: str_to_key_loop.simps)
  next
    case True
    let ?d = "hexdigit (str_at str i)" and ?s = "if i mod 2 = 0 then 4 else (0::nat)"
    let ?k = "k[i div 2 := k ! (i div 2) OR word_of_int (?d * 2 ^ ?s)]"
    from 1(4) True have d: "?d \<noteq> - 1" by (auto simp: is_hex_def)
    then have step: "str_to_key_loop str i k = str_to_key_loop str (i + 1) ?k"
      using True by (simp add: str_to_key_loop.simps[of str i k] Let_def)
    have ih: "str_to_key_loop str (i + 1) ?k =
      (0, map (\<lambda>j. ?k ! j OR (if i + 1 \<le> 2 * j then hi_part str j else 0)
                         OR (if i + 1 \<le> 2 * j + 1 then lo_part str j else 0)) [0..<20])"
      by (rule 1(1)[OF True refl d refl]) (use 1 True in auto)
    have "?k ! j OR (if i + 1 \<le> 2 * j then hi_part str j else 0)
             OR (if i + 1 \<le> 2 * j + 1 then lo_part str j else 0) =
          k ! j OR (if i \<le> 2 * j then hi_part str j else 0)
             OR (if i \<le> 2 * j + 1 then lo_part str j else 0)" if "j < 20" for j
    proof (cases "j = i div 2")
      case True
      then have i: "i = 2 * j \<or> i = 2 * j + 1" by arith
      then show ?thesis
      proof
        assume "i = 2 * j"
        with that 1(3) show ?thesis by (simp add: hi_part_def or.assoc)
      next
        assume "i = 2 * j + 1"
        with that 1(3) show ?thesis by (simp add: lo_part_def or.assoc)
      qed
    next
      case False
      then have "i + 1 \<le> 2 * j \<longleftrightarrow> i \<le> 2 * j" "i + 1 \<le> 2 * j + 1 \<longleftrightarrow> i \<le> 2 * j + 1"
        by arith+
      with False show ?thesis by simp
    qed
    then show ?thesis unfolding step ih by auto
  qed
qed

lemma str_to_key_loop_bad:
  assumes "i \<le> j" "j < 40" "\<not> is_hex (str_at str j)"
  shows "fst (str_to_key_loop str i k) = 1"
  using assms
proof (induction str i k rule: str_to_key_loop.induct)
  case (1 str i k)
  then have i: "i < 40" by simp
  show ?case
  proof (cases "hexdigit (str_at str i) = - 1")
    case True
    then show ?thesis using i by (simp add: str_to_key_loop.simps)
  next
    case False
    then have "i \<noteq> j" using 1 by (auto simp: is_hex_def)
    with 1 False i show ?thesis by (simp add: str_to_key_loop.simps[of str i k] Let_def)
  qed
qed

lemma str_to_key_ok:
  assumes "\<forall>j < 40. is_hex (str_at str j)"
  shows "str_to_key str = (0, key_of str)"
  using assms by (simp add: str_to_key_def str_to_key_loop_ok key_of_def)

lemma str_to_key_bad: "j < 40 \<Longrightarrow> \<not> is_hex (str_at str j) \<Longrightarrow> fst (str_to_key str) = 1"
  by (simp add: str_to_key_def str_to_key_loop_bad)

lemma str_to_key_cases:
  "str_to_key str = (0, key_of str) \<and> (\<forall>j < 40. is_hex (str_at str j))
   \<or> fst (str_to_key str) = 1 \<and> (\<exists>j < 40. \<not> is_hex (str_at str j))"
  using str_to_key_ok str_to_key_bad by blast

lemma str_to_key_0D: "fst (str_to_key str) = 0 \<Longrightarrow> snd (str_to_key str) = key_of str"
  using str_to_key_cases[of str] by auto

subsection \<open>Round trips\<close>

lemma key_to_str_loop_nth:
  "length ks = n \<Longrightarrow> i < 2 * n \<Longrightarrow> key_to_str_loop n ks ! i =
     digithex (if i mod 2 = 0 then uint (drop_bit 4 (ks ! (i div 2))) else uint (ks ! (i div 2) AND 0x0f))"
proof (induction n ks arbitrary: i rule: key_to_str_loop.induct)
  case (1 n b ks)
  consider "i = 0" | "i = 1" | i' where "i = Suc (Suc i')"
    by (metis One_nat_def not0_implies_Suc)
  then show ?case
  proof cases
    case 3
    then have "i mod 2 = i' mod 2" "i div 2 = Suc (i' div 2)" by auto
    with 1 3 show ?thesis by simp
  qed auto
qed auto

lemma length_key_to_str_loop: "length ks = n \<Longrightarrow> length (key_to_str_loop n ks) = 2 * n"
  by (induction n ks rule: key_to_str_loop.induct) auto

lemma length_key_to_str: "length k = 20 \<Longrightarrow> length (key_to_str k) = 40"
  by (simp add: key_to_str_def length_key_to_str_loop)

lemma uint_hi: "uint (drop_bit 4 (b :: byte)) = uint b div 16"
  by (simp add: drop_bit_eq_div uint_div_distrib)

lemma uint_lo: "uint (b AND 0x0f :: byte) = uint b mod 16"
proof -
  have "b AND 0x0f = take_bit 4 b" using take_bit_eq_mask[of 4 b] by (simp add: mask_eq_exp_minus_1)
  then show ?thesis by (simp add: take_bit_eq_mod uint_mod_distrib)
qed

lemma nibble_hi: "0 \<le> uint (drop_bit 4 (b :: byte)) \<and> uint (drop_bit 4 b) < 16"
proof -
  have "uint (drop_bit 4 b) = uint b div 16" by (rule uint_hi)
  moreover have "0 \<le> uint b" "uint b < 256" using uint_lt2p[of b] by simp_all
  ultimately show ?thesis by (simp add: pos_imp_zdiv_nonneg_iff)
qed

lemma nibble_lo: "0 \<le> uint (b AND 0x0f :: byte) \<and> uint (b AND 0x0f) < 16"
  by (simp add: uint_lo)

lemma nibbles_join: "word_of_int (uint (drop_bit 4 b) * 2 ^ 4) OR word_of_int (uint (b AND 0x0f)) = (b :: byte)"
proof -
  have "word_of_int (uint (drop_bit 4 b) * 2 ^ 4) = push_bit 4 (drop_bit 4 b)"
    by (simp add: push_bit_eq_mult)
  moreover have "b AND 0x0f = take_bit 4 b"
    using take_bit_eq_mask[of 4 b] by (simp add: mask_eq_exp_minus_1)
  moreover have "push_bit 4 (drop_bit 4 b) OR take_bit 4 b = b"
    by (rule bit_eqI) (auto simp: bit_simps not_le)
  ultimately show ?thesis by simp
qed

lemma nibbles_join': "drop_bit 4 b * 16 OR b AND 15 = (b :: byte)"
  using nibbles_join[of b] by simp

lemma byte_bit_ge: "8 \<le> n \<Longrightarrow> \<not> bit (b :: byte) n"
  using bit_imp_le_length[of b n] by auto

lemma hex_pair_value:
  assumes "0 \<le> h" "h < 16" "0 \<le> l" "l < 16"
  shows "uint (word_of_int (h * 2 ^ 4) OR word_of_int l :: byte) = h * 16 + l"
proof -
  let ?h = "word_of_int (h * 2 ^ 4) :: byte" and ?l = "word_of_int l :: byte"
  have ul: "uint ?l = l" and uh: "uint ?h = h * 16"
    using assms by (simp_all only: uint_word_of_int) auto
  have "l = take_bit 4 l" using assms by (simp add: take_bit_eq_mod)
  then have "\<not> bit l n" if "4 \<le> n" for n by (metis bit_take_bit_iff not_less that)
  then have "\<not> bit ?l n" if "4 \<le> n" for n using that by (simp add: bit_word_of_int_iff)
  moreover have "?h = push_bit 4 (word_of_int h)" by (simp add: push_bit_eq_mult mult.commute)
  then have "\<not> bit ?h n" if "n < 4" for n using that by (simp add: bit_push_bit_iff)
  ultimately have "\<not> bit ?h n \<or> \<not> bit ?l n" for n by (cases "n < 4") auto
  then have "?h AND ?l = 0" by (intro bit_eqI) (auto simp: bit_and_iff)
  then have "?h OR ?l = ?h + ?l" by (simp add: disjunctive_add_eq_or)
  then have "uint (?h OR ?l) = (h * 16 + l) mod 256" using ul uh by (simp add: uint_word_ariths)
  then show ?thesis using assms by simp
qed

lemma hex_pair_split:
  assumes "0 \<le> h" "h < 16" "0 \<le> l" "l < 16"
  shows "uint (drop_bit 4 (word_of_int (h * 2 ^ 4) OR word_of_int l :: byte)) = h"
    and "uint ((word_of_int (h * 2 ^ 4) OR word_of_int l) AND 0x0f :: byte) = l"
  using assms by (simp_all only: uint_hi uint_lo hex_pair_value) auto

lemma key_to_str_at:
  assumes "length k = 20" "j < 40"
  shows "str_at (key_to_str k) j =
    digithex (if j mod 2 = 0 then uint (drop_bit 4 (k ! (j div 2))) else uint (k ! (j div 2) AND 0x0f))"
  using assms by (simp add: str_at_def length_key_to_str key_to_str_def key_to_str_loop_nth length_key_to_str_loop)

lemma key_to_str_lower: "length k = 20 \<Longrightarrow> j < 40 \<Longrightarrow> is_lower_hex (str_at (key_to_str k) j)"
  using nibble_hi nibble_lo by (simp add: key_to_str_at digithex_lower)

lemma key_of_key_to_str: "length k = 20 \<Longrightarrow> key_of (key_to_str k) = k"
  unfolding key_of_def hi_part_def lo_part_def
  by (rule nth_equalityI)
    (simp_all add: key_to_str_at hexdigit_digithex nibble_hi nibble_lo nibbles_join')

lemma key_to_str_key_of:
  assumes len: "length str = 40" and lower: "\<forall>c \<in> set str. is_lower_hex c"
  shows "key_to_str (key_of str) = str"
proof (rule nth_equalityI)
  show "length (key_to_str (key_of str)) = length str" by (simp add: length_key_to_str len)
next
  fix i assume "i < length (key_to_str (key_of str))"
  then have i: "i < 40" by (simp add: length_key_to_str)
  have lo: "is_lower_hex (str_at str j)" if "j < 40" for j
    using that lower len by (simp add: str_at_def)
  have ij: "2 * (i div 2) < 40" "2 * (i div 2) + 1 < 40" using i by presburger+
  let ?j = "i div 2" and ?h = "hexdigit (str_at str (2 * (i div 2)))"
  let ?l = "hexdigit (str_at str (2 * (i div 2) + 1))"
  have r: "0 \<le> ?h" "?h < 16" "0 \<le> ?l" "?l < 16"
    using is_lower_hex_range[OF lo[of "2 * (i div 2)"]] is_lower_hex_range[OF lo[of "2 * (i div 2) + 1"]] ij
    by auto
  have "key_of str ! ?j = word_of_int (?h * 2 ^ 4) OR word_of_int ?l"
    using i by (simp add: key_of_def hi_part_def lo_part_def less_mult_imp_div_less)
  with r have "uint (drop_bit 4 (key_of str ! ?j)) = ?h" "uint (key_of str ! ?j AND 0x0f) = ?l"
    by (simp_all only: hex_pair_split)
  then have "str_at (key_to_str (key_of str)) i = digithex (if i mod 2 = 0 then ?h else ?l)"
    using i by (simp add: key_to_str_at)
  also have "\<dots> = str_at str i"
  proof (cases "i mod 2 = 0")
    case True
    then have "2 * ?j = i" by auto
    with True show ?thesis using lo[OF i] by (simp add: digithex_hexdigit)
  next
    case False
    then have "2 * ?j + 1 = i" by presburger
    with False show ?thesis using lo[OF i] by (simp add: digithex_hexdigit)
  qed
  finally show "key_to_str (key_of str) ! i = str ! i"
    using i len by (simp add: str_at_def length_key_to_str)
qed

lemma lower_name_is_hex:
  "length str = 40 \<Longrightarrow> \<forall>c \<in> set str. is_lower_hex c \<Longrightarrow> \<forall>j < 40. is_hex (str_at str j)"
  by (simp add: str_at_def is_lower_hex_imp)

section \<open>Bits of the free bitmap\<close>

lemma bit_free_mask: "bit (INO_TO_FREE_BIT_MASK ino) b \<longleftrightarrow> b = ino div 32 mod 8"
  by (auto simp: INO_TO_FREE_BIT_MASK_def sizeof_inode_def push_bit_of_1 bit_exp_iff)

lemma bit_set_mask: "bit (x OR INO_TO_FREE_BIT_MASK ino) b \<longleftrightarrow> bit x b \<or> b = ino div 32 mod 8"
  by (auto simp: bit_or_iff bit_free_mask)

lemma bit_clear_mask:
  "bit (x AND NOT (INO_TO_FREE_BIT_MASK ino)) b \<longleftrightarrow> bit x b \<and> b \<noteq> ino div 32 mod 8"
  using bit_imp_le_length[of x b] by (auto simp: bit_and_iff bit_not_iff bit_free_mask)

section \<open>Padding\<close>

lemma PAD_eq: "bc + 4095 < 2 ^ w \<Longrightarrow> PAD w bc = (bc + 4095) div 4096 * 4096"
proof -
  assume a: "bc + 4095 < 2 ^ w"
  have "(bc + 4095) div 4096 * 4096 < 2 ^ w"
    using a div_times_less_eq_dividend[of "bc + 4095" 4096] by linarith
  with a show ?thesis by (simp add: PAD_def CEIL_def BLOCKSIZE_def)
qed

lemma PAD_ge: "bc + 4095 < 2 ^ w \<Longrightarrow> bc \<le> PAD w bc"
  by (simp add: PAD_eq)

lemma PAD_dvd: "bc + 4095 < 2 ^ w \<Longrightarrow> 4096 dvd PAD w bc"
  by (simp add: PAD_eq)

section \<open>Timestamps\<close>

lemma uint64_to_timespec_parts:
  "tv_sec (uint64_to_timespec t) = int (unat t div 1000000000)"
  "tv_nsec (uint64_to_timespec t) = int (unat t mod 1000000000)"
proof -
  let ?s = "unat t div 1000000000"
  have le: "?s * 1000000000 \<le> unat t" by simp
  moreover have "unat t < 2 ^ 64" using unsigned_less[of t, where ?'a = nat] by simp
  ultimately have lt: "?s * 1000000000 < 2 ^ 64" by linarith
  then have u: "unat (word_of_nat (?s * 1000000000) :: 64 word) = ?s * 1000000000"
    by (simp only: unat_of_nat) simp
  then have "word_of_nat (?s * 1000000000) \<le> t" using le by (simp only: word_le_nat_alt)
  then have "unat (t - word_of_nat (?s * 1000000000)) = unat t - ?s * 1000000000"
    using u by (simp only: unat_sub)
  then show "tv_nsec (uint64_to_timespec t) = int (unat t mod 1000000000)"
    by (simp only: uint64_to_timespec_def NS_PER_SEC_def Let_def timespec.select_convs
        modulo_nat_def mult.commute minus_div_mult_eq_mod)
  show "tv_sec (uint64_to_timespec t) = int ?s"
    by (simp add: uint64_to_timespec_def NS_PER_SEC_def Let_def)
qed

lemma timespec_to_uint64_eq:
  "timespec_to_uint64 ts = word_of_int (tv_sec ts * 1000000000 + tv_nsec ts)"
  by (simp add: timespec_to_uint64_def NS_PER_SEC_def)

lemma unpack_pack:
  assumes "0 \<le> tv_sec ts" "0 \<le> tv_nsec ts" "tv_nsec ts < 1000000000"
    "tv_sec ts * 1000000000 + tv_nsec ts < 2 ^ 64"
  shows "uint64_to_timespec (timespec_to_uint64 ts) = ts"
proof -
  let ?n = "tv_sec ts * 1000000000 + tv_nsec ts"
  have "unat (timespec_to_uint64 ts) = nat ?n"
    using assms by (simp only: timespec_to_uint64_eq unat_eq_nat_uint uint_word_of_int) simp
  then have "int (unat (timespec_to_uint64 ts)) = ?n" using assms by simp
  then have "tv_sec (uint64_to_timespec (timespec_to_uint64 ts)) = tv_sec ts"
    "tv_nsec (uint64_to_timespec (timespec_to_uint64 ts)) = tv_nsec ts"
    using assms by (simp_all only: uint64_to_timespec_parts zdiv_int zmod_int of_nat_numeral) simp_all
  then show ?thesis by simp
qed

section \<open>Properties\<close>

text \<open>Printing a 160-bit key and parsing the printed name gives the key back, and the printed
  name has the 40 characters that \<open>kvfs_lookup\<close> asks of a file name.\<close>

theorem key_name_roundtrip:
  assumes "length k = 20"
  shows "str_to_key (key_to_str k) = (0, k) \<and> length (key_to_str k) = KVFS_KEY_STRLEN"
proof -
  have "\<forall>j < 40. is_hex (str_at (key_to_str k) j)"
    using assms key_to_str_lower is_lower_hex_imp by blast
  then show ?thesis
    using assms by (simp add: str_to_key_ok key_of_key_to_str length_key_to_str KVFS_KEY_STRLEN_def)
qed

theorem key_name_roundtrip_witness:
  "length (replicate 20 (0xab :: byte)) = 20 \<and>
   str_to_key (key_to_str (replicate 20 0xab)) = (0, replicate 20 0xab)"
  using key_name_roundtrip[of "replicate 20 0xab"] by simp

text \<open>C38: Parsing a name of 40 lower-case hexadecimal digits succeeds, and printing the key gives the
  name back: no two such names denote the same file.\<close>

theorem name_key_roundtrip:
  assumes "length str = 40" and "\<forall>c \<in> set str. is_lower_hex c"
  shows "fst (str_to_key str) = 0 \<and> key_to_str (snd (str_to_key str)) = str"
  using assms by (simp add: str_to_key_ok lower_name_is_hex key_to_str_key_of)

theorem name_key_roundtrip_witness:
  "fst (str_to_key (replicate 40 (CHR ''c''))) = 0 \<and>
   key_to_str (snd (str_to_key (replicate 40 (CHR ''c'')))) = replicate 40 (CHR ''c'')"
  by (rule name_key_roundtrip) (simp_all add: is_lower_hex_def)

text \<open>\<open>str_to_key\<close> succeeds on a string exactly when its first 40 characters are decimal digits or
  letters up to \<open>f\<close> of either case; a shorter string and every other character is refused.\<close>

theorem str_to_key_accepts:
  "fst (str_to_key str) = 0 \<longleftrightarrow>
     (\<forall>j < 40. is_lower_hex (str_at str j) \<or> of_char (str_at str j) \<in> {65 .. 70 :: int})"
proof -
  have "is_hex c \<longleftrightarrow> is_lower_hex c \<or> of_char c \<in> {65 .. 70 :: int}" for c
    by (auto simp: is_hex_def is_lower_hex_def hexdigit_def Let_def)
  moreover have "fst (str_to_key str) = 0 \<longleftrightarrow> (\<forall>j < 40. is_hex (str_at str j))"
    using str_to_key_cases[of str] by auto
  ultimately show ?thesis by simp
qed

theorem str_to_key_accepts_witness:
  "fst (str_to_key ''short'') = 1 \<and> \<not> is_hex (str_at ''short'' 0)"
proof -
  have h: "\<not> is_hex (str_at ''short'' 0)" by (simp add: is_hex_def hexdigit_def str_at_def)
  then have "\<not> (is_lower_hex (str_at ''short'' 0) \<or> of_char (str_at ''short'' 0) \<in> {65 .. 70 :: int})"
    by (simp add: is_lower_hex_def str_at_def)
  then have "fst (str_to_key ''short'') \<noteq> 0"
    unfolding str_to_key_accepts by (metis zero_less_numeral)
  with h show ?thesis using str_to_key_cases[of "''short''"] by auto
qed

text \<open>An upper-case digit is accepted but not read as its value: \<open>hexdigit\<close> subtracts \<open>'a'\<close> from it
  as well and returns a negative number other than \<open>-1\<close>, so a name that holds one is stored under
  a key that prints as a different name.\<close>

theorem uppercase_digit_misread:
  assumes "of_char c \<in> {65 .. 70 :: int}"
  shows "hexdigit c = of_char c - 65 + 10 - 32 \<and> hexdigit c < - 1"
  using assms by (auto simp: hexdigit_def Let_def)

theorem uppercase_digit_misread_witness:
  "hexdigit (CHR ''A'') = - 22 \<and>
   key_to_str (snd (str_to_key (''0A'' @ replicate 38 (CHR ''0'')))) = ''ea'' @ replicate 38 (CHR ''0'')"
proof
  show "hexdigit (CHR ''A'') = - 22" using uppercase_digit_misread[of "CHR ''A''"] by simp
next
  show "key_to_str (snd (str_to_key (''0A'' @ replicate 38 (CHR ''0'')))) = ''ea'' @ replicate 38 (CHR ''0'')"
    by code_simp
qed

text \<open>Unpacking the 64-bit nanosecond count of an inode and packing it again is the identity, and
  the unpacked time is normalised: the nanoseconds are less than a second.\<close>

theorem timestamp_roundtrip:
  "timespec_to_uint64 (uint64_to_timespec t) = t \<and>
   0 \<le> tv_nsec (uint64_to_timespec t) \<and> tv_nsec (uint64_to_timespec t) < int NS_PER_SEC"
proof -
  have "int (unat t div 1000000000) * 1000000000 + int (unat t mod 1000000000) = int (unat t)"
    using div_mult_mod_eq[of "unat t" 1000000000] by linarith
  then have "timespec_to_uint64 (uint64_to_timespec t) = word_of_int (int (unat t))"
    by (simp only: timespec_to_uint64_eq uint64_to_timespec_parts)
  then show ?thesis by (simp add: uint64_to_timespec_parts NS_PER_SEC_def)
qed

end
