(* ===== verification/Kernel_Iface.thy ===== *)
theory Kernel_Iface
  imports Kvfs_Util
begin

text \<open>
  The FreeBSD kernel as the file systems see it. Its functions are not part of the repository: each
  one the sources call is a field of the record \<open>kern\<close>, a parameter of the models, over a kernel
  state of arbitrary type. The locale \<open>healthy_kernel\<close> states the documented behaviour the
  functional theorems rely on: the buffer cache reads and writes the device, the vnode hash maps
  inode numbers to vnodes, \<open>uiomove\<close> transfers what is asked for. A theorem without it holds for every
  behaviour of the kernel. \<open>ram_kern\<close> is a kernel over a memory disk that meets the contract.
\<close>

section \<open>Definitions\<close>

type_synonym vid = nat \<comment> \<open>a vnode pointer\<close>

text \<open>The fields of \<open>struct buf\<close> the sources use.\<close>

record buf =
  b_blkno :: nat
  b_data :: "byte list"
  b_resid :: nat

text \<open>\<open>struct uio\<close>: the file offset, the bytes left to move, and the user's side of the transfer: the
  bytes received so far on a read, the bytes still to be fetched on a write.\<close>

record uio =
  uio_offset :: int
  uio_resid :: nat
  uio_user :: "byte list"

text \<open>\<open>struct dirent\<close> and the \<open>uio\<close> of a directory read, which receives whole entries.\<close>

record dirent =
  d_fileno :: nat
  d_off :: nat
  d_reclen :: nat
  d_type :: nat
  d_namlen :: nat
  d_name :: string

record dir_uio =
  du_offset :: int
  du_resid :: nat
  du_user :: "dirent list"

record 'k kern =
  k_bread :: "'k \<Rightarrow> nat \<Rightarrow> nat \<Rightarrow> errno \<times> buf option \<times> 'k"
  k_bwrite :: "'k \<Rightarrow> buf \<Rightarrow> errno \<times> 'k"
  k_getblk :: "'k \<Rightarrow> nat \<Rightarrow> nat \<Rightarrow> buf \<times> 'k"
  k_brelse :: "'k \<Rightarrow> buf \<Rightarrow> 'k"
  k_uiomove_out :: "'k \<Rightarrow> byte list \<Rightarrow> nat \<Rightarrow> uio \<Rightarrow> errno \<times> uio \<times> 'k"
  k_uiomove_in :: "'k \<Rightarrow> nat \<Rightarrow> uio \<Rightarrow> errno \<times> byte list \<times> uio \<times> 'k"
  k_uiomove_dirent :: "'k \<Rightarrow> dirent \<Rightarrow> nat \<Rightarrow> dir_uio \<Rightarrow> errno \<times> dir_uio \<times> 'k"
  k_vfs_hash_get :: "'k \<Rightarrow> nat \<Rightarrow> nat \<Rightarrow> errno \<times> vid option \<times> 'k"
  k_vfs_hash_insert :: "'k \<Rightarrow> vid \<Rightarrow> nat \<Rightarrow> nat \<Rightarrow> errno \<times> vid option \<times> 'k"
  k_vfs_hash_remove :: "'k \<Rightarrow> vid \<Rightarrow> 'k"
  k_getnewvnode :: "'k \<Rightarrow> errno \<times> vid \<times> 'k"
  k_vn_lock :: "'k \<Rightarrow> vid \<Rightarrow> errno \<times> 'k"
  k_insmntque :: "'k \<Rightarrow> vid \<Rightarrow> errno \<times> 'k"
  k_unlock :: "'k \<Rightarrow> vid \<Rightarrow> 'k"
  k_vref :: "'k \<Rightarrow> vid \<Rightarrow> 'k"
  k_vrele :: "'k \<Rightarrow> vid \<Rightarrow> 'k"
  k_vput :: "'k \<Rightarrow> vid \<Rightarrow> 'k"
  k_vrecycle :: "'k \<Rightarrow> vid \<Rightarrow> 'k"
  k_vfs_timestamp :: "'k \<Rightarrow> timespec \<times> 'k"

section \<open>The contract\<close>

text \<open>\<open>img k\<close> is the device seen through the buffer cache, \<open>hash k\<close> the vnode hash of the mount,
  \<open>devsize\<close> the size of the device. Block numbers count \<open>DEV_BSIZE\<close> units.\<close>

locale healthy_kernel =
  fixes K :: "'k kern" and img :: "'k \<Rightarrow> image" and hash :: "'k \<Rightarrow> nat \<rightharpoonup> vid" and devsize :: nat
  assumes bread: "512 * b + n \<le> devsize \<Longrightarrow> \<exists>k'. k_bread K k b n =
      (0, Some \<lparr>b_blkno = b, b_data = peek (img k) (512 * b) n, b_resid = 0\<rparr>, k') \<and> img k' = img k \<and> hash k' = hash k"
    and bwrite: "512 * b_blkno bp + length (b_data bp) \<le> devsize \<Longrightarrow> \<exists>k'. k_bwrite K k bp = (0, k') \<and>
      img k' = poke (img k) (512 * b_blkno bp) (b_data bp) \<and> hash k' = hash k"
    and getblk: "512 * b + n \<le> devsize \<Longrightarrow> \<exists>bp k'. k_getblk K k b n = (bp, k') \<and> b_blkno bp = b \<and>
      length (b_data bp) = n \<and> img k' = img k \<and> hash k' = hash k"
    and uiomove_out: "n \<le> length bs \<Longrightarrow> \<exists>k'. k_uiomove_out K k bs n u =
      (0, u\<lparr>uio_offset := uio_offset u + int (min n (uio_resid u)), uio_resid := uio_resid u - min n (uio_resid u),
           uio_user := uio_user u @ take (min n (uio_resid u)) bs\<rparr>, k') \<and> img k' = img k \<and> hash k' = hash k"
    and uiomove_in: "uio_resid u \<le> length (uio_user u) \<Longrightarrow> \<exists>k'. k_uiomove_in K k n u =
      (0, take (min n (uio_resid u)) (uio_user u),
       u\<lparr>uio_offset := uio_offset u + int (min n (uio_resid u)), uio_resid := uio_resid u - min n (uio_resid u),
         uio_user := drop (min n (uio_resid u)) (uio_user u)\<rparr>, k') \<and> img k' = img k \<and> hash k' = hash k"
    and uiomove_dirent: "n \<le> du_resid du \<Longrightarrow> \<exists>k'. k_uiomove_dirent K k d n du =
      (0, du\<lparr>du_offset := du_offset du + int n, du_resid := du_resid du - n, du_user := du_user du @ [d]\<rparr>, k') \<and>
      img k' = img k \<and> hash k' = hash k"
    and hash_get: "\<exists>k'. k_vfs_hash_get K k ino fl = (0, hash k ino, k') \<and> img k' = img k \<and> hash k' = hash k"
    and hash_insert: "hash k ino = None \<Longrightarrow> \<exists>k'. k_vfs_hash_insert K k vp ino fl = (0, None, k') \<and>
      img k' = img k \<and> hash k' = (hash k)(ino \<mapsto> vp)"
    and hash_remove [simp]: "hash (k_vfs_hash_remove K k vp) = (\<lambda>i. if hash k i = Some vp then None else hash k i)"
      "img (k_vfs_hash_remove K k vp) = img k"
    and getnewvnode: "\<exists>vp k'. k_getnewvnode K k = (0, vp, k') \<and> vp \<notin> ran (hash k) \<and> img k' = img k \<and> hash k' = hash k"
    and vn_lock: "\<exists>k'. k_vn_lock K k vp = (0, k') \<and> img k' = img k \<and> hash k' = hash k"
    and insmntque: "\<exists>k'. k_insmntque K k vp = (0, k') \<and> img k' = img k \<and> hash k' = hash k"
    and timestamp: "\<exists>ts k'. k_vfs_timestamp K k = (ts, k') \<and> img k' = img k \<and> hash k' = hash k"
    and neutral_img [simp]: "img (k_brelse K k bp) = img k" "img (k_unlock K k vp) = img k"
      "img (k_vref K k vp) = img k" "img (k_vrele K k vp) = img k" "img (k_vput K k vp) = img k"
    and neutral_hash [simp]: "hash (k_brelse K k bp) = hash k" "hash (k_unlock K k vp) = hash k"
      "hash (k_vref K k vp) = hash k" "hash (k_vrele K k vp) = hash k" "hash (k_vput K k vp) = hash k"
begin

text \<open>Read a sector, change bytes within it, write it back: the one way kvfs changes metadata.\<close>

lemma read_modify_write:
  assumes dev: "512 * b + 512 \<le> devsize" and range: "p + length ys \<le> 512"
  shows "\<exists>bp k1 k2. k_bread K k b 512 = (0, Some bp, k1) \<and> b_data bp = peek (img k) (512 * b) 512 \<and>
    k_bwrite K k1 (bp\<lparr>b_data := overlay p ys (b_data bp)\<rparr>) = (0, k2) \<and>
    img k2 = poke (img k) (512 * b + p) ys \<and> hash k2 = hash k"
proof -
  obtain k1 where k1: "k_bread K k b 512 =
      (0, Some \<lparr>b_blkno = b, b_data = peek (img k) (512 * b) 512, b_resid = 0\<rparr>, k1)"
    "img k1 = img k" "hash k1 = hash k"
    using bread[OF dev] by blast
  let ?bp = "\<lparr>b_blkno = b, b_data = overlay p ys (peek (img k) (512 * b) 512), b_resid = 0\<rparr>"
  obtain k2 where k2: "k_bwrite K k1 ?bp = (0, k2)"
    "img k2 = poke (img k) (512 * b) (overlay p ys (peek (img k) (512 * b) 512))" "hash k2 = hash k"
    using bwrite[of ?bp k1] dev range k1 by auto
  then show ?thesis using k1 range by (auto simp: poke_overlay)
qed

end

section \<open>A kernel over a memory disk\<close>

text \<open>The contract can be met: the state is the device contents, the vnode hash and a vnode counter.\<close>

record ram =
  ram_img :: image
  ram_hash :: "(nat \<times> vid) list"
  ram_next :: vid

definition ram_lookup :: "ram \<Rightarrow> nat \<rightharpoonup> vid" where
  "ram_lookup k = map_of (ram_hash k)"

definition ram_kern :: "nat \<Rightarrow> timespec \<Rightarrow> ram kern" where
  "ram_kern dsize now =
     \<lparr>k_bread = (\<lambda>k b n. if 512 * b + n \<le> dsize then
          (0, Some \<lparr>b_blkno = b, b_data = peek (ram_img k) (512 * b) n, b_resid = 0\<rparr>, k) else (EIO, None, k)),
      k_bwrite = (\<lambda>k bp. if 512 * b_blkno bp + length (b_data bp) \<le> dsize then
          (0, k\<lparr>ram_img := poke (ram_img k) (512 * b_blkno bp) (b_data bp)\<rparr>) else (EIO, k)),
      k_getblk = (\<lambda>k b n. (\<lparr>b_blkno = b, b_data = replicate n 0xff, b_resid = 0\<rparr>, k)),
      k_brelse = (\<lambda>k bp. k),
      k_uiomove_out = (\<lambda>k bs n u. (0, u\<lparr>uio_offset := uio_offset u + int (min n (uio_resid u)),
          uio_resid := uio_resid u - min n (uio_resid u),
          uio_user := uio_user u @ take (min n (uio_resid u)) bs\<rparr>, k)),
      k_uiomove_in = (\<lambda>k n u. (0, take (min n (uio_resid u)) (uio_user u),
          u\<lparr>uio_offset := uio_offset u + int (min n (uio_resid u)), uio_resid := uio_resid u - min n (uio_resid u),
            uio_user := drop (min n (uio_resid u)) (uio_user u)\<rparr>, k)),
      k_uiomove_dirent = (\<lambda>k d n du.
          (0, du\<lparr>du_offset := du_offset du + int n, du_resid := du_resid du - n, du_user := du_user du @ [d]\<rparr>, k)),
      k_vfs_hash_get = (\<lambda>k ino fl. (0, ram_lookup k ino, k)),
      k_vfs_hash_insert = (\<lambda>k vp ino fl. (0, None, k\<lparr>ram_hash := (ino, vp) # ram_hash k, ram_next := max (ram_next k) (Suc vp)\<rparr>)),
      k_vfs_hash_remove = (\<lambda>k vp. k\<lparr>ram_hash := filter (\<lambda>(i, v). ram_lookup k i \<noteq> Some vp) (ram_hash k)\<rparr>),
      k_getnewvnode = (\<lambda>k. (0, Suc (foldr max (map snd (ram_hash k)) (ram_next k)), k)),
      k_vn_lock = (\<lambda>k vp. (0, k)),
      k_insmntque = (\<lambda>k vp. (0, k)),
      k_unlock = (\<lambda>k vp. k), k_vref = (\<lambda>k vp. k), k_vrele = (\<lambda>k vp. k), k_vput = (\<lambda>k vp. k),
      k_vrecycle = (\<lambda>k vp. k),
      k_vfs_timestamp = (\<lambda>k. (now, k))\<rparr>"

lemma map_of_filter_key: "map_of (filter (\<lambda>(i, v). P i) xs) k = (if P k then map_of xs k else None)"
  by (induction xs) auto

lemma foldr_max_ge: "x \<in> set xs \<Longrightarrow> x \<le> foldr max xs (a :: nat)"
  by (induction xs) (auto simp: le_max_iff_disj)

lemma ram_fresh: "Suc (foldr max (map snd h) a) \<notin> ran (map_of h)"
proof
  assume "Suc (foldr max (map snd h) a) \<in> ran (map_of h)"
  then obtain i where "(i, Suc (foldr max (map snd h) a)) \<in> set h"
    by (auto simp: ran_def dest: map_of_SomeD)
  then have "Suc (foldr max (map snd h) a) \<in> set (map snd h)" by force
  then show False using foldr_max_ge[of "Suc (foldr max (map snd h) a)" "map snd h" a] by simp
qed

interpretation ram: healthy_kernel "ram_kern dsize now" ram_img ram_lookup dsize
  by unfold_locales (auto simp: ram_kern_def ram_lookup_def map_of_filter_key ram_fresh fun_eq_iff)

end
