(* ===== verification/Kvfs_Vfsops.thy ===== *)
theory Kvfs_Vfsops
  imports Kernel_Iface
begin

text \<open>
  \<open>key-value-fs/src/kvfs_vfsops.c\<close> and the kernel-only structures of \<open>kvfs.h\<close>: mounting a device
  (superblock check, free list built from the on-disk bitmap, release of resources on failure),
  unmounting, the file system statistics, and the vnode cache \<open>kvfs_vget_internal\<close>, which reads an
  inode from disk or allocates it. The state of a mounted file system is the record \<open>fs\<close>: the kernel
  state (with the device), the mount structure, and the vnodes. A handler returns the error number,
  its output argument and the new state, or the fault that stops the kernel.
\<close>

section \<open>Definitions\<close>

subsection \<open>State\<close>

record kvfs_memnode =
  m_ino :: nat
  m_lbn :: nat
  m_inode :: kvfs_inode

record kvfs_mount_t =
  freelist_off :: nat
  inode_off :: nat
  data_off :: nat
  block_count :: nat
  flags :: "64 word"
  freelist :: "nat list"
  freelist_count :: "32 word"

text \<open>The memory of \<open>kvfs_mount\<close> is allocated with \<open>M_ZERO\<close>.\<close>

definition zero_mount :: kvfs_mount_t where
  "zero_mount = \<lparr>freelist_off = 0, inode_off = 0, data_off = 0, block_count = 0, flags = 0,
     freelist = [], freelist_count = 0\<rparr>"

datatype vtype = VNON | VREG | VDIR

record vnode =
  v_data :: "kvfs_memnode option"
  v_root :: bool \<comment> \<open>\<open>v_vflag & VV_ROOT\<close>\<close>
  v_type :: vtype
  v_mount :: nat

definition new_vnode :: vnode where
  "new_vnode = \<lparr>v_data = None, v_root = False, v_type = VNON, v_mount = 0\<rparr>"

record 'k fs =
  kst :: 'k
  mnt :: kvfs_mount_t
  mnt_id :: nat \<comment> \<open>the address of the \<open>struct mount\<close>\<close>
  vns :: "vid \<Rightarrow> vnode"

type_synonym 'k vget_result = "fault + errno \<times> vid option \<times> 'k fs"

definition set_vnode :: "vid \<Rightarrow> vnode \<Rightarrow> 'k fs \<Rightarrow> 'k fs" where
  "set_vnode vp v s = s\<lparr>vns := (vns s)(vp := v)\<rparr>"

subsection \<open>Module load and unload\<close>

text \<open>\<open>kvfs_zone_node\<close> is the only global of the module; \<open>uma_zcreate\<close> gives it or fails.\<close>

definition kvfs_init :: "nat option \<Rightarrow> nat option \<Rightarrow> errno \<times> nat option" where
  "kvfs_init created zone = (case created of None \<Rightarrow> (ENOMEM, None) | Some z \<Rightarrow> (0, Some z))"

definition kvfs_uninit :: "nat option \<Rightarrow> errno \<times> nat option" where
  "kvfs_uninit zone = (case zone of Some z \<Rightarrow> (0, None) | None \<Rightarrow> (0, zone))"

subsection \<open>Mounting\<close>

text \<open>What the kernel answers during a mount and an unmount, and what it keeps of the device: the
  mount point it belongs to (\<open>0\<close> for none), the references on the device and on its vnode, the
  vnode lock, the GEOM consumer, and the fields of \<open>struct mount\<close> the code sets. \<open>Dangling\<close> is a
  pointer to freed memory.\<close>

datatype mnt_data = NoData | MountData kvfs_mount_t | Dangling

record mount_env =
  e_getopt :: errno
  e_namei :: errno
  e_isdisk :: errno
  e_g_vfs_open :: errno
  e_vflush :: errno

record 'k mstate =
  d_kst :: 'k
  si_mountpt :: nat
  dev_refs :: int
  devvp_refs :: int
  devvp_locked :: bool
  g_open :: bool
  mnt_data :: mnt_data
  mnt_local :: bool
  mntk_uses_bcache :: bool

text \<open>One byte of the free bitmap, most significant bit first: the inner loop of \<open>kvfs_mount\<close>.\<close>

function scan_byte :: "nat \<Rightarrow> nat \<Rightarrow> byte \<Rightarrow> byte \<Rightarrow> nat \<Rightarrow> nat list \<times> 32 word \<Rightarrow> nat list \<times> 32 word" where
  "scan_byte bc i b msk j (fl, cnt) =
     (if msk = 0 then (fl, cnt)
      else if b AND msk = 0 then
        (if bc \<le> i * 8 + j then (fl, cnt)
         else scan_byte bc i b (drop_bit 1 msk) (j + 1) ((i * 8 * sizeof_inode + j * sizeof_inode) # fl, cnt + 1))
      else scan_byte bc i b (drop_bit 1 msk) (j + 1) (fl, cnt))"
  by pat_completeness auto

lemma halve_less: "(w :: 'a::len word) \<noteq> 0 \<Longrightarrow> unat (drop_bit (Suc 0) w) < unat w"
proof -
  assume "w \<noteq> 0"
  then have "unat w \<noteq> 0" by (simp add: unat_eq_zero)
  then show ?thesis unfolding unat_drop_bit_eq by (simp add: drop_bit_nat_def)
qed

termination scan_byte
  by (relation "measure (\<lambda>(bc, i, b, msk, j, acc). unat msk)") (simp_all add: halve_less)

declare scan_byte.simps [simp del]

definition scan_freelist :: "nat \<Rightarrow> nat \<Rightarrow> byte list \<Rightarrow> nat list \<times> 32 word" where
  "scan_freelist bc freelist_bytes data =
     fold (\<lambda>i. scan_byte bc i (data ! i) (push_bit 7 1) 0) [0..<freelist_bytes] ([], 0)"

text \<open>The label \<open>error_exit\<close>.\<close>

definition mount_error_exit :: "'k kern \<Rightarrow> buf option \<Rightarrow> 'k mstate \<Rightarrow> 'k mstate" where
  "mount_error_exit K bp st = st
     \<lparr>mnt_data := Dangling,
      d_kst := (case bp of Some b \<Rightarrow> k_brelse K (d_kst st) b | None \<Rightarrow> d_kst st),
      g_open := False,
      dev_refs := dev_refs st - 1,
      si_mountpt := 0\<rparr>"

text \<open>From the first \<open>bread\<close> on: superblock, then free list.\<close>

definition mount_read_freelist :: "'k kern \<Rightarrow> kvfs_mount_t \<Rightarrow> 'k mstate \<Rightarrow> fault + errno \<times> 'k mstate" where
  "mount_read_freelist K m st =
     (let freelist_bytes = CEIL 32 (block_count m) 8 in
      case k_bread K (d_kst st) (btodb (freelist_off m)) (PAD 32 freelist_bytes) of (error, bp, k) \<Rightarrow>
      if error \<noteq> 0 then Inr (error, mount_error_exit K bp (st\<lparr>d_kst := k\<rparr>))
      else case bp of None \<Rightarrow> Inl NullDeref
      | Some b \<Rightarrow>
        if length (b_data b) < freelist_bytes then Inl OutOfBounds
        else (case scan_freelist (block_count m) freelist_bytes (b_data b) of (fl, cnt) \<Rightarrow>
          Inr (0, st\<lparr>d_kst := k_brelse K k b, mnt_data := MountData (m\<lparr>freelist := fl, freelist_count := cnt\<rparr>)\<rparr>)))"

definition mount_read_superblock :: "'k kern \<Rightarrow> 'k mstate \<Rightarrow> fault + errno \<times> 'k mstate" where
  "mount_read_superblock K st =
     (case k_bread K (d_kst st) 0 BLOCKSIZE of (error, bp, k) \<Rightarrow>
      if error \<noteq> 0 then Inr (error, mount_error_exit K bp (st\<lparr>d_kst := k\<rparr>))
      else case bp of None \<Rightarrow> Inl NullDeref
      | Some b \<Rightarrow>
        if length (b_data b) < sizeof_superblock then Inl OutOfBounds
        else let sb = decode_superblock (slice 0 sizeof_superblock (b_data b)) in
          if magicnum sb \<noteq> KVFS_SUPERBLOCK_MAGIC then Inr (EINVAL, mount_error_exit K bp (st\<lparr>d_kst := k\<rparr>))
          else mount_read_freelist K
            (zero_mount\<lparr>flags := sb_flags sb, inode_off := unat (sb_inode_off sb),
               freelist_off := unat (sb_freelist_off sb), data_off := unat (sb_data_off sb),
               block_count := unat (sb_block_count sb), freelist := [], freelist_count := 0\<rparr>)
            (st\<lparr>d_kst := k_brelse K k b\<rparr>))"

definition kvfs_mount :: "'k kern \<Rightarrow> mount_env \<Rightarrow> nat \<Rightarrow> bool \<Rightarrow> 'k mstate \<Rightarrow> fault + errno \<times> 'k mstate" where
  "kvfs_mount K e mp updating st =
     (if updating then Inr (EOPNOTSUPP, st)
      else if e_getopt e \<noteq> 0 then Inr (EINVAL, st)
      else if e_namei e \<noteq> 0 then Inr (e_namei e, st)
      else let st = st\<lparr>devvp_refs := devvp_refs st + 1, devvp_locked := True\<rparr> in
      if e_isdisk e \<noteq> 0 then Inr (e_isdisk e, st\<lparr>devvp_refs := devvp_refs st - 1, devvp_locked := False\<rparr>)
      else if si_mountpt st \<noteq> 0 then Inr (EBUSY, st\<lparr>devvp_locked := False\<rparr>)
      else let st = st\<lparr>si_mountpt := mp\<rparr> in
      if e_g_vfs_open e \<noteq> 0 then Inr (e_g_vfs_open e, st\<lparr>si_mountpt := 0, devvp_locked := False\<rparr>)
      else mount_read_superblock K
        (st\<lparr>g_open := True, dev_refs := dev_refs st + 1, devvp_locked := False,
            mnt_data := MountData zero_mount, mnt_local := True, mntk_uses_bcache := True\<rparr>))"

definition kvfs_unmount :: "mount_env \<Rightarrow> 'k mstate \<Rightarrow> fault + errno \<times> 'k mstate" where
  "kvfs_unmount e st =
     (if e_vflush e \<noteq> 0 then Inr (e_vflush e, st)
      else case mnt_data st of
        NoData \<Rightarrow> Inl NullDeref
      | Dangling \<Rightarrow> Inl OutOfBounds
      | MountData m \<Rightarrow> Inr (0, st\<lparr>g_open := False, si_mountpt := 0, devvp_refs := devvp_refs st - 1,
          dev_refs := dev_refs st - 1, mnt_data := NoData, mnt_local := False\<rparr>))"

subsection \<open>Statistics\<close>

record statfs =
  f_bsize :: nat
  f_iosize :: nat
  f_blocks :: nat
  f_bfree :: nat
  f_bavail :: nat
  f_files :: nat
  f_ffree :: nat
  f_namemax :: nat

definition kvfs_statfs :: "'k fs \<Rightarrow> errno \<times> statfs" where
  "kvfs_statfs s =
     (let m = mnt s in
      (0, \<lparr>f_bsize = BLOCKSIZE, f_iosize = BLOCKSIZE, f_blocks = block_count m,
           f_bfree = unat (freelist_count m), f_bavail = unat (freelist_count m),
           f_files = unat (word_of_nat (block_count m) - freelist_count m),
           f_ffree = unat (freelist_count m), f_namemax = KVFS_KEY_STRLEN\<rparr>))"

definition kvfs_sync :: "'k fs \<Rightarrow> errno \<times> 'k fs" where
  "kvfs_sync s = (0, s)"

subsection \<open>Vnodes\<close>

definition LK_EXCLUSIVE :: "32 word" where "LK_EXCLUSIVE = 0x080000"
definition LK_SHARED :: "32 word" where "LK_SHARED = 0x200000"
definition LK_TYPE_MASK :: "32 word" where "LK_TYPE_MASK = 0xFF0000"

text \<open>The promotion of a shared lock request.\<close>

definition promote_lock :: "32 word \<Rightarrow> 32 word" where
  "promote_lock fl = (if fl AND LK_TYPE_MASK = LK_SHARED then fl AND NOT LK_TYPE_MASK OR LK_EXCLUSIVE else fl)"

text \<open>The label \<open>error_exit\<close> of \<open>kvfs_vget_internal\<close>.\<close>

definition vget_error_exit :: "'k kern \<Rightarrow> vid \<Rightarrow> buf \<Rightarrow> errno \<Rightarrow> 'k fs \<Rightarrow> 'k vget_result" where
  "vget_error_exit K node bp error s =
     (let k = k_brelse K (kst s) bp;
          k = k_vfs_hash_remove K k node;
          k = k_vput K k node
      in Inr (error, None, set_vnode node ((vns s node)\<lparr>v_data := None\<rparr>) (s\<lparr>kst := k\<rparr>)))"

text \<open>The vnode is complete: set its type and hand it out.\<close>

definition vget_finish :: "vid \<Rightarrow> nat \<Rightarrow> kvfs_memnode \<Rightarrow> 'k fs \<Rightarrow> 'k vget_result" where
  "vget_finish node ino knp s =
     (let v = (vns s node)\<lparr>v_data := Some knp\<rparr> in
      Inr (0, Some node, set_vnode node
        (if ino = KVFS_ROOT_INO then v\<lparr>v_root := True, v_type := VDIR\<rparr> else v\<lparr>v_type := VREG\<rparr>) s))"

text \<open>Read the inode from its sector; allocate it under the key when it is free.\<close>

definition vget_load :: "'k kern \<Rightarrow> vid \<Rightarrow> nat \<Rightarrow> string option \<Rightarrow> 'k fs \<Rightarrow> 'k vget_result" where
  "vget_load K node ino keystr s =
     (let m = mnt s;
          lbn = btodb ((data_off m + INO_TO_BLOCKNUM ino) mod 2 ^ 64);
          loc = (inode_off m + ino) mod 2 ^ 64
      in case k_bread K (kst s) (btodb loc) DEV_BSIZE of (_, None, k) \<Rightarrow> Inl NullDeref
      | (_, Some bp, k) \<Rightarrow>
        let s = s\<lparr>kst := k\<rparr>; at = ino mod DEV_BSIZE in
        if length (b_data bp) < at + sizeof_inode then Inl OutOfBounds
        else let inode = decode_inode (slice at sizeof_inode (b_data bp)) in
        if i_flags inode AND KVFS_INODE_FREE \<noteq> 0 then
          (case keystr of None \<Rightarrow> vget_error_exit K node bp ENOENT s
           | Some str \<Rightarrow>
             (case str_to_key str of (failed, kbytes) \<Rightarrow>
              if failed \<noteq> 0 then vget_error_exit K node bp EINVAL s
              else (case k_vfs_timestamp K k of (ts, k) \<Rightarrow>
                let inode = inode\<lparr>i_ref_count := 1,
                      i_flags := i_flags inode AND NOT KVFS_INODE_FREE OR KVFS_INODE_ACTIVE,
                      i_key := kbytes, i_timestamp := timespec_to_uint64 ts\<rparr>
                in (case k_bwrite K k (bp\<lparr>b_data := overlay at (encode_inode inode) (b_data bp)\<rparr>) of (_, k) \<Rightarrow>
                    vget_finish node ino \<lparr>m_ino = ino, m_lbn = lbn, m_inode = inode\<rparr> (s\<lparr>kst := k\<rparr>)))))
        else vget_finish node ino \<lparr>m_ino = ino, m_lbn = lbn, m_inode = inode\<rparr> (s\<lparr>kst := k_brelse K k bp\<rparr>))"

text \<open>The memory node is zeroed; \<open>-1\<close> is all ones in the 64-bit fields of the root's node.\<close>

definition zero_inode :: kvfs_inode where
  "zero_inode = \<lparr>i_key = replicate 20 0, i_flags = 0, i_ref_count = 0, i_timestamp = 0\<rparr>"

definition root_memnode :: kvfs_memnode where
  "root_memnode = \<lparr>m_ino = 2 ^ 64 - 1, m_lbn = 2 ^ 64 - 1, m_inode = zero_inode\<rparr>"

text \<open>A vnode for an inode that has none in the hash.\<close>

definition vget_new :: "'k kern \<Rightarrow> nat \<Rightarrow> 32 word \<Rightarrow> string option \<Rightarrow> 'k fs \<Rightarrow> 'k vget_result" where
  "vget_new K ino fl keystr s =
     (case k_getnewvnode K (kst s) of (error, node, k) \<Rightarrow>
      if error \<noteq> 0 then Inr (error, None, s\<lparr>kst := k\<rparr>)
      else let s = set_vnode node new_vnode s in
      case k_vn_lock K k node of (error, k) \<Rightarrow>
      if error \<noteq> 0 then Inr (error, None, s\<lparr>kst := k\<rparr>)
      else case k_insmntque K k node of (error, k) \<Rightarrow>
      if error \<noteq> 0 then Inr (error, None, s\<lparr>kst := k\<rparr>)
      else let s = set_vnode node (new_vnode\<lparr>v_mount := mnt_id s\<rparr>) s in
      case k_vfs_hash_insert K k node ino (unat fl) of (error, vpp, k) \<Rightarrow>
      let s = s\<lparr>kst := k\<rparr> in
      if error \<noteq> 0 \<or> vpp \<noteq> None then Inr (error, vpp, s)
      else if ino \<noteq> KVFS_ROOT_INO then vget_load K node ino keystr s
      else vget_finish node ino root_memnode s)"

definition kvfs_vget_internal :: "'k kern \<Rightarrow> nat \<Rightarrow> 32 word \<Rightarrow> string option \<Rightarrow> 'k fs \<Rightarrow> 'k vget_result" where
  "kvfs_vget_internal K ino fl keystr s =
     (case k_vfs_hash_get K (kst s) ino (unat fl) of (error, vpp, k) \<Rightarrow>
      let s = s\<lparr>kst := k\<rparr> in
      if vpp \<noteq> None then Inr (0, vpp, s)
      else if error \<noteq> 0 then Inr (error, vpp, s)
      else vget_new K ino (promote_lock fl) keystr s)"

definition kvfs_vget :: "'k kern \<Rightarrow> nat \<Rightarrow> 32 word \<Rightarrow> 'k fs \<Rightarrow> 'k vget_result" where
  "kvfs_vget K ino fl s = kvfs_vget_internal K ino fl None s"

definition kvfs_root :: "'k kern \<Rightarrow> 32 word \<Rightarrow> 'k fs \<Rightarrow> 'k vget_result" where
  "kvfs_root K fl s = kvfs_vget_internal K KVFS_ROOT_INO fl None s"

end
