(* ===== verification/Kvfs_Vnops.thy ===== *)
theory Kvfs_Vnops
  imports Kvfs_Vfsops
begin

text \<open>
  \<open>key-value-fs/src/kvfs_vnops.c\<close>: the vnode operations. Pointers to vnodes are the arguments; reading
  a field of a vnode whose \<open>v_data\<close> is \<open>NULL\<close> is \<^const>\<open>NullDeref\<close>. The two copy loops may run
  forever when the transfer makes no progress, so they are partial functions, and not returning is
  the value \<open>None\<close>; the invariants, the abstract map and its refinement are in \<open>Kvfs_Refine\<close>.
\<close>

section \<open>Definitions\<close>

datatype nameiop = LOOKUP | CREATE | DELETE | RENAME

record componentname =
  cn_nameptr :: string
  cn_namelen :: nat
  cn_nameiop :: nameiop
  cn_islastcn :: bool \<comment> \<open>\<open>cn_flags & ISLASTCN\<close>\<close>
  cn_lkflags :: "32 word"

subsection \<open>Inode updates\<close>

definition memnode_update :: "'k kern \<Rightarrow> kvfs_memnode \<Rightarrow> kvfs_inode \<Rightarrow> 'k fs \<Rightarrow> fault + errno \<times> 'k fs" where
  "memnode_update K knode inode s =
     (let ino = m_ino knode; loc = (inode_off (mnt s) + ino) mod 2 ^ 64 in
      case k_bread K (kst s) (btodb loc) DEV_BSIZE of (error, bp, k) \<Rightarrow>
      if error \<noteq> 0 then Inr (error, s\<lparr>kst := k\<rparr>)
      else case bp of None \<Rightarrow> Inl NullDeref
      | Some b \<Rightarrow>
        let at = ino mod DEV_BSIZE in
        if length (b_data b) < at + sizeof_inode then Inl OutOfBounds
        else (case k_bwrite K k (b\<lparr>b_data := overlay at (encode_inode inode) (b_data b)\<rparr>) of (error, k) \<Rightarrow>
          Inr (error, s\<lparr>kst := k\<rparr>)))"

subsection \<open>Lookup\<close>

text \<open>The loop over the inode table: the first inode in use that has the key.\<close>

function lookup_scan :: "byte list \<Rightarrow> byte list \<Rightarrow> nat \<Rightarrow> nat \<Rightarrow> fault + nat option" where
  "lookup_scan data kbytes bc i =
     (if i < bc then
        (let idx = i * sizeof_inode in
         if length data < idx + sizeof_inode then Inl OutOfBounds
         else let inode = decode_inode (slice idx sizeof_inode data) in
         if i_flags inode AND KVFS_INODE_FREE \<noteq> 0 then lookup_scan data kbytes bc (i + 1)
         else if kbytes = i_key inode then Inr (Some idx)
         else lookup_scan data kbytes bc (i + 1))
      else Inr None)"
  by pat_completeness auto

termination lookup_scan
  by (relation "measure (\<lambda>(data, kbytes, bc, i). bc - i)") auto

declare lookup_scan.simps [simp del]

definition kvfs_lookup :: "'k kern \<Rightarrow> vid \<Rightarrow> componentname \<Rightarrow> 'k fs \<Rightarrow> 'k vget_result" where
  "kvfs_lookup K vdp cnp s =
     (case v_data (vns s vdp) of None \<Rightarrow> Inl NullDeref
      | Some knode \<Rightarrow>
        if \<not> v_root (vns s vdp) then Inr (ENOENT, None, s)
        else if str_at (cn_nameptr cnp) 0 = CHR ''.'' \<and> cn_namelen cnp = 1 then
          Inr (0, Some vdp, s\<lparr>kst := k_vref K (kst s) vdp\<rparr>)
        else if cn_namelen cnp \<noteq> KVFS_KEY_STRLEN then Inr (EINVAL, None, s)
        else (case str_to_key (cn_nameptr cnp) of (failed, kbytes) \<Rightarrow>
          if failed \<noteq> 0 then Inr (EINVAL, None, s)
          else let m = mnt s in
          case k_bread K (kst s) (btodb (inode_off m)) (PAD 64 (block_count m * sizeof_inode)) of (error, bp, k) \<Rightarrow>
          if error \<noteq> 0 then Inr (error, None, s\<lparr>kst := k\<rparr>)
          else case bp of None \<Rightarrow> Inl NullDeref
          | Some b \<Rightarrow>
            let s' = s\<lparr>kst := k_brelse K k b\<rparr> in
            (case lookup_scan (b_data b) kbytes (block_count m) 0 of
               Inl f \<Rightarrow> Inl f
             | Inr (Some idx) \<Rightarrow> kvfs_vget K idx (cn_lkflags cnp) s'
             | Inr None \<Rightarrow>
                 if cn_islastcn cnp \<and> (cn_nameiop cnp = CREATE \<or> cn_nameiop cnp = RENAME)
                 then Inr (EJUSTRETURN, None, s')
                 else Inr (ENOENT, None, s'))))"

subsection \<open>Create\<close>

definition pop_freelist :: "'k fs \<Rightarrow> 'k fs" where
  "pop_freelist s = s\<lparr>mnt := (mnt s)\<lparr>freelist := tl (freelist (mnt s)), freelist_count := freelist_count (mnt s) - 1\<rparr>\<rparr>"

definition kvfs_create :: "'k kern \<Rightarrow> vid \<Rightarrow> componentname \<Rightarrow> 'k fs \<Rightarrow> 'k vget_result" where
  "kvfs_create K vdp cnp s =
     (case v_data (vns s vdp) of None \<Rightarrow> Inl NullDeref
      | Some knode \<Rightarrow>
        (case freelist (mnt s) of [] \<Rightarrow> Inr (ENOSPC, None, s)
         | ino # _ \<Rightarrow>
           let free_byte = INO_TO_FREE_BYTE ino (freelist_off (mnt s)); msk = INO_TO_FREE_BIT_MASK ino;
               s = pop_freelist s
           in case k_bread K (kst s) (btodb free_byte) DEV_BSIZE of (error, bp, k) \<Rightarrow>
           if error \<noteq> 0 then Inr (0, None, s\<lparr>kst := k\<rparr>)
           else case bp of None \<Rightarrow> Inl NullDeref
           | Some b \<Rightarrow>
             let at = free_byte mod DEV_BSIZE in
             if length (b_data b) \<le> at then Inl OutOfBounds
             else (case k_bwrite K k (b\<lparr>b_data := (b_data b)[at := b_data b ! at OR msk]\<rparr>) of (_, k) \<Rightarrow>
               kvfs_vget_internal K ino LK_EXCLUSIVE (Some (cn_nameptr cnp)) (s\<lparr>kst := k\<rparr>))))"

subsection \<open>Attributes\<close>

definition kvfs_open :: "'k fs \<Rightarrow> errno \<times> 'k fs" where "kvfs_open s = (0, s)"
definition kvfs_close :: "'k fs \<Rightarrow> errno \<times> 'k fs" where "kvfs_close s = (0, s)"
definition kvfs_access :: "'k fs \<Rightarrow> errno \<times> 'k fs" where "kvfs_access s = (0, s)"

definition VNOVAL :: int where "VNOVAL = -1"

record vattr =
  va_type :: vtype
  va_fileid :: nat
  va_size :: int
  va_bytes :: int
  va_mtime :: timespec
  va_blocksize :: int
  va_fsid :: int
  va_uid :: int
  va_gid :: int
  va_mode :: int
  va_flags :: int
  va_gen :: int
  va_nlink :: int
  va_filerev :: int

text \<open>\<open>VATTR_NULL\<close>, on the fields the file system uses.\<close>

definition vattr_null :: vattr where
  "vattr_null = \<lparr>va_type = VNON, va_fileid = 2 ^ 64 - 1, va_size = VNOVAL, va_bytes = VNOVAL,
     va_mtime = \<lparr>tv_sec = VNOVAL, tv_nsec = VNOVAL\<rparr>, va_blocksize = VNOVAL, va_fsid = VNOVAL, va_uid = VNOVAL,
     va_gid = VNOVAL, va_mode = VNOVAL, va_flags = VNOVAL, va_gen = VNOVAL, va_nlink = VNOVAL, va_filerev = VNOVAL\<rparr>"

definition kvfs_getattr :: "int \<Rightarrow> vid \<Rightarrow> 'k fs \<Rightarrow> fault + errno \<times> vattr" where
  "kvfs_getattr udev vp s =
     (let v = vns s vp in
      case v_data v of None \<Rightarrow> Inl NullDeref
      | Some mnp \<Rightarrow>
        let vap = vattr_null;
            vap = (if v_root v then vap\<lparr>va_type := VDIR, va_fileid := KVFS_ROOT_INO, va_size := 0, va_bytes := 0\<rparr>
                   else vap\<lparr>va_type := VREG, va_fileid := m_ino mnp, va_size := int BLOCKSIZE,
                     va_bytes := int BLOCKSIZE, va_mtime := uint64_to_timespec (i_timestamp (m_inode mnp))\<rparr>)
        in Inr (0, vap\<lparr>va_blocksize := int BLOCKSIZE, va_fsid := udev, va_uid := 0, va_gid := 0, va_mode := 511,
             va_flags := 0, va_gen := 1, va_nlink := 1, va_filerev := 1\<rparr>))"

definition kvfs_setattr :: "'k kern \<Rightarrow> vid \<Rightarrow> vattr \<Rightarrow> 'k fs \<Rightarrow> fault + errno \<times> 'k fs" where
  "kvfs_setattr K vp vap s =
     (let v = vns s vp in
      if v_root v then Inr (0, s)
      else if tv_sec (va_mtime vap) \<noteq> VNOVAL then
        (case v_data v of None \<Rightarrow> Inl NullDeref
         | Some knode \<Rightarrow>
           let knode = knode\<lparr>m_inode := (m_inode knode)\<lparr>i_timestamp := timespec_to_uint64 (va_mtime vap)\<rparr>\<rparr>;
               s = set_vnode vp (v\<lparr>v_data := Some knode\<rparr>) s
           in case memnode_update K knode (m_inode knode) s of Inl f \<Rightarrow> Inl f | Inr (_, s) \<Rightarrow> Inr (0, s))
      else Inr (0, s))"

subsection \<open>Read and write\<close>

text \<open>\<open>min\<close> of the kernel compares unsigned 32-bit values; \<open>amt\<close> holds such a value.\<close>

definition chunk :: "nat \<Rightarrow> buf \<Rightarrow> nat" where
  "chunk amt bp = min amt (nat ((int BLOCKSIZE - int (b_resid bp)) mod 2 ^ 32))"

partial_function (option) read_loop ::
  "'k kern \<Rightarrow> buf \<Rightarrow> nat \<Rightarrow> errno \<Rightarrow> uio \<Rightarrow> 'k \<Rightarrow> (fault + errno \<times> uio \<times> 'k) option" where
  "read_loop K bp amt error u k =
     (if 0 < uio_resid u then
        let amt = chunk amt bp in
        if length (b_data bp) < min amt (uio_resid u) then Some (Inl OutOfBounds)
        else case k_uiomove_out K k (b_data bp) amt u of (error, u, k) \<Rightarrow>
          if error \<noteq> 0 then Some (Inr (error, u, k)) else read_loop K bp amt error u k
      else Some (Inr (error, u, k)))"

definition kvfs_read :: "'k kern \<Rightarrow> vid \<Rightarrow> uio \<Rightarrow> 'k fs \<Rightarrow> (fault + errno \<times> uio \<times> 'k fs) option" where
  "kvfs_read K vp u s =
     (case v_data (vns s vp) of None \<Rightarrow> Some (Inl NullDeref)
      | Some knode \<Rightarrow>
        if v_type (vns s vp) \<noteq> VREG then Some (Inr (EISDIR, u, s))
        else if uio_offset u < 0 then Some (Inr (EINVAL, u, s))
        else if uio_resid u = 0 \<or> int BLOCKSIZE \<le> uio_offset u then Some (Inr (0, u, s))
        else (case k_bread K (kst s) (m_lbn knode) BLOCKSIZE of (error, bp, k) \<Rightarrow>
          (case bp of None \<Rightarrow> Some (Inl NullDeref)
           | Some b \<Rightarrow>
             (case read_loop K b (uio_resid u mod 2 ^ 32) error u k of None \<Rightarrow> None
              | Some (Inl f) \<Rightarrow> Some (Inl f)
              | Some (Inr (error, u, k)) \<Rightarrow> Some (Inr (error, u, s\<lparr>kst := k_brelse K k b\<rparr>))))))"

partial_function (option) write_loop ::
  "'k kern \<Rightarrow> buf \<Rightarrow> nat \<Rightarrow> uio \<Rightarrow> 'k \<Rightarrow> (fault + errno \<times> buf \<times> uio \<times> 'k) option" where
  "write_loop K bp amt u k =
     (if 0 < uio_resid u then
        let amt = chunk amt bp in
        if uio_offset u < 0 \<or> int (length (b_data bp)) < uio_offset u + int (min amt (uio_resid u))
        then Some (Inl OutOfBounds)
        else case k_uiomove_in K k amt u of (error, bytes, u', k) \<Rightarrow>
          let bp = bp\<lparr>b_data := overlay (nat (uio_offset u)) bytes (b_data bp)\<rparr> in
          if error \<noteq> 0 then Some (Inr (error, bp, u', k)) else write_loop K bp amt u' k
      else Some (Inr (0, bp, u, k)))"

definition kvfs_write :: "'k kern \<Rightarrow> vid \<Rightarrow> bool \<Rightarrow> uio \<Rightarrow> 'k fs \<Rightarrow> (fault + errno \<times> uio \<times> 'k fs) option" where
  "kvfs_write K vp io_append u s =
     (case v_data (vns s vp) of None \<Rightarrow> Some (Inl NullDeref)
      | Some knode \<Rightarrow>
        if v_type (vns s vp) \<noteq> VREG then Some (Inr (EISDIR, u, s))
        else if uio_resid u = 0 then Some (Inr (0, u, s))
        else if io_append then Some (Inr (EINVAL, u, s))
        else (case k_bread K (kst s) (m_lbn knode) BLOCKSIZE of (error, bp, k) \<Rightarrow>
          if error \<noteq> 0 then Some (Inr (error, u, s\<lparr>kst := k\<rparr>))
          else (case bp of None \<Rightarrow> Some (Inl NullDeref)
           | Some b \<Rightarrow>
             (case write_loop K b (uio_resid u mod 2 ^ 32) u k of None \<Rightarrow> None
              | Some (Inl f) \<Rightarrow> Some (Inl f)
              | Some (Inr (error, b, u, k)) \<Rightarrow>
                  if error \<noteq> 0 then Some (Inr (error, u, s\<lparr>kst := k_brelse K k b\<rparr>))
                  else (case k_bwrite K k b of (_, k) \<Rightarrow> Some (Inr (0, u, s\<lparr>kst := k\<rparr>)))))))"

definition kvfs_fsync :: "'k fs \<Rightarrow> errno \<times> 'k fs" where "kvfs_fsync s = (0, s)"

subsection \<open>Remove and rename\<close>

text \<open>The second half of \<open>kvfs_remove\<close>: the entry goes back to the free list and the bitmap.\<close>

definition remove_free :: "'k kern \<Rightarrow> vid \<Rightarrow> nat \<Rightarrow> 'k fs \<Rightarrow> fault + errno \<times> 'k fs" where
  "remove_free K vp ino s =
     (let free_byte = INO_TO_FREE_BYTE ino (freelist_off (mnt s)) mod 2 ^ 32; msk = INO_TO_FREE_BIT_MASK ino;
          s = s\<lparr>mnt := (mnt s)\<lparr>freelist := ino # freelist (mnt s), freelist_count := freelist_count (mnt s) + 1\<rparr>\<rparr>
      in case k_bread K (kst s) (btodb free_byte) DEV_BSIZE of (error, bp, k) \<Rightarrow>
      if error \<noteq> 0 then Inr (0, s\<lparr>kst := k\<rparr>)
      else case bp of None \<Rightarrow> Inl NullDeref
      | Some b \<Rightarrow>
        let at = free_byte mod DEV_BSIZE in
        if length (b_data b) \<le> at then Inl OutOfBounds
        else (case k_bwrite K k (b\<lparr>b_data := (b_data b)[at := b_data b ! at AND NOT msk]\<rparr>) of (_, k) \<Rightarrow>
          Inr (0, s\<lparr>kst := k_vfs_hash_remove K k vp\<rparr>)))"

definition kvfs_remove :: "'k kern \<Rightarrow> vid \<Rightarrow> 'k fs \<Rightarrow> fault + errno \<times> 'k fs" where
  "kvfs_remove K vp s =
     (case v_data (vns s vp) of None \<Rightarrow> Inl NullDeref
      | Some knode \<Rightarrow>
        (case memnode_update K knode empty_inode s of Inl f \<Rightarrow> Inl f
         | Inr (_, s) \<Rightarrow>
           (case k_getblk K (kst s) (m_lbn knode) BLOCKSIZE of (b, k) \<Rightarrow>
            if length (b_data b) < BLOCKSIZE then Inl OutOfBounds
            else (case k_bwrite K k (b\<lparr>b_data := overlay 0 (replicate BLOCKSIZE 0) (b_data b)\<rparr>) of (_, k) \<Rightarrow>
              remove_free K vp (m_ino knode) (s\<lparr>kst := k\<rparr>)))))"

text \<open>The label \<open>out\<close> of \<open>kvfs_rename\<close>.\<close>

definition rename_out :: "'k kern \<Rightarrow> vid \<Rightarrow> vid \<Rightarrow> vid \<Rightarrow> vid option \<Rightarrow> errno \<Rightarrow> 'k fs \<Rightarrow> errno \<times> 'k fs" where
  "rename_out K fdvp fvp tdvp tvp error s =
     (let k = (if tvp = Some tdvp then k_vrele K (kst s) tdvp else k_vput K (kst s) tdvp);
          k = (case tvp of Some t \<Rightarrow> k_vput K k t | None \<Rightarrow> k);
          k = k_vrele K k fdvp;
          k = k_vrele K k fvp
      in (error, s\<lparr>kst := k\<rparr>))"

text \<open>The source file takes the new key, in memory and on disk.\<close>

definition rename_rekey :: "'k kern \<Rightarrow> vid \<Rightarrow> byte list \<Rightarrow> 'k fs \<Rightarrow> fault + errno \<times> 'k fs" where
  "rename_rekey K fvp testkey s =
     (case v_data (vns s fvp) of None \<Rightarrow> Inl NullDeref
      | Some from \<Rightarrow>
        let from = from\<lparr>m_inode := (m_inode from)\<lparr>i_key := testkey\<rparr>\<rparr>;
            s = set_vnode fvp ((vns s fvp)\<lparr>v_data := Some from\<rparr>) s
        in case memnode_update K from (m_inode from) s of Inl f \<Rightarrow> Inl f
           | Inr (_, s) \<Rightarrow> Inr (0, s\<lparr>kst := k_unlock K (kst s) fvp\<rparr>))"

text \<open>The result of the cross-device check, which the next assignment to \<open>error\<close> overwrites.\<close>

definition rename_xdev :: "vid \<Rightarrow> vid \<Rightarrow> vid option \<Rightarrow> 'k fs \<Rightarrow> errno" where
  "rename_xdev fvp tdvp tvp s =
     (if v_mount (vns s fvp) \<noteq> v_mount (vns s tdvp) \<or>
         (case tvp of Some t \<Rightarrow> v_mount (vns s fvp) \<noteq> v_mount (vns s t) | None \<Rightarrow> False)
      then EXDEV else 0)"

definition kvfs_rename ::
  "'k kern \<Rightarrow> vid \<Rightarrow> vid \<Rightarrow> vid \<Rightarrow> vid option \<Rightarrow> componentname \<Rightarrow> 'k fs \<Rightarrow> fault + errno \<times> 'k fs" where
  "kvfs_rename K fdvp fvp tdvp tvp tcnp s =
     (let error = rename_xdev fvp tdvp tvp s in
      case str_to_key (cn_nameptr tcnp) of (error, testkey) \<Rightarrow>
      if error \<noteq> 0 then Inr (rename_out K fdvp fvp tdvp tvp EINVAL s)
      else
        (case (case tvp of
                 Some t \<Rightarrow> (if v_data (vns s t) \<noteq> None then kvfs_remove K t s else Inr (0, s))
               | None \<Rightarrow> Inr (0, s)) of
           Inl f \<Rightarrow> Inl f
         | Inr (_, s) \<Rightarrow>
           (case k_vn_lock K (kst s) fvp of (error, k) \<Rightarrow>
            let s = s\<lparr>kst := k\<rparr> in
            if error \<noteq> 0 then Inr (rename_out K fdvp fvp tdvp tvp error s)
            else (case rename_rekey K fvp testkey s of Inl f \<Rightarrow> Inl f
                  | Inr (_, s) \<Rightarrow> Inr (rename_out K fdvp fvp tdvp tvp 0 s)))))"

subsection \<open>Directory reads\<close>

definition DT_DIR :: nat where "DT_DIR = 4"
definition DT_REG :: nat where "DT_REG = 8"

text \<open>\<open>_GENERIC_DIRLEN\<close> of \<open>sys/dirent.h\<close>: the fixed part has 24 bytes, the name a terminator, and the
  sum is rounded up to a multiple of 8.\<close>

definition GENERIC_DIRLEN :: "nat \<Rightarrow> nat" where
  "GENERIC_DIRLEN namlen = (24 + namlen + 1 + 7) div 8 * 8"

definition kvfs_readdir_one ::
  "'k kern \<Rightarrow> dir_uio option \<Rightarrow> string \<Rightarrow> nat \<Rightarrow> nat \<Rightarrow> 'k \<Rightarrow> errno \<times> nat \<times> dir_uio option \<times> 'k" where
  "kvfs_readdir_one K du name fileno type k =
     (let len = length name; reclen = GENERIC_DIRLEN len in
      case du of None \<Rightarrow> (0, reclen, None, k)
      | Some u \<Rightarrow>
        if du_resid u < reclen then (EINVAL, reclen, Some u, k)
        else (case k_uiomove_dirent K k \<lparr>d_fileno = fileno, d_off = nat (du_offset u) + reclen, d_reclen = reclen,
                d_type = type, d_namlen = len, d_name = name\<rparr> reclen u of (error, u, k) \<Rightarrow>
              (error, reclen, Some u, k)))"

definition kvfs_dirent_reclen :: "'k kern \<Rightarrow> string \<Rightarrow> nat \<Rightarrow> 'k \<Rightarrow> nat" where
  "kvfs_dirent_reclen K name type k = (case kvfs_readdir_one K None name (2 ^ 64 - 1) type k of (_, reclen, _, _) \<Rightarrow> reclen)"

text \<open>The label \<open>out\<close> of \<open>kvfs_readdir\<close>.\<close>

definition readdir_out ::
  "'k kern \<Rightarrow> nat \<Rightarrow> nat \<Rightarrow> errno \<Rightarrow> buf option \<Rightarrow> dir_uio \<Rightarrow> 'k \<Rightarrow> fault + errno \<times> dir_uio \<times> 'k" where
  "readdir_out K initial_resid reclen error bp du k =
     (let k = (case bp of Some b \<Rightarrow> k_brelse K k b | None \<Rightarrow> k) in
      if du_resid du = initial_resid then Inr (error, du, k)
      else if du_resid du < reclen then Inr (0, du, k)
      else Inr (error, du, k))"

function readdir_scan ::
  "'k kern \<Rightarrow> buf \<Rightarrow> nat \<Rightarrow> nat \<Rightarrow> nat \<Rightarrow> nat \<Rightarrow> dir_uio \<Rightarrow> 'k \<Rightarrow> fault + errno \<times> dir_uio \<times> 'k" where
  "readdir_scan K b bc initial_resid i reclens du k =
     (if i < bc then
        (let ino = i * sizeof_inode in
         if length (b_data b) < ino + sizeof_inode then Inl OutOfBounds
         else let inode = decode_inode (slice ino sizeof_inode (b_data b)) in
         if i_flags inode AND KVFS_INODE_FREE \<noteq> 0 then readdir_scan K b bc initial_resid (i + 1) reclens du k
         else let name = key_to_str (i_key inode) in
         if du_offset du > int reclens then
           readdir_scan K b bc initial_resid (i + 1) (reclens + kvfs_dirent_reclen K name DT_REG k) du k
         else if du_offset du \<noteq> int reclens then Inr (EINVAL, du, k_brelse K k b)
         else (case kvfs_readdir_one K (Some du) name ino DT_REG k of (error, reclen, du', k) \<Rightarrow>
           if error \<noteq> 0 then readdir_out K initial_resid reclen error (Some b) (the du') k
           else readdir_scan K b bc initial_resid (i + 1) (reclens + reclen) (the du') k))
      else Inr (0, du, k_brelse K k b))"
  by pat_completeness auto

termination readdir_scan
  by (relation "measure (\<lambda>(K, b, bc, initial_resid, i, reclens, du, k). bc - i)") auto

declare readdir_scan.simps [simp del]

text \<open>The entries of the inode table, after the two fixed entries.\<close>

definition readdir_files ::
  "'k kern \<Rightarrow> kvfs_mount_t \<Rightarrow> nat \<Rightarrow> nat \<Rightarrow> dir_uio \<Rightarrow> 'k \<Rightarrow> fault + errno \<times> dir_uio \<times> 'k" where
  "readdir_files K m initial_resid reclens du k =
     (case k_bread K k (btodb (inode_off m)) (PAD 64 (block_count m * sizeof_inode)) of (error, bp, k) \<Rightarrow>
      if error \<noteq> 0 then Inr (error, du, k)
      else case bp of None \<Rightarrow> Inl NullDeref
      | Some b \<Rightarrow> readdir_scan K b (block_count m) initial_resid 0 reclens du k)"

definition readdir_dotdot ::
  "'k kern \<Rightarrow> kvfs_mount_t \<Rightarrow> nat \<Rightarrow> nat \<Rightarrow> dir_uio \<Rightarrow> 'k \<Rightarrow> fault + errno \<times> dir_uio \<times> 'k" where
  "readdir_dotdot K m initial_resid reclens du k =
     (let reclens' = reclens + kvfs_dirent_reclen K ''..'' DT_DIR k in
      if du_offset du \<le> int reclens then
        (if du_offset du \<noteq> int reclens then Inr (EINVAL, du, k)
         else (case kvfs_readdir_one K (Some du) ''..'' KVFS_ROOT_INO DT_DIR k of (error, reclen, du', k) \<Rightarrow>
           if error \<noteq> 0 then readdir_out K initial_resid reclen error None (the du') k
           else readdir_files K m initial_resid reclens' (the du') k))
      else readdir_files K m initial_resid reclens' du k)"

definition kvfs_readdir :: "'k kern \<Rightarrow> vid \<Rightarrow> dir_uio \<Rightarrow> 'k fs \<Rightarrow> fault + errno \<times> dir_uio \<times> 'k" where
  "kvfs_readdir K vp du s =
     (let initial_resid = du_resid du; v = vns s vp; k = kst s; m = mnt s in
      case v_data v of None \<Rightarrow> Inl NullDeref
      | Some knode \<Rightarrow>
        if \<not> v_root v \<or> v_type v \<noteq> VDIR then Inr (ENOTDIR, du, k)
        else if du_offset du < 0 then Inr (EINVAL, du, k)
        else if du_offset du = 0 then
          (case kvfs_readdir_one K (Some du) ''.'' KVFS_ROOT_INO DT_DIR k of (error, reclen, du', k) \<Rightarrow>
            if error \<noteq> 0 then readdir_out K initial_resid reclen error None (the du') k
            else readdir_dotdot K m initial_resid (kvfs_dirent_reclen K ''.'' DT_DIR k) (the du') k)
        else readdir_dotdot K m initial_resid (kvfs_dirent_reclen K ''.'' DT_DIR k) du k)"

subsection \<open>End of life\<close>

definition kvfs_inactive :: "'k kern \<Rightarrow> vid \<Rightarrow> 'k fs \<Rightarrow> errno \<times> 'k fs" where
  "kvfs_inactive K vp s =
     (case v_data (vns s vp) of
        None \<Rightarrow> (0, s\<lparr>kst := k_vrecycle K (kst s) vp\<rparr>)
      | Some knp \<Rightarrow>
        if i_flags (m_inode knp) AND KVFS_INODE_FREE \<noteq> 0 then (0, s\<lparr>kst := k_vrecycle K (kst s) vp\<rparr>)
        else (0, s))"

definition kvfs_reclaim :: "'k kern \<Rightarrow> vid \<Rightarrow> 'k fs \<Rightarrow> errno \<times> 'k fs" where
  "kvfs_reclaim K vp s =
     (case v_data (vns s vp) of
        None \<Rightarrow> (0, s)
      | Some knode \<Rightarrow>
        (0, set_vnode vp ((vns s vp)\<lparr>v_data := None\<rparr>) (s\<lparr>kst := k_vfs_hash_remove K (kst s) vp\<rparr>)))"

text \<open>\<open>dbtob\<close> of \<open>sys/param.h\<close>; \<open>BO_STRATEGY\<close> of the device is a parameter.\<close>

definition dbtob :: "nat \<Rightarrow> nat" where "dbtob db = db * DEV_BSIZE mod 2 ^ 64"

definition kvfs_strategy :: "('k \<Rightarrow> buf \<Rightarrow> 'k) \<Rightarrow> vid \<Rightarrow> buf \<Rightarrow> 'k fs \<Rightarrow> fault + errno \<times> 'k fs" where
  "kvfs_strategy bo_strategy vp bp s =
     (case v_data (vns s vp) of None \<Rightarrow> Inl NullDeref
      | Some knode \<Rightarrow> Inr (0, s\<lparr>kst := bo_strategy (kst s) (bp\<lparr>b_blkno := dbtob (m_lbn knode)\<rparr>)\<rparr>))"

end
