(* ===== verification/Kvfs_Table.thy ===== *)
theory Kvfs_Table
  imports Kvfs_Util
begin

text \<open>
  The contract of kvfs: a finite map from 160-bit keys to blocks of \<^const>\<open>BLOCKSIZE\<close> bytes. The map is
  read off a table of entries: the list of inodes, the list of data blocks, the bits of the free
  bitmap, and the free list kept in memory. This theory states when these agree and how the map
  changes when an entry is allocated, released, renamed, touched or written; the layout of the
  table on a disk and the kernel calls that change it come later.
\<close>

section \<open>Definitions\<close>

type_synonym kvmap = "byte list \<rightharpoonup> byte list"

definition is_free :: "kvfs_inode \<Rightarrow> bool" where
  "is_free x \<longleftrightarrow> i_flags x AND KVFS_INODE_FREE \<noteq> 0"

definition live :: "kvfs_inode list \<Rightarrow> nat \<Rightarrow> bool" where
  "live I i \<longleftrightarrow> i < length I \<and> \<not> is_free (I ! i)"

definition kv_of :: "kvfs_inode list \<Rightarrow> byte list list \<Rightarrow> kvmap" where
  "kv_of I B = map_of (map (\<lambda>(x, b). (i_key x, b)) (filter (\<lambda>(x, b). \<not> is_free x) (zip I B)))"

definition keys_distinct :: "kvfs_inode list \<Rightarrow> bool" where
  "keys_distinct I \<longleftrightarrow> (\<forall>i < length I. \<forall>j < length I. live I i \<and> live I j \<and> i_key (I ! i) = i_key (I ! j) \<longrightarrow> i = j)"

text \<open>The free list holds byte offsets into the inode table.\<close>

definition freelist_ok :: "kvfs_inode list \<Rightarrow> nat list \<Rightarrow> 32 word \<Rightarrow> bool" where
  "freelist_ok I fl cnt \<longleftrightarrow> distinct fl \<and>
     set fl = {ino. ino mod sizeof_inode = 0 \<and> ino div sizeof_inode < length I \<and> is_free (I ! (ino div sizeof_inode))} \<and>
     cnt = word_of_nat (length fl)"

definition zero_block :: "byte list" where
  "zero_block = replicate BLOCKSIZE 0"

definition entries_ok :: "kvfs_inode list \<Rightarrow> byte list list \<Rightarrow> bool list \<Rightarrow> nat list \<Rightarrow> 32 word \<Rightarrow> bool" where
  "entries_ok I B U fl cnt \<longleftrightarrow>
     length B = length I \<and> length U = length I \<and> freelist_ok I fl cnt \<and> keys_distinct I \<and>
     (\<forall>i < length I. wf_inode (I ! i) \<and> length (B ! i) = BLOCKSIZE \<and> (U ! i \<longleftrightarrow> live I i) \<and>
        (\<not> live I i \<longrightarrow> B ! i = zero_block))"

section \<open>The map of a table\<close>

lemma kv_of_SomeD: "kv_of I B k = Some b \<Longrightarrow> length B = length I \<Longrightarrow> \<exists>i. live I i \<and> i_key (I ! i) = k \<and> B ! i = b"
  by (auto simp: kv_of_def live_def set_zip dest!: map_of_SomeD)

lemma kv_of_SomeI:
  assumes "live I i" "length B = length I" "keys_distinct I"
  shows "kv_of I B (i_key (I ! i)) = Some (B ! i)"
proof -
  let ?xs = "map (\<lambda>(x, b). (i_key x, b)) (filter (\<lambda>(x, b). \<not> is_free x) (zip I B))"
  have "(i_key (I ! i), B ! i) \<in> set ?xs"
    using assms by (force simp: live_def set_zip)
  then obtain b where b: "kv_of I B (i_key (I ! i)) = Some b"
    using weak_map_of_SomeI[of "i_key (I ! i)" "B ! i" ?xs] by (auto simp: kv_of_def)
  then obtain j where "live I j" "i_key (I ! j) = i_key (I ! i)" "B ! j = b"
    using kv_of_SomeD assms by blast
  then have "j = i" using assms by (auto simp: keys_distinct_def live_def)
  with b \<open>B ! j = b\<close> show ?thesis by simp
qed

lemma kv_of_Some:
  assumes "length B = length I" "keys_distinct I"
  shows "kv_of I B k = Some b \<longleftrightarrow> (\<exists>i. live I i \<and> i_key (I ! i) = k \<and> B ! i = b)"
  using assms kv_of_SomeD kv_of_SomeI by blast

lemma kv_of_None:
  assumes "length B = length I" "keys_distinct I"
  shows "kv_of I B k = None \<longleftrightarrow> (\<forall>i. live I i \<longrightarrow> i_key (I ! i) \<noteq> k)"
  using kv_of_Some[OF assms, of k] by (cases "kv_of I B k") auto

lemma map_Some_eqI: "(\<And>k b. m k = Some b \<longleftrightarrow> m' k = Some b) \<Longrightarrow> m = m'"
  by (metis ext not_None_eq)

lemma entries_okD:
  assumes "entries_ok I B U fl cnt"
  shows "length B = length I" "length U = length I" "freelist_ok I fl cnt" "keys_distinct I"
    "i < length I \<Longrightarrow> wf_inode (I ! i)" "i < length I \<Longrightarrow> length (B ! i) = BLOCKSIZE"
    "i < length I \<Longrightarrow> U ! i \<longleftrightarrow> live I i" "i < length I \<Longrightarrow> \<not> live I i \<Longrightarrow> B ! i = zero_block"
  using assms by (auto simp: entries_ok_def)

lemma live_update: "i < length I \<Longrightarrow> live (I[i := x]) j \<longleftrightarrow> (if j = i then \<not> is_free x else live I j)"
  by (auto simp: live_def)

lemma keys_distinct_update:
  assumes "keys_distinct I" "i < length I" "is_free x \<or> (\<forall>j. live I j \<and> j \<noteq> i \<longrightarrow> i_key (I ! j) \<noteq> i_key x)"
  shows "keys_distinct (I[i := x])"
  unfolding keys_distinct_def
proof clarify
  fix a b assume ab: "a < length (I[i := x])" "b < length (I[i := x])" "live (I[i := x]) a" "live (I[i := x]) b"
    and eq: "i_key (I[i := x] ! a) = i_key (I[i := x] ! b)"
  have old: "a = b" if "a \<noteq> i" "b \<noteq> i"
    using assms(1,2) ab eq that by (auto simp: keys_distinct_def live_update)
  show "a = b"
    using assms(2,3) ab eq old by (cases "a = i"; cases "b = i") (auto simp: live_update)
qed

section \<open>Transitions\<close>

text \<open>An inode is replaced by one that is in use, under a key no other entry has.\<close>

lemma kv_of_put_inode:
  assumes "length B = length I" "keys_distinct I" "i < length I" "\<not> is_free x"
    "\<forall>j. live I j \<and> j \<noteq> i \<longrightarrow> i_key (I ! j) \<noteq> i_key x"
  shows "kv_of (I[i := x]) B =
    (if live I i then (kv_of I B)(i_key (I ! i) := None) else kv_of I B)(i_key x \<mapsto> B ! i)"
proof (rule map_Some_eqI)
  fix k b
  have kd: "keys_distinct (I[i := x])" using assms by (intro keys_distinct_update) auto
  have at: "I[i := x] ! j = (if j = i then x else I ! j)" for j using assms(3) by (simp add: nth_list_update)
  have "kv_of (I[i := x]) B k = Some b \<longleftrightarrow> (\<exists>j. live (I[i := x]) j \<and> i_key (I[i := x] ! j) = k \<and> B ! j = b)"
    using kd assms(1) by (simp add: kv_of_Some)
  also have "\<dots> \<longleftrightarrow> (k = i_key x \<and> b = B ! i) \<or> (\<exists>j. j \<noteq> i \<and> live I j \<and> i_key (I ! j) = k \<and> B ! j = b)"
    using assms(3,4) by (auto simp: live_update at)
  also have "\<dots> \<longleftrightarrow> ((if live I i then (kv_of I B)(i_key (I ! i) := None) else kv_of I B)(i_key x \<mapsto> B ! i)) k = Some b"
    using assms by (auto simp: kv_of_Some keys_distinct_def live_def)
  finally show "kv_of (I[i := x]) B k = Some b \<longleftrightarrow>
    ((if live I i then (kv_of I B)(i_key (I ! i) := None) else kv_of I B)(i_key x \<mapsto> B ! i)) k = Some b" .
qed

lemma kv_of_free:
  assumes "length B = length I" "keys_distinct I" "live I i" "is_free x"
  shows "kv_of (I[i := x]) (B[i := z]) = (kv_of I B)(i_key (I ! i) := None)"
proof (rule map_Some_eqI)
  fix k b
  have i: "i < length I" using assms(3) by (simp add: live_def)
  have kd: "keys_distinct (I[i := x])" using assms i by (intro keys_distinct_update) auto
  have "kv_of (I[i := x]) (B[i := z]) k = Some b \<longleftrightarrow> (\<exists>j. j \<noteq> i \<and> live I j \<and> i_key (I ! j) = k \<and> B ! j = b)"
    using kd assms i by (auto simp: kv_of_Some live_update)
  also have "\<dots> \<longleftrightarrow> ((kv_of I B)(i_key (I ! i) := None)) k = Some b"
    using assms by (auto simp: kv_of_Some keys_distinct_def live_def)
  finally show "kv_of (I[i := x]) (B[i := z]) k = Some b \<longleftrightarrow> ((kv_of I B)(i_key (I ! i) := None)) k = Some b" .
qed

lemma kv_of_put_block:
  assumes "length B = length I" "keys_distinct I" "live I i"
  shows "kv_of I (B[i := b']) = (kv_of I B)(i_key (I ! i) \<mapsto> b')"
proof (rule map_Some_eqI)
  fix k b
  have "kv_of I (B[i := b']) k = Some b \<longleftrightarrow> (\<exists>j. live I j \<and> i_key (I ! j) = k \<and> B[i := b'] ! j = b)"
    using assms by (simp add: kv_of_Some)
  also have "\<dots> \<longleftrightarrow> ((kv_of I B)(i_key (I ! i) \<mapsto> b')) k = Some b"
    using assms by (auto simp: kv_of_Some keys_distinct_def live_def nth_list_update)
  finally show "kv_of I (B[i := b']) k = Some b \<longleftrightarrow> ((kv_of I B)(i_key (I ! i) \<mapsto> b')) k = Some b" .
qed

section \<open>The free list\<close>

lemma freelist_mem:
  "freelist_ok I fl cnt \<Longrightarrow> ino \<in> set fl \<longleftrightarrow>
     ino mod 32 = 0 \<and> ino div 32 < length I \<and> is_free (I ! (ino div 32))"
  by (simp add: freelist_ok_def sizeof_inode_def)

lemma freelist_pop:
  assumes "freelist_ok I (ino # fl) cnt" "\<not> is_free x"
  shows "freelist_ok (I[ino div 32 := x]) fl (cnt - 1)"
proof -
  have d: "distinct (ino # fl)" and c: "cnt = word_of_nat (Suc (length fl))"
    using assms by (auto simp: freelist_ok_def)
  have mem: "j \<in> set (ino # fl) \<longleftrightarrow> j mod 32 = 0 \<and> j div 32 < length I \<and> is_free (I ! (j div 32))" for j
    by (rule freelist_mem[OF assms(1)])
  have ino: "ino mod 32 = 0" "ino div 32 < length I" using mem[of ino] by simp_all
  have eqd: "j div 32 = ino div 32 \<longleftrightarrow> j = ino" if "j mod 32 = 0" for j
    using that ino(1) by (metis mod_div_mult_eq)
  have "j \<in> set fl \<longleftrightarrow> j mod 32 = 0 \<and> j div 32 < length I \<and> is_free (I[ino div 32 := x] ! (j div 32))" for j
  proof (cases "j = ino")
    case True
    then show ?thesis using d ino assms(2) by simp
  next
    case False
    then have "j \<in> set fl \<longleftrightarrow> j \<in> set (ino # fl)" by simp
    moreover have "I[ino div 32 := x] ! (j div 32) = I ! (j div 32)" if "j mod 32 = 0"
      using eqd[OF that] False by (intro nth_list_update_neq) metis
    ultimately show ?thesis unfolding mem by metis
  qed
  then have "set fl = {j. j mod 32 = 0 \<and> j div 32 < length I \<and> is_free (I[ino div 32 := x] ! (j div 32))}"
    by (intro set_eqI) (simp only: mem_Collect_eq)
  then show ?thesis using d c by (simp add: freelist_ok_def sizeof_inode_def)
qed

lemma freelist_push:
  assumes "freelist_ok I fl cnt" "live I i" "is_free x"
  shows "freelist_ok (I[i := x]) (32 * i # fl) (cnt + 1)"
proof -
  have d: "distinct fl" and c: "cnt = word_of_nat (length fl)"
    using assms by (auto simp: freelist_ok_def)
  have mem: "j \<in> set fl \<longleftrightarrow> j mod 32 = 0 \<and> j div 32 < length I \<and> is_free (I ! (j div 32))" for j
    by (rule freelist_mem[OF assms(1)])
  have i: "i < length I" "\<not> is_free (I ! i)" using assms(2) by (simp_all add: live_def)
  have eqd: "j div 32 = i \<longleftrightarrow> j = 32 * i" if "j mod 32 = 0" for j
    using that by auto
  have "j \<in> set (32 * i # fl) \<longleftrightarrow> j mod 32 = 0 \<and> j div 32 < length I \<and> is_free (I[i := x] ! (j div 32))" for j
  proof (cases "j = 32 * i")
    case True
    then show ?thesis using i assms(3) by simp
  next
    case False
    then have "j \<in> set (32 * i # fl) \<longleftrightarrow> j \<in> set fl" by simp
    moreover have "I[i := x] ! (j div 32) = I ! (j div 32)" if "j mod 32 = 0"
      using eqd[OF that] False by (intro nth_list_update_neq) metis
    ultimately show ?thesis unfolding mem by metis
  qed
  then have "set (32 * i # fl) = {j. j mod 32 = 0 \<and> j div 32 < length I \<and> is_free (I[i := x] ! (j div 32))}"
    by (intro set_eqI) (simp only: mem_Collect_eq)
  moreover have "32 * i \<notin> set fl" using mem[of "32 * i"] i by simp
  ultimately show ?thesis using d c by (simp add: freelist_ok_def sizeof_inode_def del: set_simps)
qed

lemma freelist_keep:
  assumes "freelist_ok I fl cnt" "live I i" "\<not> is_free x"
  shows "freelist_ok (I[i := x]) fl cnt"
proof -
  have "is_free (I[i := x] ! j) \<longleftrightarrow> is_free (I ! j)" if "j < length I" for j
    using assms that by (auto simp: live_def nth_list_update)
  then show ?thesis using assms(1) by (auto simp: freelist_ok_def)
qed

section \<open>Preservation\<close>

lemma entries_alloc:
  assumes ok: "entries_ok I B U (ino # fl) cnt" and x: "\<not> is_free x" "wf_inode x"
    and new: "\<forall>j. live I j \<longrightarrow> i_key (I ! j) \<noteq> i_key x"
  shows "entries_ok (I[ino div 32 := x]) B (U[ino div 32 := True]) fl (cnt - 1)"
    and "kv_of (I[ino div 32 := x]) B = (kv_of I B)(i_key x \<mapsto> zero_block)"
proof -
  note ok' = entries_okD[OF ok]
  have i: "ino div 32 < length I" "\<not> live I (ino div 32)"
    using freelist_mem[OF ok'(3), of ino] by (auto simp: live_def)
  show "entries_ok (I[ino div 32 := x]) B (U[ino div 32 := True]) fl (cnt - 1)"
    using i ok' x new freelist_pop[OF ok'(3) x(1)]
    by (auto simp: entries_ok_def live_update nth_list_update intro!: keys_distinct_update)
  have "B ! (ino div 32) = zero_block" by (rule ok'(8)[OF i])
  then show "kv_of (I[ino div 32 := x]) B = (kv_of I B)(i_key x \<mapsto> zero_block)"
    using kv_of_put_inode[OF ok'(1) ok'(4) i(1) x(1)] new i by simp
qed

lemma entries_release:
  assumes ok: "entries_ok I B U fl cnt" and i: "live I i" and x: "is_free x" "wf_inode x"
  shows "entries_ok (I[i := x]) (B[i := zero_block]) (U[i := False]) (32 * i # fl) (cnt + 1)"
    and "kv_of (I[i := x]) (B[i := zero_block]) = (kv_of I B)(i_key (I ! i) := None)"
proof -
  note ok' = entries_okD[OF ok]
  have l: "i < length I" using i by (simp add: live_def)
  show "entries_ok (I[i := x]) (B[i := zero_block]) (U[i := False]) (32 * i # fl) (cnt + 1)"
    using l ok' x freelist_push[OF ok'(3) i x(1)]
    by (auto simp: entries_ok_def live_update nth_list_update zero_block_def intro!: keys_distinct_update)
  show "kv_of (I[i := x]) (B[i := zero_block]) = (kv_of I B)(i_key (I ! i) := None)"
    using kv_of_free[OF ok'(1) ok'(4) i x(1)] .
qed

lemma entries_reinode:
  assumes ok: "entries_ok I B U fl cnt" and i: "live I i" and x: "\<not> is_free x" "wf_inode x"
    and new: "\<forall>j. live I j \<and> j \<noteq> i \<longrightarrow> i_key (I ! j) \<noteq> i_key x"
  shows "entries_ok (I[i := x]) B U fl cnt"
    and "kv_of (I[i := x]) B = (kv_of I B)(i_key (I ! i) := None, i_key x \<mapsto> B ! i)"
proof -
  note ok' = entries_okD[OF ok]
  have l: "i < length I" using i by (simp add: live_def)
  show "entries_ok (I[i := x]) B U fl cnt"
    using l ok' x i new freelist_keep[OF ok'(3) i x(1)]
    by (auto simp: entries_ok_def live_update nth_list_update intro!: keys_distinct_update)
  show "kv_of (I[i := x]) B = (kv_of I B)(i_key (I ! i) := None, i_key x \<mapsto> B ! i)"
    using kv_of_put_inode[OF ok'(1) ok'(4) l x(1) new] i by simp
qed

lemma entries_write:
  assumes ok: "entries_ok I B U fl cnt" and i: "live I i" and b: "length b = BLOCKSIZE"
  shows "entries_ok I (B[i := b]) U fl cnt"
    and "kv_of I (B[i := b]) = (kv_of I B)(i_key (I ! i) \<mapsto> b)"
proof -
  note ok' = entries_okD[OF ok]
  show "entries_ok I (B[i := b]) U fl cnt"
    using ok' i b by (auto simp: entries_ok_def nth_list_update live_def)
  show "kv_of I (B[i := b]) = (kv_of I B)(i_key (I ! i) \<mapsto> b)"
    using kv_of_put_block[OF ok'(1) ok'(4) i] .
qed

end
