(* ===== verification/Kvfs_Disk.thy ===== *)
theory Kvfs_Disk
  imports Kvfs_Vfsops Kvfs_Table
begin

text \<open>
  The table of \<open>Kvfs_Table\<close> on a disk image: where \<open>mkkvfs\<close> puts the bitmap, the inodes and the data
  blocks, and how the three kinds of write change the table. The locale \<open>kv_store\<close> is the interface
  between the two levels: it is all the transitions of the map need to know of a disk. A mount
  whose geometry passes \<open>layout_ok\<close> provides it.
\<close>

section \<open>Definitions\<close>

text \<open>The sections are sector-aligned, in order, behind the superblock and on the device, and the
  number of blocks keeps the 32-bit arithmetic of the code exact.\<close>

definition layout_ok :: "kvfs_mount_t \<Rightarrow> nat \<Rightarrow> bool" where
  "layout_ok m devsize \<longleftrightarrow>
     freelist_off m mod 512 = 0 \<and> inode_off m mod 512 = 0 \<and> data_off m mod 512 = 0 \<and> 4096 \<le> freelist_off m \<and>
     freelist_off m + PAD 32 (CEIL 32 (block_count m) 8) \<le> inode_off m \<and>
     inode_off m + PAD 64 (block_count m * sizeof_inode) \<le> data_off m \<and>
     data_off m + BLOCKSIZE * block_count m \<le> devsize \<and> devsize < 2 ^ 63 \<and>
     block_count m < 2 ^ 31 \<and> freelist_off m + block_count m < 2 ^ 32"

definition inodes :: "kvfs_mount_t \<Rightarrow> image \<Rightarrow> kvfs_inode list" where
  "inodes m d = records decode_inode 32 (inode_off m) (block_count m) d"

definition blocks :: "kvfs_mount_t \<Rightarrow> image \<Rightarrow> byte list list" where
  "blocks m d = map (\<lambda>i. peek d (data_off m + 4096 * i) 4096) [0..<block_count m]"

definition used :: "kvfs_mount_t \<Rightarrow> image \<Rightarrow> bool list" where
  "used m d = map (\<lambda>i. bit (d (freelist_off m + i div 8)) (i mod 8)) [0..<block_count m]"

definition put_inode :: "kvfs_mount_t \<Rightarrow> nat \<Rightarrow> kvfs_inode \<Rightarrow> image \<Rightarrow> image" where
  "put_inode m i x d = poke d (inode_off m + 32 * i) (encode_inode x)"

definition put_block :: "kvfs_mount_t \<Rightarrow> nat \<Rightarrow> byte list \<Rightarrow> image \<Rightarrow> image" where
  "put_block m i b d = poke d (data_off m + 4096 * i) b"

definition put_used :: "kvfs_mount_t \<Rightarrow> nat \<Rightarrow> bool \<Rightarrow> image \<Rightarrow> image" where
  "put_used m i u d =
     (let at = freelist_off m + i div 8; msk = INO_TO_FREE_BIT_MASK (32 * i)
      in poke d at [if u then d at OR msk else d at AND NOT msk])"

section \<open>The interface\<close>

locale kv_store =
  fixes n :: nat
    and ino :: "'d \<Rightarrow> kvfs_inode list" and blk :: "'d \<Rightarrow> byte list list" and use_of :: "'d \<Rightarrow> bool list"
    and set_ino :: "nat \<Rightarrow> kvfs_inode \<Rightarrow> 'd \<Rightarrow> 'd" and set_blk :: "nat \<Rightarrow> byte list \<Rightarrow> 'd \<Rightarrow> 'd"
    and set_use :: "nat \<Rightarrow> bool \<Rightarrow> 'd \<Rightarrow> 'd"
  assumes len [simp]: "length (ino d) = n" "length (blk d) = n" "length (use_of d) = n"
    and set_ino [simp]: "i < n \<Longrightarrow> wf_inode x \<Longrightarrow> ino (set_ino i x d) = (ino d)[i := x]"
      "i < n \<Longrightarrow> wf_inode x \<Longrightarrow> blk (set_ino i x d) = blk d" "i < n \<Longrightarrow> wf_inode x \<Longrightarrow> use_of (set_ino i x d) = use_of d"
    and set_blk [simp]: "i < n \<Longrightarrow> length b = BLOCKSIZE \<Longrightarrow> ino (set_blk i b d) = ino d"
      "i < n \<Longrightarrow> length b = BLOCKSIZE \<Longrightarrow> blk (set_blk i b d) = (blk d)[i := b]"
      "i < n \<Longrightarrow> length b = BLOCKSIZE \<Longrightarrow> use_of (set_blk i b d) = use_of d"
    and set_use [simp]: "i < n \<Longrightarrow> ino (set_use i u d) = ino d" "i < n \<Longrightarrow> blk (set_use i u d) = blk d"
      "i < n \<Longrightarrow> use_of (set_use i u d) = (use_of d)[i := u]"
begin

lemma alloc:
  assumes "entries_ok (ino d) (blk d) (use_of d) (32 * i # fl) cnt" "\<not> is_free x" "wf_inode x"
    "\<forall>j. live (ino d) j \<longrightarrow> i_key (ino d ! j) \<noteq> i_key x"
  defines "d' \<equiv> set_ino i x (set_use i True d)"
  shows "entries_ok (ino d') (blk d') (use_of d') fl (cnt - 1)"
    and "kv_of (ino d') (blk d') = (kv_of (ino d) (blk d))(i_key x \<mapsto> zero_block)"
proof -
  have "i < n" using freelist_mem[OF entries_okD(3)[OF assms(1)], of "32 * i"] by simp
  then show "entries_ok (ino d') (blk d') (use_of d') fl (cnt - 1)"
    "kv_of (ino d') (blk d') = (kv_of (ino d) (blk d))(i_key x \<mapsto> zero_block)"
    using entries_alloc[OF assms(1-4)] assms(3) by (simp_all add: d'_def)
qed

lemma release:
  assumes "entries_ok (ino d) (blk d) (use_of d) fl cnt" "live (ino d) i" "is_free x" "wf_inode x"
  defines "d' \<equiv> set_use i False (set_blk i zero_block (set_ino i x d))"
  shows "entries_ok (ino d') (blk d') (use_of d') (32 * i # fl) (cnt + 1)"
    and "kv_of (ino d') (blk d') = (kv_of (ino d) (blk d))(i_key (ino d ! i) := None)"
proof -
  have "i < n" using assms(2) by (simp add: live_def)
  then show "entries_ok (ino d') (blk d') (use_of d') (32 * i # fl) (cnt + 1)"
    "kv_of (ino d') (blk d') = (kv_of (ino d) (blk d))(i_key (ino d ! i) := None)"
    using entries_release[OF assms(1-4)] assms(4) by (simp_all add: d'_def zero_block_def)
qed

lemma reinode:
  assumes "entries_ok (ino d) (blk d) (use_of d) fl cnt" "live (ino d) i" "\<not> is_free x" "wf_inode x"
    "\<forall>j. live (ino d) j \<and> j \<noteq> i \<longrightarrow> i_key (ino d ! j) \<noteq> i_key x"
  defines "d' \<equiv> set_ino i x d"
  shows "entries_ok (ino d') (blk d') (use_of d') fl cnt"
    and "kv_of (ino d') (blk d') = (kv_of (ino d) (blk d))(i_key (ino d ! i) := None, i_key x \<mapsto> blk d ! i)"
proof -
  have "i < n" using assms(2) by (simp add: live_def)
  then show "entries_ok (ino d') (blk d') (use_of d') fl cnt"
    "kv_of (ino d') (blk d') = (kv_of (ino d) (blk d))(i_key (ino d ! i) := None, i_key x \<mapsto> blk d ! i)"
    using entries_reinode[OF assms(1-5)] assms(4) by (simp_all add: d'_def)
qed

lemma rewrite:
  assumes "entries_ok (ino d) (blk d) (use_of d) fl cnt" "live (ino d) i" "length b = BLOCKSIZE"
  defines "d' \<equiv> set_blk i b d"
  shows "entries_ok (ino d') (blk d') (use_of d') fl cnt"
    and "kv_of (ino d') (blk d') = (kv_of (ino d) (blk d))(i_key (ino d ! i) \<mapsto> b)"
proof -
  have "i < n" using assms(2) by (simp add: live_def)
  then show "entries_ok (ino d') (blk d') (use_of d') fl cnt"
    "kv_of (ino d') (blk d') = (kv_of (ino d) (blk d))(i_key (ino d ! i) \<mapsto> b)"
    using entries_write[OF assms(1-3)] assms(3) by (simp_all add: d'_def)
qed

end

section \<open>Arithmetic of the layout\<close>

lemma length_views [simp]: "length (inodes m d) = block_count m" "length (blocks m d) = block_count m"
  "length (used m d) = block_count m"
  by (simp_all add: inodes_def blocks_def used_def)

lemma views_nth:
  "i < block_count m \<Longrightarrow> inodes m d ! i = decode_inode (peek d (inode_off m + 32 * i) 32)"
  "i < block_count m \<Longrightarrow> blocks m d ! i = peek d (data_off m + 4096 * i) 4096"
  "i < block_count m \<Longrightarrow> used m d ! i = bit (d (freelist_off m + i div 8)) (i mod 8)"
  by (simp_all add: inodes_def blocks_def used_def records_nth)

lemma views_freelist [simp]:
  "inodes (m\<lparr>freelist := fl, freelist_count := c\<rparr>) = inodes m"
  "blocks (m\<lparr>freelist := fl, freelist_count := c\<rparr>) = blocks m"
  "used (m\<lparr>freelist := fl, freelist_count := c\<rparr>) = used m"
  "layout_ok (m\<lparr>freelist := fl, freelist_count := c\<rparr>) = layout_ok m"
  by (auto simp: inodes_def blocks_def used_def layout_ok_def fun_eq_iff)

lemma layout_freelist_bytes:
  assumes "layout_ok m devsize"
  shows "CEIL 32 (block_count m) 8 = (block_count m + 7) div 8"
    and "(block_count m + 7) div 8 \<le> PAD 32 (CEIL 32 (block_count m) 8)"
    and "PAD 32 (CEIL 32 (block_count m) 8) mod 512 = 0"
proof -
  have b: "block_count m < 2 ^ 31" using assms by (simp add: layout_ok_def)
  then show c: "CEIL 32 (block_count m) 8 = (block_count m + 7) div 8" by (simp add: CEIL_def)
  have small: "(block_count m + 7) div 8 + 4095 < 2 ^ 32" using b by simp
  show "(block_count m + 7) div 8 \<le> PAD 32 (CEIL 32 (block_count m) 8)"
    unfolding c by (rule PAD_ge[OF small])
  have "4096 dvd PAD 32 (CEIL 32 (block_count m) 8)" unfolding c by (rule PAD_dvd[OF small])
  then show "PAD 32 (CEIL 32 (block_count m) 8) mod 512 = 0" by (auto elim!: dvdE)
qed

lemma layout_inode_bytes:
  assumes "layout_ok m devsize"
  shows "32 * block_count m \<le> PAD 64 (block_count m * sizeof_inode)"
    and "PAD 64 (block_count m * sizeof_inode) mod 512 = 0"
proof -
  have "block_count m < 2 ^ 31" using assms by (simp add: layout_ok_def)
  then have small: "block_count m * sizeof_inode + 4095 < 2 ^ 64" by (simp add: sizeof_inode_def)
  show "32 * block_count m \<le> PAD 64 (block_count m * sizeof_inode)"
    using PAD_ge[OF small] by (simp add: sizeof_inode_def)
  show "PAD 64 (block_count m * sizeof_inode) mod 512 = 0"
    using PAD_dvd[OF small] by (auto elim!: dvdE)
qed

lemma layout_okD:
  assumes "layout_ok m devsize"
  shows "freelist_off m + PAD 32 (CEIL 32 (block_count m) 8) \<le> inode_off m"
    "inode_off m + PAD 64 (block_count m * sizeof_inode) \<le> data_off m"
    "data_off m + 4096 * block_count m \<le> devsize" "devsize < 9223372036854775808"
    "block_count m < 2147483648" "freelist_off m + block_count m < 4294967296"
    "\<exists>a. freelist_off m = 512 * a" "\<exists>a. inode_off m = 512 * a" "\<exists>a. data_off m = 512 * a"
    "4096 \<le> freelist_off m"
  using assms by (auto simp: layout_ok_def BLOCKSIZE_def)

text \<open>The three sections and the sectors in them.\<close>

lemma ceil8_less: "i < (n :: nat) \<Longrightarrow> i div 8 < (n + 7) div 8"
  using div_le_mono[of "i + 8" "n + 7" 8] by simp

lemma layout_bounds:
  assumes "layout_ok m devsize" "i < block_count m"
  shows "freelist_off m + i div 8 < inode_off m" "inode_off m + 32 * i + 32 \<le> data_off m"
    "data_off m + 4096 * i + 4096 \<le> devsize"
proof -
  note lo = layout_okD[OF assms(1)]
  show "freelist_off m + i div 8 < inode_off m"
    using less_le_trans[OF ceil8_less[OF assms(2)] layout_freelist_bytes(2)[OF assms(1)]] lo(1)
    by (meson add_less_cancel_left less_le_trans)
  show "inode_off m + 32 * i + 32 \<le> data_off m"
    using layout_inode_bytes(1)[OF assms(1)] lo(2) assms(2) by linarith
  show "data_off m + 4096 * i + 4096 \<le> devsize" using lo(3) assms(2) by linarith
qed

lemma sector_within:
  assumes "\<exists>a. lo = 512 * a" "len mod 512 = 0" "off < len" "lo + len \<le> (bound :: nat)"
  shows "512 * btodb (lo + off) + 512 \<le> bound"
proof -
  obtain a b where "lo = 512 * a" "len = 512 * b" using assms(1,2) by (auto simp: mod_eq_0_iff_dvd elim!: dvdE)
  moreover have "off div 512 < b" using assms(3) calculation by (simp add: div_less_iff_less_mult mult.commute)
  ultimately show ?thesis using assms(4) by (simp add: btodb_def DEV_BSIZE_def)
qed

lemma layout_inode_sector:
  assumes "layout_ok m devsize" "i < block_count m"
  shows "(inode_off m + 32 * i) mod 2 ^ 64 = inode_off m + 32 * i"
    and "512 * btodb (inode_off m + 32 * i) + 512 \<le> devsize"
    and "512 * btodb (inode_off m + 32 * i) + 32 * i mod 512 = inode_off m + 32 * i"
    and "32 * i mod 512 + 32 \<le> 512"
proof -
  note lo = layout_okD[OF assms(1)] and b = layout_bounds[OF assms]
  have "inode_off m + 32 * i < 18446744073709551616" using b(2,3) lo(4) by linarith
  then show "(inode_off m + 32 * i) mod 2 ^ 64 = inode_off m + 32 * i" by simp
  have "32 * i < PAD 64 (block_count m * sizeof_inode)"
    using layout_inode_bytes(1)[OF assms(1)] assms(2) by linarith
  moreover have "inode_off m + PAD 64 (block_count m * sizeof_inode) \<le> devsize" using lo(2,3) by linarith
  ultimately show "512 * btodb (inode_off m + 32 * i) + 512 \<le> devsize"
    using lo(8) layout_inode_bytes(2)[OF assms(1)] by (intro sector_within)
  obtain a where a: "inode_off m = 512 * a" using lo(8) by blast
  have "512 * ((512 * a + 32 * i) div 512) + (512 * a + 32 * i) mod 512 = 512 * a + 32 * i"
    by (rule mult_div_mod_eq)
  then show "512 * btodb (inode_off m + 32 * i) + 32 * i mod 512 = inode_off m + 32 * i"
    unfolding btodb_def DEV_BSIZE_def a by (simp only: mod_mult_self4)
  have "32 * i mod 512 = 32 * (i mod 16)" using mod_mult_mult1[of 32 i 16] by simp
  then show "32 * i mod 512 + 32 \<le> 512" by simp
qed

lemma layout_free_sector:
  assumes "layout_ok m devsize" "i < block_count m"
  shows "INO_TO_FREE_BYTE (32 * i) (freelist_off m) = freelist_off m + i div 8"
    and "(freelist_off m + i div 8) mod 2 ^ 32 = freelist_off m + i div 8"
    and "512 * btodb (freelist_off m + i div 8) + 512 \<le> devsize"
    and "512 * btodb (freelist_off m + i div 8) + (freelist_off m + i div 8) mod 512 = freelist_off m + i div 8"
proof -
  note lo = layout_okD[OF assms(1)]
  have "i div 8 \<le> i" by simp
  then have small: "freelist_off m + i div 8 < 4294967296" using lo(6) assms(2) by linarith
  then show "(freelist_off m + i div 8) mod 2 ^ 32 = freelist_off m + i div 8" by simp
  define q where "q = i div 8"
  have "(q + freelist_off m) mod 2 ^ 64 = freelist_off m + q"
    using small by (simp flip: q_def)
  then show "INO_TO_FREE_BYTE (32 * i) (freelist_off m) = freelist_off m + i div 8"
    unfolding INO_TO_FREE_BYTE_def sizeof_inode_def q_def by simp
  have "i div 8 < PAD 32 (CEIL 32 (block_count m) 8)"
    by (rule less_le_trans[OF ceil8_less[OF assms(2)] layout_freelist_bytes(2)[OF assms(1)]])
  moreover have "freelist_off m + PAD 32 (CEIL 32 (block_count m) 8) \<le> devsize" using lo(1,2,3) by linarith
  ultimately show "512 * btodb (freelist_off m + i div 8) + 512 \<le> devsize"
    using lo(7) layout_freelist_bytes(3)[OF assms(1)] by (intro sector_within)
  show "512 * btodb (freelist_off m + i div 8) + (freelist_off m + i div 8) mod 512 = freelist_off m + i div 8"
    by (simp add: btodb_def DEV_BSIZE_def)
qed

lemma layout_data_block:
  assumes "layout_ok m devsize" "i < block_count m"
  shows "btodb ((data_off m + INO_TO_BLOCKNUM (32 * i)) mod 2 ^ 64) = btodb (data_off m + 4096 * i)"
    and "512 * btodb (data_off m + 4096 * i) = data_off m + 4096 * i"
proof -
  note lo = layout_okD[OF assms(1)]
  have lt: "data_off m + 4096 * i < 18446744073709551616" using layout_bounds(3)[OF assms] lo(4) by linarith
  then have "INO_TO_BLOCKNUM (32 * i) = 4096 * i"
    by (simp add: INO_TO_BLOCKNUM_def sizeof_inode_def BLOCKSIZE_def mult.commute)
  then show "btodb ((data_off m + INO_TO_BLOCKNUM (32 * i)) mod 2 ^ 64) = btodb (data_off m + 4096 * i)"
    using lt by simp
  obtain a where a: "data_off m = 512 * a" using lo(9) by blast
  have "512 * a + 4096 * i = 512 * (a + 8 * i)" by simp
  then show "512 * btodb (data_off m + 4096 * i) = data_off m + 4096 * i"
    unfolding btodb_def DEV_BSIZE_def a by (simp only: nonzero_mult_div_cancel_left)
qed

lemma layout_table_read:
  assumes "layout_ok m devsize"
  shows "512 * btodb (inode_off m) = inode_off m"
    and "inode_off m + PAD 64 (block_count m * sizeof_inode) \<le> devsize"
proof -
  note lo = layout_okD[OF assms(1)]
  show "512 * btodb (inode_off m) = inode_off m" using lo(8) by (auto simp: btodb_def DEV_BSIZE_def)
  show "inode_off m + PAD 64 (block_count m * sizeof_inode) \<le> devsize" using lo(2,3) by linarith
qed

section \<open>The disk provides the interface\<close>

lemma encode_inode_32: "wf_inode x \<Longrightarrow> length (encode_inode x) = 32"
  by (simp add: encode_inode_def wf_inode_def)

interpretation inode_codec: record_codec 32 encode_inode decode_inode wf_inode
  by unfold_locales (use encode_inode_32 decode_encode_inode' in blast)+

lemma put_inode_views:
  assumes "layout_ok m devsize" "i < block_count m" "wf_inode x"
  shows "inodes m (put_inode m i x d) = (inodes m d)[i := x]"
    and "blocks m (put_inode m i x d) = blocks m d" and "used m (put_inode m i x d) = used m d"
proof -
  note l = encode_inode_32[OF assms(3)]
  note bi = layout_bounds[OF assms(1,2)] and bj = layout_bounds[OF assms(1)]
  show "inodes m (put_inode m i x d) = (inodes m d)[i := x]"
    unfolding inodes_def put_inode_def by (rule inode_codec.records_put[OF assms(2,3)])
  show "blocks m (put_inode m i x d) = blocks m d"
    by (rule nth_equalityI) (use bi l in \<open>auto simp: views_nth put_inode_def intro!: peek_poke_disjoint\<close>)
  show "used m (put_inode m i x d) = used m d"
  proof (rule nth_equalityI)
    fix j assume "j < length (used m (put_inode m i x d))"
    then have j: "j < block_count m" by simp
    then show "used m (put_inode m i x d) ! j = used m d ! j"
      using bj(1)[OF j] by (simp add: views_nth put_inode_def poke_apply)
  qed simp
qed

lemma put_block_views:
  assumes "layout_ok m devsize" "i < block_count m" "length b = BLOCKSIZE"
  shows "inodes m (put_block m i b d) = inodes m d"
    and "blocks m (put_block m i b d) = (blocks m d)[i := b]" and "used m (put_block m i b d) = used m d"
proof -
  note bj = layout_bounds[OF assms(1)]
  have l: "length b = 4096" using assms(3) by (simp add: BLOCKSIZE_def)
  show "inodes m (put_block m i b d) = inodes m d"
  proof (rule nth_equalityI)
    fix j assume "j < length (inodes m (put_block m i b d))"
    then have j: "j < block_count m" by simp
    then show "inodes m (put_block m i b d) ! j = inodes m d ! j"
      using bj(2)[OF j] by (simp add: views_nth put_block_def peek_poke_disjoint)
  qed simp
  show "blocks m (put_block m i b d) = (blocks m d)[i := b]"
  proof (rule nth_equalityI)
    fix j assume "j < length (blocks m (put_block m i b d))"
    then have j: "j < block_count m" by simp
    show "blocks m (put_block m i b d) ! j = (blocks m d)[i := b] ! j"
    proof (cases "j = i")
      case True
      then show ?thesis using j l by (simp add: views_nth put_block_def peek_poke_same)
    next
      case False
      then have "data_off m + 4096 * j + 4096 \<le> data_off m + 4096 * i \<or> data_off m + 4096 * i + 4096 \<le> data_off m + 4096 * j"
        by linarith
      then show ?thesis using j l False by (simp add: views_nth put_block_def peek_poke_disjoint)
    qed
  qed simp
  show "used m (put_block m i b d) = used m d"
  proof (rule nth_equalityI)
    fix j assume "j < length (used m (put_block m i b d))"
    then have j: "j < block_count m" by simp
    then show "used m (put_block m i b d) ! j = used m d ! j"
      using bj(1)[OF j] bj(2)[OF j] by (simp add: views_nth put_block_def poke_apply)
  qed simp
qed

lemma put_used_views:
  assumes "layout_ok m devsize" "i < block_count m"
  shows "inodes m (put_used m i u d) = inodes m d" and "blocks m (put_used m i u d) = blocks m d"
    and "used m (put_used m i u d) = (used m d)[i := u]"
proof -
  note bi = layout_bounds[OF assms]
  show "inodes m (put_used m i u d) = inodes m d"
    by (rule nth_equalityI)
      (use bi in \<open>auto simp: views_nth put_used_def Let_def intro!: arg_cong[where f = decode_inode] peek_poke_disjoint\<close>)
  show "blocks m (put_used m i u d) = blocks m d"
    by (rule nth_equalityI) (use bi in \<open>auto simp: views_nth put_used_def Let_def intro!: peek_poke_disjoint\<close>)
  show "used m (put_used m i u d) = (used m d)[i := u]"
  proof (rule nth_equalityI)
    fix j assume "j < length (used m (put_used m i u d))"
    then have j: "j < block_count m" by simp
    have eq: "j = i" if "j div 8 = i div 8" "j mod 8 = i mod 8" using that by (metis div_mod_decomp)
    show "used m (put_used m i u d) ! j = (used m d)[i := u] ! j"
    proof (cases "j div 8 = i div 8")
      case True
      then have "j \<noteq> i \<Longrightarrow> j mod 8 \<noteq> i mod 8" using eq by blast
      then show ?thesis using j assms(2) True
        by (cases "j = i"; cases u) (simp_all add: views_nth put_used_def Let_def poke_apply bit_set_mask bit_clear_mask)
    next
      case False
      then have "j \<noteq> i" by blast
      moreover have "\<not> (freelist_off m + i div 8 \<le> freelist_off m + j div 8 \<and> freelist_off m + j div 8 < freelist_off m + i div 8 + 1)"
        using False by linarith
      ultimately show ?thesis using j by (auto simp: views_nth put_used_def Let_def poke_apply)
    qed
  qed simp
qed

locale kvfs_layout =
  fixes m :: kvfs_mount_t and devsize :: nat
  assumes layout: "layout_ok m devsize"
begin

lemma wf_inodes: "i < block_count m \<Longrightarrow> wf_inode (inodes m d ! i)"
  by (simp add: views_nth wf_inode_def decode_inode_def)

end

sublocale kvfs_layout \<subseteq> store: kv_store "block_count m" "inodes m" "blocks m" "used m" "put_inode m" "put_block m" "put_used m"
  using layout by unfold_locales (simp_all add: put_inode_views put_block_views put_used_views)

text \<open>The transitions of the map, on a disk.\<close>

context kvfs_layout
begin

lemmas disk_alloc = store.alloc
lemmas disk_release = store.release
lemmas disk_reinode = store.reinode
lemmas disk_rewrite = store.rewrite

end

end
