(* ===== verification/Kvfs_Cache.thy ===== *)
theory Kvfs_Cache
  imports Kvfs_Vnops Kvfs_Disk
begin

text \<open>
  The state of a mounted kvfs. The invariant \<open>kvfs_wf\<close> relates the disk, the free list and the vnode
  cache; \<open>kv\<close> reads the map off the disk. The lemmas on single kernel calls, on sector updates
  and on \<open>kvfs_vget_internal\<close> are proved inside \<open>healthy_kernel\<close>; the operations build on them in
  \<open>Kvfs_Refine\<close>.
\<close>

section \<open>Definitions\<close>

definition file_vnode :: "kvfs_mount_t \<Rightarrow> nat \<Rightarrow> nat \<Rightarrow> kvfs_inode \<Rightarrow> vnode" where
  "file_vnode m mid i x =
     \<lparr>v_data = Some \<lparr>m_ino = 32 * i, m_lbn = btodb (data_off m + 4096 * i), m_inode = x\<rparr>,
      v_root = False, v_type = VREG, v_mount = mid\<rparr>"

definition root_vnode :: "nat \<Rightarrow> vnode" where
  "root_vnode mid = \<lparr>v_data = Some root_memnode, v_root = True, v_type = VDIR, v_mount = mid\<rparr>"

text \<open>A hashed vnode is the root's or mirrors the inode of a live entry.\<close>

definition cache_ok :: "kvfs_mount_t \<Rightarrow> nat \<Rightarrow> (vid \<Rightarrow> vnode) \<Rightarrow> kvfs_inode list \<Rightarrow> (nat \<rightharpoonup> vid) \<Rightarrow> bool" where
  "cache_ok m mid V I h \<longleftrightarrow>
     (\<forall>ino vp. h ino = Some vp \<longrightarrow> (ino = KVFS_ROOT_INO \<and> V vp = root_vnode mid) \<or>
        (\<exists>i. live I i \<and> ino = 32 * i \<and> V vp = file_vnode m mid i (I ! i)))"

definition kvfs_ok :: "nat \<Rightarrow> image \<Rightarrow> (nat \<rightharpoonup> vid) \<Rightarrow> 'k fs \<Rightarrow> bool" where
  "kvfs_ok devsize d h s \<longleftrightarrow>
     layout_ok (mnt s) devsize \<and>
     entries_ok (inodes (mnt s) d) (blocks (mnt s) d) (used (mnt s) d) (freelist (mnt s)) (freelist_count (mnt s)) \<and>
     cache_ok (mnt s) (mnt_id s) (vns s) (inodes (mnt s) d) h"

definition kvfs_wf :: "nat \<Rightarrow> ('k \<Rightarrow> image) \<Rightarrow> ('k \<Rightarrow> nat \<rightharpoonup> vid) \<Rightarrow> 'k fs \<Rightarrow> bool" where
  "kvfs_wf devsize img hash s \<longleftrightarrow> kvfs_ok devsize (img (kst s)) (hash (kst s)) s"

definition kv :: "('k \<Rightarrow> image) \<Rightarrow> 'k fs \<Rightarrow> kvmap" where
  "kv img s = kv_of (inodes (mnt s) (img (kst s))) (blocks (mnt s) (img (kst s)))"

text \<open>\<open>vp\<close> is the cached vnode of the file with key \<open>kb\<close>; \<open>vp\<close> is the root directory.\<close>

definition vnode_of :: "('k \<Rightarrow> image) \<Rightarrow> ('k \<Rightarrow> nat \<rightharpoonup> vid) \<Rightarrow> 'k fs \<Rightarrow> vid \<Rightarrow> byte list \<Rightarrow> bool" where
  "vnode_of img hash s vp kb \<longleftrightarrow>
     (\<exists>i < block_count (mnt s). hash (kst s) (32 * i) = Some vp \<and> i_key (inodes (mnt s) (img (kst s)) ! i) = kb)"

definition root_of :: "('k \<Rightarrow> nat \<rightharpoonup> vid) \<Rightarrow> 'k fs \<Rightarrow> vid \<Rightarrow> bool" where
  "root_of hash s vp \<longleftrightarrow> hash (kst s) KVFS_ROOT_INO = Some vp"

section \<open>The vnode cache\<close>

lemma set_vnode_simps [simp]:
  "kst (set_vnode vp v s) = kst s" "mnt (set_vnode vp v s) = mnt s" "mnt_id (set_vnode vp v s) = mnt_id s"
  "vns (set_vnode vp v s) = (vns s)(vp := v)"
  by (simp_all add: set_vnode_def)

lemma set_vnode_commute [simp]:
  "(set_vnode vp v s)\<lparr>kst := k\<rparr> = set_vnode vp v (s\<lparr>kst := k\<rparr>)"
  "set_vnode vp v (set_vnode vp w s) = set_vnode vp v s"
  by (cases s; simp add: set_vnode_def)+

lemma root_ino_not_file: "KVFS_ROOT_INO \<noteq> 32 * i"
proof
  assume "KVFS_ROOT_INO = 32 * i"
  then have "(34359738376 :: nat) = 32 * i" by (simp add: KVFS_ROOT_INO_def)
  then show False by presburger
qed

lemma cache_okD:
  assumes "cache_ok m mid V I h" "h (32 * i) = Some vp"
  shows "live I i" "V vp = file_vnode m mid i (I ! i)"
proof -
  have "(32 * i = KVFS_ROOT_INO \<and> V vp = root_vnode mid) \<or>
      (\<exists>j. live I j \<and> 32 * i = 32 * j \<and> V vp = file_vnode m mid j (I ! j))"
    using assms unfolding cache_ok_def by blast
  then show "live I i" "V vp = file_vnode m mid i (I ! i)" using root_ino_not_file[of i] by auto
qed

lemma cache_root:
  assumes "cache_ok m mid V I h" "h KVFS_ROOT_INO = Some vp"
  shows "V vp = root_vnode mid"
  using assms root_ino_not_file by (auto simp: cache_ok_def)

lemma file_vnode_neq [simp]: "file_vnode m mid i x \<noteq> root_vnode mid'" "root_vnode mid' \<noteq> file_vnode m mid i x"
  by (simp_all add: file_vnode_def root_vnode_def)

lemma file_vnode_eq [simp]: "file_vnode m mid i x = file_vnode m mid j y \<longleftrightarrow> i = j \<and> x = y"
  by (auto simp: file_vnode_def)

text \<open>No vnode is hashed under two inode numbers.\<close>

lemma cache_inj:
  assumes "cache_ok m mid V I h" "h a = Some vp" "h b = Some vp"
  shows "a = b"
proof -
  have "(a = KVFS_ROOT_INO \<and> V vp = root_vnode mid) \<or> (\<exists>i. a = 32 * i \<and> V vp = file_vnode m mid i (I ! i))"
    "(b = KVFS_ROOT_INO \<and> V vp = root_vnode mid) \<or> (\<exists>i. b = 32 * i \<and> V vp = file_vnode m mid i (I ! i))"
    using assms by (auto simp: cache_ok_def)
  then show ?thesis by auto
qed

lemma cache_insert_file:
  assumes "cache_ok m mid V I h" "vp \<notin> ran h" "live I i"
  shows "cache_ok m mid (V(vp := file_vnode m mid i (I ! i))) I (h(32 * i \<mapsto> vp))"
  using assms by (auto simp: cache_ok_def ran_def)

lemma cache_insert_root:
  assumes "cache_ok m mid V I h" "vp \<notin> ran h"
  shows "cache_ok m mid (V(vp := root_vnode mid)) I (h(KVFS_ROOT_INO \<mapsto> vp))"
  using assms by (auto simp: cache_ok_def ran_def)

lemma cache_alloc:
  assumes "cache_ok m mid V I h" "i < length I" "\<not> live I i"
  shows "cache_ok m mid V (I[i := x]) h"
  using assms by (fastforce simp: cache_ok_def live_update)

lemma cache_reinode:
  assumes "cache_ok m mid V I h" "h (32 * i) = Some vp" "\<not> is_free x"
  shows "cache_ok m mid (V(vp := file_vnode m mid i x)) (I[i := x]) h"
  unfolding cache_ok_def
proof clarify
  fix ino v assume h: "h ino = Some v" and n: "\<nexists>j. live (I[i := x]) j \<and> ino = 32 * j \<and>
      (V(vp := file_vnode m mid i x)) v = file_vnode m mid j (I[i := x] ! j)"
  have l: "live I i" using cache_okD(1)[OF assms(1,2)] .
  then have il: "i < length I" by (simp add: live_def)
  show "ino = KVFS_ROOT_INO \<and> (V(vp := file_vnode m mid i x)) v = root_vnode mid"
  proof (cases "v = vp")
    case True
    then have "ino = 32 * i" using cache_inj[OF assms(1) h] assms(2) by simp
    with True n il assms(3) show ?thesis by (auto simp: live_update)
  next
    case False
    then have "ino \<noteq> 32 * i" using h assms(2) by auto
    moreover have "(ino = KVFS_ROOT_INO \<and> V v = root_vnode mid) \<or> (\<exists>j. live I j \<and> ino = 32 * j \<and> V v = file_vnode m mid j (I ! j))"
      using assms(1) h by (simp add: cache_ok_def)
    ultimately show ?thesis using n il False by (auto simp: live_update)
  qed
qed

lemma cache_release:
  assumes "cache_ok m mid V I h" "h (32 * i) = Some vp" "i < length I"
  shows "cache_ok m mid V (I[i := x]) (\<lambda>j. if h j = Some vp then None else h j)"
  unfolding cache_ok_def
proof (intro allI impI)
  fix ino v assume "(if h ino = Some vp then None else h ino) = Some v"
  then have h: "h ino = Some v" "v \<noteq> vp" by (auto split: if_splits)
  then have ne: "ino \<noteq> 32 * i" using assms(2) by auto
  have "(ino = KVFS_ROOT_INO \<and> V v = root_vnode mid) \<or> (\<exists>j. live I j \<and> ino = 32 * j \<and> V v = file_vnode m mid j (I ! j))"
    using assms(1) h by (simp add: cache_ok_def)
  then show "(ino = KVFS_ROOT_INO \<and> V v = root_vnode mid) \<or>
      (\<exists>j. live (I[i := x]) j \<and> ino = 32 * j \<and> V v = file_vnode m mid j (I[i := x] ! j))"
    using ne assms(3) by (auto simp: live_update)
qed

lemma cache_drop:
  assumes "cache_ok m mid V I h" "h a = Some vp"
  shows "cache_ok m mid (V(vp := v)) I (\<lambda>j. if h j = Some vp then None else h j)"
  using assms by (auto simp: cache_ok_def)

lemma cache_ok_freelist [simp]: "cache_ok (m\<lparr>freelist := fl, freelist_count := c\<rparr>) = cache_ok m"
  by (auto simp: cache_ok_def file_vnode_def fun_eq_iff)

section \<open>Kernel calls on a good layout\<close>

lemma overlay_single: "p < length xs \<Longrightarrow> overlay p [y] xs = xs[p := y]"
  by (simp add: overlay_def upd_conv_take_nth_drop)

lemma kvfs_okD:
  assumes "kvfs_ok devsize d h s"
  shows "layout_ok (mnt s) devsize"
    "entries_ok (inodes (mnt s) d) (blocks (mnt s) d) (used (mnt s) d) (freelist (mnt s)) (freelist_count (mnt s))"
    "cache_ok (mnt s) (mnt_id s) (vns s) (inodes (mnt s) d) h"
  using assms by (simp_all add: kvfs_ok_def)

lemma live_bound: "live (inodes m d) i \<Longrightarrow> i < block_count m"
  by (simp add: live_def)

lemma clear_then_set: "b AND a = 0 \<Longrightarrow> (f AND NOT a OR b) AND a = (0 :: 'a::len word)"
  by (auto simp: bit_eq_iff bit_and_iff bit_or_iff bit_not_iff)

lemma alloc_flags: "(f AND NOT KVFS_INODE_FREE OR KVFS_INODE_ACTIVE) AND KVFS_INODE_FREE = 0"
  by (rule clear_then_set) (simp add: KVFS_INODE_FREE_def KVFS_INODE_ACTIVE_def)

lemma str_to_key_length: "str_to_key str = (0, kb) \<Longrightarrow> length kb = 20"
  using str_to_key_cases[of str] by auto

context healthy_kernel
begin

text \<open>The kernel contract, in the form the handlers' proofs use it.\<close>

lemma read_inode_sector:
  assumes "layout_ok m devsize" "i < block_count m"
  shows "\<exists>b k'. k_bread K k (btodb ((inode_off m + 32 * i) mod 2 ^ 64)) DEV_BSIZE = (0, Some b, k') \<and>
    length (b_data b) = 512 \<and> decode_inode (slice (32 * i mod 512) 32 (b_data b)) = inodes m (img k) ! i \<and>
    img k' = img k \<and> hash k' = hash k \<and>
    (\<forall>x k1. wf_inode x \<longrightarrow> img k1 = img k \<longrightarrow>
      (\<exists>k2. k_bwrite K k1 (b\<lparr>b_data := overlay (32 * i mod 512) (encode_inode x) (b_data b)\<rparr>) = (0, k2) \<and>
        img k2 = put_inode m i x (img k) \<and> hash k2 = hash k1))"
proof -
  note sec = layout_inode_sector[OF assms]
  let ?s = "btodb (inode_off m + 32 * i)" and ?p = "32 * i mod 512"
  let ?b = "\<lparr>b_blkno = ?s, b_data = peek (img k) (512 * ?s) 512, b_resid = 0\<rparr>"
  obtain k' where k': "k_bread K k ?s DEV_BSIZE = (0, Some ?b, k')" "img k' = img k" "hash k' = hash k"
    using bread[of ?s DEV_BSIZE k] sec(2) by (auto simp: DEV_BSIZE_def)
  have "\<exists>k2. k_bwrite K k1 (?b\<lparr>b_data := overlay ?p (encode_inode x) (b_data ?b)\<rparr>) = (0, k2) \<and>
      img k2 = put_inode m i x (img k) \<and> hash k2 = hash k1" if "wf_inode x" "img k1 = img k" for x k1
  proof -
    have l: "length (encode_inode x) = 32" using that(1) by (rule encode_inode_32)
    let ?w = "?b\<lparr>b_data := overlay ?p (encode_inode x) (b_data ?b)\<rparr>"
    have "512 * b_blkno ?w + length (b_data ?w) \<le> devsize" using sec(2,4) l by simp
    from bwrite[OF this, of k1] obtain k2 where "k_bwrite K k1 ?w = (0, k2)"
      "img k2 = poke (img k1) (512 * ?s) (overlay ?p (encode_inode x) (peek (img k) (512 * ?s) 512))" "hash k2 = hash k1"
      by auto
    moreover have "poke (img k) (512 * ?s) (overlay ?p (encode_inode x) (peek (img k) (512 * ?s) 512)) = put_inode m i x (img k)"
      using sec(4) l poke_overlay[of ?p "encode_inode x" 512 "img k" "512 * ?s"] unfolding sec(3) put_inode_def by simp
    ultimately show ?thesis using that(2) by auto
  qed
  moreover have "decode_inode (slice ?p 32 (peek (img k) (512 * ?s) 512)) = inodes m (img k) ! i"
    using sec(3,4) assms(2) by (simp add: slice_peek views_nth)
  ultimately show ?thesis using k' unfolding sec(1) by auto
qed

lemma update_bitmap:
  assumes "layout_ok m devsize" "i < block_count m"
  defines "fb \<equiv> freelist_off m + i div 8"
  shows "\<exists>b k1. k_bread K k (btodb fb) DEV_BSIZE = (0, Some b, k1) \<and> fb mod DEV_BSIZE < length (b_data b) \<and>
    (\<exists>k2. k_bwrite K k1 (b\<lparr>b_data := (b_data b)[fb mod DEV_BSIZE :=
        (if u then b_data b ! (fb mod DEV_BSIZE) OR INO_TO_FREE_BIT_MASK (32 * i)
         else b_data b ! (fb mod DEV_BSIZE) AND NOT (INO_TO_FREE_BIT_MASK (32 * i)))]\<rparr>) = (0, k2) \<and>
      img k2 = put_used m i u (img k) \<and> hash k2 = hash k)"
proof -
  note sec = layout_free_sector(3,4)[OF assms(1,2), folded fb_def]
  let ?y = "if u then img k fb OR INO_TO_FREE_BIT_MASK (32 * i) else img k fb AND NOT (INO_TO_FREE_BIT_MASK (32 * i))"
  have p: "fb mod 512 < 512" by simp
  obtain b k1 k2 where rmw: "k_bread K k (btodb fb) 512 = (0, Some b, k1)" "b_data b = peek (img k) (512 * btodb fb) 512"
      "k_bwrite K k1 (b\<lparr>b_data := overlay (fb mod 512) [?y] (b_data b)\<rparr>) = (0, k2)"
      "img k2 = poke (img k) (512 * btodb fb + fb mod 512) [?y]" "hash k2 = hash k"
    using read_modify_write[OF sec(1), of "fb mod 512" "[?y]" k] p by auto
  have "overlay (fb mod 512) [?y] (b_data b) = (b_data b)[fb mod 512 := ?y]"
    using rmw(2) p by (simp add: overlay_single)
  moreover have "b_data b ! (fb mod 512) = img k fb" using rmw(2) p sec(2) by simp
  moreover have "img k2 = put_used m i u (img k)"
    using rmw(4) sec(2) by (simp add: put_used_def Let_def fb_def)
  ultimately show ?thesis using rmw p by (auto simp: DEV_BSIZE_def)
qed

lemma memnode_update_ok:
  assumes "layout_ok (mnt s) devsize" "i < block_count (mnt s)" "m_ino knode = 32 * i" "wf_inode x"
  shows "\<exists>k'. memnode_update K knode x s = Inr (0, s\<lparr>kst := k'\<rparr>) \<and>
    img k' = put_inode (mnt s) i x (img (kst s)) \<and> hash k' = hash (kst s)"
proof -
  obtain b k1 where r: "k_bread K (kst s) (btodb ((inode_off (mnt s) + 32 * i) mod 2 ^ 64)) DEV_BSIZE = (0, Some b, k1)"
    "length (b_data b) = 512" "img k1 = img (kst s)" "hash k1 = hash (kst s)"
    and w: "\<And>k1. img k1 = img (kst s) \<Longrightarrow>
      \<exists>k2. k_bwrite K k1 (b\<lparr>b_data := overlay (32 * i mod 512) (encode_inode x) (b_data b)\<rparr>) = (0, k2) \<and>
        img k2 = put_inode (mnt s) i x (img (kst s)) \<and> hash k2 = hash k1"
    using read_inode_sector[OF assms(1,2), of "kst s"] assms(4) by blast
  from w[OF r(3)] obtain k2 where w2:
    "k_bwrite K k1 (b\<lparr>b_data := overlay (32 * i mod 512) (encode_inode x) (b_data b)\<rparr>) = (0, k2)"
    "img k2 = put_inode (mnt s) i x (img (kst s))" "hash k2 = hash k1" by blast
  have "32 * i mod 512 + 32 \<le> 512" by (rule layout_inode_sector(4)[OF assms(1,2)])
  then show ?thesis
    using r w2 assms(3) by (intro exI[of _ k2]) (simp add: memnode_update_def Let_def DEV_BSIZE_def sizeof_inode_def)
qed

subsection \<open>Getting a vnode\<close>

lemma vget_load_live:
  assumes "layout_ok (mnt s) devsize" "live (inodes (mnt s) (img (kst s))) i"
  shows "\<exists>k'. vget_load K node (32 * i) ks s =
      vget_finish node (32 * i) \<lparr>m_ino = 32 * i, m_lbn = btodb (data_off (mnt s) + 4096 * i),
        m_inode = inodes (mnt s) (img (kst s)) ! i\<rparr> (s\<lparr>kst := k'\<rparr>) \<and>
    img k' = img (kst s) \<and> hash k' = hash (kst s)"
proof -
  have i: "i < block_count (mnt s)" using assms(2) by (rule live_bound)
  obtain b k1 where r: "k_bread K (kst s) (btodb ((inode_off (mnt s) + 32 * i) mod 2 ^ 64)) DEV_BSIZE = (0, Some b, k1)"
    "length (b_data b) = 512" "decode_inode (slice (32 * i mod 512) 32 (b_data b)) = inodes (mnt s) (img (kst s)) ! i"
    "img k1 = img (kst s)" "hash k1 = hash (kst s)"
    using read_inode_sector[OF assms(1) i, of "kst s"] by blast
  have "32 * i mod 512 + 32 \<le> 512" by (rule layout_inode_sector(4)[OF assms(1) i])
  then show ?thesis
    using r assms(2) layout_data_block(1)[OF assms(1) i]
    by (intro exI[of _ "k_brelse K k1 b"])
      (simp add: vget_load_def Let_def DEV_BSIZE_def sizeof_inode_def live_def is_free_def)
qed

lemma vget_load_alloc:
  assumes "layout_ok (mnt s) devsize" "i < block_count (mnt s)" "is_free (inodes (mnt s) (img (kst s)) ! i)"
    "str_to_key str = (0, kb)"
  shows "\<exists>x k'. vget_load K node (32 * i) (Some str) s =
      vget_finish node (32 * i) \<lparr>m_ino = 32 * i, m_lbn = btodb (data_off (mnt s) + 4096 * i), m_inode = x\<rparr> (s\<lparr>kst := k'\<rparr>) \<and>
    img k' = put_inode (mnt s) i x (img (kst s)) \<and> hash k' = hash (kst s) \<and>
    i_key x = kb \<and> \<not> is_free x \<and> wf_inode x"
proof -
  obtain b k1 where r: "k_bread K (kst s) (btodb ((inode_off (mnt s) + 32 * i) mod 2 ^ 64)) DEV_BSIZE = (0, Some b, k1)"
    "length (b_data b) = 512" "decode_inode (slice (32 * i mod 512) 32 (b_data b)) = inodes (mnt s) (img (kst s)) ! i"
    "img k1 = img (kst s)" "hash k1 = hash (kst s)"
    and w: "\<And>x k1. wf_inode x \<Longrightarrow> img k1 = img (kst s) \<Longrightarrow>
      \<exists>k2. k_bwrite K k1 (b\<lparr>b_data := overlay (32 * i mod 512) (encode_inode x) (b_data b)\<rparr>) = (0, k2) \<and>
        img k2 = put_inode (mnt s) i x (img (kst s)) \<and> hash k2 = hash k1"
    using read_inode_sector[OF assms(1,2), of "kst s"] by blast
  obtain ts k2 where ts: "k_vfs_timestamp K k1 = (ts, k2)" "img k2 = img (kst s)" "hash k2 = hash (kst s)"
    using timestamp[of k1] r by auto
  let ?y = "inodes (mnt s) (img (kst s)) ! i"
  let ?x = "?y\<lparr>i_ref_count := 1, i_flags := i_flags ?y AND NOT KVFS_INODE_FREE OR KVFS_INODE_ACTIVE, i_key := kb,
    i_timestamp := timespec_to_uint64 ts\<rparr>"
  have x: "wf_inode ?x" "\<not> is_free ?x"
    using str_to_key_length[OF assms(4)] by (simp_all add: wf_inode_def is_free_def alloc_flags)
  from w[OF x(1) ts(2)] obtain k3 where k3:
    "k_bwrite K k2 (b\<lparr>b_data := overlay (32 * i mod 512) (encode_inode ?x) (b_data b)\<rparr>) = (0, k3)"
    "img k3 = put_inode (mnt s) i ?x (img (kst s))" "hash k3 = hash k2" by blast
  have "32 * i mod 512 + 32 \<le> 512" by (rule layout_inode_sector(4)[OF assms(1,2)])
  then show ?thesis
    using r k3 ts x assms(3,4) layout_data_block(1)[OF assms(1,2)]
    by (intro exI[of _ ?x] exI[of _ k3])
      (simp add: vget_load_def Let_def DEV_BSIZE_def sizeof_inode_def is_free_def)
qed

lemma vget_new_ok:
  assumes "hash (kst s) ino = None"
  shows "\<exists>node k'. node \<notin> ran (hash (kst s)) \<and> img k' = img (kst s) \<and> hash k' = (hash (kst s))(ino \<mapsto> node) \<and>
    (let s' = set_vnode node (new_vnode\<lparr>v_mount := mnt_id s\<rparr>) (s\<lparr>kst := k'\<rparr>) in
     vget_new K ino fl ks s =
       (if ino \<noteq> KVFS_ROOT_INO then vget_load K node ino ks s' else vget_finish node ino root_memnode s'))"
proof -
  obtain node k1 where 1: "k_getnewvnode K (kst s) = (0, node, k1)" "node \<notin> ran (hash (kst s))"
    "img k1 = img (kst s)" "hash k1 = hash (kst s)" using getnewvnode[of "kst s"] by blast
  obtain k2 where 2: "k_vn_lock K k1 node = (0, k2)" "img k2 = img k1" "hash k2 = hash k1"
    using vn_lock[of k1 node] by blast
  obtain k3 where 3: "k_insmntque K k2 node = (0, k3)" "img k3 = img k2" "hash k3 = hash k2"
    using insmntque[of k2 node] by blast
  have "hash k3 ino = None" using 1 2 3 assms by simp
  then obtain k4 where 4: "k_vfs_hash_insert K k3 node ino (unat fl) = (0, None, k4)" "img k4 = img k3"
    "hash k4 = (hash k3)(ino \<mapsto> node)" using hash_insert by blast
  show ?thesis
    using 1 2 3 4 by (intro exI[of _ node] exI[of _ k4]) (simp add: vget_new_def Let_def)
qed

lemma vget_internal_miss:
  assumes "hash (kst s) ino = None"
  shows "\<exists>k'. img k' = img (kst s) \<and> hash k' = hash (kst s) \<and>
    kvfs_vget_internal K ino fl ks s = vget_new K ino (promote_lock fl) ks (s\<lparr>kst := k'\<rparr>)"
proof -
  obtain k' where "k_vfs_hash_get K (kst s) ino (unat fl) = (0, None, k')" "img k' = img (kst s)" "hash k' = hash (kst s)"
    using hash_get[of "kst s" ino "unat fl"] assms by auto
  then show ?thesis by (intro exI[of _ k']) (simp add: kvfs_vget_internal_def)
qed

lemma vget_internal_hit:
  assumes "hash (kst s) ino = Some vp"
  shows "\<exists>k'. img k' = img (kst s) \<and> hash k' = hash (kst s) \<and>
    kvfs_vget_internal K ino fl ks s = Inr (0, Some vp, s\<lparr>kst := k'\<rparr>)"
proof -
  obtain k' where "k_vfs_hash_get K (kst s) ino (unat fl) = (0, Some vp, k')" "img k' = img (kst s)" "hash k' = hash (kst s)"
    using hash_get[of "kst s" ino "unat fl"] assms by auto
  then show ?thesis by (intro exI[of _ k']) (simp add: kvfs_vget_internal_def)
qed

text \<open>A live entry: the cached vnode, or a new one that mirrors the inode.\<close>

lemma vget_live:
  assumes "kvfs_wf devsize img hash s" "live (inodes (mnt s) (img (kst s))) i"
  shows "\<exists>vp s'. kvfs_vget_internal K (32 * i) fl ks s = Inr (0, Some vp, s') \<and> kvfs_wf devsize img hash s' \<and>
    hash (kst s') (32 * i) = Some vp \<and> img (kst s') = img (kst s) \<and> mnt s' = mnt s \<and> mnt_id s' = mnt_id s \<and>
    hash (kst s) \<subseteq>\<^sub>m hash (kst s')"
proof (cases "hash (kst s) (32 * i)")
  case (Some vp)
  then obtain k' where "img k' = img (kst s)" "hash k' = hash (kst s)"
    "kvfs_vget_internal K (32 * i) fl ks s = Inr (0, Some vp, s\<lparr>kst := k'\<rparr>)" using vget_internal_hit by blast
  then show ?thesis using assms(1) Some by (auto simp: kvfs_wf_def kvfs_ok_def)
next
  case None
  note ok = kvfs_okD[OF assms(1)[unfolded kvfs_wf_def]]
  obtain k1 where 1: "img k1 = img (kst s)" "hash k1 = hash (kst s)"
    "kvfs_vget_internal K (32 * i) fl ks s = vget_new K (32 * i) (promote_lock fl) ks (s\<lparr>kst := k1\<rparr>)"
    using vget_internal_miss[OF None] by blast
  have "hash (kst (s\<lparr>kst := k1\<rparr>)) (32 * i) = None" using 1 None by simp
  from vget_new_ok[OF this, of "promote_lock fl" ks] obtain node k2 where
    2: "node \<notin> ran (hash (kst s))" "img k2 = img (kst s)" "hash k2 = (hash (kst s))(32 * i \<mapsto> node)"
    "vget_new K (32 * i) (promote_lock fl) ks (s\<lparr>kst := k1\<rparr>) =
       vget_load K node (32 * i) ks (set_vnode node (new_vnode\<lparr>v_mount := mnt_id s\<rparr>) (s\<lparr>kst := k2\<rparr>))"
    using root_ino_not_file[of i] 1 by (auto simp: Let_def)
  let ?s2 = "set_vnode node (new_vnode\<lparr>v_mount := mnt_id s\<rparr>) (s\<lparr>kst := k2\<rparr>)"
  have l2: "layout_ok (mnt ?s2) devsize" "live (inodes (mnt ?s2) (img (kst ?s2))) i" using ok(1) assms(2) 2 by simp_all
  from vget_load_live[OF this, of node ks] obtain k3 where 3: "img k3 = img (kst s)" "hash k3 = (hash (kst s))(32 * i \<mapsto> node)"
    "vget_load K node (32 * i) ks ?s2 = vget_finish node (32 * i) \<lparr>m_ino = 32 * i,
       m_lbn = btodb (data_off (mnt s) + 4096 * i), m_inode = inodes (mnt s) (img (kst s)) ! i\<rparr> (?s2\<lparr>kst := k3\<rparr>)"
    using 2 by auto
  let ?s' = "set_vnode node (file_vnode (mnt s) (mnt_id s) i (inodes (mnt s) (img (kst s)) ! i)) (s\<lparr>kst := k3\<rparr>)"
  have "kvfs_vget_internal K (32 * i) fl ks s = Inr (0, Some node, ?s')"
    using 1 2 3 not_sym[OF root_ino_not_file[of i]]
    by (simp add: vget_finish_def Let_def file_vnode_def new_vnode_def)
  moreover have "kvfs_wf devsize img hash ?s'"
    using ok 3 cache_insert_file[OF ok(3) 2(1) assms(2)] by (simp add: kvfs_wf_def kvfs_ok_def)
  moreover have "hash (kst s) \<subseteq>\<^sub>m hash (kst ?s')" using 3 None by (simp add: map_le_def dom_def)
  ultimately show ?thesis using 3 by (intro exI[of _ node] exI[of _ ?s']) simp
qed

lemma vget_root:
  assumes "kvfs_wf devsize img hash s"
  shows "\<exists>vp s'. kvfs_root K fl s = Inr (0, Some vp, s') \<and> kvfs_wf devsize img hash s' \<and> root_of hash s' vp \<and>
    img (kst s') = img (kst s) \<and> mnt s' = mnt s \<and> mnt_id s' = mnt_id s"
proof (cases "hash (kst s) KVFS_ROOT_INO")
  case (Some vp)
  then obtain k' where "img k' = img (kst s)" "hash k' = hash (kst s)"
    "kvfs_vget_internal K KVFS_ROOT_INO fl None s = Inr (0, Some vp, s\<lparr>kst := k'\<rparr>)" using vget_internal_hit by blast
  then show ?thesis using assms(1) Some by (auto simp: kvfs_wf_def kvfs_ok_def kvfs_root_def root_of_def)
next
  case None
  note ok = kvfs_okD[OF assms(1)[unfolded kvfs_wf_def]]
  obtain k1 where 1: "img k1 = img (kst s)" "hash k1 = hash (kst s)"
    "kvfs_vget_internal K KVFS_ROOT_INO fl None s = vget_new K KVFS_ROOT_INO (promote_lock fl) None (s\<lparr>kst := k1\<rparr>)"
    using vget_internal_miss[OF None] by blast
  have "hash (kst (s\<lparr>kst := k1\<rparr>)) KVFS_ROOT_INO = None" using 1 None by simp
  from vget_new_ok[OF this, of "promote_lock fl" None] obtain node k2 where
    2: "node \<notin> ran (hash (kst s))" "img k2 = img (kst s)" "hash k2 = (hash (kst s))(KVFS_ROOT_INO \<mapsto> node)"
    "vget_new K KVFS_ROOT_INO (promote_lock fl) None (s\<lparr>kst := k1\<rparr>) =
       vget_finish node KVFS_ROOT_INO root_memnode (set_vnode node (new_vnode\<lparr>v_mount := mnt_id s\<rparr>) (s\<lparr>kst := k2\<rparr>))"
    using 1 by (auto simp: Let_def)
  let ?s' = "set_vnode node (root_vnode (mnt_id s)) (s\<lparr>kst := k2\<rparr>)"
  have "kvfs_root K fl s = Inr (0, Some node, ?s')"
    using 1 2 by (simp add: vget_finish_def Let_def root_vnode_def new_vnode_def kvfs_root_def)
  moreover have "kvfs_wf devsize img hash ?s'"
    using ok 2 cache_insert_root[OF ok(3) 2(1)] by (simp add: kvfs_wf_def kvfs_ok_def)
  ultimately show ?thesis using 2 by (intro exI[of _ node] exI[of _ ?s']) (simp add: root_of_def)
qed

text \<open>A free entry, allocated under a key.\<close>

lemma vget_alloc:
  assumes lay: "layout_ok (mnt s) devsize" and i: "i < block_count (mnt s)"
    and free: "is_free (inodes (mnt s) (img (kst s)) ! i)" and none: "hash (kst s) (32 * i) = None"
    and str: "str_to_key str = (0, kb)"
  shows "\<exists>vp k' x. kvfs_vget_internal K (32 * i) fl (Some str) s =
      Inr (0, Some vp, set_vnode vp (file_vnode (mnt s) (mnt_id s) i x) (s\<lparr>kst := k'\<rparr>)) \<and>
    img k' = put_inode (mnt s) i x (img (kst s)) \<and> hash k' = (hash (kst s))(32 * i \<mapsto> vp) \<and>
    vp \<notin> ran (hash (kst s)) \<and> i_key x = kb \<and> \<not> is_free x \<and> wf_inode x"
proof -
  obtain k1 where 1: "img k1 = img (kst s)" "hash k1 = hash (kst s)"
    "kvfs_vget_internal K (32 * i) fl (Some str) s = vget_new K (32 * i) (promote_lock fl) (Some str) (s\<lparr>kst := k1\<rparr>)"
    using vget_internal_miss[OF none] by blast
  have "hash (kst (s\<lparr>kst := k1\<rparr>)) (32 * i) = None" using 1 none by simp
  from vget_new_ok[OF this, of "promote_lock fl" "Some str"] obtain node k2 where
    2: "node \<notin> ran (hash (kst s))" "img k2 = img (kst s)" "hash k2 = (hash (kst s))(32 * i \<mapsto> node)"
    "vget_new K (32 * i) (promote_lock fl) (Some str) (s\<lparr>kst := k1\<rparr>) =
       vget_load K node (32 * i) (Some str) (set_vnode node (new_vnode\<lparr>v_mount := mnt_id s\<rparr>) (s\<lparr>kst := k2\<rparr>))"
    using root_ino_not_file[of i] 1 by (auto simp: Let_def)
  let ?s2 = "set_vnode node (new_vnode\<lparr>v_mount := mnt_id s\<rparr>) (s\<lparr>kst := k2\<rparr>)"
  have "layout_ok (mnt ?s2) devsize" "i < block_count (mnt ?s2)" "is_free (inodes (mnt ?s2) (img (kst ?s2)) ! i)"
    using lay i free 2 by simp_all
  from vget_load_alloc[OF this str, of node] obtain x k3 where 3: "img k3 = put_inode (mnt s) i x (img (kst s))"
    "hash k3 = (hash (kst s))(32 * i \<mapsto> node)" "i_key x = kb" "\<not> is_free x" "wf_inode x"
    "vget_load K node (32 * i) (Some str) ?s2 = vget_finish node (32 * i) \<lparr>m_ino = 32 * i,
       m_lbn = btodb (data_off (mnt s) + 4096 * i), m_inode = x\<rparr> (?s2\<lparr>kst := k3\<rparr>)"
    using 2 by auto
  have "kvfs_vget_internal K (32 * i) fl (Some str) s =
      Inr (0, Some node, set_vnode node (file_vnode (mnt s) (mnt_id s) i x) (s\<lparr>kst := k3\<rparr>))"
    using 1 2 3 not_sym[OF root_ino_not_file[of i]]
    by (simp add: vget_finish_def Let_def file_vnode_def new_vnode_def)
  then show ?thesis using 2 3 by (intro exI[of _ node] exI[of _ k3] exI[of _ x]) simp
qed

end

end
