(* ===== verification/Kvfs_Refine.thy ===== *)
theory Kvfs_Refine
  imports Kvfs_Cache
begin

text \<open>
  kvfs implements its map: under the contract of the kernel every vnode operation, called as the VFS
  layer calls it, succeeds, keeps the invariant \<open>kvfs_wf\<close> and changes the map \<open>kv\<close> the way its
  name says. The operations are treated once inside \<open>healthy_kernel\<close>; the properties restate the
  results over the model's definitions, for every kernel that meets the contract, and are
  instantiated on the memory disk.
\<close>

section \<open>Scanning the inode table\<close>

lemma lookup_scan_spec:
  assumes "\<forall>i < bc. i * 32 + 32 \<le> length data \<and> decode_inode (slice (i * 32) 32 data) = I ! i" "length I = bc"
  shows "(\<exists>j. i \<le> j \<and> live I j \<and> i_key (I ! j) = kb \<and> lookup_scan data kb bc i = Inr (Some (32 * j))) \<or>
    ((\<forall>j. i \<le> j \<and> live I j \<longrightarrow> i_key (I ! j) \<noteq> kb) \<and> lookup_scan data kb bc i = Inr None)"
proof (induction "bc - i" arbitrary: i rule: less_induct)
  case less
  have unf: "lookup_scan data kb bc i =
      (if i < bc then if is_free (I ! i) then lookup_scan data kb bc (i + 1)
         else if kb = i_key (I ! i) then Inr (Some (32 * i)) else lookup_scan data kb bc (i + 1)
       else Inr None)"
    using assms by (subst lookup_scan.simps) (auto simp: Let_def is_free_def sizeof_inode_def mult.commute not_less)
  show ?case
  proof (cases "i < bc \<and> (is_free (I ! i) \<or> kb \<noteq> i_key (I ! i))")
    case True
    then have "lookup_scan data kb bc i = lookup_scan data kb bc (i + 1)" using unf by auto
    moreover have "live I j \<and> i_key (I ! j) = kb \<longrightarrow> j \<noteq> i" for j using True by (auto simp: live_def)
    moreover have "bc - (i + 1) < bc - i" using True by auto
    ultimately show ?thesis using less[of "i + 1"]
      by (metis Suc_eq_plus1 Suc_leD Suc_leI le_neq_implies_less)
  next
    case False
    then show ?thesis using unf assms(2) by (auto simp: live_def)
  qed
qed

lemma table_data:
  fixes d :: image
  assumes "layout_ok m devsize" "i < block_count m"
  defines "data \<equiv> peek d (inode_off m) (PAD 64 (block_count m * sizeof_inode))"
  shows "i * 32 + 32 \<le> length data \<and> decode_inode (slice (i * 32) 32 data) = inodes m d ! i"
proof -
  have "32 * i + 32 \<le> 32 * block_count m" using assms(2) by simp
  then have b: "i * 32 + 32 \<le> PAD 64 (block_count m * sizeof_inode)"
    using layout_inode_bytes(1)[OF assms(1)] by linarith
  then have "slice (i * 32) 32 data = peek d (inode_off m + i * 32) 32"
    unfolding data_def by (rule slice_peek)
  then show ?thesis using b assms(2) by (simp add: data_def views_nth mult.commute)
qed

lemma root_vnodeD:
  assumes "kvfs_wf devsize img hash s" "root_of hash s vp"
  shows "vns s vp = root_vnode (mnt_id s)"
  using assms cache_root by (auto simp: kvfs_wf_def kvfs_ok_def root_of_def)

lemma vnode_ofD:
  assumes "kvfs_wf devsize img hash s" "vnode_of img hash s vp kb"
  obtains i where "hash (kst s) (32 * i) = Some vp" "live (inodes (mnt s) (img (kst s))) i"
    "i_key (inodes (mnt s) (img (kst s)) ! i) = kb" "i < block_count (mnt s)"
    "vns s vp = file_vnode (mnt s) (mnt_id s) i (inodes (mnt s) (img (kst s)) ! i)"
  using assms cache_okD by (fastforce simp: kvfs_wf_def kvfs_ok_def vnode_of_def)

context healthy_kernel
begin

lemma read_table:
  assumes "layout_ok m devsize"
  shows "\<exists>b k'. k_bread K k (btodb (inode_off m)) (PAD 64 (block_count m * sizeof_inode)) = (0, Some b, k') \<and>
    img k' = img k \<and> hash k' = hash k \<and> b_data b = peek (img k) (inode_off m) (PAD 64 (block_count m * sizeof_inode))"
  using bread[of "btodb (inode_off m)" "PAD 64 (block_count m * sizeof_inode)" k] layout_table_read[OF assms] by auto

lemma lookup_ok:
  assumes wf: "kvfs_wf devsize img hash s" and dvp: "root_of hash s dvp"
    and name: "cn_namelen cnp = KVFS_KEY_STRLEN" "str_to_key (cn_nameptr cnp) = (0, kb)"
  shows "(case kv img s kb of
      Some b \<Rightarrow> \<exists>vp s'. kvfs_lookup K dvp cnp s = Inr (0, Some vp, s') \<and> kvfs_wf devsize img hash s' \<and>
        vnode_of img hash s' vp kb \<and> kv img s' = kv img s
    | None \<Rightarrow> \<exists>s'. kvfs_lookup K dvp cnp s =
          Inr (if cn_islastcn cnp \<and> (cn_nameiop cnp = CREATE \<or> cn_nameiop cnp = RENAME) then EJUSTRETURN else ENOENT, None, s') \<and>
        kvfs_wf devsize img hash s' \<and> kv img s' = kv img s)"
proof -
  note ok = kvfs_okD[OF wf[unfolded kvfs_wf_def]] and ent = entries_okD[OF kvfs_okD(2)[OF wf[unfolded kvfs_wf_def]]]
  let ?m = "mnt s" and ?I = "inodes (mnt s) (img (kst s))"
  obtain b k1 where r: "k_bread K (kst s) (btodb (inode_off ?m)) (PAD 64 (block_count ?m * sizeof_inode)) = (0, Some b, k1)"
    "img k1 = img (kst s)" "hash k1 = hash (kst s)"
    "b_data b = peek (img (kst s)) (inode_off ?m) (PAD 64 (block_count ?m * sizeof_inode))"
    using read_table[OF ok(1), of "kst s"] by blast
  let ?s1 = "s\<lparr>kst := k_brelse K k1 b\<rparr>"
  have wf1: "kvfs_wf devsize img hash ?s1" "kv img ?s1 = kv img s"
    using wf r by (simp_all add: kvfs_wf_def kvfs_ok_def kv_def)
  have v: "v_data (vns s dvp) \<noteq> None" "v_root (vns s dvp)"
    using root_vnodeD[OF wf dvp] by (simp_all add: root_vnode_def)
  have call: "kvfs_lookup K dvp cnp s = (case lookup_scan (b_data b) kb (block_count ?m) 0 of
       Inl f \<Rightarrow> Inl f | Inr (Some idx) \<Rightarrow> kvfs_vget K idx (cn_lkflags cnp) ?s1
     | Inr None \<Rightarrow> Inr (if cn_islastcn cnp \<and> (cn_nameiop cnp = CREATE \<or> cn_nameiop cnp = RENAME) then EJUSTRETURN else ENOENT, None, ?s1))"
    using v name r(1) by (auto simp: kvfs_lookup_def Let_def KVFS_KEY_STRLEN_def split: option.split sum.split)
  have tab: "\<forall>i < block_count ?m. i * 32 + 32 \<le> length (b_data b) \<and> decode_inode (slice (i * 32) 32 (b_data b)) = ?I ! i"
    unfolding r(4) using table_data[OF ok(1)] by blast
  consider (hit) j where "live ?I j" "i_key (?I ! j) = kb" "lookup_scan (b_data b) kb (block_count ?m) 0 = Inr (Some (32 * j))"
    | (miss) "\<forall>j. live ?I j \<longrightarrow> i_key (?I ! j) \<noteq> kb" "lookup_scan (b_data b) kb (block_count ?m) 0 = Inr None"
    using lookup_scan_spec[OF tab, of 0 kb] by (simp only: le0 simp_thms length_views) blast
  then show ?thesis
  proof cases
    case hit
    then obtain vp s' where s': "kvfs_vget_internal K (32 * j) (cn_lkflags cnp) None ?s1 = Inr (0, Some vp, s')"
      "kvfs_wf devsize img hash s'" "hash (kst s') (32 * j) = Some vp" "img (kst s') = img (kst s)" "mnt s' = mnt s"
      using vget_live[OF wf1(1), of j "cn_lkflags cnp" None] r(2) by auto
    have "vnode_of img hash s' vp kb" using s' hit live_bound[OF hit(1)] by (auto simp: vnode_of_def)
    moreover have "kv img s kb = Some (blocks ?m (img (kst s)) ! j)"
      using kv_of_SomeI[OF hit(1) ent(1) ent(4)] hit(2) by (simp add: kv_def)
    ultimately show ?thesis using s' hit call by (simp add: kvfs_vget_def kv_def)
  next
    case miss
    then have "kv img s kb = None" using kv_of_None[OF ent(1) ent(4)] by (simp add: kv_def)
    then show ?thesis using miss call wf1 by simp
  qed
qed

lemma create_ok:
  assumes wf: "kvfs_wf devsize img hash s" and dvp: "root_of hash s dvp"
    and name: "str_to_key (cn_nameptr cnp) = (0, kb)" and new: "kv img s kb = None" and room: "freelist (mnt s) \<noteq> []"
  shows "\<exists>vp s'. kvfs_create K dvp cnp s = Inr (0, Some vp, s') \<and> kvfs_wf devsize img hash s' \<and>
    vnode_of img hash s' vp kb \<and> kv img s' = (kv img s)(kb \<mapsto> zero_block) \<and>
    freelist (mnt s') = tl (freelist (mnt s))"
proof -
  note ok = kvfs_okD[OF wf[unfolded kvfs_wf_def]] and ent = entries_okD[OF kvfs_okD(2)[OF wf[unfolded kvfs_wf_def]]]
  let ?m = "mnt s" and ?d = "img (kst s)"
  obtain ino fl where fl: "freelist ?m = ino # fl" using room by (cases "freelist ?m") auto
  then have "ino mod 32 = 0" "ino div 32 < block_count ?m" and free: "is_free (inodes ?m ?d ! (ino div 32))"
    using freelist_mem[OF ent(3), of ino] by auto
  then obtain i where i: "ino = 32 * i" "i < block_count ?m" by auto
  have free: "is_free (inodes ?m ?d ! i)" using free i by simp
  let ?s1 = "pop_freelist s"
  have s1: "mnt ?s1 = ?m\<lparr>freelist := fl, freelist_count := freelist_count ?m - 1\<rparr>" "kst ?s1 = kst s" "vns ?s1 = vns s" "mnt_id ?s1 = mnt_id s"
    using fl by (simp_all add: pop_freelist_def)
  note fs = layout_free_sector[OF ok(1) i(2)]
  obtain b k1 k2 where bm: "k_bread K (kst s) (btodb (freelist_off ?m + i div 8)) DEV_BSIZE = (0, Some b, k1)"
    "(freelist_off ?m + i div 8) mod DEV_BSIZE < length (b_data b)"
    "k_bwrite K k1 (b\<lparr>b_data := (b_data b)[(freelist_off ?m + i div 8) mod DEV_BSIZE :=
        b_data b ! ((freelist_off ?m + i div 8) mod DEV_BSIZE) OR INO_TO_FREE_BIT_MASK (32 * i)]\<rparr>) = (0, k2)"
    "img k2 = put_used ?m i True ?d" "hash k2 = hash (kst s)"
    using update_bitmap[OF ok(1) i(2), of "kst s" True] by auto
  let ?s2 = "?s1\<lparr>kst := k2\<rparr>"
  have "hash (kst s) (32 * i) = None" using cache_okD(1)[OF ok(3), of i] free by (cases "hash (kst s) (32 * i)") (auto simp: live_def)
  then have pre: "layout_ok (mnt ?s2) devsize" "i < block_count (mnt ?s2)" "is_free (inodes (mnt ?s2) (img (kst ?s2)) ! i)"
    "hash (kst ?s2) (32 * i) = None"
    using s1 bm ok(1) i free put_used_views(1)[OF ok(1) i(2)] by simp_all
  from vget_alloc[OF this name, of LK_EXCLUSIVE] obtain vp k3 x where
    v: "kvfs_vget_internal K (32 * i) LK_EXCLUSIVE (Some (cn_nameptr cnp)) ?s2 =
        Inr (0, Some vp, set_vnode vp (file_vnode (mnt ?s2) (mnt_id ?s2) i x) (?s2\<lparr>kst := k3\<rparr>))"
    "img k3 = put_inode (mnt ?s2) i x (img k2)" "hash k3 = (hash (kst s))(32 * i \<mapsto> vp)" "vp \<notin> ran (hash (kst s))"
    "i_key x = kb" "\<not> is_free x" "wf_inode x"
    using bm by auto
  let ?s' = "set_vnode vp (file_vnode (mnt ?s2) (mnt_id ?s2) i x) (?s2\<lparr>kst := k3\<rparr>)"
  let ?d' = "put_inode ?m i x (put_used ?m i True ?d)"
  have d': "img k3 = ?d'" using v(2) bm(4) s1 by (simp add: put_inode_def)
  have call: "kvfs_create K dvp cnp s = Inr (0, Some vp, ?s')"
    using root_vnodeD[OF wf dvp] fl i bm v(1) fs(1) s1
    by (simp add: kvfs_create_def Let_def root_vnode_def)
  have lay: "kvfs_layout ?m devsize" using ok(1) by unfold_locales
  have "\<forall>j. live (inodes ?m ?d) j \<longrightarrow> i_key (inodes ?m ?d ! j) \<noteq> i_key x"
    using new kv_of_None[OF ent(1) ent(4)] v(5) by (simp add: kv_def)
  note al = kvfs_layout.disk_alloc[OF lay ok(2)[unfolded fl i(1)] v(6,7) this]
  have I': "inodes ?m ?d' = (inodes ?m ?d)[i := x]"
    using put_inode_views(1)[OF ok(1) i(2) v(7)] put_used_views(1)[OF ok(1) i(2)] by simp
  have "cache_ok ?m (mnt_id s) (vns s) (inodes ?m ?d') (hash (kst s))"
    unfolding I' using cache_alloc[OF ok(3)] i free by (simp add: live_def)
  from cache_insert_file[OF this v(4), of i]
  have "cache_ok ?m (mnt_id s) ((vns s)(vp := file_vnode ?m (mnt_id s) i x)) (inodes ?m ?d') (hash k3)"
    unfolding v(3) using I' i v(6) by (simp add: live_update)
  then have wf': "kvfs_wf devsize img hash ?s'"
    using al(1) ok(1) s1 d' by (simp add: kvfs_wf_def kvfs_ok_def file_vnode_def)
  have "vnode_of img hash ?s' vp kb"
    unfolding vnode_of_def using i s1 v(3,5) d' I' by (intro exI[of _ i]) simp
  moreover have "kv img ?s' = (kv img s)(kb \<mapsto> zero_block)"
    using al(2) v(5) s1 d' by (simp add: kv_def)
  ultimately show ?thesis using call wf' s1 fl by (intro exI[of _ vp] exI[of _ ?s']) simp
qed

lemma create_full:
  assumes "kvfs_wf devsize img hash s" "root_of hash s dvp" "freelist (mnt s) = []"
  shows "kvfs_create K dvp cnp s = Inr (ENOSPC, None, s)"
  using root_vnodeD[OF assms(1,2)] assms(3) by (simp add: kvfs_create_def root_vnode_def)

subsection \<open>Changing an inode\<close>

lemma inode_update_ok:
  assumes wf: "kvfs_wf devsize img hash s" and h: "hash (kst s) (32 * i) = Some vp"
    and i: "live (inodes (mnt s) (img (kst s))) i" and x: "\<not> is_free x" "wf_inode x"
    and new: "\<forall>j. live (inodes (mnt s) (img (kst s))) j \<and> j \<noteq> i \<longrightarrow> i_key (inodes (mnt s) (img (kst s)) ! j) \<noteq> i_key x"
    and kn: "m_ino knode = 32 * i"
  defines "s1 \<equiv> set_vnode vp (file_vnode (mnt s) (mnt_id s) i x) s"
  shows "\<exists>k'. memnode_update K knode x s1 = Inr (0, s1\<lparr>kst := k'\<rparr>) \<and> kvfs_wf devsize img hash (s1\<lparr>kst := k'\<rparr>) \<and>
    kv img (s1\<lparr>kst := k'\<rparr>) =
      (kv img s)(i_key (inodes (mnt s) (img (kst s)) ! i) := None, i_key x \<mapsto> blocks (mnt s) (img (kst s)) ! i) \<and>
    hash k' = hash (kst s) \<and> inodes (mnt s) (img k') = (inodes (mnt s) (img (kst s)))[i := x]"
proof -
  note ok = kvfs_okD[OF wf[unfolded kvfs_wf_def]] and b = live_bound[OF i]
  let ?m = "mnt s" and ?d = "img (kst s)"
  have "layout_ok (mnt s1) devsize" "i < block_count (mnt s1)" using ok(1) b by (simp_all add: s1_def)
  from memnode_update_ok[OF this kn x(2)] obtain k' where k': "memnode_update K knode x s1 = Inr (0, s1\<lparr>kst := k'\<rparr>)"
    "img k' = put_inode ?m i x ?d" "hash k' = hash (kst s)" by (auto simp: s1_def)
  have lay: "kvfs_layout ?m devsize" using ok(1) by unfold_locales
  note re = kvfs_layout.disk_reinode[OF lay ok(2) i x new]
  have I': "inodes ?m (img k') = (inodes ?m ?d)[i := x]"
    unfolding k'(2) by (rule put_inode_views(1)[OF ok(1) b x(2)])
  have "kvfs_wf devsize img hash (s1\<lparr>kst := k'\<rparr>)"
    using re(1) ok(1) k' cache_reinode[OF ok(3) h x(1)] I' by (simp add: s1_def kvfs_wf_def kvfs_ok_def)
  moreover have "kv img (s1\<lparr>kst := k'\<rparr>) = (kv img s)(i_key (inodes ?m ?d ! i) := None, i_key x \<mapsto> blocks ?m ?d ! i)"
    using re(2) k'(2) by (simp add: s1_def kv_def)
  ultimately show ?thesis using k' I' by blast
qed

text \<open>What a file's vnode says of the map.\<close>

lemma kv_vnode:
  assumes "kvfs_wf devsize img hash s" "live (inodes (mnt s) (img (kst s))) i"
  shows "kv img s (i_key (inodes (mnt s) (img (kst s)) ! i)) = Some (blocks (mnt s) (img (kst s)) ! i)"
  using kv_of_SomeI[OF assms(2)] entries_okD[OF kvfs_okD(2)[OF assms(1)[unfolded kvfs_wf_def]]] by (simp add: kv_def)

lemma kv_fresh:
  assumes "kvfs_wf devsize img hash s" "kv img s kb = None" "live (inodes (mnt s) (img (kst s))) j"
  shows "i_key (inodes (mnt s) (img (kst s)) ! j) \<noteq> kb"
  using kv_vnode[OF assms(1,3)] assms(2) by auto

lemma setattr_ok:
  assumes wf: "kvfs_wf devsize img hash s" and vp: "vnode_of img hash s vp kb" and t: "tv_sec (va_mtime vap) \<noteq> VNOVAL"
  shows "\<exists>s'. kvfs_setattr K vp vap s = Inr (0, s') \<and> kvfs_wf devsize img hash s' \<and> kv img s' = kv img s \<and>
    vnode_of img hash s' vp kb \<and>
    (\<exists>knode. v_data (vns s' vp) = Some knode \<and> i_timestamp (m_inode knode) = timespec_to_uint64 (va_mtime vap)) \<and>
    v_root (vns s' vp) = False"
proof -
  obtain i where i: "hash (kst s) (32 * i) = Some vp" "live (inodes (mnt s) (img (kst s))) i"
    "i_key (inodes (mnt s) (img (kst s)) ! i) = kb" "i < block_count (mnt s)"
    "vns s vp = file_vnode (mnt s) (mnt_id s) i (inodes (mnt s) (img (kst s)) ! i)" by (rule vnode_ofD[OF wf vp])
  note ok = kvfs_okD[OF wf[unfolded kvfs_wf_def]] and ent = entries_okD[OF kvfs_okD(2)[OF wf[unfolded kvfs_wf_def]]]
  let ?I = "inodes (mnt s) (img (kst s))"
  let ?x = "(?I ! i)\<lparr>i_timestamp := timespec_to_uint64 (va_mtime vap)\<rparr>"
  let ?kn = "\<lparr>m_ino = 32 * i, m_lbn = btodb (data_off (mnt s) + 4096 * i), m_inode = ?x\<rparr>"
  let ?s1 = "set_vnode vp (file_vnode (mnt s) (mnt_id s) i ?x) s"
  have x: "\<not> is_free ?x" "wf_inode ?x" "m_ino ?kn = 32 * i" using i(2,4) ent(5)[of i] by (simp_all add: live_def is_free_def wf_inode_def)
  have new: "\<forall>j. live ?I j \<and> j \<noteq> i \<longrightarrow> i_key (?I ! j) \<noteq> i_key ?x"
    using ent(4) i(2) by (auto simp: keys_distinct_def live_def)
  from inode_update_ok[OF wf i(1,2) x(1,2) new x(3)] obtain k' where k':
    "memnode_update K ?kn ?x ?s1 = Inr (0, ?s1\<lparr>kst := k'\<rparr>)" "kvfs_wf devsize img hash (?s1\<lparr>kst := k'\<rparr>)"
    "kv img (?s1\<lparr>kst := k'\<rparr>) = (kv img s)(i_key (?I ! i) := None, i_key ?x \<mapsto> blocks (mnt s) (img (kst s)) ! i)"
    "hash k' = hash (kst s)" "inodes (mnt s) (img k') = ?I[i := ?x]" by blast
  have "kvfs_setattr K vp vap s = Inr (0, ?s1\<lparr>kst := k'\<rparr>)"
    using k'(1) i(5) t by (simp add: kvfs_setattr_def Let_def file_vnode_def)
  moreover have "kv img (?s1\<lparr>kst := k'\<rparr>) = kv img s"
    using k'(3) kv_vnode[OF wf i(2)] by (simp add: fun_eq_iff)
  moreover have "vnode_of img hash (?s1\<lparr>kst := k'\<rparr>) vp kb"
    unfolding vnode_of_def using i k' by (intro exI[of _ i]) simp
  ultimately show ?thesis using k'(2) by (intro exI[of _ "?s1\<lparr>kst := k'\<rparr>"]) (simp add: file_vnode_def)
qed

subsection \<open>Remove\<close>

lemma remove_ok:
  assumes wf: "kvfs_wf devsize img hash s" and vp: "vnode_of img hash s vp kb"
  shows "\<exists>s'. kvfs_remove K vp s = Inr (0, s') \<and> kvfs_wf devsize img hash s' \<and> kv img s' = (kv img s)(kb := None) \<and>
    length (freelist (mnt s')) = Suc (length (freelist (mnt s))) \<and> vns s' = vns s \<and>
    (\<forall>v kb'. v \<noteq> vp \<and> vnode_of img hash s v kb' \<longrightarrow> vnode_of img hash s' v kb') \<and>
    (\<forall>v. root_of hash s v \<longrightarrow> root_of hash s' v)"
proof -
  obtain i where i: "hash (kst s) (32 * i) = Some vp" "live (inodes (mnt s) (img (kst s))) i"
    "i_key (inodes (mnt s) (img (kst s)) ! i) = kb" "i < block_count (mnt s)"
    "vns s vp = file_vnode (mnt s) (mnt_id s) i (inodes (mnt s) (img (kst s)) ! i)" by (rule vnode_ofD[OF wf vp])
  note ok = kvfs_okD[OF wf[unfolded kvfs_wf_def]]
  let ?m = "mnt s" and ?d = "img (kst s)"
  have e: "wf_inode empty_inode" "is_free empty_inode" by (simp_all add: empty_inode_def wf_inode_def is_free_def KVFS_INODE_FREE_def)
  let ?kn = "\<lparr>m_ino = 32 * i, m_lbn = btodb (data_off ?m + 4096 * i), m_inode = inodes ?m ?d ! i\<rparr>"
  obtain k1 where k1: "memnode_update K ?kn empty_inode s = Inr (0, s\<lparr>kst := k1\<rparr>)"
    "img k1 = put_inode ?m i empty_inode ?d" "hash k1 = hash (kst s)"
    using memnode_update_ok[OF ok(1) i(4), of ?kn empty_inode] e by auto
  have dev: "512 * btodb (data_off ?m + 4096 * i) + BLOCKSIZE \<le> devsize"
    using layout_data_block(2)[OF ok(1) i(4)] layout_bounds(3)[OF ok(1) i(4)] by (simp add: BLOCKSIZE_def)
  from getblk[OF this, of k1] obtain b k2 where k2: "k_getblk K k1 (btodb (data_off ?m + 4096 * i)) BLOCKSIZE = (b, k2)"
    "b_blkno b = btodb (data_off ?m + 4096 * i)" "length (b_data b) = BLOCKSIZE" "img k2 = img k1" "hash k2 = hash k1" by auto
  let ?z = "b\<lparr>b_data := overlay 0 (replicate BLOCKSIZE 0) (b_data b)\<rparr>"
  have z: "b_data ?z = zero_block" using k2(3) by (simp add: overlay_def zero_block_def)
  have "512 * b_blkno ?z + length (b_data ?z) \<le> devsize" using dev k2(2) unfolding z by (simp add: zero_block_def)
  from bwrite[OF this, of k2] obtain k3 where k3: "k_bwrite K k2 ?z = (0, k3)"
    "img k3 = poke (img k2) (512 * b_blkno b) zero_block" "hash k3 = hash k2" unfolding z by auto
  have d3: "img k3 = put_block ?m i zero_block (put_inode ?m i empty_inode ?d)"
    using k3(2) k2(2,4) k1(2) layout_data_block(2)[OF ok(1) i(4)] by (simp add: put_block_def)
  note fs = layout_free_sector[OF ok(1) i(4)]
  obtain b4 k4 k5 where bm: "k_bread K k3 (btodb (freelist_off ?m + i div 8)) DEV_BSIZE = (0, Some b4, k4)"
    "(freelist_off ?m + i div 8) mod DEV_BSIZE < length (b_data b4)"
    "k_bwrite K k4 (b4\<lparr>b_data := (b_data b4)[(freelist_off ?m + i div 8) mod DEV_BSIZE :=
        b_data b4 ! ((freelist_off ?m + i div 8) mod DEV_BSIZE) AND NOT (INO_TO_FREE_BIT_MASK (32 * i))]\<rparr>) = (0, k5)"
    "img k5 = put_used ?m i False (img k3)" "hash k5 = hash k3"
    using update_bitmap[OF ok(1) i(4), of k3 False] by auto
  let ?k6 = "k_vfs_hash_remove K k5 vp"
  let ?m' = "?m\<lparr>freelist := 32 * i # freelist ?m, freelist_count := freelist_count ?m + 1\<rparr>"
  let ?s' = "s\<lparr>mnt := ?m', kst := ?k6\<rparr>"
  have call: "kvfs_remove K vp s = Inr (0, ?s')"
    using i(5) k1(1) k2 k3(1) bm fs(1,2)
    by (simp add: kvfs_remove_def remove_free_def Let_def file_vnode_def del: hash_remove)
  have lay: "kvfs_layout ?m devsize" using ok(1) by unfold_locales
  note rel = kvfs_layout.disk_release[OF lay ok(2) i(2) e(2,1)]
  have d': "img ?k6 = put_used ?m i False (put_block ?m i zero_block (put_inode ?m i empty_inode ?d))"
    using bm(4) d3 by simp
  have I': "inodes ?m (img ?k6) = (inodes ?m ?d)[i := empty_inode]"
    unfolding d' using put_inode_views(1)[OF ok(1) i(4) e(1)] put_block_views(1)[OF ok(1) i(4)] put_used_views(1)[OF ok(1) i(4)]
    by (simp add: zero_block_def)
  have h': "hash ?k6 = (\<lambda>j. if hash (kst s) j = Some vp then None else hash (kst s) j)"
    using bm(5) k3(3) k2(5) k1(3) by (simp cong: if_cong)
  have "cache_ok ?m (mnt_id s) (vns s) (inodes ?m (img ?k6)) (hash ?k6)"
    unfolding I' h' using cache_release[OF ok(3) i(1)] i(4) by simp
  then have "kvfs_wf devsize img hash ?s'" using rel(1) ok(1) d' by (simp add: kvfs_wf_def kvfs_ok_def del: hash_remove)
  moreover have "kv img ?s' = (kv img s)(kb := None)" using rel(2) i(3) d' by (simp add: kv_def del: hash_remove)
  moreover have "vnode_of img hash ?s' v kb'" if v: "v \<noteq> vp" "vnode_of img hash s v kb'" for v kb'
  proof -
    obtain j where j: "j < block_count ?m" "hash (kst s) (32 * j) = Some v" "i_key (inodes ?m ?d ! j) = kb'"
      using v(2) by (auto simp: vnode_of_def)
    then have "j \<noteq> i" using v(1) i(1) by auto
    then show ?thesis unfolding vnode_of_def using j v(1) I' h' by (intro exI[of _ j]) (simp del: hash_remove)
  qed
  moreover have "root_of hash ?s' v" if "root_of hash s v" for v
    using that h' cache_root[OF ok(3)] i(5) by (auto simp: root_of_def simp del: hash_remove)
  ultimately show ?thesis using call by (intro exI[of _ ?s']) (simp del: hash_remove)
qed

subsection \<open>Rename\<close>

lemma rekey_ok:
  assumes wf: "kvfs_wf devsize img hash s" and vp: "vnode_of img hash s fvp ka" and new: "kv img s kb = None" and kb: "length kb = 20"
  shows "\<exists>s'. rename_rekey K fvp kb s = Inr (0, s') \<and> kvfs_wf devsize img hash s' \<and>
    kv img s' = (kv img s)(ka := None, kb := kv img s ka) \<and> vnode_of img hash s' fvp kb"
proof -
  obtain i where i: "hash (kst s) (32 * i) = Some fvp" "live (inodes (mnt s) (img (kst s))) i"
    "i_key (inodes (mnt s) (img (kst s)) ! i) = ka" "i < block_count (mnt s)"
    "vns s fvp = file_vnode (mnt s) (mnt_id s) i (inodes (mnt s) (img (kst s)) ! i)" by (rule vnode_ofD[OF wf vp])
  let ?I = "inodes (mnt s) (img (kst s))"
  let ?x = "(?I ! i)\<lparr>i_key := kb\<rparr>"
  let ?kn = "\<lparr>m_ino = 32 * i, m_lbn = btodb (data_off (mnt s) + 4096 * i), m_inode = ?x\<rparr>"
  let ?s1 = "set_vnode fvp (file_vnode (mnt s) (mnt_id s) i ?x) s"
  have x: "\<not> is_free ?x" "wf_inode ?x" "m_ino ?kn = 32 * i" using i(2) kb by (simp_all add: live_def is_free_def wf_inode_def)
  have "\<forall>j. live ?I j \<and> j \<noteq> i \<longrightarrow> i_key (?I ! j) \<noteq> i_key ?x" using kv_fresh[OF wf new] by simp
  from inode_update_ok[OF wf i(1,2) x(1,2) this x(3)] obtain k' where k':
    "memnode_update K ?kn ?x ?s1 = Inr (0, ?s1\<lparr>kst := k'\<rparr>)" "kvfs_wf devsize img hash (?s1\<lparr>kst := k'\<rparr>)"
    "kv img (?s1\<lparr>kst := k'\<rparr>) = (kv img s)(i_key (?I ! i) := None, i_key ?x \<mapsto> blocks (mnt s) (img (kst s)) ! i)"
    "hash k' = hash (kst s)" "inodes (mnt s) (img k') = ?I[i := ?x]" by blast
  let ?s' = "?s1\<lparr>kst := k_unlock K k' fvp\<rparr>"
  have "rename_rekey K fvp kb s = Inr (0, ?s')"
    using k'(1) i(5) by (simp add: rename_rekey_def Let_def file_vnode_def)
  moreover have "kvfs_wf devsize img hash ?s'" "kv img ?s' = kv img (?s1\<lparr>kst := k'\<rparr>)"
    using k'(2) by (simp_all add: kvfs_wf_def kvfs_ok_def kv_def)
  moreover have "vnode_of img hash ?s' fvp kb"
    unfolding vnode_of_def using i k' by (intro exI[of _ i]) simp
  ultimately show ?thesis using k'(3) kv_vnode[OF wf i(2)] i(3) by (intro exI[of _ ?s']) simp
qed

lemma rename_out_ok:
  "\<exists>k'. rename_out K fdvp fvp tdvp tvp e s = (e, s\<lparr>kst := k'\<rparr>) \<and> img k' = img (kst s) \<and> hash k' = hash (kst s)"
  by (rule exI[of _ "kst (snd (rename_out K fdvp fvp tdvp tvp e s))"])
    (simp add: rename_out_def Let_def split: option.split)

lemma rename_ok:
  assumes wf: "kvfs_wf devsize img hash s" and vp: "vnode_of img hash s fvp ka"
    and name: "str_to_key (cn_nameptr tcnp) = (0, kb)"
    and tvp: "case tvp of None \<Rightarrow> kv img s kb = None | Some t \<Rightarrow> vnode_of img hash s t kb \<and> t \<noteq> fvp"
  shows "\<exists>s'. kvfs_rename K fdvp fvp tdvp tvp tcnp s = Inr (0, s') \<and> kvfs_wf devsize img hash s' \<and>
    kv img s' = (kv img s)(ka := None, kb := kv img s ka) \<and> vnode_of img hash s' fvp kb"
proof -
  define mid where "mid = (case tvp of Some t \<Rightarrow> (if v_data (vns s t) \<noteq> None then kvfs_remove K t s else Inr (0, s))
    | None \<Rightarrow> Inr (0, s))"
  have "\<exists>s1. mid = Inr (0, s1) \<and> kvfs_wf devsize img hash s1 \<and> kv img s1 = (kv img s)(kb := None) \<and>
      vnode_of img hash s1 fvp ka \<and> (ka \<noteq> kb)"
  proof (cases tvp)
    case None
    obtain i where "live (inodes (mnt s) (img (kst s))) i" "i_key (inodes (mnt s) (img (kst s)) ! i) = ka"
      by (rule vnode_ofD[OF wf vp])
    then have "ka \<noteq> kb" using kv_vnode[OF wf] tvp None by force
    then show ?thesis using None wf vp tvp by (auto simp: mid_def fun_upd_idem)
  next
    case (Some t)
    then have t: "vnode_of img hash s t kb" "t \<noteq> fvp" using tvp by auto
    have "ka \<noteq> kb"
    proof
      assume "ka = kb"
      obtain i where i: "hash (kst s) (32 * i) = Some t" "live (inodes (mnt s) (img (kst s))) i"
        "i_key (inodes (mnt s) (img (kst s)) ! i) = kb" by (rule vnode_ofD[OF wf t(1)])
      obtain j where j: "hash (kst s) (32 * j) = Some fvp" "live (inodes (mnt s) (img (kst s))) j"
        "i_key (inodes (mnt s) (img (kst s)) ! j) = ka" by (rule vnode_ofD[OF wf vp])
      have "i = j" using entries_okD(4)[OF kvfs_okD(2)[OF wf[unfolded kvfs_wf_def]]] i j \<open>ka = kb\<close>
        by (auto simp: keys_distinct_def live_def)
      then show False using i j t(2) by simp
    qed
    moreover have "v_data (vns s t) \<noteq> None" by (rule vnode_ofD[OF wf t(1)]) (simp add: file_vnode_def)
    ultimately show ?thesis using remove_ok[OF wf t(1)] Some t(2) vp by (auto simp: mid_def)
  qed
  then obtain s1 where s1: "mid = Inr (0, s1)" "kvfs_wf devsize img hash s1" "kv img s1 = (kv img s)(kb := None)"
    "vnode_of img hash s1 fvp ka" "ka \<noteq> kb" by blast
  obtain k2 where k2: "k_vn_lock K (kst s1) fvp = (0, k2)" "img k2 = img (kst s1)" "hash k2 = hash (kst s1)"
    using vn_lock[of "kst s1" fvp] by blast
  let ?s2 = "s1\<lparr>kst := k2\<rparr>"
  have wf2: "kvfs_wf devsize img hash ?s2" "vnode_of img hash ?s2 fvp ka" "kv img ?s2 = (kv img s)(kb := None)"
    using s1 k2 by (simp_all add: kvfs_wf_def kvfs_ok_def vnode_of_def kv_def)
  then have "kv img ?s2 kb = None" by simp
  from rekey_ok[OF wf2(1,2) this str_to_key_length[OF name]] obtain s3 where s3: "rename_rekey K fvp kb ?s2 = Inr (0, s3)"
    "kvfs_wf devsize img hash s3" "kv img s3 = (kv img ?s2)(ka := None, kb := kv img ?s2 ka)" "vnode_of img hash s3 fvp kb"
    by blast
  obtain k4 where k4: "rename_out K fdvp fvp tdvp tvp 0 s3 = (0, s3\<lparr>kst := k4\<rparr>)" "img k4 = img (kst s3)" "hash k4 = hash (kst s3)"
    using rename_out_ok by blast
  have "kvfs_rename K fdvp fvp tdvp tvp tcnp s = Inr (0, s3\<lparr>kst := k4\<rparr>)"
    unfolding kvfs_rename_def mid_def[symmetric] using name s1(1) k2(1) s3(1) k4(1) by simp
  moreover have "kvfs_wf devsize img hash (s3\<lparr>kst := k4\<rparr>)" "vnode_of img hash (s3\<lparr>kst := k4\<rparr>) fvp kb"
    using s3(2,4) k4 by (simp_all add: kvfs_wf_def kvfs_ok_def vnode_of_def)
  moreover have "kv img (s3\<lparr>kst := k4\<rparr>) = (kv img s)(ka := None, kb := kv img s ka)"
  proof -
    have "kv img (s3\<lparr>kst := k4\<rparr>) = kv img s3" using k4 by (simp add: kv_def)
    then show ?thesis using s3(3) wf2(3) s1(5) by (simp add: fun_eq_iff)
  qed
  ultimately show ?thesis by blast
qed

lemma rename_bad_name:
  assumes "kvfs_wf devsize img hash s" "fst (str_to_key (cn_nameptr tcnp)) \<noteq> 0"
  shows "\<exists>s'. kvfs_rename K fdvp fvp tdvp tvp tcnp s = Inr (EINVAL, s') \<and> kvfs_wf devsize img hash s' \<and> kv img s' = kv img s"
proof -
  obtain k' where "rename_out K fdvp fvp tdvp tvp EINVAL s = (EINVAL, s\<lparr>kst := k'\<rparr>)" "img k' = img (kst s)" "hash k' = hash (kst s)"
    using rename_out_ok by blast
  then show ?thesis using assms by (auto simp: kvfs_rename_def kvfs_wf_def kvfs_ok_def kv_def split: prod.split)
qed

end

end
