(* ===== verification/Kvfs_Io.thy ===== *)
theory Kvfs_Io
  imports Kvfs_Refine
begin

text \<open>
  Transfers and directory listings: the copy loops of \<open>kvfs_read\<close> and \<open>kvfs_write\<close>, which end and
  move what is asked for under the kernel's contract; the page of entries \<open>kvfs_readdir\<close> returns;
  the last operations of a vnode's life.
\<close>

section \<open>Definitions\<close>

text \<open>What \<open>kvfs_read\<close> delivers: the block from its first byte on, over and over.\<close>

definition read_stream :: "byte list \<Rightarrow> nat \<Rightarrow> byte list" where
  "read_stream bs n = map (\<lambda>j. bs ! (j mod BLOCKSIZE)) [0..<n]"

text \<open>The entries of the root directory that stand for files, in table order.\<close>

definition live_list :: "kvfs_inode list \<Rightarrow> nat list" where
  "live_list I = filter (live I) [0..<length I]"

fun file_dirents :: "kvfs_inode list \<Rightarrow> nat \<Rightarrow> nat list \<Rightarrow> dirent list" where
  "file_dirents I off [] = []"
| "file_dirents I off (i # is) =
     \<lparr>d_fileno = 32 * i, d_off = off + 72, d_reclen = 72, d_type = DT_REG, d_namlen = 40, d_name = key_to_str (i_key (I ! i))\<rparr>
     # file_dirents I (off + 72) is"

definition dot_dirents :: "dirent list" where
  "dot_dirents =
     [\<lparr>d_fileno = KVFS_ROOT_INO, d_off = 32, d_reclen = 32, d_type = DT_DIR, d_namlen = 1, d_name = ''.''\<rparr>,
      \<lparr>d_fileno = KVFS_ROOT_INO, d_off = 64, d_reclen = 32, d_type = DT_DIR, d_namlen = 2, d_name = ''..''\<rparr>]"

text \<open>The \<open>uio\<close> after a number of entries of 72 bytes.\<close>

definition listed :: "kvfs_inode list \<Rightarrow> nat list \<Rightarrow> dir_uio \<Rightarrow> dir_uio" where
  "listed I is du = du\<lparr>du_offset := du_offset du + 72 * int (length is), du_resid := du_resid du - 72 * length is,
     du_user := du_user du @ file_dirents I (nat (du_offset du)) is\<rparr>"

text \<open>The whole directory; the bytes of a list of entries; the entries that fit into a number of bytes, up to
  the first that does not; the \<open>uio\<close> after entries have been copied out.\<close>

definition dir_listing :: "kvfs_inode list \<Rightarrow> dirent list" where
  "dir_listing I = dot_dirents @ file_dirents I 64 (live_list I)"

abbreviation dirents_size :: "dirent list \<Rightarrow> nat" where
  "dirents_size ds \<equiv> sum_list (map d_reclen ds)"

fun fitting :: "nat \<Rightarrow> dirent list \<Rightarrow> dirent list" where
  "fitting n [] = []"
| "fitting n (d # ds) = (if d_reclen d \<le> n then d # fitting (n - d_reclen d) ds else [])"

definition delivered :: "dirent list \<Rightarrow> dir_uio \<Rightarrow> dir_uio" where
  "delivered ds du = du\<lparr>du_offset := du_offset du + int (dirents_size ds), du_resid := du_resid du - dirents_size ds,
     du_user := du_user du @ ds\<rparr>"

lemma length_file_dirents: "length (file_dirents I off xs) = length xs"
  by (induction xs arbitrary: off) simp_all

lemma size_file_dirents: "dirents_size (file_dirents I off xs) = 72 * length xs"
  by (induction xs arbitrary: off) simp_all

lemma take_file_dirents: "take n (file_dirents I off xs) = file_dirents I off (take n xs)"
  by (induction xs arbitrary: n off) (simp_all add: take_Cons split: nat.split)

lemma drop_file_dirents: "drop n (file_dirents I off xs) = file_dirents I (off + 72 * n) (drop n xs)"
  by (induction xs arbitrary: n off) (simp_all add: drop_Cons add.assoc split: nat.split)

lemma fitting_files: "fitting n (file_dirents I off xs) = file_dirents I off (take (n div 72) xs)"
proof (induction xs arbitrary: n off)
  case (Cons x xs)
  then show ?case by (cases "72 \<le> n") (simp_all add: le_div_geq)
qed simp

lemma fitting_take: "take (length (fitting n ds)) ds = fitting n ds"
  by (induction n ds rule: fitting.induct) simp_all

lemma delivered_nil [simp]: "delivered [] du = du"
  by (simp add: delivered_def)

lemma listed_delivered: "listed I xs du = delivered (file_dirents I (nat (du_offset du)) xs) du"
  by (simp add: listed_def delivered_def size_file_dirents)

lemma names_file_dirents: "map d_name (file_dirents I off xs) = map (\<lambda>i. key_to_str (i_key (I ! i))) xs"
  by (induction xs arbitrary: off) simp_all

section \<open>Reading and writing\<close>

lemma read_stream_short: "n \<le> BLOCKSIZE \<Longrightarrow> length bs = BLOCKSIZE \<Longrightarrow> read_stream bs n = take n bs"
  by (rule nth_equalityI) (auto simp: read_stream_def)

lemma read_stream_long:
  assumes "length bs = BLOCKSIZE" "BLOCKSIZE \<le> n"
  shows "read_stream bs n = bs @ read_stream bs (n - BLOCKSIZE)"
proof (rule nth_equalityI)
  show "length (read_stream bs n) = length (bs @ read_stream bs (n - BLOCKSIZE))"
    using assms by (simp add: read_stream_def)
  fix j assume "j < length (read_stream bs n)"
  then have j: "j < n" by (simp add: read_stream_def)
  have "j mod BLOCKSIZE = (j - BLOCKSIZE) mod BLOCKSIZE" if "BLOCKSIZE \<le> j"
    using that by (rule le_mod_geq)
  then show "read_stream bs n ! j = (bs @ read_stream bs (n - BLOCKSIZE)) ! j"
    using j assms by (auto simp: read_stream_def nth_append)
qed

lemma chunk_full [simp]: "b_resid b = 0 \<Longrightarrow> chunk amt b = min amt 4096"
  by (simp add: chunk_def BLOCKSIZE_def)

lemma overlay_all: "length ys = length xs \<Longrightarrow> overlay 0 ys xs = ys"
  by (simp add: overlay_def)

context healthy_kernel
begin

lemma read_loop_ok:
  assumes "b_resid b = 0" "length (b_data b) = BLOCKSIZE" "min BLOCKSIZE (uio_resid u) \<le> amt"
  shows "\<exists>k'. read_loop K b amt e u k = Some (Inr (if uio_resid u = 0 then e else 0,
      u\<lparr>uio_offset := uio_offset u + int (uio_resid u), uio_resid := 0,
        uio_user := uio_user u @ read_stream (b_data b) (uio_resid u)\<rparr>, k')) \<and> img k' = img k \<and> hash k' = hash k"
  using assms(3)
proof (induction "uio_resid u" arbitrary: u amt e k rule: less_induct)
  case less
  show ?case
  proof (cases "uio_resid u = 0")
    case True
    then show ?thesis by (subst read_loop.simps) (simp add: read_stream_def)
  next
    case False
    let ?c = "min amt 4096" and ?n = "min BLOCKSIZE (uio_resid u)"
    have mv: "min ?c (uio_resid u) = ?n" "?c \<le> length (b_data b)" "0 < ?n"
      using less.prems False assms(2) by (auto simp: BLOCKSIZE_def min_def split: if_splits)
    let ?u = "u\<lparr>uio_offset := uio_offset u + int ?n, uio_resid := uio_resid u - ?n,
        uio_user := uio_user u @ take ?n (b_data b)\<rparr>"
    obtain k1 where k1: "k_uiomove_out K k (b_data b) ?c u = (0, ?u, k1)" "img k1 = img k" "hash k1 = hash k"
      using uiomove_out[OF mv(2), of k u] mv(1) by auto
    have "uio_resid ?u < uio_resid u" "min BLOCKSIZE (uio_resid ?u) \<le> ?c"
      using mv(3) less.prems by (auto simp: BLOCKSIZE_def min_def split: if_splits)
    from less.hyps[OF this, of 0 k1] obtain k2 where k2: "read_loop K b ?c 0 ?u k1 = Some (Inr (0,
        ?u\<lparr>uio_offset := uio_offset ?u + int (uio_resid ?u), uio_resid := 0,
          uio_user := uio_user ?u @ read_stream (b_data b) (uio_resid ?u)\<rparr>, k2))" "img k2 = img k1" "hash k2 = hash k1"
      by auto
    have str: "take ?n (b_data b) @ read_stream (b_data b) (uio_resid u - ?n) = read_stream (b_data b) (uio_resid u)"
    proof (cases "BLOCKSIZE \<le> uio_resid u")
      case True
      then show ?thesis using read_stream_long[OF assms(2) True] assms(2) by (simp add: min_def)
    next
      case short: False
      then show ?thesis using read_stream_short[OF _ assms(2), of "uio_resid u"] by (simp add: min_def read_stream_def)
    qed
    have "\<not> BLOCKSIZE < 4096" by (simp add: BLOCKSIZE_def)
    then have "read_loop K b amt e u k = read_loop K b ?c 0 ?u k1"
      using False k1(1) mv assms by (subst read_loop.simps) (simp add: Let_def)
    then show ?thesis using k2 k1 False str by (intro exI[of _ k2]) simp
  qed
qed

text \<open>The data block of a cached file.\<close>

lemma read_block:
  assumes "layout_ok m devsize" "i < block_count m"
  shows "\<exists>b k'. k_bread K k (btodb (data_off m + 4096 * i)) BLOCKSIZE = (0, Some b, k') \<and> b_resid b = 0 \<and>
    b_blkno b = btodb (data_off m + 4096 * i) \<and> b_data b = blocks m (img k) ! i \<and> img k' = img k \<and> hash k' = hash k"
  using bread[of "btodb (data_off m + 4096 * i)" BLOCKSIZE k] layout_data_block(2)[OF assms] layout_bounds(3)[OF assms]
    assms(2) by (auto simp: BLOCKSIZE_def views_nth)

lemma read_ok:
  assumes wf: "kvfs_wf devsize img hash s" and vp: "vnode_of img hash s vp kb"
    and off: "0 \<le> uio_offset u" "uio_offset u < int BLOCKSIZE" and n: "0 < uio_resid u" "uio_resid u < 2 ^ 31"
  shows "\<exists>s' bs. kv img s kb = Some bs \<and> kvfs_read K vp u s = Some (Inr (0,
      u\<lparr>uio_offset := uio_offset u + int (uio_resid u), uio_resid := 0,
        uio_user := uio_user u @ read_stream bs (uio_resid u)\<rparr>, s')) \<and>
    kvfs_wf devsize img hash s' \<and> kv img s' = kv img s \<and> vnode_of img hash s' vp kb"
proof -
  obtain i where i: "hash (kst s) (32 * i) = Some vp" "live (inodes (mnt s) (img (kst s))) i"
    "i_key (inodes (mnt s) (img (kst s)) ! i) = kb" "i < block_count (mnt s)"
    "vns s vp = file_vnode (mnt s) (mnt_id s) i (inodes (mnt s) (img (kst s)) ! i)" by (rule vnode_ofD[OF wf vp])
  note ok = kvfs_okD[OF wf[unfolded kvfs_wf_def]]
  let ?bs = "blocks (mnt s) (img (kst s)) ! i"
  obtain b k1 where b: "k_bread K (kst s) (btodb (data_off (mnt s) + 4096 * i)) BLOCKSIZE = (0, Some b, k1)"
    "b_resid b = 0" "b_data b = ?bs" "img k1 = img (kst s)" "hash k1 = hash (kst s)"
    using read_block[OF ok(1) i(4), of "kst s"] by blast
  have l: "length (b_data b) = BLOCKSIZE" using b(3) entries_okD(6)[OF ok(2)] i(4) by simp
  have "uio_resid u mod 2 ^ 32 = uio_resid u" using n(2) by simp
  then have "min BLOCKSIZE (uio_resid u) \<le> uio_resid u mod 2 ^ 32" by simp
  from read_loop_ok[OF b(2) l this, of 0 k1] obtain k2 where k2: "read_loop K b (uio_resid u mod 2 ^ 32) 0 u k1 = Some (Inr (0,
      u\<lparr>uio_offset := uio_offset u + int (uio_resid u), uio_resid := 0,
        uio_user := uio_user u @ read_stream ?bs (uio_resid u)\<rparr>, k2))" "img k2 = img k1" "hash k2 = hash k1"
    using b(3) by auto
  let ?s' = "s\<lparr>kst := k_brelse K k2 b\<rparr>"
  have "kvfs_read K vp u s = Some (Inr (0, u\<lparr>uio_offset := uio_offset u + int (uio_resid u), uio_resid := 0,
        uio_user := uio_user u @ read_stream ?bs (uio_resid u)\<rparr>, ?s'))"
    using i(5) off n b(1) k2(1) by (simp add: kvfs_read_def file_vnode_def)
  moreover have "kvfs_wf devsize img hash ?s'" "kv img ?s' = kv img s" "vnode_of img hash ?s' vp kb"
    using wf vp b k2 by (simp_all add: kvfs_wf_def kvfs_ok_def kv_def vnode_of_def)
  ultimately show ?thesis using kv_vnode[OF wf i(2)] i(3) by (intro exI[of _ ?s'] exI[of _ ?bs]) simp
qed

lemma write_loop_ok:
  assumes "b_resid b = 0" "length (b_data b) = BLOCKSIZE" "0 \<le> uio_offset u" "0 < uio_resid u"
    "uio_offset u + int (uio_resid u) \<le> int BLOCKSIZE" "uio_resid u \<le> length (uio_user u)"
  shows "\<exists>u' k'. write_loop K b (uio_resid u) u k =
      Some (Inr (0, b\<lparr>b_data := overlay (nat (uio_offset u)) (take (uio_resid u) (uio_user u)) (b_data b)\<rparr>, u', k')) \<and>
    uio_resid u' = 0 \<and> uio_offset u' = uio_offset u + int (uio_resid u) \<and> img k' = img k \<and> hash k' = hash k"
proof -
  let ?n = "uio_resid u"
  have c: "chunk ?n b = ?n" using assms by (simp add: BLOCKSIZE_def)
  let ?u = "u\<lparr>uio_offset := uio_offset u + int ?n, uio_resid := 0, uio_user := drop ?n (uio_user u)\<rparr>"
  obtain k1 where k1: "k_uiomove_in K k ?n u = (0, take ?n (uio_user u), ?u, k1)" "img k1 = img k" "hash k1 = hash k"
    using uiomove_in[OF assms(6), of k ?n] by auto
  have "\<not> (uio_offset u < 0 \<or> int (length (b_data b)) < uio_offset u + int (min ?n ?n))" using assms by simp
  then have "write_loop K b ?n u k =
      write_loop K (b\<lparr>b_data := overlay (nat (uio_offset u)) (take ?n (uio_user u)) (b_data b)\<rparr>) ?n ?u k1"
    using assms(4) k1(1) by (subst write_loop.simps) (simp add: c Let_def)
  also have "\<dots> = Some (Inr (0, b\<lparr>b_data := overlay (nat (uio_offset u)) (take ?n (uio_user u)) (b_data b)\<rparr>, ?u, k1))"
    by (subst write_loop.simps) simp
  finally show ?thesis using k1 by (intro exI[of _ ?u] exI[of _ k1]) simp
qed

lemma write_ok:
  assumes wf: "kvfs_wf devsize img hash s" and vp: "vnode_of img hash s vp kb"
    and off: "0 \<le> uio_offset u" "0 < uio_resid u" "uio_offset u + int (uio_resid u) \<le> int BLOCKSIZE"
    and user: "uio_resid u \<le> length (uio_user u)"
  shows "\<exists>u' s' bs. kv img s kb = Some bs \<and> kvfs_write K vp False u s = Some (Inr (0, u', s')) \<and> uio_resid u' = 0 \<and>
    kvfs_wf devsize img hash s' \<and> vnode_of img hash s' vp kb \<and>
    kv img s' = (kv img s)(kb \<mapsto> overlay (nat (uio_offset u)) (take (uio_resid u) (uio_user u)) bs)"
proof -
  obtain i where i: "hash (kst s) (32 * i) = Some vp" "live (inodes (mnt s) (img (kst s))) i"
    "i_key (inodes (mnt s) (img (kst s)) ! i) = kb" "i < block_count (mnt s)"
    "vns s vp = file_vnode (mnt s) (mnt_id s) i (inodes (mnt s) (img (kst s)) ! i)" by (rule vnode_ofD[OF wf vp])
  note ok = kvfs_okD[OF wf[unfolded kvfs_wf_def]]
  let ?m = "mnt s" and ?bs = "blocks (mnt s) (img (kst s)) ! i"
  obtain b k1 where b: "k_bread K (kst s) (btodb (data_off ?m + 4096 * i)) BLOCKSIZE = (0, Some b, k1)"
    "b_resid b = 0" "b_blkno b = btodb (data_off ?m + 4096 * i)" "b_data b = ?bs" "img k1 = img (kst s)" "hash k1 = hash (kst s)"
    using read_block[OF ok(1) i(4), of "kst s"] by blast
  have l: "length (b_data b) = BLOCKSIZE" using b(4) entries_okD(6)[OF ok(2)] i(4) by simp
  let ?new = "overlay (nat (uio_offset u)) (take (uio_resid u) (uio_user u)) ?bs"
  have ln: "length ?new = BLOCKSIZE" using l b(4) off user by simp
  have amt: "uio_resid u mod 2 ^ 32 = uio_resid u" using off by (simp add: BLOCKSIZE_def)
  obtain u' k2 where k2: "write_loop K b (uio_resid u) u k1 = Some (Inr (0, b\<lparr>b_data := ?new\<rparr>, u', k2))"
    "uio_resid u' = 0" "img k2 = img k1" "hash k2 = hash k1"
    using write_loop_ok[OF b(2) l off(1,2,3) user, of k1] unfolding b(4) by blast
  let ?w = "b\<lparr>b_data := ?new\<rparr>"
  note at = layout_data_block(2)[OF ok(1) i(4)] layout_bounds(3)[OF ok(1) i(4)]
  have "512 * b_blkno ?w + length (b_data ?w) \<le> devsize" using at b(3) ln by (simp add: BLOCKSIZE_def)
  from bwrite[OF this, of k2] obtain k3 where k3: "k_bwrite K k2 ?w = (0, k3)" "img k3 = put_block ?m i ?new (img (kst s))"
    "hash k3 = hash (kst s)" using b k2 at(1) by (auto simp: put_block_def)
  let ?s' = "s\<lparr>kst := k3\<rparr>"
  have call: "kvfs_write K vp False u s = Some (Inr (0, u', ?s'))"
    using i(5) off(2) b(1) k2(1) k3(1) amt by (simp add: kvfs_write_def file_vnode_def)
  have lay: "kvfs_layout ?m devsize" using ok(1) by unfold_locales
  note rw = kvfs_layout.disk_rewrite[OF lay ok(2) i(2) ln]
  have I': "inodes ?m (img k3) = inodes ?m (img (kst s))" unfolding k3(2) by (rule put_block_views(1)[OF ok(1) i(4) ln])
  have "kvfs_wf devsize img hash ?s'" using rw(1) ok k3 I' by (simp add: kvfs_wf_def kvfs_ok_def)
  moreover have "vnode_of img hash ?s' vp kb" using vp I' k3 by (simp add: vnode_of_def)
  moreover have "kv img ?s' = (kv img s)(kb \<mapsto> ?new)" using rw(2) k3(2) i(3) by (simp add: kv_def)
  ultimately show ?thesis using call k2(2) kv_vnode[OF wf i(2)] i(3)
    by (intro exI[of _ u'] exI[of _ ?s'] exI[of _ ?bs]) simp
qed

lemma write_overflow:
  assumes wf: "kvfs_wf devsize img hash s" and vp: "vnode_of img hash s vp kb"
    and off: "0 < uio_resid u" "uio_resid u < 2 ^ 31" "int BLOCKSIZE < uio_offset u + int (min (uio_resid u) BLOCKSIZE)"
  shows "kvfs_write K vp False u s = Some (Inl OutOfBounds)"
proof -
  obtain i where i: "i < block_count (mnt s)"
    "vns s vp = file_vnode (mnt s) (mnt_id s) i (inodes (mnt s) (img (kst s)) ! i)" by (rule vnode_ofD[OF wf vp])
  note ok = kvfs_okD[OF wf[unfolded kvfs_wf_def]]
  obtain b k1 where b: "k_bread K (kst s) (btodb (data_off (mnt s) + 4096 * i)) BLOCKSIZE = (0, Some b, k1)"
    "b_resid b = 0" "b_data b = blocks (mnt s) (img (kst s)) ! i"
    using read_block[OF ok(1) i(1), of "kst s"] by blast
  have "length (b_data b) = BLOCKSIZE" using b(3) entries_okD(6)[OF ok(2)] i by simp
  then have "int (length (b_data b)) < uio_offset u + int (min (chunk (uio_resid u) b) (uio_resid u))"
    using off(3) b(2) by (simp add: BLOCKSIZE_def min.commute min.left_commute)
  then have "write_loop K b (uio_resid u) u k1 = Some (Inl OutOfBounds)"
    using off(1) by (subst write_loop.simps) (simp add: Let_def)
  moreover have "uio_resid u mod 2 ^ 32 = uio_resid u" using off(2) by simp
  ultimately show ?thesis using i(2) off(1) b(1) by (simp add: kvfs_write_def file_vnode_def)
qed

subsection \<open>Directory listing\<close>

lemma readdir_one_ok:
  assumes "GENERIC_DIRLEN (length name) \<le> du_resid du"
  shows "\<exists>k'. kvfs_readdir_one K (Some du) name fileno type k = (0, GENERIC_DIRLEN (length name),
      Some (du\<lparr>du_offset := du_offset du + int (GENERIC_DIRLEN (length name)), du_resid := du_resid du - GENERIC_DIRLEN (length name),
        du_user := du_user du @ [\<lparr>d_fileno = fileno, d_off = nat (du_offset du) + GENERIC_DIRLEN (length name),
          d_reclen = GENERIC_DIRLEN (length name), d_type = type, d_namlen = length name, d_name = name\<rparr>]\<rparr>), k') \<and>
    img k' = img k \<and> hash k' = hash k"
proof -
  let ?d = "\<lparr>d_fileno = fileno, d_off = nat (du_offset du) + GENERIC_DIRLEN (length name),
    d_reclen = GENERIC_DIRLEN (length name), d_type = type, d_namlen = length name, d_name = name\<rparr>"
  show ?thesis using uiomove_dirent[OF assms, of k ?d] assms by (auto simp: kvfs_readdir_one_def Let_def)
qed

lemma readdir_one_short:
  "du_resid du < GENERIC_DIRLEN (length name) \<Longrightarrow>
    kvfs_readdir_one K (Some du) name fileno type k = (EINVAL, GENERIC_DIRLEN (length name), Some du, k)"
  by (simp add: kvfs_readdir_one_def Let_def)

lemma dirlen [simp]: "GENERIC_DIRLEN 40 = 72" "GENERIC_DIRLEN (Suc 0) = 32" "GENERIC_DIRLEN 2 = 32" "GENERIC_DIRLEN (Suc (Suc 0)) = 32"
  by (simp_all add: GENERIC_DIRLEN_def)

lemma dirent_reclen [simp]: "kvfs_dirent_reclen K name type k = GENERIC_DIRLEN (length name)"
  by (simp add: kvfs_dirent_reclen_def kvfs_readdir_one_def Let_def)

lemma readdir_scan_ok:
  assumes "\<forall>i < bc. i * 32 + 32 \<le> length (b_data b) \<and> decode_inode (slice (i * 32) 32 (b_data b)) = I ! i \<and> wf_inode (I ! i)"
    and "length I = bc"
    and "du_offset du = int (reclens + 72 * p)" "p \<le> length (filter (live I) [i..<bc])"
  defines "rest \<equiv> drop p (filter (live I) [i..<bc])"
  shows "\<exists>k'. img k' = img k \<and> hash k' = hash k \<and> readdir_scan K b bc init i reclens du k =
    Inr (if length rest \<le> du_resid du div 72 \<or> du_resid (listed I (take (du_resid du div 72) rest) du) \<noteq> init then 0 else EINVAL,
      listed I (take (du_resid du div 72) rest) du, k')"
  using assms(3,4) unfolding rest_def
proof (induction "bc - i" arbitrary: i p reclens du k rule: less_induct)
  case less
  show ?case
  proof (cases "i < bc")
    case False
    then show ?thesis using less.prems
      by (subst readdir_scan.simps) (auto simp: listed_def intro!: exI[of _ "k_brelse K k b"])
  next
    case i: True
    have upt: "[i..<bc] = i # [i + 1..<bc]" using i by (simp add: upt_conv_Cons)
    have m: "bc - (i + 1) < bc - i" using i by simp
    have tab: "\<not> length (b_data b) < i * sizeof_inode + sizeof_inode"
      "decode_inode (slice (i * sizeof_inode) sizeof_inode (b_data b)) = I ! i"
      using assms(1) i by (auto simp: sizeof_inode_def)
    show ?thesis
    proof (cases "is_free (I ! i)")
      case True
      then have "filter (live I) [i..<bc] = filter (live I) [i + 1..<bc]" using upt by (simp add: live_def)
      moreover have "readdir_scan K b bc init i reclens du k = readdir_scan K b bc init (i + 1) reclens du k"
        using i tab True by (subst readdir_scan.simps) (simp add: Let_def is_free_def)
      ultimately show ?thesis using less.hyps[OF m less.prems(1), of k] less.prems(2) by simp
    next
      case False
      then have rest: "filter (live I) [i..<bc] = i # filter (live I) [i + 1..<bc]" using upt i assms(2) by (simp add: live_def)
      have nl: "length (key_to_str (i_key (I ! i))) = 40" using assms(1) i by (simp add: wf_inode_def length_key_to_str)
      show ?thesis
      proof (cases p)
        case (Suc p')
        have "readdir_scan K b bc init i reclens du k = readdir_scan K b bc init (i + 1) (reclens + 72) du k"
          using i tab False nl less.prems(1) Suc
          by (subst readdir_scan.simps) (simp add: Let_def is_free_def)
        then show ?thesis using less.hyps[OF m, of du "reclens + 72" p' k] less.prems rest Suc by simp
      next
        case 0
        show ?thesis
        proof (cases "72 \<le> du_resid du")
          case True
          let ?e = "\<lparr>d_fileno = 32 * i, d_off = reclens + 72, d_reclen = 72, d_type = DT_REG, d_namlen = 40,
            d_name = key_to_str (i_key (I ! i))\<rparr>"
          let ?du = "du\<lparr>du_offset := du_offset du + 72, du_resid := du_resid du - 72, du_user := du_user du @ [?e]\<rparr>"
          obtain k1 where k1: "kvfs_readdir_one K (Some du) (key_to_str (i_key (I ! i))) (i * sizeof_inode) DT_REG k = (0, 72, Some ?du, k1)"
            "img k1 = img k" "hash k1 = hash k"
            using readdir_one_ok[of "key_to_str (i_key (I ! i))" du "i * sizeof_inode" DT_REG k] True nl less.prems(1) 0
            by (auto simp: sizeof_inode_def mult.commute)
          have step: "readdir_scan K b bc init i reclens du k = readdir_scan K b bc init (i + 1) (reclens + 72) ?du k1"
            using i tab False less.prems(1) 0 k1(1)
            by (subst readdir_scan.simps) (simp add: Let_def is_free_def)
          have q: "du_resid du div 72 = Suc (du_resid ?du div 72)" using True by (simp add: le_div_geq)
          have "listed I (take (du_resid du div 72) (i # xs)) du = listed I (take (du_resid ?du div 72) xs) ?du" for xs
            unfolding q using less.prems(1) 0 by (simp add: listed_def nat_add_distrib add.assoc)
          then show ?thesis
            using less.hyps[OF m, of ?du "reclens + 72" 0 k1] less.prems(1) 0 k1(2,3) step rest q by (simp del: div_less)
        next
          case short: False
          then have "readdir_scan K b bc init i reclens du k = readdir_out K init 72 EINVAL (Some b) du k"
            using i tab False less.prems(1) 0 nl readdir_one_short[of du "key_to_str (i_key (I ! i))" "i * sizeof_inode" DT_REG k]
            by (subst readdir_scan.simps) (simp add: Let_def is_free_def errno_defs)
          then show ?thesis using short 0 rest
            by (intro exI[of _ "k_brelse K k b"]) (simp add: readdir_out_def Let_def listed_def)
        qed
      qed
    qed
  qed
qed

lemma readdir_files_ok:
  assumes wf: "kvfs_wf devsize img hash s" and k: "img k = img (kst s)" "hash k = hash (kst s)"
    and off: "du_offset du = int (reclens + 72 * p)" "p \<le> length (live_list (inodes (mnt s) (img (kst s))))"
  defines "rest \<equiv> drop p (live_list (inodes (mnt s) (img (kst s))))"
  shows "\<exists>k'. img k' = img (kst s) \<and> hash k' = hash (kst s) \<and> readdir_files K (mnt s) init reclens du k =
    Inr (if length rest \<le> du_resid du div 72 \<or>
          du_resid (listed (inodes (mnt s) (img (kst s))) (take (du_resid du div 72) rest) du) \<noteq> init then 0 else EINVAL,
      listed (inodes (mnt s) (img (kst s))) (take (du_resid du div 72) rest) du, k')"
proof -
  note ok = kvfs_okD[OF wf[unfolded kvfs_wf_def]]
  let ?m = "mnt s" and ?I = "inodes (mnt s) (img (kst s))"
  obtain b k1 where r: "k_bread K k (btodb (inode_off ?m)) (PAD 64 (block_count ?m * sizeof_inode)) = (0, Some b, k1)"
    "img k1 = img k" "hash k1 = hash k"
    "b_data b = peek (img k) (inode_off ?m) (PAD 64 (block_count ?m * sizeof_inode))"
    using read_table[OF ok(1), of k] by blast
  have tab: "\<forall>i < block_count ?m. i * 32 + 32 \<le> length (b_data b) \<and> decode_inode (slice (i * 32) 32 (b_data b)) = ?I ! i \<and> wf_inode (?I ! i)"
    unfolding r(4) k(1) using table_data[OF ok(1)] entries_okD(5)[OF ok(2)] by simp
  have "live_list ?I = filter (live ?I) [0..<block_count ?m]" by (simp add: live_list_def)
  then show ?thesis
    using readdir_scan_ok[OF tab _ off(1), of 0 k1 init] off(2) r k by (simp add: rest_def readdir_files_def)
qed

text \<open>A page of the listing that starts behind \<open>p\<close> files.\<close>

lemma readdir_page:
  assumes wf: "kvfs_wf devsize img hash s" and vp: "root_of hash s vp"
    and off: "du_offset du = 64 + 72 * int p" "p \<le> length (live_list (inodes (mnt s) (img (kst s))))"
  defines "rest \<equiv> drop p (live_list (inodes (mnt s) (img (kst s))))"
  shows "\<exists>k'. img k' = img (kst s) \<and> hash k' = hash (kst s) \<and> kvfs_readdir K vp du s =
    Inr (if rest = [] \<or> 72 \<le> du_resid du then 0 else EINVAL,
      listed (inodes (mnt s) (img (kst s))) (take (du_resid du div 72) rest) du, k')"
proof -
  let ?q = "du_resid du div 72" and ?I = "inodes (mnt s) (img (kst s))"
  have "du_offset du = int (64 + 72 * p)" using off by simp
  from readdir_files_ok[OF wf refl refl this off(2), of "du_resid du", folded rest_def] obtain k' where
    k': "img k' = img (kst s)" "hash k' = hash (kst s)" "readdir_files K (mnt s) (du_resid du) 64 du (kst s) =
      Inr (if length rest \<le> ?q \<or> du_resid (listed ?I (take ?q rest) du) \<noteq> du_resid du then 0 else EINVAL,
        listed ?I (take ?q rest) du, k')" by blast
  have "kvfs_readdir K vp du s = readdir_files K (mnt s) (du_resid du) 64 du (kst s)"
    using root_vnodeD[OF wf vp] off(1)
    by (simp add: kvfs_readdir_def Let_def root_vnode_def readdir_dotdot_def)
  moreover have "(length rest \<le> ?q \<or> du_resid (listed ?I (take ?q rest) du) \<noteq> du_resid du) \<longleftrightarrow> rest = [] \<or> 72 \<le> du_resid du"
  proof (cases "72 \<le> du_resid du")
    case True
    then have "0 < ?q" by (simp add: div_greater_zero_iff)
    then show ?thesis using True by (cases rest) (auto simp: listed_def)
  next
    case False
    then show ?thesis by (simp add: listed_def)
  qed
  ultimately show ?thesis using k' by (intro exI[of _ k']) simp
qed

text \<open>The two fixed entries: \<open>..\<close> is written when the offset is behind \<open>.\<close>, and \<open>init\<close> is what the request
  had left when it came in.\<close>

lemma readdir_dotdot_ok:
  assumes wf: "kvfs_wf devsize img hash s" and k: "img k = img (kst s)" "hash k = hash (kst s)"
    and off: "du_offset du = 32" "du_resid du \<le> init"
  defines "I \<equiv> inodes (mnt s) (img (kst s))"
  shows "\<exists>k'. img k' = img (kst s) \<and> hash k' = hash (kst s) \<and> readdir_dotdot K (mnt s) init 32 du k =
    Inr (if du_resid du < 32 \<and> du_resid du = init then EINVAL else 0,
      delivered (fitting (du_resid du) (drop 1 (dir_listing I))) du, k')"
proof (cases "du_resid du < 32")
  case True
  then have "kvfs_readdir_one K (Some du) ''..'' KVFS_ROOT_INO DT_DIR k = (EINVAL, 32, Some du, k)"
    using readdir_one_short[of du "''..''"] by simp
  then show ?thesis using True off k
    by (intro exI[of _ k]) (simp add: readdir_dotdot_def readdir_out_def Let_def errno_defs dir_listing_def dot_dirents_def)
next
  case False
  let ?d2 = "du\<lparr>du_offset := 64, du_resid := du_resid du - 32, du_user := du_user du @ [dot_dirents ! 1]\<rparr>"
  obtain k2 where k2: "kvfs_readdir_one K (Some du) ''..'' KVFS_ROOT_INO DT_DIR k = (0, 32, Some ?d2, k2)"
    "img k2 = img (kst s)" "hash k2 = hash (kst s)"
    using readdir_one_ok[of "''..''" du KVFS_ROOT_INO DT_DIR k] off k False by (auto simp: dot_dirents_def)
  have ne: "du_resid (listed J xs ?d2) \<noteq> init" for J xs
  proof -
    have "du_resid (listed J xs ?d2) \<le> du_resid du - 32" by (simp add: listed_def)
    then show ?thesis using off(2) False by linarith
  qed
  have "du_offset ?d2 = int (64 + 72 * 0)" by simp
  from readdir_files_ok[OF wf k2(2,3) this, of init] obtain k' where
    k': "img k' = img (kst s)" "hash k' = hash (kst s)" "readdir_files K (mnt s) init 64 ?d2 k2 =
      Inr (0, listed I (take (du_resid ?d2 div 72) (live_list I)) ?d2, k')"
    by (auto simp: I_def ne simp del: One_nat_def)
  have "listed I (take (du_resid ?d2 div 72) (live_list I)) ?d2 =
      delivered (fitting (du_resid du) (drop 1 (dir_listing I))) du"
    using False off(1) by (simp add: listed_delivered delivered_def fitting_files dir_listing_def dot_dirents_def)
  then show ?thesis using k' k2(1) off(1) False
    by (intro exI[of _ k']) (simp add: readdir_dotdot_def)
qed

lemma readdir_start_ok:
  assumes wf: "kvfs_wf devsize img hash s" and vp: "root_of hash s vp" and off: "du_offset du = 0"
  defines "I \<equiv> inodes (mnt s) (img (kst s))"
  shows "\<exists>k'. img k' = img (kst s) \<and> hash k' = hash (kst s) \<and> kvfs_readdir K vp du s =
    Inr (if du_resid du < 32 then EINVAL else 0, delivered (fitting (du_resid du) (dir_listing I)) du, k')"
proof (cases "du_resid du < 32")
  case True
  then have "kvfs_readdir_one K (Some du) ''.'' KVFS_ROOT_INO DT_DIR (kst s) = (EINVAL, 32, Some du, kst s)"
    using readdir_one_short[of du "''.''"] by simp
  then show ?thesis using True off root_vnodeD[OF wf vp]
    by (intro exI[of _ "kst s"]) (simp add: kvfs_readdir_def root_vnode_def readdir_out_def Let_def errno_defs dir_listing_def dot_dirents_def)
next
  case False
  let ?d1 = "du\<lparr>du_offset := 32, du_resid := du_resid du - 32, du_user := du_user du @ [dot_dirents ! 0]\<rparr>"
  obtain k1 where k1: "kvfs_readdir_one K (Some du) ''.'' KVFS_ROOT_INO DT_DIR (kst s) = (0, 32, Some ?d1, k1)"
    "img k1 = img (kst s)" "hash k1 = hash (kst s)"
    using readdir_one_ok[of "''.''" du KVFS_ROOT_INO DT_DIR "kst s"] off False by (auto simp: dot_dirents_def)
  have "du_offset ?d1 = 32" "du_resid ?d1 \<le> du_resid du" "du_resid ?d1 \<noteq> du_resid du" using False by simp_all
  with readdir_dotdot_ok[OF wf k1(2,3) this(1,2)] obtain k' where
    k': "img k' = img (kst s)" "hash k' = hash (kst s)" "readdir_dotdot K (mnt s) (du_resid du) 32 ?d1 k1 =
      Inr (0, delivered (fitting (du_resid ?d1) (drop 1 (dir_listing I))) ?d1, k')"
    unfolding I_def by auto
  have "delivered (fitting (du_resid ?d1) (drop 1 (dir_listing I))) ?d1 = delivered (fitting (du_resid du) (dir_listing I)) du"
    using False off by (simp add: delivered_def dir_listing_def dot_dirents_def)
  then show ?thesis using k' k1(1) root_vnodeD[OF wf vp] off False
    by (intro exI[of _ k']) (simp add: kvfs_readdir_def Let_def root_vnode_def)
qed

text \<open>Every page: the request continues behind the first \<open>q\<close> entries of the listing.\<close>

lemma readdir_listing:
  assumes wf: "kvfs_wf devsize img hash s" and vp: "root_of hash s vp"
    and off: "q \<le> length (dir_listing (inodes (mnt s) (img (kst s))))"
      "du_offset du = int (dirents_size (take q (dir_listing (inodes (mnt s) (img (kst s))))))"
  defines "left \<equiv> drop q (dir_listing (inodes (mnt s) (img (kst s))))"
  shows "\<exists>k'. img k' = img (kst s) \<and> hash k' = hash (kst s) \<and> kvfs_readdir K vp du s =
    Inr (if left = [] \<or> fitting (du_resid du) left \<noteq> [] then 0 else EINVAL, delivered (fitting (du_resid du) left) du, k')"
proof -
  let ?I = "inodes (mnt s) (img (kst s))"
  consider "q = 0" | "q = 1" | p where "q = p + 2" by (metis One_nat_def add_2_eq_Suc' not0_implies_Suc)
  then show ?thesis
  proof cases
    case 1
    then have "du_offset du = 0" using off(2) by simp
    from readdir_start_ok[OF wf vp this] show ?thesis
      using 1 by (auto simp: left_def dir_listing_def dot_dirents_def)
  next
    case 2
    then have o: "du_offset du = 32" using off(2) by (simp add: dir_listing_def dot_dirents_def)
    have "kvfs_readdir K vp du s = readdir_dotdot K (mnt s) (du_resid du) 32 du (kst s)"
      using root_vnodeD[OF wf vp] o by (simp add: kvfs_readdir_def Let_def root_vnode_def)
    with readdir_dotdot_ok[OF wf refl refl o, of "du_resid du"] show ?thesis
      using 2 by (auto simp: left_def dir_listing_def dot_dirents_def)
  next
    case 3
    have d: "left = file_dirents ?I (64 + 72 * p) (drop p (live_list ?I))"
      using 3 by (simp add: left_def dir_listing_def dot_dirents_def drop_file_dirents)
    have p: "p \<le> length (live_list ?I)" using off(1) 3 by (simp add: dir_listing_def dot_dirents_def length_file_dirents)
    have o: "du_offset du = 64 + 72 * int p"
      using off(2) 3 p by (simp add: dir_listing_def dot_dirents_def take_file_dirents size_file_dirents)
    have n: "nat (64 + 72 * int p) = 64 + 72 * p" by (simp add: nat_eq_iff)
    have "listed ?I (take (du_resid du div 72) (drop p (live_list ?I))) du = delivered (fitting (du_resid du) left) du"
      unfolding d by (simp add: listed_delivered fitting_files o n)
    moreover have "(left = [] \<or> fitting (du_resid du) left \<noteq> []) \<longleftrightarrow> drop p (live_list ?I) = [] \<or> 72 \<le> du_resid du"
      unfolding d by (cases "drop p (live_list ?I)") (simp_all add: fitting_files)
    ultimately show ?thesis using readdir_page[OF wf vp o p] by simp
  qed
qed

subsection \<open>End of life\<close>

lemma reclaim_ok:
  assumes wf: "kvfs_wf devsize img hash s" and vp: "hash (kst s) ino = Some vp"
  shows "\<exists>s'. kvfs_reclaim K vp s = (0, s') \<and> kvfs_wf devsize img hash s' \<and> kv img s' = kv img s \<and>
    vp \<notin> ran (hash (kst s')) \<and> v_data (vns s' vp) = None"
proof -
  note ok = kvfs_okD[OF wf[unfolded kvfs_wf_def]]
  let ?s' = "set_vnode vp ((vns s vp)\<lparr>v_data := None\<rparr>) (s\<lparr>kst := k_vfs_hash_remove K (kst s) vp\<rparr>)"
  have "v_data (vns s vp) \<noteq> None" using ok(3) vp by (fastforce simp: cache_ok_def file_vnode_def root_vnode_def)
  then have "kvfs_reclaim K vp s = (0, ?s')" by (auto simp: kvfs_reclaim_def)
  moreover have "kvfs_wf devsize img hash ?s'"
    using ok cache_drop[OF ok(3) vp] by (simp add: kvfs_wf_def kvfs_ok_def)
  moreover have "vp \<notin> ran (hash (kst ?s'))" by (auto simp: ran_def)
  ultimately show ?thesis by (intro exI[of _ ?s']) (simp add: kv_def)
qed

text \<open>The flags of the vnode in memory stay as they are when the file is removed, so the test of
  \<open>kvfs_inactive\<close> does not see the removal.\<close>

lemma inactive_after_remove:
  assumes wf: "kvfs_wf devsize img hash s" and vp: "vnode_of img hash s vp kb"
  shows "\<exists>s'. kvfs_remove K vp s = Inr (0, s') \<and> kvfs_inactive K vp s' = (0, s')"
proof -
  obtain s' where s': "kvfs_remove K vp s = Inr (0, s')" "vns s' = vns s" using remove_ok[OF wf vp] by blast
  obtain i where "live (inodes (mnt s) (img (kst s))) i"
    "vns s vp = file_vnode (mnt s) (mnt_id s) i (inodes (mnt s) (img (kst s)) ! i)" by (rule vnode_ofD[OF wf vp])
  then show ?thesis using s' by (simp add: kvfs_inactive_def file_vnode_def live_def is_free_def)
qed

end

section \<open>Capacity\<close>

lemma dom_kv_of:
  assumes "length B = length I" "keys_distinct I"
  shows "dom (kv_of I B) = (\<lambda>i. i_key (I ! i)) ` {i. live I i}"
  using kv_of_Some[OF assms] by (auto simp: dom_def)

lemma freelist_length:
  assumes "freelist_ok I fl cnt"
  shows "length fl = card {i. i < length I \<and> is_free (I ! i)}"
proof -
  have "set fl = (\<lambda>i. 32 * i) ` {i. i < length I \<and> is_free (I ! i)}"
  proof (rule set_eqI)
    fix ino :: nat
    have "ino mod 32 = 0 \<longleftrightarrow> (\<exists>q. ino = 32 * q)" by (auto simp: mod_eq_0_iff_dvd dvd_def)
    then show "ino \<in> set fl \<longleftrightarrow> ino \<in> (\<lambda>i. 32 * i) ` {i. i < length I \<and> is_free (I ! i)}"
      unfolding freelist_mem[OF assms] by auto
  qed
  moreover have "inj_on (\<lambda>i. 32 * i) {i. i < length I \<and> is_free (I ! i)}" by (simp add: inj_on_def)
  ultimately have "card (set fl) = card {i. i < length I \<and> is_free (I ! i)}" by (simp add: card_image)
  moreover have "distinct fl" using assms by (simp add: freelist_ok_def)
  ultimately show ?thesis by (simp add: distinct_card)
qed

lemma capacity:
  assumes "entries_ok I B U fl cnt"
  shows "card (dom (kv_of I B)) + length fl = length I"
proof -
  note ok = entries_okD[OF assms]
  let ?L = "{i. live I i}" and ?F = "{i. i < length I \<and> is_free (I ! i)}"
  have "inj_on (\<lambda>i. i_key (I ! i)) ?L" using ok(4) by (auto simp: inj_on_def keys_distinct_def live_def)
  then have "card (dom (kv_of I B)) = card ?L" using dom_kv_of[OF ok(1) ok(4)] by (simp add: card_image)
  moreover have "card ?L + card ?F = card (?L \<union> ?F)" by (rule card_Un_disjoint[symmetric]) (auto simp: live_def)
  moreover have "?L \<union> ?F = {..<length I}" by (auto simp: live_def)
  ultimately show ?thesis using freelist_length[OF ok(3)] by simp
qed

lemma live_list_card:
  assumes "entries_ok I B U fl cnt"
  shows "card (dom (kv_of I B)) = length (live_list I)"
proof -
  note ok = entries_okD[OF assms]
  have "inj_on (\<lambda>i. i_key (I ! i)) {i. live I i}" using ok(4) by (auto simp: inj_on_def keys_distinct_def live_def)
  then have "card (dom (kv_of I B)) = card {i. live I i}" using dom_kv_of[OF ok(1) ok(4)] by (simp add: card_image)
  moreover have "set (live_list I) = {i. live I i}" by (auto simp: live_list_def live_def)
  moreover have "distinct (live_list I)" by (simp add: live_list_def)
  ultimately show ?thesis by (metis distinct_card)
qed

text \<open>The entries behind the fixed ones are the files, each under the name of its key and once.\<close>

lemma listing_files:
  assumes "entries_ok I B U fl cnt"
  shows "set (map d_name (drop 2 (dir_listing I))) = key_to_str ` dom (kv_of I B)"
    and "length (dir_listing I) = 2 + card (dom (kv_of I B))"
proof -
  note ok = entries_okD[OF assms]
  have "set (live_list I) = {i. live I i}" by (auto simp: live_list_def live_def)
  then show "set (map d_name (drop 2 (dir_listing I))) = key_to_str ` dom (kv_of I B)"
    unfolding dom_kv_of[OF ok(1) ok(4)]
    by (simp add: dir_listing_def dot_dirents_def names_file_dirents image_image)
  show "length (dir_listing I) = 2 + card (dom (kv_of I B))"
    using live_list_card[OF assms] by (simp add: dir_listing_def dot_dirents_def length_file_dirents)
qed

end
