(* ===== verification/Mkkvfs.thy ===== *)
theory Mkkvfs
  imports Kvfs_Util
begin

text \<open>
  \<open>key-value-fs/tools/mkkvfs.c\<close>: the formatter of kvfs. \<open>init_superblock\<close> searches for the number of
  data blocks whose superblock, free bitmap, inode table and data fill the disk; \<open>main\<close> writes the
  sections one after the other through \<open>writebuf\<close>. The search loop and the write loop are
  \<^theory_text>\<open>partial_function (option)\<close>: \<open>None\<close> is a loop that does not end. The system calls
  (\<open>open\<close>, \<open>read\<close>, \<open>ioctl\<close>, \<open>write\<close>) and the results of \<open>getopt\<close> are parameters.
\<close>

section \<open>Definitions\<close>

subsection \<open>Sizes of the sections\<close>

text \<open>\<open>PAD(free_bitmap)\<close> is computed in \<open>off_t\<close>, with C's truncating division;
  \<open>PAD(inode_count * sizeof(struct kvfs_inode))\<close> in \<open>size_t\<close>, modulo \<open>2 ^ 64\<close>.\<close>

definition free_bitmap :: "int \<Rightarrow> int" where
  "free_bitmap blocks = tdiv (blocks + 8 - 1) 8"

definition PAD_off :: "int \<Rightarrow> int" where
  "PAD_off bc = tdiv (bc + int BLOCKSIZE - 1) (int BLOCKSIZE) * int BLOCKSIZE"

definition PAD_inodes :: "int \<Rightarrow> int" where
  "PAD_inodes inode_count = int (PAD 64 (nat ((inode_count * int sizeof_inode) mod 2 ^ 64)))"

definition section_sum :: "int \<Rightarrow> int" where
  "section_sum blocks = wrap_s 64
     (int BLOCKSIZE + blocks * int BLOCKSIZE + PAD_inodes blocks + PAD_off (free_bitmap blocks))"

subsection \<open>The search\<close>

text \<open>One turn of \<open>while (1)\<close>; the result is \<open>(blocks, inode_count)\<close> at the \<open>break\<close>.
  \<open>free_bitmap\<close> and \<open>sum\<close> are functions of \<open>inode_count\<close>.\<close>

partial_function (option) search_loop :: "int \<Rightarrow> int \<Rightarrow> int \<Rightarrow> (int \<times> int) option" where
  "search_loop disksize blocks delta =
     (let inode_count = blocks; sum = section_sum blocks in
      if disksize - sum = 0 then Some (blocks, inode_count)
      else
        (let blocks' = (if sum > disksize then blocks - delta
                        else if sum < disksize then blocks + delta else blocks);
             delta' = (if sum > disksize then tdiv delta 2 else delta)
         in if delta' < 1 then Some (blocks', inode_count)
            else search_loop disksize blocks' delta'))"

definition init_superblock :: "int \<Rightarrow> kvfs_superblock option" where
  "init_superblock disksize =
     (let superblock_size = int BLOCKSIZE;
          blocks = tdiv (tdiv (disksize - superblock_size) (int BLOCKSIZE)) 2;
          delta = tdiv disksize 16
      in case search_loop disksize blocks delta of
           None \<Rightarrow> None
         | Some (blocks, inode_count) \<Rightarrow>
             (let freelist_off = int BLOCKSIZE;
                  inode_off = PAD_off (free_bitmap inode_count) + freelist_off;
                  data_off = PAD_inodes inode_count + inode_off
              in Some \<lparr>magicnum = KVFS_SUPERBLOCK_MAGIC,
                       superblock_size = word_of_nat sizeof_superblock,
                       sb_freelist_off = word_of_int freelist_off,
                       sb_inode_off = word_of_int inode_off,
                       sb_data_off = word_of_int data_off,
                       sb_block_count = word_of_int blocks,
                       sb_flags = 0,
                       fs_size = word_of_int (section_sum inode_count)\<rparr>))"

subsection \<open>Writing\<close>

text \<open>\<open>write(2)\<close> on the device is the parameter \<open>wr\<close>: the number of bytes it reports, or a negative
  number for an error, and the device after it. \<open>Exited\<close> is a call of \<open>exit\<close>.\<close>

datatype 'w progress = Exited int 'w | Running 'w

partial_function (option) writebuf_loop ::
  "('w \<Rightarrow> byte list \<Rightarrow> int \<times> 'w) \<Rightarrow> 'w \<Rightarrow> byte list \<Rightarrow> int \<Rightarrow> 'w progress option" where
  "writebuf_loop wr w buf write_size =
     (if write_size < int (length buf) then
        (let (n, w') = wr w (drop (nat write_size) buf) in
         if n < 0 then Some (Exited 1 w') else writebuf_loop wr w' buf n)
      else Some (Running w))"

definition writebuf :: "('w \<Rightarrow> byte list \<Rightarrow> int \<times> 'w) \<Rightarrow> 'w \<Rightarrow> byte list \<Rightarrow> 'w progress option" where
  "writebuf wr w buf =
     (let (n, w') = wr w buf in
      if n < 0 then Some (Exited 1 w') else writebuf_loop wr w' buf n)"

text \<open>The loops of \<open>main\<close> over the bitmap, the inode table and the data blocks.\<close>

function write_blocks :: "('w \<Rightarrow> byte list \<Rightarrow> int \<times> 'w) \<Rightarrow> 'w \<Rightarrow> byte list \<Rightarrow> nat \<Rightarrow> nat \<Rightarrow> 'w progress option" where
  "write_blocks wr w buf ptr lim =
     (if ptr < lim then
        (case writebuf wr w buf of
           None \<Rightarrow> None
         | Some (Exited c w') \<Rightarrow> Some (Exited c w')
         | Some (Running w') \<Rightarrow> write_blocks wr w' buf (ptr + BLOCKSIZE) lim)
      else Some (Running w))"
  by pat_completeness auto
termination
  by (relation "measure (\<lambda>(wr, w, buf, ptr, lim). lim - ptr)") (auto simp: BLOCKSIZE_def)

function write_inodes :: "('w \<Rightarrow> byte list \<Rightarrow> int \<times> 'w) \<Rightarrow> 'w \<Rightarrow> byte list \<Rightarrow> nat \<Rightarrow> nat \<Rightarrow> 'w progress option" where
  "write_inodes wr w buf ptr lim =
     (if ptr < lim then
        (if ptr mod BLOCKSIZE = 0 then
           (case writebuf wr w buf of
              None \<Rightarrow> None
            | Some (Exited c w') \<Rightarrow> Some (Exited c w')
            | Some (Running w') \<Rightarrow> write_inodes wr w' buf (ptr + sizeof_inode) lim)
         else write_inodes wr w buf (ptr + sizeof_inode) lim)
      else Some (Running w))"
  by pat_completeness auto
termination
  by (relation "measure (\<lambda>(wr, w, buf, ptr, lim). lim - ptr)") (auto simp: sizeof_inode_def)

text \<open>The statement sequence of \<open>main\<close>: stop at an exit.\<close>

definition and_then :: "'w progress option \<Rightarrow> ('w \<Rightarrow> 'w progress option) \<Rightarrow> 'w progress option" where
  "and_then p f = (case p of None \<Rightarrow> None | Some (Exited c w) \<Rightarrow> Some (Exited c w) | Some (Running w) \<Rightarrow> f w)"

definition inode_block :: "byte list" where
  "inode_block = concat (replicate (BLOCKSIZE div sizeof_inode) (encode_inode empty_inode))"

definition write_sections :: "('w \<Rightarrow> byte list \<Rightarrow> int \<times> 'w) \<Rightarrow> 'w \<Rightarrow> kvfs_superblock \<Rightarrow> 'w progress option" where
  "write_sections wr w sblock =
     (let zeroes = replicate BLOCKSIZE 0 in
      and_then (writebuf wr w (encode_superblock sblock @ replicate (BLOCKSIZE - sizeof_superblock) 0))
     (\<lambda>w. and_then (write_blocks wr w zeroes (unat (sb_freelist_off sblock)) (unat (sb_inode_off sblock)))
     (\<lambda>w. and_then (write_inodes wr w inode_block (unat (sb_inode_off sblock)) (unat (sb_data_off sblock)))
     (\<lambda>w. write_blocks wr w zeroes (unat (sb_data_off sblock)) (unat (fs_size sblock))))))"

text \<open>\<open>main\<close> with the results of its system calls: \<open>opts\<close> is what successive calls of \<open>getopt\<close> yield.\<close>

record 'w mkkvfs_env =
  sys_open :: "string \<Rightarrow> int"
  sys_read :: "'w \<Rightarrow> nat \<Rightarrow> int \<times> byte list \<times> 'w"
  sys_fgetc :: int
  sys_rewind :: "'w \<Rightarrow> 'w"
  ioctl_sectorsize :: int
  ioctl_mediasize :: "int \<times> int"
  sys_write :: "'w \<Rightarrow> byte list \<Rightarrow> int \<times> 'w"

fun get_device :: "(char \<times> string) list \<Rightarrow> string option \<Rightarrow> string option option" where
  "get_device [] device = Some device"
| "get_device ((ch, optarg) # opts) device =
     (if ch = CHR ''f'' then
        (if CHR ''/'' \<in> set optarg then get_device opts (Some optarg) else None)
      else None)"

definition mkkvfs_main :: "'w mkkvfs_env \<Rightarrow> (char \<times> string) list \<Rightarrow> 'w \<Rightarrow> 'w progress option" where
  "mkkvfs_main env opts w =
     (case get_device opts None of
        None \<Rightarrow> Some (Exited 1 w)
      | Some None \<Rightarrow> Some (Exited 1 w)
      | Some (Some device) \<Rightarrow>
          if sys_open env device < 0 then Some (Exited 1 w)
          else
            (let (bytes_read, readbuf, w) = sys_read env w 4096 in
             if bytes_read < 0 then Some (Exited 1 w)
             else
               (let check = decode_superblock (take sizeof_superblock readbuf); c = sys_fgetc env in
                if magicnum check = KVFS_SUPERBLOCK_MAGIC \<and> \<not> (c = 89 \<or> c = 121) then Some (Exited 0 w)
                else
                  (let w = sys_rewind env w; (error, media_size) = ioctl_mediasize env in
                   if ioctl_sectorsize env \<noteq> 0 then Some (Exited 1 w)
                   else if error \<noteq> 0 then Some (Exited 1 w)
                   else
                     (case init_superblock media_size of
                        None \<Rightarrow> None
                      | Some sblock \<Rightarrow>
                          and_then (write_sections (sys_write env) w sblock) (\<lambda>w. Some (Exited 0 w)))))))"

declare write_blocks.simps [simp del] write_inodes.simps [simp del]

section \<open>The search terminates at the best block count\<close>

text \<open>The space \<open>n\<close> data blocks need, without machine arithmetic.\<close>

definition kvfs_total :: "int \<Rightarrow> int" where
  "kvfs_total n = 4096 + n * 4096 + (n * 32 + 4095) div 4096 * 4096 + tdiv (tdiv (n + 7) 8 + 4095) 4096 * 4096"

lemma tdiv_pos_div: "0 < b \<Longrightarrow> tdiv a b = (if 0 \<le> a then a div b else - ((- a) div b))"
  by (auto simp: tdiv_def sgn_if)

lemma tdiv_mono:
  assumes b: "0 < b" and le: "a \<le> a'"
  shows "tdiv a b \<le> tdiv a' b"
proof (cases "0 \<le> a")
  case True
  with assms show ?thesis by (simp add: tdiv_pos_div zdiv_mono1)
next
  case neg: False
  show ?thesis
  proof (cases "0 \<le> a'")
    case True
    have "0 \<le> (- a) div b" "0 \<le> a' div b" using b neg True by (simp_all add: pos_imp_zdiv_nonneg_iff)
    with b neg True show ?thesis by (simp add: tdiv_pos_div)
  next
    case False
    have "(- a') div b \<le> (- a) div b" using b le by (intro zdiv_mono1) auto
    with b neg False show ?thesis by (simp add: tdiv_pos_div)
  qed
qed

lemma kvfs_total_mono: "a < b \<Longrightarrow> kvfs_total a + 4096 \<le> kvfs_total b"
proof -
  assume "a < b"
  then have "(a * 32 + 4095) div 4096 * 4096 \<le> (b * 32 + 4095) div 4096 * 4096"
    by (intro mult_right_mono zdiv_mono1) auto
  moreover have "tdiv (tdiv (a + 7) 8 + 4095) 4096 * 4096 \<le> tdiv (tdiv (b + 7) 8 + 4095) 4096 * 4096"
    using \<open>a < b\<close> by (intro mult_right_mono tdiv_mono add_right_mono) auto
  ultimately show ?thesis using \<open>a < b\<close> by (simp add: kvfs_total_def)
qed

lemma int_CEIL: "0 \<le> u \<Longrightarrow> 0 < b \<Longrightarrow> int (CEIL w (nat u) b) = (u + int b - 1) mod 2 ^ w div int b"
  by (simp add: CEIL_def zdiv_int zmod_int of_nat_diff)

lemma mod_div_commute: "0 < a \<Longrightarrow> 0 < b \<Longrightarrow> y mod (a * b) div a = y div a mod (b :: int)"
  by (simp add: zmod_zmult2_eq)

lemma PAD_inodes_eq: "PAD_inodes n = ((n * 32 + 4095) div 4096 mod 2 ^ 52) * 4096"
proof -
  define u where "u = n * 32 mod 2 ^ 64"
  define q where "q = (n * 32 + 4095) div 4096"
  have p: "(2 :: int) ^ 64 = 4096 * 2 ^ 52" by simp
  have u: "0 \<le> u" by (simp add: u_def)
  have "int (CEIL 64 (nat u) 4096) = (u + 4095) mod 2 ^ 64 div 4096"
  proof -
    have "u + int 4096 - 1 = u + 4095" by simp
    then show ?thesis using int_CEIL[OF u, of 4096 64] by (simp only: of_nat_numeral zero_less_numeral)
  qed
  also have "(u + 4095) mod 2 ^ 64 = (n * 32 + 4095) mod (4096 * 2 ^ 52)"
    unfolding u_def p by (rule mod_add_left_eq)
  also have "(n * 32 + 4095) mod (4096 * 2 ^ 52) div 4096 = q mod 2 ^ 52"
    unfolding q_def by (rule mod_div_commute) simp_all
  finally have c: "int (CEIL 64 (nat u) 4096) = q mod 2 ^ 52" .
  have "q mod 2 ^ 52 < 2 ^ 52" "0 \<le> q mod 2 ^ 52" by simp_all
  then have "q mod 2 ^ 52 * 4096 mod 2 ^ 64 = q mod 2 ^ 52 * 4096"
    unfolding p by (intro mod_pos_pos_trivial) linarith+
  moreover have "PAD_inodes n = int (CEIL 64 (nat u) 4096) * 4096 mod 2 ^ 64"
    unfolding PAD_inodes_def PAD_def BLOCKSIZE_def sizeof_inode_def u_def
    by (simp only: zmod_int of_nat_mult of_nat_power of_nat_numeral)
  ultimately show ?thesis using c q_def by simp
qed

lemma section_sum_eq:
  assumes "- (2 ^ 63) \<le> kvfs_total n" "kvfs_total n < 2 ^ 63"
  shows "section_sum n = kvfs_total n"
proof -
  let ?q = "(n * 32 + 4095) div 4096"
  have "?q mod 2 ^ 52 * 4096 = ?q * 4096 - ?q div 2 ^ 52 * 2 ^ 64"
    by (simp add: algebra_simps flip: minus_mult_div_eq_mod)
  then have "int BLOCKSIZE + n * int BLOCKSIZE + PAD_inodes n + PAD_off (free_bitmap n) =
      kvfs_total n + (- (?q div 2 ^ 52)) * 2 ^ 64"
    by (simp add: PAD_inodes_eq kvfs_total_def PAD_off_def free_bitmap_def BLOCKSIZE_def algebra_simps)
  moreover have "wrap_s 64 (t + k * 2 ^ 64) = wrap_s 64 t" for t k
    by (simp add: wrap_s_def)
  ultimately have "section_sum n = wrap_s 64 (kvfs_total n)" by (simp only: section_sum_def)
  with assms show ?thesis by (simp add: wrap_s_id)
qed

lemma kvfs_total_bounds:
  assumes "- (2 ^ 50) \<le> n" "n \<le> 2 ^ 50"
  shows "- (2 ^ 63) \<le> kvfs_total n" "kvfs_total n < 2 ^ 63"
proof -
  have "kvfs_total n \<le> kvfs_total (2 ^ 50)" "kvfs_total (- (2 ^ 50)) \<le> kvfs_total n"
    using assms kvfs_total_mono[of n "2 ^ 50"] kvfs_total_mono[of "- (2 ^ 50)" n] by (auto simp: le_less)
  moreover have "kvfs_total (2 ^ 50) < 2 ^ 63" "- (2 ^ 63) \<le> kvfs_total (- (2 ^ 50))"
    by (simp_all add: kvfs_total_def tdiv_pos_div)
  ultimately show "- (2 ^ 63) \<le> kvfs_total n" "kvfs_total n < 2 ^ 63" by linarith+
qed

text \<open>The loop ends, either at a block count that fills the disk exactly, or one below the first
  block count that does not fit any more. The invariant: the current guess, or the guess a step
  below it, needs less than the disk.\<close>

lemma search_loop_result:
  assumes "0 < d" "d \<le> 2 ^ 49" "disk \<le> 2 ^ 53" "L \<le> b" "- (2 ^ 49) \<le> L" "b \<le> 2 ^ 50"
    "kvfs_total b < disk \<or> L \<le> b - d \<and> kvfs_total (b - d) < disk"
  shows "\<exists>b' n. search_loop disk b d = Some (b', n) \<and>
    (kvfs_total n = disk \<and> b' = n \<or> kvfs_total (n - 1) < disk \<and> disk < kvfs_total n \<and> b' = n - 1)"
  using assms
proof (induction "(d, b)" arbitrary: b d
    rule: wf_induct_rule[OF wf_measures[of "[\<lambda>(d, b). nat d, \<lambda>(d, b). nat (2 ^ 50 - b)]"]])
  case less: (1 b d)
  have sum: "section_sum b = kvfs_total b"
    using less.prems by (intro section_sum_eq kvfs_total_bounds) auto
  consider "kvfs_total b = disk" | "disk < kvfs_total b" | "kvfs_total b < disk" by linarith
  then show ?case
  proof cases
    case 1
    then show ?thesis by (simp add: search_loop.simps[of disk b d] sum)
  next
    case over: 2
    then have below: "L \<le> b - d" "kvfs_total (b - d) < disk" using less.prems by auto
    have half: "tdiv d 2 = d div 2" using less.prems by (simp add: tdiv_nonneg)
    show ?thesis
    proof (cases "d = 1")
      case True
      with over below half show ?thesis by (simp add: search_loop.simps[of disk b 1] sum Let_def)
    next
      case False
      then have d2: "0 < d div 2" "d div 2 < d" using less.prems by auto
      have "search_loop disk b d = search_loop disk (b - d) (d div 2)"
        using over half d2 by (simp add: search_loop.simps[of disk b d] sum Let_def)
      moreover have "\<exists>b' n. search_loop disk (b - d) (d div 2) = Some (b', n) \<and>
        (kvfs_total n = disk \<and> b' = n \<or> kvfs_total (n - 1) < disk \<and> disk < kvfs_total n \<and> b' = n - 1)"
        by (rule less.hyps) (use d2 below less.prems in simp_all)
      ultimately show ?thesis by simp
    qed
  next
    case under: 3
    have step: "search_loop disk b d = search_loop disk (b + d) d"
      using under less.prems by (simp add: search_loop.simps[of disk b d] sum Let_def)
    have "b \<le> 2 ^ 41"
    proof (rule ccontr)
      assume "\<not> b \<le> 2 ^ 41"
      then have "kvfs_total (2 ^ 41) < kvfs_total b" using kvfs_total_mono[of "2 ^ 41" b] by simp
      moreover have "2 ^ 53 \<le> kvfs_total (2 ^ 41)" by (simp add: kvfs_total_def tdiv_pos_div)
      ultimately show False using under less.prems by linarith
    qed
    then have "b + d \<le> 2 ^ 50" using less.prems by simp
    then have "\<exists>b' n. search_loop disk (b + d) d = Some (b', n) \<and>
        (kvfs_total n = disk \<and> b' = n \<or> kvfs_total (n - 1) < disk \<and> disk < kvfs_total n \<and> b' = n - 1)"
      by (intro less.hyps) (use under less.prems in simp_all)
    with step show ?thesis by simp
  qed
qed

lemma initial_guess_small:
  assumes "4096 \<le> disk"
  shows "tdiv (tdiv (disk - 4096) 4096) 2 - tdiv disk 16 < 0" "0 \<le> tdiv (tdiv (disk - 4096) 4096) 2"
    "tdiv disk 16 \<le> disk div 16" "0 < tdiv disk 16"
proof -
  have 1: "tdiv (tdiv (disk - 4096) 4096) 2 = (disk - 4096) div 8192"
    using assms by (simp add: tdiv_nonneg pos_imp_zdiv_nonneg_iff zdiv_zmult2_eq[symmetric])
  have 2: "tdiv disk 16 = disk div 16" using assms by (simp add: tdiv_nonneg)
  show "tdiv (tdiv (disk - 4096) 4096) 2 - tdiv disk 16 < 0" "0 \<le> tdiv (tdiv (disk - 4096) 4096) 2"
    "tdiv disk 16 \<le> disk div 16" "0 < tdiv disk 16"
    using assms unfolding 1 2 by (auto simp: pos_imp_zdiv_nonneg_iff)
qed

lemma search_from_start:
  assumes "4096 \<le> disk" "disk \<le> 2 ^ 53"
  shows "\<exists>b n. search_loop disk (tdiv (tdiv (disk - 4096) 4096) 2) (tdiv disk 16) = Some (b, n) \<and>
    (kvfs_total n = disk \<and> b = n \<or> kvfs_total (n - 1) < disk \<and> disk < kvfs_total n \<and> b = n - 1)"
proof -
  define b d where "b = tdiv (tdiv (disk - 4096) 4096) 2" and "d = tdiv disk 16"
  have i: "b - d < 0" "0 \<le> b" "0 < d" "d \<le> disk div 16"
    using initial_guess_small[OF assms(1)] by (simp_all add: b_def d_def)
  have "disk div 16 \<le> 2 ^ 53 div 16" using assms by (intro zdiv_mono1) auto
  then have d: "d \<le> 2 ^ 49" using i by simp
  have "kvfs_total (b - d) + 4096 \<le> kvfs_total 0" using i(1) by (rule kvfs_total_mono)
  then have "kvfs_total (b - d) < disk" using assms by (simp add: kvfs_total_def tdiv_def)
  then have "\<exists>b' n. search_loop disk b d = Some (b', n) \<and>
    (kvfs_total n = disk \<and> b' = n \<or> kvfs_total (n - 1) < disk \<and> disk < kvfs_total n \<and> b' = n - 1)"
    using i d assms by (intro search_loop_result[where L = "b - d"]) simp_all
  then show ?thesis by (simp add: b_def d_def)
qed

section \<open>The superblock\<close>

lemma kvfs_total_0: "kvfs_total 0 = 4096"
  by (simp add: kvfs_total_def tdiv_pos_div)

lemma kvfs_total_le_iff: "kvfs_total a \<le> kvfs_total b \<longleftrightarrow> a \<le> b"
  using kvfs_total_mono[of a b] kvfs_total_mono[of b a] by (cases a b rule: linorder_cases) auto

lemma kvfs_total_ge: "0 \<le> n \<Longrightarrow> 4096 + n * 4096 \<le> kvfs_total n"
  by (simp add: kvfs_total_def tdiv_nonneg pos_imp_zdiv_nonneg_iff)

lemma kvfs_total_nonneg_eq: "0 \<le> n \<Longrightarrow> kvfs_total n =
    4096 + n * 4096 + (n * 32 + 4095) div 4096 * 4096 + ((n + 7) div 8 + 4095) div 4096 * 4096"
  by (simp add: kvfs_total_def tdiv_nonneg pos_imp_zdiv_nonneg_iff)

lemma PAD_off_bitmap: "0 \<le> n \<Longrightarrow> PAD_off (free_bitmap n) = ((n + 7) div 8 + 4095) div 4096 * 4096"
  by (simp add: PAD_off_def free_bitmap_def BLOCKSIZE_def tdiv_nonneg pos_imp_zdiv_nonneg_iff)

lemma PAD_inodes_small: "0 \<le> n \<Longrightarrow> n \<le> 2 ^ 50 \<Longrightarrow> PAD_inodes n = (n * 32 + 4095) div 4096 * 4096"
proof -
  assume n: "0 \<le> n" "n \<le> 2 ^ 50"
  then have "0 \<le> (n * 32 + 4095) div 4096" "(n * 32 + 4095) div 4096 < 2 ^ 52"
    by (auto simp: pos_imp_zdiv_nonneg_iff)
  then show ?thesis by (simp only: PAD_inodes_eq mod_pos_pos_trivial)
qed

text \<open>What \<open>init_superblock\<close> stores, for every disk up to the supported 4 TiB: \<open>n\<close> is the inode count
  the sections are sized for, \<open>b\<close> the stored block count.\<close>

lemma init_superblock_fields:
  assumes "4096 \<le> disk" "disk \<le> 2 ^ 42"
  shows "\<exists>sb b n. init_superblock disk = Some sb \<and> 0 \<le> b \<and> b \<le> n \<and> n \<le> b + 1 \<and> b < 2 ^ 30 \<and>
    (kvfs_total n = disk \<and> b = n \<or> kvfs_total b < disk \<and> disk < kvfs_total n \<and> n = b + 1) \<and>
    magicnum sb = KVFS_SUPERBLOCK_MAGIC \<and> sb_flags sb = 0 \<and>
    uint (sb_block_count sb) = b \<and> uint (sb_freelist_off sb) = 4096 \<and>
    uint (sb_inode_off sb) = 4096 + ((n + 7) div 8 + 4095) div 4096 * 4096 \<and>
    uint (sb_data_off sb) = uint (sb_inode_off sb) + (n * 32 + 4095) div 4096 * 4096 \<and>
    uint (fs_size sb) = kvfs_total n"
proof -
  obtain b n where l: "search_loop disk (tdiv (tdiv (disk - 4096) 4096) 2) (tdiv disk 16) = Some (b, n)"
    and c: "kvfs_total n = disk \<and> b = n \<or> kvfs_total (n - 1) < disk \<and> disk < kvfs_total n \<and> b = n - 1"
    using search_from_start[of disk] assms by auto
  have n: "0 \<le> n" using c assms kvfs_total_le_iff[of 0 n] kvfs_total_0 by auto
  have b: "0 \<le> b"
  proof (cases "b = n")
    case False
    then have "kvfs_total 0 < kvfs_total n" using c assms kvfs_total_0 by auto
    then have "0 < n" using kvfs_total_le_iff[of n 0] by linarith
    with c False show ?thesis by auto
  qed (use n in simp)
  have "kvfs_total b \<le> disk" using c by auto
  then have b30: "b < 2 ^ 30" using kvfs_total_ge[OF b] assms by simp
  have bn: "b \<le> n" "n \<le> b + 1" using c by auto
  then have n30: "n \<le> 2 ^ 30" using b30 by simp
  define bm it where "bm = ((n + 7) div 8 + 4095) div 4096 * 4096" and "it = (n * 32 + 4095) div 4096 * 4096"
  have bm: "0 \<le> bm" "bm \<le> 2 ^ 40" using n n30 by (auto simp: bm_def pos_imp_zdiv_nonneg_iff)
  have it: "0 \<le> it" "it \<le> 2 ^ 40" using n n30 by (auto simp: it_def pos_imp_zdiv_nonneg_iff)
  have pads: "PAD_off (free_bitmap n) = bm" "PAD_inodes n = it"
    using n n30 by (simp_all add: bm_def it_def PAD_off_bitmap PAD_inodes_small)
  have tot: "0 \<le> kvfs_total n" "kvfs_total n < 2 ^ 63"
    using kvfs_total_bounds[of n] n n30 kvfs_total_ge[OF n] by auto
  then have sum: "section_sum n = kvfs_total n" by (simp add: section_sum_eq)
  have m64: "0 \<le> x \<Longrightarrow> x < 2 ^ 63 \<Longrightarrow> uint (word_of_int x :: 64 word) = x" for x
    by (simp add: uint_word_of_int)
  have b32: "uint (word_of_int b :: 32 word) = b" using b b30 by (simp add: uint_word_of_int)
  let ?sb = "\<lparr>magicnum = KVFS_SUPERBLOCK_MAGIC, superblock_size = word_of_nat sizeof_superblock,
    sb_freelist_off = word_of_int 4096, sb_inode_off = word_of_int (bm + 4096),
    sb_data_off = word_of_int (it + (bm + 4096)), sb_block_count = word_of_int b,
    sb_flags = 0, fs_size = word_of_int (kvfs_total n)\<rparr>"
  have sb: "init_superblock disk = Some ?sb"
    by (simp only: init_superblock_def BLOCKSIZE_def Let_def pads sum l of_nat_numeral option.case prod.case)
  have f: "uint (word_of_int (bm + 4096) :: 64 word) = 4096 + bm"
    "uint (word_of_int (it + (bm + 4096)) :: 64 word) = 4096 + bm + it"
    "uint (word_of_int (kvfs_total n) :: 64 word) = kvfs_total n"
    "uint (word_of_int 4096 :: 64 word) = 4096"
    using m64[of "bm + 4096"] m64[of "it + (bm + 4096)"] m64[OF tot] bm it by simp_all
  have cases: "kvfs_total n = disk \<and> b = n \<or> kvfs_total b < disk \<and> disk < kvfs_total n \<and> n = b + 1"
    using c by auto
  show ?thesis
    by (rule exI[of _ ?sb], rule exI[of _ b], rule exI[of _ n])
      (simp only: sb b bn b30 cases kvfs_superblock.select_convs b32 f simp_thms flip: bm_def it_def)
qed

section \<open>Writing the sections\<close>

text \<open>The contract of \<open>write(2)\<close> on a disk device of \<open>cap\<close> bytes that the formatter relies on: a write
  that ends within the device is complete, advances the offset and changes nothing else.\<close>

definition seq_device :: "('w \<Rightarrow> byte list \<Rightarrow> int \<times> 'w) \<Rightarrow> ('w \<Rightarrow> image) \<Rightarrow> ('w \<Rightarrow> nat) \<Rightarrow> ('w \<Rightarrow> nat) \<Rightarrow> bool" where
  "seq_device wr img pos cap \<longleftrightarrow>
     (\<forall>w bs. pos w + length bs \<le> cap w \<longrightarrow>
        fst (wr w bs) = int (length bs) \<and> img (snd (wr w bs)) = poke (img w) (pos w) bs \<and>
        pos (snd (wr w bs)) = pos w + length bs \<and> cap (snd (wr w bs)) = cap w)"

lemma writebuf_ok:
  assumes "seq_device wr img pos cap" "pos w + length buf \<le> cap w"
  shows "\<exists>w'. writebuf wr w buf = Some (Running w') \<and> img w' = poke (img w) (pos w) buf \<and>
    pos w' = pos w + length buf \<and> cap w' = cap w"
proof -
  obtain n w' where wr: "wr w buf = (n, w')" by fastforce
  with assms have "n = int (length buf)" "img w' = poke (img w) (pos w) buf"
    "pos w' = pos w + length buf" "cap w' = cap w"
    unfolding seq_device_def by (metis fst_conv snd_conv)+
  with wr show ?thesis by (simp add: writebuf_def writebuf_loop.simps)
qed

lemma mod_block: "p \<le> i \<Longrightarrow> i < p + 4096 \<Longrightarrow> 4096 dvd p \<Longrightarrow> i mod 4096 = i - (p :: nat)"
proof -
  assume a: "p \<le> i" "i < p + 4096" "4096 dvd p"
  then obtain q where p: "p = 4096 * q" by (auto elim: dvdE)
  have "i = 4096 * q + (i - p)" using a p by simp
  then have "i mod 4096 = (4096 * q + (i - p)) mod 4096" by simp
  also have "\<dots> = (i - p) mod 4096" by (rule mod_mult_self4)
  also have "\<dots> = i - p" using a by (intro mod_less) simp
  finally show ?thesis .
qed

lemma round_up_inode:
  assumes "32 dvd ptr" "ptr mod 4096 \<noteq> 0"
  shows "(ptr + 32 + 4095) div 4096 = (ptr + 4095) div (4096 :: nat)"
proof -
  have "ptr mod 4096 mod 32 = 0" using assms(1) by (simp add: mod_mod_cancel)
  then obtain r where r: "ptr mod 4096 = 32 * r" by auto
  define q where "q = ptr div 4096"
  have "32 * r < 4096" using mod_less_divisor[of 4096 ptr] r by simp
  then have r1: "0 < r" "r < 128" using assms(2) r by simp_all
  have p: "ptr = 4096 * q + 32 * r" unfolding q_def r[symmetric] by simp
  have d: "(4096 * q + x) div 4096 = q + 1" if "4096 \<le> x" "x < 8192" for x :: nat
  proof -
    have "(4096 * q + x) div 4096 = q + x div 4096" by (simp add: div_mult_self4)
    also have "x div 4096 = 1" using that by (simp add: div_nat_eqI)
    finally show ?thesis .
  qed
  have "ptr + 32 + 4095 = 4096 * q + (32 * r + 4127)" "ptr + 4095 = 4096 * q + (32 * r + 4095)"
    unfolding p by simp_all
  then show ?thesis using d[of "32 * r + 4127"] d[of "32 * r + 4095"] r1 by (simp only:)
qed
lemma write_blocks_ok:
  assumes "seq_device wr img pos cap" "length buf = 4096" "4096 dvd lim" "4096 dvd ptr"
    "pos w = ptr" "ptr \<le> lim" "lim \<le> cap w"
  shows "\<exists>w'. write_blocks wr w buf ptr lim = Some (Running w') \<and> pos w' = lim \<and> cap w' = cap w \<and>
    img w' = (\<lambda>i. if ptr \<le> i \<and> i < lim then buf ! (i mod 4096) else img w i)"
  using assms
proof (induction wr w buf ptr lim rule: write_blocks.induct)
  case (1 wr w buf ptr lim)
  show ?case
  proof (cases "ptr < lim")
    case False
    then have "ptr = lim" using "1.prems" by simp
    moreover have "img w = (\<lambda>i. if lim \<le> i \<and> i < lim then buf ! (i mod 4096) else img w i)"
      by (rule ext) auto
    ultimately show ?thesis using "1.prems" by (simp add: write_blocks.simps[of wr w buf lim lim])
  next
    case True
    then have fit: "ptr + 4096 \<le> lim" using "1.prems"(3,4) by (auto elim!: dvdE)
    obtain w1 where w1: "writebuf wr w buf = Some (Running w1)" "img w1 = poke (img w) ptr buf"
      "pos w1 = ptr + 4096" "cap w1 = cap w"
      using writebuf_ok[OF "1.prems"(1), of w buf] fit "1.prems" by auto
    have "\<exists>w'. write_blocks wr w1 buf (ptr + BLOCKSIZE) lim = Some (Running w') \<and> pos w' = lim \<and>
      cap w' = cap w1 \<and>
      img w' = (\<lambda>i. if ptr + BLOCKSIZE \<le> i \<and> i < lim then buf ! (i mod 4096) else img w1 i)"
      by (rule "1.IH"[OF True w1(1) refl]) (use "1.prems" w1 fit in \<open>auto simp: BLOCKSIZE_def\<close>)
    then obtain w' where w': "write_blocks wr w1 buf (ptr + BLOCKSIZE) lim = Some (Running w')"
      "pos w' = lim" "cap w' = cap w"
      "img w' = (\<lambda>i. if ptr + 4096 \<le> i \<and> i < lim then buf ! (i mod 4096) else img w1 i)"
      using w1 by (auto simp: BLOCKSIZE_def)
    have "i mod 4096 = i - ptr" if "ptr \<le> i" "i < ptr + 4096" for i
      using that "1.prems"(4) by (intro mod_block)
    then have "img w' = (\<lambda>i. if ptr \<le> i \<and> i < lim then buf ! (i mod 4096) else img w i)"
      using fit "1.prems"(2) by (auto simp: w' w1 poke_apply)
    with w' w1 True show ?thesis by (simp add: write_blocks.simps[of wr w buf ptr lim])
  qed
qed

text \<open>The inode loop steps by 32 bytes and writes at each block boundary: it writes the same blocks.\<close>

lemma write_inodes_eq:
  assumes "32 dvd ptr" "4096 dvd lim"
  shows "write_inodes wr w buf ptr lim = write_blocks wr w buf ((ptr + 4095) div 4096 * 4096) lim"
  using assms
proof (induction wr w buf ptr lim rule: write_inodes.induct)
  case (1 wr w buf ptr lim)
  note inode_step = write_inodes.simps[of wr w buf ptr lim]
  show ?case
  proof (cases "ptr < lim")
    case False
    then have "\<not> (ptr + 4095) div 4096 * 4096 < lim" by simp
    with False show ?thesis by (simp add: inode_step write_blocks.simps)
  next
    case lt: True
    show ?thesis
    proof (cases "ptr mod 4096 = 0")
      case True
      then have r: "(ptr + 4095) div 4096 * 4096 = ptr" "(ptr + 32 + 4095) div 4096 * 4096 = ptr + 4096"
        by auto
      have "write_inodes wr w' buf (ptr + 32) lim = write_blocks wr w' buf (ptr + 4096) lim"
        if "writebuf wr w buf = Some (Running w')" for w'
        using "1.IH"(1)[OF lt _ that refl] True "1.prems" r by (simp add: BLOCKSIZE_def sizeof_inode_def)
      with lt True r show ?thesis
        by (auto simp: inode_step write_blocks.simps[of wr w buf ptr lim] BLOCKSIZE_def sizeof_inode_def
            split: option.splits progress.splits)
    next
      case False
      then have "(ptr + 32 + 4095) div 4096 = (ptr + 4095) div 4096"
        using "1.prems"(1) by (intro round_up_inode) simp_all
      with "1.IH"(2)[OF lt] False "1.prems" lt show ?thesis
        by (simp add: inode_step BLOCKSIZE_def sizeof_inode_def)
    qed
  qed
qed

text \<open>What a freshly formatted disk holds. The block count of the superblock bounds the inodes and data
  blocks that are in use later.\<close>

definition formatted :: "kvfs_superblock \<Rightarrow> image \<Rightarrow> bool" where
  "formatted sb m \<longleftrightarrow>
     peek m 0 sizeof_superblock = encode_superblock sb \<and>
     (\<forall>i. unat (sb_freelist_off sb) \<le> i \<and> i < unat (sb_inode_off sb) \<longrightarrow> m i = 0) \<and>
     (\<forall>k. unat (sb_inode_off sb) + k * 32 + 32 \<le> unat (sb_data_off sb) \<longrightarrow>
        peek m (unat (sb_inode_off sb) + k * 32) 32 = encode_inode empty_inode) \<and>
     (\<forall>i. unat (sb_data_off sb) \<le> i \<and> i < unat (fs_size sb) \<longrightarrow> m i = 0)"

lemma length_inode_block: "length inode_block = 4096"
  by (simp add: inode_block_def BLOCKSIZE_def sizeof_inode_def length_concat sum_list_replicate)

lemma inode_block_nth:
  assumes "i < 4096"
  shows "inode_block ! i = encode_inode empty_inode ! (i mod 32)"
proof -
  have "concat (replicate k xs) ! j = xs ! (j mod 32)" if "length xs = 32" "j < k * 32" for k j and xs :: "byte list"
    using that
  proof (induction k arbitrary: j)
    case (Suc k)
    show ?case
    proof (cases "j < 32")
      case False
      then have "j mod 32 = (j - 32) mod 32" by (simp add: le_mod_geq)
      with Suc False show ?thesis by (simp add: nth_append)
    qed (use Suc in \<open>simp add: nth_append\<close>)
  qed simp
  from this[of "encode_inode empty_inode" i 128] assms show ?thesis
    by (simp add: inode_block_def BLOCKSIZE_def sizeof_inode_def)
qed

lemma write_sections_ok:
  assumes dev: "seq_device wr img pos cap" and start: "pos w = 0"
    and lay: "unat (sb_freelist_off sb) = 4096" "4096 dvd unat (sb_inode_off sb)" "4096 dvd unat (sb_data_off sb)"
      "4096 dvd unat (fs_size sb)" "4096 \<le> unat (sb_inode_off sb)"
      "unat (sb_inode_off sb) \<le> unat (sb_data_off sb)" "unat (sb_data_off sb) \<le> unat (fs_size sb)"
    and fits: "unat (fs_size sb) \<le> cap w"
  shows "\<exists>w'. write_sections wr w sb = Some (Running w') \<and> formatted sb (img w') \<and> cap w' = cap w"
proof -
  define io dof fe where "io = unat (sb_inode_off sb)" and "dof = unat (sb_data_off sb)" and "fe = unat (fs_size sb)"
  have l: "4096 dvd io" "4096 dvd dof" "4096 dvd fe" "4096 \<le> io" "io \<le> dof" "dof \<le> fe" "fe \<le> cap w"
    using lay fits by (simp_all add: io_def dof_def fe_def)
  let ?sbb = "encode_superblock sb @ replicate (BLOCKSIZE - sizeof_superblock) (0 :: byte)"
  let ?z = "replicate BLOCKSIZE (0 :: byte)"
  have len: "length ?sbb = 4096" "length ?z = 4096" by (simp_all add: const_defs)
  obtain w1 where w1: "writebuf wr w ?sbb = Some (Running w1)" "img w1 = poke (img w) 0 ?sbb"
    "pos w1 = 4096" "cap w1 = cap w"
    using writebuf_ok[OF dev, of w ?sbb] len l start by (auto simp del: length_append)
  obtain w2 where w2: "write_blocks wr w1 ?z 4096 io = Some (Running w2)" "pos w2 = io" "cap w2 = cap w"
    "img w2 = (\<lambda>i. if 4096 \<le> i \<and> i < io then ?z ! (i mod 4096) else img w1 i)"
    using write_blocks_ok[OF dev len(2), of io 4096 w1] w1 l by auto
  have "(io + 4095) div 4096 * 4096 = io" using l(1) by (auto elim!: dvdE)
  moreover have "32 dvd io" using l(1) by (rule dvd_trans[rotated]) simp
  ultimately have "write_inodes wr w2 inode_block io dof = write_blocks wr w2 inode_block io dof"
    using l by (simp add: write_inodes_eq)
  then obtain w3 where w3: "write_inodes wr w2 inode_block io dof = Some (Running w3)" "pos w3 = dof" "cap w3 = cap w"
    "img w3 = (\<lambda>i. if io \<le> i \<and> i < dof then inode_block ! (i mod 4096) else img w2 i)"
    using write_blocks_ok[OF dev length_inode_block, of dof io w2] w2 l by auto
  obtain w4 where w4: "write_blocks wr w3 ?z dof fe = Some (Running w4)" "cap w4 = cap w"
    "img w4 = (\<lambda>i. if dof \<le> i \<and> i < fe then ?z ! (i mod 4096) else img w3 i)"
    using write_blocks_ok[OF dev len(2), of fe dof w3] w3 l by auto
  have "write_sections wr w sb = Some (Running w4)"
    using w1(1) w2(1) w3(1) w4(1) lay(1)
    by (simp add: write_sections_def and_then_def io_def dof_def fe_def)
  moreover have "formatted sb (img w4)"
    unfolding formatted_def lay(1) io_def[symmetric] dof_def[symmetric] fe_def[symmetric]
  proof (intro conjI allI impI)
    show "peek (img w4) 0 sizeof_superblock = encode_superblock sb"
      using l by (intro nth_equalityI)
        (auto simp: w4 w3 w2 w1 poke_apply nth_append sizeof_superblock_def BLOCKSIZE_def)
  next
    fix i assume "4096 \<le> i \<and> i < io"
    then show "img w4 i = 0" using l by (simp add: w4 w3 w2 BLOCKSIZE_def)
  next
    fix k assume k: "io + k * 32 + 32 \<le> dof"
    have "(io + k * 32 + j) mod 4096 mod 32 = j" if "j < 32" for j
    proof -
      obtain q where "io = 32 * q" using \<open>32 dvd io\<close> by (auto elim: dvdE)
      then have "io + k * 32 + j = 32 * (q + k) + j" by simp
      then have "(io + k * 32 + j) mod 32 = j mod 32" by (simp only: mod_mult_self4)
      then show ?thesis using that by (simp add: mod_mod_cancel)
    qed
    then show "peek (img w4) (io + k * 32) 32 = encode_inode empty_inode"
      using k l by (intro nth_equalityI) (auto simp: w4 w3 inode_block_nth sizeof_inode_def)
  next
    fix i assume "dof \<le> i \<and> i < fe"
    then show "img w4 i = 0" by (simp add: w4 BLOCKSIZE_def)
  qed
  ultimately show ?thesis using w4(2) by blast
qed

section \<open>The layout in natural numbers\<close>

lemma init_superblock_nat:
  assumes "4096 \<le> disk" "disk \<le> 2 ^ 42"
  shows "\<exists>sb n. init_superblock disk = Some sb \<and>
    unat (sb_block_count sb) \<le> n \<and> n \<le> unat (sb_block_count sb) + 1 \<and> unat (sb_block_count sb) < 2 ^ 30 \<and>
    (kvfs_total (int n) = disk \<and> unat (sb_block_count sb) = n \<or>
     kvfs_total (int (unat (sb_block_count sb))) < disk \<and> disk < kvfs_total (int n) \<and> n = unat (sb_block_count sb) + 1) \<and>
    magicnum sb = KVFS_SUPERBLOCK_MAGIC \<and> unat (sb_freelist_off sb) = 4096 \<and>
    unat (sb_inode_off sb) = 4096 + ((n + 7) div 8 + 4095) div 4096 * 4096 \<and>
    unat (sb_data_off sb) = unat (sb_inode_off sb) + (n * 32 + 4095) div 4096 * 4096 \<and>
    unat (fs_size sb) = unat (sb_data_off sb) + n * 4096 \<and> uint (fs_size sb) = kvfs_total (int n)"
proof -
  obtain sb b m where f: "init_superblock disk = Some sb" "0 \<le> b" "b \<le> m" "m \<le> b + 1" "b < 2 ^ 30"
    "kvfs_total m = disk \<and> b = m \<or> kvfs_total b < disk \<and> disk < kvfs_total m \<and> m = b + 1"
    "magicnum sb = KVFS_SUPERBLOCK_MAGIC"
    "uint (sb_block_count sb) = b" "uint (sb_freelist_off sb) = 4096"
    "uint (sb_inode_off sb) = 4096 + ((m + 7) div 8 + 4095) div 4096 * 4096"
    "uint (sb_data_off sb) = uint (sb_inode_off sb) + (m * 32 + 4095) div 4096 * 4096"
    "uint (fs_size sb) = kvfs_total m"
    using init_superblock_fields[OF assms] by blast
  obtain n where n: "m = int n" using f(2,3) by (metis nonneg_int_cases order_trans)
  have u: "uint w = int (unat w)" for w :: "'a::len word" by simp
  note push = of_nat_add of_nat_mult zdiv_int of_nat_numeral
  have "int (unat (sb_inode_off sb)) = int (4096 + ((n + 7) div 8 + 4095) div 4096 * 4096)"
    using f(10) unfolding u n by (simp only: push)
  then have io: "unat (sb_inode_off sb) = 4096 + ((n + 7) div 8 + 4095) div 4096 * 4096"
    by (simp only: of_nat_eq_iff)
  have "int (unat (sb_data_off sb)) = int (unat (sb_inode_off sb) + (n * 32 + 4095) div 4096 * 4096)"
    using f(11) unfolding u n by (simp only: push)
  then have dof: "unat (sb_data_off sb) = unat (sb_inode_off sb) + (n * 32 + 4095) div 4096 * 4096"
    by (simp only: of_nat_eq_iff)
  have "0 \<le> m" using f(2,3) by simp
  then have "kvfs_total m = uint (sb_data_off sb) + m * 4096"
    using f(10,11) kvfs_total_nonneg_eq[of m] by linarith
  then have "int (unat (fs_size sb)) = int (unat (sb_data_off sb) + n * 4096)"
    using f(12) unfolding u n by (simp only: push)
  then have fe: "unat (fs_size sb) = unat (sb_data_off sb) + n * 4096" by (simp only: of_nat_eq_iff)
  have bc: "b = int (unat (sb_block_count sb))" using f(8) by simp
  have "unat (sb_freelist_off sb) = 4096" using f(9) unfolding u by linarith
  moreover have "unat (sb_block_count sb) < 2 ^ 30" using f(5,8) by (simp only: unat_eq_nat_uint) simp
  moreover have "unat (sb_block_count sb) \<le> n" "n \<le> unat (sb_block_count sb) + 1"
    using f(3,4) unfolding n bc by linarith+
  moreover have "kvfs_total (int n) = disk \<and> unat (sb_block_count sb) = n \<or>
      kvfs_total (int (unat (sb_block_count sb))) < disk \<and> disk < kvfs_total (int n) \<and>
      n = unat (sb_block_count sb) + 1"
    using f(6) unfolding n bc by linarith
  moreover have "uint (fs_size sb) = kvfs_total (int n)" using f(12) n by simp
  ultimately show ?thesis using f(1,7) io dof fe by blast
qed

lemma CEIL_32: "n < 2 ^ 31 \<Longrightarrow> CEIL 32 n 8 = (n + 7) div 8"
  by (simp add: CEIL_def)

lemma PAD_bitmap: "n < 2 ^ 31 \<Longrightarrow> PAD 32 (CEIL 32 n 8) = ((n + 7) div 8 + 4095) div 4096 * 4096"
  by (simp add: CEIL_32 PAD_eq)

lemma PAD_inode_table: "n < 2 ^ 32 \<Longrightarrow> PAD 64 (n * 32) = (n * 32 + 4095) div 4096 * 4096"
  by (rule PAD_eq) simp

lemma init_superblock_sections:
  assumes "4096 \<le> disk" and "disk \<le> 2 ^ 42"
  shows "\<exists>sb. init_superblock disk = Some sb \<and>
    (let n = unat (sb_block_count sb); fo = unat (sb_freelist_off sb); io = unat (sb_inode_off sb);
         dof = unat (sb_data_off sb)
     in fo = 4096 \<and> 4096 dvd io \<and> 4096 dvd dof \<and> 4096 dvd unat (fs_size sb) \<and> n < 2 ^ 30 \<and>
        fo + PAD 32 (CEIL 32 n 8) \<le> io \<and> io + PAD 64 (n * 32) \<le> dof \<and> dof + n * 4096 \<le> unat (fs_size sb))"
proof -
  obtain sb n where f: "init_superblock disk = Some sb"
    "unat (sb_block_count sb) \<le> n" "unat (sb_block_count sb) < 2 ^ 30" "unat (sb_freelist_off sb) = 4096"
    "unat (sb_inode_off sb) = 4096 + ((n + 7) div 8 + 4095) div 4096 * 4096"
    "unat (sb_data_off sb) = unat (sb_inode_off sb) + (n * 32 + 4095) div 4096 * 4096"
    "unat (fs_size sb) = unat (sb_data_off sb) + n * 4096"
    using init_superblock_nat[OF assms] by blast
  let ?b = "unat (sb_block_count sb)"
  have "PAD 32 (CEIL 32 ?b 8) \<le> ((n + 7) div 8 + 4095) div 4096 * 4096"
  proof -
    have "?b < 2 ^ 31" using f(3) by simp
    then have "PAD 32 (CEIL 32 ?b 8) = ((?b + 7) div 8 + 4095) div 4096 * 4096" by (rule PAD_bitmap)
    also have "\<dots> \<le> ((n + 7) div 8 + 4095) div 4096 * 4096"
      using f(2) by (intro mult_le_mono1 div_le_mono add_le_mono1)
    finally show ?thesis .
  qed
  moreover have "PAD 64 (?b * 32) \<le> (n * 32 + 4095) div 4096 * 4096"
  proof -
    have "?b < 2 ^ 32" using f(3) by simp
    then have "PAD 64 (?b * 32) = (?b * 32 + 4095) div 4096 * 4096" by (rule PAD_inode_table)
    also have "\<dots> \<le> (n * 32 + 4095) div 4096 * 4096"
      using f(2) by (intro mult_le_mono1 div_le_mono add_le_mono1)
    finally show ?thesis .
  qed
  ultimately show ?thesis using f by (intro exI[of _ sb]) (simp add: Let_def)
qed

section \<open>Properties\<close>

text \<open>C31: For every disk of 4 KiB to 4 TiB the search of \<open>init_superblock\<close> ends, and the block count it
  stores is the largest one whose superblock, bitmap, inode table and data blocks fit on the disk.\<close>

theorem init_superblock_best_fit:
  assumes "4096 \<le> disk" and "disk \<le> 2 ^ 42"
  shows "\<exists>sb. init_superblock disk = Some sb \<and>
    kvfs_total (uint (sb_block_count sb)) \<le> disk \<and> disk < kvfs_total (uint (sb_block_count sb) + 1)"
proof -
  obtain sb b n where sb: "init_superblock disk = Some sb" "uint (sb_block_count sb) = b"
    and c: "kvfs_total n = disk \<and> b = n \<or> kvfs_total b < disk \<and> disk < kvfs_total n \<and> n = b + 1"
    using init_superblock_fields[OF assms] by blast
  have "disk < kvfs_total (b + 1)" using c kvfs_total_mono[of b "b + 1"] by auto
  with sb c show ?thesis by auto
qed

theorem init_superblock_best_fit_witness:
  "\<exists>sb. init_superblock (2 ^ 30) = Some sb \<and>
    kvfs_total (uint (sb_block_count sb)) \<le> 2 ^ 30 \<and> 2 ^ 30 < kvfs_total (uint (sb_block_count sb) + 1)"
  by (rule init_superblock_best_fit) simp_all

text \<open>C32: The sections \<open>init_superblock\<close> lays out are block aligned and follow each other without overlap,
  and each holds what the block count promises: a bit and an inode per block, and the blocks.\<close>

theorem init_superblock_layout:
  assumes "4096 \<le> disk" and "disk \<le> 2 ^ 42"
  shows "\<exists>sb. init_superblock disk = Some sb \<and>
    (let n = unat (sb_block_count sb); fo = unat (sb_freelist_off sb); io = unat (sb_inode_off sb);
         dof = unat (sb_data_off sb)
     in fo = 4096 \<and> 4096 dvd io \<and> 4096 dvd dof \<and> 4096 dvd unat (fs_size sb) \<and> n < 2 ^ 30 \<and>
        fo + PAD 32 (CEIL 32 n 8) \<le> io \<and> io + PAD 64 (n * 32) \<le> dof \<and> dof + n * 4096 \<le> unat (fs_size sb))"
  by (rule init_superblock_sections[OF assms])

theorem init_superblock_layout_witness:
  "\<exists>sb. init_superblock (2 ^ 30) = Some sb \<and>
    (let n = unat (sb_block_count sb); fo = unat (sb_freelist_off sb); io = unat (sb_inode_off sb);
         dof = unat (sb_data_off sb)
     in fo = 4096 \<and> 4096 dvd io \<and> 4096 dvd dof \<and> 4096 dvd unat (fs_size sb) \<and> n < 2 ^ 30 \<and>
        fo + PAD 32 (CEIL 32 n 8) \<le> io \<and> io + PAD 64 (n * 32) \<le> dof \<and> dof + n * 4096 \<le> unat (fs_size sb))"
  by (rule init_superblock_layout) simp_all

text \<open>When no block count fills the disk exactly, the stored file system size is larger than the
  disk: \<open>sum\<close> still belongs to the guess before the last correction of \<open>blocks\<close>. The loop of \<open>main\<close>
  over the data blocks then writes past the end of the device.\<close>

theorem init_superblock_oversized:
  assumes "4096 \<le> disk" and "disk \<le> 2 ^ 42" and "\<forall>n. kvfs_total n \<noteq> disk"
  shows "\<exists>sb. init_superblock disk = Some sb \<and> disk < uint (fs_size sb)"
proof -
  obtain sb n where "init_superblock disk = Some sb" "uint (fs_size sb) = kvfs_total (int n)"
    "kvfs_total (int n) = disk \<or> disk < kvfs_total (int n)"
    using init_superblock_nat[OF assms(1,2)] by blast
  with assms(3) show ?thesis by auto
qed

theorem init_superblock_oversized_witness:
  "\<exists>sb. init_superblock 540672 = Some sb \<and> 540672 < uint (fs_size sb)"
proof (rule init_superblock_oversized)
  have t: "kvfs_total 128 = 536576" "kvfs_total 129 = 544768"
    by (simp_all add: kvfs_total_def tdiv_pos_div)
  show "\<forall>n. kvfs_total n \<noteq> 540672"
  proof
    fix n :: int
    show "kvfs_total n \<noteq> 540672"
      using kvfs_total_le_iff[of n 128] kvfs_total_le_iff[of 129 n] t by (cases "n \<le> 128") auto
  qed
qed simp_all

text \<open>C30: Formatting a disk that a block count fills exactly succeeds: \<open>main\<close> exits with 0 and leaves the
  superblock, a cleared bitmap, a table of free inodes and zeroed data blocks on the disk.\<close>

theorem mkkvfs_formats:
  assumes "seq_device (sys_write env) img pos cap"
    and "4096 \<le> disk" and "disk \<le> 2 ^ 42" and "kvfs_total (int n) = disk"
    and "CHR ''/'' \<in> set dev" and "0 \<le> sys_open env dev" and "sys_read env w 4096 = (rd, buf, w1)" and "0 \<le> rd"
    and "magicnum (decode_superblock (take 48 buf)) \<noteq> KVFS_SUPERBLOCK_MAGIC \<or> sys_fgetc env = 89"
    and "ioctl_sectorsize env = 0" and "ioctl_mediasize env = (0, disk)"
    and "pos (sys_rewind env w1) = 0" and "int (cap (sys_rewind env w1)) = disk"
  shows "\<exists>sb w'. init_superblock disk = Some sb \<and>
    mkkvfs_main env [(CHR ''f'', dev)] w = Some (Exited 0 w') \<and> formatted sb (img w') \<and>
    uint (sb_block_count sb) = int n"
proof -
  obtain sb m where sb: "init_superblock disk = Some sb"
    and c: "kvfs_total (int m) = disk \<and> unat (sb_block_count sb) = m \<or>
      kvfs_total (int (unat (sb_block_count sb))) < disk \<and> disk < kvfs_total (int m) \<and> m = unat (sb_block_count sb) + 1"
    and lay: "unat (sb_freelist_off sb) = 4096"
      "unat (sb_inode_off sb) = 4096 + ((m + 7) div 8 + 4095) div 4096 * 4096"
      "unat (sb_data_off sb) = unat (sb_inode_off sb) + (m * 32 + 4095) div 4096 * 4096"
      "unat (fs_size sb) = unat (sb_data_off sb) + m * 4096" "uint (fs_size sb) = kvfs_total (int m)"
    using init_superblock_nat[OF assms(2,3)] by blast
  have m: "m = n" "unat (sb_block_count sb) = n"
  proof -
    define b where "b = unat (sb_block_count sb)"
    have c': "kvfs_total (int m) = disk \<and> b = m \<or> kvfs_total (int b) < disk \<and> disk < kvfs_total (int m) \<and> m = b + 1"
      using c by (simp only: b_def)
    have "m = n \<and> b = n"
      using c' assms(4) kvfs_total_le_iff[of "int n" "int b"] kvfs_total_le_iff[of "int m" "int n"]
        kvfs_total_le_iff[of "int n" "int m"] by linarith
    then show "m = n" "unat (sb_block_count sb) = n" by (simp_all add: b_def)
  qed
  have fit: "unat (fs_size sb) \<le> cap (sys_rewind env w1)"
    using lay(5) m(1) assms(4,13) by (simp only: unat_eq_nat_uint)
  obtain w' where w': "write_sections (sys_write env) (sys_rewind env w1) sb = Some (Running w')"
    "formatted sb (img w')"
    using write_sections_ok[OF assms(1,12) lay(1) _ _ _ _ _ _ fit] lay by auto
  have "mkkvfs_main env [(CHR ''f'', dev)] w = Some (Exited 0 w')"
    using assms(5-11) sb w'(1) by (auto simp: mkkvfs_main_def and_then_def sizeof_superblock_def Let_def)
  then show ?thesis using sb w'(2) m(2) by auto
qed

text \<open>A device in memory: its contents and the file offset; writes past \<open>cap\<close> bytes fail.\<close>

definition mem_write :: "nat \<Rightarrow> image \<times> nat \<Rightarrow> byte list \<Rightarrow> int \<times> (image \<times> nat)" where
  "mem_write cap w bs =
     (if snd w + length bs \<le> cap then (int (length bs), (poke (fst w) (snd w) bs, snd w + length bs)) else (- 1, w))"

definition mem_env :: "nat \<Rightarrow> (image \<times> nat) mkkvfs_env" where
  "mem_env cap = \<lparr>sys_open = (\<lambda>_. 3), sys_read = (\<lambda>w n. (int n, peek (fst w) (snd w) n, (fst w, snd w + n))),
     sys_fgetc = 89, sys_rewind = (\<lambda>w. (fst w, 0)), ioctl_sectorsize = 0, ioctl_mediasize = (0, int cap),
     sys_write = mem_write cap\<rparr>"

lemma seq_device_mem: "seq_device (mem_write c) fst snd (\<lambda>_. c)"
  by (simp add: seq_device_def mem_write_def)

theorem mkkvfs_formats_witness:
  "\<exists>sb w'. init_superblock 1060864 = Some sb \<and>
    mkkvfs_main (mem_env 1060864) [(CHR ''f'', ''/dev/md0'')] (\<lambda>_. 7, 0) = Some (Exited 0 w') \<and>
    formatted sb (fst w') \<and> uint (sb_block_count sb) = int 255"
proof (rule mkkvfs_formats[where pos = snd and cap = "\<lambda>_. 1060864" and img = fst])
  show "seq_device (sys_write (mem_env 1060864)) fst snd (\<lambda>_. 1060864)"
    using seq_device_mem by (simp add: mem_env_def)
  show "kvfs_total (int 255) = 1060864" by (simp add: kvfs_total_def tdiv_pos_div)
  show "sys_read (mem_env 1060864) (\<lambda>_. 7, 0) 4096 = (4096, peek (\<lambda>_. 7) 0 4096, (\<lambda>_. 7, 4096))"
    by (simp add: mem_env_def)
qed (simp_all add: mem_env_def)

text \<open>C39: \<open>writebuf\<close> does not survive a short write: it overwrites its count of written bytes instead of
  adding to it, so after a first short write of \<open>k\<close> bytes, even when every later write is
  complete, it alternates between the two parts of the buffer for ever.\<close>

theorem writebuf_short_write_diverges:
  assumes "fst (wr w buf) = int k" and "0 < k" and "k < length buf"
    and "\<forall>w' bs. length bs < length buf \<longrightarrow> fst (wr w' bs) = int (length bs)"
  shows "writebuf wr w buf = None"
proof -
  have "\<not> (wr' = wr \<and> buf' = buf \<and> 0 < n \<and> n < int (length buf))"
    if "writebuf_loop wr' w' buf' n = Some r" for wr' w' buf' n r
  proof (rule writebuf_loop.raw_induct[where P = "\<lambda>wr' w' buf' n r.
      \<not> (wr' = wr \<and> buf' = buf \<and> 0 < n \<and> n < int (length buf))", OF _ that])
    fix loop wr' w' buf' n r
    assume IH: "\<And>wr' w' buf' n r. loop wr' w' buf' n = Some r \<Longrightarrow>
        \<not> (wr' = wr \<and> buf' = buf \<and> 0 < n \<and> n < int (length buf))"
      and eq: "(if n < int (length buf') then
         (let (n, w'') = wr' w' (drop (nat n) buf') in
          if n < 0 then Some (Exited 1 w'') else loop wr' w'' buf' n) else Some (Running w')) = Some r"
    show "\<not> (wr' = wr \<and> buf' = buf \<and> 0 < n \<and> n < int (length buf))"
    proof
      assume a: "wr' = wr \<and> buf' = buf \<and> 0 < n \<and> n < int (length buf)"
      obtain n' w'' where w'': "wr w' (drop (nat n) buf) = (n', w'')" by fastforce
      have "length (drop (nat n) buf) < length buf" using a by auto
      then have "fst (wr w' (drop (nat n) buf)) = int (length buf - nat n)" using assms(4) by (metis length_drop)
      then have "n' = int (length buf) - n" using w'' a by (simp add: of_nat_diff nat_le_iff)
      with a eq w'' have "loop wr w'' buf n' = Some r" "0 < n'" "n' < int (length buf)" by auto
      then show False using IH by blast
    qed
  qed
  then have "writebuf_loop wr w' buf (int k) = None" for w'
    using assms(2,3) by (metis not_None_eq of_nat_0_less_iff of_nat_less_iff)
  then show ?thesis using assms(1) by (auto simp: writebuf_def split: prod.split)
qed

theorem writebuf_short_write_diverges_witness:
  "writebuf (\<lambda>w bs. (if length bs = 4096 then 512 else int (length bs), w)) () (replicate 4096 0) = None"
  by (rule writebuf_short_write_diverges[where k = 512]) simp_all

text \<open>On a disk of 33027 blocks the last data block the superblock announces lies outside the disk:
  the sections are sized for one block more than the block count, and this extra block starts both
  a new block of the bitmap and a new block of the inode table.\<close>

theorem last_data_block_off_disk:
  "\<exists>sb. init_superblock 135278592 = Some sb \<and> unat (sb_block_count sb) = 32768 \<and>
     135278592 < unat (sb_data_off sb) + unat (sb_block_count sb) * BLOCKSIZE"
proof -
  have r: "(4096 :: int) \<le> 135278592" "(135278592 :: int) \<le> 2 ^ 42" by simp_all
  obtain sb n where f: "init_superblock 135278592 = Some sb"
    and c: "kvfs_total (int n) = 135278592 \<and> unat (sb_block_count sb) = n \<or>
      kvfs_total (int (unat (sb_block_count sb))) < 135278592 \<and> 135278592 < kvfs_total (int n) \<and>
      n = unat (sb_block_count sb) + 1"
    and io: "unat (sb_inode_off sb) = 4096 + ((n + 7) div 8 + 4095) div 4096 * 4096"
    and dof: "unat (sb_data_off sb) = unat (sb_inode_off sb) + (n * 32 + 4095) div 4096 * 4096"
    using init_superblock_nat[OF r] by blast
  have t: "kvfs_total 32768 = 135274496" "kvfs_total 32769 = 135286784"
    by (simp_all add: kvfs_total_def tdiv_pos_div)
  define b where "b = unat (sb_block_count sb)"
  have "n = 32769 \<and> b = 32768"
    using c t kvfs_total_le_iff[of "int n" 32768] kvfs_total_le_iff[of 32769 "int n"]
      kvfs_total_le_iff[of 32769 "int b"] kvfs_total_le_iff[of "int b" 32768]
    unfolding b_def[symmetric] by linarith
  then show ?thesis using f io dof by (simp add: b_def BLOCKSIZE_def)
qed

end
