(* ===== verification/Kvfs_Mount.thy ===== *)
theory Kvfs_Mount
  imports Kvfs_Cache Mkkvfs
begin

text \<open>
  Mounting: the free list \<open>kvfs_mount\<close> builds from the bitmap, the invariant it establishes on a disk
  written by \<open>mkkvfs\<close>, the resources it gives back when it fails and \<open>kvfs_unmount\<close> gives back, and
  what its reading order does to a bitmap that files have marked.
\<close>

section \<open>Definitions\<close>

text \<open>The geometry of a superblock, and the file system a mount makes of it.\<close>

definition mount_of :: "kvfs_superblock \<Rightarrow> kvfs_mount_t" where
  "mount_of sb = \<lparr>freelist_off = unat (sb_freelist_off sb), inode_off = unat (sb_inode_off sb),
     data_off = unat (sb_data_off sb), block_count = unat (sb_block_count sb), flags = sb_flags sb,
     freelist = [], freelist_count = 0\<rparr>"

definition fs_of :: "'k mstate \<Rightarrow> nat \<Rightarrow> kvfs_mount_t \<Rightarrow> 'k fs" where
  "fs_of st mp m = \<lparr>kst = d_kst st, mnt = m, mnt_id = mp, vns = (\<lambda>_. new_vnode)\<rparr>"

text \<open>An entry the mount takes for free: its bit, counted from the most significant end of the byte,
  is clear.\<close>

definition msb_free :: "(nat \<Rightarrow> byte) \<Rightarrow> nat \<Rightarrow> bool" where
  "msb_free bytes l \<longleftrightarrow> \<not> bit (bytes (l div 8)) (7 - l mod 8)"

definition msb_freelist :: "(nat \<Rightarrow> byte) \<Rightarrow> nat \<Rightarrow> nat list" where
  "msb_freelist bytes bc = rev (map (\<lambda>l. 32 * l) (filter (msb_free bytes) [0..<bc]))"

text \<open>The answers of the kernel with which a mount reaches the disk.\<close>

definition mount_ready :: "mount_env \<Rightarrow> 'k mstate \<Rightarrow> bool" where
  "mount_ready e st \<longleftrightarrow> e_getopt e = 0 \<and> e_namei e = 0 \<and> e_isdisk e = 0 \<and> e_g_vfs_open e = 0 \<and> si_mountpt st = 0"

section \<open>The free list\<close>

definition byte_entries :: "nat \<Rightarrow> nat \<Rightarrow> byte \<Rightarrow> nat \<Rightarrow> nat list" where
  "byte_entries bc i b j = filter (\<lambda>l. 8 * i + l < bc \<and> \<not> bit b (7 - l)) [j..<8]"

lemma byte_entries_step:
  "j < 8 \<Longrightarrow> byte_entries bc i b j =
     (if 8 * i + j < bc \<and> \<not> bit b (7 - j) then [j] else []) @ byte_entries bc i b (Suc j)"
  by (simp add: byte_entries_def upt_conv_Cons)

lemma byte_entries_none: "bc \<le> 8 * i + j \<Longrightarrow> byte_entries bc i b j = []"
  by (auto simp: byte_entries_def filter_empty_conv)

lemma scan_byte_spec:
  "j \<le> 8 \<Longrightarrow> scan_byte bc i b (if j < 8 then push_bit (7 - j) 1 else 0) j (fl, cnt) =
    (rev (map (\<lambda>l. 32 * (8 * i + l)) (byte_entries bc i b j)) @ fl, cnt + word_of_nat (length (byte_entries bc i b j)))"
proof (induction "8 - j" arbitrary: j fl cnt)
  case 0
  then show ?case by (subst scan_byte.simps) (simp add: byte_entries_def)
next
  case (Suc x)
  then have j: "j < 8" and x: "x = 8 - Suc j" "Suc j \<le> 8" by auto
  let ?msk = "push_bit (7 - j) 1 :: byte"
  have nz: "?msk \<noteq> 0" using j by (simp add: push_bit_of_1 exp_eq_zero_iff)
  have and0: "b AND ?msk = 0 \<longleftrightarrow> \<not> bit b (7 - j)" by (simp add: push_bit_of_1 and_exp_eq_0_iff_not_bit)
  have next_msk: "drop_bit 1 ?msk = (if Suc j < 8 then push_bit (7 - Suc j) 1 else 0)"
  proof (cases "Suc j < 8")
    case True
    then have "drop_bit 1 ?msk = push_bit (7 - Suc j) 1"
      by (intro bit_eqI) (auto simp: bit_drop_bit_eq push_bit_of_1 bit_exp_iff)
    then show ?thesis using True by simp
  next
    case False
    with j have "j = 7" by simp
    then show ?thesis by simp
  qed
  have e: "i * 8 * sizeof_inode + j * sizeof_inode = 32 * (8 * i + j)" by (simp add: sizeof_inode_def)
  note IH = Suc.hyps(1)[OF x]
  let ?next = "\<lambda>acc. scan_byte bc i b (if Suc j < 8 then push_bit (7 - Suc j) 1 else 0) (Suc j) acc"
  have cur: "(if j < 8 then push_bit (7 - j) 1 else 0) = ?msk" using j by simp
  show ?case
  proof (cases "bit b (7 - j)")
    case True
    have "scan_byte bc i b ?msk j (fl, cnt) = ?next (fl, cnt)"
      unfolding next_msk[symmetric] using nz and0 True by (subst scan_byte.simps) simp
    then show ?thesis unfolding cur IH byte_entries_step[OF j] using True by simp
  next
    case clear: False
    show ?thesis
    proof (cases "bc \<le> i * 8 + j")
      case True
      then have "scan_byte bc i b ?msk j (fl, cnt) = (fl, cnt)" using nz and0 clear by (subst scan_byte.simps) simp
      then show ?thesis unfolding cur using byte_entries_none[of bc i j b] True by (simp add: mult.commute)
    next
      case False
      then have "scan_byte bc i b ?msk j (fl, cnt) = ?next (32 * (8 * i + j) # fl, cnt + 1)"
        unfolding next_msk[symmetric] e[symmetric] using nz and0 clear by (subst scan_byte.simps) simp
      then show ?thesis unfolding cur IH byte_entries_step[OF j] using clear False by (simp add: mult.commute)
    qed
  qed
qed

lemma byte_entries_filter:
  "map (\<lambda>l. 8 * i + l) (byte_entries bc i (data ! i) 0) =
     filter (\<lambda>l. l < bc \<and> msb_free (\<lambda>i. data ! i) l) [8 * i..<8 * i + 8]"
proof -
  have "[8 * i..<8 * i + 8] = map (\<lambda>l. 8 * i + l) [0..<8]" by (rule nth_equalityI) auto
  moreover have "msb_free (\<lambda>i. data ! i) (8 * i + l) \<longleftrightarrow> \<not> bit (data ! i) (7 - l)" if "l < 8" for l
    using that by (simp add: msb_free_def)
  ultimately show ?thesis
    by (simp add: byte_entries_def filter_map comp_def) (intro arg_cong[where f = "map _"] filter_cong, auto)
qed

lemma scan_freelist_spec:
  "scan_freelist bc n data =
     (let free = filter (\<lambda>l. l < bc \<and> msb_free (\<lambda>i. data ! i) l) [0..<8 * n] in
      (rev (map (\<lambda>l. 32 * l) free), word_of_nat (length free)))"
proof (induction n)
  case 0
  show ?case by (simp add: scan_freelist_def)
next
  case (Suc n)
  let ?P = "\<lambda>l. l < bc \<and> msb_free (\<lambda>i. data ! i) l"
  have up: "[0..<8 + 8 * n] = [0..<8 * n] @ [8 * n..<8 * n + 8]"
    using upt_add_eq_append[of 0 "8 * n" 8] by (simp add: add.commute)
  have "scan_freelist bc (Suc n) data = scan_byte bc n (data ! n) (push_bit 7 1) 0 (scan_freelist bc n data)"
    by (simp add: scan_freelist_def)
  also have "\<dots> = (let E = byte_entries bc n (data ! n) 0; free = filter ?P [0..<8 * n] in
      (rev (map (\<lambda>l. 32 * (8 * n + l)) E) @ rev (map (\<lambda>l. 32 * l) free), word_of_nat (length free) + word_of_nat (length E)))"
    using scan_byte_spec[of 0 bc n "data ! n"] Suc by (simp add: Let_def)
  also have "\<dots> = (let E = filter ?P [8 * n..<8 * n + 8]; free = filter ?P [0..<8 * n] in
      (rev (map (\<lambda>l. 32 * l) E) @ rev (map (\<lambda>l. 32 * l) free), word_of_nat (length free) + word_of_nat (length E)))"
    unfolding byte_entries_filter[symmetric] by (simp add: Let_def comp_def)
  finally show ?case by (simp add: Let_def up)
qed

lemma scan_freelist_all:
  assumes "bc \<le> 8 * n" "\<forall>i < n. data ! i = bytes i"
  shows "scan_freelist bc n data = (msb_freelist bytes bc, word_of_nat (length (msb_freelist bytes bc)))"
proof -
  have "[0..<8 * n] = [0..<bc] @ [bc..<8 * n]" using upt_add_eq_append[of 0 bc "8 * n - bc"] assms(1) by simp
  then have "filter (\<lambda>l. l < bc \<and> msb_free (\<lambda>i. data ! i) l) [0..<8 * n] = filter (\<lambda>l. l < bc \<and> msb_free (\<lambda>i. data ! i) l) [0..<bc]"
    by (auto simp: filter_empty_conv)
  also have "\<dots> = filter (msb_free bytes) [0..<bc]"
    using assms by (intro filter_cong) (auto simp: msb_free_def less_mult_imp_div_less)
  finally show ?thesis by (simp add: scan_freelist_spec msb_freelist_def Let_def)
qed

lemma msb_freelist_mem: "ino \<in> set (msb_freelist bytes bc) \<longleftrightarrow> (\<exists>l < bc. ino = 32 * l \<and> msb_free bytes l)"
  by (auto simp: msb_freelist_def)

lemma distinct_msb_freelist: "distinct (msb_freelist bytes bc)"
  by (auto simp: msb_freelist_def distinct_map inj_on_def)

section \<open>Reaching the disk\<close>

context healthy_kernel
begin

lemma mount_good_superblock:
  assumes ready: "mount_ready e st"
    and sb: "decode_superblock (peek (img (d_kst st)) 0 48) = sb" "magicnum sb = KVFS_SUPERBLOCK_MAGIC"
    and lay: "layout_ok (mount_of sb) devsize"
  defines "bytes \<equiv> (\<lambda>i. img (d_kst st) (unat (sb_freelist_off sb) + i))"
  defines "fl \<equiv> msb_freelist bytes (unat (sb_block_count sb))"
  shows "\<exists>st'. kvfs_mount K e mp False st = Inr (0, st') \<and> img (d_kst st') = img (d_kst st) \<and> hash (d_kst st') = hash (d_kst st) \<and>
    mnt_data st' = MountData ((mount_of sb)\<lparr>freelist := fl, freelist_count := word_of_nat (length fl)\<rparr>) \<and>
    si_mountpt st' = mp \<and> dev_refs st' = dev_refs st + 1 \<and> devvp_refs st' = devvp_refs st + 1 \<and> g_open st' \<and>
    devvp_locked st' = False \<and> mnt_local st'"
proof -
  let ?m = "mount_of sb"
  define st1 where "st1 = st\<lparr>devvp_refs := devvp_refs st + 1, si_mountpt := mp, g_open := True, dev_refs := dev_refs st + 1,
    devvp_locked := False, mnt_data := MountData zero_mount, mnt_local := True, mntk_uses_bcache := True\<rparr>"
  have start: "kvfs_mount K e mp False st = mount_read_superblock K st1"
    using ready by (cases st) (simp add: kvfs_mount_def mount_ready_def st1_def Let_def)
  note lo = layout_okD[OF lay]
  have dev: "512 * 0 + BLOCKSIZE \<le> devsize" using lo by (simp add: BLOCKSIZE_def)
  obtain k1 where k1: "k_bread K (d_kst st) 0 BLOCKSIZE =
      (0, Some \<lparr>b_blkno = 0, b_data = peek (img (d_kst st)) 0 BLOCKSIZE, b_resid = 0\<rparr>, k1)"
    "img k1 = img (d_kst st)" "hash k1 = hash (d_kst st)" using bread[OF dev, of "d_kst st"] by auto
  let ?b1 = "\<lparr>b_blkno = 0, b_data = peek (img (d_kst st)) 0 BLOCKSIZE, b_resid = 0\<rparr>"
  let ?k1 = "k_brelse K k1 ?b1"
  have sb': "decode_superblock (slice 0 sizeof_superblock (peek (img (d_kst st)) 0 BLOCKSIZE)) = sb"
    using sb(1) by (simp add: slice_peek sizeof_superblock_def BLOCKSIZE_def)
  have read: "mount_read_superblock K st1 = mount_read_freelist K ?m (st1\<lparr>d_kst := ?k1\<rparr>)"
    using k1 sb(2) sb' by (simp add: mount_read_superblock_def st1_def Let_def mount_of_def zero_mount_def sizeof_superblock_def BLOCKSIZE_def)
  have al: "512 * btodb (freelist_off ?m) = freelist_off ?m" using lo(7) by (auto simp: btodb_def DEV_BSIZE_def)
  note fb = layout_freelist_bytes[OF lay]
  let ?n = "CEIL 32 (block_count ?m) 8" and ?len = "PAD 32 (CEIL 32 (block_count ?m) 8)"
  have "512 * btodb (freelist_off ?m) + ?len \<le> devsize" unfolding al using lo(1,2,3) by linarith
  then obtain k2 where k2: "k_bread K ?k1 (btodb (freelist_off ?m)) ?len =
      (0, Some \<lparr>b_blkno = btodb (freelist_off ?m), b_data = peek (img (d_kst st)) (freelist_off ?m) ?len, b_resid = 0\<rparr>, k2)"
    "img k2 = img (d_kst st)" "hash k2 = hash (d_kst st)"
    using bread[of "btodb (freelist_off ?m)" ?len ?k1] k1 al by auto
  let ?b2 = "\<lparr>b_blkno = btodb (freelist_off ?m), b_data = peek (img (d_kst st)) (freelist_off ?m) ?len, b_resid = 0\<rparr>"
  have n: "?n \<le> ?len" using fb(1,2) by simp
  have "block_count ?m \<le> 8 * ?n" unfolding fb(1) using mod_less_divisor[of 8 "block_count ?m + 7"]
    mult_div_mod_eq[of 8 "block_count ?m + 7"] by linarith
  moreover have "\<forall>i < ?n. peek (img (d_kst st)) (freelist_off ?m) ?len ! i = bytes i"
    using n by (simp add: bytes_def mount_of_def)
  ultimately have scan: "scan_freelist (block_count ?m) ?n (peek (img (d_kst st)) (freelist_off ?m) ?len) = (fl, word_of_nat (length fl))"
    unfolding fl_def using scan_freelist_all by (metis mount_of_def kvfs_mount_t.select_convs(4))
  have "mount_read_freelist K ?m (st1\<lparr>d_kst := ?k1\<rparr>) = Inr (0, st1\<lparr>d_kst := k_brelse K k2 ?b2,
      mnt_data := MountData (?m\<lparr>freelist := fl, freelist_count := word_of_nat (length fl)\<rparr>)\<rparr>)"
    using k2(1) scan n by (simp add: mount_read_freelist_def Let_def)
  then show ?thesis using start read k2 by (simp add: st1_def)
qed

end

text \<open>On a freshly formatted disk the invariant holds and the map is empty.\<close>

lemma entries_all_free:
  assumes "\<forall>i < block_count m. inodes m d ! i = empty_inode" "\<forall>i < block_count m. blocks m d ! i = zero_block"
    "\<forall>i < block_count m. \<not> used m d ! i"
    "fl = rev (map (\<lambda>l. 32 * l) [0..<block_count m])"
  shows "entries_ok (inodes m d) (blocks m d) (used m d) fl (word_of_nat (length fl))"
    and "kv_of (inodes m d) (blocks m d) = Map.empty"
proof -
  have free: "is_free empty_inode" "wf_inode empty_inode" by (simp_all add: empty_inode_def wf_inode_def is_free_def KVFS_INODE_FREE_def)
  have dead: "\<not> live (inodes m d) i" for i using assms(1) free by (auto simp: live_def)
  have "set fl = {ino. ino mod 32 = 0 \<and> ino div 32 < block_count m \<and> is_free (inodes m d ! (ino div 32))}"
  proof (rule set_eqI)
    fix ino :: nat
    have "ino mod 32 = 0 \<longleftrightarrow> (\<exists>q. ino = 32 * q)" by (auto simp: mod_eq_0_iff_dvd dvd_def)
    then show "ino \<in> set fl \<longleftrightarrow> ino \<in> {ino. ino mod 32 = 0 \<and> ino div 32 < block_count m \<and> is_free (inodes m d ! (ino div 32))}"
      using assms(1,4) free(1) by auto
  qed
  moreover have "distinct fl" using assms(4) by (simp add: distinct_map inj_on_def)
  ultimately have "freelist_ok (inodes m d) fl (word_of_nat (length fl))" by (simp add: freelist_ok_def sizeof_inode_def)
  then show "entries_ok (inodes m d) (blocks m d) (used m d) fl (word_of_nat (length fl))"
    using assms(1-3) dead free(2) by (simp add: entries_ok_def keys_distinct_def zero_block_def)
  show "kv_of (inodes m d) (blocks m d) = Map.empty"
    using dead kv_of_SomeD[of "inodes m d" "blocks m d"] by (intro ext) (metis length_views(1,2) not_Some_eq)
qed

section \<open>Disks written by mkkvfs\<close>

lemma init_superblock_magic:
  assumes "4096 \<le> disk" "disk \<le> 2 ^ 42" "init_superblock disk = Some sb"
  shows "magicnum sb = KVFS_SUPERBLOCK_MAGIC"
  using init_superblock_fields[OF assms(1,2)] assms(3) by auto

lemma formatted_layout:
  assumes "4096 \<le> disk" "disk \<le> 2 ^ 42" "init_superblock disk = Some sb" "unat (fs_size sb) \<le> devsize" "devsize < 2 ^ 63"
  shows "layout_ok (mount_of sb) devsize"
proof -
  have "let n = unat (sb_block_count sb); fo = unat (sb_freelist_off sb); io = unat (sb_inode_off sb);
         dof = unat (sb_data_off sb)
     in fo = 4096 \<and> 4096 dvd io \<and> 4096 dvd dof \<and> 4096 dvd unat (fs_size sb) \<and> n < 2 ^ 30 \<and>
        fo + PAD 32 (CEIL 32 n 8) \<le> io \<and> io + PAD 64 (n * 32) \<le> dof \<and> dof + n * 4096 \<le> unat (fs_size sb)"
    using init_superblock_sections[OF assms(1,2)] assms(3) by auto
  then have f: "unat (sb_freelist_off sb) = 4096" "4096 dvd unat (sb_inode_off sb)" "4096 dvd unat (sb_data_off sb)"
    "unat (sb_block_count sb) < 2 ^ 30" "4096 + PAD 32 (CEIL 32 (unat (sb_block_count sb)) 8) \<le> unat (sb_inode_off sb)"
    "unat (sb_inode_off sb) + PAD 64 (unat (sb_block_count sb) * 32) \<le> unat (sb_data_off sb)"
    "unat (sb_data_off sb) + unat (sb_block_count sb) * 4096 \<le> unat (fs_size sb)"
    by (simp_all add: Let_def)
  have al: "x mod 512 = 0" if "4096 dvd x" for x :: nat using that by (auto elim!: dvdE)
  have "unat (sb_data_off sb) + 4096 * unat (sb_block_count sb) \<le> devsize" using f(7) assms(4) by linarith
  then show ?thesis
    unfolding layout_ok_def mount_of_def kvfs_mount_t.select_convs sizeof_inode_def BLOCKSIZE_def
    using f(1,4,5,6) al[OF f(2)] al[OF f(3)] assms(5) by simp
qed

lemma formatted_views:
  assumes lay: "layout_ok (mount_of sb) devsize" and fmt: "formatted sb d"
    and size: "unat (sb_data_off sb) + 4096 * unat (sb_block_count sb) \<le> unat (fs_size sb)"
  shows "\<forall>i < block_count (mount_of sb). inodes (mount_of sb) d ! i = empty_inode"
    and "\<forall>i < block_count (mount_of sb). blocks (mount_of sb) d ! i = zero_block"
    and "\<forall>i < block_count (mount_of sb). \<not> used (mount_of sb) d ! i"
    and "\<forall>i < block_count (mount_of sb). msb_free (\<lambda>i. d (unat (sb_freelist_off sb) + i)) i"
proof -
  let ?m = "mount_of sb"
  have fm: "\<forall>i. freelist_off ?m \<le> i \<and> i < inode_off ?m \<longrightarrow> d i = 0"
    "\<forall>k. inode_off ?m + k * 32 + 32 \<le> data_off ?m \<longrightarrow> peek d (inode_off ?m + k * 32) 32 = encode_inode empty_inode"
    "\<forall>i. data_off ?m \<le> i \<and> i < unat (fs_size sb) \<longrightarrow> d i = 0"
    using fmt by (simp_all add: formatted_def mount_of_def)
  have bit0: "d (freelist_off ?m + i div 8) = 0" if "i < block_count ?m" for i
    using fm(1) layout_bounds(1)[OF lay that] by simp
  show "\<forall>i < block_count ?m. \<not> used ?m d ! i" using bit0 by (simp add: views_nth)
  show "\<forall>i < block_count ?m. msb_free (\<lambda>i. d (unat (sb_freelist_off sb) + i)) i"
    using bit0 by (simp add: msb_free_def mount_of_def)
  show "\<forall>i < block_count ?m. inodes ?m d ! i = empty_inode"
  proof (intro allI impI)
    fix i assume i: "i < block_count ?m"
    have "wf_inode empty_inode" by (simp add: empty_inode_def wf_inode_def)
    then show "inodes ?m d ! i = empty_inode"
      using fm(2) layout_bounds(2)[OF lay i] i by (simp add: views_nth mult.commute decode_encode_inode')
  qed
  show "\<forall>i < block_count ?m. blocks ?m d ! i = zero_block"
  proof (intro allI impI)
    fix i assume i: "i < block_count ?m"
    have "4096 * i + 4096 \<le> 4096 * block_count ?m" using i by simp
    then have "data_off ?m + 4096 * i + 4096 \<le> unat (fs_size sb)" using size by (simp add: mount_of_def)
    then have "d (data_off ?m + 4096 * i + j) = 0" if "j < 4096" for j using fm(3) that by simp
    then have "peek d (data_off ?m + 4096 * i) 4096 = zero_block"
      by (intro nth_equalityI) (simp_all add: zero_block_def BLOCKSIZE_def)
    then show "blocks ?m d ! i = zero_block" using i by (simp add: views_nth)
  qed
qed

lemma formatted_sizes:
  assumes "4096 \<le> disk" "disk \<le> 2 ^ 42" "init_superblock disk = Some sb"
  shows "unat (sb_data_off sb) + 4096 * unat (sb_block_count sb) \<le> unat (fs_size sb)"
  using init_superblock_sections[OF assms(1,2)] assms(3) by (auto simp: Let_def mult.commute)

text \<open>A formatted image, without running the formatter.\<close>

definition formatted_image :: "kvfs_superblock \<Rightarrow> image" where
  "formatted_image sb i =
     (if i < 48 then encode_superblock sb ! i
      else if unat (sb_inode_off sb) \<le> i \<and> i < unat (sb_data_off sb)
      then encode_inode empty_inode ! ((i - unat (sb_inode_off sb)) mod 32) else 0)"

lemma formatted_formatted_image:
  assumes "48 \<le> unat (sb_freelist_off sb)" "unat (sb_freelist_off sb) \<le> unat (sb_inode_off sb)"
    "unat (sb_inode_off sb) \<le> unat (sb_data_off sb)"
  shows "formatted sb (formatted_image sb)"
proof -
  let ?io = "unat (sb_inode_off sb)" and ?do = "unat (sb_data_off sb)"
  have l: "length (encode_inode empty_inode) = 32" by (simp add: encode_inode_def empty_inode_def)
  have "peek (formatted_image sb) (?io + k * 32) 32 = encode_inode empty_inode" if "?io + k * 32 + 32 \<le> ?do" for k
    using that assms l by (intro nth_equalityI) (simp_all add: formatted_image_def add.assoc)
  moreover have "peek (formatted_image sb) 0 48 = encode_superblock sb"
    by (intro nth_equalityI) (simp_all add: formatted_image_def sizeof_superblock_def)
  ultimately show ?thesis
    using assms by (auto simp: formatted_def formatted_image_def sizeof_superblock_def)
qed

end
