(* ===== verification/Kvfs_Example.thy ===== *)
theory Kvfs_Example
  imports Kvfs_Io Kvfs_Mount
begin

text \<open>
  A small mounted file system: the memory disk of eight blocks as \<open>mkkvfs\<close> lays it out, with one file
  in its first entry, whose vnode and the root's are in the cache. It satisfies the invariant, so
  the theorems on mounted file systems have instances.
\<close>

section \<open>Definitions\<close>

definition demo_sb :: kvfs_superblock where
  "demo_sb = \<lparr>magicnum = KVFS_SUPERBLOCK_MAGIC, superblock_size = 48, sb_freelist_off = 4096, sb_inode_off = 8192,
     sb_data_off = 12288, sb_block_count = 8, sb_flags = 0, fs_size = 45056\<rparr>"

definition demo_size :: nat where "demo_size = 45056"

definition demo_key :: "byte list" where "demo_key = replicate 20 0x11"

definition demo_block :: "byte list" where "demo_block = replicate 4096 0x5a"

definition demo_inode :: kvfs_inode where
  "demo_inode = \<lparr>i_key = demo_key, i_flags = KVFS_INODE_ACTIVE, i_ref_count = 1, i_timestamp = 0\<rparr>"

definition demo_image :: image where
  "demo_image = put_block (mount_of demo_sb) 0 demo_block (put_inode (mount_of demo_sb) 0 demo_inode
     (put_used (mount_of demo_sb) 0 True (formatted_image demo_sb)))"

definition demo_mount :: kvfs_mount_t where
  "demo_mount = (mount_of demo_sb)\<lparr>freelist := [32, 64, 96, 128, 160, 192, 224], freelist_count := 7\<rparr>"

definition demo_now :: timespec where "demo_now = \<lparr>tv_sec = 1700000000, tv_nsec = 0\<rparr>"

text \<open>Vnode 1 is the root, vnode 2 the file.\<close>

definition demo_fs :: "ram fs" where
  "demo_fs = \<lparr>kst = \<lparr>ram_img = demo_image, ram_hash = [(KVFS_ROOT_INO, 1), (0, 2)], ram_next = 3\<rparr>,
     mnt = demo_mount, mnt_id = 1,
     vns = (\<lambda>_. new_vnode)(1 := root_vnode 1, 2 := file_vnode demo_mount 1 0 demo_inode)\<rparr>"

abbreviation demo_kern :: "ram kern" where
  "demo_kern \<equiv> ram_kern demo_size demo_now"

section \<open>The invariant holds\<close>

lemma demo_healthy: "healthy_kernel demo_kern ram_img ram_lookup demo_size"
  by (rule ram.healthy_kernel_axioms)

lemma demo_geometry [simp]:
  "freelist_off (mount_of demo_sb) = 4096" "inode_off (mount_of demo_sb) = 8192" "data_off (mount_of demo_sb) = 12288"
  "block_count (mount_of demo_sb) = 8"
  by (simp_all add: mount_of_def demo_sb_def)

lemma demo_mount_fields [simp]:
  "freelist demo_mount = [32, 64, 96, 128, 160, 192, 224]" "freelist_count demo_mount = 7"
  "inodes demo_mount = inodes (mount_of demo_sb)" "blocks demo_mount = blocks (mount_of demo_sb)"
  "used demo_mount = used (mount_of demo_sb)" "layout_ok demo_mount = layout_ok (mount_of demo_sb)"
  "cache_ok demo_mount = cache_ok (mount_of demo_sb)" "block_count demo_mount = 8"
  by (simp_all add: demo_mount_def)

lemma demo_layout: "layout_ok (mount_of demo_sb) demo_size"
  by (simp add: layout_ok_def demo_size_def PAD_def CEIL_def BLOCKSIZE_def sizeof_inode_def)

interpretation demo: kvfs_layout "mount_of demo_sb" demo_size
  by unfold_locales (rule demo_layout)

lemma demo_formatted: "formatted demo_sb (formatted_image demo_sb)"
  by (rule formatted_formatted_image) (simp_all add: demo_sb_def)

lemma demo_fresh:
  "\<forall>i < 8. inodes (mount_of demo_sb) (formatted_image demo_sb) ! i = empty_inode"
  "entries_ok (inodes (mount_of demo_sb) (formatted_image demo_sb)) (blocks (mount_of demo_sb) (formatted_image demo_sb))
     (used (mount_of demo_sb) (formatted_image demo_sb)) [0, 32, 64, 96, 128, 160, 192, 224] 8"
proof -
  have size: "unat (sb_data_off demo_sb) + 4096 * unat (sb_block_count demo_sb) \<le> unat (fs_size demo_sb)"
    by (simp add: demo_sb_def)
  note v = formatted_views[OF demo_layout demo_formatted size, unfolded demo_geometry]
  show "\<forall>i < 8. inodes (mount_of demo_sb) (formatted_image demo_sb) ! i = empty_inode" by (rule v(1))
  have "entries_ok (inodes (mount_of demo_sb) (formatted_image demo_sb)) (blocks (mount_of demo_sb) (formatted_image demo_sb))
     (used (mount_of demo_sb) (formatted_image demo_sb)) (rev (map (\<lambda>l. 32 * l) [0..<8])) 8"
    using entries_all_free(1)[of "mount_of demo_sb" "formatted_image demo_sb", OF _ _ _ refl] v(1-3) by simp
  then have ok: "entries_ok (inodes (mount_of demo_sb) (formatted_image demo_sb)) (blocks (mount_of demo_sb) (formatted_image demo_sb))
     (used (mount_of demo_sb) (formatted_image demo_sb)) [224, 192, 160, 128, 96, 64, 32, 0] 8"
    by (simp add: upt_rec)
  then show "entries_ok (inodes (mount_of demo_sb) (formatted_image demo_sb)) (blocks (mount_of demo_sb) (formatted_image demo_sb))
     (used (mount_of demo_sb) (formatted_image demo_sb)) [0, 32, 64, 96, 128, 160, 192, 224] 8"
    unfolding entries_ok_def freelist_ok_def by (simp add: insert_commute)
qed

lemma demo_inode_props: "\<not> is_free demo_inode" "wf_inode demo_inode" "i_key demo_inode = demo_key" "length demo_block = BLOCKSIZE"
  by (simp_all add: demo_inode_def is_free_def wf_inode_def KVFS_INODE_FREE_def KVFS_INODE_ACTIVE_def demo_key_def demo_block_def BLOCKSIZE_def)

lemma demo_inodes: "inodes (mount_of demo_sb) demo_image = (inodes (mount_of demo_sb) (formatted_image demo_sb))[0 := demo_inode]"
  unfolding demo_image_def by (simp add: demo_inode_props)

lemma demo_live: "live (inodes (mount_of demo_sb) demo_image) i \<longleftrightarrow> i = 0"
  using demo_fresh(1) demo_inode_props(1)
  by (auto simp: demo_inodes live_def nth_list_update empty_inode_def is_free_def KVFS_INODE_FREE_def split: if_splits)

lemma demo_entries:
  "entries_ok (inodes (mount_of demo_sb) demo_image) (blocks (mount_of demo_sb) demo_image) (used (mount_of demo_sb) demo_image)
     [32, 64, 96, 128, 160, 192, 224] 7"
  "kv_of (inodes (mount_of demo_sb) demo_image) (blocks (mount_of demo_sb) demo_image) = [demo_key \<mapsto> demo_block]"
proof -
  let ?m = "mount_of demo_sb" and ?d = "formatted_image demo_sb"
  let ?d1 = "put_inode ?m 0 demo_inode (put_used ?m 0 True ?d)"
  have dead: "\<not> live (inodes ?m ?d) j" for j
    using demo_fresh(1) by (auto simp: live_def empty_inode_def is_free_def KVFS_INODE_FREE_def)
  have e0: "entries_ok (inodes ?m ?d) (blocks ?m ?d) (used ?m ?d) (32 * 0 # [32, 64, 96, 128, 160, 192, 224]) 8"
    using demo_fresh(2) by simp
  have n0: "\<forall>j. live (inodes ?m ?d) j \<longrightarrow> i_key (inodes ?m ?d ! j) \<noteq> i_key demo_inode" using dead by blast
  note al = demo.store.alloc[OF e0 demo_inode_props(1,2) n0]
  have "inodes ?m ?d1 = (inodes ?m ?d)[0 := demo_inode]" by (simp add: demo_inode_props)
  then have l: "live (inodes ?m ?d1) 0" "inodes ?m ?d1 ! 0 = demo_inode"
    using demo_inode_props(1) by (simp_all add: live_def)
  note rw = demo.store.rewrite[OF al(1) l(1) demo_inode_props(4)]
  have e: "kv_of (inodes ?m ?d) (blocks ?m ?d) = Map.empty"
    using dead kv_of_SomeD[of "inodes ?m ?d" "blocks ?m ?d"] by (intro ext) (metis length_views(1,2) not_Some_eq)
  show "entries_ok (inodes ?m demo_image) (blocks ?m demo_image) (used ?m demo_image) [32, 64, 96, 128, 160, 192, 224] 7"
    using rw(1) unfolding demo_image_def by simp
  show "kv_of (inodes ?m demo_image) (blocks ?m demo_image) = [demo_key \<mapsto> demo_block]"
    using rw(2) al(2) l(2) demo_inode_props(3) e unfolding demo_image_def by simp
qed

lemma demo_hash: "ram_lookup (kst demo_fs) = [KVFS_ROOT_INO \<mapsto> 1, 0 \<mapsto> 2]"
  by (auto simp: ram_lookup_def demo_fs_def KVFS_ROOT_INO_def fun_eq_iff)

lemma demo_wf: "kvfs_wf demo_size ram_img ram_lookup demo_fs"
proof -
  have "inodes (mount_of demo_sb) demo_image ! 0 = demo_inode" by (simp add: demo_inodes)
  then have "cache_ok (mount_of demo_sb) 1 (vns demo_fs) (inodes (mount_of demo_sb) demo_image) [KVFS_ROOT_INO \<mapsto> 1, 0 \<mapsto> 2]"
    by (auto simp: cache_ok_def demo_live demo_fs_def file_vnode_def demo_mount_def KVFS_ROOT_INO_def split: if_splits)
  then show ?thesis
    using demo_layout demo_entries(1) demo_hash by (simp add: kvfs_wf_def kvfs_ok_def demo_fs_def)
qed

lemma demo_kv: "kv ram_img demo_fs = [demo_key \<mapsto> demo_block]"
  using demo_entries(2) by (simp add: kv_def demo_fs_def)

lemma demo_root: "root_of ram_lookup demo_fs 1"
  by (simp add: root_of_def demo_hash KVFS_ROOT_INO_def)

lemma demo_file: "vnode_of ram_img ram_lookup demo_fs 2 demo_key"
proof -
  have "block_count (mnt demo_fs) = 8" "inodes (mnt demo_fs) (ram_img (kst demo_fs)) ! 0 = demo_inode"
    by (simp_all add: demo_fs_def demo_inodes)
  then show ?thesis unfolding vnode_of_def by (intro exI[of _ 0]) (simp add: demo_hash demo_inode_props)
qed

lemma demo_superblock_on_disk: "decode_superblock (peek (ram_img (kst demo_fs)) 0 48) = demo_sb"
proof -
  have "peek demo_image 0 48 = peek (formatted_image demo_sb) 0 48"
    by (simp add: demo_image_def put_block_def put_inode_def put_used_def Let_def peek_poke_disjoint)
  also have "\<dots> = encode_superblock demo_sb"
    using demo_formatted by (simp add: formatted_def sizeof_superblock_def)
  finally show ?thesis
    using decode_encode_superblock[of demo_sb "[]"] by (simp add: demo_fs_def)
qed

lemma demo_name: "str_to_key (replicate 40 (CHR ''1'')) = (0, demo_key)"
  by code_simp

lemma zero_name: "str_to_key (replicate 40 (CHR ''0'')) = (0, replicate 20 0)"
  by code_simp

lemma demo_state [simp]: "mnt demo_fs = demo_mount" "ram_img (kst demo_fs) = demo_image" "mnt_id demo_fs = 1"
  by (simp_all add: demo_fs_def)

end
