(* ===== verification/Kvfs_Properties.thy ===== *)
theory Kvfs_Properties
  imports Kvfs_Example
begin

text \<open>
  The properties of the kvfs kernel module. A theorem that assumes \<open>healthy_kernel\<close> holds for every
  kernel that keeps the contract, and its witness applies it to the memory disk and the example
  file system; one that does not assume it holds whatever the kernel answers.
\<close>

section \<open>Definitions\<close>

text \<open>A run of the file system: the operations the VFS layer calls, with what it knows when it calls
  them, and the effect each has on the map. \<open>EvNone\<close> is an operation that leaves the map alone.\<close>

datatype kv_event = EvNone | EvCreate "byte list" | EvRemove "byte list" | EvRename "byte list" "byte list"
  | EvWrite "byte list" nat "byte list"

fun kv_apply :: "kv_event \<Rightarrow> kvmap \<Rightarrow> kvmap" where
  "kv_apply EvNone m = m"
| "kv_apply (EvCreate kb) m = m(kb \<mapsto> zero_block)"
| "kv_apply (EvRemove kb) m = m(kb := None)"
| "kv_apply (EvRename ka kb) m = m(ka := None, kb := m ka)"
| "kv_apply (EvWrite kb off bs) m = m(kb \<mapsto> overlay off bs (the (m kb)))"

inductive kvfs_step :: "'k kern \<Rightarrow> ('k \<Rightarrow> image) \<Rightarrow> ('k \<Rightarrow> nat \<rightharpoonup> vid) \<Rightarrow> 'k fs \<Rightarrow> kv_event \<Rightarrow> 'k fs \<Rightarrow> bool"
  for K img hash where
  step_root: "kvfs_root K fl s = Inr (e, v, s') \<Longrightarrow> kvfs_step K img hash s EvNone s'"
| step_lookup: "root_of hash s dvp \<Longrightarrow> cn_namelen cnp = KVFS_KEY_STRLEN \<Longrightarrow> str_to_key (cn_nameptr cnp) = (0, kb) \<Longrightarrow>
    kvfs_lookup K dvp cnp s = Inr (e, v, s') \<Longrightarrow> kvfs_step K img hash s EvNone s'"
| step_create: "root_of hash s dvp \<Longrightarrow> str_to_key (cn_nameptr cnp) = (0, kb) \<Longrightarrow> kv img s kb = None \<Longrightarrow>
    kvfs_create K dvp cnp s = Inr (e, v, s') \<Longrightarrow> kvfs_step K img hash s (if e = 0 then EvCreate kb else EvNone) s'"
| step_remove: "vnode_of img hash s vp kb \<Longrightarrow> kvfs_remove K vp s = Inr (e, s') \<Longrightarrow> kvfs_step K img hash s (EvRemove kb) s'"
| step_rename: "vnode_of img hash s fvp ka \<Longrightarrow> str_to_key (cn_nameptr tcnp) = (0, kb) \<Longrightarrow>
    (case tvp of None \<Rightarrow> kv img s kb = None | Some t \<Rightarrow> vnode_of img hash s t kb \<and> t \<noteq> fvp) \<Longrightarrow>
    kvfs_rename K fdvp fvp tdvp tvp tcnp s = Inr (e, s') \<Longrightarrow> kvfs_step K img hash s (EvRename ka kb) s'"
| step_setattr: "vnode_of img hash s vp kb \<Longrightarrow> tv_sec (va_mtime vap) \<noteq> VNOVAL \<Longrightarrow>
    kvfs_setattr K vp vap s = Inr (e, s') \<Longrightarrow> kvfs_step K img hash s EvNone s'"
| step_read: "vnode_of img hash s vp kb \<Longrightarrow> 0 \<le> uio_offset u \<Longrightarrow> uio_offset u < int BLOCKSIZE \<Longrightarrow>
    0 < uio_resid u \<Longrightarrow> uio_resid u < 2 ^ 31 \<Longrightarrow> kvfs_read K vp u s = Some (Inr (e, u', s')) \<Longrightarrow> kvfs_step K img hash s EvNone s'"
| step_write: "vnode_of img hash s vp kb \<Longrightarrow> 0 \<le> uio_offset u \<Longrightarrow> 0 < uio_resid u \<Longrightarrow>
    uio_offset u + int (uio_resid u) \<le> int BLOCKSIZE \<Longrightarrow> uio_resid u \<le> length (uio_user u) \<Longrightarrow>
    kvfs_write K vp False u s = Some (Inr (e, u', s')) \<Longrightarrow>
    kvfs_step K img hash s (EvWrite kb (nat (uio_offset u)) (take (uio_resid u) (uio_user u))) s'"
| step_reclaim: "hash (kst s) ino = Some vp \<Longrightarrow> kvfs_reclaim K vp s = (e, s') \<Longrightarrow> kvfs_step K img hash s EvNone s'"

inductive kvfs_run :: "'k kern \<Rightarrow> ('k \<Rightarrow> image) \<Rightarrow> ('k \<Rightarrow> nat \<rightharpoonup> vid) \<Rightarrow> 'k fs \<Rightarrow> kv_event list \<Rightarrow> 'k fs \<Rightarrow> bool"
  for K img hash where
  run_nil: "kvfs_run K img hash s [] s"
| run_snoc: "kvfs_run K img hash s evs s' \<Longrightarrow> kvfs_step K img hash s' ev s'' \<Longrightarrow> kvfs_run K img hash s (evs @ [ev]) s''"

section \<open>Refusing a free entry\<close>

lemma hash_remove_fresh:
  "vp \<notin> ran h \<Longrightarrow> h a = None \<Longrightarrow> (\<lambda>i. if (h(a \<mapsto> vp)) i = Some vp then None else (h(a \<mapsto> vp)) i) = h"
  by (auto simp: ran_def fun_eq_iff)

lemma cache_forget: "cache_ok m mid V I h \<Longrightarrow> vp \<notin> ran h \<Longrightarrow> cache_ok m mid (V(vp := v)) I h"
  by (auto simp: cache_ok_def ran_def)

context healthy_kernel
begin

lemma vget_free:
  assumes wf: "kvfs_wf devsize img hash s" and i: "i < block_count (mnt s)" and free: "is_free (inodes (mnt s) (img (kst s)) ! i)"
  shows "\<exists>s'. kvfs_vget K (32 * i) fl s = Inr (ENOENT, None, s') \<and> kvfs_wf devsize img hash s' \<and> kv img s' = kv img s"
proof -
  note ok = kvfs_okD[OF wf[unfolded kvfs_wf_def]]
  have none: "hash (kst s) (32 * i) = None"
    using cache_okD(1)[OF ok(3), of i] free by (cases "hash (kst s) (32 * i)") (auto simp: live_def)
  obtain k1 where 1: "img k1 = img (kst s)" "hash k1 = hash (kst s)"
    "kvfs_vget_internal K (32 * i) fl None s = vget_new K (32 * i) (promote_lock fl) None (s\<lparr>kst := k1\<rparr>)"
    using vget_internal_miss[OF none] by blast
  have "hash (kst (s\<lparr>kst := k1\<rparr>)) (32 * i) = None" using 1 none by simp
  from vget_new_ok[OF this, of "promote_lock fl" None] obtain node k2 where
    2: "node \<notin> ran (hash (kst s))" "img k2 = img (kst s)" "hash k2 = (hash (kst s))(32 * i \<mapsto> node)"
    "vget_new K (32 * i) (promote_lock fl) None (s\<lparr>kst := k1\<rparr>) =
       vget_load K node (32 * i) None (set_vnode node (new_vnode\<lparr>v_mount := mnt_id s\<rparr>) (s\<lparr>kst := k2\<rparr>))"
    using root_ino_not_file[of i] 1 by (auto simp: Let_def)
  obtain b k3 where 3: "k_bread K k2 (btodb ((inode_off (mnt s) + 32 * i) mod 2 ^ 64)) DEV_BSIZE = (0, Some b, k3)"
    "length (b_data b) = 512" "decode_inode (slice (32 * i mod 512) 32 (b_data b)) = inodes (mnt s) (img (kst s)) ! i"
    "img k3 = img (kst s)" "hash k3 = hash k2"
    using read_inode_sector[OF ok(1) i, of k2] 2(2) by auto
  let ?k = "k_vput K (k_vfs_hash_remove K (k_brelse K k3 b) node) node"
  let ?s' = "set_vnode node ((new_vnode\<lparr>v_mount := mnt_id s\<rparr>)\<lparr>v_data := None\<rparr>) (s\<lparr>kst := ?k\<rparr>)"
  have "32 * i mod 512 + 32 \<le> 512" by (rule layout_inode_sector(4)[OF ok(1) i])
  then have call: "kvfs_vget K (32 * i) fl s = Inr (ENOENT, None, ?s')"
    using 1(3) 2(4) 3 free
    by (simp add: kvfs_vget_def vget_load_def Let_def DEV_BSIZE_def sizeof_inode_def is_free_def vget_error_exit_def)
  have h: "hash ?k = hash (kst s)" using 2(1,3) 3(5) hash_remove_fresh[OF 2(1) none] by (simp cong: if_cong)
  have "kvfs_wf devsize img hash ?s'"
    using ok 3(4) h cache_forget[OF ok(3) 2(1)] by (simp add: kvfs_wf_def kvfs_ok_def)
  then show ?thesis using call 3(4) by (intro exI[of _ ?s']) (simp add: kv_def)
qed

end

section \<open>Steps and runs\<close>

context healthy_kernel
begin

lemma step_refines:
  assumes "kvfs_step K img hash s ev s'" "kvfs_wf devsize img hash s"
  shows "kvfs_wf devsize img hash s' \<and> kv img s' = kv_apply ev (kv img s)"
  using assms
proof (induction rule: kvfs_step.induct)
  case (step_root fl s e v s')
  then show ?case using vget_root[of s fl] by (auto simp: kv_def)
next
  case (step_lookup s dvp cnp kb e v s')
  then show ?case using lookup_ok[of s dvp cnp kb] by (auto split: option.splits)
next
  case (step_create s dvp cnp kb e v s')
  show ?case
  proof (cases "freelist (mnt s) = []")
    case True
    then have "kvfs_create K dvp cnp s = Inr (ENOSPC, None, s)" using step_create create_full by blast
    then show ?thesis using step_create by (simp add: errno_defs)
  next
    case False
    then show ?thesis using step_create create_ok[of s dvp cnp kb] by auto
  qed
next
  case (step_remove s vp kb e s')
  then show ?case using remove_ok[of s vp kb] by auto
next
  case (step_rename s fvp ka tcnp kb tvp fdvp tdvp e s')
  then show ?case using rename_ok[of s fvp ka tcnp kb tvp fdvp tdvp] by auto
next
  case (step_setattr s vp kb vap e s')
  then show ?case using setattr_ok[of s vp kb vap] by auto
next
  case (step_read s vp kb u e u' s')
  then show ?case using read_ok[of s vp kb u] by auto
next
  case (step_write s vp kb u e u' s')
  then show ?case using write_ok[of s vp kb u] by auto
next
  case (step_reclaim s ino vp e s')
  then show ?case using reclaim_ok[of s ino vp] by auto
qed

lemma run_refines:
  assumes "kvfs_run K img hash s evs s'" "kvfs_wf devsize img hash s"
  shows "kvfs_wf devsize img hash s' \<and> kv img s' = fold kv_apply evs (kv img s)"
  using assms by (induction rule: kvfs_run.induct) (auto dest: step_refines)

end

lemma byte_place: "a < 8 \<Longrightarrow> (8 * q + a) div 8 = (q :: nat)" "a < 8 \<Longrightarrow> (8 * q + a) mod 8 = (a :: nat)"
  by simp_all

lemma zero_disk_magic: "magicnum (decode_superblock (peek (\<lambda>_. 0) 0 48)) \<noteq> KVFS_SUPERBLOCK_MAGIC"
proof -
  have "slice 0 2 (peek (\<lambda>_. 0) 0 48) = [0, 0 :: byte]" by (simp add: slice_peek) (simp add: peek_def numeral_2_eq_2)
  then show ?thesis by (simp add: decode_superblock_def KVFS_SUPERBLOCK_MAGIC_def)
qed

section \<open>Mounting\<close>

text \<open>C13: Mounting a disk that \<open>mkkvfs\<close> has formatted succeeds and establishes the invariant: every
  entry is on the free list, the bitmap, the inodes and the free list agree, and the file system
  is empty.\<close>

theorem mount_formatted:
  assumes "healthy_kernel K img hash devsize" and "devsize < 2 ^ 63"
    and "4096 \<le> disk" and "disk \<le> 2 ^ 42" and "init_superblock disk = Some sb"
    and "formatted sb (img (d_kst st))" and "unat (fs_size sb) \<le> devsize"
    and "hash (d_kst st) = Map.empty" and "mount_ready e st"
  shows "\<exists>st' m. kvfs_mount K e mp False st = Inr (0, st') \<and> mnt_data st' = MountData m \<and>
    kvfs_wf devsize img hash (fs_of st' mp m) \<and> kv img (fs_of st' mp m) = Map.empty \<and>
    unat (freelist_count m) = unat (sb_block_count sb)"
proof -
  note hk = assms(1)
  have lay: "layout_ok (mount_of sb) devsize" using formatted_layout assms by blast
  note v = formatted_views[OF lay assms(6) formatted_sizes[OF assms(3-5)]]
  let ?bytes = "\<lambda>i. img (d_kst st) (unat (sb_freelist_off sb) + i)"
  define fl where "fl = msb_freelist ?bytes (unat (sb_block_count sb))"
  have bc: "block_count (mount_of sb) = unat (sb_block_count sb)" by (simp add: mount_of_def)
  have "filter (msb_free ?bytes) [0..<unat (sb_block_count sb)] = [0..<unat (sb_block_count sb)]"
    using v(4) by (simp add: filter_id_conv bc)
  then have fl: "fl = rev (map (\<lambda>l. 32 * l) [0..<block_count (mount_of sb)])" by (simp add: fl_def msb_freelist_def bc)
  let ?m = "(mount_of sb)\<lparr>freelist := fl, freelist_count := word_of_nat (length fl)\<rparr>"
  have "decode_superblock (peek (img (d_kst st)) 0 48) = sb"
    using assms(6) by (simp add: formatted_def sizeof_superblock_def decode_encode_superblock[of sb "[]", simplified])
  from healthy_kernel.mount_good_superblock[OF hk assms(9) this init_superblock_magic[OF assms(3-5)] lay, of mp]
  obtain st' where st': "kvfs_mount K e mp False st = Inr (0, st')" "img (d_kst st') = img (d_kst st)"
    "hash (d_kst st') = hash (d_kst st)" "mnt_data st' = MountData ?m" unfolding fl_def by blast
  note e = entries_all_free[OF v(1-3) fl]
  have "kvfs_wf devsize img hash (fs_of st' mp ?m)"
    using lay e(1) st' assms(8) by (simp add: kvfs_wf_def kvfs_ok_def fs_of_def cache_ok_def)
  moreover have "kv img (fs_of st' mp ?m) = Map.empty" using e(2) st'(2) by (simp add: kv_def fs_of_def)
  moreover have "unat (freelist_count ?m) = unat (sb_block_count sb)"
    using fl bc by simp
  ultimately show ?thesis using st'(1,4) by blast
qed

theorem mount_formatted_witness:
  "\<exists>sb st' m. init_superblock 45056 = Some sb \<and>
    kvfs_mount demo_kern \<lparr>e_getopt = 0, e_namei = 0, e_isdisk = 0, e_g_vfs_open = 0, e_vflush = 0\<rparr> 1 False
      \<lparr>d_kst = \<lparr>ram_img = formatted_image sb, ram_hash = [], ram_next = 0\<rparr>, si_mountpt = 0, dev_refs = 0, devvp_refs = 0,
       devvp_locked = False, g_open = False, mnt_data = NoData, mnt_local = False, mntk_uses_bcache = False\<rparr> = Inr (0, st') \<and>
    mnt_data st' = MountData m \<and> kvfs_wf demo_size ram_img ram_lookup (fs_of st' 1 m) \<and>
    kv ram_img (fs_of st' 1 m) = Map.empty \<and> unat (freelist_count m) = unat (sb_block_count sb)"
proof -
  have k: "kvfs_total (int 8) = 45056" by (simp add: kvfs_total_def tdiv_pos_div)
  have p: "4096 \<le> (45056 :: int)" "(45056 :: int) \<le> 2 ^ 42" by simp_all
  obtain sb n where sb: "init_superblock 45056 = Some sb"
    and c: "kvfs_total (int n) = 45056 \<and> unat (sb_block_count sb) = n \<or>
      kvfs_total (int (unat (sb_block_count sb))) < 45056 \<and> 45056 < kvfs_total (int n) \<and> n = unat (sb_block_count sb) + 1"
    and lay: "unat (sb_freelist_off sb) = 4096"
      "unat (sb_inode_off sb) = 4096 + ((n + 7) div 8 + 4095) div 4096 * 4096"
      "unat (sb_data_off sb) = unat (sb_inode_off sb) + (n * 32 + 4095) div 4096 * 4096" "uint (fs_size sb) = kvfs_total (int n)"
    using init_superblock_nat[OF p] by blast
  define b where "b = unat (sb_block_count sb)"
  have c': "kvfs_total (int n) = 45056 \<or> kvfs_total (int b) < 45056 \<and> 45056 < kvfs_total (int n) \<and> n = b + 1"
    using c by (simp only: b_def) blast
  have "kvfs_total (int n) = 45056"
    using c' k kvfs_total_le_iff[of "int 8" "int b"] kvfs_total_le_iff[of "int n" "int 8"] by (cases "b < 8") auto
  then have fs: "unat (fs_size sb) \<le> demo_size" using lay(4) by (simp add: demo_size_def unat_eq_nat_uint)
  have fmt: "formatted sb (formatted_image sb)" by (rule formatted_formatted_image) (simp_all add: lay)
  let ?st = "\<lparr>d_kst = \<lparr>ram_img = formatted_image sb, ram_hash = [], ram_next = 0\<rparr>, si_mountpt = 0, dev_refs = 0, devvp_refs = 0,
       devvp_locked = False, g_open = False, mnt_data = NoData, mnt_local = False, mntk_uses_bcache = False\<rparr>"
  let ?e = "\<lparr>e_getopt = 0, e_namei = 0, e_isdisk = 0, e_g_vfs_open = 0, e_vflush = 0\<rparr>"
  show ?thesis
    using mount_formatted[where img = ram_img and hash = ram_lookup and sb = sb and st = ?st and e = ?e and mp = 1,
        OF demo_healthy _ p sb] fmt fs sb
    by (simp add: demo_size_def ram_lookup_def mount_ready_def)
qed

text \<open>C34: A mount that fails, whatever the kernel answers and wherever it fails, leaves the device marked as it was,
  unlocked, closed and with the references its \<open>cdev\<close> had. It does not give back everything: once \<open>namei\<close> has
  found a disk device, every later failure keeps the reference on its vnode, and every failure after
  \<open>g_vfs_open\<close> leaves \<open>mnt_data\<close> pointing to the freed mount structure.\<close>

theorem mount_failure_releases:
  assumes "kvfs_mount K e mp upd st = Inr (err, st')" and "err \<noteq> 0"
  shows "si_mountpt st' = si_mountpt st \<and> dev_refs st' = dev_refs st \<and>
    (\<not> g_open st \<longrightarrow> \<not> g_open st') \<and> (\<not> devvp_locked st \<longrightarrow> \<not> devvp_locked st') \<and>
    (let found = \<not> upd \<and> e_getopt e = 0 \<and> e_namei e = 0 \<and> e_isdisk e = 0 in
      devvp_refs st' = devvp_refs st + (if found then 1 else 0) \<and>
      mnt_data st' = (if found \<and> si_mountpt st = 0 \<and> e_g_vfs_open e = 0 then Dangling else mnt_data st))"
proof -
  note defs = kvfs_mount_def mount_read_superblock_def mount_read_freelist_def mount_error_exit_def Let_def
  have "si_mountpt st' = si_mountpt st" "dev_refs st' = dev_refs st"
    "\<not> g_open st \<longrightarrow> \<not> g_open st'" "\<not> devvp_locked st \<longrightarrow> \<not> devvp_locked st'"
    using assms by (auto simp: defs split: if_splits prod.splits option.splits)
  moreover have "devvp_refs st' = devvp_refs st + (if \<not> upd \<and> e_getopt e = 0 \<and> e_namei e = 0 \<and> e_isdisk e = 0 then 1 else 0)"
    using assms by (auto simp: defs split: if_splits prod.splits option.splits)
  moreover have "mnt_data st' = (if (\<not> upd \<and> e_getopt e = 0 \<and> e_namei e = 0 \<and> e_isdisk e = 0) \<and> si_mountpt st = 0 \<and>
      e_g_vfs_open e = 0 then Dangling else mnt_data st)"
    using assms by (auto simp: defs split: if_splits prod.splits option.splits)
  ultimately show ?thesis by (simp add: Let_def)
qed

theorem mount_failure_releases_witness:
  "\<exists>st'. kvfs_mount demo_kern \<lparr>e_getopt = 0, e_namei = 0, e_isdisk = 0, e_g_vfs_open = 0, e_vflush = 0\<rparr> 1 False
      \<lparr>d_kst = \<lparr>ram_img = \<lambda>_. 0, ram_hash = [], ram_next = 0\<rparr>, si_mountpt = 0, dev_refs = 4, devvp_refs = 0,
       devvp_locked = False, g_open = False, mnt_data = NoData, mnt_local = False, mntk_uses_bcache = False\<rparr> = Inr (EINVAL, st') \<and>
    si_mountpt st' = 0 \<and> dev_refs st' = 4 \<and> \<not> g_open st' \<and> \<not> devvp_locked st' \<and> devvp_refs st' = 1 \<and> mnt_data st' = Dangling"
proof -
  let ?st = "\<lparr>d_kst = \<lparr>ram_img = \<lambda>_. 0, ram_hash = [], ram_next = 0\<rparr>, si_mountpt = 0, dev_refs = 4, devvp_refs = 0,
       devvp_locked = False, g_open = False, mnt_data = NoData, mnt_local = False, mntk_uses_bcache = False\<rparr> :: ram mstate"
  let ?e = "\<lparr>e_getopt = 0, e_namei = 0, e_isdisk = 0, e_g_vfs_open = 0, e_vflush = 0\<rparr>"
  have "\<exists>st'. kvfs_mount demo_kern ?e 1 False ?st = Inr (EINVAL, st')"
    using zero_disk_magic
    by (simp add: kvfs_mount_def mount_read_superblock_def Let_def ram_kern_def demo_size_def BLOCKSIZE_def
        sizeof_superblock_def slice_peek)
  then obtain st' where st': "kvfs_mount demo_kern ?e 1 False ?st = Inr (EINVAL, st')" by blast
  then show ?thesis using mount_failure_releases[OF st'] by (simp add: errno_defs)
qed

text \<open>Mounting and unmounting are balanced: after a mount that succeeded, an unmount whose flush
  succeeds gives back every reference the mount took and clears the mount point.\<close>

theorem mount_unmount_balanced:
  assumes "kvfs_mount K e mp upd st = Inr (0, st1)" and "e_vflush e' = 0"
  shows "\<exists>st2. kvfs_unmount e' st1 = Inr (0, st2) \<and> si_mountpt st2 = 0 \<and> dev_refs st2 = dev_refs st \<and>
    devvp_refs st2 = devvp_refs st \<and> \<not> g_open st2 \<and> mnt_data st2 = NoData \<and> \<not> mnt_local st2"
  using assms
  by (auto simp: kvfs_mount_def mount_read_superblock_def mount_read_freelist_def mount_error_exit_def Let_def
      kvfs_unmount_def errno_defs split: if_splits prod.splits option.splits)

theorem mount_unmount_balanced_witness:
  "\<exists>st1 st2. kvfs_mount demo_kern \<lparr>e_getopt = 0, e_namei = 0, e_isdisk = 0, e_g_vfs_open = 0, e_vflush = 0\<rparr> 1 False
      \<lparr>d_kst = kst demo_fs, si_mountpt = 0, dev_refs = 4, devvp_refs = 2,
       devvp_locked = False, g_open = False, mnt_data = NoData, mnt_local = False, mntk_uses_bcache = False\<rparr> = Inr (0, st1) \<and>
    kvfs_unmount \<lparr>e_getopt = 0, e_namei = 0, e_isdisk = 0, e_g_vfs_open = 0, e_vflush = 0\<rparr> st1 = Inr (0, st2) \<and>
    si_mountpt st1 = 1 \<and> si_mountpt st2 = 0 \<and> dev_refs st2 = 4 \<and> devvp_refs st2 = 2 \<and> mnt_data st2 = NoData"
proof -
  let ?st = "\<lparr>d_kst = kst demo_fs, si_mountpt = 0, dev_refs = 4, devvp_refs = 2,
       devvp_locked = False, g_open = False, mnt_data = NoData, mnt_local = False, mntk_uses_bcache = False\<rparr> :: ram mstate"
  let ?e = "\<lparr>e_getopt = 0, e_namei = 0, e_isdisk = 0, e_g_vfs_open = 0, e_vflush = 0\<rparr>"
  have "mount_ready ?e ?st" by (simp add: mount_ready_def)
  moreover have "magicnum demo_sb = KVFS_SUPERBLOCK_MAGIC" by (simp add: demo_sb_def)
  moreover have "decode_superblock (peek (ram_img (d_kst ?st)) 0 48) = demo_sb" using demo_superblock_on_disk by simp
  ultimately obtain st1 where st1: "kvfs_mount demo_kern ?e 1 False ?st = Inr (0, st1)" "si_mountpt st1 = 1"
    using ram.mount_good_superblock[OF _ _ _ demo_layout, of ?e ?st] by blast
  then show ?thesis using mount_unmount_balanced[OF st1(1), of ?e] by auto
qed

text \<open>When the superblock has the wrong magic number, \<open>kvfs_mount\<close> frees its mount structure but leaves
  \<open>mp->mnt_data\<close> pointing to it, and never drops the reference on the device vnode that \<open>namei\<close>
  gave it.\<close>

theorem mount_failure_dangles:
  assumes "healthy_kernel K img hash devsize" and "BLOCKSIZE \<le> devsize" and "mount_ready e st"
    and "magicnum (decode_superblock (peek (img (d_kst st)) 0 48)) \<noteq> KVFS_SUPERBLOCK_MAGIC"
  shows "\<exists>st'. kvfs_mount K e mp False st = Inr (EINVAL, st') \<and> mnt_data st' = Dangling \<and>
    devvp_refs st' = devvp_refs st + 1"
proof -
  obtain k1 where k1: "k_bread K (d_kst st) 0 BLOCKSIZE =
      (0, Some \<lparr>b_blkno = 0, b_data = peek (img (d_kst st)) 0 BLOCKSIZE, b_resid = 0\<rparr>, k1)"
    using healthy_kernel.bread[OF assms(1), of 0 BLOCKSIZE "d_kst st"] assms(2) by auto
  have "slice 0 48 (peek (img (d_kst st)) 0 BLOCKSIZE) = peek (img (d_kst st)) 0 48"
    by (simp add: slice_peek BLOCKSIZE_def)
  then show ?thesis
    using assms(3,4) k1
    by (simp add: kvfs_mount_def mount_ready_def mount_read_superblock_def Let_def sizeof_superblock_def BLOCKSIZE_def
        mount_error_exit_def)
qed

theorem mount_failure_dangles_witness:
  "\<exists>st'. kvfs_mount demo_kern \<lparr>e_getopt = 0, e_namei = 0, e_isdisk = 0, e_g_vfs_open = 0, e_vflush = 0\<rparr> 1 False
      \<lparr>d_kst = \<lparr>ram_img = \<lambda>_. 0, ram_hash = [], ram_next = 0\<rparr>, si_mountpt = 0, dev_refs = 4, devvp_refs = 0,
       devvp_locked = False, g_open = False, mnt_data = NoData, mnt_local = False, mntk_uses_bcache = False\<rparr> = Inr (EINVAL, st') \<and>
    mnt_data st' = Dangling \<and> devvp_refs st' = 1"
proof -
  show ?thesis
    using mount_failure_dangles[where img = ram_img and hash = ram_lookup and st = "\<lparr>d_kst = \<lparr>ram_img = \<lambda>_. 0, ram_hash = [],
        ram_next = 0\<rparr>, si_mountpt = 0, dev_refs = 4, devvp_refs = 0, devvp_locked = False, g_open = False, mnt_data = NoData,
        mnt_local = False, mntk_uses_bcache = False\<rparr>" and mp = 1 and
        e = "\<lparr>e_getopt = 0, e_namei = 0, e_isdisk = 0, e_g_vfs_open = 0, e_vflush = 0\<rparr>", OF demo_healthy] zero_disk_magic
    by (simp add: mount_ready_def demo_size_def BLOCKSIZE_def)
qed

text \<open>C29: The mount reads each byte of the free bitmap from its most significant bit, while create and
  remove address the bits from the least significant one. So mounting a disk that has been in use
  takes a live entry for free when the entry at the mirrored place of its byte is free: the entry
  is on the free list, the invariant does not hold, and the next create overwrites the file.\<close>

theorem remount_frees_live_entry:
  assumes "healthy_kernel K img hash devsize" and "kvfs_wf devsize img hash s"
    and "decode_superblock (peek (img (kst s)) 0 48) = sb" and "magicnum sb = KVFS_SUPERBLOCK_MAGIC"
    and "mount_of sb = (mnt s)\<lparr>freelist := [], freelist_count := 0\<rparr>"
    and "live (inodes (mnt s) (img (kst s))) i"
    and "8 * (i div 8) + (7 - i mod 8) < block_count (mnt s)"
    and "\<not> live (inodes (mnt s) (img (kst s))) (8 * (i div 8) + (7 - i mod 8))"
    and "mount_ready e st" and "d_kst st = kst s"
  shows "\<exists>st' m. kvfs_mount K e mp False st = Inr (0, st') \<and> mnt_data st' = MountData m \<and>
    32 * i \<in> set (freelist m) \<and> \<not> kvfs_wf devsize img hash (fs_of st' mp m)"
proof -
  note ok = kvfs_okD[OF assms(2)[unfolded kvfs_wf_def]] and g = assms(5)
  let ?j = "8 * (i div 8) + (7 - i mod 8)" and ?d = "img (kst s)"
  have geo: "freelist_off (mnt s) = unat (sb_freelist_off sb)" "block_count (mnt s) = unat (sb_block_count sb)"
    using arg_cong[OF g, of freelist_off] arg_cong[OF g, of block_count] by (simp_all add: mount_of_def)
  have lay: "layout_ok (mount_of sb) devsize" using ok(1) g by simp
  have "\<not> used (mnt s) ?d ! ?j" using entries_okD(7)[OF ok(2), of ?j] assms(7,8) by simp
  moreover have jd: "?j div 8 = i div 8" "?j mod 8 = 7 - i mod 8" by (rule byte_place, simp)+
  ultimately have "\<not> bit (?d (freelist_off (mnt s) + i div 8)) (7 - i mod 8)"
    using views_nth(3)[OF assms(7), of ?d] by (simp only: jd) blast
  then have "msb_free (\<lambda>l. ?d (unat (sb_freelist_off sb) + l)) i" using geo by (simp add: msb_free_def)
  moreover have "i < unat (sb_block_count sb)" using live_bound[OF assms(6)] geo by simp
  ultimately have mem: "32 * i \<in> set (msb_freelist (\<lambda>l. ?d (unat (sb_freelist_off sb) + l)) (unat (sb_block_count sb)))"
    by (auto simp: msb_freelist_mem)
  obtain st' m where st': "kvfs_mount K e mp False st = Inr (0, st')" "img (d_kst st') = ?d" "mnt_data st' = MountData m"
    "m = (mount_of sb)\<lparr>freelist := msb_freelist (\<lambda>l. ?d (unat (sb_freelist_off sb) + l)) (unat (sb_block_count sb)),
      freelist_count := freelist_count m\<rparr>"
    using healthy_kernel.mount_good_superblock[OF assms(1,9) _ assms(4) lay, of mp] assms(3,10) by fastforce
  have "inode_off m = inode_off (mnt s)" "block_count m = block_count (mnt s)"
    using arg_cong[OF st'(4), of inode_off] arg_cong[OF st'(4), of block_count] g by simp_all
  then have I: "inodes m ?d = inodes (mnt s) ?d" by (simp add: inodes_def)
  have fl: "32 * i \<in> set (freelist m)"
    using arg_cong[OF st'(4), of freelist] mem by simp
  have "\<not> kvfs_wf devsize img hash (fs_of st' mp m)"
  proof
    assume "kvfs_wf devsize img hash (fs_of st' mp m)"
    then have "freelist_ok (inodes m ?d) (freelist m) (freelist_count m)"
      using st'(2) by (simp add: kvfs_wf_def kvfs_ok_def entries_ok_def fs_of_def)
    then show False using freelist_mem[of "inodes m ?d" "freelist m" "freelist_count m" "32 * i"] fl assms(6) I
      by (simp add: live_def)
  qed
  then show ?thesis using st' fl by blast
qed

theorem remount_frees_live_entry_witness:
  "\<exists>st' m. kvfs_mount demo_kern \<lparr>e_getopt = 0, e_namei = 0, e_isdisk = 0, e_g_vfs_open = 0, e_vflush = 0\<rparr> 1 False
      \<lparr>d_kst = kst demo_fs, si_mountpt = 0, dev_refs = 0, devvp_refs = 0,
       devvp_locked = False, g_open = False, mnt_data = NoData, mnt_local = False, mntk_uses_bcache = False\<rparr> = Inr (0, st') \<and>
    mnt_data st' = MountData m \<and> 0 \<in> set (freelist m) \<and> kv ram_img demo_fs demo_key = Some demo_block \<and>
    \<not> kvfs_wf demo_size ram_img ram_lookup (fs_of st' 1 m)"
proof -
  let ?st = "\<lparr>d_kst = kst demo_fs, si_mountpt = 0, dev_refs = 0, devvp_refs = 0,
       devvp_locked = False, g_open = False, mnt_data = NoData, mnt_local = False, mntk_uses_bcache = False\<rparr> :: ram mstate"
  let ?e = "\<lparr>e_getopt = 0, e_namei = 0, e_isdisk = 0, e_g_vfs_open = 0, e_vflush = 0\<rparr>"
  have g: "mount_of demo_sb = (mnt demo_fs)\<lparr>freelist := [], freelist_count := 0\<rparr>"
    by (simp add: demo_mount_def mount_of_def)
  have mg: "magicnum demo_sb = KVFS_SUPERBLOCK_MAGIC" by (simp add: demo_sb_def)
  have "\<exists>st' m. kvfs_mount demo_kern ?e 1 False ?st = Inr (0, st') \<and> mnt_data st' = MountData m \<and>
      32 * 0 \<in> set (freelist m) \<and> \<not> kvfs_wf demo_size ram_img ram_lookup (fs_of st' 1 m)"
    by (rule remount_frees_live_entry[OF demo_healthy demo_wf demo_superblock_on_disk mg g])
      (simp_all add: demo_live mount_ready_def)
  then show ?thesis using demo_kv by auto
qed

section \<open>Operations\<close>

text \<open>C7: Looking a name of 40 digits up in the root directory finds a file exactly when the map has its
  key: it returns the vnode of that file, or \<open>ENOENT\<close>, or \<open>EJUSTRETURN\<close> when the last component of a
  create or rename is missing; the map is unchanged and the invariant kept.\<close>

theorem kvfs_lookup_refines:
  assumes "healthy_kernel K img hash devsize" and "kvfs_wf devsize img hash s" and "root_of hash s dvp"
    and "cn_namelen cnp = KVFS_KEY_STRLEN" and "str_to_key (cn_nameptr cnp) = (0, kb)"
  shows "case kv img s kb of
      Some b \<Rightarrow> \<exists>vp s'. kvfs_lookup K dvp cnp s = Inr (0, Some vp, s') \<and> kvfs_wf devsize img hash s' \<and>
        vnode_of img hash s' vp kb \<and> kv img s' = kv img s
    | None \<Rightarrow> \<exists>s'. kvfs_lookup K dvp cnp s =
          Inr (if cn_islastcn cnp \<and> (cn_nameiop cnp = CREATE \<or> cn_nameiop cnp = RENAME) then EJUSTRETURN else ENOENT, None, s') \<and>
        kvfs_wf devsize img hash s' \<and> kv img s' = kv img s"
  using healthy_kernel.lookup_ok[OF assms] .

theorem kvfs_lookup_refines_witness:
  "\<exists>vp s'. kvfs_lookup demo_kern 1 \<lparr>cn_nameptr = replicate 40 (CHR ''1''), cn_namelen = 40, cn_nameiop = LOOKUP,
      cn_islastcn = True, cn_lkflags = LK_SHARED\<rparr> demo_fs = Inr (0, Some vp, s') \<and>
    kvfs_wf demo_size ram_img ram_lookup s' \<and> vnode_of ram_img ram_lookup s' vp demo_key \<and>
    kv ram_img s' = [demo_key \<mapsto> demo_block]"
proof -
  let ?c = "\<lparr>cn_nameptr = replicate 40 (CHR ''1''), cn_namelen = 40, cn_nameiop = LOOKUP, cn_islastcn = True, cn_lkflags = LK_SHARED\<rparr>"
  have "cn_namelen ?c = KVFS_KEY_STRLEN" "str_to_key (cn_nameptr ?c) = (0, demo_key)"
    using demo_name by (simp_all add: KVFS_KEY_STRLEN_def)
  from kvfs_lookup_refines[OF demo_healthy demo_wf demo_root this] show ?thesis
    by (simp add: demo_kv)
qed

text \<open>C6: Creating a file under a new valid name takes the first free entry and adds the key to the map with
  a zeroed block; the returned vnode is the new file's. With no entry left it returns \<open>ENOSPC\<close> and
  changes nothing.\<close>

theorem kvfs_create_refines:
  assumes "healthy_kernel K img hash devsize" and "kvfs_wf devsize img hash s" and "root_of hash s dvp"
    and "str_to_key (cn_nameptr cnp) = (0, kb)" and "kv img s kb = None"
  shows "if freelist (mnt s) = [] then kvfs_create K dvp cnp s = Inr (ENOSPC, None, s)
    else \<exists>vp s'. kvfs_create K dvp cnp s = Inr (0, Some vp, s') \<and> kvfs_wf devsize img hash s' \<and>
      vnode_of img hash s' vp kb \<and> kv img s' = (kv img s)(kb \<mapsto> zero_block) \<and>
      freelist (mnt s') = tl (freelist (mnt s))"
  using healthy_kernel.create_full[OF assms(1-3)] healthy_kernel.create_ok[OF assms] by simp

theorem kvfs_create_refines_witness:
  "\<exists>vp s'. kvfs_create demo_kern 1 \<lparr>cn_nameptr = replicate 40 (CHR ''0''), cn_namelen = 40, cn_nameiop = CREATE,
      cn_islastcn = True, cn_lkflags = LK_EXCLUSIVE\<rparr> demo_fs = Inr (0, Some vp, s') \<and>
    kvfs_wf demo_size ram_img ram_lookup s' \<and>
    kv ram_img s' = [demo_key \<mapsto> demo_block, replicate 20 0 \<mapsto> zero_block] \<and> freelist (mnt s') = [64, 96, 128, 160, 192, 224]"
proof -
  let ?c = "\<lparr>cn_nameptr = replicate 40 (CHR ''0''), cn_namelen = 40, cn_nameiop = CREATE, cn_islastcn = True, cn_lkflags = LK_EXCLUSIVE\<rparr>"
  have "str_to_key (cn_nameptr ?c) = (0, replicate 20 0)" "kv ram_img demo_fs (replicate 20 0) = None"
    using zero_name by (simp_all add: demo_kv demo_key_def)
  from kvfs_create_refines[OF demo_healthy demo_wf demo_root this] show ?thesis
    by (auto simp: demo_kv)
qed

text \<open>C8: Removing a file by its vnode deletes its key from the map, and returns the entry to the free
  list; every other cached file keeps its vnode.\<close>

theorem kvfs_remove_refines:
  assumes "healthy_kernel K img hash devsize" and "kvfs_wf devsize img hash s" and "vnode_of img hash s vp kb"
  shows "\<exists>s'. kvfs_remove K vp s = Inr (0, s') \<and> kvfs_wf devsize img hash s' \<and> kv img s' = (kv img s)(kb := None) \<and>
    length (freelist (mnt s')) = Suc (length (freelist (mnt s))) \<and>
    (\<forall>v kb'. v \<noteq> vp \<and> vnode_of img hash s v kb' \<longrightarrow> vnode_of img hash s' v kb')"
  using healthy_kernel.remove_ok[OF assms] by blast

theorem kvfs_remove_refines_witness:
  "\<exists>s'. kvfs_remove demo_kern 2 demo_fs = Inr (0, s') \<and> kvfs_wf demo_size ram_img ram_lookup s' \<and>
    kv ram_img s' = Map.empty \<and> length (freelist (mnt s')) = 8"
proof -
  have "[demo_key \<mapsto> demo_block](demo_key := None) = Map.empty" by simp
  then show ?thesis using kvfs_remove_refines[OF demo_healthy demo_wf demo_file] by (auto simp: demo_kv)
qed

text \<open>A new name for the file of the example: forty zeros.\<close>

definition zero_cn :: componentname where
  "zero_cn = \<lparr>cn_nameptr = replicate 40 (CHR ''0''), cn_namelen = 40, cn_nameiop = RENAME, cn_islastcn = True, cn_lkflags = LK_EXCLUSIVE\<rparr>"

lemma zero_cn_key: "str_to_key (cn_nameptr zero_cn) = (0, replicate 20 0)"
  using zero_name by (simp add: zero_cn_def)

lemma demo_rekeyed: "[demo_key \<mapsto> demo_block](demo_key := None, replicate 20 0 \<mapsto> demo_block) = [replicate 20 0 \<mapsto> demo_block]"
  by simp

text \<open>C9: Renaming within the file system, the target directory being on the mount of the file, moves the contents
  to the new key and deletes the old one, removing the file that had the new name, if any; the vnode stays with the
  file.\<close>

theorem kvfs_rename_refines:
  assumes "healthy_kernel K img hash devsize" and "kvfs_wf devsize img hash s" and "vnode_of img hash s fvp ka"
    and "v_mount (vns s tdvp) = v_mount (vns s fvp)" and "str_to_key (cn_nameptr tcnp) = (0, kb)"
    and "case tvp of None \<Rightarrow> kv img s kb = None | Some t \<Rightarrow> vnode_of img hash s t kb \<and> t \<noteq> fvp"
  shows "\<exists>s'. kvfs_rename K fdvp fvp tdvp tvp tcnp s = Inr (0, s') \<and> kvfs_wf devsize img hash s' \<and>
    kv img s' = (kv img s)(ka := None, kb := kv img s ka) \<and> vnode_of img hash s' fvp kb"
  using healthy_kernel.rename_ok[OF assms(1-3,5,6)] .

theorem kvfs_rename_refines_witness:
  "\<exists>s'. kvfs_rename demo_kern 1 2 1 None zero_cn demo_fs = Inr (0, s') \<and>
    kvfs_wf demo_size ram_img ram_lookup s' \<and> kv ram_img s' = [replicate 20 0 \<mapsto> demo_block]"
proof -
  have "v_mount (vns demo_fs 1) = v_mount (vns demo_fs 2)" by (simp add: demo_fs_def root_vnode_def file_vnode_def)
  from kvfs_rename_refines[OF demo_healthy demo_wf demo_file this zero_cn_key, of None 1] show ?thesis
    by (auto simp: demo_kv demo_key_def demo_rekeyed)
qed

text \<open>C35: A rename whose target directory is on another mount is not refused. The check sets \<open>error\<close> to \<open>EXDEV\<close>, but
  the result of \<open>str_to_key\<close> overwrites it, and the call returns 0 with the file renamed on its own file
  system: it has not moved to the target's.\<close>

theorem kvfs_rename_crosses_mounts:
  assumes "healthy_kernel K img hash devsize" and "kvfs_wf devsize img hash s" and "vnode_of img hash s fvp ka"
    and "v_mount (vns s tdvp) \<noteq> v_mount (vns s fvp)" and "str_to_key (cn_nameptr tcnp) = (0, kb)" and "kv img s kb = None"
  shows "rename_xdev fvp tdvp None s = EXDEV \<and> (\<exists>s'. kvfs_rename K fdvp fvp tdvp None tcnp s = Inr (0, s') \<and>
    kv img s' = (kv img s)(ka := None, kb := kv img s ka) \<and> vnode_of img hash s' fvp kb)"
  using healthy_kernel.rename_ok[OF assms(1-3,5), of None fdvp tdvp] assms(4,6) by (auto simp: rename_xdev_def)

theorem kvfs_rename_crosses_mounts_witness:
  "rename_xdev 2 9 None demo_fs = EXDEV \<and> (\<exists>s'. kvfs_rename demo_kern 9 2 9 None zero_cn demo_fs = Inr (0, s') \<and>
    kv ram_img s' = [replicate 20 0 \<mapsto> demo_block])"
proof -
  have m: "v_mount (vns demo_fs 9) \<noteq> v_mount (vns demo_fs 2)" by (simp add: demo_fs_def file_vnode_def new_vnode_def)
  have "kv ram_img demo_fs (replicate 20 0) = None" by (simp add: demo_kv demo_key_def)
  from kvfs_rename_crosses_mounts[OF demo_healthy demo_wf demo_file m zero_cn_key this, of 9] show ?thesis
    by (auto simp: demo_kv demo_rekeyed)
qed



text \<open>C10: A write within the block returns and changes the contents of the file at the offset to the bytes
  of the user, and nothing else.\<close>

theorem kvfs_write_refines:
  assumes "healthy_kernel K img hash devsize" and "kvfs_wf devsize img hash s" and "vnode_of img hash s vp kb"
    and "0 \<le> uio_offset u" and "0 < uio_resid u" and "uio_offset u + int (uio_resid u) \<le> int BLOCKSIZE"
    and "uio_resid u \<le> length (uio_user u)"
  shows "\<exists>u' s' bs. kv img s kb = Some bs \<and> kvfs_write K vp False u s = Some (Inr (0, u', s')) \<and> uio_resid u' = 0 \<and>
    kvfs_wf devsize img hash s' \<and> vnode_of img hash s' vp kb \<and>
    kv img s' = (kv img s)(kb \<mapsto> overlay (nat (uio_offset u)) (take (uio_resid u) (uio_user u)) bs)"
  using healthy_kernel.write_ok[OF assms] .

theorem kvfs_write_refines_witness:
  "\<exists>u' s'. kvfs_write demo_kern 2 False \<lparr>uio_offset = 1, uio_resid = 2, uio_user = [1, 2]\<rparr> demo_fs = Some (Inr (0, u', s')) \<and>
    kvfs_wf demo_size ram_img ram_lookup s' \<and> kv ram_img s' = [demo_key \<mapsto> overlay 1 [1, 2] demo_block]"
  using kvfs_write_refines[OF demo_healthy demo_wf demo_file, of "\<lparr>uio_offset = 1, uio_resid = 2, uio_user = [1, 2]\<rparr>"]
  by (auto simp: demo_kv BLOCKSIZE_def)

text \<open>A write that reaches past the end of the block is not refused: the copy runs over the end of the
  buffer.\<close>

theorem kvfs_write_overruns:
  assumes "healthy_kernel K img hash devsize" and "kvfs_wf devsize img hash s" and "vnode_of img hash s vp kb"
    and "0 < uio_resid u" and "uio_resid u < 2 ^ 31"
    and "int BLOCKSIZE < uio_offset u + int (min (uio_resid u) BLOCKSIZE)"
  shows "kvfs_write K vp False u s = Some (Inl OutOfBounds)"
  using healthy_kernel.write_overflow[OF assms] .

theorem kvfs_write_overruns_witness:
  "kvfs_write demo_kern 2 False \<lparr>uio_offset = 4095, uio_resid = 2, uio_user = [1, 2]\<rparr> demo_fs = Some (Inl OutOfBounds)"
  by (rule kvfs_write_overruns[OF demo_healthy demo_wf demo_file]) (simp_all add: BLOCKSIZE_def)

text \<open>What is written at the start of a file is what a read from the start delivers.\<close>

theorem kvfs_write_read:
  assumes "healthy_kernel K img hash devsize" and "kvfs_wf devsize img hash s" and "vnode_of img hash s vp kb"
    and "bs \<noteq> []" and "length bs \<le> BLOCKSIZE"
  shows "\<exists>u' s' u'' s''.
    kvfs_write K vp False \<lparr>uio_offset = 0, uio_resid = length bs, uio_user = bs\<rparr> s = Some (Inr (0, u', s')) \<and>
    kvfs_read K vp \<lparr>uio_offset = 0, uio_resid = length bs, uio_user = []\<rparr> s' = Some (Inr (0, u'', s'')) \<and> uio_user u'' = bs"
proof -
  let ?w = "\<lparr>uio_offset = 0, uio_resid = length bs, uio_user = bs\<rparr>" and ?r = "\<lparr>uio_offset = 0, uio_resid = length bs, uio_user = []\<rparr>"
  have l: "0 < length bs" "length bs < 2 ^ 31" using assms(4,5) by (auto simp: BLOCKSIZE_def)
  obtain u' s' old where w: "kvfs_write K vp False ?w s = Some (Inr (0, u', s'))" "kvfs_wf devsize img hash s'"
    "vnode_of img hash s' vp kb" "kv img s' kb = Some (overlay 0 bs old)"
    using healthy_kernel.write_ok[OF assms(1-3), of ?w] l assms(5) by auto
  obtain s'' where r: "kvfs_read K vp ?r s' = Some (Inr (0,
      ?r\<lparr>uio_offset := int (length bs), uio_resid := 0, uio_user := read_stream (overlay 0 bs old) (length bs)\<rparr>, s''))"
    using healthy_kernel.read_ok[OF assms(1) w(2,3), of ?r] l w(4) by (auto simp: BLOCKSIZE_def)
  have "read_stream (overlay 0 bs old) (length bs) = bs"
    using assms(5) by (intro nth_equalityI) (auto simp: read_stream_def overlay_def nth_append)
  then show ?thesis using w(1) r by auto
qed

theorem kvfs_write_read_witness:
  "\<exists>u' s' u'' s''. kvfs_write demo_kern 2 False \<lparr>uio_offset = 0, uio_resid = 3, uio_user = [1, 2, 3]\<rparr> demo_fs = Some (Inr (0, u', s')) \<and>
    kvfs_read demo_kern 2 \<lparr>uio_offset = 0, uio_resid = 3, uio_user = []\<rparr> s' = Some (Inr (0, u'', s'')) \<and> uio_user u'' = [1, 2, 3]"
  using kvfs_write_read[OF demo_healthy demo_wf demo_file, of "[1, 2, 3]"] by (simp add: BLOCKSIZE_def numeral_3_eq_3)

text \<open>A modification time set on a file is on disk and is the one \<open>kvfs_getattr\<close> reports, when it is a
  normalised time that fits into the 64 bits of the inode; the contents of the files are untouched.\<close>

theorem kvfs_mtime_roundtrip:
  assumes "healthy_kernel K img hash devsize" and "kvfs_wf devsize img hash s" and "vnode_of img hash s vp kb"
    and "va_mtime vap = ts" and "0 \<le> tv_sec ts" and "0 \<le> tv_nsec ts" and "tv_nsec ts < 1000000000"
    and "tv_sec ts * 1000000000 + tv_nsec ts < 2 ^ 64"
  shows "\<exists>s' va. kvfs_setattr K vp vap s = Inr (0, s') \<and> kvfs_wf devsize img hash s' \<and> kv img s' = kv img s \<and>
    kvfs_getattr udev vp s' = Inr (0, va) \<and> va_mtime va = ts \<and> va_type va = VREG \<and> va_size va = int BLOCKSIZE"
proof -
  have "tv_sec (va_mtime vap) \<noteq> VNOVAL" using assms(4,5) by (simp add: VNOVAL_def)
  from healthy_kernel.setattr_ok[OF assms(1-3) this] obtain s' knode where s': "kvfs_setattr K vp vap s = Inr (0, s')"
    "kvfs_wf devsize img hash s'" "kv img s' = kv img s" "v_data (vns s' vp) = Some knode"
    "i_timestamp (m_inode knode) = timespec_to_uint64 ts" "v_root (vns s' vp) = False"
    using assms(4) by blast
  then show ?thesis using unpack_pack[OF assms(5-8)] by (simp add: kvfs_getattr_def Let_def)
qed

theorem kvfs_mtime_roundtrip_witness:
  "\<exists>s' va. kvfs_setattr demo_kern 2 (vattr_null\<lparr>va_mtime := \<lparr>tv_sec = 1621814400, tv_nsec = 5\<rparr>\<rparr>) demo_fs = Inr (0, s') \<and>
    kvfs_getattr 77 2 s' = Inr (0, va) \<and> va_mtime va = \<lparr>tv_sec = 1621814400, tv_nsec = 5\<rparr>"
  using kvfs_mtime_roundtrip[OF demo_healthy demo_wf demo_file, of "vattr_null\<lparr>va_mtime := \<lparr>tv_sec = 1621814400, tv_nsec = 5\<rparr>\<rparr>"
      "\<lparr>tv_sec = 1621814400, tv_nsec = 5\<rparr>" 77] by auto

text \<open>C25: The root directory is one listing: \<open>.\<close>, \<open>..\<close>, and an entry for every key of the map, named by it. Each
  call of \<open>kvfs_readdir\<close> that continues behind any number of its entries, none included, copies out the longest
  run of the following entries that fits into the request and moves the offset behind them, so the next
  call continues there; it fails with \<open>EINVAL\<close>, copying nothing, exactly when an entry is left and the first
  one left does not fit.\<close>

theorem kvfs_readdir_pages:
  assumes "healthy_kernel K img hash devsize" and "kvfs_wf devsize img hash s" and "root_of hash s vp"
    and "q \<le> length (dir_listing (inodes (mnt s) (img (kst s))))"
    and "du_offset du = int (dirents_size (take q (dir_listing (inodes (mnt s) (img (kst s))))))"
  shows "\<exists>k' all page. all = dir_listing (inodes (mnt s) (img (kst s))) \<and>
    take 2 all = dot_dirents \<and> set (map d_name (drop 2 all)) = key_to_str ` dom (kv img s) \<and> length all = 2 + card (dom (kv img s)) \<and>
    page = fitting (du_resid du) (drop q all) \<and>
    kvfs_readdir K vp du s = Inr (if drop q all = [] \<or> page \<noteq> [] then 0 else EINVAL,
      du\<lparr>du_offset := int (dirents_size (take (q + length page) all)), du_resid := du_resid du - dirents_size page,
         du_user := du_user du @ page\<rparr>, k')"
proof -
  let ?all = "dir_listing (inodes (mnt s) (img (kst s)))"
  let ?page = "fitting (du_resid du) (drop q ?all)"
  note files = listing_files[OF kvfs_okD(2)[OF assms(2)[unfolded kvfs_wf_def]]]
  have "take 2 ?all = dot_dirents" by (simp add: dir_listing_def dot_dirents_def)
  moreover have "delivered ?page du = du\<lparr>du_offset := int (dirents_size (take (q + length ?page) ?all)),
      du_resid := du_resid du - dirents_size ?page, du_user := du_user du @ ?page\<rparr>"
    using fitting_take[of "du_resid du" "drop q ?all"] assms(5) by (simp add: delivered_def take_add)
  ultimately show ?thesis
    using healthy_kernel.readdir_listing[OF assms] files by (auto simp: kv_def)
qed

theorem kvfs_readdir_pages_witness:
  "\<exists>k'. kvfs_readdir demo_kern 1 \<lparr>du_offset = 32, du_resid = 110, du_user = []\<rparr> demo_fs = Inr (0,
    \<lparr>du_offset = 136, du_resid = 6, du_user = [dot_dirents ! 1, \<lparr>d_fileno = 0, d_off = 136, d_reclen = 72, d_type = DT_REG,
       d_namlen = 40, d_name = key_to_str demo_key\<rparr>]\<rparr>, k')"
proof -
  let ?I = "inodes (mnt demo_fs) (ram_img (kst demo_fs))"
  have I: "?I ! 0 = demo_inode" by (simp add: demo_inodes)
  have L: "live_list ?I = [0]" by (simp add: live_list_def demo_live upt_rec)
  have l: "dir_listing ?I = dot_dirents @ [\<lparr>d_fileno = 0, d_off = 136, d_reclen = 72, d_type = DT_REG, d_namlen = 40,
      d_name = key_to_str demo_key\<rparr>]"
    unfolding dir_listing_def L file_dirents.simps I by (simp add: demo_inode_props)
  show ?thesis
    using kvfs_readdir_pages[OF demo_healthy demo_wf demo_root, of 1 "\<lparr>du_offset = 32, du_resid = 110, du_user = []\<rparr>", unfolded l]
    by (simp add: dot_dirents_def demo_kv)
qed

text \<open>C33: The statistics are exact: the free blocks and the files add up to the blocks of the file system, and
  the number of files is the number of keys in the map.\<close>

theorem kvfs_statfs_counts:
  assumes "kvfs_wf devsize img hash s"
  shows "f_files (snd (kvfs_statfs s)) = card (dom (kv img s)) \<and>
    f_bfree (snd (kvfs_statfs s)) = length (freelist (mnt s)) \<and>
    f_files (snd (kvfs_statfs s)) + f_bfree (snd (kvfs_statfs s)) = f_blocks (snd (kvfs_statfs s))"
proof -
  note ok = kvfs_okD[OF assms[unfolded kvfs_wf_def]]
  let ?n = "block_count (mnt s)" and ?l = "length (freelist (mnt s))"
  have cap: "card (dom (kv img s)) + ?l = ?n" using capacity[OF ok(2)] by (simp add: kv_def)
  have cnt: "freelist_count (mnt s) = word_of_nat ?l" using entries_okD(3)[OF ok(2)] by (simp add: freelist_ok_def)
  have n: "?n < 2 ^ 32" using layout_okD(5)[OF ok(1)] by simp
  then have l: "unat (freelist_count (mnt s)) = ?l" using cap cnt by (simp add: unat_of_nat)
  have "word_of_nat ?n - freelist_count (mnt s) = (word_of_nat (card (dom (kv img s))) :: 32 word)"
    unfolding cnt using cap by (metis add_diff_cancel_right' of_nat_add)
  then have "unat (word_of_nat ?n - freelist_count (mnt s)) = card (dom (kv img s))"
    using cap n by (simp add: unat_of_nat)
  then show ?thesis using l cap by (simp add: kvfs_statfs_def Let_def)
qed

theorem kvfs_statfs_counts_witness:
  "f_files (snd (kvfs_statfs demo_fs)) = 1 \<and> f_bfree (snd (kvfs_statfs demo_fs)) = 7 \<and> f_blocks (snd (kvfs_statfs demo_fs)) = 8"
  using kvfs_statfs_counts[OF demo_wf] by (auto simp: demo_kv)

text \<open>Asking for the vnode of a free entry is refused with \<open>ENOENT\<close>, and the half-built vnode is taken out
  of the cache again: invariant and map are as before.\<close>

theorem kvfs_vget_refuses_free:
  assumes "healthy_kernel K img hash devsize" and "kvfs_wf devsize img hash s" and "32 * i \<in> set (freelist (mnt s))"
  shows "\<exists>s'. kvfs_vget K (32 * i) fl s = Inr (ENOENT, None, s') \<and> kvfs_wf devsize img hash s' \<and> kv img s' = kv img s"
proof -
  note ok = kvfs_okD[OF assms(2)[unfolded kvfs_wf_def]]
  have "i < block_count (mnt s)" "is_free (inodes (mnt s) (img (kst s)) ! i)"
    using freelist_mem[OF entries_okD(3)[OF ok(2)], of "32 * i"] assms(3) by simp_all
  then show ?thesis by (rule healthy_kernel.vget_free[OF assms(1,2)])
qed

theorem kvfs_vget_refuses_free_witness:
  "\<exists>s'. kvfs_vget demo_kern 32 LK_SHARED demo_fs = Inr (ENOENT, None, s') \<and> kvfs_wf demo_size ram_img ram_lookup s'"
  using kvfs_vget_refuses_free[OF demo_healthy demo_wf, of 1 LK_SHARED] by auto

text \<open>C1: Every run of operations from a state with the invariant ends in a state with the invariant, and
  the map at its end is the map at its start with the effects of the operations applied in order.\<close>

theorem kvfs_runs_refine:
  assumes "healthy_kernel K img hash devsize" and "kvfs_wf devsize img hash s" and "kvfs_run K img hash s evs s'"
  shows "kvfs_wf devsize img hash s' \<and> kv img s' = fold kv_apply evs (kv img s)"
  using healthy_kernel.run_refines[OF assms(1,3,2)] .

theorem kvfs_runs_refine_witness:
  "\<exists>s'. kvfs_run demo_kern ram_img ram_lookup demo_fs ([] @ [EvRemove demo_key]) s' \<and> kvfs_wf demo_size ram_img ram_lookup s' \<and>
    kv ram_img s' = [demo_key \<mapsto> demo_block](demo_key := None)"
proof -
  obtain s' where "kvfs_remove demo_kern 2 demo_fs = Inr (0, s')"
    using ram.remove_ok[OF demo_wf demo_file] by blast
  then have "kvfs_step demo_kern ram_img ram_lookup demo_fs (EvRemove demo_key) s'" by (rule step_remove[OF demo_file])
  then have run: "kvfs_run demo_kern ram_img ram_lookup demo_fs ([] @ [EvRemove demo_key]) s'" by (rule run_snoc[OF run_nil])
  then show ?thesis using kvfs_runs_refine[OF demo_healthy demo_wf run] by (auto simp: demo_kv)
qed

end
