(* ===== verification/Ddfs_Fs.thy ===== *)
theory Ddfs_Fs
  imports Kernel_Iface
begin

text \<open>
  \<open>deduplicating-fs/src/ddfs_fs.h\<close>: the superblock of ddfs with its summary structures, the cylinder
  group header, and the address macros. Signed C fields are integers; a macro is evaluated without
  overflow, which holds for the sizes of any device a superblock can describe. The lemmas show that
  the shift and mask macros compute the divisions their comments name, on every superblock whose
  derived fields are consistent (\<open>geometry_ok\<close>), and that the layout macros place the sections of a
  cylinder group in the order the header's layout comment gives.
\<close>

section \<open>Definitions\<close>

subsection \<open>Constants\<close>

definition SBLOCK_FLOPPY :: int where "SBLOCK_FLOPPY = 0"
definition SBLOCK_UFS1 :: int where "SBLOCK_UFS1 = 8192"
definition SBLOCK_UFS2 :: int where "SBLOCK_UFS2 = 65536"
definition SBLOCK_PIGGY :: int where "SBLOCK_PIGGY = 262144"
definition SBLOCKSIZE :: int where "SBLOCKSIZE = 8192"
definition SBLOCKSEARCH :: "int list" where
  "SBLOCKSEARCH = [SBLOCK_UFS2, SBLOCK_UFS1, SBLOCK_FLOPPY, SBLOCK_PIGGY, - 1]"

definition DEDUP_FRAC :: int where "DEDUP_FRAC = 8"
definition MAXFRAG :: int where "MAXFRAG = 8"
definition MINBSIZE :: int where "MINBSIZE = 4096"
definition FS_DDFS_MAGIC :: int where "FS_DDFS_MAGIC = 0x52386261"
definition FS_UFS1_MAGIC :: int where "FS_UFS1_MAGIC = 0x011954"
definition FS_BAD_MAGIC :: int where "FS_BAD_MAGIC = 0x19960408"
definition CG_MAGIC :: int where "CG_MAGIC = 0x090255"
definition FS_NEEDSFSCK :: int where "FS_NEEDSFSCK = 4"
definition FS_METACKHASH :: int where "FS_METACKHASH = 0x200"
definition FS_SUPPORTED :: int where "FS_SUPPORTED = 0x00FFFFFF"
definition CK_SUPERBLOCK :: int where "CK_SUPERBLOCK = 1"
definition CK_CYLGRP :: int where "CK_CYLGRP = 2"
definition CK_INODE :: int where "CK_INODE = 4"
definition CK_SUPPORTED :: int where "CK_SUPPORTED = 7"

text \<open>\<open>UFS_NDADDR\<close> of FreeBSD's \<open>ufs/ufs/dinode.h\<close>, \<open>MAXBSIZE\<close> and \<open>NBBY\<close> of \<open>sys/param.h\<close>.\<close>

definition UFS_NDADDR :: int where "UFS_NDADDR = 12"
definition MAXBSIZE :: int where "MAXBSIZE = 65536"
definition NBBY :: nat where "NBBY = 8"

lemmas ddfs_const_defs = SBLOCK_FLOPPY_def SBLOCK_UFS1_def SBLOCK_UFS2_def SBLOCK_PIGGY_def SBLOCKSIZE_def
  DEDUP_FRAC_def MAXFRAG_def MINBSIZE_def FS_DDFS_MAGIC_def FS_UFS1_MAGIC_def FS_BAD_MAGIC_def CG_MAGIC_def
  UFS_NDADDR_def MAXBSIZE_def

subsection \<open>Structures\<close>

record csum =
  cs_ndir :: int
  cs_nbfree :: int
  cs_nifree :: int
  cs_nffree :: int

record csum_total =
  cst_ndir :: int
  cst_nbfree :: int
  cst_nifree :: int
  cst_nffree :: int
  cst_numclusters :: int

text \<open>\<open>si_active\<close> is a null pointer unless a snapshot is being taken.\<close>

record fs_summary_info =
  si_contigdirs :: "nat list"
  si_csp :: "csum list"
  si_maxcluster :: "int list"
  si_active :: "32 word list option"

text \<open>The superblock without its historic and spare fields. \<open>fs_dedupfrags\<close> and \<open>fs_ddblkno\<close> are the
  names ddfs gives to the first two words of the structure.\<close>

record ddfs_fs =
  fs_dedupfrags :: int
  fs_ddblkno :: int
  fs_sblkno :: int
  fs_cblkno :: int
  fs_iblkno :: int
  fs_dblkno :: int
  fs_old_cgoffset :: int
  fs_old_cgmask :: int
  fs_ncg :: int
  fs_bsize :: int
  fs_fsize :: int
  fs_frag :: int
  fs_minfree :: int
  fs_bmask :: int
  fs_fmask :: int
  fs_bshift :: nat
  fs_fshift :: nat
  fs_maxcontig :: int
  fs_maxbpg :: int
  fs_fragshift :: nat
  fs_fsbtodb :: nat
  fs_sbsize :: int
  fs_nindir :: int
  fs_inopb :: int
  fs_optim :: int
  fs_cssize :: int
  fs_cgsize :: int
  fs_ipg :: int
  fs_fpg :: int
  fs_fmod :: int
  fs_clean :: int
  fs_ronly :: int
  fs_cgrotor :: int
  fs_si :: "fs_summary_info option"
  fs_metaspace :: int
  fs_sblockactualloc :: int
  fs_sblockloc :: int
  fs_cstotal :: csum_total
  fs_time :: int
  fs_size :: int
  fs_dsize :: int
  fs_csaddr :: int
  fs_avgfilesize :: int
  fs_avgfpdir :: int
  fs_ckhash :: int
  fs_metackhash :: int
  fs_flags :: int
  fs_contigsumsize :: int
  fs_maxfilesize :: int
  fs_qbmask :: int
  fs_qfmask :: int
  fs_magic :: int

text \<open>The cylinder group: the header's fields and the maps its offset fields locate
  (\<open>cg_inosused\<close>, \<open>cg_blksfree\<close>, \<open>cg_clustersfree\<close>, \<open>cg_clustersum\<close>) as byte and integer lists.\<close>

record cg =
  cg_magic :: int
  cg_cgx :: int
  cg_ndblk :: int
  cg_cs :: csum
  cg_rotor :: int
  cg_frotor :: int
  cg_irotor :: int
  cg_frsum :: "int list"
  cg_nclusterblks :: int
  cg_niblk :: int
  cg_initediblk :: int
  cg_inosused :: "byte list"
  cg_blksfree :: "byte list"
  cg_clustersum :: "int list"
  cg_clustersfree :: "byte list"

definition cg_chkmagic :: "cg \<Rightarrow> bool" where
  "cg_chkmagic cgp \<longleftrightarrow> cg_magic cgp = CG_MAGIC"

subsection \<open>Address macros\<close>

definition fsbtodb :: "ddfs_fs \<Rightarrow> int \<Rightarrow> int" where
  "fsbtodb fs b = push_bit (fs_fsbtodb fs) b"

definition dbtofsb :: "ddfs_fs \<Rightarrow> int \<Rightarrow> int" where
  "dbtofsb fs b = drop_bit (fs_fsbtodb fs) b"

definition cgbase :: "ddfs_fs \<Rightarrow> int \<Rightarrow> int" where
  "cgbase fs c = fs_fpg fs * c"

definition cgstart :: "ddfs_fs \<Rightarrow> int \<Rightarrow> int" where
  "cgstart fs c = (if fs_magic fs = FS_DDFS_MAGIC then cgbase fs c
     else cgbase fs c + fs_old_cgoffset fs * (c AND NOT (fs_old_cgmask fs)))"

definition cgdmin :: "ddfs_fs \<Rightarrow> int \<Rightarrow> int" where
  "cgdmin fs c = cgstart fs c + fs_dblkno fs"

definition cgdata :: "ddfs_fs \<Rightarrow> int \<Rightarrow> int" where
  "cgdata fs c = cgdmin fs c + fs_metaspace fs"

definition cgmeta :: "ddfs_fs \<Rightarrow> int \<Rightarrow> int" where
  "cgmeta fs c = cgdmin fs c"

definition cgimin :: "ddfs_fs \<Rightarrow> int \<Rightarrow> int" where
  "cgimin fs c = cgstart fs c + fs_iblkno fs"

definition cgsblock :: "ddfs_fs \<Rightarrow> int \<Rightarrow> int" where
  "cgsblock fs c = cgstart fs c + fs_ddblkno fs + fs_dedupfrags fs"

definition cgtod :: "ddfs_fs \<Rightarrow> int \<Rightarrow> int" where
  "cgtod fs c = cgstart fs c + fs_cblkno fs"

definition blkstofrags :: "ddfs_fs \<Rightarrow> int \<Rightarrow> int" where
  "blkstofrags fs blks = push_bit (fs_fragshift fs) blks"

definition fragstoblks :: "ddfs_fs \<Rightarrow> int \<Rightarrow> int" where
  "fragstoblks fs frags = drop_bit (fs_fragshift fs) frags"

definition INOPB :: "ddfs_fs \<Rightarrow> int" where
  "INOPB fs = fs_inopb fs"

definition INOPF :: "ddfs_fs \<Rightarrow> int" where
  "INOPF fs = drop_bit (fs_fragshift fs) (fs_inopb fs)"

text \<open>Inode numbers are unsigned; the block addresses the remaining macros divide are not negative.\<close>

definition ino_to_cg :: "ddfs_fs \<Rightarrow> int \<Rightarrow> int" where
  "ino_to_cg fs x = x div fs_ipg fs"

definition ino_to_fsba :: "ddfs_fs \<Rightarrow> int \<Rightarrow> int" where
  "ino_to_fsba fs x = cgimin fs (ino_to_cg fs x) + blkstofrags fs (x mod fs_ipg fs div INOPB fs)"

definition ino_to_fsbo :: "ddfs_fs \<Rightarrow> int \<Rightarrow> int" where
  "ino_to_fsbo fs x = x mod INOPB fs"

definition dtog :: "ddfs_fs \<Rightarrow> int \<Rightarrow> int" where
  "dtog fs d = d div fs_fpg fs"

definition dtogd :: "ddfs_fs \<Rightarrow> int \<Rightarrow> int" where
  "dtogd fs d = d mod fs_fpg fs"

definition blkmap :: "ddfs_fs \<Rightarrow> byte list \<Rightarrow> nat \<Rightarrow> nat" where
  "blkmap fs m loc =
     unat (drop_bit (loc mod NBBY) (m ! (loc div NBBY)) AND drop_bit (NBBY - nat (fs_frag fs)) 0xff)"

definition blkoff :: "ddfs_fs \<Rightarrow> int \<Rightarrow> int" where
  "blkoff fs loc = loc AND fs_qbmask fs"

definition fragoff :: "ddfs_fs \<Rightarrow> int \<Rightarrow> int" where
  "fragoff fs loc = loc AND fs_qfmask fs"

definition lfragtosize :: "ddfs_fs \<Rightarrow> int \<Rightarrow> int" where
  "lfragtosize fs fr = push_bit (fs_fshift fs) fr"

definition lblktosize :: "ddfs_fs \<Rightarrow> int \<Rightarrow> int" where
  "lblktosize fs blk = push_bit (fs_bshift fs) blk"

definition lblkno :: "ddfs_fs \<Rightarrow> int \<Rightarrow> int" where
  "lblkno fs loc = drop_bit (fs_bshift fs) loc"

definition numfrags :: "ddfs_fs \<Rightarrow> int \<Rightarrow> int" where
  "numfrags fs loc = drop_bit (fs_fshift fs) loc"

definition blkroundup :: "ddfs_fs \<Rightarrow> int \<Rightarrow> int" where
  "blkroundup fs sz = (sz + fs_qbmask fs) AND fs_bmask fs"

definition fragroundup :: "ddfs_fs \<Rightarrow> int \<Rightarrow> int" where
  "fragroundup fs sz = (sz + fs_qfmask fs) AND fs_fmask fs"

definition fragnum :: "ddfs_fs \<Rightarrow> int \<Rightarrow> int" where
  "fragnum fs fsb = fsb AND (fs_frag fs - 1)"

definition blknum :: "ddfs_fs \<Rightarrow> int \<Rightarrow> int" where
  "blknum fs fsb = fsb AND NOT (fs_frag fs - 1)"

definition freespace :: "ddfs_fs \<Rightarrow> int \<Rightarrow> int" where
  "freespace fs percentreserved = blkstofrags fs (cst_nbfree (fs_cstotal fs)) + cst_nffree (fs_cstotal fs)
     - tdiv (fs_dsize fs * percentreserved) 100"

definition sblksize :: "ddfs_fs \<Rightarrow> int \<Rightarrow> int \<Rightarrow> int" where
  "sblksize fs sz lbn =
     (if UFS_NDADDR \<le> lbn \<or> push_bit (fs_bshift fs) (lbn + 1) \<le> sz then fs_bsize fs
      else fragroundup fs (blkoff fs sz))"

text \<open>\<open>CGSIZE\<close> with \<open>sizeof(struct cg)\<close> (of 64-bit alignment, 176 bytes) and \<open>fs_old_cpg = 0\<close>, which
  only the 4.2BSD format sets.\<close>

definition howmany :: "int \<Rightarrow> int \<Rightarrow> int" where
  "howmany x y = (x + (y - 1)) div y"

definition roundup :: "int \<Rightarrow> int \<Rightarrow> int" where
  "roundup x y = (x + (y - 1)) div y * y"

definition CGSIZE :: "ddfs_fs \<Rightarrow> int" where
  "CGSIZE fs = 176 + 4 + howmany (fs_ipg fs) 8 + howmany (fs_fpg fs) 8 +
     (if fs_contigsumsize fs \<le> 0 then 0
      else fs_contigsumsize fs * 4 + howmany (fragstoblks fs (fs_fpg fs)) 8)"

definition lbn_level :: "int \<Rightarrow> int" where
  "lbn_level lbn = (if 0 \<le> lbn then 0 else
     (let b = lbn AND 3 in if b = 0 then 0 else if b = 1 then - 1 else if b = 2 then 2 else if b = 3 then 1 else - 1))"

fun lbn_offset_loop :: "ddfs_fs \<Rightarrow> nat \<Rightarrow> int \<Rightarrow> int" where
  "lbn_offset_loop fs 0 res = res"
| "lbn_offset_loop fs (Suc level) res = lbn_offset_loop fs level (res * fs_nindir fs)"

definition lbn_offset :: "ddfs_fs \<Rightarrow> int \<Rightarrow> int" where
  "lbn_offset fs level = lbn_offset_loop fs (nat level) 1"

text \<open>The consistency that \<open>mkfs\<close> establishes between the sizes and the fields derived from them.\<close>

definition geometry_ok :: "ddfs_fs \<Rightarrow> bool" where
  "geometry_ok fs \<longleftrightarrow> fs_bsize fs = 2 ^ fs_bshift fs \<and> fs_fsize fs = 2 ^ fs_fshift fs \<and>
     fs_frag fs = 2 ^ fs_fragshift fs \<and> fs_fragshift fs \<le> 3 \<and> fs_bshift fs = fs_fshift fs + fs_fragshift fs \<and>
     fs_fshift fs = 9 + fs_fsbtodb fs \<and> fs_bmask fs = NOT (fs_bsize fs - 1) \<and>
     fs_fmask fs = NOT (fs_fsize fs - 1) \<and> fs_qbmask fs = NOT (fs_bmask fs) \<and> fs_qfmask fs = NOT (fs_fmask fs)"

section \<open>The macros compute what their comments say\<close>

lemma geometryD:
  assumes "geometry_ok fs"
  shows "fs_bsize fs = 2 ^ fs_bshift fs" "fs_fsize fs = 2 ^ fs_fshift fs" "fs_frag fs = 2 ^ fs_fragshift fs"
    "fs_fragshift fs \<le> 3" "fs_qbmask fs = mask (fs_bshift fs)" "fs_qfmask fs = mask (fs_fshift fs)"
    "fs_bmask fs = NOT (mask (fs_bshift fs))" "fs_fmask fs = NOT (mask (fs_fshift fs))"
    "fs_bsize fs = fs_frag fs * fs_fsize fs" "fs_fsize fs = 512 * 2 ^ fs_fsbtodb fs"
  using assms by (auto simp: geometry_ok_def mask_eq_exp_minus_1 power_add)

lemma frag_cases: "geometry_ok fs \<Longrightarrow> fs_frag fs \<in> {1, 2, 4, 8}"
  using geometryD(3,4)[of fs] by (auto simp: le_Suc_eq numeral_eq_Suc)

lemma frag_pos: "geometry_ok fs \<Longrightarrow> 0 < fs_frag fs"
  by (simp add: geometryD(3))

lemma clear_low_bits: "(x :: int) AND NOT (mask n) = x div 2 ^ n * 2 ^ n"
proof -
  have "x AND NOT (mask n) = push_bit n (drop_bit n x)"
    by (rule bit_eqI) (auto simp: bit_simps)
  then show ?thesis by (simp add: push_bit_eq_mult drop_bit_eq_div)
qed

lemma mask_roundup: "(x + mask n :: int) AND NOT (mask n) = roundup x (2 ^ n)"
  unfolding clear_low_bits by (simp add: roundup_def mask_eq_exp_minus_1)

lemma fsbtodb_bytes: "geometry_ok fs \<Longrightarrow> 512 * fsbtodb fs b = fs_fsize fs * b"
  by (simp add: fsbtodb_def geometryD(10) push_bit_eq_mult)

lemma macros_div:
  assumes "geometry_ok fs"
  shows "blkoff fs x = x mod fs_bsize fs" "fragoff fs x = x mod fs_fsize fs"
    "lblkno fs x = x div fs_bsize fs" "numfrags fs x = x div fs_fsize fs"
    "lblktosize fs x = x * fs_bsize fs" "lfragtosize fs x = x * fs_fsize fs"
    "fragstoblks fs x = x div fs_frag fs" "blkstofrags fs x = x * fs_frag fs"
    "fragnum fs x = x mod fs_frag fs" "blknum fs x = x div fs_frag fs * fs_frag fs"
  using geometryD[OF assms]
  by (simp_all add: blkoff_def fragoff_def lblkno_def numfrags_def lblktosize_def lfragtosize_def
      fragstoblks_def blkstofrags_def fragnum_def blknum_def take_bit_eq_mask[symmetric] take_bit_eq_mod
      drop_bit_eq_div push_bit_eq_mult mask_eq_exp_minus_1[symmetric] clear_low_bits)

lemma roundups:
  assumes "geometry_ok fs"
  shows "blkroundup fs x = roundup x (fs_bsize fs)" "fragroundup fs x = roundup x (fs_fsize fs)"
  using geometryD(1,2,5-8)[OF assms] by (simp_all add: blkroundup_def fragroundup_def mask_roundup)

lemma roundup_bounds:
  assumes "0 < y"
  shows "x \<le> roundup x y" "roundup x y < x + y" "y dvd roundup x y"
proof -
  have e: "(x + (y - 1)) div y * y = x + (y - 1) - (x + (y - 1)) mod y" by (simp add: minus_mod_eq_div_mult)
  have "0 \<le> (x + (y - 1)) mod y" "(x + (y - 1)) mod y < y" using assms by auto
  then show "x \<le> roundup x y" "roundup x y < x + y" unfolding roundup_def e by linarith+
  show "y dvd roundup x y" by (simp add: roundup_def)
qed

lemma lbn_offset_power: "lbn_offset fs level = fs_nindir fs ^ nat level"
proof -
  have "lbn_offset_loop fs n r = r * fs_nindir fs ^ n" for n r
    by (induction n arbitrary: r) simp_all
  then show ?thesis by (simp add: lbn_offset_def)
qed

end
