(* ===== verification/Ddfs_Util.thy ===== *)
theory Ddfs_Util
  imports Ddfs_Fs
begin

text \<open>
  \<open>deduplicating-fs/src/ddfs.h\<close> and \<open>ddfs_util.c\<close>: the deduplication table. An entry maps the SHA-1 key
  of a 4k block to the block that holds it and counts the references to it; \<open>ddtable_alloc\<close> is called
  for a block just written, \<open>ddtable_unref\<close> for a block about to be freed. The table lies on disk from
  \<open>fs_ddblkno\<close> on and both operations scan it block by block through the buffer cache, a parameter
  (\<open>kern\<close>). What the code reads before initialising it is a parameter as well (\<open>junk\<close>).
\<close>

section \<open>Definitions\<close>

definition DDFS_BLOCKSIZE :: int where "DDFS_BLOCKSIZE = 4096"
definition DDFS_KEY_STRLEN :: nat where "DDFS_KEY_STRLEN = 40"
definition DDFS_DEDUP_FREE :: "16 word" where "DDFS_DEDUP_FREE = 0x0001"
definition DDFS_DEDUP_ACTIVE :: "16 word" where "DDFS_DEDUP_ACTIVE = 0x0010"

subsection \<open>Table entries\<close>

record ddfs_dedup =
  dd_key :: "byte list"
  dd_flags :: "16 word"
  dd_ref_count :: "16 word"
  dd_blockptr :: "64 word"

definition sizeof_dedup :: nat where "sizeof_dedup = 32"

definition encode_dedup :: "ddfs_dedup \<Rightarrow> byte list" where
  "encode_dedup e = dd_key e @ le_bytes 2 (unat (dd_flags e)) @ le_bytes 2 (unat (dd_ref_count e)) @
     le_bytes 8 (unat (dd_blockptr e))"

definition decode_dedup :: "byte list \<Rightarrow> ddfs_dedup" where
  "decode_dedup bs =
     \<lparr>dd_key = slice 0 20 bs, dd_flags = word_of_nat (le_val (slice 20 2 bs)),
      dd_ref_count = word_of_nat (le_val (slice 22 2 bs)), dd_blockptr = word_of_nat (le_val (slice 24 8 bs))\<rparr>"

text \<open>The type of the key field is \<open>uint8_t[20]\<close>.\<close>

definition wf_dedup :: "ddfs_dedup \<Rightarrow> bool" where
  "wf_dedup e \<longleftrightarrow> length (dd_key e) = 20"

text \<open>A zeroed entry marked free: what \<open>ddtable_unref\<close> leaves for a dead entry and \<open>mkfs\<close> writes.\<close>

definition free_entry :: ddfs_dedup where
  "free_entry = \<lparr>dd_key = replicate 20 0, dd_flags = DDFS_DEDUP_FREE, dd_ref_count = 0, dd_blockptr = 0\<rparr>"

subsection \<open>Keys\<close>

definition dd_hexdigit :: "char \<Rightarrow> int" where
  "dd_hexdigit c = (let v = of_char c :: int in
     if 48 \<le> v \<and> v \<le> 57 then v - 48
     else if 97 \<le> v \<and> v \<le> 102 then v - 97 + 10
     else if 65 \<le> v \<and> v \<le> 70 then v - 65 + 10
     else - 1)"

definition dd_digithex :: "int \<Rightarrow> char" where
  "dd_digithex digit = (if digit \<le> 9 then char_of (48 + digit) else char_of (97 + digit - 10))"

function dd_str_to_key_loop :: "string \<Rightarrow> nat \<Rightarrow> byte list \<Rightarrow> int \<times> byte list" where
  "dd_str_to_key_loop str i out_key =
     (if i < 40 then
        (let d = dd_hexdigit (str_at str i) in
         if d = - 1 then (1, out_key)
         else (let shift = (if i mod 2 = 0 then 4 else 0) in
               dd_str_to_key_loop str (i + 1)
                 (out_key[i div 2 := out_key ! (i div 2) OR word_of_int (d * 2 ^ shift)])))
      else (0, out_key))"
  by pat_completeness auto
termination
  by (relation "measure (\<lambda>(str, i, out_key). 40 - i)") auto

definition dd_str_to_key :: "string \<Rightarrow> int \<times> byte list" where
  "dd_str_to_key str = dd_str_to_key_loop str 0 (replicate 20 0)"

fun dd_key_to_str_loop :: "nat \<Rightarrow> byte list \<Rightarrow> string" where
  "dd_key_to_str_loop (Suc len) (b # key) =
     dd_digithex (uint (drop_bit 4 b)) # dd_digithex (uint (b AND 0x0f)) # dd_key_to_str_loop len key"
| "dd_key_to_str_loop _ _ = []"

definition dd_key_to_str :: "byte list \<Rightarrow> string" where
  "dd_key_to_str key = dd_key_to_str_loop 20 key"

text \<open>\<open>sha1\<close> stands for the kernel's \<open>sha1_init\<close>, \<open>sha1_loop\<close> and \<open>sha1_result\<close> in sequence.\<close>

definition hash_block :: "(byte list \<Rightarrow> byte list) \<Rightarrow> byte list \<Rightarrow> nat \<Rightarrow> int \<times> byte list" where
  "hash_block sha1 buf sz = (0, sha1 (take sz buf))"

subsection \<open>Searching the table\<close>

text \<open>The inner loop over the entries of one buffer. \<open>key\<close> and \<open>target\<close> are the two pointers of
  which one is null, \<open>want\<close> says that \<open>freebp\<close> is not null, \<open>st\<close> holds \<open>freespot\<close> (\<open>-1\<close> when no free
  spot has been seen), \<open>*freebp\<close> and \<open>found\<close>. Gives the offset of the matching entry, if any.\<close>

type_synonym scan_state = "int \<times> buf option \<times> bool"

function dd_scan :: "byte list option \<Rightarrow> 64 word option \<Rightarrow> bool \<Rightarrow> buf \<Rightarrow> nat \<Rightarrow> nat \<Rightarrow> scan_state \<Rightarrow>
    nat option \<times> scan_state" where
  "dd_scan key target want bp epb k st =
     (if k < epb then
        (let idx = k * sizeof_dedup; entry = decode_dedup (slice idx sizeof_dedup (b_data bp)) in
         if dd_flags entry AND DDFS_DEDUP_FREE \<noteq> 0 then
           dd_scan key target want bp epb (k + 1)
             (if fst st = - 1 \<and> want then (int idx, Some bp, True) else st)
         else case target of
           Some t \<Rightarrow> if dd_blockptr entry = t then (Some idx, st) else dd_scan key target want bp epb (k + 1) st
         | None \<Rightarrow> (case key of
             Some ky \<Rightarrow> if ky = dd_key entry then (Some idx, st) else dd_scan key target want bp epb (k + 1) st
           | None \<Rightarrow> dd_scan key target want bp epb (k + 1) st))
      else (None, st))"
  by pat_completeness auto
termination
  by (relation "measure (\<lambda>(key, target, want, bp, epb, k, st). epb - k)") auto

definition num_blocks :: "ddfs_fs \<Rightarrow> nat" where
  "num_blocks fs = nat (fs_dedupfrags fs div fs_frag fs)"

definition entries_per_block :: "ddfs_fs \<Rightarrow> nat" where
  "entries_per_block fs = nat (fs_bsize fs) div sizeof_dedup"

text \<open>The outer loop. The result is the return value, the buffer and offset of the match, \<open>*first_free\<close>
  (\<open>None\<close> where the code leaves it unassigned: after a read error, or when it is a null pointer) and
  \<open>*freebp\<close>. The source keeps a block with a free entry locked as it goes on, and does not release it when it finds
  a match in a later block; the locks of buffers are not part of the model.\<close>

type_synonym locate_result = "errno \<times> (buf \<times> nat) option \<times> int option \<times> buf option"

function dd_locate_loop :: "'k kern \<Rightarrow> ddfs_fs \<Rightarrow> byte list option \<Rightarrow> 64 word option \<Rightarrow> bool \<Rightarrow> nat \<Rightarrow>
    int \<Rightarrow> buf option \<Rightarrow> 'k \<Rightarrow> fault + locate_result \<times> 'k" where
  "dd_locate_loop K fs key target want i freespot freebp ks =
     (if i < num_blocks fs then
        (let dd_lbn = fsbtodb fs (fs_ddblkno fs + int i * fs_frag fs) in
         case k_bread K ks (nat dd_lbn) (nat (fs_bsize fs)) of (error, bpo, ks1) \<Rightarrow>
         if error \<noteq> 0 then Inr ((error, None, None, freebp), ks1)
         else case bpo of None \<Rightarrow> Inl NullDeref
         | Some bp \<Rightarrow>
           (case dd_scan key target want bp (entries_per_block fs) 0 (freespot, freebp, False) of
              (Some idx, spot, fb, found) \<Rightarrow>
                Inr ((0, Some (bp, idx), if want then Some spot else None, fb), ks1)
            | (None, spot, fb, found) \<Rightarrow>
                dd_locate_loop K fs key target want (i + 1) spot fb (if found then ks1 else k_brelse K ks1 bp)))
      else Inr ((1, None, if want then Some freespot else None, freebp), ks))"
  by pat_completeness auto
termination
  by (relation "measure (\<lambda>(K, fs, key, target, want, i, freespot, freebp, ks). num_blocks fs - i)") auto

definition ddtable_locate :: "'k kern \<Rightarrow> ddfs_fs \<Rightarrow> byte list option \<Rightarrow> 64 word option \<Rightarrow> bool \<Rightarrow> 'k \<Rightarrow>
    fault + locate_result \<times> 'k" where
  "ddtable_locate K fs key target want ks = dd_locate_loop K fs key target want 0 (- 1) None ks"

subsection \<open>The operations\<close>

text \<open>\<open>memcpy(bp->b_data + idx, &entry, sizeof entry)\<close>.\<close>

definition set_entry :: "buf \<Rightarrow> nat \<Rightarrow> ddfs_dedup \<Rightarrow> buf" where
  "set_entry bp idx entry = bp\<lparr>b_data := overlay idx (encode_dedup entry) (b_data bp)\<rparr>"

definition get_entry :: "buf \<Rightarrow> nat \<Rightarrow> ddfs_dedup" where
  "get_entry bp idx = decode_dedup (slice idx sizeof_dedup (b_data bp))"

text \<open>\<open>junk\<close> is the value of \<open>entry.flags\<close> on the stack, which the code ors \<open>ACTIVE\<close> into. A read error
  of \<open>ddtable_locate\<close> counts as not found, with \<open>freespot\<close> unassigned; a full table leaves \<open>freebp\<close>
  unassigned.\<close>

definition ddtable_alloc :: "'k kern \<Rightarrow> ddfs_fs \<Rightarrow> 16 word \<Rightarrow> byte list \<Rightarrow> 64 word \<Rightarrow> 'k \<Rightarrow>
    fault + (int \<times> 64 word) \<times> 'k" where
  "ddtable_alloc K fs junk key in_block ks =
     (case ddtable_locate K fs (Some key) None True ks of
        Inl f \<Rightarrow> Inl f
      | Inr ((notfound, hit, freespot, freebp), ks1) \<Rightarrow>
          if notfound \<noteq> 0 then
            (case (freespot, freebp) of
               (Some spot, Some fbp) \<Rightarrow>
                 (let entry = \<lparr>dd_key = key, dd_flags = junk OR DDFS_DEDUP_ACTIVE, dd_ref_count = 1,
                               dd_blockptr = in_block\<rparr>;
                      (e, ks2) = k_bwrite K ks1 (set_entry fbp (nat spot) entry)
                  in Inr ((0, dd_blockptr entry), ks2))
             | _ \<Rightarrow> Inl Uninitialised)
          else (case hit of None \<Rightarrow> Inl Uninitialised
            | Some (bp, idx) \<Rightarrow>
                (let entry = get_entry bp idx;
                     entry = entry\<lparr>dd_ref_count := dd_ref_count entry + 1\<rparr>;
                     (e, ks2) = k_bwrite K ks1 (set_entry bp idx entry)
                 in Inr ((0, dd_blockptr entry), ks2))))"

definition ddtable_unref :: "'k kern \<Rightarrow> ddfs_fs \<Rightarrow> 64 word \<Rightarrow> 'k \<Rightarrow> fault + int \<times> 'k" where
  "ddtable_unref K fs blocknum ks =
     (case ddtable_locate K fs None (Some blocknum) False ks of
        Inl f \<Rightarrow> Inl f
      | Inr ((notfound, hit, freespot, freebp), ks1) \<Rightarrow>
          if notfound \<noteq> 0 then Inr (- 1, ks1)
          else (case hit of None \<Rightarrow> Inl Uninitialised
            | Some (bp, idx) \<Rightarrow>
                (let entry = get_entry bp idx;
                     entry = entry\<lparr>dd_ref_count := dd_ref_count entry - 1\<rparr>;
                     entry = (if dd_ref_count entry = 0 then free_entry else entry);
                     (e, ks2) = k_bwrite K ks1 (set_entry bp idx entry)
                 in Inr (int (unat (dd_ref_count entry)), ks2))))"

declare dd_scan.simps [simp del] dd_locate_loop.simps [simp del] dd_str_to_key_loop.simps [simp del]

section \<open>Layout of an entry\<close>

lemma encode_dedup_32: "wf_dedup x \<Longrightarrow> length (encode_dedup x) = 32"
  by (simp add: encode_dedup_def wf_dedup_def)

lemma decode_encode_dedup: "wf_dedup e \<Longrightarrow> decode_dedup (encode_dedup e) = e"
  by (simp add: decode_dedup_def encode_dedup_def wf_dedup_def slice_skip slice_here slice_def le_field)

lemma wf_decode_dedup: "20 \<le> length bs \<Longrightarrow> wf_dedup (decode_dedup bs)"
  by (simp add: wf_dedup_def decode_dedup_def)

lemma wf_free_entry [simp]: "wf_dedup free_entry"
  by (simp add: wf_dedup_def free_entry_def)

interpretation dedup_codec: record_codec 32 encode_dedup decode_dedup wf_dedup
  by unfold_locales (use encode_dedup_32 decode_encode_dedup in blast)+

section \<open>Keys and strings\<close>

text \<open>Unlike kvfs, ddfs reads upper-case digits with the value of their lower-case counterparts.\<close>

definition lower_hex :: "char \<Rightarrow> char" where
  "lower_hex c = (let v = of_char c :: int in if 65 \<le> v \<and> v \<le> 70 then char_of (v + 32) else c)"

section \<open>Searching the table\<close>

definition dd_free :: "ddfs_dedup \<Rightarrow> bool" where
  "dd_free e \<longleftrightarrow> dd_flags e AND DDFS_DEDUP_FREE \<noteq> 0"

text \<open>The condition on a live entry that \<open>ddtable_locate\<close> searches for.\<close>

definition dd_match :: "byte list option \<Rightarrow> 64 word option \<Rightarrow> ddfs_dedup \<Rightarrow> bool" where
  "dd_match key target e \<longleftrightarrow> \<not> dd_free e \<and>
     (case target of Some t \<Rightarrow> dd_blockptr e = t | None \<Rightarrow> (case key of Some ky \<Rightarrow> ky = dd_key e | None \<Rightarrow> False))"

text \<open>The entries of one buffer.\<close>

definition buf_entries :: "nat \<Rightarrow> buf \<Rightarrow> ddfs_dedup list" where
  "buf_entries epb bp = map (\<lambda>k. get_entry bp (k * sizeof_dedup)) [0..<epb]"

text \<open>The effect of the free entries of a buffer on the scan state.\<close>

definition note_free :: "bool \<Rightarrow> buf \<Rightarrow> nat \<Rightarrow> ddfs_dedup list \<Rightarrow> scan_state \<Rightarrow> scan_state" where
  "note_free want bp k es st = (if fst st = - 1 \<and> want then
     (case index_of dd_free es of Some j \<Rightarrow> (int ((k + j) * sizeof_dedup), Some bp, True) | None \<Rightarrow> st) else st)"

lemma note_free_Cons: "note_free want bp k (e # es) st = note_free want bp (Suc k) es
    (if dd_free e \<and> fst st = - 1 \<and> want then (int (k * sizeof_dedup), Some bp, True) else st)"
  by (cases "index_of dd_free es") (auto simp: note_free_def sizeof_dedup_def)

lemma dd_scan_spec:
  "k \<le> epb \<Longrightarrow> dd_scan key target want bp epb k st =
    (case index_of (dd_match key target) (drop k (buf_entries epb bp)) of
       Some j \<Rightarrow> (Some ((k + j) * sizeof_dedup), note_free want bp k (take j (drop k (buf_entries epb bp))) st)
     | None \<Rightarrow> (None, note_free want bp k (drop k (buf_entries epb bp)) st))"
proof (induction key target want bp epb k st rule: dd_scan.induct)
  case (1 key target want bp epb k st)
  show ?case
  proof (cases "k < epb")
    case False
    then show ?thesis using 1(5) by (simp add: dd_scan.simps buf_entries_def note_free_def)
  next
    case True
    define e where "e = get_entry bp (k * sizeof_dedup)"
    define es where "es = drop (k + 1) (buf_entries epb bp)"
    have d: "drop k (buf_entries epb bp) = e # es"
      using True by (simp add: es_def e_def Cons_nth_drop_Suc[symmetric] buf_entries_def)
    note ih = 1(1-4)[OF True refl refl]
    have e': "decode_dedup (slice (k * sizeof_dedup) sizeof_dedup (b_data bp)) = e"
      by (simp add: e_def get_entry_def)
    show ?thesis
    proof (cases "dd_free e")
      case True
      have "dd_scan key target want bp epb k st = dd_scan key target want bp epb (k + 1)
          (if fst st = - 1 \<and> want then (int (k * sizeof_dedup), Some bp, True) else st)"
        using \<open>k < epb\<close> True by (simp add: dd_scan.simps[of key target want bp epb k st] e' dd_free_def Let_def)
      then show ?thesis using ih(1) True \<open>k < epb\<close> unfolding d
        by (simp add: e' dd_free_def es_def dd_match_def note_free_Cons split: option.splits)
    next
      case False
      show ?thesis
      proof (cases "dd_match key target e")
        case True
        then show ?thesis using False \<open>k < epb\<close> unfolding d
          by (auto simp: dd_scan.simps[of key target want bp epb k st] e' dd_free_def dd_match_def Let_def note_free_def
            split: option.splits)
      next
        case nm: False
        have "dd_scan key target want bp epb k st = dd_scan key target want bp epb (k + 1) st"
          using \<open>k < epb\<close> False nm by (auto simp: dd_scan.simps[of key target want bp epb k st] e' dd_free_def
            dd_match_def Let_def split: option.splits)
        moreover have "case target of Some t \<Rightarrow> dd_blockptr e \<noteq> t | None \<Rightarrow> (case key of Some ky \<Rightarrow> ky \<noteq> dd_key e | None \<Rightarrow> True)"
          using False nm by (auto simp: dd_match_def split: option.splits)
        then have "dd_scan key target want bp epb (k + 1) st =
            (case index_of (dd_match key target) es of
               Some j \<Rightarrow> (Some ((k + 1 + j) * sizeof_dedup), note_free want bp (k + 1) (take j es) st)
             | None \<Rightarrow> (None, note_free want bp (k + 1) es st))"
          using ih(2-4) False \<open>k < epb\<close> unfolding e' es_def[symmetric] dd_free_def
          by (cases target; cases key) simp_all
        ultimately show ?thesis unfolding d using False nm
          by (simp add: note_free_Cons split: option.splits)
      qed
    qed
  qed
qed

end
