(* ===== verification/Ddfs_Table.thy ===== *)
theory Ddfs_Table
  imports Ddfs_Util
begin

text \<open>
  The deduplication table as a list of entries: on a healthy device the block-wise scan of
  \<open>ddtable_locate\<close> is the search for the first live entry in that list, and the two operations
  replace one element of it.
\<close>

section \<open>Definitions\<close>

text \<open>Where the table lies on the device, in bytes, and how many entries it holds.\<close>

definition ddbase :: "ddfs_fs \<Rightarrow> nat" where
  "ddbase fs = nat (fs_fsize fs * fs_ddblkno fs)"

definition ddcount :: "ddfs_fs \<Rightarrow> nat" where
  "ddcount fs = num_blocks fs * entries_per_block fs"

definition ddtab :: "ddfs_fs \<Rightarrow> image \<Rightarrow> ddfs_dedup list" where
  "ddtab fs d = records decode_dedup 32 (ddbase fs) (ddcount fs) d"

definition table_ok :: "ddfs_fs \<Rightarrow> nat \<Rightarrow> bool" where
  "table_ok fs devsize \<longleftrightarrow> geometry_ok fs \<and> 0 \<le> fs_ddblkno fs \<and> ddbase fs + 32 * ddcount fs \<le> devsize"

text \<open>Nothing has changed on the device but the table.\<close>

definition table_frame :: "ddfs_fs \<Rightarrow> image \<Rightarrow> image \<Rightarrow> bool" where
  "table_frame fs d d' \<longleftrightarrow> (\<forall>a n. a + n \<le> ddbase fs \<or> ddbase fs + 32 * ddcount fs \<le> a \<longrightarrow> peek d' a n = peek d a n)"

lemma table_frame_refl [simp]: "table_frame fs d d"
  by (simp add: table_frame_def)

lemma table_frame_trans: "table_frame fs d d1 \<Longrightarrow> table_frame fs d1 d2 \<Longrightarrow> table_frame fs d d2"
  by (simp add: table_frame_def)

text \<open>The buffer of block \<open>i\<close> of the table.\<close>

definition blk_buf :: "ddfs_fs \<Rightarrow> image \<Rightarrow> nat \<Rightarrow> buf" where
  "blk_buf fs d i = \<lparr>b_blkno = nat (fsbtodb fs (fs_ddblkno fs + int i * fs_frag fs)),
     b_data = peek d (ddbase fs + 32 * (i * entries_per_block fs)) (nat (fs_bsize fs)), b_resid = 0\<rparr>"

text \<open>What the scan from block \<open>i\<close> on sees.\<close>

definition dd_rest :: "ddfs_fs \<Rightarrow> image \<Rightarrow> nat \<Rightarrow> ddfs_dedup list" where
  "dd_rest fs d i = records decode_dedup 32 (ddbase fs + 32 * (i * entries_per_block fs))
     ((num_blocks fs - i) * entries_per_block fs) d"

definition first_free_from :: "ddfs_fs \<Rightarrow> image \<Rightarrow> bool \<Rightarrow> nat \<Rightarrow> int \<Rightarrow> buf option \<Rightarrow> int \<times> buf option" where
  "first_free_from fs d want i spot fb = (if spot = - 1 \<and> want then
     (case index_of dd_free (dd_rest fs d i) of None \<Rightarrow> (spot, fb)
      | Some j \<Rightarrow> (int (j mod entries_per_block fs * 32), Some (blk_buf fs d (i + j div entries_per_block fs)))) else (spot, fb))"

section \<open>Geometry\<close>

lemma bsize_entries:
  assumes "geometry_ok fs"
  shows "nat (fs_bsize fs) = 32 * entries_per_block fs" "0 < entries_per_block fs"
proof -
  have "fs_bsize fs = fs_frag fs * (512 * 2 ^ fs_fsbtodb fs)" using geometryD(9,10)[OF assms] by simp
  also have "\<dots> = 32 * (fs_frag fs * (16 * 2 ^ fs_fsbtodb fs))" by simp
  finally have b: "fs_bsize fs = 32 * (fs_frag fs * (16 * 2 ^ fs_fsbtodb fs))" .
  have f: "0 < fs_frag fs * (16 * 2 ^ fs_fsbtodb fs)" using frag_pos[OF assms] by simp
  show "nat (fs_bsize fs) = 32 * entries_per_block fs" "0 < entries_per_block fs"
    using f unfolding b by (simp_all add: entries_per_block_def sizeof_dedup_def b nat_mult_distrib)
qed

lemma blk_buf_offset:
  assumes "geometry_ok fs" "0 \<le> fs_ddblkno fs"
  shows "512 * b_blkno (blk_buf fs d i) = ddbase fs + 32 * (i * entries_per_block fs)"
proof -
  note f = frag_pos[OF assms(1)]
  have "fsbtodb fs (fs_ddblkno fs + int i * fs_frag fs) \<ge> 0"
    using assms(2) f by (simp add: fsbtodb_def)
  then have "int (512 * b_blkno (blk_buf fs d i)) = 512 * fsbtodb fs (fs_ddblkno fs + int i * fs_frag fs)"
    by (simp add: blk_buf_def)
  also have "\<dots> = fs_fsize fs * fs_ddblkno fs + int i * fs_bsize fs"
    unfolding fsbtodb_bytes[OF assms(1)] geometryD(9)[OF assms(1)] by (simp add: algebra_simps)
  also have "\<dots> = int (ddbase fs + 32 * (i * entries_per_block fs))"
  proof -
    have "0 \<le> fs_fsize fs * fs_ddblkno fs" using assms geometryD(2)[OF assms(1)] by simp
    moreover have "fs_bsize fs = 32 * int (entries_per_block fs)"
      using bsize_entries(1)[OF assms(1)] geometryD(1)[OF assms(1)] by (simp add: nat_eq_iff)
    ultimately show ?thesis by (simp add: ddbase_def)
  qed
  finally show ?thesis by (simp only: of_nat_eq_iff)
qed

lemma block_within:
  assumes "table_ok fs devsize" "i < num_blocks fs"
  shows "512 * b_blkno (blk_buf fs d i) + nat (fs_bsize fs) \<le> devsize"
proof -
  have "Suc i * entries_per_block fs \<le> ddcount fs" unfolding ddcount_def using assms(2) by (intro mult_le_mono1) simp
  then show ?thesis using assms(1) blk_buf_offset[of fs d i] bsize_entries(1)[of fs]
    unfolding table_ok_def by simp
qed

lemma buf_entries_blk:
  assumes "geometry_ok fs"
  shows "buf_entries (entries_per_block fs) (blk_buf fs d i) =
    records decode_dedup 32 (ddbase fs + 32 * (i * entries_per_block fs)) (entries_per_block fs) d"
  unfolding buf_entries_def records_def
proof (rule map_cong[OF refl])
  fix k assume "k \<in> set [0..<entries_per_block fs]"
  then have "k * 32 + 32 \<le> nat (fs_bsize fs)" using bsize_entries(1)[OF assms] by simp
  then show "get_entry (blk_buf fs d i) (k * sizeof_dedup) =
      decode_dedup (peek d (ddbase fs + 32 * (i * entries_per_block fs) + 32 * k) 32)"
    by (simp add: get_entry_def blk_buf_def sizeof_dedup_def slice_peek mult.commute)
qed

lemma dd_rest_step:
  assumes "geometry_ok fs" "i < num_blocks fs"
  shows "dd_rest fs d i = buf_entries (entries_per_block fs) (blk_buf fs d i) @ dd_rest fs d (i + 1)"
proof -
  have "(num_blocks fs - i) * entries_per_block fs = entries_per_block fs + (num_blocks fs - (i + 1)) * entries_per_block fs"
    using assms(2) by (metis Suc_diff_Suc Suc_eq_plus1 mult_Suc)
  then show ?thesis
    by (simp add: dd_rest_def buf_entries_blk[OF assms(1)] records_split algebra_simps)
qed

lemma dd_rest_end: "dd_rest fs d (num_blocks fs) = []"
  by (simp add: dd_rest_def records_def)

lemma dd_rest_0: "dd_rest fs d 0 = ddtab fs d"
  by (simp add: dd_rest_def ddtab_def ddcount_def)

lemma length_ddtab [simp]: "length (ddtab fs d) = ddcount fs"
  by (simp add: ddtab_def)

text \<open>Entry \<open>j\<close> of the table, found in its block's buffer and written back there.\<close>

lemma get_entry_blk:
  assumes "geometry_ok fs" "j < ddcount fs"
  shows "get_entry (blk_buf fs d (j div entries_per_block fs)) (j mod entries_per_block fs * 32) = ddtab fs d ! j"
proof -
  let ?E = "entries_per_block fs"
  note e = bsize_entries[OF assms(1)]
  have m: "j mod ?E * 32 + 32 \<le> nat (fs_bsize fs)" using mod_less_divisor[OF e(2), of j] unfolding e(1) by linarith
  have "ddbase fs + 32 * (j div ?E * ?E) + j mod ?E * 32 = ddbase fs + 32 * j"
    using div_mult_mod_eq[of j ?E] by linarith
  then show ?thesis using m assms(2)
    by (simp add: get_entry_def blk_buf_def sizeof_dedup_def slice_peek ddtab_def records_nth add.assoc)
qed

lemma length_blk_buf: "length (b_data (blk_buf fs d i)) = nat (fs_bsize fs)"
  by (simp add: blk_buf_def)

context healthy_kernel
begin

lemma bread_block:
  assumes "table_ok fs devsize" "i < num_blocks fs"
  shows "\<exists>ks'. k_bread K ks (nat (fsbtodb fs (fs_ddblkno fs + int i * fs_frag fs))) (nat (fs_bsize fs)) =
    (0, Some (blk_buf fs (img ks) i), ks') \<and> img ks' = img ks"
  using bread[of "b_blkno (blk_buf fs (img ks) i)" "nat (fs_bsize fs)" ks] block_within[OF assms, of "img ks"]
    blk_buf_offset[of fs "img ks" i] assms(1)
  by (auto simp: blk_buf_def table_ok_def)

lemma write_entry:
  assumes "table_ok fs devsize" "j < ddcount fs" "wf_dedup e" "img ks1 = img ks"
  shows "\<exists>ks2. k_bwrite K ks1 (set_entry (blk_buf fs (img ks) (j div entries_per_block fs))
      (j mod entries_per_block fs * 32) e) = (0, ks2) \<and> ddtab fs (img ks2) = (ddtab fs (img ks))[j := e] \<and>
      table_frame fs (img ks) (img ks2)"
proof -
  let ?E = "entries_per_block fs" and ?i = "j div entries_per_block fs"
  let ?bp = "set_entry (blk_buf fs (img ks) ?i) (j mod ?E * 32) e"
  have g: "geometry_ok fs" "0 \<le> fs_ddblkno fs" using assms(1) by (auto simp: table_ok_def)
  note E = bsize_entries[OF g(1)]
  have i: "?i < num_blocks fs" using assms(2) E(2) by (simp add: ddcount_def less_mult_imp_div_less)
  have m: "j mod ?E * 32 + length (encode_dedup e) \<le> nat (fs_bsize fs)"
    using mod_less_divisor[OF E(2), of j] unfolding E(1) encode_dedup_32[OF assms(3)] by linarith
  have b: "b_blkno ?bp = b_blkno (blk_buf fs (img ks) ?i)" by (simp add: set_entry_def)
  have "512 * b_blkno ?bp + length (b_data ?bp) \<le> devsize"
    using block_within[OF assms(1) i, of "img ks"] m by (simp add: set_entry_def length_blk_buf)
  from bwrite[OF this, of ks1] obtain ks2 where w: "k_bwrite K ks1 ?bp = (0, ks2)"
    "img ks2 = poke (img ks1) (512 * b_blkno ?bp) (b_data ?bp)" by blast
  have o: "ddbase fs + 32 * (?i * ?E) + j mod ?E * 32 = ddbase fs + 32 * j"
    using div_mult_mod_eq[of j ?E] by linarith
  have p: "img ks2 = poke (img ks) (ddbase fs + 32 * j) (encode_dedup e)"
    using poke_overlay[OF m, of "img ks" "ddbase fs + 32 * (?i * ?E)"] unfolding w(2) b assms(4) blk_buf_offset[OF g] o
    by (simp add: set_entry_def blk_buf_def)
  have "peek (img ks2) a n = peek (img ks) a n" if "a + n \<le> ddbase fs \<or> ddbase fs + 32 * ddcount fs \<le> a" for a n
    unfolding p by (rule peek_poke_disjoint) (use that assms(2) encode_dedup_32[OF assms(3)] in linarith)
  then have "table_frame fs (img ks) (img ks2)" by (simp add: table_frame_def)
  moreover have "ddtab fs (img ks2) = (ddtab fs (img ks))[j := e]"
    unfolding p ddtab_def by (rule dedup_codec.records_put[OF assms(2,3)])
  ultimately show ?thesis using w(1) by blast
qed

text \<open>The scan from block \<open>i\<close> on finds the first live match, or else notes the first free entry.\<close>

lemma locate_loop_hit:
  assumes "table_ok fs devsize" "i \<le> num_blocks fs" "index_of (dd_match key target) (dd_rest fs (img ks) i) = Some j"
  shows "\<exists>ff fb' ks'. dd_locate_loop K fs key target want i spot fb ks = Inr ((0, Some
    (blk_buf fs (img ks) (i + j div entries_per_block fs), j mod entries_per_block fs * 32), ff, fb'), ks') \<and> img ks' = img ks"
  using assms(2,3)
proof (induction "num_blocks fs - i" arbitrary: i j spot fb ks)
  case 0
  then have "i = num_blocks fs" by simp
  then show ?case using 0 by (simp add: dd_rest_end)
next
  case (Suc n)
  let ?E = "entries_per_block fs" and ?bp = "blk_buf fs (img ks) i"
  let ?es = "buf_entries ?E ?bp"
  have i: "i < num_blocks fs" and n: "n = num_blocks fs - (i + 1)" using Suc(2) by auto
  have g: "geometry_ok fs" using assms(1) by (simp add: table_ok_def)
  note E = bsize_entries(2)[OF g]
  have len: "length ?es = ?E" by (simp add: buf_entries_def)
  obtain ks1 where r: "k_bread K ks (nat (fsbtodb fs (fs_ddblkno fs + int i * fs_frag fs))) (nat (fs_bsize fs)) =
    (0, Some ?bp, ks1)" "img ks1 = img ks" using bread_block[OF assms(1) i] by blast
  note u = dd_locate_loop.simps[of K fs key target want i spot fb ks] and sc = dd_scan_spec[of 0 ?E key target want ?bp]
  show ?case
  proof (cases "index_of (dd_match key target) ?es")
    case (Some j')
    then have "j = j'" using Suc(4) by (simp add: dd_rest_step[OF g i] index_of_append)
    then have "j < ?E" using index_of_SomeD(1)[OF Some] len by simp
    then show ?thesis using Some \<open>j = j'\<close> i r by (auto simp: u sc Let_def sizeof_dedup_def split: prod.splits)
  next
    case None
    then obtain j' where j': "index_of (dd_match key target) (dd_rest fs (img ks) (i + 1)) = Some j'" "j = ?E + j'"
      using Suc(4) by (auto simp: dd_rest_step[OF g i] index_of_append len)
    obtain spot' fb' found where nf: "note_free want ?bp 0 ?es (spot, fb, False) = (spot', fb', found)"
      by (metis prod_cases3)
    let ?ks = "if found then ks1 else k_brelse K ks1 ?bp"
    have im: "img ?ks = img ks" using r(2) by simp
    have "dd_locate_loop K fs key target want i spot fb ks =
        dd_locate_loop K fs key target want (i + 1) spot' fb' ?ks"
      using None i r nf by (simp add: u sc Let_def)
    moreover have "i + j div ?E = i + 1 + j' div ?E" "j mod ?E = j' mod ?E" using j'(2) E by (auto simp: div_add_self1)
    ultimately show ?thesis using Suc(1)[OF n, of ?ks j' spot' fb'] i j'(1) im by simp
  qed
qed

lemma locate_loop_miss:
  assumes "table_ok fs devsize" "i \<le> num_blocks fs" "index_of (dd_match key target) (dd_rest fs (img ks) i) = None"
  shows "\<exists>ks'. dd_locate_loop K fs key target want i spot fb ks = Inr ((1, None,
      if want then Some (fst (first_free_from fs (img ks) want i spot fb)) else None,
      snd (first_free_from fs (img ks) want i spot fb)), ks') \<and> img ks' = img ks"
  using assms(2,3)
proof (induction "num_blocks fs - i" arbitrary: i spot fb ks)
  case 0
  then have "i = num_blocks fs" by simp
  then show ?case by (simp add: dd_locate_loop.simps first_free_from_def dd_rest_end)
next
  case (Suc n)
  let ?E = "entries_per_block fs" and ?bp = "blk_buf fs (img ks) i"
  let ?es = "buf_entries ?E ?bp"
  have i: "i < num_blocks fs" and n: "n = num_blocks fs - (i + 1)" using Suc(2) by auto
  have g: "geometry_ok fs" using assms(1) by (simp add: table_ok_def)
  note E = bsize_entries(2)[OF g]
  have len: "length ?es = ?E" by (simp add: buf_entries_def)
  obtain ks1 where r: "k_bread K ks (nat (fsbtodb fs (fs_ddblkno fs + int i * fs_frag fs))) (nat (fs_bsize fs)) =
    (0, Some ?bp, ks1)" "img ks1 = img ks" using bread_block[OF assms(1) i] by blast
  have no: "index_of (dd_match key target) ?es = None" "index_of (dd_match key target) (dd_rest fs (img ks) (i + 1)) = None"
    using Suc(4) by (auto simp: dd_rest_step[OF g i] index_of_append split: option.splits)
  obtain spot' fb' found where nf: "note_free want ?bp 0 ?es (spot, fb, False) = (spot', fb', found)"
    by (metis prod_cases3)
  let ?ks = "if found then ks1 else k_brelse K ks1 ?bp"
  have im: "img ?ks = img ks" using r(2) by simp
  have step: "dd_locate_loop K fs key target want i spot fb ks =
      dd_locate_loop K fs key target want (i + 1) spot' fb' ?ks"
    using no(1) i r nf
    by (simp add: dd_locate_loop.simps[of K fs key target want i spot fb ks] dd_scan_spec[of 0 ?E key target want ?bp] Let_def)
  have ff: "first_free_from fs (img ks) want (i + 1) spot' fb' = first_free_from fs (img ks) want i spot fb"
  proof (cases "index_of dd_free ?es")
    case None
    then have "spot' = spot" "fb' = fb" using nf by (auto simp: note_free_def split: if_splits)
    then show ?thesis using None E
      by (auto simp: first_free_from_def dd_rest_step[OF g i] index_of_append len div_add_self1 split: option.splits)
  next
    case (Some j)
    then have "j < ?E" using index_of_SomeD(1) len by fastforce
    then show ?thesis using Some nf E
      by (auto simp: first_free_from_def dd_rest_step[OF g i] index_of_append note_free_def sizeof_dedup_def split: if_splits)
  qed
  have p: "i + 1 \<le> num_blocks fs" "index_of (dd_match key target) (dd_rest fs (img ?ks) (i + 1)) = None"
    using i no(2) unfolding im by simp_all
  show ?case using Suc(1)[OF n p, of spot' fb'] unfolding im ff step .
qed

section \<open>The operations on the list of entries\<close>

lemma alloc_hit:
  assumes "table_ok fs devsize" "index_of (dd_match (Some key) None) (ddtab fs (img ks)) = Some j"
  shows "\<exists>ks'. ddtable_alloc K fs junk key b ks = Inr ((0, dd_blockptr (ddtab fs (img ks) ! j)), ks') \<and>
    ddtab fs (img ks') = (ddtab fs (img ks))[j := (ddtab fs (img ks) ! j)\<lparr>dd_ref_count := dd_ref_count (ddtab fs (img ks) ! j) + 1\<rparr>] \<and>
    table_frame fs (img ks) (img ks')"
proof -
  have g: "geometry_ok fs" using assms(1) by (simp add: table_ok_def)
  have j: "j < ddcount fs" using index_of_SomeD(1)[OF assms(2)] by simp
  let ?e = "ddtab fs (img ks) ! j"
  obtain ff fb ks1 where l: "ddtable_locate K fs (Some key) None True ks = Inr ((0, Some
      (blk_buf fs (img ks) (j div entries_per_block fs), j mod entries_per_block fs * 32), ff, fb), ks1)" "img ks1 = img ks"
    using locate_loop_hit[OF assms(1) le0, of "Some key" None ks j True "- 1" None] assms(2)
    by (auto simp: dd_rest_0 ddtable_locate_def)
  have wf: "wf_dedup (?e\<lparr>dd_ref_count := dd_ref_count ?e + 1\<rparr>)"
    using j by (simp add: wf_dedup_def ddtab_def records_nth decode_dedup_def)
  obtain ks2 where "k_bwrite K ks1 (set_entry (blk_buf fs (img ks) (j div entries_per_block fs))
      (j mod entries_per_block fs * 32) (?e\<lparr>dd_ref_count := dd_ref_count ?e + 1\<rparr>)) = (0, ks2)"
    "ddtab fs (img ks2) = (ddtab fs (img ks))[j := ?e\<lparr>dd_ref_count := dd_ref_count ?e + 1\<rparr>]" "table_frame fs (img ks) (img ks2)"
    using write_entry[OF assms(1) j wf l(2)] by blast
  then show ?thesis using l get_entry_blk[OF g j, of "img ks"] by (simp add: ddtable_alloc_def Let_def)
qed

lemma alloc_miss:
  assumes "table_ok fs devsize" "index_of (dd_match (Some key) None) (ddtab fs (img ks)) = None"
    "index_of dd_free (ddtab fs (img ks)) = Some f" "length key = 20"
  shows "\<exists>ks'. ddtable_alloc K fs junk key b ks = Inr ((0, b), ks') \<and>
    ddtab fs (img ks') = (ddtab fs (img ks))[f := \<lparr>dd_key = key, dd_flags = junk OR DDFS_DEDUP_ACTIVE, dd_ref_count = 1, dd_blockptr = b\<rparr>] \<and>
    table_frame fs (img ks) (img ks')"
proof -
  have f: "f < ddcount fs" using index_of_SomeD(1)[OF assms(3)] by simp
  let ?e = "\<lparr>dd_key = key, dd_flags = junk OR DDFS_DEDUP_ACTIVE, dd_ref_count = 1, dd_blockptr = b\<rparr>"
  obtain ks1 where l: "ddtable_locate K fs (Some key) None True ks = Inr ((1, None, Some (int (f mod entries_per_block fs * 32)),
      Some (blk_buf fs (img ks) (f div entries_per_block fs))), ks1)" "img ks1 = img ks"
    using locate_loop_miss[OF assms(1) le0, of "Some key" None ks True "- 1" None] assms(2,3)
    by (auto simp: dd_rest_0 ddtable_locate_def first_free_from_def)
  have wf: "wf_dedup ?e" using assms(4) by (simp add: wf_dedup_def)
  define m where "m = f mod entries_per_block fs * 32"
  obtain ks2 where "k_bwrite K ks1 (set_entry (blk_buf fs (img ks) (f div entries_per_block fs)) m ?e) = (0, ks2)"
    "ddtab fs (img ks2) = (ddtab fs (img ks))[f := ?e]" "table_frame fs (img ks) (img ks2)"
    using write_entry[OF assms(1) f wf l(2)] unfolding m_def by blast
  then show ?thesis using l unfolding m_def[symmetric] by (simp add: ddtable_alloc_def Let_def)
qed

lemma alloc_full:
  assumes "table_ok fs devsize" "index_of (dd_match (Some key) None) (ddtab fs (img ks)) = None"
    "index_of dd_free (ddtab fs (img ks)) = None"
  shows "ddtable_alloc K fs junk key b ks = Inl Uninitialised"
  using locate_loop_miss[OF assms(1) le0, of "Some key" None ks True "- 1" None] assms(2,3)
  by (auto simp: dd_rest_0 ddtable_locate_def first_free_from_def ddtable_alloc_def)

lemma unref_hit:
  assumes "table_ok fs devsize" "index_of (dd_match None (Some b)) (ddtab fs (img ks)) = Some j"
    and e: "e = (ddtab fs (img ks) ! j)\<lparr>dd_ref_count := dd_ref_count (ddtab fs (img ks) ! j) - 1\<rparr>"
    and e': "e' = (if dd_ref_count e = 0 then free_entry else e)"
  shows "\<exists>ks'. ddtable_unref K fs b ks = Inr (int (unat (dd_ref_count e)), ks') \<and>
    ddtab fs (img ks') = (ddtab fs (img ks))[j := e'] \<and> table_frame fs (img ks) (img ks')"
proof -
  have g: "geometry_ok fs" using assms(1) by (simp add: table_ok_def)
  have j: "j < ddcount fs" using index_of_SomeD(1)[OF assms(2)] by simp
  obtain ff fb ks1 where l: "ddtable_locate K fs None (Some b) False ks = Inr ((0, Some
      (blk_buf fs (img ks) (j div entries_per_block fs), j mod entries_per_block fs * 32), ff, fb), ks1)" "img ks1 = img ks"
    using locate_loop_hit[OF assms(1) le0, of None "Some b" ks j False "- 1" None] assms(2)
    by (auto simp: dd_rest_0 ddtable_locate_def)
  have wf: "wf_dedup e'" using j by (simp add: e' e wf_dedup_def ddtab_def records_nth decode_dedup_def free_entry_def)
  have rc: "dd_ref_count e' = dd_ref_count e" by (simp add: e' free_entry_def)
  obtain ks2 where "k_bwrite K ks1 (set_entry (blk_buf fs (img ks) (j div entries_per_block fs))
      (j mod entries_per_block fs * 32) e') = (0, ks2)" "ddtab fs (img ks2) = (ddtab fs (img ks))[j := e']" "table_frame fs (img ks) (img ks2)"
    using write_entry[OF assms(1) j wf l(2)] by blast
  then show ?thesis using l rc get_entry_blk[OF g j, of "img ks"]
    by (cases "dd_ref_count (ddtab fs (img ks) ! j) = 1") (auto simp: ddtable_unref_def Let_def e e')
qed

lemma unref_miss:
  assumes "table_ok fs devsize" "index_of (dd_match None (Some b)) (ddtab fs (img ks)) = None"
  shows "\<exists>ks'. ddtable_unref K fs b ks = Inr (- 1, ks') \<and> img ks' = img ks"
  using locate_loop_miss[OF assms(1) le0, of None "Some b" ks False "- 1" None] assms(2)
  by (auto simp: dd_rest_0 ddtable_locate_def first_free_from_def ddtable_unref_def)

lemma alloc_frame:
  assumes "table_ok fs devsize" "length key = 20" "ddtable_alloc K fs junk key b ks = Inr (r, ks')"
  shows "table_frame fs (img ks) (img ks')"
proof (cases "index_of (dd_match (Some key) None) (ddtab fs (img ks))")
  case (Some j)
  then show ?thesis using alloc_hit[OF assms(1) Some, of junk b] assms(3) by auto
next
  case None
  then show ?thesis using alloc_full[OF assms(1) None, of junk b] alloc_miss[OF assms(1) None _ assms(2), of _ junk b] assms(3)
    by (cases "index_of dd_free (ddtab fs (img ks))") auto
qed

lemma unref_frame:
  assumes "table_ok fs devsize" "ddtable_unref K fs b ks = Inr (r, ks')"
  shows "table_frame fs (img ks) (img ks')"
proof (cases "index_of (dd_match None (Some b)) (ddtab fs (img ks))")
  case (Some j)
  then show ?thesis using unref_hit[OF assms(1) Some refl refl] assms(2) by auto
next
  case None
  then show ?thesis using unref_miss[OF assms(1) None] assms(2) by auto
qed

end

end
