(* ===== verification/Ddfs_Dedup.thy ===== *)
theory Ddfs_Dedup
  imports Ddfs_Table
begin

text \<open>
  What the deduplication table promises the file system above it: a finite map from keys to a
  block and a reference count. The promise is the locale \<open>refcount_store\<close>; the list of entries meets
  it as long as live entries have distinct keys and blocks, and \<open>ddtable_alloc\<close> and
  \<open>ddtable_unref\<close> on a healthy device are the two operations of the list.
\<close>

section \<open>The interface\<close>

text \<open>\<open>acquire\<close> is what a write of a block with contents key \<open>k\<close> does: it gives the block to point to,
  which is the block passed in when the key is new. \<open>release\<close> drops one reference to a block and gives
  the number of references left, or \<open>-1\<close> for a block that is not counted.\<close>

locale refcount_store =
  fixes inv :: "'s \<Rightarrow> bool" and view :: "'s \<Rightarrow> 'key \<rightharpoonup> 'blk \<times> nat" and room :: "'s \<Rightarrow> bool" and limit :: nat
    and acquire :: "'key \<Rightarrow> 'blk \<Rightarrow> 's \<Rightarrow> ('blk \<times> 's) option" and release :: "'blk \<Rightarrow> 's \<Rightarrow> int \<times> 's"
  assumes acquire_hit: "inv s \<Longrightarrow> view s k = Some (b', n) \<Longrightarrow> n < limit \<Longrightarrow>
      \<exists>s'. acquire k b s = Some (b', s') \<and> inv s' \<and> view s' = (view s)(k \<mapsto> (b', Suc n)) \<and> room s' = room s"
    and acquire_new: "inv s \<Longrightarrow> view s k = None \<Longrightarrow> b \<notin> fst ` ran (view s) \<Longrightarrow> room s \<Longrightarrow>
      \<exists>s'. acquire k b s = Some (b, s') \<and> inv s' \<and> view s' = (view s)(k \<mapsto> (b, 1))"
    and release_hit: "inv s \<Longrightarrow> view s k = Some (b, n) \<Longrightarrow>
      \<exists>s'. release b s = (int n - 1, s') \<and> inv s' \<and> view s' = (view s)(k := (if n = 1 then None else Some (b, n - 1)))"
    and release_miss: "inv s \<Longrightarrow> b \<notin> fst ` ran (view s) \<Longrightarrow> release b s = (- 1, s)"
    and count_pos: "inv s \<Longrightarrow> view s k = Some (b, n) \<Longrightarrow> 0 < n"
begin

text \<open>\<open>n\<close> further writes of the same contents, each passing some freshly allocated block, and \<open>n\<close> frees.\<close>

fun acquires :: "'key \<Rightarrow> 'blk list \<Rightarrow> 's \<Rightarrow> ('blk list \<times> 's) option" where
  "acquires k [] s = Some ([], s)"
| "acquires k (b # bs) s = (case acquire k b s of None \<Rightarrow> None
     | Some (b', s') \<Rightarrow> map_option (\<lambda>(rs, s''). (b' # rs, s'')) (acquires k bs s'))"

fun releases :: "'blk \<Rightarrow> nat \<Rightarrow> 's \<Rightarrow> int list \<times> 's" where
  "releases b 0 s = ([], s)"
| "releases b (Suc n) s = (let (r, s') = release b s; (rs, s'') = releases b n s' in (r # rs, s''))"

lemma acquires_share:
  "inv s \<Longrightarrow> view s k = Some (b, n) \<Longrightarrow> n + length bs \<le> limit \<Longrightarrow>
   \<exists>s'. acquires k bs s = Some (replicate (length bs) b, s') \<and> inv s' \<and> view s' = (view s)(k \<mapsto> (b, n + length bs))"
proof (induction bs arbitrary: s n)
  case (Cons b' bs)
  obtain s1 where s1: "acquire k b' s = Some (b, s1)" "inv s1" "view s1 = (view s)(k \<mapsto> (b, Suc n))"
    using acquire_hit[OF Cons(2,3), of b'] Cons(4) by auto
  then show ?case using Cons(1)[of s1 "Suc n"] Cons(4) by (auto simp: fun_eq_iff)
qed (auto simp: fun_upd_idem)

lemma releases_all:
  "inv s \<Longrightarrow> view s k = Some (b, n) \<Longrightarrow>
   \<exists>s'. releases b n s = (map int (rev [0..<n]), s') \<and> inv s' \<and> view s' = (view s)(k := None)"
proof (induction n arbitrary: s)
  case 0
  then show ?case using count_pos by blast
next
  case (Suc n)
  obtain s1 where s1: "release b s = (int n, s1)" "inv s1"
    "view s1 = (view s)(k := (if Suc n = 1 then None else Some (b, n)))"
    using release_hit[OF Suc(2,3)] by auto
  show ?case
  proof (cases "n = 0")
    case True
    then show ?thesis using s1 by auto
  next
    case False
    then show ?thesis using Suc(1)[of s1] s1 by (auto simp: fun_eq_iff)
  qed
qed

text \<open>A block written \<open>n + 1\<close> times and freed as often is reported as unused at the last free only,
  and leaves the store as it was.\<close>

lemma write_free_balance:
  assumes "inv s" "view s k = None" "b \<notin> fst ` ran (view s)" "room s" "Suc (length bs) \<le> limit"
  shows "\<exists>s1 s2. acquires k (b # bs) s = Some (replicate (Suc (length bs)) b, s1) \<and>
    releases b (Suc (length bs)) s1 = (map int (rev [0..<Suc (length bs)]), s2) \<and> inv s2 \<and> view s2 = view s"
proof -
  obtain s0 where s0: "acquire k b s = Some (b, s0)" "inv s0" "view s0 = (view s)(k \<mapsto> (b, 1))"
    using acquire_new[OF assms(1-4)] by blast
  obtain s1 where s1: "acquires k bs s0 = Some (replicate (length bs) b, s1)" "inv s1"
      "view s1 = (view s)(k \<mapsto> (b, Suc (length bs)))"
    using acquires_share[of s0 k b 1 bs] s0 assms(5) by auto
  obtain s2 where "releases b (Suc (length bs)) s1 = (map int (rev [0..<Suc (length bs)]), s2)" "inv s2"
      "view s2 = (view s1)(k := None)"
    using releases_all[of s1 k b "Suc (length bs)"] s1 by auto
  moreover have "(view s)(k := None) = view s" using assms(2) by (simp add: fun_upd_idem)
  ultimately show ?thesis using s0(1) s1 by auto
qed

end

section \<open>The list of entries\<close>

definition dd_acquire :: "16 word \<Rightarrow> byte list \<Rightarrow> 64 word \<Rightarrow> ddfs_dedup list \<Rightarrow> (64 word \<times> ddfs_dedup list) option" where
  "dd_acquire junk key b t =
     (case index_of (dd_match (Some key) None) t of
        Some j \<Rightarrow> Some (dd_blockptr (t ! j), t[j := (t ! j)\<lparr>dd_ref_count := dd_ref_count (t ! j) + 1\<rparr>])
      | None \<Rightarrow> (case index_of dd_free t of None \<Rightarrow> None
        | Some f \<Rightarrow> Some (b, t[f := \<lparr>dd_key = key, dd_flags = junk OR DDFS_DEDUP_ACTIVE, dd_ref_count = 1, dd_blockptr = b\<rparr>])))"

definition dd_release :: "64 word \<Rightarrow> ddfs_dedup list \<Rightarrow> int \<times> ddfs_dedup list" where
  "dd_release b t =
     (case index_of (dd_match None (Some b)) t of None \<Rightarrow> (- 1, t)
      | Some j \<Rightarrow> (let e = (t ! j)\<lparr>dd_ref_count := dd_ref_count (t ! j) - 1\<rparr> in
          (int (unat (dd_ref_count e)), t[j := (if dd_ref_count e = 0 then free_entry else e)])))"

definition dd_map :: "ddfs_dedup list \<Rightarrow> byte list \<rightharpoonup> 64 word \<times> nat" where
  "dd_map t k = map_option (\<lambda>j. (dd_blockptr (t ! j), unat (dd_ref_count (t ! j)))) (index_of (dd_match (Some k) None) t)"

definition dd_inv :: "ddfs_dedup list \<Rightarrow> bool" where
  "dd_inv t \<longleftrightarrow> (\<forall>i < length t. \<forall>j < length t. \<not> dd_free (t ! i) \<and> \<not> dd_free (t ! j) \<and> i \<noteq> j \<longrightarrow>
       dd_key (t ! i) \<noteq> dd_key (t ! j) \<and> dd_blockptr (t ! i) \<noteq> dd_blockptr (t ! j)) \<and>
     (\<forall>i < length t. \<not> dd_free (t ! i) \<longrightarrow> dd_ref_count (t ! i) \<noteq> 0)"

definition dd_room :: "ddfs_dedup list \<Rightarrow> bool" where
  "dd_room t \<longleftrightarrow> (\<exists>e \<in> set t. dd_free e)"

text \<open>Two live entries at \<open>i\<close> and \<open>j\<close> with a common key or block are the same.\<close>

lemma dd_invD:
  assumes "dd_inv t" "i < length t" "j < length t" "\<not> dd_free (t ! i)" "\<not> dd_free (t ! j)"
  shows "dd_key (t ! i) = dd_key (t ! j) \<Longrightarrow> i = j" "dd_blockptr (t ! i) = dd_blockptr (t ! j) \<Longrightarrow> i = j"
    "dd_ref_count (t ! i) \<noteq> 0"
  using assms unfolding dd_inv_def by blast+

lemma dd_match_key [simp]: "dd_match (Some k) None e \<longleftrightarrow> \<not> dd_free e \<and> dd_key e = k"
  by (auto simp: dd_match_def)

lemma dd_match_blk [simp]: "dd_match None (Some b) e \<longleftrightarrow> \<not> dd_free e \<and> dd_blockptr e = b"
  by (auto simp: dd_match_def)

lemma find_key:
  assumes "dd_inv t" "j < length t" "\<not> dd_free (t ! j)"
  shows "index_of (dd_match (Some (dd_key (t ! j))) None) t = Some j"
proof -
  obtain i where i: "index_of (dd_match (Some (dd_key (t ! j))) None) t = Some i"
    using index_of_ex[of "t ! j" t] assms by fastforce
  then show ?thesis using index_of_SomeD(1,2)[OF i] dd_invD(1)[OF assms(1) _ assms(2)] assms(3) by auto
qed

lemma find_blk:
  assumes "dd_inv t" "j < length t" "\<not> dd_free (t ! j)"
  shows "index_of (dd_match None (Some (dd_blockptr (t ! j)))) t = Some j"
proof -
  obtain i where i: "index_of (dd_match None (Some (dd_blockptr (t ! j)))) t = Some i"
    using index_of_ex[of "t ! j" t] assms by fastforce
  then show ?thesis using index_of_SomeD(1,2)[OF i] dd_invD(2)[OF assms(1) _ assms(2)] assms(3) by auto
qed

lemma dd_map_Some:
  assumes "dd_inv t"
  shows "dd_map t k = Some (b, n) \<longleftrightarrow> (\<exists>j < length t. \<not> dd_free (t ! j) \<and> dd_key (t ! j) = k \<and>
    dd_blockptr (t ! j) = b \<and> unat (dd_ref_count (t ! j)) = n)"
proof
  assume "dd_map t k = Some (b, n)"
  then obtain j where "index_of (dd_match (Some k) None) t = Some j" "dd_blockptr (t ! j) = b"
    "unat (dd_ref_count (t ! j)) = n" by (auto simp: dd_map_def)
  then show "\<exists>j < length t. \<not> dd_free (t ! j) \<and> dd_key (t ! j) = k \<and> dd_blockptr (t ! j) = b \<and> unat (dd_ref_count (t ! j)) = n"
    using index_of_SomeD(1,2) by force
qed (auto simp: dd_map_def find_key[OF assms])

lemma dd_map_None: "dd_map t k = None \<longleftrightarrow> (\<forall>e \<in> set t. dd_free e \<or> dd_key e \<noteq> k)"
  by (auto simp: dd_map_def index_of_None)

lemma dd_map_blocks:
  assumes "dd_inv t"
  shows "b \<in> fst ` ran (dd_map t) \<longleftrightarrow> (\<exists>j < length t. \<not> dd_free (t ! j) \<and> dd_blockptr (t ! j) = b)"
proof -
  have "b \<in> fst ` ran (dd_map t) \<longleftrightarrow> (\<exists>k n. dd_map t k = Some (b, n))"
    by (force simp: ran_def)
  then show ?thesis by (auto simp: dd_map_Some[OF assms])
qed

lemma map_eqI: "(\<And>k b n. f k = Some (b, n) \<longleftrightarrow> g k = Some (b, n)) \<Longrightarrow> f = g"
proof
  fix k assume a: "\<And>k b n. f k = Some (b, n) \<longleftrightarrow> g k = Some (b, n)"
  show "f k = g k" by (metis a not_Some_eq surj_pair)
qed

text \<open>Replacing one live entry, or a free one by a live one.\<close>

lemma dd_put:
  assumes "dd_inv t" "j < length t" "\<not> dd_free e" "dd_ref_count e \<noteq> 0"
    "\<And>i. i < length t \<Longrightarrow> i \<noteq> j \<Longrightarrow> \<not> dd_free (t ! i) \<Longrightarrow> dd_key (t ! i) \<noteq> dd_key e \<and> dd_blockptr (t ! i) \<noteq> dd_blockptr e"
    "\<not> dd_free (t ! j) \<Longrightarrow> dd_key (t ! j) = dd_key e"
  shows "dd_inv (t[j := e])" "dd_map (t[j := e]) = (dd_map t)(dd_key e \<mapsto> (dd_blockptr e, unat (dd_ref_count e)))"
proof -
  show i: "dd_inv (t[j := e])"
    unfolding dd_inv_def using assms(2-5) dd_invD[OF assms(1)] by (auto simp: nth_list_update) (metis assms(5))+
  show "dd_map (t[j := e]) = (dd_map t)(dd_key e \<mapsto> (dd_blockptr e, unat (dd_ref_count e)))"
  proof (rule map_eqI)
    fix k b n
    show "dd_map (t[j := e]) k = Some (b, n) \<longleftrightarrow>
        ((dd_map t)(dd_key e \<mapsto> (dd_blockptr e, unat (dd_ref_count e)))) k = Some (b, n)"
    proof (cases "k = dd_key e")
      case True
      then have "dd_map (t[j := e]) k = Some (dd_blockptr e, unat (dd_ref_count e))"
        using assms(2,3) by (auto simp: dd_map_Some[OF i] intro!: exI[of _ j])
      then show ?thesis using True by simp
    next
      case False
      then show ?thesis using assms(2,3,6)
        by (simp add: dd_map_Some[OF i] dd_map_Some[OF assms(1)]) (metis nth_list_update_eq nth_list_update_neq)
    qed
  qed
qed

lemma dd_drop:
  assumes "dd_inv t" "j < length t" "\<not> dd_free (t ! j)" "dd_free e"
  shows "dd_inv (t[j := e])" "dd_map (t[j := e]) = (dd_map t)(dd_key (t ! j) := None)"
proof -
  show i: "dd_inv (t[j := e])"
    unfolding dd_inv_def using assms dd_invD[OF assms(1)] by (auto simp: nth_list_update)
  show "dd_map (t[j := e]) = (dd_map t)(dd_key (t ! j) := None)"
  proof (rule map_eqI)
    fix k b n
    show "dd_map (t[j := e]) k = Some (b, n) \<longleftrightarrow> ((dd_map t)(dd_key (t ! j) := None)) k = Some (b, n)"
      using assms(2-4) dd_invD(1)[OF assms(1)]
      by (simp add: dd_map_Some[OF i] dd_map_Some[OF assms(1)]) (metis nth_list_update_eq nth_list_update_neq)
  qed
qed

lemma free_entry_free [simp]: "dd_free free_entry"
  by (simp add: dd_free_def free_entry_def DDFS_DEDUP_FREE_def)

lemma new_entry_live: "junk AND DDFS_DEDUP_FREE = 0 \<Longrightarrow> (junk OR DDFS_DEDUP_ACTIVE) AND DDFS_DEDUP_FREE = 0"
  by (simp add: DDFS_DEDUP_FREE_def DDFS_DEDUP_ACTIVE_def and.commute[of _ "1::16 word"] bit.conj_disj_distrib)

lemma dd_recount:
  assumes "dd_inv t" "j < length t" "\<not> dd_free (t ! j)" "r \<noteq> 0"
  shows "dd_inv (t[j := (t ! j)\<lparr>dd_ref_count := r\<rparr>])"
    "dd_map (t[j := (t ! j)\<lparr>dd_ref_count := r\<rparr>]) = (dd_map t)(dd_key (t ! j) \<mapsto> (dd_blockptr (t ! j), unat r))"
proof -
  let ?e = "(t ! j)\<lparr>dd_ref_count := r\<rparr>"
  have fe: "\<not> dd_free ?e" using assms(3) by (simp add: dd_free_def)
  have r: "dd_ref_count ?e \<noteq> 0" using assms(4) by simp
  have other: "dd_key (t ! i) \<noteq> dd_key ?e \<and> dd_blockptr (t ! i) \<noteq> dd_blockptr ?e"
    if "i < length t" "i \<noteq> j" "\<not> dd_free (t ! i)" for i
    using dd_invD(1,2)[OF assms(1) that(1) assms(2) that(3) assms(3)] that(2) by auto
  have same: "dd_key (t ! j) = dd_key ?e" by simp
  note put = dd_put[OF assms(1,2) fe r other same]
  show "dd_inv (t[j := ?e])" by (rule put(1))
  show "dd_map (t[j := ?e]) = (dd_map t)(dd_key (t ! j) \<mapsto> (dd_blockptr (t ! j), unat r))" using put(2) by simp
qed

lemma dd_room_put:
  assumes "j < length t" "\<not> dd_free (t ! j)" "dd_free e = dd_free (t ! j)"
  shows "dd_room (t[j := e]) = dd_room t"
proof -
  have "dd_free (t[j := e] ! i) = dd_free (t ! i)" if "i < length t" for i
    using assms that by (cases "i = j") auto
  then show ?thesis unfolding dd_room_def by (auto simp: Bex_def in_set_conv_nth)
qed

lemma list_acquire_hit:
  assumes "dd_inv t" "dd_map t k = Some (b', n)" "n < 65535"
  shows "\<exists>t'. dd_acquire junk k b t = Some (b', t') \<and> dd_inv t' \<and> dd_map t' = (dd_map t)(k \<mapsto> (b', Suc n)) \<and> dd_room t' = dd_room t"
proof -
  obtain j where j: "j < length t" "\<not> dd_free (t ! j)" "dd_key (t ! j) = k" "dd_blockptr (t ! j) = b'"
    "unat (dd_ref_count (t ! j)) = n" using assms(2) unfolding dd_map_Some[OF assms(1)] by blast
  let ?e = "(t ! j)\<lparr>dd_ref_count := dd_ref_count (t ! j) + 1\<rparr>"
  have fe: "dd_free ?e = dd_free (t ! j)" by (simp add: dd_free_def)
  have u: "unat (dd_ref_count (t ! j) + 1) = Suc n"
    using assms(3) j(5) by (simp add: unat_word_ariths)
  then have nz: "dd_ref_count (t ! j) + 1 \<noteq> 0" by (metis nat.distinct(1) unat_0)
  have "dd_acquire junk k b t = Some (b', t[j := ?e])"
    using find_key[OF assms(1) j(1,2)] j by (simp add: dd_acquire_def)
  moreover have "dd_inv (t[j := ?e])" "dd_map (t[j := ?e]) = (dd_map t)(k \<mapsto> (b', Suc n))"
    using dd_recount[OF assms(1) j(1,2) nz] unfolding j(3,4) u by blast+
  moreover have "dd_room (t[j := ?e]) = dd_room t"
    using j(1,2) fe by (rule dd_room_put)
  ultimately show ?thesis by blast
qed

lemma list_acquire_new:
  assumes "dd_inv t" "dd_map t k = None" "b \<notin> fst ` ran (dd_map t)" "dd_room t" "junk AND DDFS_DEDUP_FREE = 0"
  shows "\<exists>t'. dd_acquire junk k b t = Some (b, t') \<and> dd_inv t' \<and> dd_map t' = (dd_map t)(k \<mapsto> (b, 1))"
proof -
  obtain f where f: "index_of dd_free t = Some f" using assms(4) index_of_ex unfolding dd_room_def by metis
  note fD = index_of_SomeD(1,2)[OF f]
  let ?e = "\<lparr>dd_key = k, dd_flags = junk OR DDFS_DEDUP_ACTIVE, dd_ref_count = 1, dd_blockptr = b\<rparr>"
  have "dd_acquire junk k b t = Some (b, t[f := ?e])"
    using f assms(2) by (simp add: dd_acquire_def dd_map_def)
  moreover have "dd_inv (t[f := ?e])" "dd_map (t[f := ?e]) = (dd_map t)(k \<mapsto> (b, 1))"
    using dd_put[OF assms(1) fD(1), of ?e] fD(2) new_entry_live[OF assms(5)] assms(2,3)
    by (auto simp: dd_free_def dd_map_None dd_map_blocks[OF assms(1)])
  ultimately show ?thesis by blast
qed

lemma list_release_hit:
  assumes "dd_inv t" "dd_map t k = Some (b, n)"
  shows "\<exists>t'. dd_release b t = (int n - 1, t') \<and> dd_inv t' \<and>
    dd_map t' = (dd_map t)(k := (if n = 1 then None else Some (b, n - 1)))"
proof -
  obtain j where j: "j < length t" "\<not> dd_free (t ! j)" "dd_key (t ! j) = k" "dd_blockptr (t ! j) = b"
    "unat (dd_ref_count (t ! j)) = n" using assms(2) unfolding dd_map_Some[OF assms(1)] by blast
  let ?e = "(t ! j)\<lparr>dd_ref_count := dd_ref_count (t ! j) - 1\<rparr>"
  have nz: "dd_ref_count (t ! j) \<noteq> 0" using dd_invD(3)[OF assms(1) j(1) j(1) j(2) j(2)] .
  then have n: "0 < n" using j(5) by (auto simp: unat_gt_0)
  have u: "unat (dd_ref_count (t ! j) - 1) = n - 1"
    using nz j(5) by (simp add: unat_minus_one)
  have u': "uint (dd_ref_count (t ! j) - 1) = int n - 1"
    using arg_cong[OF u, of int] n by (simp add: of_nat_diff)
  have z: "dd_ref_count (t ! j) - 1 = 0 \<longleftrightarrow> n = 1"
    using u n by (metis One_nat_def Suc_pred diff_Suc_1 unat_eq_0)
  note idx = find_blk[OF assms(1) j(1,2), unfolded j(4)]
  show ?thesis
  proof (cases "n = 1")
    case True
    then have "dd_release b t = (int n - 1, t[j := free_entry])"
      using idx z u by (simp add: dd_release_def Let_def)
    then show ?thesis using dd_drop[OF assms(1) j(1,2) free_entry_free] True j(3) by auto
  next
    case False
    then have "dd_release b t = (int n - 1, t[j := ?e])"
      using idx z u' by (simp add: dd_release_def Let_def)
    moreover have "dd_inv (t[j := ?e])" "dd_map (t[j := ?e]) = (dd_map t)(k \<mapsto> (b, n - 1))"
      using dd_recount[OF assms(1) j(1,2), of "dd_ref_count (t ! j) - 1"] z False unfolding j(3,4) u by blast+
    ultimately show ?thesis using False by auto
  qed
qed

lemma list_release_miss:
  assumes "dd_inv t" "b \<notin> fst ` ran (dd_map t)"
  shows "dd_release b t = (- 1, t)"
proof -
  have "index_of (dd_match None (Some b)) t = None"
    using assms(2) by (auto simp: index_of_None dd_map_blocks[OF assms(1)] in_set_conv_nth)
  then show ?thesis by (simp add: dd_release_def)
qed

lemma list_count_pos: "dd_inv t \<Longrightarrow> dd_map t k = Some (b, n) \<Longrightarrow> 0 < n"
  by (auto simp: dd_map_Some unat_gt_0 dest: dd_invD(3))

text \<open>With a clean flags word the entries are a reference-counted store for up to 65535 references.\<close>

interpretation dd: refcount_store dd_inv dd_map dd_room 65535 "dd_acquire 0" dd_release
  using list_acquire_hit list_acquire_new list_release_hit list_release_miss list_count_pos
  by unfold_locales (blast | simp)+

text \<open>A live entry put in the place of a free one, without the invariant.\<close>

lemma index_of_update_fail:
  "i < length xs \<Longrightarrow> \<not> P (xs ! i) \<Longrightarrow> \<not> P y \<Longrightarrow> index_of P (xs[i := y]) = index_of P xs"
proof (induction xs arbitrary: i)
  case (Cons x xs)
  then show ?case by (cases i) auto
qed simp

lemma index_of_update_hit:
  "i < length xs \<Longrightarrow> index_of P xs = None \<Longrightarrow> P y \<Longrightarrow> index_of P (xs[i := y]) = Some i"
proof (induction xs arbitrary: i)
  case (Cons x xs)
  then show ?case by (cases i) (auto split: if_splits)
qed simp

lemma dd_map_put_new:
  assumes "index_of dd_free t = Some f" "index_of (dd_match (Some (dd_key e)) None) t = None" "\<not> dd_free e"
  shows "dd_map (t[f := e]) (dd_key e) = Some (dd_blockptr e, unat (dd_ref_count e))"
  using index_of_SomeD(1)[OF assms(1)] index_of_update_hit[OF _ assms(2), of f e] assms(3) by (simp add: dd_map_def)

lemma dd_map_put_other:
  assumes "index_of dd_free t = Some f" "dd_key e \<noteq> k"
  shows "dd_map (t[f := e]) k = dd_map t k"
proof -
  note f = index_of_SomeD(1,2)[OF assms(1)]
  have i: "index_of (dd_match (Some k) None) (t[f := e]) = index_of (dd_match (Some k) None) t"
    using f assms(2) by (intro index_of_update_fail) auto
  have "j \<noteq> f" if "index_of (dd_match (Some k) None) t = Some j" for j
    using index_of_SomeD(2)[OF that] f(2) by auto
  then show ?thesis unfolding dd_map_def i by (auto intro!: option.map_cong)
qed

lemma dd_map_put_free:
  assumes "index_of dd_free t = Some f" "dd_free e"
  shows "dd_map (t[f := e]) = dd_map t"
proof
  fix k
  note f = index_of_SomeD(1,2)[OF assms(1)]
  have i: "index_of (dd_match (Some k) None) (t[f := e]) = index_of (dd_match (Some k) None) t"
    using f assms(2) by (intro index_of_update_fail) auto
  have "j \<noteq> f" if "index_of (dd_match (Some k) None) t = Some j" for j
    using index_of_SomeD(2)[OF that] f(2) by auto
  then show "dd_map (t[f := e]) k = dd_map t k" unfolding dd_map_def i by (auto intro!: option.map_cong)
qed

lemma dirty_entry_free: "junk AND DDFS_DEDUP_FREE \<noteq> 0 \<Longrightarrow> (junk OR DDFS_DEDUP_ACTIVE) AND DDFS_DEDUP_FREE \<noteq> 0"
  by (simp add: DDFS_DEDUP_FREE_def DDFS_DEDUP_ACTIVE_def and.commute[of _ "1::16 word"] bit.conj_disj_distrib)

section \<open>The device implements the list\<close>

text \<open>Writing the same contents again and again, and freeing a block again and again.\<close>

fun ddtable_allocs :: "'k kern \<Rightarrow> ddfs_fs \<Rightarrow> 16 word \<Rightarrow> byte list \<Rightarrow> 64 word list \<Rightarrow> 'k \<Rightarrow> fault + 64 word list \<times> 'k" where
  "ddtable_allocs K fs junk key [] ks = Inr ([], ks)"
| "ddtable_allocs K fs junk key (b # bs) ks = (case ddtable_alloc K fs junk key b ks of Inl f \<Rightarrow> Inl f
     | Inr ((e, b'), ks') \<Rightarrow> (case ddtable_allocs K fs junk key bs ks' of Inl f \<Rightarrow> Inl f
         | Inr (rs, ks'') \<Rightarrow> Inr (b' # rs, ks'')))"

fun ddtable_unrefs :: "'k kern \<Rightarrow> ddfs_fs \<Rightarrow> 64 word \<Rightarrow> nat \<Rightarrow> 'k \<Rightarrow> fault + int list \<times> 'k" where
  "ddtable_unrefs K fs b 0 ks = Inr ([], ks)"
| "ddtable_unrefs K fs b (Suc n) ks = (case ddtable_unref K fs b ks of Inl f \<Rightarrow> Inl f
     | Inr (r, ks') \<Rightarrow> (case ddtable_unrefs K fs b n ks' of Inl f \<Rightarrow> Inl f
         | Inr (rs, ks'') \<Rightarrow> Inr (r # rs, ks'')))"

context healthy_kernel
begin

lemma alloc_refines:
  assumes "table_ok fs devsize" "length key = 20" "dd_acquire junk key b (ddtab fs (img ks)) = Some (b', t')"
  shows "\<exists>ks'. ddtable_alloc K fs junk key b ks = Inr ((0, b'), ks') \<and> ddtab fs (img ks') = t'"
proof (cases "index_of (dd_match (Some key) None) (ddtab fs (img ks))")
  case (Some j)
  then show ?thesis using alloc_hit[OF assms(1) Some, of junk b] assms(3) by (auto simp: dd_acquire_def)
next
  case None
  then obtain f where f: "index_of dd_free (ddtab fs (img ks)) = Some f"
    using assms(3) by (auto simp: dd_acquire_def split: option.splits)
  then show ?thesis using alloc_miss[OF assms(1) None f assms(2), of junk b] assms(3) None by (auto simp: dd_acquire_def)
qed

lemma unref_refines:
  assumes "table_ok fs devsize" "dd_release b (ddtab fs (img ks)) = (r, t')"
  shows "\<exists>ks'. ddtable_unref K fs b ks = Inr (r, ks') \<and> ddtab fs (img ks') = t'"
proof (cases "index_of (dd_match None (Some b)) (ddtab fs (img ks))")
  case (Some j)
  then show ?thesis using unref_hit[OF assms(1) Some refl refl] assms(2) by (auto simp: dd_release_def Let_def)
next
  case None
  then show ?thesis using unref_miss[OF assms(1) None] assms(2) by (auto simp: dd_release_def)
qed

lemma allocs_refine:
  "table_ok fs devsize \<Longrightarrow> length key = 20 \<Longrightarrow> dd.acquires key bs (ddtab fs (img ks)) = Some (rs, t') \<Longrightarrow>
   \<exists>ks'. ddtable_allocs K fs 0 key bs ks = Inr (rs, ks') \<and> ddtab fs (img ks') = t'"
proof (induction bs arbitrary: ks rs)
  case (Cons b bs)
  obtain b' t1 where a: "dd_acquire 0 key b (ddtab fs (img ks)) = Some (b', t1)"
    using Cons(4) by (auto split: option.splits)
  obtain rs' where rs: "dd.acquires key bs t1 = Some (rs', t')" "rs = b' # rs'"
    using Cons(4) a by auto
  obtain ks1 where "ddtable_alloc K fs 0 key b ks = Inr ((0, b'), ks1)" "ddtab fs (img ks1) = t1"
    using alloc_refines[OF Cons(2,3) a] by blast
  then show ?case using Cons(1)[OF Cons(2,3), of ks1 rs'] rs by auto
qed auto

lemma unrefs_refine:
  "table_ok fs devsize \<Longrightarrow> dd.releases b n (ddtab fs (img ks)) = (rs, t') \<Longrightarrow>
   \<exists>ks'. ddtable_unrefs K fs b n ks = Inr (rs, ks') \<and> ddtab fs (img ks') = t'"
proof (induction n arbitrary: ks rs)
  case (Suc n)
  obtain r t1 where a: "dd_release b (ddtab fs (img ks)) = (r, t1)" by (cases "dd_release b (ddtab fs (img ks))")
  obtain rs' where rs: "dd.releases b n t1 = (rs', t')" "rs = r # rs'"
    using Suc(3) a by (auto split: prod.splits)
  obtain ks1 where "ddtable_unref K fs b ks = Inr (r, ks1)" "ddtab fs (img ks1) = t1"
    using unref_refines[OF Suc(2) a] by blast
  then show ?case using Suc(1)[OF Suc(2), of ks1 rs'] rs by auto
qed auto

end

section \<open>An empty table on a memory disk\<close>

text \<open>A volume of 512-byte blocks with a table of two blocks at block 4, all entries free.\<close>

definition tiny_fs :: ddfs_fs where
  "tiny_fs = \<lparr>fs_dedupfrags = 2, fs_ddblkno = 4, fs_sblkno = 2, fs_cblkno = 6, fs_iblkno = 7, fs_dblkno = 8,
     fs_old_cgoffset = 0, fs_old_cgmask = 0, fs_ncg = 1, fs_bsize = 512, fs_fsize = 512, fs_frag = 1, fs_minfree = 8,
     fs_bmask = - 512, fs_fmask = - 512, fs_bshift = 9, fs_fshift = 9, fs_maxcontig = 1, fs_maxbpg = 16, fs_fragshift = 0,
     fs_fsbtodb = 0, fs_sbsize = 512, fs_nindir = 64, fs_inopb = 2, fs_optim = 0, fs_cssize = 512, fs_cgsize = 512, fs_ipg = 2, fs_fpg = 32,
     fs_fmod = 0, fs_clean = 1, fs_ronly = 0, fs_cgrotor = 0, fs_si = None, fs_metaspace = 0, fs_sblockactualloc = 65536,
     fs_sblockloc = 65536, fs_cstotal = \<lparr>cst_ndir = 0, cst_nbfree = 0, cst_nifree = 0, cst_nffree = 0, cst_numclusters = 0\<rparr>,
     fs_time = 0, fs_size = 32, fs_dsize = 20, fs_csaddr = 8, fs_avgfilesize = 16384, fs_avgfpdir = 64, fs_ckhash = 0, fs_metackhash = 0, fs_flags = 0,
     fs_contigsumsize = 0, fs_maxfilesize = 6143, fs_qbmask = 511, fs_qfmask = 511, fs_magic = FS_DDFS_MAGIC\<rparr>"

definition free_image :: image where
  "free_image i = (if i mod 32 = 20 then 1 else 0)"

definition tiny_ram :: ram where
  "tiny_ram = \<lparr>ram_img = free_image, ram_hash = [], ram_next = 0\<rparr>"

lemma tiny_geometry: "geometry_ok tiny_fs"
  by (simp add: geometry_ok_def tiny_fs_def)

lemma tiny_counts: "ddbase tiny_fs = 2048" "ddcount tiny_fs = 32"
  by (simp_all add: ddbase_def ddcount_def tiny_fs_def num_blocks_def entries_per_block_def sizeof_dedup_def)

lemma tiny_ok: "table_ok tiny_fs 16384"
  by (simp add: table_ok_def tiny_geometry tiny_counts) (simp add: tiny_fs_def)

lemma free_image_entry: "peek free_image (32 * m) 32 = encode_dedup free_entry"
proof (rule nth_equalityI)
  show "length (peek free_image (32 * m) 32) = length (encode_dedup free_entry)" by (simp add: encode_dedup_32)
  fix i assume "i < length (peek free_image (32 * m) 32)"
  then have i: "i < 32" by simp
  have "encode_dedup free_entry = replicate 20 0 @ [1, 0] @ replicate 10 0"
    by code_simp
  then show "peek free_image (32 * m) 32 ! i = encode_dedup free_entry ! i"
    using i by (auto simp: free_image_def nth_append nth_Cons')
qed

lemma tiny_table: "ddtab tiny_fs (ram_img tiny_ram) = replicate 32 free_entry"
proof -
  have "peek free_image (2048 + 32 * i) 32 = encode_dedup free_entry" for i
    using free_image_entry[of "64 + i"] by simp
  then show ?thesis
    by (simp add: ddtab_def records_def tiny_counts tiny_ram_def decode_encode_dedup map_replicate_const)
qed

lemma dd_inv_free: "dd_inv (replicate n free_entry)"
  by (simp add: dd_inv_def)

lemma dd_map_free: "dd_map (replicate n free_entry) = Map.empty"
  by (auto simp: fun_eq_iff dd_map_None)

lemma dd_room_free: "0 < n \<Longrightarrow> dd_room (replicate n free_entry)"
  by (simp add: dd_room_def)

text \<open>The same with one live entry.\<close>

definition demo_entry :: ddfs_dedup where
  "demo_entry = \<lparr>dd_key = replicate 20 7, dd_flags = DDFS_DEDUP_ACTIVE, dd_ref_count = 1, dd_blockptr = 100\<rparr>"

definition tiny_ram1 :: ram where
  "tiny_ram1 = tiny_ram\<lparr>ram_img := poke free_image (2048 + 32 * 0) (encode_dedup demo_entry)\<rparr>"

lemma tiny_table1: "ddtab tiny_fs (ram_img tiny_ram1) = (replicate 32 free_entry)[0 := demo_entry]"
proof -
  have "wf_dedup demo_entry" by (simp add: wf_dedup_def demo_entry_def)
  from dedup_codec.records_put[OF _ this, of 0 32 2048 free_image] show ?thesis
    using tiny_table by (simp add: ddtab_def tiny_counts tiny_ram1_def tiny_ram_def)
qed

lemma demo_entry_live: "\<not> dd_free demo_entry"
  by (simp add: dd_free_def demo_entry_def DDFS_DEDUP_FREE_def DDFS_DEDUP_ACTIVE_def)

lemma dd_inv1: "dd_inv ((replicate 32 free_entry)[0 := demo_entry])"
  and dd_map1: "dd_map ((replicate 32 free_entry)[0 := demo_entry]) = [replicate 20 7 \<mapsto> (100, 1)]"
  and dd_room1: "dd_room ((replicate 32 free_entry)[0 := demo_entry])"
proof -
  have p: "dd_inv ((replicate 32 free_entry)[0 := demo_entry])"
    "dd_map ((replicate 32 free_entry)[0 := demo_entry]) =
      (dd_map (replicate 32 free_entry))(dd_key demo_entry \<mapsto> (dd_blockptr demo_entry, unat (dd_ref_count demo_entry)))"
    by (rule dd_put[OF dd_inv_free]; use demo_entry_live in \<open>simp add: demo_entry_def\<close>)+
  show "dd_inv ((replicate 32 free_entry)[0 := demo_entry])" by (rule p(1))
  show "dd_map ((replicate 32 free_entry)[0 := demo_entry]) = [replicate 20 7 \<mapsto> (100, 1)]"
    using p(2) by (simp add: dd_map_free demo_entry_def)
  have "(replicate 32 free_entry)[0 := demo_entry] ! 1 \<in> set ((replicate 32 free_entry)[0 := demo_entry])"
    by (rule nth_mem) simp
  then have "free_entry \<in> set ((replicate 32 free_entry)[0 := demo_entry])" by simp
  then show "dd_room ((replicate 32 free_entry)[0 := demo_entry])"
    using free_entry_free unfolding dd_room_def by blast
qed

lemmas tiny_facts1 = tiny_table1 dd_inv1 dd_map1 dd_room1

lemmas tiny_facts = tiny_ok tiny_table dd_inv_free dd_map_free dd_room_free ram.healthy_kernel_axioms

end
