(* ===== verification/Ddfs_Properties.thy ===== *)
theory Ddfs_Properties
  imports Ddfs_Dedup
begin

text \<open>
  The properties of ddfs: the address macros, the deduplication table. The witnesses run the
  operations on the empty table of a memory disk.
\<close>

section \<open>The deduplication table\<close>

text \<open>C22: \<open>ddtable_alloc\<close> refines acquiring a reference in a reference-counted store: on a healthy device,
  from a table whose live entries have distinct keys and blocks, a key already present gives its
  recorded block and counts one more reference; a new key takes over the caller's block with count one;
  no other key is affected and the table stays well-formed.\<close>

theorem ddtable_alloc_refines:
  assumes "healthy_kernel K img hash devsize" "table_ok fs devsize" "length key = 20" "junk AND DDFS_DEDUP_FREE = 0"
    and "t = ddtab fs (img ks)" "dd_inv t"
    and "case dd_map t key of Some (b0, n) \<Rightarrow> n < 65535 | None \<Rightarrow> b \<notin> fst ` ran (dd_map t) \<and> dd_room t"
  shows "\<exists>ks' b'. ddtable_alloc K fs junk key b ks = Inr ((0, b'), ks') \<and> dd_inv (ddtab fs (img ks')) \<and>
    (case dd_map t key of
       Some (b0, n) \<Rightarrow> b' = b0 \<and> dd_map (ddtab fs (img ks')) = (dd_map t)(key \<mapsto> (b0, Suc n))
     | None \<Rightarrow> b' = b \<and> dd_map (ddtab fs (img ks')) = (dd_map t)(key \<mapsto> (b, 1)))"
proof (cases "dd_map t key")
  case None
  then obtain t' where t': "dd_acquire junk key b t = Some (b, t')" "dd_inv t'" "dd_map t' = (dd_map t)(key \<mapsto> (b, 1))"
    using list_acquire_new[OF assms(6) None _ _ assms(4)] assms(7) by auto
  then show ?thesis using healthy_kernel.alloc_refines[OF assms(1-3), of junk b ks b t'] None assms(5) by auto
next
  case (Some p)
  obtain b0 n where p: "p = (b0, n)" by (cases p)
  then obtain t' where t': "dd_acquire junk key b t = Some (b0, t')" "dd_inv t'" "dd_map t' = (dd_map t)(key \<mapsto> (b0, Suc n))"
    using list_acquire_hit[OF assms(6)] Some assms(7) by fastforce
  then show ?thesis using healthy_kernel.alloc_refines[OF assms(1-3), of junk b ks b0 t'] Some p assms(5) by auto
qed

theorem ddtable_alloc_refines_witness:
  "\<exists>ks' b'. ddtable_alloc (ram_kern 16384 \<lparr>tv_sec = 1, tv_nsec = 2\<rparr>) tiny_fs 0 (replicate 20 7) 100 tiny_ram = Inr ((0, b'), ks') \<and>
    dd_inv (ddtab tiny_fs (ram_img ks')) \<and> dd_map (ddtab tiny_fs (ram_img ks')) = [replicate 20 7 \<mapsto> (100, 1)] \<and> b' = 100"
  using ddtable_alloc_refines[OF ram.healthy_kernel_axioms[of 16384 "\<lparr>tv_sec = 1, tv_nsec = 2\<rparr>"] tiny_ok,
      of "replicate 20 7" 0 "replicate 32 free_entry" tiny_ram 100]
  by (auto simp: tiny_facts)

text \<open>C23: \<open>ddtable_unref\<close> refines releasing a reference: a counted block loses one reference and the
  number left is returned, at zero the entry is gone; a block no live entry records is reported by
  \<open>-1\<close> and nothing changes.\<close>

theorem ddtable_unref_refines:
  assumes "healthy_kernel K img hash devsize" "table_ok fs devsize" "t = ddtab fs (img ks)" "dd_inv t"
  shows "(\<forall>key n. dd_map t key = Some (b, n) \<longrightarrow> (\<exists>ks'. ddtable_unref K fs b ks = Inr (int n - 1, ks') \<and>
      dd_inv (ddtab fs (img ks')) \<and>
      dd_map (ddtab fs (img ks')) = (dd_map t)(key := (if n = 1 then None else Some (b, n - 1))))) \<and>
    (b \<notin> fst ` ran (dd_map t) \<longrightarrow> (\<exists>ks'. ddtable_unref K fs b ks = Inr (- 1, ks') \<and> ddtab fs (img ks') = t))"
proof (intro conjI allI impI)
  fix key n assume "dd_map t key = Some (b, n)"
  then obtain t' where "dd_release b t = (int n - 1, t')" "dd_inv t'"
    "dd_map t' = (dd_map t)(key := (if n = 1 then None else Some (b, n - 1)))"
    using list_release_hit[OF assms(4)] by blast
  then show "\<exists>ks'. ddtable_unref K fs b ks = Inr (int n - 1, ks') \<and> dd_inv (ddtab fs (img ks')) \<and>
      dd_map (ddtab fs (img ks')) = (dd_map t)(key := (if n = 1 then None else Some (b, n - 1)))"
    using healthy_kernel.unref_refines[OF assms(1,2), of b ks] assms(3) by metis
next
  assume "b \<notin> fst ` ran (dd_map t)"
  then show "\<exists>ks'. ddtable_unref K fs b ks = Inr (- 1, ks') \<and> ddtab fs (img ks') = t"
    using healthy_kernel.unref_refines[OF assms(1,2), of b ks] list_release_miss[OF assms(4)] assms(3) by blast
qed

theorem ddtable_unref_refines_witness:
  "\<exists>ks'. ddtable_unref (ram_kern 16384 \<lparr>tv_sec = 1, tv_nsec = 2\<rparr>) tiny_fs 100 tiny_ram1 = Inr (0, ks') \<and>
    dd_inv (ddtab tiny_fs (ram_img ks')) \<and> dd_map (ddtab tiny_fs (ram_img ks')) = Map.empty"
proof -
  have "dd_map ((replicate 32 free_entry)[0 := demo_entry]) (replicate 20 7) = Some (100, 1)" by (simp add: dd_map1)
  then show ?thesis
    using ddtable_unref_refines[OF ram.healthy_kernel_axioms[of 16384 "\<lparr>tv_sec = 1, tv_nsec = 2\<rparr>"] tiny_ok tiny_table1[symmetric] dd_inv1]
    by (fastforce simp: dd_map1)
qed

text \<open>C24: Writes and frees balance: contents written \<open>n + 1\<close> times, each time into a block of its own,
  end up in the first of these blocks, and of \<open>n + 1\<close> frees of that block exactly the last reports zero
  references, which leaves the table with the keys, blocks and counts it had before.\<close>

theorem dedup_write_free_balance:
  assumes "healthy_kernel K img hash devsize" "table_ok fs devsize" "length key = 20"
    and "t = ddtab fs (img ks)" "dd_inv t" "dd_map t key = None" "b \<notin> fst ` ran (dd_map t)" "dd_room t"
    and "Suc (length bs) \<le> 65535"
  shows "\<exists>ks1 ks2. ddtable_allocs K fs 0 key (b # bs) ks = Inr (replicate (Suc (length bs)) b, ks1) \<and>
    ddtable_unrefs K fs b (Suc (length bs)) ks1 = Inr (map int (rev [0..<Suc (length bs)]), ks2) \<and>
    dd_inv (ddtab fs (img ks2)) \<and> dd_map (ddtab fs (img ks2)) = dd_map t"
proof -
  obtain t1 t2 where "dd.acquires key (b # bs) t = Some (replicate (Suc (length bs)) b, t1)"
    "dd.releases b (Suc (length bs)) t1 = (map int (rev [0..<Suc (length bs)]), t2)" "dd_inv t2" "dd_map t2 = dd_map t"
    using dd.write_free_balance[OF assms(5-9)] by blast
  then show ?thesis
    using healthy_kernel.allocs_refine[OF assms(1-3), of "b # bs" ks] healthy_kernel.unrefs_refine[OF assms(1,2)] assms(4)
    by metis
qed

theorem dedup_write_free_balance_witness:
  "\<exists>ks1 ks2. ddtable_allocs (ram_kern 16384 \<lparr>tv_sec = 1, tv_nsec = 2\<rparr>) tiny_fs 0 (replicate 20 7) (100 # [101, 102]) tiny_ram =
      Inr (replicate (Suc (length [101 :: 64 word, 102])) 100, ks1) \<and>
    ddtable_unrefs (ram_kern 16384 \<lparr>tv_sec = 1, tv_nsec = 2\<rparr>) tiny_fs 100 (Suc (length [101 :: 64 word, 102])) ks1 =
      Inr (map int (rev [0..<Suc (length [101 :: 64 word, 102])]), ks2) \<and>
    dd_inv (ddtab tiny_fs (ram_img ks2)) \<and> dd_map (ddtab tiny_fs (ram_img ks2)) = dd_map (replicate 32 free_entry)"
  by (rule dedup_write_free_balance[OF ram.healthy_kernel_axioms tiny_ok]) (simp_all add: tiny_facts)

text \<open>Overwriting a block in place leaves the key of its old contents in the table: when block \<open>b\<close> is
  recorded under \<open>old\<close> and its new contents have the unknown key \<open>new\<close>, \<open>ddtable_alloc\<close> adds a second
  entry for \<open>b\<close> and the first stays, so a later write of the old contents is pointed to \<open>b\<close>, which
  no longer holds them.\<close>

theorem ddtable_alloc_keeps_stale_key:
  assumes "healthy_kernel K img hash devsize" "table_ok fs devsize" "length new = 20" "junk AND DDFS_DEDUP_FREE = 0"
    and "dd_map (ddtab fs (img ks)) old = Some (b, n)" "dd_map (ddtab fs (img ks)) new = None" "dd_room (ddtab fs (img ks))"
  shows "\<exists>ks'. ddtable_alloc K fs junk new b ks = Inr ((0, b), ks') \<and>
    dd_map (ddtab fs (img ks')) new = Some (b, 1) \<and> dd_map (ddtab fs (img ks')) old = Some (b, n)"
proof -
  let ?t = "ddtab fs (img ks)" and ?e = "\<lparr>dd_key = new, dd_flags = junk OR DDFS_DEDUP_ACTIVE, dd_ref_count = 1, dd_blockptr = b\<rparr>"
  obtain f where f: "index_of dd_free ?t = Some f" using assms(7) index_of_ex unfolding dd_room_def by metis
  have miss: "index_of (dd_match (Some new) None) ?t = None" using assms(6) by (simp add: dd_map_def)
  obtain ks' where ks': "ddtable_alloc K fs junk new b ks = Inr ((0, b), ks')" "ddtab fs (img ks') = ?t[f := ?e]"
    using healthy_kernel.alloc_miss[OF assms(1,2) miss f assms(3)] by blast
  have ne: "old \<noteq> new" using assms(5,6) by auto
  note live = new_entry_live[OF assms(4)]
  have "dd_map (?t[f := ?e]) new = Some (b, 1)"
    using dd_map_put_new[OF f, of ?e] miss live by (simp add: dd_free_def)
  moreover have "dd_map (?t[f := ?e]) old = dd_map ?t old"
    using dd_map_put_other[OF f, of ?e old] ne by simp
  ultimately show ?thesis using ks' assms(5) by auto
qed

theorem ddtable_alloc_keeps_stale_key_witness:
  "\<exists>ks'. ddtable_alloc (ram_kern 16384 \<lparr>tv_sec = 1, tv_nsec = 2\<rparr>) tiny_fs 0 (replicate 20 8) 100 tiny_ram1 = Inr ((0, 100), ks') \<and>
    dd_map (ddtab tiny_fs (ram_img ks')) (replicate 20 8) = Some (100, 1) \<and>
    dd_map (ddtab tiny_fs (ram_img ks')) (replicate 20 7) = Some (100, 1)"
  by (rule ddtable_alloc_keeps_stale_key[OF ram.healthy_kernel_axioms tiny_ok])
    (simp_all add: tiny_facts1)

text \<open>An allocation fails silently or fatally: with no free entry left and an unknown key,
  \<open>ddtable_alloc\<close> writes through a buffer pointer it never assigned; and when the uninitialised flags
  word of its stack entry happens to have the \<open>FREE\<close> bit set, it reports success although no key maps
  to the block and the table is as it was for every reader.\<close>

theorem ddtable_alloc_failures:
  assumes "healthy_kernel K img hash devsize" "table_ok fs devsize" "length key = 20"
    and "dd_map (ddtab fs (img ks)) key = None"
  shows "(\<not> dd_room (ddtab fs (img ks)) \<longrightarrow> ddtable_alloc K fs junk key b ks = Inl Uninitialised) \<and>
    (dd_room (ddtab fs (img ks)) \<and> junk AND DDFS_DEDUP_FREE \<noteq> 0 \<longrightarrow>
      (\<exists>ks'. ddtable_alloc K fs junk key b ks = Inr ((0, b), ks') \<and> dd_map (ddtab fs (img ks')) = dd_map (ddtab fs (img ks))))"
proof (intro conjI impI)
  let ?t = "ddtab fs (img ks)"
  have miss: "index_of (dd_match (Some key) None) ?t = None" using assms(4) by (simp add: dd_map_def)
  { assume "\<not> dd_room ?t"
    then have "index_of dd_free ?t = None" by (auto simp: dd_room_def index_of_None)
    then show "ddtable_alloc K fs junk key b ks = Inl Uninitialised"
      using healthy_kernel.alloc_full[OF assms(1,2) miss] by blast }
  assume r: "dd_room ?t \<and> junk AND DDFS_DEDUP_FREE \<noteq> 0"
  then obtain f where f: "index_of dd_free ?t = Some f" using index_of_ex unfolding dd_room_def by metis
  let ?e = "\<lparr>dd_key = key, dd_flags = junk OR DDFS_DEDUP_ACTIVE, dd_ref_count = 1, dd_blockptr = b\<rparr>"
  have "dd_free ?e" using r dirty_entry_free by (simp add: dd_free_def)
  then have "dd_map (?t[f := ?e]) = dd_map ?t" using f by (rule dd_map_put_free[rotated])
  then show "\<exists>ks'. ddtable_alloc K fs junk key b ks = Inr ((0, b), ks') \<and> dd_map (ddtab fs (img ks')) = dd_map ?t"
    using healthy_kernel.alloc_miss[OF assms(1,2) miss f assms(3), of junk b] by auto
qed

theorem ddtable_alloc_failures_witness:
  "\<exists>ks'. ddtable_alloc (ram_kern 16384 \<lparr>tv_sec = 1, tv_nsec = 2\<rparr>) tiny_fs 1 (replicate 20 8) 200 tiny_ram1 = Inr ((0, 200), ks') \<and>
    dd_map (ddtab tiny_fs (ram_img ks')) = [replicate 20 7 \<mapsto> (100, 1)]"
proof -
  have k: "dd_map (ddtab tiny_fs (ram_img tiny_ram1)) (replicate 20 8) = None" by (simp add: tiny_facts1)
  have "(1 :: 16 word) AND DDFS_DEDUP_FREE \<noteq> 0" by (simp add: DDFS_DEDUP_FREE_def)
  then show ?thesis
    using ddtable_alloc_failures[OF ram.healthy_kernel_axioms[of 16384 "\<lparr>tv_sec = 1, tv_nsec = 2\<rparr>"] tiny_ok _ k, of 1 200]
    by (simp add: tiny_facts1)
qed

section \<open>The address macros\<close>

text \<open>C37: The shift and mask macros of \<open>ddfs_fs.h\<close> equal the arithmetic their comments name, for every
  address, on every superblock whose derived fields are consistent.\<close>

theorem ddfs_macros_arith:
  assumes "geometry_ok fs"
  shows "blkoff fs x = x mod fs_bsize fs \<and> fragoff fs x = x mod fs_fsize fs \<and>
    lblkno fs x = x div fs_bsize fs \<and> numfrags fs x = x div fs_fsize fs \<and>
    lblktosize fs x = x * fs_bsize fs \<and> lfragtosize fs x = x * fs_fsize fs \<and>
    blkroundup fs x = roundup x (fs_bsize fs) \<and> fragroundup fs x = roundup x (fs_fsize fs) \<and>
    fragstoblks fs x = x div fs_frag fs \<and> blkstofrags fs x = x * fs_frag fs \<and>
    fragnum fs x = x mod fs_frag fs \<and> blknum fs x = x div fs_frag fs * fs_frag fs \<and>
    512 * fsbtodb fs x = fs_fsize fs * x \<and> dbtofsb fs (fsbtodb fs x) = x"
  using macros_div[OF assms] roundups[OF assms] fsbtodb_bytes[OF assms]
  by (simp add: dbtofsb_def fsbtodb_def push_bit_eq_mult drop_bit_eq_div)

theorem ddfs_macros_arith_witness:
  "geometry_ok tiny_fs \<and> blkoff tiny_fs 5000 = 5000 mod 512 \<and> fragroundup tiny_fs 5000 = 5120"
  using ddfs_macros_arith[OF tiny_geometry, of 5000] tiny_geometry by (simp add: tiny_fs_def roundup_def)

end
