(* ===== verification/Ddfs_Bitmap.thy ===== *)
theory Ddfs_Bitmap
  imports Ddfs_Fs
begin

text \<open>
  The free maps of a cylinder group: the bit macros, the block operations of \<open>ddfs_subr.c\<close>
  (\<open>ffs_isblock\<close> to \<open>ffs_setblock\<close>), the pattern tables of \<open>ddfs_tables.c\<close> and the fragment accounting
  \<open>ffs_fragacct\<close>. A set bit is a free fragment; a block is \<open>fs_frag\<close> consecutive bits.
\<close>

section \<open>Definitions\<close>

subsection \<open>Bits of a map\<close>

text \<open>\<open>setbit\<close>, \<open>clrbit\<close>, \<open>isset\<close> and \<open>isclr\<close> of FreeBSD's \<open>sys/param.h\<close>.\<close>

definition setbit :: "byte list \<Rightarrow> nat \<Rightarrow> byte list" where
  "setbit a i = a[i div 8 := a ! (i div 8) OR push_bit (i mod 8) 1]"

definition clrbit :: "byte list \<Rightarrow> nat \<Rightarrow> byte list" where
  "clrbit a i = a[i div 8 := a ! (i div 8) AND NOT (push_bit (i mod 8) 1)]"

definition isset :: "byte list \<Rightarrow> nat \<Rightarrow> bool" where
  "isset a i \<longleftrightarrow> a ! (i div 8) AND push_bit (i mod 8) 1 \<noteq> 0"

definition isclr :: "byte list \<Rightarrow> nat \<Rightarrow> bool" where
  "isclr a i \<longleftrightarrow> a ! (i div 8) AND push_bit (i mod 8) 1 = 0"

subsection \<open>Blocks of a map\<close>

definition ffs_isblock :: "ddfs_fs \<Rightarrow> byte list \<Rightarrow> nat \<Rightarrow> fault + bool" where
  "ffs_isblock fs cp h =
     (if fs_frag fs = 8 then Inr (cp ! h = 0xff)
      else if fs_frag fs = 4 then
        (let msk = push_bit ((h mod 2) * 4) 0x0f in Inr (cp ! (h div 2) AND msk = msk))
      else if fs_frag fs = 2 then
        (let msk = push_bit ((h mod 4) * 2) 0x03 in Inr (cp ! (h div 4) AND msk = msk))
      else if fs_frag fs = 1 then
        (let msk = push_bit (h mod 8) 0x01 in Inr (cp ! (h div 8) AND msk = msk))
      else Inl (Panic ''ffs_isblock''))"

definition ffs_isfreeblock :: "ddfs_fs \<Rightarrow> byte list \<Rightarrow> nat \<Rightarrow> fault + bool" where
  "ffs_isfreeblock fs cp h =
     (if fs_frag fs = 8 then Inr (cp ! h = 0)
      else if fs_frag fs = 4 then Inr (cp ! (h div 2) AND push_bit ((h mod 2) * 4) 0x0f = 0)
      else if fs_frag fs = 2 then Inr (cp ! (h div 4) AND push_bit ((h mod 4) * 2) 0x03 = 0)
      else if fs_frag fs = 1 then Inr (cp ! (h div 8) AND push_bit (h mod 8) 0x01 = 0)
      else Inl (Panic ''ffs_isfreeblock''))"

definition ffs_clrblock :: "ddfs_fs \<Rightarrow> byte list \<Rightarrow> nat \<Rightarrow> fault + byte list" where
  "ffs_clrblock fs cp h =
     (if fs_frag fs = 8 then Inr (cp[h := 0])
      else if fs_frag fs = 4 then
        Inr (cp[h div 2 := cp ! (h div 2) AND NOT (push_bit ((h mod 2) * 4) 0x0f)])
      else if fs_frag fs = 2 then
        Inr (cp[h div 4 := cp ! (h div 4) AND NOT (push_bit ((h mod 4) * 2) 0x03)])
      else if fs_frag fs = 1 then
        Inr (cp[h div 8 := cp ! (h div 8) AND NOT (push_bit (h mod 8) 0x01)])
      else Inl (Panic ''ffs_clrblock''))"

definition ffs_setblock :: "ddfs_fs \<Rightarrow> byte list \<Rightarrow> nat \<Rightarrow> fault + byte list" where
  "ffs_setblock fs cp h =
     (if fs_frag fs = 8 then Inr (cp[h := 0xff])
      else if fs_frag fs = 4 then
        Inr (cp[h div 2 := cp ! (h div 2) OR push_bit ((h mod 2) * 4) 0x0f])
      else if fs_frag fs = 2 then
        Inr (cp[h div 4 := cp ! (h div 4) OR push_bit ((h mod 4) * 2) 0x03])
      else if fs_frag fs = 1 then
        Inr (cp[h div 8 := cp ! (h div 8) OR push_bit (h mod 8) 0x01])
      else Inl (Panic ''ffs_setblock''))"

subsection \<open>Pattern tables\<close>

definition around :: "nat list" where
  "around = [0x3, 0x7, 0xf, 0x1f, 0x3f, 0x7f, 0xff, 0x1ff, 0x3ff]"

definition inside :: "nat list" where
  "inside = [0x0, 0x2, 0x6, 0xe, 0x1e, 0x3e, 0x7e, 0xfe, 0x1fe]"

definition fragtbl124 :: "nat list" where
  "fragtbl124 = [
     0x00, 0x16, 0x16, 0x2a, 0x16, 0x16, 0x26, 0x4e, 0x16, 0x16, 0x16, 0x3e, 0x2a, 0x3e, 0x4e, 0x8a,
     0x16, 0x16, 0x16, 0x3e, 0x16, 0x16, 0x36, 0x5e, 0x16, 0x16, 0x16, 0x3e, 0x3e, 0x3e, 0x5e, 0x9e,
     0x16, 0x16, 0x16, 0x3e, 0x16, 0x16, 0x36, 0x5e, 0x16, 0x16, 0x16, 0x3e, 0x3e, 0x3e, 0x5e, 0x9e,
     0x2a, 0x3e, 0x3e, 0x2a, 0x3e, 0x3e, 0x2e, 0x6e, 0x3e, 0x3e, 0x3e, 0x3e, 0x2a, 0x3e, 0x6e, 0xaa,
     0x16, 0x16, 0x16, 0x3e, 0x16, 0x16, 0x36, 0x5e, 0x16, 0x16, 0x16, 0x3e, 0x3e, 0x3e, 0x5e, 0x9e,
     0x16, 0x16, 0x16, 0x3e, 0x16, 0x16, 0x36, 0x5e, 0x16, 0x16, 0x16, 0x3e, 0x3e, 0x3e, 0x5e, 0x9e,
     0x26, 0x36, 0x36, 0x2e, 0x36, 0x36, 0x26, 0x6e, 0x36, 0x36, 0x36, 0x3e, 0x2e, 0x3e, 0x6e, 0xae,
     0x4e, 0x5e, 0x5e, 0x6e, 0x5e, 0x5e, 0x6e, 0x4e, 0x5e, 0x5e, 0x5e, 0x7e, 0x6e, 0x7e, 0x4e, 0xce,
     0x16, 0x16, 0x16, 0x3e, 0x16, 0x16, 0x36, 0x5e, 0x16, 0x16, 0x16, 0x3e, 0x3e, 0x3e, 0x5e, 0x9e,
     0x16, 0x16, 0x16, 0x3e, 0x16, 0x16, 0x36, 0x5e, 0x16, 0x16, 0x16, 0x3e, 0x3e, 0x3e, 0x5e, 0x9e,
     0x16, 0x16, 0x16, 0x3e, 0x16, 0x16, 0x36, 0x5e, 0x16, 0x16, 0x16, 0x3e, 0x3e, 0x3e, 0x5e, 0x9e,
     0x3e, 0x3e, 0x3e, 0x3e, 0x3e, 0x3e, 0x3e, 0x7e, 0x3e, 0x3e, 0x3e, 0x3e, 0x3e, 0x3e, 0x7e, 0xbe,
     0x2a, 0x3e, 0x3e, 0x2a, 0x3e, 0x3e, 0x2e, 0x6e, 0x3e, 0x3e, 0x3e, 0x3e, 0x2a, 0x3e, 0x6e, 0xaa,
     0x3e, 0x3e, 0x3e, 0x3e, 0x3e, 0x3e, 0x3e, 0x7e, 0x3e, 0x3e, 0x3e, 0x3e, 0x3e, 0x3e, 0x7e, 0xbe,
     0x4e, 0x5e, 0x5e, 0x6e, 0x5e, 0x5e, 0x6e, 0x4e, 0x5e, 0x5e, 0x5e, 0x7e, 0x6e, 0x7e, 0x4e, 0xce,
     0x8a, 0x9e, 0x9e, 0xaa, 0x9e, 0x9e, 0xae, 0xce, 0x9e, 0x9e, 0x9e, 0xbe, 0xaa, 0xbe, 0xce, 0x8a]"

definition fragtbl8 :: "nat list" where
  "fragtbl8 = [
     0x00, 0x01, 0x01, 0x02, 0x01, 0x01, 0x02, 0x04, 0x01, 0x01, 0x01, 0x03, 0x02, 0x03, 0x04, 0x08,
     0x01, 0x01, 0x01, 0x03, 0x01, 0x01, 0x03, 0x05, 0x02, 0x03, 0x03, 0x02, 0x04, 0x05, 0x08, 0x10,
     0x01, 0x01, 0x01, 0x03, 0x01, 0x01, 0x03, 0x05, 0x01, 0x01, 0x01, 0x03, 0x03, 0x03, 0x05, 0x09,
     0x02, 0x03, 0x03, 0x02, 0x03, 0x03, 0x02, 0x06, 0x04, 0x05, 0x05, 0x06, 0x08, 0x09, 0x10, 0x20,
     0x01, 0x01, 0x01, 0x03, 0x01, 0x01, 0x03, 0x05, 0x01, 0x01, 0x01, 0x03, 0x03, 0x03, 0x05, 0x09,
     0x01, 0x01, 0x01, 0x03, 0x01, 0x01, 0x03, 0x05, 0x03, 0x03, 0x03, 0x03, 0x05, 0x05, 0x09, 0x11,
     0x02, 0x03, 0x03, 0x02, 0x03, 0x03, 0x02, 0x06, 0x03, 0x03, 0x03, 0x03, 0x02, 0x03, 0x06, 0x0a,
     0x04, 0x05, 0x05, 0x06, 0x05, 0x05, 0x06, 0x04, 0x08, 0x09, 0x09, 0x0a, 0x10, 0x11, 0x20, 0x40,
     0x01, 0x01, 0x01, 0x03, 0x01, 0x01, 0x03, 0x05, 0x01, 0x01, 0x01, 0x03, 0x03, 0x03, 0x05, 0x09,
     0x01, 0x01, 0x01, 0x03, 0x01, 0x01, 0x03, 0x05, 0x03, 0x03, 0x03, 0x03, 0x05, 0x05, 0x09, 0x11,
     0x01, 0x01, 0x01, 0x03, 0x01, 0x01, 0x03, 0x05, 0x01, 0x01, 0x01, 0x03, 0x03, 0x03, 0x05, 0x09,
     0x03, 0x03, 0x03, 0x03, 0x03, 0x03, 0x03, 0x07, 0x05, 0x05, 0x05, 0x07, 0x09, 0x09, 0x11, 0x21,
     0x02, 0x03, 0x03, 0x02, 0x03, 0x03, 0x02, 0x06, 0x03, 0x03, 0x03, 0x03, 0x02, 0x03, 0x06, 0x0a,
     0x03, 0x03, 0x03, 0x03, 0x03, 0x03, 0x03, 0x07, 0x02, 0x03, 0x03, 0x02, 0x06, 0x07, 0x0a, 0x12,
     0x04, 0x05, 0x05, 0x06, 0x05, 0x05, 0x06, 0x04, 0x05, 0x05, 0x05, 0x07, 0x06, 0x07, 0x04, 0x0c,
     0x08, 0x09, 0x09, 0x0a, 0x09, 0x09, 0x0a, 0x0c, 0x10, 0x11, 0x11, 0x12, 0x20, 0x21, 0x40, 0x80]"

text \<open>The entries for 0, 3, 5, 6 and 7 fragments are null pointers.\<close>

definition fragtbl :: "nat \<Rightarrow> nat list" where
  "fragtbl frag = (if frag \<in> {1, 2, 4} then fragtbl124 else if frag = 8 then fragtbl8 else [])"

subsection \<open>Fragment accounting\<close>

text \<open>The two loops of \<open>ffs_fragacct\<close>. A match at \<open>pos\<close> moves on by \<open>siz + 1\<close> positions.\<close>

function fragacct_pos :: "nat \<Rightarrow> nat \<Rightarrow> nat \<Rightarrow> nat \<Rightarrow> nat \<Rightarrow> nat \<Rightarrow> int \<Rightarrow> int list \<Rightarrow> int list" where
  "fragacct_pos frag fragmap siz pos field subfield cnt fraglist =
     (if pos \<le> frag then
        (if fragmap AND field = subfield then
           fragacct_pos frag fragmap siz (pos + siz + 1) (push_bit 1 (push_bit siz field))
             (push_bit 1 (push_bit siz subfield)) cnt (fraglist[siz := fraglist ! siz + cnt])
         else fragacct_pos frag fragmap siz (pos + 1) (push_bit 1 field) (push_bit 1 subfield) cnt fraglist)
      else fraglist)"
  by pat_completeness auto
termination
  by (relation "measure (\<lambda>(frag, fragmap, siz, pos, field, subfield, cnt, fraglist). Suc frag - pos)") auto

function fragacct_siz :: "nat \<Rightarrow> nat \<Rightarrow> nat \<Rightarrow> nat \<Rightarrow> int \<Rightarrow> int list \<Rightarrow> int list" where
  "fragacct_siz frag inblk fragmap siz cnt fraglist =
     (if siz < frag then
        fragacct_siz frag inblk fragmap (siz + 1) cnt
          (if inblk AND push_bit (siz + frag mod 8) 1 = 0 then fraglist
           else fragacct_pos frag fragmap siz siz (around ! siz) (inside ! siz) cnt fraglist)
      else fraglist)"
  by pat_completeness auto
termination
  by (relation "measure (\<lambda>(frag, inblk, fragmap, siz, cnt, fraglist). frag - siz)") auto

definition ffs_fragacct :: "ddfs_fs \<Rightarrow> nat \<Rightarrow> int list \<Rightarrow> int \<Rightarrow> int list" where
  "ffs_fragacct fs fragmap fraglist cnt =
     (let frag = nat (fs_frag fs) in
      fragacct_siz frag (push_bit 1 (fragtbl frag ! fragmap)) (push_bit 1 fragmap) 1 cnt fraglist)"

declare fragacct_pos.simps [simp del] fragacct_siz.simps [simp del]

section \<open>Runs of free fragments\<close>

text \<open>The specification: the lengths of the maximal runs of free fragments in a block, from left to
  right. \<open>c\<close> is the length of the run that ends at the front of the list.\<close>

fun run_lengths :: "nat \<Rightarrow> bool list \<Rightarrow> nat list" where
  "run_lengths c [] = (if c = 0 then [] else [c])"
| "run_lengths c (b # bs) = (if b then run_lengths (Suc c) bs else if c = 0 then run_lengths 0 bs else c # run_lengths 0 bs)"

definition runs :: "bool list \<Rightarrow> nat \<Rightarrow> nat" where
  "runs bs k = count_list (run_lengths 0 bs) k"

lemma run_lengths_replicate: "run_lengths c (replicate n True @ bs) = run_lengths (c + n) bs"
  by (induction n arbitrary: c) simp_all

lemma run_lengths_block: "run_lengths c (replicate n True @ False # bs) = (if c + n = 0 then [] else [c + n]) @ run_lengths 0 bs"
  by (simp add: run_lengths_replicate)

lemma run_lengths_tail: "run_lengths c (replicate n True) = (if c + n = 0 then [] else [c + n])"
  using run_lengths_replicate[of c n "[]"] by simp

lemma run_lengths_pos: "k \<in> set (run_lengths c bs) \<Longrightarrow> 0 < k"
  by (induction bs arbitrary: c) (auto split: if_splits)

text \<open>A list of flags either is a run or starts with a run and a used fragment.\<close>

lemma run_split:
  obtains n where "bs = replicate n True" | n rest where "bs = replicate n True @ False # rest" "length rest < length bs"
proof (cases "False \<in> set bs")
  case True
  then obtain pre rest where p: "bs = pre @ False # rest" "False \<notin> set pre" by (meson split_list_first)
  then have "pre = replicate (length pre) True" by (metis (full_types) replicate_eqI)
  then show thesis using p that(2)[of "length pre" rest] by auto
next
  case False
  then have "bs = replicate (length bs) True" by (metis (full_types) replicate_eqI)
  then show thesis using that(1) by blast
qed

definition run_at :: "bool list \<Rightarrow> nat \<Rightarrow> nat \<Rightarrow> bool" where
  "run_at bs k q \<longleftrightarrow> q + k \<le> length bs \<and> (\<forall>i < k. bs ! (q + i)) \<and> (q = 0 \<or> \<not> bs ! (q - 1)) \<and>
     (q + k = length bs \<or> \<not> bs ! (q + k))"

lemma run_at_replicate: "0 < k \<Longrightarrow> run_at (replicate n True) k q \<longleftrightarrow> q = 0 \<and> k = n"
proof
  assume k: "0 < k" and r: "run_at (replicate n True) k q"
  have "q = 0"
  proof (rule ccontr)
    assume "q \<noteq> 0"
    then have "q - 1 < n" "\<not> replicate n True ! (q - 1)" using k r by (auto simp: run_at_def)
    then show False by simp
  qed
  moreover have "k = n"
  proof (rule ccontr)
    assume "k \<noteq> n"
    then have "k < n" "\<not> replicate n True ! k" using r \<open>q = 0\<close> by (auto simp: run_at_def)
    then show False by simp
  qed
  ultimately show "q = 0 \<and> k = n" ..
qed (auto simp: run_at_def)

lemma run_at_block:
  assumes "0 < k"
  shows "run_at (replicate n True @ False # bs) k q \<longleftrightarrow> (q = 0 \<and> k = n) \<or> (n < q \<and> run_at bs k (q - Suc n))"
proof -
  let ?l = "replicate n True @ False # bs"
  consider "q = 0" | "0 < q" "q \<le> n" | "n < q" by linarith
  then show ?thesis
  proof cases
    case 1
    have "\<not> run_at ?l k 0" if "n < k"
    proof
      assume "run_at ?l k 0"
      then have "?l ! n" using that by (simp add: run_at_def)
      then show False by (simp add: nth_append)
    qed
    moreover have "run_at ?l k 0 \<Longrightarrow> k < n \<Longrightarrow> False" by (auto simp: run_at_def nth_append)
    moreover have "run_at ?l n 0" by (simp add: run_at_def nth_append)
    ultimately show ?thesis using 1 by (metis linorder_neqE_nat not_less_zero)
  next
    case 2
    have "\<not> run_at ?l k q"
    proof
      assume "run_at ?l k q"
      then have "\<not> ?l ! (q - 1)" using 2 by (auto simp: run_at_def)
      moreover have "q - 1 < n" using 2 by linarith
      ultimately show False by (simp add: nth_append)
    qed
    then show ?thesis using 2 by simp
  next
    case 3
    then obtain r where r: "q = Suc n + r" by (metis Suc_leI le_Suc_ex)
    have "?l ! (Suc n + i) = bs ! i" for i by (simp add: nth_append)
    moreover have "(q = 0 \<or> \<not> ?l ! (q - 1)) = (r = 0 \<or> \<not> bs ! (r - 1))"
      unfolding r by (cases r) (simp_all add: nth_append)
    ultimately show ?thesis using 3 unfolding run_at_def r by (simp add: add.assoc)
  qed
qed

lemma runs_card: "0 < k \<Longrightarrow> runs bs k = card {q. run_at bs k q}"
proof (induction bs rule: length_induct)
  case (1 bs)
  show ?case
  proof (cases bs rule: run_split)
    case (1 n)
    have "{q. run_at bs k q} = (if k = n then {0} else {})"
      unfolding 1 by (auto simp: run_at_replicate[OF \<open>0 < k\<close>])
    then show ?thesis using \<open>0 < k\<close> unfolding 1 by (auto simp: runs_def run_lengths_tail)
  next
    case (2 n rest)
    have fin: "finite {q. run_at rest k q}"
      by (rule finite_subset[of _ "{..length rest}"]) (auto simp: run_at_def)
    have "{q. run_at bs k q} = (if k = n then {0} else {}) \<union> (\<lambda>q. Suc n + q) ` {q. run_at rest k q}"
    proof (rule set_eqI)
      fix q
      have "n < q \<and> run_at rest k (q - Suc n) \<longleftrightarrow> q \<in> (\<lambda>q. Suc n + q) ` {q. run_at rest k q}"
        by (auto simp: image_iff intro!: exI[of _ "q - Suc n"])
      then show "q \<in> {q. run_at bs k q} \<longleftrightarrow> q \<in> (if k = n then {0} else {}) \<union> (\<lambda>q. Suc n + q) ` {q. run_at rest k q}"
        unfolding 2(1) by (auto simp: run_at_block[OF \<open>0 < k\<close>])
    qed
    then have "card {q. run_at bs k q} = (if k = n then 1 else 0) + card {q. run_at rest k q}"
      using fin by (cases "k = n") (simp_all add: card_image card_insert_if image_iff inj_on_def)
    moreover have "runs rest k = card {q. run_at rest k q}" using "1.IH" 2(2) \<open>0 < k\<close> by blast
    moreover have "runs bs k = (if k = n then 1 else 0) + runs rest k"
      using \<open>0 < k\<close> unfolding 2(1) by (simp add: runs_def run_lengths_block)
    ultimately show ?thesis by simp
  qed
qed

section \<open>The accounting loop counts runs\<close>

text \<open>The bits of a block map below \<open>2 ^ frag\<close>.\<close>

definition map_bits :: "nat \<Rightarrow> nat \<Rightarrow> bool list" where
  "map_bits frag m = map (bit m) [0..<frag]"

lemma length_map_bits [simp]: "length (map_bits frag m) = frag"
  by (simp add: map_bits_def)

lemma map_bits_nth [simp]: "i < frag \<Longrightarrow> map_bits frag m ! i = bit m i"
  by (simp add: map_bits_def)

lemma nat_bit_ge: "m < 2 ^ n \<Longrightarrow> n \<le> i \<Longrightarrow> \<not> bit (m :: nat) i"
proof -
  assume "m < 2 ^ n" "n \<le> i"
  then have "m < 2 ^ i" by (meson less_le_trans one_le_numeral power_increasing)
  then show ?thesis by (simp add: bit_iff_odd)
qed

text \<open>The pattern test at a shift of \<open>p\<close> recognises a run at \<open>p\<close>.\<close>

lemma pattern_run:
  assumes "m < 2 ^ frag" "p + k \<le> frag"
  shows "push_bit 1 m AND push_bit p (mask (k + 2)) = push_bit p (push_bit 1 (mask k)) \<longleftrightarrow> run_at (map_bits frag m) k p"
proof -
  let ?b = "\<lambda>i. bit (push_bit 1 m) i"
  have "bit (push_bit 1 m AND push_bit p (mask (k + 2))) i \<longleftrightarrow> ?b i \<and> p \<le> i \<and> i - p < k + 2"
    "bit (push_bit p (push_bit 1 (mask k) :: nat)) i \<longleftrightarrow> p \<le> i \<and> 1 \<le> i - p \<and> i - p - 1 < k" for i
    unfolding bit_and_iff bit_push_bit_iff_nat bit_mask_iff by auto
  then have "push_bit 1 m AND push_bit p (mask (k + 2)) = push_bit p (push_bit 1 (mask k)) \<longleftrightarrow>
      (\<forall>i. ?b i \<and> p \<le> i \<and> i - p < k + 2 \<longleftrightarrow> p \<le> i \<and> 1 \<le> i - p \<and> i - p - 1 < k)"
    unfolding bit_eq_iff by simp
  also have "\<dots> \<longleftrightarrow> \<not> ?b p \<and> (\<forall>i < k. ?b (p + 1 + i)) \<and> \<not> ?b (p + k + 1)"
  proof
    assume a: "\<forall>i. ?b i \<and> p \<le> i \<and> i - p < k + 2 \<longleftrightarrow> p \<le> i \<and> 1 \<le> i - p \<and> i - p - 1 < k"
    have "\<not> ?b p" using spec[OF a, of p] by auto
    moreover have "?b (p + 1 + i)" if "i < k" for i using spec[OF a, of "p + 1 + i"] that by auto
    moreover have "\<not> ?b (p + k + 1)" using spec[OF a, of "p + k + 1"] by auto
    ultimately show "\<not> ?b p \<and> (\<forall>i < k. ?b (p + 1 + i)) \<and> \<not> ?b (p + k + 1)" by blast
  next
    assume a: "\<not> ?b p \<and> (\<forall>i < k. ?b (p + 1 + i)) \<and> \<not> ?b (p + k + 1)"
    show "\<forall>i. ?b i \<and> p \<le> i \<and> i - p < k + 2 \<longleftrightarrow> p \<le> i \<and> 1 \<le> i - p \<and> i - p - 1 < k"
    proof
    fix i
    have cases5: "i < p \<or> i = p \<or> (\<exists>j < k. i = p + 1 + j) \<or> i = p + k + 1 \<or> p + k + 1 < i" by presburger
    consider "i < p" | "i = p" | j where "j < k" "i = p + 1 + j" | "i = p + k + 1" | "p + k + 1 < i"
      using cases5 by blast
    then show "?b i \<and> p \<le> i \<and> i - p < k + 2 \<longleftrightarrow> p \<le> i \<and> 1 \<le> i - p \<and> i - p - 1 < k"
      by cases (use a in auto)
    qed
  qed
  also have "\<dots> \<longleftrightarrow> run_at (map_bits frag m) k p"
  proof -
    have "?b p \<longleftrightarrow> p \<noteq> 0 \<and> bit m (p - 1)" unfolding bit_push_bit_iff_nat by auto
    moreover have "?b (p + k + 1) \<longleftrightarrow> bit m (p + k)" "\<And>i. ?b (p + 1 + i) \<longleftrightarrow> bit m (p + i)"
      unfolding bit_push_bit_iff_nat by auto
    moreover have "p \<noteq> 0 \<Longrightarrow> map_bits frag m ! (p - 1) = bit m (p - 1)" "\<And>i. i < k \<Longrightarrow> map_bits frag m ! (p + i) = bit m (p + i)"
      using assms(2) by auto
    moreover have "p + k = frag \<or> \<not> map_bits frag m ! (p + k) \<longleftrightarrow> \<not> bit m (p + k)"
      using nat_bit_ge[OF assms(1), of "p + k"] assms(2) by (cases "p + k = frag") auto
    ultimately show ?thesis using assms(2) unfolding run_at_def length_map_bits by blast
  qed
  finally show ?thesis .
qed

lemma around_mask: "1 \<le> k \<Longrightarrow> k \<le> 8 \<Longrightarrow> around ! k = mask (k + 2)"
  and inside_mask: "1 \<le> k \<Longrightarrow> k \<le> 8 \<Longrightarrow> inside ! k = push_bit 1 (mask k)"
proof -
  assume "1 \<le> k" "k \<le> 8"
  then have "k \<in> {1, 2, 3, 4, 5, 6, 7, 8}" by auto
  then show "around ! k = mask (k + 2)" "inside ! k = push_bit 1 (mask k)"
    by (auto simp: around_def inside_def mask_eq_exp_minus_1)
qed

text \<open>After a run of \<open>k\<close> at \<open>p\<close> the next one starts behind \<open>p + k\<close>.\<close>

lemma run_at_gap:
  assumes "run_at bs k p" "run_at bs k q" "p < q"
  shows "p + k < q"
proof (rule ccontr)
  assume "\<not> p + k < q"
  then obtain i where i: "q - 1 = p + i" "i < k" using assms(3) by (intro that[of "q - 1 - p"]) auto
  then have "bs ! (q - 1)" using assms(1) by (simp add: run_at_def)
  then show False using assms(2,3) by (auto simp: run_at_def)
qed

lemma fragacct_pos_counts:
  assumes "m < 2 ^ frag" "1 \<le> k" "k \<le> 8"
  shows "k \<le> pos \<Longrightarrow> k < length fl \<Longrightarrow> fragacct_pos frag (push_bit 1 m) k pos (push_bit (pos - k) (mask (k + 2)))
      (push_bit (pos - k) (push_bit 1 (mask k))) cnt fl =
    fl[k := fl ! k + cnt * int (card {q. pos - k \<le> q \<and> run_at (map_bits frag m) k q})]"
proof (induction "Suc frag - pos" arbitrary: pos fl rule: less_induct)
  case less
  let ?R = "\<lambda>p. {q. p \<le> q \<and> run_at (map_bits frag m) k q}"
  have fin: "finite (?R p)" for p
    by (rule finite_subset[of _ "{..frag}"]) (auto simp: run_at_def)
  let ?p = "pos - k"
  show ?case
  proof (cases "pos \<le> frag")
    case False
    then have "?R ?p = {}" using less.prems(1) assms(2) by (auto simp: run_at_def)
    then have "card (?R ?p) = 0" by (simp only: card.empty)
    then show ?thesis using False by (simp add: fragacct_pos.simps)
  next
    case True
    then have le: "?p + k \<le> frag" using less.prems(1) by simp
    note pat = pattern_run[OF assms(1) le]
    note u = fragacct_pos.simps[of frag "push_bit 1 m" k pos]
    show ?thesis
    proof (cases "run_at (map_bits frag m) k ?p")
      case hit: True
      have R: "?R ?p = insert ?p (?R (pos + 1))"
        using hit run_at_gap[OF hit] less.prems(1) by (force simp: le_less)
      have "?p \<notin> ?R (pos + 1)" using assms(2) by auto
      then have c: "int (card (?R ?p)) = 1 + int (card (?R (pos + 1)))" unfolding R using fin by simp
      have "fragacct_pos frag (push_bit 1 m) k (pos + k + 1) (push_bit (pos + 1) (mask (k + 2)))
          (push_bit (pos + 1) (push_bit 1 (mask k))) cnt (fl[k := fl ! k + cnt]) =
          fl[k := fl ! k + cnt + cnt * int (card (?R (pos + 1)))]"
        using less.hyps[of "pos + k + 1" "fl[k := fl ! k + cnt]"] True less.prems(2) by simp
      moreover have "push_bit 1 (push_bit k (push_bit ?p x)) = push_bit (pos + 1) x" for x :: nat
        using less.prems(1) by (simp add: push_bit_push_bit add.commute)
      ultimately show ?thesis using hit True pat less.prems(1)
        by (subst u) (simp add: c algebra_simps)
    next
      case miss: False
      have R: "?R ?p = ?R (?p + 1)" using miss by (auto simp: Suc_le_eq le_less)
      have "push_bit 1 (push_bit ?p x) = push_bit (pos + 1 - k) x" for x :: nat
        using less.prems(1) by (simp add: push_bit_push_bit Suc_diff_le)
      moreover have "?R (pos + 1 - k) = ?R ?p" using R less.prems(1) by (simp add: Suc_diff_le)
      moreover have "fragacct_pos frag (push_bit 1 m) k (pos + 1) (push_bit (pos + 1 - k) (mask (k + 2)))
          (push_bit (pos + 1 - k) (push_bit 1 (mask k))) cnt fl = fl[k := fl ! k + cnt * int (card (?R (pos + 1 - k)))]"
        by (rule less.hyps) (use True less.prems in auto)
      ultimately show ?thesis using miss True pat by (subst u) simp
    qed
  qed
qed

section \<open>The pattern tables\<close>

text \<open>The entry of a map byte has the bit of size \<open>k\<close> set if some block of the byte has a maximal run of
  \<open>k\<close> free fragments. Both tables are checked entry by entry.\<close>

definition entry_ok :: "nat \<Rightarrow> nat \<Rightarrow> bool list list \<Rightarrow> bool" where
  "entry_ok frag x cs = list_all (\<lambda>k. bit x (k - 1 + frag mod 8) \<longleftrightarrow> list_ex (\<lambda>c. k \<in> set (run_lengths 0 c)) cs) [1..<Suc frag]"

lemmas table_simps = entry_ok_def horner_sum_simps upt_rec bit_Suc_0_iff

lemma fragtbl8_entries: "\<forall>b0 b1 b2 b3 b4 b5 b6 b7. entry_ok 8 (fragtbl8 ! horner_sum of_bool 2 [b0, b1, b2, b3, b4, b5, b6, b7])
    [[b0, b1, b2, b3, b4, b5, b6, b7]]"
  unfolding all_bool_eq by (simp add: table_simps fragtbl8_def)

lemma fragtbl4_entries: "\<forall>b0 b1 b2 b3 b4 b5 b6 b7. entry_ok 4 (fragtbl124 ! horner_sum of_bool 2 [b0, b1, b2, b3, b4, b5, b6, b7])
    [[b0, b1, b2, b3], [b4, b5, b6, b7]]"
  unfolding all_bool_eq by (simp add: table_simps fragtbl124_def)

lemma fragtbl2_entries: "\<forall>b0 b1 b2 b3 b4 b5 b6 b7. entry_ok 2 (fragtbl124 ! horner_sum of_bool 2 [b0, b1, b2, b3, b4, b5, b6, b7])
    [[b0, b1], [b2, b3], [b4, b5], [b6, b7]]"
  unfolding all_bool_eq by (simp add: table_simps fragtbl124_def)

lemma fragtbl1_entries: "\<forall>b0 b1 b2 b3 b4 b5 b6 b7. entry_ok 1 (fragtbl124 ! horner_sum of_bool 2 [b0, b1, b2, b3, b4, b5, b6, b7])
    [[b0], [b1], [b2], [b3], [b4], [b5], [b6], [b7]]"
  unfolding all_bool_eq by (simp add: table_simps fragtbl124_def)

text \<open>The bits of block \<open>j\<close> of a map byte.\<close>

definition byte_block :: "nat \<Rightarrow> nat \<Rightarrow> nat \<Rightarrow> bool list" where
  "byte_block frag m j = map (\<lambda>i. bit m (j * frag + i)) [0..<frag]"

lemma byte_blocks:
  "map (byte_block 8 m) [0..<8 div 8] = [[bit m 0, bit m 1, bit m 2, bit m 3, bit m 4, bit m 5, bit m 6, bit m 7]]"
  "map (byte_block 4 m) [0..<8 div 4] = [[bit m 0, bit m 1, bit m 2, bit m 3], [bit m 4, bit m 5, bit m 6, bit m 7]]"
  "map (byte_block 2 m) [0..<8 div 2] = [[bit m 0, bit m 1], [bit m 2, bit m 3], [bit m 4, bit m 5], [bit m 6, bit m 7]]"
  "map (byte_block 1 m) [0..<8 div 1] = [[bit m 0], [bit m 1], [bit m 2], [bit m 3], [bit m 4], [bit m 5], [bit m 6], [bit m 7]]"
proof -
  have u: "[0..<8] = [0, 1, 2, 3, 4, 5, 6, 7 :: nat]" "[0..<4] = [0, 1, 2, 3 :: nat]" "[0..<2] = [0, 1 :: nat]" "[0..<1] = [0 :: nat]"
    by code_simp+
  have d: "8 div 8 = (1 :: nat)" "8 div 4 = (2 :: nat)" "8 div 2 = (4 :: nat)" "8 div 1 = (8 :: nat)" by simp_all
  show "map (byte_block 8 m) [0..<8 div 8] = [[bit m 0, bit m 1, bit m 2, bit m 3, bit m 4, bit m 5, bit m 6, bit m 7]]"
    unfolding byte_block_def d u by (simp add: numeral_2_eq_2)
  show "map (byte_block 4 m) [0..<8 div 4] = [[bit m 0, bit m 1, bit m 2, bit m 3], [bit m 4, bit m 5, bit m 6, bit m 7]]"
    unfolding byte_block_def d u by (simp add: numeral_2_eq_2)
  show "map (byte_block 2 m) [0..<8 div 2] = [[bit m 0, bit m 1], [bit m 2, bit m 3], [bit m 4, bit m 5], [bit m 6, bit m 7]]"
    unfolding byte_block_def d u by simp
  show "map (byte_block 1 m) [0..<8 div 1] = [[bit m 0], [bit m 1], [bit m 2], [bit m 3], [bit m 4], [bit m 5], [bit m 6], [bit m 7]]"
    unfolding byte_block_def d u by simp
qed

lemma fragtbl_spec:
  assumes "frag \<in> {1, 2, 4, 8}" "m < 256" "1 \<le> k" "k \<le> frag"
  shows "bit (fragtbl frag ! m) (k - 1 + frag mod 8) \<longleftrightarrow> (\<exists>j < 8 div frag. k \<in> set (run_lengths 0 (byte_block frag m j)))"
proof -
  have "take_bit 8 m = m" using assms(2) by (simp add: take_bit_nat_eq_self_iff)
  then have h: "horner_sum of_bool 2 (map (bit m) [0..<8]) = m" by (simp add: horner_sum_bit_eq_take_bit)
  have e: "map (bit m) [0..<8] = [bit m 0, bit m 1, bit m 2, bit m 3, bit m 4, bit m 5, bit m 6, bit m 7]"
    using byte_blocks(1)[of m] by (simp add: byte_block_def)
  note h = h[unfolded e] and bits = byte_blocks[of m]
  have "entry_ok 8 (fragtbl8 ! m) (map (byte_block 8 m) [0..<8 div 8])"
    unfolding bits using fragtbl8_entries[rule_format, of "bit m 0" "bit m 1" "bit m 2" "bit m 3" "bit m 4" "bit m 5" "bit m 6" "bit m 7"]
    unfolding h .
  moreover have "entry_ok 4 (fragtbl124 ! m) (map (byte_block 4 m) [0..<8 div 4])"
    unfolding bits using fragtbl4_entries[rule_format, of "bit m 0" "bit m 1" "bit m 2" "bit m 3" "bit m 4" "bit m 5" "bit m 6" "bit m 7"]
    unfolding h .
  moreover have "entry_ok 2 (fragtbl124 ! m) (map (byte_block 2 m) [0..<8 div 2])"
    unfolding bits using fragtbl2_entries[rule_format, of "bit m 0" "bit m 1" "bit m 2" "bit m 3" "bit m 4" "bit m 5" "bit m 6" "bit m 7"]
    unfolding h .
  moreover have "entry_ok 1 (fragtbl124 ! m) (map (byte_block 1 m) [0..<8 div 1])"
    unfolding bits using fragtbl1_entries[rule_format, of "bit m 0" "bit m 1" "bit m 2" "bit m 3" "bit m 4" "bit m 5" "bit m 6" "bit m 7"]
    unfolding h .
  ultimately have "entry_ok frag (fragtbl frag ! m) (map (byte_block frag m) [0..<8 div frag])"
    using assms(1) unfolding fragtbl_def by fastforce
  then have "\<forall>k \<in> set [1..<Suc frag]. bit (fragtbl frag ! m) (k - 1 + frag mod 8) \<longleftrightarrow>
      (\<exists>c \<in> set (map (byte_block frag m) [0..<8 div frag]). k \<in> set (run_lengths 0 c))"
    unfolding entry_ok_def list_all_iff list_ex_iff .
  moreover have "k \<in> set [1..<Suc frag]" using assms(3,4) by auto
  ultimately have "bit (fragtbl frag ! m) (k - 1 + frag mod 8) \<longleftrightarrow>
      (\<exists>c \<in> set (map (byte_block frag m) [0..<8 div frag]). k \<in> set (run_lengths 0 c))" by blast
  then show ?thesis by auto
qed

lemma run_lengths_none: "True \<notin> set bs \<Longrightarrow> run_lengths 0 bs = []"
  by (induction bs) auto

lemma fragtbl_block:
  assumes "frag \<in> {1, 2, 4, 8}" "m < 2 ^ frag" "1 \<le> k" "k \<le> frag"
  shows "bit (fragtbl frag ! m) (k - 1 + frag mod 8) \<longleftrightarrow> 0 < runs (map_bits frag m) k"
proof -
  have "m < 256" using assms(1,2) by (auto elim: less_le_trans)
  have later: "run_lengths 0 (byte_block frag m j) = []" if "j \<noteq> 0" for j
  proof (rule run_lengths_none)
    have "\<not> bit m (j * frag + i)" for i
      by (rule nat_bit_ge[OF assms(2)]) (use that in \<open>cases j; simp\<close>)
    then show "True \<notin> set (byte_block frag m j)" by (auto simp: byte_block_def)
  qed
  have "byte_block frag m 0 = map_bits frag m" by (simp add: byte_block_def map_bits_def)
  moreover have "0 < 8 div frag" using assms(1) by auto
  ultimately have "(\<exists>j < 8 div frag. k \<in> set (run_lengths 0 (byte_block frag m j))) \<longleftrightarrow> k \<in> set (run_lengths 0 (map_bits frag m))"
    using later by (metis empty_iff list.set(1))
  then show ?thesis using fragtbl_spec[OF assms(1) \<open>m < 256\<close> assms(3,4)] count_list_0_iff unfolding runs_def by (metis neq0_conv)
qed

section \<open>Fragment accounting\<close>

text \<open>\<open>ffs_fragacct\<close> adds \<open>cnt\<close> to the summary for every maximal run shorter than a block.\<close>

lemma fragacct_siz_counts:
  assumes "frag \<in> {1, 2, 4, 8}" "m < 2 ^ frag"
  shows "1 \<le> siz \<Longrightarrow> frag \<le> length fl \<Longrightarrow>
    fragacct_siz frag (push_bit 1 (fragtbl frag ! m)) (push_bit 1 m) siz cnt fl =
      map (\<lambda>k. fl ! k + (if siz \<le> k \<and> k < frag then cnt * int (runs (map_bits frag m) k) else 0)) [0..<length fl]"
proof (induction "frag - siz" arbitrary: siz fl)
  case 0
  then have "map (\<lambda>k. fl ! k + (if siz \<le> k \<and> k < frag then cnt * int (runs (map_bits frag m) k) else 0)) [0..<length fl] = map ((!) fl) [0..<length fl]"
    by (intro map_cong) auto
  then show ?case using 0 by (simp add: fragacct_siz.simps map_nth)
next
  case (Suc n)
  let ?r = "\<lambda>k. cnt * int (runs (map_bits frag m) k)"
  have s: "siz < frag" "siz \<le> 8" "siz < length fl" using Suc assms(1) by auto
  have t: "push_bit 1 (fragtbl frag ! m) AND push_bit (siz + frag mod 8) 1 = 0 \<longleftrightarrow> runs (map_bits frag m) siz = 0"
  proof -
    have "push_bit 1 x AND push_bit n 1 = 0 \<longleftrightarrow> \<not> (1 \<le> n \<and> bit x (n - 1))" for x n :: nat
      using and_exp_eq_0_iff_not_bit[of "push_bit 1 x" n] unfolding push_bit_of_1 bit_push_bit_iff_nat by simp
    then have "push_bit 1 (fragtbl frag ! m) AND push_bit (siz + frag mod 8) 1 = 0 \<longleftrightarrow>
        \<not> (1 \<le> siz + frag mod 8 \<and> bit (fragtbl frag ! m) (siz + frag mod 8 - 1))" .
    moreover have "1 \<le> siz + frag mod 8" "siz + frag mod 8 - 1 = siz - 1 + frag mod 8" using Suc(3) by linarith+
    ultimately show ?thesis using fragtbl_block[OF assms Suc(3) less_imp_le[OF s(1)]] by (metis neq0_conv)
  qed
  have "fragacct_pos frag (push_bit 1 m) siz siz (around ! siz) (inside ! siz) cnt fl = fl[siz := fl ! siz + ?r siz]"
    using fragacct_pos_counts[OF assms(2) Suc(3) s(2) order_refl s(3), of cnt]
    unfolding around_mask[OF Suc(3) s(2)] inside_mask[OF Suc(3) s(2)] runs_card[OF less_le_trans[OF zero_less_one Suc(3)]]
    by (simp only: diff_self_eq_0 push_bit_0_id id_apply le0 simp_thms)
  moreover have "runs (map_bits frag m) siz = 0 \<Longrightarrow> fl[siz := fl ! siz + ?r siz] = fl" by simp
  ultimately have "fragacct_siz frag (push_bit 1 (fragtbl frag ! m)) (push_bit 1 m) siz cnt fl =
      fragacct_siz frag (push_bit 1 (fragtbl frag ! m)) (push_bit 1 m) (siz + 1) cnt (fl[siz := fl ! siz + ?r siz])"
    using s(1) t by (simp add: fragacct_siz.simps[of frag _ _ siz])
  also have "\<dots> = map (\<lambda>k. fl[siz := fl ! siz + ?r siz] ! k + (if siz + 1 \<le> k \<and> k < frag then ?r k else 0)) [0..<length fl]"
    using Suc(1)[of "siz + 1" "fl[siz := fl ! siz + ?r siz]"] Suc(2,4) by simp
  also have "\<dots> = map (\<lambda>k. fl ! k + (if siz \<le> k \<and> k < frag then ?r k else 0)) [0..<length fl]"
  proof (rule map_cong[OF refl])
    fix k assume "k \<in> set [0..<length fl]"
    then show "fl[siz := fl ! siz + ?r siz] ! k + (if siz + 1 \<le> k \<and> k < frag then ?r k else 0) =
        fl ! k + (if siz \<le> k \<and> k < frag then ?r k else 0)"
      using s(1) by (cases "k = siz") auto
  qed
  finally show ?case .
qed

lemma fragacct_spec:
  assumes "geometry_ok fs" "m < 2 ^ nat (fs_frag fs)" "nat (fs_frag fs) \<le> length fl"
  shows "ffs_fragacct fs m fl cnt = map (\<lambda>k. fl ! k +
    (if 1 \<le> k \<and> k < nat (fs_frag fs) then cnt * int (runs (map_bits (nat (fs_frag fs)) m) k) else 0)) [0..<length fl]"
proof -
  have "nat (fs_frag fs) \<in> {1, 2, 4, 8}" using frag_cases[OF assms(1)] by auto
  then show ?thesis using fragacct_siz_counts[OF _ assms(2) order_refl assms(3)] by (simp add: ffs_fragacct_def Let_def)
qed

end
