(* ===== verification/Ddfs_Blocks.thy ===== *)
theory Ddfs_Blocks
  imports Ddfs_Bitmap
begin

text \<open>
  The bit and block operations on a free map in terms of its fragments: \<open>isset\<close> is the state of one
  fragment, and the table-driven block operations test or change the \<open>fs_frag\<close> fragments of a block.
\<close>

section \<open>Bits and blocks of a map\<close>

lemma isset_bit: "isset a i \<longleftrightarrow> bit (a ! (i div 8)) (i mod 8)"
  unfolding isset_def push_bit_of_1 by (simp add: and_exp_eq_0_iff_not_bit)

lemma isclr_isset: "isclr a i \<longleftrightarrow> \<not> isset a i"
  by (simp add: isset_def isclr_def)

lemma length_setbit [simp]: "length (setbit a i) = length a"
  by (simp add: setbit_def)

lemma length_clrbit [simp]: "length (clrbit a i) = length a"
  by (simp add: clrbit_def)

lemma div_mod_eq_8: "i = j" if "i div 8 = j div 8" "i mod 8 = j mod 8" for i j :: nat
  using that by (metis div_mult_mod_eq)

lemma isset_setbit: "i div 8 < length a \<Longrightarrow> isset (setbit a i) j \<longleftrightarrow> j = i \<or> isset a j"
  unfolding isset_bit setbit_def push_bit_of_1
  by (cases "j div 8 = i div 8") (auto simp: bit_or_iff bit_exp_iff possible_bit_def intro: div_mod_eq_8)

lemma isset_clrbit: "i div 8 < length a \<Longrightarrow> isset (clrbit a i) j \<longleftrightarrow> j \<noteq> i \<and> isset a j"
  unfolding isset_bit clrbit_def push_bit_of_1
  by (cases "j div 8 = i div 8") (auto simp: bit_and_iff bit_not_iff bit_exp_iff possible_bit_def intro: div_mod_eq_8)

text \<open>The byte operations on a field of \<open>f\<close> bits at \<open>s\<close>.\<close>

lemma bit_field: "s + f \<le> 8 \<Longrightarrow> bit (push_bit s (mask f) :: byte) j \<longleftrightarrow> s \<le> j \<and> j < s + f"
  by (auto simp: bit_push_bit_iff bit_mask_iff possible_bit_def)

lemma field_all: "s + f \<le> 8 \<Longrightarrow> (x :: byte) AND push_bit s (mask f) = push_bit s (mask f) \<longleftrightarrow> (\<forall>i < f. bit x (s + i))"
proof -
  assume sf: "s + f \<le> 8"
  have "x AND push_bit s (mask f) = push_bit s (mask f) \<longleftrightarrow> (\<forall>j. s \<le> j \<and> j < s + f \<longrightarrow> bit x j)"
    unfolding bit_eq_iff bit_and_iff bit_field[OF sf] using sf by (simp add: possible_bit_def) (meson less_le_trans)
  also have "\<dots> \<longleftrightarrow> (\<forall>i < f. bit x (s + i))" by (metis add_less_cancel_left le_Suc_ex le_add1)
  finally show ?thesis .
qed

lemma field_none: "s + f \<le> 8 \<Longrightarrow> (x :: byte) AND push_bit s (mask f) = 0 \<longleftrightarrow> (\<forall>i < f. \<not> bit x (s + i))"
proof -
  assume sf: "s + f \<le> 8"
  have "x AND push_bit s (mask f) = 0 \<longleftrightarrow> (\<forall>j. s \<le> j \<and> j < s + f \<longrightarrow> \<not> bit x j)"
    unfolding bit_eq_iff bit_and_iff bit_field[OF sf] using sf by (simp add: possible_bit_def) (meson less_le_trans)
  also have "\<dots> \<longleftrightarrow> (\<forall>i < f. \<not> bit x (s + i))" by (metis add_less_cancel_left le_Suc_ex le_add1)
  finally show ?thesis .
qed

text \<open>All four cases of the block operations are one operation on the field of block \<open>h\<close>.\<close>

definition blk_byte :: "nat \<Rightarrow> nat \<Rightarrow> nat" where
  "blk_byte f h = h div (8 div f)"

definition blk_field :: "nat \<Rightarrow> nat \<Rightarrow> byte" where
  "blk_field f h = push_bit (h mod (8 div f) * f) (mask f)"

lemma byte_masks: "(mask 8 :: byte) = 0xff" "(mask 4 :: byte) = 0x0f" "(mask 2 :: byte) = 0x03" "(mask (Suc 0) :: byte) = 0x01"
  by (simp_all add: mask_eq_exp_minus_1)

lemma byte_ff: "(x :: byte) AND 255 = x" "x OR 255 = 255" "NOT (255 :: byte) = 0" "(- 256 :: byte) = 0"
proof -
  have e: "(255 :: byte) = - 1" by simp
  show "x AND 255 = x" "x OR 255 = 255" "NOT (255 :: byte) = 0"
    unfolding e by (simp_all only: and.right_neutral bit.disj_one_right bit.compl_one)
  show "(- 256 :: byte) = 0" by simp
qed

lemma block_ops_field:
  assumes "geometry_ok fs" "f = nat (fs_frag fs)"
  shows "ffs_isblock fs cp h = Inr (cp ! blk_byte f h AND blk_field f h = blk_field f h)"
    "ffs_isfreeblock fs cp h = Inr (cp ! blk_byte f h AND blk_field f h = 0)"
    "ffs_clrblock fs cp h = Inr (cp[blk_byte f h := cp ! blk_byte f h AND NOT (blk_field f h)])"
    "ffs_setblock fs cp h = Inr (cp[blk_byte f h := cp ! blk_byte f h OR blk_field f h])"
proof -
  have c: "fs_frag fs = 8 \<and> f = 8 \<or> fs_frag fs = 4 \<and> f = 4 \<or> fs_frag fs = 2 \<and> f = 2 \<or> fs_frag fs = 1 \<and> f = 1"
    using frag_cases[OF assms(1)] assms(2) by auto
  from c show "ffs_isblock fs cp h = Inr (cp ! blk_byte f h AND blk_field f h = blk_field f h)"
    "ffs_isfreeblock fs cp h = Inr (cp ! blk_byte f h AND blk_field f h = 0)"
    "ffs_clrblock fs cp h = Inr (cp[blk_byte f h := cp ! blk_byte f h AND NOT (blk_field f h)])"
    "ffs_setblock fs cp h = Inr (cp[blk_byte f h := cp ! blk_byte f h OR blk_field f h])"
    by (auto simp: ffs_isblock_def ffs_isfreeblock_def ffs_clrblock_def ffs_setblock_def blk_byte_def blk_field_def
      byte_masks byte_ff Let_def)
qed

section \<open>Fragments of a block\<close>

text \<open>The state of the \<open>f\<close> fragments of block \<open>h\<close>.\<close>

definition blk_bits :: "nat \<Rightarrow> byte list \<Rightarrow> nat \<Rightarrow> bool list" where
  "blk_bits f cp h = map (\<lambda>i. isset cp (h * f + i)) [0..<f]"

lemma length_blk_bits [simp]: "length (blk_bits f cp h) = f"
  by (simp add: blk_bits_def)

lemma blk_bits_nth [simp]: "i < f \<Longrightarrow> blk_bits f cp h ! i = isset cp (h * f + i)"
  by (simp add: blk_bits_def)

lemma frag_in_byte:
  assumes "f \<in> {1, 2, 4, 8}" "i < f"
  shows "(h * f + i) div 8 = blk_byte f h" "(h * f + i) mod 8 = h mod (8 div f) * f + i" "h mod (8 div f) * f + f \<le> 8"
proof -
  define p where "p = 8 div f"
  have e: "8 = f * p" using assms(1) by (auto simp: p_def)
  then have p: "0 < p" by (cases p) auto
  have d: "(h * f + i) div f = h" "(h * f + i) mod f = i" using assms(2) by simp_all
  have "(h * f + i) div (f * p) = h div p" "(h * f + i) mod (f * p) = h mod p * f + i"
    unfolding div_mult2_eq mod_mult2_eq d by simp_all
  then show "(h * f + i) div 8 = blk_byte f h" "(h * f + i) mod 8 = h mod (8 div f) * f + i"
    unfolding e[symmetric] unfolding p_def by (simp_all add: blk_byte_def)
  have "h mod p + 1 \<le> p" using p by (simp add: Suc_le_eq)
  then have "(h mod p + 1) * f \<le> p * f" by (rule mult_le_mono1)
  then show "h mod (8 div f) * f + f \<le> 8" unfolding p_def[symmetric] using e by (simp add: algebra_simps)
qed

lemma frag_of_block:
  fixes j f :: nat
  assumes "f \<in> {1, 2, 4, 8}"
  obtains i where "i < f" "j = j div f * f + i"
  using assms that[of "j mod f"] by (auto simp: div_mult_mod_eq)

lemma isblock_spec:
  assumes "geometry_ok fs" "f = nat (fs_frag fs)"
  shows "ffs_isblock fs cp h = Inr (\<forall>i < f. isset cp (h * f + i))"
    and "ffs_isfreeblock fs cp h = Inr (\<forall>i < f. \<not> isset cp (h * f + i))"
proof -
  have f: "f \<in> {1, 2, 4, 8}" using frag_cases[OF assms(1)] assms(2) by auto
  then have f0: "0 < f" by auto
  note pos = frag_in_byte[OF f]
  have sf: "h mod (8 div f) * f + f \<le> 8" by (rule pos(3)[OF f0])
  have b: "isset cp (h * f + i) \<longleftrightarrow> bit (cp ! blk_byte f h) (h mod (8 div f) * f + i)" if "i < f" for i
    by (simp add: isset_bit pos[OF that])
  show "ffs_isblock fs cp h = Inr (\<forall>i < f. isset cp (h * f + i))"
    unfolding block_ops_field[OF assms] blk_field_def field_all[OF sf] using b by simp
  show "ffs_isfreeblock fs cp h = Inr (\<forall>i < f. \<not> isset cp (h * f + i))"
    unfolding block_ops_field[OF assms] blk_field_def field_none[OF sf] using b by simp
qed

text \<open>\<open>same_blocks f P cp cp'\<close>: the maps have the same size and agree outside the blocks in \<open>P\<close>.\<close>

definition agree_off :: "nat \<Rightarrow> nat \<Rightarrow> byte list \<Rightarrow> byte list \<Rightarrow> bool" where
  "agree_off f h cp cp' \<longleftrightarrow> length cp' = length cp \<and> (\<forall>j. j div f \<noteq> h \<longrightarrow> isset cp' j = isset cp j)"

lemma agree_refl [simp]: "agree_off f h cp cp"
  by (simp add: agree_off_def)

lemma agree_trans: "agree_off f h a b \<Longrightarrow> agree_off f h b c \<Longrightarrow> agree_off f h a c"
  by (simp add: agree_off_def)

lemma setclr_block:
  assumes "geometry_ok fs" "f = nat (fs_frag fs)" "h * f div 8 < length cp"
  shows "\<exists>cp'. ffs_setblock fs cp h = Inr cp' \<and> agree_off f h cp cp' \<and> (\<forall>i < f. isset cp' (h * f + i))"
    and "\<exists>cp'. ffs_clrblock fs cp h = Inr cp' \<and> agree_off f h cp cp' \<and> (\<forall>i < f. \<not> isset cp' (h * f + i))"
proof -
  have f: "f \<in> {1, 2, 4, 8}" using frag_cases[OF assms(1)] assms(2) by auto
  then have f0: "0 < f" by auto
  note pos = frag_in_byte[OF f]
  let ?x = "cp ! blk_byte f h" and ?w = "blk_field f h"
  have sf: "h mod (8 div f) * f + f \<le> 8" by (rule pos(3)[OF f0])
  have l: "blk_byte f h < length cp" using assms(3) pos(1)[OF f0, of h] by simp
  have w: "bit ?w k \<longleftrightarrow> h mod (8 div f) * f \<le> k \<and> k < h mod (8 div f) * f + f" for k
    unfolding blk_field_def by (rule bit_field[OF sf])
  have inb: "bit ?w (j mod 8) \<and> j div 8 = blk_byte f h \<longleftrightarrow> j div f = h" for j
  proof
    assume a: "bit ?w (j mod 8) \<and> j div 8 = blk_byte f h"
    define i where "i = j mod 8 - h mod (8 div f) * f"
    have i: "j mod 8 = h mod (8 div f) * f + i" "i < f" using a unfolding w i_def by linarith+
    then have "j = h * f + i" using a pos[OF i(2), of h] div_mod_eq_8[of j "h * f + i"] by simp
    then show "j div f = h" using i(2) by simp
  next
    assume h: "j div f = h"
    define i where "i = j mod f"
    have i: "i < f" "j = h * f + i" using f0 h by (auto simp: i_def)
    show "bit ?w (j mod 8) \<and> j div 8 = blk_byte f h" unfolding i(2) pos(1,2)[OF i(1)] w using i(1) by simp
  qed
  have s: "isset (cp[blk_byte f h := ?x OR ?w]) j \<longleftrightarrow> isset cp j \<or> j div f = h" for j
    unfolding inb[symmetric] isset_bit using l by (cases "j div 8 = blk_byte f h") (auto simp: bit_or_iff)
  have c: "isset (cp[blk_byte f h := ?x AND NOT ?w]) j \<longleftrightarrow> isset cp j \<and> j div f \<noteq> h" for j
    unfolding inb[symmetric] isset_bit using l
    by (cases "j div 8 = blk_byte f h") (auto simp: bit_and_iff bit_not_iff possible_bit_def)
  show "\<exists>cp'. ffs_setblock fs cp h = Inr cp' \<and> agree_off f h cp cp' \<and> (\<forall>i < f. isset cp' (h * f + i))"
    unfolding block_ops_field[OF assms(1,2)] by (auto simp: agree_off_def s)
  show "\<exists>cp'. ffs_clrblock fs cp h = Inr cp' \<and> agree_off f h cp cp' \<and> (\<forall>i < f. \<not> isset cp' (h * f + i))"
    unfolding block_ops_field[OF assms(1,2)] by (auto simp: agree_off_def c)
qed

lemma blk_bits_agree: "agree_off f h cp cp' \<Longrightarrow> h' \<noteq> h \<Longrightarrow> 0 < f \<Longrightarrow> blk_bits f cp' h' = blk_bits f cp h'"
  by (auto simp: blk_bits_def agree_off_def)

text \<open>A sum over all blocks changes by the change of one block.\<close>

lemma sum_blocks_update:
  fixes g :: "bool list \<Rightarrow> int"
  assumes "agree_off f h cp cp'" "h < n" "0 < f"
  shows "(\<Sum>i<n. g (blk_bits f cp' i)) = (\<Sum>i<n. g (blk_bits f cp i)) - g (blk_bits f cp h) + g (blk_bits f cp' h)"
proof -
  have "(\<Sum>i<n. g (blk_bits f c i)) = g (blk_bits f c h) + (\<Sum>i\<in>{..<n} - {h}. g (blk_bits f c i))" for c
    using assms(2) by (intro sum.remove) auto
  moreover have "(\<Sum>i\<in>{..<n} - {h}. g (blk_bits f cp' i)) = (\<Sum>i\<in>{..<n} - {h}. g (blk_bits f cp i))"
    by (intro sum.cong) (use blk_bits_agree[OF assms(1) _ assms(3)] in auto)
  ultimately show ?thesis by simp
qed

text \<open>The block map that the accounting works on.\<close>

lemma blkmap_spec:
  assumes "geometry_ok fs" "f = nat (fs_frag fs)"
  shows "blkmap fs cp (h * f) < 2 ^ f" "map_bits f (blkmap fs cp (h * f)) = blk_bits f cp h"
proof -
  have f: "f \<in> {1, 2, 4, 8}" using frag_cases[OF assms(1)] assms(2) by auto
  then have f0: "0 < f" by auto
  note pos = frag_in_byte[OF f]
  have m: "drop_bit (8 - f) (0xff :: byte) = mask f" using f by (auto simp: byte_masks drop_bit_eq_div)
  have e: "blkmap fs cp (h * f) = unat (take_bit f (drop_bit (h mod (8 div f) * f) (cp ! blk_byte f h)))"
    using pos(1,2)[OF f0, of h] by (simp add: blkmap_def NBBY_def assms(2)[symmetric] m take_bit_eq_mask)
  show "blkmap fs cp (h * f) < 2 ^ f" unfolding e
    by (simp add: unsigned_take_bit_eq)
  have "bit (blkmap fs cp (h * f)) i \<longleftrightarrow> isset cp (h * f + i)" if "i < f" for i
    unfolding e isset_bit pos(1,2)[OF that] using that by (simp add: bit_unsigned_iff bit_take_bit_iff bit_drop_bit_eq)
  then show "map_bits f (blkmap fs cp (h * f)) = blk_bits f cp h"
    by (auto simp: map_bits_def blk_bits_def)
qed

end
