(* ===== verification/Ddfs_Alloc.thy ===== *)
theory Ddfs_Alloc
  imports Ddfs_Blocks
begin

text \<open>
  \<open>deduplicating-fs/src/ddfs_alloc.c\<close> and \<open>ffs_clusteracct\<close> of \<open>ddfs_subr.c\<close>: block and fragment
  allocation within a cylinder group, extension of a fragment, the search of the free map, freeing,
  and the overflow policy across groups. The state is the superblock in memory and the cylinder
  groups as the buffer cache holds them. Parameters are the read of a group's block
  (\<open>bread_cg\<close>), the outcome of its check-hash (\<open>ckhash_bad\<close>) and the kernel's \<open>scanc\<close> and \<open>memcchr\<close>;
  \<open>reread_cg\<close> is the outcome of the second \<open>ffs_getcg\<close> of an inode allocation and \<open>gen\<close> the first number
  other than 0 that \<open>arc4random\<close> gives for an inode. The lock of the mount is held throughout an operation, soft
  updates are off. \<open>a_iblks\<close> lists the inode blocks written, with the generation numbers put into them.
\<close>

section \<open>Definitions\<close>

record alloc_st =
  a_fs :: ddfs_fs
  a_cgs :: "cg list"
  a_iblks :: "(int \<times> int list) list"

record alloc_env =
  e_scanc :: "nat \<Rightarrow> byte list \<Rightarrow> nat list \<Rightarrow> nat \<Rightarrow> nat"
  e_bread_cg :: "nat \<Rightarrow> errno"
  e_ckhash_bad :: "nat \<Rightarrow> bool"
  e_memcchr :: "byte list \<Rightarrow> byte \<Rightarrow> nat \<Rightarrow> nat option"
  e_reread_cg :: "nat \<Rightarrow> errno"
  e_gen :: "int \<Rightarrow> nat \<Rightarrow> int"

subsection \<open>Summary information\<close>

text \<open>\<open>fs->fs_cs(fs, c)\<close> and its update; the pointer \<open>fs_si\<close> is set while the file system is mounted.\<close>

definition fs_cs :: "ddfs_fs \<Rightarrow> nat \<Rightarrow> csum" where
  "fs_cs fs c = (case fs_si fs of Some si \<Rightarrow> si_csp si ! c
     | None \<Rightarrow> \<lparr>cs_ndir = 0, cs_nbfree = 0, cs_nifree = 0, cs_nffree = 0\<rparr>)"

definition upd_cs :: "nat \<Rightarrow> (csum \<Rightarrow> csum) \<Rightarrow> ddfs_fs \<Rightarrow> ddfs_fs" where
  "upd_cs c g fs = fs\<lparr>fs_si := map_option (\<lambda>si. si\<lparr>si_csp := (si_csp si)[c := g (si_csp si ! c)]\<rparr>) (fs_si fs)\<rparr>"

definition upd_total :: "(csum_total \<Rightarrow> csum_total) \<Rightarrow> ddfs_fs \<Rightarrow> ddfs_fs" where
  "upd_total g fs = fs\<lparr>fs_cstotal := g (fs_cstotal fs)\<rparr>"

definition set_fmod :: "ddfs_fs \<Rightarrow> ddfs_fs" where
  "set_fmod fs = fs\<lparr>fs_fmod := 1\<rparr>"

text \<open>Adding to the counts of free blocks and free fragments in the group, the totals and the summary
  of the group in memory.\<close>

definition add_nbfree :: "int \<Rightarrow> ddfs_fs \<times> cg \<Rightarrow> ddfs_fs \<times> cg" where
  "add_nbfree n = (\<lambda>(fs, cgp).
     (upd_cs (nat (cg_cgx cgp)) (\<lambda>cs. cs\<lparr>cs_nbfree := cs_nbfree cs + n\<rparr>)
        (upd_total (\<lambda>t. t\<lparr>cst_nbfree := cst_nbfree t + n\<rparr>) fs),
      cgp\<lparr>cg_cs := (cg_cs cgp)\<lparr>cs_nbfree := cs_nbfree (cg_cs cgp) + n\<rparr>\<rparr>))"

definition add_nffree :: "int \<Rightarrow> ddfs_fs \<times> cg \<Rightarrow> ddfs_fs \<times> cg" where
  "add_nffree n = (\<lambda>(fs, cgp).
     (upd_cs (nat (cg_cgx cgp)) (\<lambda>cs. cs\<lparr>cs_nffree := cs_nffree cs + n\<rparr>)
        (upd_total (\<lambda>t. t\<lparr>cst_nffree := cst_nffree t + n\<rparr>) fs),
      cgp\<lparr>cg_cs := (cg_cs cgp)\<lparr>cs_nffree := cs_nffree (cg_cs cgp) + n\<rparr>\<rparr>))"

definition ACTIVECLEAR :: "ddfs_fs \<Rightarrow> nat \<Rightarrow> ddfs_fs" where
  "ACTIVECLEAR fs c = fs\<lparr>fs_si := map_option (\<lambda>si. si\<lparr>si_active :=
     map_option (\<lambda>a. a[c div 32 := a ! (c div 32) AND NOT (push_bit (c mod 32) 1)]) (si_active si)\<rparr>) (fs_si fs)\<rparr>"

subsection \<open>Cluster accounting\<close>

text \<open>The two scans of \<open>ffs_clusteracct\<close>; \<open>map\<close> and \<open>bit\<close> of the source walk the bytes so that bit \<open>i\<close> of the
  cluster map is tested. They give the index at which the loop stops.\<close>

function clus_forw :: "byte list \<Rightarrow> int \<Rightarrow> int \<Rightarrow> int" where
  "clus_forw freemap i fin = (if i < fin then (if isset freemap (nat i) then clus_forw freemap (i + 1) fin else i) else i)"
  by pat_completeness auto
termination
  by (relation "measure (\<lambda>(freemap, i, fin). nat (fin - i))") auto

function clus_back :: "byte list \<Rightarrow> int \<Rightarrow> int \<Rightarrow> int" where
  "clus_back freemap i fin = (if fin < i then (if isset freemap (nat i) then clus_back freemap (i - 1) fin else i) else i)"
  by pat_completeness auto
termination
  by (relation "measure (\<lambda>(freemap, i, fin). nat (i - fin))") auto

text \<open>The largest index from \<open>i\<close> down with a positive summary count, or 0.\<close>

fun max_cluster :: "int list \<Rightarrow> nat \<Rightarrow> int" where
  "max_cluster sump 0 = 0"
| "max_cluster sump (Suc i) = (if 0 < sump ! Suc i then int (Suc i) else max_cluster sump i)"

definition add_at :: "int list \<Rightarrow> nat \<Rightarrow> int \<Rightarrow> int list" where
  "add_at xs i n = xs[i := xs ! i + n]"

definition ffs_clusteracct :: "ddfs_fs \<Rightarrow> cg \<Rightarrow> nat \<Rightarrow> int \<Rightarrow> ddfs_fs \<times> cg" where
  "ffs_clusteracct fs cgp blkno cnt =
     (if fs_contigsumsize fs \<le> 0 then (fs, cgp)
      else
        let freemapp = (if 0 < cnt then setbit (cg_clustersfree cgp) blkno else clrbit (cg_clustersfree cgp) blkno);
            start = int blkno + 1;
            end1 = start + fs_contigsumsize fs;
            end1 = (if cg_nclusterblks cgp \<le> end1 then cg_nclusterblks cgp else end1);
            forw = clus_forw freemapp start end1 - start;
            start = int blkno - 1;
            end2 = start - fs_contigsumsize fs;
            end2 = (if end2 < 0 then - 1 else end2);
            back = start - clus_back freemapp start end2;
            i = back + forw + 1;
            i = (if fs_contigsumsize fs < i then fs_contigsumsize fs else i);
            sump = add_at (cg_clustersum cgp) (nat i) cnt;
            sump = (if 0 < back then add_at sump (nat back) (- cnt) else sump);
            sump = (if 0 < forw then add_at sump (nat forw) (- cnt) else sump)
        in (fs\<lparr>fs_si := map_option (\<lambda>si. si\<lparr>si_maxcluster :=
               (si_maxcluster si)[nat (cg_cgx cgp) := max_cluster sump (nat (fs_contigsumsize fs))]\<rparr>) (fs_si fs)\<rparr>,
            cgp\<lparr>cg_clustersfree := freemapp, cg_clustersum := sump\<rparr>))"

subsection \<open>Fetching a cylinder group\<close>

text \<open>The error of the read, \<open>EIO\<close> for a failed check-hash or a wrong header, or the group.\<close>

definition ffs_getcg :: "alloc_env \<Rightarrow> alloc_st \<Rightarrow> nat \<Rightarrow> errno + cg" where
  "ffs_getcg E st c =
     (if e_bread_cg E c \<noteq> 0 then Inl (e_bread_cg E c)
      else let cgp = a_cgs st ! c in
        if fs_metackhash (a_fs st) AND CK_CYLGRP \<noteq> 0 \<and> e_ckhash_bad E c then Inl EIO
        else if \<not> cg_chkmagic cgp \<or> cg_cgx cgp \<noteq> int c then Inl EIO
        else Inr cgp)"

definition bdwrite_cg :: "nat \<Rightarrow> ddfs_fs \<Rightarrow> cg \<Rightarrow> alloc_st \<Rightarrow> alloc_st" where
  "bdwrite_cg c fs cgp st = st\<lparr>a_fs := fs, a_cgs := (a_cgs st)[c := cgp]\<rparr>"

subsection \<open>Searching the map\<close>

text \<open>The loop over the positions within one block, and over the blocks of the byte found.\<close>

function sift_pos :: "nat \<Rightarrow> nat \<Rightarrow> nat \<Rightarrow> nat \<Rightarrow> nat \<Rightarrow> nat \<Rightarrow> nat option" where
  "sift_pos frag blk allocsiz pos field subfield =
     (if pos \<le> frag - allocsiz then
        (if blk AND field = subfield then Some pos
         else sift_pos frag blk allocsiz (pos + 1) (push_bit 1 field) (push_bit 1 subfield))
      else None)"
  by pat_completeness auto
termination
  by (relation "measure (\<lambda>(frag, blk, allocsiz, pos, field, subfield). Suc (frag - allocsiz) - pos)") auto

fun sift_blocks :: "ddfs_fs \<Rightarrow> byte list \<Rightarrow> nat \<Rightarrow> nat \<Rightarrow> nat \<Rightarrow> nat option" where
  "sift_blocks fs blksfree allocsiz bno 0 = None"
| "sift_blocks fs blksfree allocsiz bno (Suc n) =
     (case sift_pos (nat (fs_frag fs)) (push_bit 1 (blkmap fs blksfree bno)) allocsiz 0 (around ! allocsiz) (inside ! allocsiz) of
        Some pos \<Rightarrow> Some (bno + pos)
      | None \<Rightarrow> sift_blocks fs blksfree allocsiz (bno + nat (fs_frag fs)) n)"

text \<open>\<open>8 div frag\<close> blocks make up the byte that the loop \<open>bno < i\<close> walks.\<close>

definition ffs_mapsearch :: "alloc_env \<Rightarrow> ddfs_fs \<Rightarrow> cg \<Rightarrow> int \<Rightarrow> nat \<Rightarrow> fault + int \<times> cg" where
  "ffs_mapsearch E fs cgp bpref allocsiz =
     (let start = nat ((if bpref \<noteq> 0 then dtogd fs bpref else cg_frotor cgp) div 8);
          blksfree = cg_blksfree cgp; frag = nat (fs_frag fs);
          len = nat (howmany (fs_fpg fs) 8) - start;
          msk = push_bit (allocsiz - 1 + frag mod 8) 1;
          loc = e_scanc E len (drop start blksfree) (fragtbl frag) msk;
          (start, len, loc) = (if loc = 0 then (0, start + 1, e_scanc E (start + 1) blksfree (fragtbl frag) msk)
             else (start, len, loc))
      in if loc = 0 then Inl (Panic ''ffs_alloccg: map corrupted'')
         else let bno = (start + len - loc) * 8; cgp = cgp\<lparr>cg_frotor := int bno\<rparr> in
           case sift_blocks fs blksfree allocsiz bno (8 div frag) of
             Some b \<Rightarrow> Inr (int b, cgp)
           | None \<Rightarrow> Inl (Panic ''ffs_alloccg: block not in map''))"

subsection \<open>Allocating\<close>

fun clr_frags :: "byte list \<Rightarrow> nat \<Rightarrow> nat \<Rightarrow> byte list" where
  "clr_frags m bno 0 = m"
| "clr_frags m bno (Suc n) = clr_frags (clrbit m bno) (Suc bno) n"

fun set_frags :: "byte list \<Rightarrow> nat \<Rightarrow> nat \<Rightarrow> byte list" where
  "set_frags m bno 0 = m"
| "set_frags m bno (Suc n) = set_frags (setbit m bno) (Suc bno) n"

text \<open>\<open>ffs_alloccgblk\<close> from the label \<open>gotit\<close> on: take block \<open>bno\<close> out of the map; a request for less than a
  block gives the rest of its fragments back.\<close>

definition take_block :: "ddfs_fs \<Rightarrow> cg \<Rightarrow> nat \<Rightarrow> int \<Rightarrow> fault + int \<times> ddfs_fs \<times> cg" where
  "take_block fs cgp bno sz =
     (let blkno = nat (fragstoblks fs (int bno)) in
      case ffs_clrblock fs (cg_blksfree cgp) blkno of Inl f \<Rightarrow> Inl f
      | Inr m \<Rightarrow>
        (let (fs, cgp) = ffs_clusteracct fs (cgp\<lparr>cg_blksfree := m\<rparr>) blkno (- 1);
             (fs, cgp) = add_nbfree (- 1) (fs, cgp);
             fs = set_fmod fs;
             blkno = cgbase fs (cg_cgx cgp) + int bno;
             n = nat (numfrags fs sz); frag = nat (fs_frag fs)
         in if int n \<noteq> fs_frag fs then
              (let bno = nat (dtogd fs blkno); i = frag - n;
                   cgp = cgp\<lparr>cg_blksfree := set_frags (cg_blksfree cgp) (bno + n) i\<rparr>;
                   (fs, cgp) = add_nffree (int i) (fs, cgp)
               in Inr (blkno, set_fmod fs, cgp\<lparr>cg_frsum := add_at (cg_frsum cgp) i 1\<rparr>))
            else Inr (blkno, fs, cgp)))"

definition ffs_alloccgblk :: "alloc_env \<Rightarrow> ddfs_fs \<Rightarrow> cg \<Rightarrow> int \<Rightarrow> int \<Rightarrow> fault + int \<times> ddfs_fs \<times> cg" where
  "ffs_alloccgblk E fs cgp bpref sz =
     (let bpref = (if bpref = 0 then cgbase fs (cg_cgx cgp) + cg_rotor cgp + fs_frag fs
          else if dtog fs bpref \<noteq> cg_cgx cgp then
            (if bpref < cgdata fs (dtog fs bpref) then cgmeta fs (cg_cgx cgp) else cgdata fs (cg_cgx cgp))
          else bpref);
          bno = nat (dtogd fs (blknum fs bpref))
      in case ffs_isblock fs (cg_blksfree cgp) (nat (fragstoblks fs (int bno))) of Inl f \<Rightarrow> Inl f
         | Inr True \<Rightarrow> take_block fs cgp bno sz
         | Inr False \<Rightarrow>
             (case ffs_mapsearch E fs cgp bpref (nat (fs_frag fs)) of Inl f \<Rightarrow> Inl f
              | Inr (b, cgp) \<Rightarrow>
                  if b < 0 then Inr (0, fs, cgp)
                  else let cgp = (if dtogd fs (cgdata fs (cg_cgx cgp)) \<le> b then cgp\<lparr>cg_rotor := b\<rparr> else cgp) in
                    take_block fs cgp (nat b) sz))"

text \<open>The first size from \<open>i\<close> on, below \<open>frag\<close>, of which fragments are available, or \<open>frag\<close>.\<close>

fun find_allocsiz :: "int list \<Rightarrow> nat \<Rightarrow> nat \<Rightarrow> nat" where
  "find_allocsiz frsum i 0 = i"
| "find_allocsiz frsum i (Suc n) = (if frsum ! i \<noteq> 0 then i else find_allocsiz frsum (Suc i) n)"

text \<open>\<open>ffs_alloccg\<close> after the search: the first \<open>frags\<close> fragments at \<open>bno\<close> leave a run of \<open>allocsiz\<close>.\<close>

definition take_frags :: "ddfs_fs \<Rightarrow> nat \<Rightarrow> cg \<Rightarrow> nat \<Rightarrow> nat \<Rightarrow> nat \<Rightarrow> int \<times> ddfs_fs \<times> cg" where
  "take_frags fs c cgp bno frags allocsiz =
     (let cgp = cgp\<lparr>cg_blksfree := clr_frags (cg_blksfree cgp) bno frags\<rparr>;
          frsum = add_at (cg_frsum cgp) allocsiz (- 1);
          frsum = (if frags \<noteq> allocsiz then add_at frsum (allocsiz - frags) 1 else frsum);
          cgp = cgp\<lparr>cg_frsum := frsum\<rparr>;
          (fs, cgp) = add_nffree (- int frags) (fs, cgp)
      in (cgbase fs (int c) + int bno, ACTIVECLEAR (set_fmod fs) c, cgp))"

definition ffs_alloccg :: "alloc_env \<Rightarrow> nat \<Rightarrow> int \<Rightarrow> int \<Rightarrow> int \<Rightarrow> alloc_st \<Rightarrow> fault + int \<times> alloc_st" where
  "ffs_alloccg E c bpref sz rsize st =
     (let fs = a_fs st in
      if cs_nbfree (fs_cs fs c) = 0 \<and> sz = fs_bsize fs then Inr (0, st)
      else case ffs_getcg E st c of Inl e \<Rightarrow> Inr (0, st)
      | Inr cgp \<Rightarrow>
        if cs_nbfree (cg_cs cgp) = 0 \<and> sz = fs_bsize fs then Inr (0, st)
        else if sz = fs_bsize fs then
          (case ffs_alloccgblk E fs cgp bpref rsize of Inl f \<Rightarrow> Inl f
           | Inr (b, fs, cgp) \<Rightarrow> Inr (b, bdwrite_cg c (ACTIVECLEAR fs c) cgp st))
        else
          let frags = nat (numfrags fs sz); frag = nat (fs_frag fs);
              allocsiz = find_allocsiz (cg_frsum cgp) frags (frag - frags)
          in if allocsiz = frag then
               (if cs_nbfree (cg_cs cgp) = 0 then Inr (0, st)
                else case ffs_alloccgblk E fs cgp bpref rsize of Inl f \<Rightarrow> Inl f
                  | Inr (b, fs, cgp) \<Rightarrow> Inr (b, bdwrite_cg c (ACTIVECLEAR fs c) cgp st))
             else case ffs_mapsearch E fs cgp bpref allocsiz of Inl f \<Rightarrow> Inl f
               | Inr (bno, cgp) \<Rightarrow>
                 if bno < 0 then Inr (0, st)
                 else let (blkno, fs, cgp) = take_frags fs c cgp (nat bno) frags allocsiz in
                   Inr (blkno, bdwrite_cg c fs cgp st))"

text \<open>The index at which a loop \<open>for (i = i0; i < n; i++) if (isclr(map, bno + i)) break\<close> stops.\<close>

fun first_clr :: "byte list \<Rightarrow> nat \<Rightarrow> nat \<Rightarrow> nat \<Rightarrow> nat" where
  "first_clr m bno i 0 = i"
| "first_clr m bno i (Suc n) = (if isclr m (bno + i) then i else first_clr m bno (Suc i) n)"

definition ffs_fragextend :: "alloc_env \<Rightarrow> nat \<Rightarrow> int \<Rightarrow> int \<Rightarrow> int \<Rightarrow> alloc_st \<Rightarrow> fault + int \<times> alloc_st" where
  "ffs_fragextend E c bprev osize nsize st =
     (let fs = a_fs st in
      if cs_nffree (fs_cs fs c) < numfrags fs (nsize - osize) then Inr (0, st)
      else let frags = numfrags fs nsize; bbase = fragnum fs bprev in
        if fragnum fs (bprev + frags - 1) < bbase then Inr (0, st)
        else case ffs_getcg E st c of Inl e \<Rightarrow> Inr (0, st)
        | Inr cgp \<Rightarrow>
          let bno = nat (dtogd fs bprev); m = cg_blksfree cgp; o1 = nat (numfrags fs osize); n1 = nat frags in
          if first_clr m bno o1 (n1 - o1) < n1 then Inr (0, st)
          else let i = first_clr m bno n1 (nat (fs_frag fs - bbase) - n1);
                   frsum = add_at (cg_frsum cgp) (i - o1) (- 1);
                   frsum = (if i \<noteq> n1 then add_at frsum (i - n1) 1 else frsum);
                   cgp = cgp\<lparr>cg_frsum := frsum, cg_blksfree := clr_frags m (bno + o1) (n1 - o1)\<rparr>;
                   (fs, cgp) = add_nffree (- int (n1 - o1)) (fs, cgp)
               in Inr (bprev, bdwrite_cg c (ACTIVECLEAR (set_fmod fs) c) cgp st))"

subsection \<open>The cylinder overflow policy\<close>

text \<open>\<open>allocator\<close> is the function pointer of \<open>ffs_hashalloc\<close>; \<open>try\<close> calls it.\<close>

type_synonym allocator = "nat \<Rightarrow> int \<Rightarrow> alloc_st \<Rightarrow> fault + int \<times> alloc_st"

function quad_rehash :: "allocator \<Rightarrow> nat \<Rightarrow> nat \<Rightarrow> nat \<Rightarrow> alloc_st \<Rightarrow> fault + int \<times> alloc_st" where
  "quad_rehash allocator ncg cg i st =
     (if 0 < i \<and> i < ncg then
        (let cg = cg + i; cg = (if ncg \<le> cg then cg - ncg else cg) in
         case allocator cg 0 st of Inl f \<Rightarrow> Inl f
         | Inr (result, st) \<Rightarrow> if result \<noteq> 0 then Inr (result, st) else quad_rehash allocator ncg cg (i * 2) st)
      else Inr (0, st))"
  by pat_completeness auto
termination
  by (relation "measure (\<lambda>(allocator, ncg, cg, i, st). ncg - i)") auto

fun brute_force :: "allocator \<Rightarrow> nat \<Rightarrow> nat \<Rightarrow> nat \<Rightarrow> alloc_st \<Rightarrow> fault + int \<times> alloc_st" where
  "brute_force allocator ncg cg 0 st = Inr (0, st)"
| "brute_force allocator ncg cg (Suc n) st =
     (case allocator cg 0 st of Inl f \<Rightarrow> Inl f
      | Inr (result, st) \<Rightarrow> if result \<noteq> 0 then Inr (result, st)
          else brute_force allocator ncg (if cg + 1 = ncg then 0 else cg + 1) n st)"

definition ffs_hashalloc :: "nat \<Rightarrow> int \<Rightarrow> allocator \<Rightarrow> alloc_st \<Rightarrow> fault + int \<times> alloc_st" where
  "ffs_hashalloc cg pref allocator st =
     (let ncg = nat (fs_ncg (a_fs st)) in
      case allocator cg pref st of Inl f \<Rightarrow> Inl f
      | Inr (result, st) \<Rightarrow> if result \<noteq> 0 then Inr (result, st)
        else case quad_rehash allocator ncg cg 1 st of Inl f \<Rightarrow> Inl f
          | Inr (result, st) \<Rightarrow> if result \<noteq> 0 then Inr (result, st)
            else brute_force allocator ncg ((cg + 2) mod ncg) (ncg - 2) st)"

subsection \<open>Freeing\<close>

text \<open>\<open>ffs_blkfree_cg\<close> on the disk device; a snapshot device (\<open>snap\<close>) ignores a block that is free
  already. A read error of the group is ignored. The casts to \<open>u_int\<close> in the range checks keep 32 bits.\<close>

fun free_frags :: "byte list \<Rightarrow> nat \<Rightarrow> nat \<Rightarrow> fault + byte list" where
  "free_frags m bno 0 = Inr m"
| "free_frags m bno (Suc n) = (if isset m bno then Inl (Panic ''ffs_blkfree_cg: freeing free frag'')
     else free_frags (setbit m bno) (Suc bno) n)"

text \<open>A whole block goes back into the map, or some fragments of one, which may complete their block.\<close>

definition free_block :: "ddfs_fs \<Rightarrow> cg \<Rightarrow> nat \<Rightarrow> fault + ddfs_fs \<times> cg" where
  "free_block fs cgp fragno =
     (case ffs_setblock fs (cg_blksfree cgp) fragno of Inl f \<Rightarrow> Inl f
      | Inr m \<Rightarrow> let (fs, cgp) = ffs_clusteracct fs (cgp\<lparr>cg_blksfree := m\<rparr>) fragno 1 in Inr (add_nbfree 1 (fs, cgp)))"

definition free_part :: "ddfs_fs \<Rightarrow> cg \<Rightarrow> nat \<Rightarrow> nat \<Rightarrow> nat \<Rightarrow> fault + ddfs_fs \<times> cg" where
  "free_part fs cgp bbase cgbno frags =
     (let m = cg_blksfree cgp; frsum = ffs_fragacct fs (blkmap fs m bbase) (cg_frsum cgp) (- 1)
      in case free_frags m cgbno frags of Inl f \<Rightarrow> Inl f
         | Inr m' \<Rightarrow>
           let (fs, cgp) = add_nffree (int frags) (fs, cgp\<lparr>cg_blksfree := m'\<rparr>);
               cgp = cgp\<lparr>cg_frsum := ffs_fragacct fs (blkmap fs m' bbase) frsum 1\<rparr>;
               fragno = nat (fragstoblks fs (int bbase))
           in case ffs_isblock fs m' fragno of Inl f \<Rightarrow> Inl f
              | Inr False \<Rightarrow> Inr (fs, cgp)
              | Inr True \<Rightarrow>
                let (fs, cgp) = add_nffree (- fs_frag fs) (fs, cgp);
                    (fs, cgp) = ffs_clusteracct fs cgp fragno 1
                in Inr (add_nbfree 1 (fs, cgp)))"

text \<open>The kernel is one built with \<open>INVARIANTS\<close>: the panics the source puts under \<open>#ifdef INVARIANTS\<close>, here and in the
  other operations of the allocator, are faults.\<close>

definition ffs_blkfree_cg :: "alloc_env \<Rightarrow> bool \<Rightarrow> int \<Rightarrow> int \<Rightarrow> alloc_st \<Rightarrow> fault + alloc_st" where
  "ffs_blkfree_cg E snap bno sz st =
     (let fs = a_fs st; c = nat (dtog fs bno) in
      if fs_bsize fs < sz mod 2 ^ 32 \<or> fragoff fs sz \<noteq> 0 \<or> fs_frag fs < fragnum fs bno + numfrags fs sz then
        Inl (Panic ''ffs_blkfree_cg: bad size'')
      else if fs_size fs \<le> bno mod 2 ^ 32 then Inr st
      else case ffs_getcg E st c of Inl e \<Rightarrow> Inr st
      | Inr cgp \<Rightarrow>
        let cgbno = nat (dtogd fs bno) in
        if sz = fs_bsize fs then
          (let fragno = nat (fragstoblks fs (int cgbno)) in
           case ffs_isfreeblock fs (cg_blksfree cgp) fragno of Inl f \<Rightarrow> Inl f
           | Inr False \<Rightarrow> if snap then Inr st else Inl (Panic ''ffs_blkfree_cg: freeing free block'')
           | Inr True \<Rightarrow>
             (case free_block fs cgp fragno of Inl f \<Rightarrow> Inl f
              | Inr (fs, cgp) \<Rightarrow> Inr (bdwrite_cg c (ACTIVECLEAR (set_fmod fs) c) cgp st)))
        else
          (case free_part fs cgp (cgbno - nat (fragnum fs (int cgbno))) cgbno (nat (numfrags fs sz)) of Inl f \<Rightarrow> Inl f
           | Inr (fs, cgp) \<Rightarrow> Inr (bdwrite_cg c (ACTIVECLEAR (set_fmod fs) c) cgp st)))"

declare clus_forw.simps [simp del] clus_back.simps [simp del] sift_pos.simps [simp del] quad_rehash.simps [simp del]

end
