(* ===== verification/Ddfs_Search.thy ===== *)
theory Ddfs_Search
  imports Ddfs_Alloc
begin

text \<open>
  \<open>ffs_mapsearch\<close>: the table scan over the bytes of the free map followed by the pattern search in the
  byte found gives a maximal run of the requested size, whenever the map has one. The contract of the
  kernel's \<open>scanc\<close> is the locale \<open>scan_function\<close>.
\<close>

section \<open>The scan\<close>

text \<open>\<open>scanc(size, cp, table, mask)\<close>: the number of bytes left when the first byte whose table entry
  meets the mask is reached, 0 when there is none.\<close>

locale scan_function =
  fixes scanc :: "nat \<Rightarrow> byte list \<Rightarrow> nat list \<Rightarrow> nat \<Rightarrow> nat"
  assumes scanc: "len \<le> length cp \<Longrightarrow> scanc len cp tbl msk =
    (case index_of (\<lambda>b. tbl ! unat b AND msk \<noteq> 0) (take len cp) of Some i \<Rightarrow> len - i | None \<Rightarrow> 0)"
begin

lemma scanc_None: "len \<le> length cp \<Longrightarrow> scanc len cp tbl msk = 0 \<longleftrightarrow> (\<forall>b \<in> set (take len cp). tbl ! unat b AND msk = 0)"
proof (cases "index_of (\<lambda>b. tbl ! unat b AND msk \<noteq> 0) (take len cp)")
  case None
  then show "len \<le> length cp \<Longrightarrow> ?thesis" using index_of_None[of "\<lambda>b. tbl ! unat b AND msk \<noteq> 0" "take len cp"] by (simp add: scanc)
next
  case (Some i)
  assume len: "len \<le> length cp"
  have "i < len" "take len cp ! i \<in> set (take len cp)" "tbl ! unat (take len cp ! i) AND msk \<noteq> 0"
    using index_of_SomeD(1,2)[OF Some] nth_mem[of i "take len cp"] by auto
  then show ?thesis unfolding scanc[OF len] Some by auto
qed

lemma scanc_Some:
  assumes "len \<le> length cp" "scanc len cp tbl msk \<noteq> 0"
  shows "len - scanc len cp tbl msk < len" "tbl ! unat (cp ! (len - scanc len cp tbl msk)) AND msk \<noteq> 0"
proof -
  obtain i where i: "index_of (\<lambda>b. tbl ! unat b AND msk \<noteq> 0) (take len cp) = Some i" "scanc len cp tbl msk = len - i"
    using assms by (auto simp: scanc split: option.splits)
  have "i < len" "tbl ! unat (cp ! i) AND msk \<noteq> 0" using index_of_SomeD(1,2)[OF i(1)] assms(1) by auto
  then show "len - scanc len cp tbl msk < len" "tbl ! unat (cp ! (len - scanc len cp tbl msk)) AND msk \<noteq> 0"
    using i(2) by simp_all
qed

end

text \<open>A scan loop that meets the contract.\<close>

fun scan_loop :: "nat \<Rightarrow> byte list \<Rightarrow> nat list \<Rightarrow> nat \<Rightarrow> nat" where
  "scan_loop (Suc len) (b # bs) tbl msk = (if tbl ! unat b AND msk \<noteq> 0 then Suc len else scan_loop len bs tbl msk)"
| "scan_loop len bs tbl msk = 0"

lemma scan_loop_index: "len \<le> length cp \<Longrightarrow> scan_loop len cp tbl msk =
    (case index_of (\<lambda>b. tbl ! unat b AND msk \<noteq> 0) (take len cp) of Some i \<Rightarrow> len - i | None \<Rightarrow> 0)"
  by (induction len cp tbl msk rule: scan_loop.induct) (auto split: option.splits)

interpretation loop: scan_function scan_loop
  by unfold_locales (rule scan_loop_index)

section \<open>Runs and patterns\<close>

lemma in_run_lengths: "0 < k \<Longrightarrow> k \<in> set (run_lengths 0 bs) \<longleftrightarrow> (\<exists>p. run_at bs k p)"
proof -
  assume k: "0 < k"
  have fin: "finite {q. run_at bs k q}" by (rule finite_subset[of _ "{..length bs}"]) (auto simp: run_at_def)
  have "k \<in> set (run_lengths 0 bs) \<longleftrightarrow> runs bs k \<noteq> 0" by (simp add: runs_def count_list_0_iff)
  also have "\<dots> \<longleftrightarrow> {q. run_at bs k q} \<noteq> {}" unfolding runs_card[OF k] using fin by simp
  finally show ?thesis by auto
qed

lemma sift_pos_spec:
  assumes "m < 2 ^ f" "1 \<le> k" "k \<le> f"
  shows "case sift_pos f (push_bit 1 m) k pos (push_bit pos (mask (k + 2))) (push_bit pos (push_bit 1 (mask k))) of
      Some p \<Rightarrow> run_at (map_bits f m) k p | None \<Rightarrow> \<forall>p \<ge> pos. \<not> run_at (map_bits f m) k p"
proof (induction "Suc (f - k) - pos" arbitrary: pos rule: less_induct)
  case less
  note u = sift_pos.simps[of f "push_bit 1 m" k pos]
  show ?case
  proof (cases "pos \<le> f - k")
    case False
    then show ?thesis using assms(2,3) by (subst u) (auto simp: run_at_def)
  next
    case True
    then have pat: "push_bit 1 m AND push_bit pos (mask (k + 2)) = push_bit pos (push_bit 1 (mask k)) \<longleftrightarrow> run_at (map_bits f m) k pos"
      using assms(3) by (intro pattern_run[OF assms(1)]) simp
    show ?thesis
    proof (cases "run_at (map_bits f m) k pos")
      case hit: True
      then have "sift_pos f (push_bit 1 m) k pos (push_bit pos (mask (k + 2))) (push_bit pos (push_bit 1 (mask k))) = Some pos"
        by (subst u) (simp only: True pat if_True)
      then show ?thesis using hit by simp
    next
      case False
      have e: "push_bit 1 (push_bit pos x) = push_bit (pos + 1) x" for x :: nat
        by (simp add: push_bit_push_bit)
      have s: "sift_pos f (push_bit 1 m) k pos (push_bit pos (mask (k + 2))) (push_bit pos (push_bit 1 (mask k))) =
          sift_pos f (push_bit 1 m) k (pos + 1) (push_bit (pos + 1) (mask (k + 2))) (push_bit (pos + 1) (push_bit 1 (mask k)))"
        by (subst u) (simp only: True False pat if_True if_False e)
      have "case sift_pos f (push_bit 1 m) k (pos + 1) (push_bit (pos + 1) (mask (k + 2))) (push_bit (pos + 1) (push_bit 1 (mask k))) of
          Some p \<Rightarrow> run_at (map_bits f m) k p | None \<Rightarrow> \<forall>p \<ge> pos + 1. \<not> run_at (map_bits f m) k p"
        by (rule less) (use True in simp)
      then show ?thesis unfolding s using False by (auto split: option.splits) (metis Suc_leI le_neq_implies_less)
    qed
  qed
qed

lemma sift_blocks_spec:
  assumes "geometry_ok fs" "f = nat (fs_frag fs)" "1 \<le> k" "k \<le> f"
  shows "case sift_blocks fs cp k (h * f) n of
      Some b \<Rightarrow> \<exists>h' p. h \<le> h' \<and> h' < h + n \<and> b = h' * f + p \<and> run_at (blk_bits f cp h') k p
    | None \<Rightarrow> \<forall>h'. h \<le> h' \<and> h' < h + n \<longrightarrow> k \<notin> set (run_lengths 0 (blk_bits f cp h'))"
proof (induction n arbitrary: h)
  case (Suc n)
  let ?m = "blkmap fs cp (h * f)"
  note bm = blkmap_spec[OF assms(1,2), of cp h]
  have f8: "f \<le> 8" using frag_cases[OF assms(1)] assms(2) by auto
  have sp: "case sift_pos f (push_bit 1 ?m) k 0 (around ! k) (inside ! k) of
      Some p \<Rightarrow> run_at (blk_bits f cp h) k p | None \<Rightarrow> \<forall>p. \<not> run_at (blk_bits f cp h) k p"
    using sift_pos_spec[OF bm(1) assms(3,4), of 0] around_mask[OF assms(3) order_trans[OF assms(4) f8]]
      inside_mask[OF assms(3) order_trans[OF assms(4) f8]] unfolding bm(2) by (simp only: push_bit_0_id id_apply le0 simp_thms)
  show ?case
  proof (cases "sift_pos f (push_bit 1 ?m) k 0 (around ! k) (inside ! k)")
    case (Some p)
    then have "sift_blocks fs cp k (h * f) (Suc n) = Some (h * f + p)" "run_at (blk_bits f cp h) k p"
      using sp by (simp_all add: assms(2)[symmetric])
    moreover from this(2) have "\<exists>h' p'. h \<le> h' \<and> h' < h + Suc n \<and> h * f + p = h' * f + p' \<and> run_at (blk_bits f cp h') k p'"
      by (intro exI[of _ h] exI[of _ p]) simp
    ultimately show ?thesis by (simp only: option.simps(5))
  next
    case None
    have e: "sift_blocks fs cp k (h * f) (Suc n) = sift_blocks fs cp k (Suc h * f) n"
      using None by (simp add: assms(2)[symmetric] add.commute)
    have no: "k \<notin> set (run_lengths 0 (blk_bits f cp h))" using sp None assms(3) by (simp add: in_run_lengths)
    show ?thesis
    proof (cases "sift_blocks fs cp k (Suc h * f) n")
      case None
      then have "k \<notin> set (run_lengths 0 (blk_bits f cp h'))" if "h \<le> h'" "h' < h + Suc n" for h'
        using Suc.IH[of "Suc h"] no that by (cases "h' = h") auto
      then show ?thesis unfolding e None by simp
    next
      case (Some b)
      then obtain h' p where "Suc h \<le> h'" "h' < Suc h + n" "b = h' * f + p" "run_at (blk_bits f cp h') k p"
        using Suc.IH[of "Suc h"] by auto
      then have "\<exists>h' p. h \<le> h' \<and> h' < h + Suc n \<and> b = h' * f + p \<and> run_at (blk_bits f cp h') k p"
        by (intro exI[of _ h'] exI[of _ p]) simp
      then show ?thesis unfolding e Some by (simp only: option.simps(5))
    qed
  qed
qed auto

text \<open>The blocks of a byte of the map.\<close>

lemma byte_block_bits:
  assumes "f \<in> {1, 2, 4, 8}" "j < 8 div f"
  shows "byte_block f (unat (m ! i)) j = blk_bits f m (i * (8 div f) + j)"
proof -
  let ?h = "i * (8 div f) + j"
  have "?h div (8 div f) = i" "?h mod (8 div f) = j" using assms(2) by auto
  then have "isset m (?h * f + k) \<longleftrightarrow> bit (m ! i) (j * f + k)" if "k < f" for k
    using frag_in_byte[OF assms(1) that, of ?h] unfolding isset_bit blk_byte_def by simp
  then show ?thesis by (auto simp: byte_block_def blk_bits_def bit_unsigned_iff)
qed

lemma table_hit:
  assumes "f \<in> {1, 2, 4, 8}" "1 \<le> k" "k \<le> f"
  shows "fragtbl f ! unat (m ! i) AND push_bit (k - 1 + f mod 8) 1 \<noteq> 0 \<longleftrightarrow>
    (\<exists>j < 8 div f. k \<in> set (run_lengths 0 (blk_bits f m (i * (8 div f) + j))))"
proof -
  have "unat (m ! i) < 256" using unsigned_less[of "m ! i"] by simp
  then have "bit (fragtbl f ! unat (m ! i)) (k - 1 + f mod 8) \<longleftrightarrow> (\<exists>j < 8 div f. k \<in> set (run_lengths 0 (byte_block f (unat (m ! i)) j)))"
    by (rule fragtbl_spec[OF assms(1) _ assms(2,3)])
  moreover have "x AND push_bit n 1 \<noteq> 0 \<longleftrightarrow> bit x n" for x n :: nat
    unfolding push_bit_of_1 by (simp add: and_exp_eq_0_iff_not_bit)
  ultimately show ?thesis using byte_block_bits[OF assms(1)] by (metis (no_types, lifting))
qed

section \<open>The search finds a run\<close>

definition map_start :: "ddfs_fs \<Rightarrow> cg \<Rightarrow> int \<Rightarrow> int" where
  "map_start fs cgp bpref = (if bpref \<noteq> 0 then dtogd fs bpref else cg_frotor cgp)"

definition nblocks :: "nat \<Rightarrow> byte list \<Rightarrow> nat" where
  "nblocks f m = length m * (8 div f)"

lemma mapsearch_finds:
  assumes "scan_function (e_scanc E)" "geometry_ok fs" "f = nat (fs_frag fs)" "1 \<le> k" "k \<le> f"
    and "length m = nat (howmany (fs_fpg fs) 8)" "m = cg_blksfree cgp"
    and "0 \<le> map_start fs cgp bpref" "nat (map_start fs cgp bpref div 8) < length m"
    and "\<exists>h < nblocks f m. k \<in> set (run_lengths 0 (blk_bits f m h))"
  shows "\<exists>h p fr. ffs_mapsearch E fs cgp bpref k = Inr (int (h * f + p), cgp\<lparr>cg_frotor := fr\<rparr>) \<and>
    h < nblocks f m \<and> run_at (blk_bits f m h) k p \<and> 0 \<le> fr \<and> nat (fr div 8) < length m"
proof -
  have f: "f \<in> {1, 2, 4, 8}" using frag_cases[OF assms(2)] assms(3) by auto
  define s where "s = nat (map_start fs cgp bpref div 8)"
  define msk where "msk = push_bit (k - 1 + f mod 8) (1 :: nat)"
  let ?tbl = "fragtbl f" and ?P = "\<lambda>i. fragtbl f ! unat (m ! i) AND msk \<noteq> 0"
  have s: "s < length m" using assms(9) by (simp add: s_def)
  define loc where "loc = e_scanc E (length m - s) (drop s m) ?tbl msk"
  define loc2 where "loc2 = e_scanc E (s + 1) m ?tbl msk"
  obtain h0 where h0: "h0 < nblocks f m" "k \<in> set (run_lengths 0 (blk_bits f m h0))" using assms(10) by blast
  have per: "0 < 8 div f" using f by auto
  have i0: "h0 div (8 div f) < length m" "?P (h0 div (8 div f))"
  proof -
    show "h0 div (8 div f) < length m" using h0(1) per by (simp add: nblocks_def less_mult_imp_div_less)
    have "h0 mod (8 div f) < 8 div f" "h0 div (8 div f) * (8 div f) + h0 mod (8 div f) = h0"
      using per by (auto simp: div_mult_mod_eq)
    then show "?P (h0 div (8 div f))" unfolding msk_def table_hit[OF f assms(4,5)] using h0(2) by metis
  qed
  have l1: "loc \<noteq> 0 \<Longrightarrow> s + (length m - s - loc) < length m \<and> ?P (s + (length m - s - loc))"
    using scan_function.scanc_Some[OF assms(1), of "length m - s" "drop s m" ?tbl msk] s
    unfolding loc_def[symmetric] by (auto simp: less_imp_le)
  have l2: "loc = 0 \<Longrightarrow> loc2 \<noteq> 0"
  proof
    assume z: "loc = 0" "loc2 = 0"
    have "\<forall>b \<in> set (drop s m). ?tbl ! unat b AND msk = 0" "\<forall>b \<in> set (take (s + 1) m). ?tbl ! unat b AND msk = 0"
      using scan_function.scanc_None[OF assms(1), of "length m - s" "drop s m" ?tbl msk]
        scan_function.scanc_None[OF assms(1), of "s + 1" m ?tbl msk] z s unfolding loc_def loc2_def by simp_all
    moreover have "m ! i \<in> set (take (s + 1) m) \<or> m ! i \<in> set (drop s m)" if "i < length m" for i
      using that s by (cases "i \<le> s") (auto simp: in_set_conv_nth intro: exI[of _ i] exI[of _ "i - s"])
    ultimately show False using i0 by metis
  qed
  have l3: "loc2 \<noteq> 0 \<Longrightarrow> s + 1 - loc2 < length m \<and> ?P (s + 1 - loc2)"
    using scan_function.scanc_Some[OF assms(1), of "s + 1" m ?tbl msk] s unfolding loc2_def[symmetric] by auto
  define i where "i = (if loc = 0 then s + 1 - loc2 else s + (length m - s) - loc)"
  have i: "i < length m" "?P i" "(if loc = 0 then loc2 else loc) \<noteq> 0"
  proof -
    have "loc \<noteq> 0 \<Longrightarrow> loc \<le> length m - s"
      using scan_function.scanc[OF assms(1), of "length m - s" "drop s m" ?tbl msk] s unfolding loc_def by (auto split: option.splits)
    then show "i < length m" "?P i" "(if loc = 0 then loc2 else loc) \<noteq> 0"
      using l1 l2 l3 unfolding i_def by auto
  qed
  have some: "\<exists>j < 8 div f. k \<in> set (run_lengths 0 (blk_bits f m (i * (8 div f) + j)))"
    using i(2) unfolding msk_def table_hit[OF f assms(4,5)] .
  have bno: "i * 8 = i * (8 div f) * f" using f by auto
  note sb = sift_blocks_spec[OF assms(2-5), where cp = m and h = "i * (8 div f)" and n = "8 div f"]
  obtain b where b: "sift_blocks fs m k (i * 8) (8 div f) = Some b"
    using sb some unfolding bno by (cases "sift_blocks fs m k (i * (8 div f) * f) (8 div f)") auto
  then obtain h p where hp: "i * (8 div f) \<le> h" "h < i * (8 div f) + 8 div f" "b = h * f + p" "run_at (blk_bits f m h) k p"
    using sb unfolding bno by auto
  have "(i + 1) * (8 div f) \<le> length m * (8 div f)" using i(1) by (intro mult_le_mono1) simp
  then have "h < nblocks f m" using hp(2) by (simp add: nblocks_def)
  moreover have "ffs_mapsearch E fs cgp bpref k = Inr (int b, cgp\<lparr>cg_frotor := int (i * 8)\<rparr>)"
    using i(3) b unfolding ffs_mapsearch_def Let_def assms(3)[symmetric] assms(7)[symmetric] map_start_def[symmetric]
      s_def[symmetric] msk_def[symmetric] assms(6)[symmetric] loc_def[symmetric] loc2_def[symmetric]
    by (cases "loc = 0") (simp_all add: i_def)
  moreover have "0 \<le> int (i * 8)" "nat (int (i * 8) div 8) < length m" using i(1) by simp_all
  ultimately show ?thesis using hp by blast
qed

end
