(* ===== verification/Ddfs_Cg.thy ===== *)
theory Ddfs_Cg
  imports Ddfs_Search
begin

text \<open>
  The summary of a cylinder group and its free map: the counts of free blocks, of free fragments in
  partly used blocks and of maximal runs of fragments by size are the ones the map has. Every
  allocation and every free changes one block of the map; the lemmas on flag lists give what that
  does to the three counts, and the operations of \<open>ddfs_alloc.c\<close> are shown to keep the summary exact.
\<close>

section \<open>Counts of one block\<close>

definition full :: "bool list \<Rightarrow> bool" where
  "full bs \<longleftrightarrow> (\<forall>b \<in> set bs. b)"

definition nb :: "bool list \<Rightarrow> int" where
  "nb bs = of_bool (full bs)"

definition nf :: "bool list \<Rightarrow> int" where
  "nf bs = (if full bs then 0 else int (length (filter id bs)))"

lemma run_lengths_append_False: "run_lengths c (xs @ False # ys) = run_lengths c (xs @ [False]) @ run_lengths 0 ys"
  by (induction xs arbitrary: c) auto

lemma run_lengths_False_end: "run_lengths c (xs @ [False]) = run_lengths c xs"
  by (induction xs arbitrary: c) auto

lemma run_lengths_gap: "0 < j \<Longrightarrow> run_lengths 0 (xs @ replicate j False @ ys) = run_lengths 0 xs @ run_lengths 0 ys"
proof (induction j)
  case (Suc j)
  have "run_lengths 0 (xs @ False # replicate j False @ ys) = run_lengths 0 xs @ run_lengths 0 (replicate j False @ ys)"
    by (simp add: run_lengths_append_False[of 0 xs] run_lengths_False_end)
  moreover have "run_lengths 0 (replicate j False @ ys) = run_lengths 0 ys" by (induction j) auto
  ultimately show ?case by simp
qed simp

lemma run_lengths_mid:
  assumes "xs = [] \<or> \<not> last xs" "ys = [] \<or> \<not> hd ys" "0 < k"
  shows "run_lengths 0 (xs @ replicate k True @ ys) = run_lengths 0 xs @ k # run_lengths 0 ys"
proof -
  have r: "run_lengths 0 (replicate k True @ ys) = k # run_lengths 0 ys"
  proof (cases ys)
    case Nil
    then show ?thesis using assms(3) by (simp add: run_lengths_tail)
  next
    case (Cons b ys')
    then show ?thesis using assms(2,3) by (simp add: run_lengths_block)
  qed
  show ?thesis
  proof (cases "xs = []")
    case True
    then show ?thesis using r by simp
  next
    case False
    then obtain xs' where xs: "xs = xs' @ [False]" using assms(1) by (metis (full_types) append_butlast_last_id)
    show ?thesis using run_lengths_append_False[of 0 xs' "replicate k True @ ys"] r unfolding xs by simp
  qed
qed

text \<open>A list with a run of \<open>k\<close> at \<open>p\<close>, and the list after its first \<open>j\<close> fragments have been taken.\<close>

lemma run_at_split:
  assumes "run_at bs k p"
  shows "bs = take p bs @ replicate k True @ drop (p + k) bs" "take p bs = [] \<or> \<not> last (take p bs)"
    "drop (p + k) bs = [] \<or> \<not> hd (drop (p + k) bs)"
proof -
  have l: "p + k \<le> length bs" using assms by (simp add: run_at_def)
  have "take k (drop p bs) = replicate k True"
    using assms l by (intro nth_equalityI) (auto simp: run_at_def)
  then show "bs = take p bs @ replicate k True @ drop (p + k) bs"
    by (metis add.commute append_take_drop_id drop_drop)
  show "take p bs = [] \<or> \<not> last (take p bs)"
    using assms l by (cases p) (auto simp: run_at_def last_conv_nth)
  show "drop (p + k) bs = [] \<or> \<not> hd (drop (p + k) bs)"
    using assms by (auto simp: run_at_def hd_drop_conv_nth)
qed

lemma take_from_run:
  assumes "run_at bs k p" "length bs' = length bs" "\<And>i. i < length bs \<Longrightarrow> bs' ! i \<longleftrightarrow> bs ! i \<and> \<not> (p \<le> i \<and> i < p + j)"
    and "0 < j" "j \<le> k"
  shows "runs bs' r = runs bs r - of_bool (r = k) + of_bool (0 < r \<and> r = k - j)"
    "length (filter id bs') = length (filter id bs) - j" "j \<le> length (filter id bs)" "\<not> full bs'"
proof -
  note sp = run_at_split[OF assms(1)]
  let ?x = "take p bs" and ?y = "drop (p + k) bs"
  have l: "p + k \<le> length bs" using assms(1) by (simp add: run_at_def)
  have bs': "bs' = ?x @ replicate j False @ replicate (k - j) True @ ?y"
  proof (rule nth_equalityI)
    show "length bs' = length (?x @ replicate j False @ replicate (k - j) True @ ?y)" using assms(2,5) l by simp
    fix i assume "i < length bs'"
    then have i: "i < length bs" using assms(2) by simp
    have "bs ! i" if "p \<le> i" "i < p + k"
    proof -
      obtain q where "i = p + q" "q < k" using \<open>p \<le> i\<close> \<open>i < p + k\<close> by (metis add_less_cancel_left le_Suc_ex)
      then show ?thesis using assms(1) by (simp add: run_at_def)
    qed
    then show "bs' ! i = (?x @ replicate j False @ replicate (k - j) True @ ?y) ! i"
      unfolding assms(3)[OF i] using l assms(5) i by (auto simp: nth_append not_less)
  qed
  have old: "run_lengths 0 bs = run_lengths 0 ?x @ k # run_lengths 0 ?y"
    using run_lengths_mid[OF sp(2,3), of k] sp(1) assms(4,5) by simp
  have new: "run_lengths 0 bs' = run_lengths 0 ?x @ (if j = k then [] else [k - j]) @ run_lengths 0 ?y"
  proof (cases "j = k")
    case True
    then show ?thesis using assms(4) unfolding bs' by (simp add: run_lengths_gap)
  next
    case False
    then show ?thesis using assms(4,5) run_lengths_mid[of "[]" ?y "k - j"] sp(3) unfolding bs' by (simp add: run_lengths_gap)
  qed
  show "runs bs' r = runs bs r - of_bool (r = k) + of_bool (0 < r \<and> r = k - j)"
    using assms(4,5) by (auto simp: runs_def old new)
  have "filter id bs = filter id ?x @ replicate k True @ filter id ?y"
    by (subst sp(1)) (simp add: filter_replicate)
  then show "length (filter id bs') = length (filter id bs) - j" "j \<le> length (filter id bs)"
    using assms(5) unfolding bs' by (simp_all add: filter_replicate)
  show "\<not> full bs'" using assms(4) unfolding bs' full_def by auto
qed

lemma run_not_full: "run_at bs k p \<Longrightarrow> 0 < k \<Longrightarrow> k < length bs \<Longrightarrow> \<not> full bs"
proof
  assume a: "run_at bs k p" "0 < k" "k < length bs" "full bs"
  then have "bs = replicate (length bs) True" by (metis (full_types) full_def replicate_eqI)
  then show False using a(1,2,3) run_at_replicate[OF a(2)] by (metis less_irrefl)
qed

lemma full_replicate: "full bs \<longleftrightarrow> bs = replicate (length bs) True"
  unfolding full_def by (metis (full_types) in_set_replicate replicate_eqI)

lemma runs_full: "k < n \<Longrightarrow> runs (replicate n True) k = 0"
  by (simp add: runs_def run_lengths_tail)

lemma runs_empty: "runs (replicate n False) k = 0"
  by (simp add: runs_def run_lengths_none)

lemma runs_rest: "0 < j \<Longrightarrow> j < n \<Longrightarrow> runs (replicate j False @ replicate (n - j) True) k = of_bool (k = n - j)"
  using run_lengths_gap[of j "[]" "replicate (n - j) True"] by (simp add: runs_def run_lengths_tail)

lemma block_values:
  "0 < n \<Longrightarrow> nb (replicate n False) = 0" "nf (replicate n False) = 0"
  "nb (replicate n True) = 1" "nf (replicate n True) = 0"
  "0 < j \<Longrightarrow> j < n \<Longrightarrow> nb (replicate j False @ replicate (n - j) True) = 0"
  "0 < j \<Longrightarrow> j < n \<Longrightarrow> nf (replicate j False @ replicate (n - j) True) = int n - int j"
  by (auto simp: nb_def nf_def full_def filter_replicate)

section \<open>The summary of a group\<close>

definition counts_ok :: "nat \<Rightarrow> byte list \<Rightarrow> csum \<Rightarrow> int list \<Rightarrow> bool" where
  "counts_ok f m cs frsum \<longleftrightarrow> cs_nbfree cs = (\<Sum>h<nblocks f m. nb (blk_bits f m h)) \<and>
     cs_nffree cs = (\<Sum>h<nblocks f m. nf (blk_bits f m h)) \<and>
     (\<forall>k. 1 \<le> k \<and> k < f \<longrightarrow> frsum ! k = (\<Sum>h<nblocks f m. int (runs (blk_bits f m h) k)))"

definition fs_ok :: "ddfs_fs \<Rightarrow> bool" where
  "fs_ok fs \<longleftrightarrow> geometry_ok fs \<and> 0 < fs_fpg fs \<and> fs_frag fs dvd fs_fpg fs \<and> 0 \<le> fs_dblkno fs \<and>
     0 \<le> fs_metaspace fs \<and> fs_magic fs = FS_DDFS_MAGIC"

text \<open>The free fragments of a map.\<close>

definition free_of :: "byte list \<Rightarrow> nat set" where
  "free_of m = {j. j < 8 * length m \<and> isset m j}"

definition cg_ok :: "ddfs_fs \<Rightarrow> cg \<Rightarrow> bool" where
  "cg_ok fs cgp \<longleftrightarrow> length (cg_blksfree cgp) = nat (howmany (fs_fpg fs) 8) \<and> length (cg_frsum cgp) = 8 \<and>
     counts_ok (nat (fs_frag fs)) (cg_blksfree cgp) (cg_cs cgp) (cg_frsum cgp) \<and>
     0 \<le> cg_rotor cgp \<and> 0 \<le> cg_frotor cgp \<and> nat (cg_frotor cgp div 8) < length (cg_blksfree cgp) \<and>
     cg_ndblk cgp \<le> fs_fpg fs \<and> (\<forall>j \<in> free_of (cg_blksfree cgp). int j < cg_ndblk cgp)"

text \<open>One block of the map has changed, and the counts by as much as it has.\<close>

lemma counts_update:
  assumes "counts_ok f m cs frsum" "agree_off f h m m'" "h < nblocks f m" "0 < f"
    and "cs_nbfree cs' = cs_nbfree cs - nb (blk_bits f m h) + nb (blk_bits f m' h)"
    and "cs_nffree cs' = cs_nffree cs - nf (blk_bits f m h) + nf (blk_bits f m' h)"
    and "\<And>k. 1 \<le> k \<Longrightarrow> k < f \<Longrightarrow> frsum' ! k = frsum ! k - int (runs (blk_bits f m h) k) + int (runs (blk_bits f m' h) k)"
  shows "counts_ok f m' cs' frsum'"
proof -
  have n: "nblocks f m' = nblocks f m" using assms(2) by (simp add: nblocks_def agree_off_def)
  note u = sum_blocks_update[OF assms(2-4)]
  show ?thesis unfolding counts_ok_def n
  proof (intro conjI allI impI)
    show "cs_nbfree cs' = (\<Sum>h<nblocks f m. nb (blk_bits f m' h))"
      using assms(1,5) unfolding u[of nb] by (simp add: counts_ok_def)
    show "cs_nffree cs' = (\<Sum>h<nblocks f m. nf (blk_bits f m' h))"
      using assms(1,6) unfolding u[of nf] by (simp add: counts_ok_def)
    fix k assume k: "1 \<le> k \<and> k < f"
    show "frsum' ! k = (\<Sum>h<nblocks f m. int (runs (blk_bits f m' h) k))"
      using assms(1) assms(7)[of k] k unfolding u[of "\<lambda>bs. int (runs bs k)"] by (simp add: counts_ok_def)
  qed
qed

text \<open>A positive count has a block behind it.\<close>

lemma sum_pos_ex:
  fixes g :: "nat \<Rightarrow> int"
  assumes "(\<Sum>h<n. g h) \<noteq> 0"
  shows "\<exists>h < n. g h \<noteq> 0"
  using assms by (metis lessThan_iff sum.neutral)

lemma counts_block_ex:
  assumes "counts_ok f m cs frsum" "cs_nbfree cs \<noteq> 0"
  shows "\<exists>h < nblocks f m. full (blk_bits f m h)"
  using sum_pos_ex[of "\<lambda>h. nb (blk_bits f m h)" "nblocks f m"] assms by (auto simp: counts_ok_def nb_def)

lemma counts_run_ex:
  assumes "counts_ok f m cs frsum" "1 \<le> k" "k < f" "frsum ! k \<noteq> 0"
  shows "\<exists>h < nblocks f m. k \<in> set (run_lengths 0 (blk_bits f m h))"
proof -
  obtain h where "h < nblocks f m" "runs (blk_bits f m h) k \<noteq> 0"
    using sum_pos_ex[of "\<lambda>h. int (runs (blk_bits f m h) k)" "nblocks f m"] assms by (auto simp: counts_ok_def)
  then show ?thesis by (auto simp: runs_def count_list_0_iff)
qed

lemma counts_none:
  assumes "counts_ok f m cs frsum" "cs_nbfree cs = 0" "h < nblocks f m"
  shows "\<not> full (blk_bits f m h)"
proof
  assume "full (blk_bits f m h)"
  have "(\<Sum>h<nblocks f m. nb (blk_bits f m h)) = 0" using assms(1,2) by (simp add: counts_ok_def)
  then have "nb (blk_bits f m h) = 0"
    using assms(3) sum_nonneg_eq_0_iff[of "{..<nblocks f m}" "\<lambda>h. nb (blk_bits f m h)"] by (auto simp: nb_def)
  then show False using \<open>full (blk_bits f m h)\<close> by (simp add: nb_def)
qed

lemma counts_no_run:
  assumes "counts_ok f m cs frsum" "1 \<le> k" "k < f" "frsum ! k = 0" "h < nblocks f m"
  shows "k \<notin> set (run_lengths 0 (blk_bits f m h))"
proof -
  have "(\<Sum>h<nblocks f m. int (runs (blk_bits f m h) k)) = 0" using assms(1-4) by (simp add: counts_ok_def)
  then have "runs (blk_bits f m h) k = 0"
    using assms(5) sum_nonneg_eq_0_iff[of "{..<nblocks f m}" "\<lambda>h. int (runs (blk_bits f m h) k)"] by auto
  then show ?thesis by (simp add: runs_def count_list_0_iff)
qed

section \<open>Geometry of a mounted file system\<close>

text \<open>The superblocks that differ only in the summary fields.\<close>

definition geom_eq :: "ddfs_fs \<Rightarrow> ddfs_fs \<Rightarrow> bool" where
  "geom_eq fs' fs \<longleftrightarrow> fs'\<lparr>fs_si := fs_si fs, fs_cstotal := fs_cstotal fs, fs_fmod := fs_fmod fs\<rparr> = fs"

lemma geom_form: "geom_eq fs' fs \<Longrightarrow> fs' = fs\<lparr>fs_si := fs_si fs', fs_cstotal := fs_cstotal fs', fs_fmod := fs_fmod fs'\<rparr>"
  by (cases fs', cases fs) (simp add: geom_eq_def)

lemma geom_eq_updates [simp]:
  "geom_eq (fs'\<lparr>fs_si := si\<rparr>) fs = geom_eq fs' fs" "geom_eq (fs'\<lparr>fs_cstotal := t\<rparr>) fs = geom_eq fs' fs"
  "geom_eq (fs'\<lparr>fs_fmod := fm\<rparr>) fs = geom_eq fs' fs"
  by (cases fs', cases fs, simp add: geom_eq_def)+

lemma geom_eqD:
  assumes "geom_eq fs' fs"
  shows "fs_frag fs' = fs_frag fs" "fs_ok fs' = fs_ok fs" "cg_ok fs' = cg_ok fs" "geometry_ok fs' = geometry_ok fs"
    "numfrags fs' = numfrags fs" "cgbase fs' = cgbase fs" "fragstoblks fs' = fragstoblks fs" "dtogd fs' = dtogd fs"
    "fs_contigsumsize fs' = fs_contigsumsize fs" "fs_bsize fs' = fs_bsize fs" "fs_fsize fs' = fs_fsize fs" "fs_fpg fs' = fs_fpg fs"
    "blkmap fs' = blkmap fs" "ffs_fragacct fs' = ffs_fragacct fs" "fs_ncg fs' = fs_ncg fs" "dtog fs' = dtog fs"
    "ffs_isblock fs' = ffs_isblock fs" "fs_metackhash fs' = fs_metackhash fs" "fragnum fs' = fragnum fs"
  by (subst geom_form[OF assms], simp add: fs_ok_def geometry_ok_def cg_ok_def numfrags_def cgbase_def fragstoblks_def dtogd_def
      dtog_def blkmap_def ffs_fragacct_def ffs_isblock_def fragnum_def fun_eq_iff)+

lemma geom_refl [simp]: "geom_eq fs fs"
  by (simp add: geom_eq_def)

lemma geom_trans: "geom_eq c b \<Longrightarrow> geom_eq b a \<Longrightarrow> geom_eq c a"
  by (cases a, cases b, cases c) (simp add: geom_eq_def)

text \<open>\<open>acct c cs cs' fs fs'\<close>: the totals of the superblock move with the summary of group \<open>c\<close>, which
  changes from \<open>cs\<close> to \<open>cs'\<close> in memory as well.\<close>

definition acct :: "nat \<Rightarrow> csum \<Rightarrow> csum \<Rightarrow> ddfs_fs \<Rightarrow> ddfs_fs \<Rightarrow> bool" where
  "acct c cs cs' fs fs' \<longleftrightarrow> geom_eq fs' fs \<and>
     cst_nbfree (fs_cstotal fs') - cst_nbfree (fs_cstotal fs) = cs_nbfree cs' - cs_nbfree cs \<and>
     cst_nffree (fs_cstotal fs') - cst_nffree (fs_cstotal fs) = cs_nffree cs' - cs_nffree cs \<and>
     cst_nifree (fs_cstotal fs') - cst_nifree (fs_cstotal fs) = cs_nifree cs' - cs_nifree cs \<and>
     cst_ndir (fs_cstotal fs') - cst_ndir (fs_cstotal fs) = cs_ndir cs' - cs_ndir cs \<and>
     (\<forall>si. fs_si fs = Some si \<and> c < length (si_csp si) \<and> si_csp si ! c = cs \<longrightarrow>
        (\<exists>si'. fs_si fs' = Some si' \<and> si_csp si' = (si_csp si)[c := cs']))"

lemma acct_trans: "acct c cs1 cs2 fs1 fs2 \<Longrightarrow> acct c cs2 cs3 fs2 fs3 \<Longrightarrow> acct c cs1 cs3 fs1 fs3"
proof -
  assume a: "acct c cs1 cs2 fs1 fs2" and b: "acct c cs2 cs3 fs2 fs3"
  have "\<exists>si'. fs_si fs3 = Some si' \<and> si_csp si' = (si_csp si)[c := cs3]"
    if si: "fs_si fs1 = Some si" "c < length (si_csp si)" "si_csp si ! c = cs1" for si
  proof -
    obtain si2 where s2: "fs_si fs2 = Some si2" "si_csp si2 = (si_csp si)[c := cs2]"
      using a si unfolding acct_def by blast
    then obtain si3 where "fs_si fs3 = Some si3" "si_csp si3 = (si_csp si2)[c := cs3]"
      using b si(2) unfolding acct_def by (metis length_list_update nth_list_update_eq)
    then show ?thesis using s2 by auto
  qed
  then show ?thesis using a b geom_trans unfolding acct_def by fastforce
qed

lemma acct_refl [simp]: "acct c cs cs fs fs"
  by (auto simp: acct_def)

lemma acct_geom: "acct c cs cs' fs fs' \<Longrightarrow> geom_eq fs' fs"
  by (simp add: acct_def)

lemma acct_fmod: "acct c cs cs' fs fs' \<Longrightarrow> acct c cs cs' fs (set_fmod fs')"
  by (auto simp: acct_def set_fmod_def)

lemma acct_active: "acct c cs cs' fs fs' \<Longrightarrow> acct c cs cs' fs (ACTIVECLEAR fs' d)"
  by (fastforce simp: acct_def ACTIVECLEAR_def)

lemma acct_nbfree:
  "fst (add_nbfree n (fs, cgp)) = fs' \<Longrightarrow> snd (add_nbfree n (fs, cgp)) = cgp' \<Longrightarrow> nat (cg_cgx cgp) = c \<Longrightarrow>
   acct c (cg_cs cgp) (cg_cs cgp') fs fs' \<and> cgp' = cgp\<lparr>cg_cs := (cg_cs cgp)\<lparr>cs_nbfree := cs_nbfree (cg_cs cgp) + n\<rparr>\<rparr>"
  by (auto simp: add_nbfree_def acct_def upd_cs_def upd_total_def)

lemma acct_nffree:
  "fst (add_nffree n (fs, cgp)) = fs' \<Longrightarrow> snd (add_nffree n (fs, cgp)) = cgp' \<Longrightarrow> nat (cg_cgx cgp) = c \<Longrightarrow>
   acct c (cg_cs cgp) (cg_cs cgp') fs fs' \<and> cgp' = cgp\<lparr>cg_cs := (cg_cs cgp)\<lparr>cs_nffree := cs_nffree (cg_cs cgp) + n\<rparr>\<rparr>"
  by (auto simp: add_nffree_def acct_def upd_cs_def upd_total_def)

text \<open>The cluster accounting touches the cluster maps and \<open>fs_maxcluster\<close> only.\<close>

lemma clusteracct_frame:
  "\<exists>x y fs'. ffs_clusteracct fs cgp b n = (fs', cgp\<lparr>cg_clustersfree := x, cg_clustersum := y\<rparr>) \<and> acct c cs cs fs fs'"
proof (cases "fs_contigsumsize fs \<le> 0")
  case True
  then show ?thesis
    by (intro exI[of _ "cg_clustersfree cgp"] exI[of _ "cg_clustersum cgp"] exI[of _ fs]) (simp add: ffs_clusteracct_def)
next
  case False
  have "acct c cs cs fs (fs\<lparr>fs_si := map_option (\<lambda>si. si\<lparr>si_maxcluster := (si_maxcluster si)[i := v]\<rparr>) (fs_si fs)\<rparr>)" for i v
    by (auto simp: acct_def)
  then show ?thesis using False unfolding ffs_clusteracct_def Let_def by (simp only: if_False) blast
qed

end
