(* ===== verification/Ddfs_Group.thy ===== *)
theory Ddfs_Group
  imports Ddfs_Cg
begin

text \<open>
  The operations on one cylinder group: taking a whole block or part of it, taking part of a run of
  fragments, giving fragments back. Each removes from the free fragments of the group, or adds to
  them, exactly the ones it names, and keeps the summary of the group and of the superblock exact.
\<close>

section \<open>Fragments of a map\<close>

lemma length_frag_loops [simp]: "length (clr_frags m b n) = length m" "length (set_frags m b n) = length m"
  by (induction n arbitrary: m b) auto

lemma isset_clr_frags: "b + n \<le> 8 * length m \<Longrightarrow> isset (clr_frags m b n) j \<longleftrightarrow> isset m j \<and> \<not> (b \<le> j \<and> j < b + n)"
  by (induction n arbitrary: m b) (auto simp: isset_clrbit)

lemma isset_set_frags: "b + n \<le> 8 * length m \<Longrightarrow> isset (set_frags m b n) j \<longleftrightarrow> isset m j \<or> (b \<le> j \<and> j < b + n)"
  by (induction n arbitrary: m b) (auto simp: isset_setbit)

lemma free_frags_set:
  "b + n \<le> 8 * length m \<Longrightarrow> free_frags m b n =
     (if \<forall>j. b \<le> j \<and> j < b + n \<longrightarrow> \<not> isset m j then Inr (set_frags m b n) else Inl (Panic ''ffs_blkfree_cg: freeing free frag''))"
proof (induction n arbitrary: m b)
  case (Suc n)
  have "isset (setbit m b) j \<longleftrightarrow> isset m j" if "Suc b \<le> j" for j using that Suc.prems by (simp add: isset_setbit)
  then have "(\<forall>j. Suc b \<le> j \<and> j < Suc b + n \<longrightarrow> \<not> isset (setbit m b) j) \<longleftrightarrow> (\<forall>j. Suc b \<le> j \<and> j < Suc b + n \<longrightarrow> \<not> isset m j)" by auto
  moreover have "(\<forall>j. b \<le> j \<and> j < b + Suc n \<longrightarrow> \<not> isset m j) \<longleftrightarrow>
      \<not> isset m b \<and> (\<forall>j. Suc b \<le> j \<and> j < Suc b + n \<longrightarrow> \<not> isset m j)"
    by (metis Suc_le_eq add_Suc_right add_Suc_shift le_eq_less_or_eq le_less_trans less_add_Suc1)
  ultimately show ?case using Suc.prems Suc.IH[of "Suc b" "setbit m b"] by (simp del: all_simps)
qed simp

lemma block_frags:
  fixes f h p n :: nat
  assumes "p + n \<le> f"
  shows "h * f + p \<le> j \<and> j < h * f + p + n \<Longrightarrow> j div f = h"
proof -
  assume "h * f + p \<le> j \<and> j < h * f + p + n"
  then have "j = h * f + (j - h * f)" "j - h * f < f" using assms by linarith+
  then show ?thesis by (metis add.commute div_less div_mult_self3 add_0 less_nat_zero_code)
qed

lemma block_in_map: "f \<in> {1, 2, 4, 8} \<Longrightarrow> h < nblocks f m \<Longrightarrow> h * f + f \<le> 8 * length m"
proof -
  assume f: "f \<in> {1, 2, 4, 8}" and h: "h < nblocks f m"
  have "Suc h * f \<le> length m * (8 div f) * f" using h by (intro mult_le_mono1) (simp add: nblocks_def)
  then show ?thesis using f by auto
qed

lemma clr_frags_agree:
  assumes "f \<in> {1, 2, 4, 8}" "h < nblocks f m" "p + n \<le> f"
  shows "agree_off f h m (clr_frags m (h * f + p) n)" "agree_off f h m (set_frags m (h * f + p) n)"
proof -
  have "h * f + p + n \<le> 8 * length m" using block_in_map[OF assms(1,2)] assms(3) by simp
  then show "agree_off f h m (clr_frags m (h * f + p) n)" "agree_off f h m (set_frags m (h * f + p) n)"
    using block_frags[OF assms(3), of h] by (auto simp: agree_off_def isset_clr_frags isset_set_frags)
qed

lemma free_of_clr: "b + n \<le> 8 * length m \<Longrightarrow> free_of (clr_frags m b n) = free_of m - {b..<b + n}"
  by (auto simp: free_of_def isset_clr_frags)

lemma free_of_set: "b + n \<le> 8 * length m \<Longrightarrow> free_of (set_frags m b n) = free_of m \<union> {b..<b + n}"
  by (auto simp: free_of_def isset_set_frags)

lemma blk_bits_all: "blk_bits f m h = replicate f v \<longleftrightarrow> (\<forall>i < f. isset m (h * f + i) = v)"
  by (auto simp: list_eq_iff_nth_eq)

lemma full_blk: "full (blk_bits f m h) \<longleftrightarrow> (\<forall>i < f. isset m (h * f + i))"
  unfolding full_replicate using blk_bits_all[of f m h True] by simp

text \<open>Clearing a whole block is \<open>ffs_clrblock\<close>, setting it \<open>ffs_setblock\<close>, as far as the fragments go.\<close>

lemma free_of_agree:
  assumes "agree_off f h m m'" "\<And>i. i < f \<Longrightarrow> isset m' (h * f + i) \<longleftrightarrow> P i" "h * f + f \<le> 8 * length m" "0 < f"
  shows "free_of m' = (free_of m - {h * f..<h * f + f}) \<union> {h * f + i | i. i < f \<and> P i}"
proof -
  have l: "length m' = length m" using assms(1) by (simp add: agree_off_def)
  have "isset m' j \<longleftrightarrow> (if h * f \<le> j \<and> j < h * f + f then P (j - h * f) else isset m j)" for j
  proof (cases "h * f \<le> j \<and> j < h * f + f")
    case True
    then obtain i where "j = h * f + i" "i < f" by (metis add_less_cancel_left le_Suc_ex)
    then show ?thesis using assms(2) by simp
  next
    case False
    have "j div f \<noteq> h"
    proof
      assume "j div f = h"
      then have "j = h * f + j mod f" by auto
      moreover have "j mod f < f" using assms(4) by simp
      ultimately show False using False by linarith
    qed
    then show ?thesis using assms(1) False by (auto simp: agree_off_def)
  qed
  then show ?thesis unfolding free_of_def l
    by (auto simp: assms(3)[THEN less_le_trans[rotated]] intro!: exI[of _ "_ - h * f"])
qed

section \<open>Taking fragments\<close>

text \<open>Everything a step on a group keeps: the summary is exact, in the group and in the superblock, and the
  header is as before; a step on the blocks of a group leaves its inodes alone.\<close>

definition group_write :: "ddfs_fs \<times> cg \<Rightarrow> ddfs_fs \<times> cg \<Rightarrow> bool" where
  "group_write = (\<lambda>(fs, cgp) (fs', cgp'). acct (nat (cg_cgx cgp)) (cg_cs cgp) (cg_cs cgp') fs fs' \<and> cg_ok fs cgp' \<and>
     cg_cgx cgp' = cg_cgx cgp \<and> cg_magic cgp' = cg_magic cgp \<and> cg_ndblk cgp' = cg_ndblk cgp \<and> cg_niblk cgp' = cg_niblk cgp)"

definition same_inodes :: "cg \<Rightarrow> cg \<Rightarrow> bool" where
  "same_inodes cgp cgp' \<longleftrightarrow> cg_inosused cgp' = cg_inosused cgp \<and> cg_irotor cgp' = cg_irotor cgp \<and>
     cg_initediblk cgp' = cg_initediblk cgp \<and> cg_niblk cgp' = cg_niblk cgp \<and>
     cs_nifree (cg_cs cgp') = cs_nifree (cg_cs cgp) \<and> cs_ndir (cg_cs cgp') = cs_ndir (cg_cs cgp)"

definition group_step :: "ddfs_fs \<times> cg \<Rightarrow> ddfs_fs \<times> cg \<Rightarrow> bool" where
  "group_step x y \<longleftrightarrow> group_write x y \<and> same_inodes (snd x) (snd y)"

lemmas group_step_defs = group_step_def group_write_def same_inodes_def

lemma fs_okD:
  assumes "fs_ok fs"
  shows "geometry_ok fs" "0 < fs_fpg fs" "fs_frag fs dvd fs_fpg fs" "0 \<le> fs_dblkno fs" "0 \<le> fs_metaspace fs"
    "fs_magic fs = FS_DDFS_MAGIC"
  using assms by (auto simp: fs_ok_def)

lemma cg_okD:
  assumes "cg_ok fs cgp"
  shows "length (cg_blksfree cgp) = nat (howmany (fs_fpg fs) 8)" "length (cg_frsum cgp) = 8"
    "counts_ok (nat (fs_frag fs)) (cg_blksfree cgp) (cg_cs cgp) (cg_frsum cgp)" "0 \<le> cg_rotor cgp"
    "0 \<le> cg_frotor cgp" "nat (cg_frotor cgp div 8) < length (cg_blksfree cgp)" "cg_ndblk cgp \<le> fs_fpg fs"
    "\<And>j. j \<in> free_of (cg_blksfree cgp) \<Longrightarrow> int j < cg_ndblk cgp"
  using assms by (auto simp: cg_ok_def)

lemma frag_nat: "geometry_ok fs \<Longrightarrow> f = nat (fs_frag fs) \<Longrightarrow> f \<in> {1, 2, 4, 8} \<and> fs_frag fs = int f \<and> 0 < f"
  using frag_cases[of fs] by auto

lemma add_at_nth: "i < length xs \<Longrightarrow> k < length xs \<Longrightarrow> add_at xs i n ! k = xs ! k + (if k = i then n else 0)"
  by (auto simp: add_at_def nth_list_update)

lemma length_add_at [simp]: "length (add_at xs i n) = length xs"
  by (simp add: add_at_def)

text \<open>A step that changes one block of the map, and the counts with it, keeps the group's invariant.\<close>

lemma cg_ok_block:
  assumes "cg_ok fs cgp" "agree_off f h (cg_blksfree cgp) (cg_blksfree cgp')" "h < nblocks f (cg_blksfree cgp)"
    "f = nat (fs_frag fs)" "0 < f"
    and "cs_nbfree (cg_cs cgp') = cs_nbfree (cg_cs cgp) - nb (blk_bits f (cg_blksfree cgp) h) + nb (blk_bits f (cg_blksfree cgp') h)"
    and "cs_nffree (cg_cs cgp') = cs_nffree (cg_cs cgp) - nf (blk_bits f (cg_blksfree cgp) h) + nf (blk_bits f (cg_blksfree cgp') h)"
    and "\<And>k. 1 \<le> k \<Longrightarrow> k < f \<Longrightarrow> cg_frsum cgp' ! k =
      cg_frsum cgp ! k - int (runs (blk_bits f (cg_blksfree cgp) h) k) + int (runs (blk_bits f (cg_blksfree cgp') h) k)"
    and "length (cg_frsum cgp') = 8" "0 \<le> cg_rotor cgp'" "0 \<le> cg_frotor cgp'"
      "nat (cg_frotor cgp' div 8) < length (cg_blksfree cgp)" "cg_ndblk cgp' = cg_ndblk cgp"
      "\<And>j. j \<in> free_of (cg_blksfree cgp') \<Longrightarrow> int j < cg_ndblk cgp"
  shows "cg_ok fs cgp'"
proof -
  have l: "length (cg_blksfree cgp') = length (cg_blksfree cgp)" using assms(2) by (simp add: agree_off_def)
  have "counts_ok f (cg_blksfree cgp') (cg_cs cgp') (cg_frsum cgp')"
    using counts_update[OF _ assms(2,3,5-7), where frsum = "cg_frsum cgp" and frsum' = "cg_frsum cgp'"]
      assms(1,4,8) unfolding cg_ok_def by blast
  then show ?thesis using assms(1,4,9-14) unfolding cg_ok_def l by simp
qed

lemma take_block_spec:
  assumes "fs_ok fs" "cg_ok fs cgp" "f = nat (fs_frag fs)" "m = cg_blksfree cgp" "h < nblocks f m"
    "full (blk_bits f m h)" "numfrags fs sz = int n" "1 \<le> n" "n \<le> f" "0 \<le> cg_cgx cgp"
  shows "\<exists>fs' cgp'. take_block fs cgp (h * f) sz = Inr (cgbase fs (cg_cgx cgp) + int (h * f), fs', cgp') \<and>
    group_step (fs, cgp) (fs', cgp') \<and> {h * f..<h * f + n} \<subseteq> free_of m \<and> free_of (cg_blksfree cgp') = free_of m - {h * f..<h * f + n}"
proof -
  note g = fs_okD[OF assms(1)] and k = cg_okD[OF assms(2)]
  have f: "f \<in> {1, 2, 4, 8}" "fs_frag fs = int f" "0 < f" using frag_nat[OF g(1) assms(3)] by auto
  have hf: "h * f + f \<le> 8 * length m" by (rule block_in_map[OF f(1) assms(5)])
  have sub: "{h * f..<h * f + f} \<subseteq> free_of m"
  proof
    fix j assume "j \<in> {h * f..<h * f + f}"
    then obtain i where "j = h * f + i" "i < f" by (metis add_less_cancel_left atLeastLessThan_iff le_Suc_ex)
    then show "j \<in> free_of m" using assms(6) hf unfolding full_blk by (auto simp: free_of_def)
  qed
  have fpg: "int (h * f) < fs_fpg fs" using k(7,8) sub f(3) assms(4) by (metis atLeastLessThan_iff le_refl less_add_same_cancel1 less_le_trans subsetD)
  have blk: "nat (fragstoblks fs (int (h * f))) = h"
    using f macros_div(7)[OF g(1)] by (simp add: nat_mult_distrib)
  have h8: "h * f div 8 < length m" using hf f(3) by linarith
  obtain m1 where m1: "ffs_clrblock fs m h = Inr m1" "agree_off f h m m1" "\<forall>i < f. \<not> isset m1 (h * f + i)"
    using setclr_block(2)[OF g(1) assms(3) h8] by blast
  obtain x y fs1 where ca: "ffs_clusteracct fs (cgp\<lparr>cg_blksfree := m1\<rparr>) h (- 1) =
      (fs1, cgp\<lparr>cg_blksfree := m1, cg_clustersfree := x, cg_clustersum := y\<rparr>)"
      "acct (nat (cg_cgx cgp)) (cg_cs cgp) (cg_cs cgp) fs fs1"
    using clusteracct_frame[of fs "cgp\<lparr>cg_blksfree := m1\<rparr>" h "- 1" "nat (cg_cgx cgp)" "cg_cs cgp"] by auto
  define cgp1 where "cgp1 = cgp\<lparr>cg_blksfree := m1, cg_clustersfree := x, cg_clustersum := y\<rparr>"
  obtain fs2 cgp2 where an: "add_nbfree (- 1) (fs1, cgp1) = (fs2, cgp2)" by fastforce
  have cgp2: "cgp2 = cgp1\<lparr>cg_cs := (cg_cs cgp)\<lparr>cs_nbfree := cs_nbfree (cg_cs cgp) - 1\<rparr>\<rparr>"
    and "acct (nat (cg_cgx cgp)) (cg_cs cgp) (cg_cs cgp2) fs1 fs2"
    using acct_nbfree[of "- 1" fs1 cgp1 fs2 cgp2] an by (auto simp: cgp1_def)
  then have a2: "acct (nat (cg_cgx cgp)) (cg_cs cgp) (cg_cs cgp2) fs (set_fmod fs2)"
    using acct_trans[OF ca(2)] acct_fmod by blast
  note geo = geom_eqD[OF acct_geom[OF a2]]
  have b: "blk_bits f m h = replicate f True" "blk_bits f m1 h = replicate f False"
    using assms(6) m1(3) unfolding full_blk blk_bits_all by auto
  have fr1: "free_of m1 = free_of m - {h * f..<h * f + f}"
    using free_of_agree[OF m1(2) _ hf f(3), of "\<lambda>_. False"] m1(3) by auto
  define cgp3 where "cgp3 = cgp2\<lparr>cg_blksfree := set_frags m1 (h * f + n) (f - n)\<rparr>"
  obtain fs4 cgp4 where af: "add_nffree (int (f - n)) (set_fmod fs2, cgp3) = (fs4, cgp4)" by fastforce
  have cgp4: "cgp4 = cgp3\<lparr>cg_cs := (cg_cs cgp2)\<lparr>cs_nffree := cs_nffree (cg_cs cgp2) + int (f - n)\<rparr>\<rparr>"
    and "acct (nat (cg_cgx cgp)) (cg_cs cgp2) (cg_cs cgp4) (set_fmod fs2) fs4"
    using acct_nffree[of "int (f - n)" "set_fmod fs2" cgp3 fs4 cgp4] af by (auto simp: cgp3_def cgp2 cgp1_def)
  then have a4: "acct (nat (cg_cgx cgp)) (cg_cs cgp) (cg_cs cgp4) fs (set_fmod fs4)"
    using acct_trans[OF a2] acct_fmod by blast
  have tb: "take_block fs cgp (h * f) sz = (if n \<noteq> f
      then Inr (cgbase fs (cg_cgx cgp) + int (h * f), set_fmod fs4, cgp4\<lparr>cg_frsum := add_at (cg_frsum cgp) (f - n) 1\<rparr>)
      else Inr (cgbase fs (cg_cgx cgp) + int (h * f), set_fmod fs2, cgp2))"
  proof -
    have "nat (dtogd fs (cgbase fs (cg_cgx cgp) + int (h * f))) = h * f"
      using fpg by (simp add: dtogd_def cgbase_def nat_mult_distrib)
    moreover have "cg_blksfree cgp2 = m1" "cg_cgx cgp2 = cg_cgx cgp" "cg_frsum cgp4 = cg_frsum cgp"
      by (simp_all add: cgp2 cgp1_def cgp3_def cgp4)
    ultimately show ?thesis
      unfolding take_block_def blk assms(4)[symmetric] m1(1) sum.case Let_def ca(1) case_prod_conv cgp1_def[symmetric] an geo
        assms(7) f(2) nat_int cgp3_def[symmetric] af
      by (simp add: cgp3_def[symmetric] af del: of_nat_mult)
  qed
  show ?thesis
  proof (cases "n = f")
    case True
    have "cg_ok fs cgp2"
      by (rule cg_ok_block[OF assms(2) _ _ assms(3) f(3), of h]) (use m1(2) assms(5) f(3) k(2,4-6,8) fr1 in
        \<open>simp_all add: cgp2 cgp1_def b block_values runs_full runs_empty assms(4)[symmetric]\<close>)
    then show ?thesis using tb True a2 sub fr1 by (simp add: group_step_defs cgp2 cgp1_def)
  next
    case False
    then have n: "n < f" using assms(9) by simp
    let ?m = "set_frags m1 (h * f + n) (f - n)" and ?cgp = "cgp4\<lparr>cg_frsum := add_at (cg_frsum cgp) (f - n) 1\<rparr>"
    have f8: "f \<le> 8" using f(1) by auto
    have l1: "length m1 = length m" using m1(2) by (simp add: agree_off_def)
    have hn: "h * f + n + (f - n) \<le> 8 * length m1" using hf n l1 by simp
    have h1: "h < nblocks f m1" using assms(5) l1 by (simp add: nblocks_def)
    have ag: "agree_off f h m ?m" using agree_trans[OF m1(2) clr_frags_agree(2)[OF f(1) h1]] n by simp
    have bm: "blk_bits f ?m h = replicate n False @ replicate (f - n) True"
      by (rule nth_equalityI) (use m1(3) n hn in \<open>auto simp: isset_set_frags nth_append\<close>)
    have fr: "free_of ?m = free_of m - {h * f..<h * f + n}"
      unfolding free_of_set[OF hn] fr1 using sub n by auto
    have "cg_ok fs ?cgp"
      by (rule cg_ok_block[OF assms(2) _ _ assms(3) f(3), of h]) (use ag assms(5,8) f(3) n f8 k(2,4-6,8) fr in
        \<open>simp_all add: cgp4 cgp3_def cgp2 cgp1_def b bm block_values runs_full runs_rest add_at_nth assms(4)[symmetric]\<close>)
    then show ?thesis using tb False a4 sub fr n by (auto simp: group_step_defs cgp4 cgp3_def cgp2 cgp1_def)
  qed
qed

text \<open>Where a search starts, and the block a preference falls into.\<close>

lemma howmany_8: "0 \<le> x \<Longrightarrow> x < n \<Longrightarrow> nat (x div 8) < nat (howmany n 8)"
  unfolding howmany_def by linarith

lemma map_start_ok: "fs_ok fs \<Longrightarrow> cg_ok fs cgp \<Longrightarrow>
    0 \<le> map_start fs cgp b \<and> nat (map_start fs cgp b div 8) < length (cg_blksfree cgp)"
  using cg_okD(1,5,6)[of fs cgp] fs_okD(2)[of fs] howmany_8[of "dtogd fs b" "fs_fpg fs"]
  by (auto simp: map_start_def dtogd_def)

lemma pref_block:
  assumes "fs_ok fs" "f = nat (fs_frag fs)" "length m = nat (howmany (fs_fpg fs) 8)"
  obtains h where "nat (dtogd fs (blknum fs b)) = h * f" "nat (fragstoblks fs (int (h * f))) = h" "h < nblocks f m"
proof -
  note g = fs_okD[OF assms(1)]
  have f: "f \<in> {1, 2, 4, 8}" "fs_frag fs = int f" "0 < f" using frag_nat[OF g(1) assms(2)] by auto
  obtain q where q: "fs_fpg fs = int f * q" using g(3) f(2) by (auto elim: dvdE)
  have q0: "0 < q" using g(2) f(3) unfolding q by (simp add: zero_less_mult_iff)
  define a where "a = b div int f"
  have e: "dtogd fs (blknum fs b) = int f * (a mod q)"
    unfolding dtogd_def macros_div(10)[OF g(1)] f(2) q a_def by (simp only: mult_mod_right mult.commute)
  define h where "h = nat (a mod q)"
  have ih: "int h = a mod q" using q0 by (simp add: h_def)
  have "nat (dtogd fs (blknum fs b)) = h * f" unfolding e ih[symmetric] by (simp add: nat_mult_distrib)
  moreover have "nat (fragstoblks fs (int (h * f))) = h" using f macros_div(7)[OF g(1)] by simp
  moreover have "h < nblocks f m"
  proof -
    have "int h < q" unfolding ih using q0 by simp
    then have "int (h * f) < fs_fpg fs" unfolding q using f(3) by (simp add: mult.commute)
    also have "fs_fpg fs \<le> 8 * int (length m)" unfolding assms(3) howmany_def using g(2) by linarith
    finally have "h * f < length m * 8" by linarith
    also have "length m * 8 = nblocks f m * f" using f(1) by (auto simp: nblocks_def)
    finally show ?thesis by simp
  qed
  ultimately show thesis by (rule that)
qed

lemma full_run: "0 < f \<Longrightarrow> full (blk_bits f m h) \<Longrightarrow> f \<in> set (run_lengths 0 (blk_bits f m h))"
  using full_replicate[of "blk_bits f m h"] run_lengths_tail[of 0 f] by simp

lemma run_full: "run_at (blk_bits f m h) f p \<Longrightarrow> p = 0 \<and> full (blk_bits f m h)"
  by (auto simp: run_at_def full_def in_set_conv_nth)

lemma group_step_rotors [simp]:
  "group_step (fs, cgp\<lparr>cg_frotor := fr\<rparr>) x = group_step (fs, cgp) x" "group_step (fs, cgp\<lparr>cg_rotor := r\<rparr>) x = group_step (fs, cgp) x"
  by (cases x; simp add: group_step_defs)+

lemma cg_ok_rotors: "cg_ok fs cgp \<Longrightarrow> 0 \<le> fr \<Longrightarrow> nat (fr div 8) < length (cg_blksfree cgp) \<Longrightarrow> cg_ok fs (cgp\<lparr>cg_frotor := fr\<rparr>)"
  "cg_ok fs cgp \<Longrightarrow> 0 \<le> r \<Longrightarrow> cg_ok fs (cgp\<lparr>cg_rotor := r\<rparr>)"
  by (auto simp: cg_ok_def)

lemma alloccgblk_spec:
  assumes "scan_function (e_scanc E)" "fs_ok fs" "cg_ok fs cgp" "f = nat (fs_frag fs)" "m = cg_blksfree cgp"
    "cs_nbfree (cg_cs cgp) \<noteq> 0" "numfrags fs sz = int n" "1 \<le> n" "n \<le> f" "0 \<le> cg_cgx cgp"
  shows "\<exists>p fs' cgp'. ffs_alloccgblk E fs cgp bpref sz = Inr (cgbase fs (cg_cgx cgp) + int p, fs', cgp') \<and>
    group_step (fs, cgp) (fs', cgp') \<and> {p..<p + n} \<subseteq> free_of m \<and> free_of (cg_blksfree cgp') = free_of m - {p..<p + n}"
proof -
  note g = fs_okD[OF assms(2)] and k = cg_okD[OF assms(3), folded assms(5)]
  have f: "f \<in> {1, 2, 4, 8}" "fs_frag fs = int f" "0 < f" using frag_nat[OF g(1) assms(4)] by auto
  define bp where "bp = (if bpref = 0 then cgbase fs (cg_cgx cgp) + cg_rotor cgp + fs_frag fs
          else if dtog fs bpref \<noteq> cg_cgx cgp then
            (if bpref < cgdata fs (dtog fs bpref) then cgmeta fs (cg_cgx cgp) else cgdata fs (cg_cgx cgp))
          else bpref)"
  obtain h where h: "nat (dtogd fs (blknum fs bp)) = h * f" "nat (fragstoblks fs (int (h * f))) = h" "h < nblocks f m"
    using pref_block[OF assms(2,4) k(1)] by blast
  note isb = isblock_spec(1)[OF g(1) assms(4), of m h, folded full_blk]
  note tb = take_block_spec[OF assms(2) _ assms(4) _ _ _ assms(7-9)]
  note unf = ffs_alloccgblk_def Let_def bp_def[symmetric] h(1,2) assms(5)[symmetric] isb sum.case
  show ?thesis
  proof (cases "full (blk_bits f m h)")
    case True
    then show ?thesis unfolding unf using tb[OF assms(3,5) h(3) _ assms(10)] by (auto simp del: of_nat_mult)
  next
    case False
    have "\<exists>h < nblocks f m. f \<in> set (run_lengths 0 (blk_bits f m h))"
      using counts_block_ex[OF k(3)[folded assms(4)] assms(6)] full_run[OF f(3)] by blast
    then obtain h' p fr where s: "ffs_mapsearch E fs cgp bp f = Inr (int (h' * f + p), cgp\<lparr>cg_frotor := fr\<rparr>)"
        "h' < nblocks f m" "run_at (blk_bits f m h') f p" "0 \<le> fr" "nat (fr div 8) < length m"
      using mapsearch_finds[OF assms(1) g(1) assms(4) _ order_refl k(1) assms(5), of bp] map_start_ok[OF assms(2,3), of bp]
        f(3) assms(5) by (metis One_nat_def Suc_leI)
    have p: "p = 0" "full (blk_bits f m h')" using run_full[OF s(3)] by auto
    let ?cgp = "if dtogd fs (cgdata fs (cg_cgx cgp)) \<le> int (h' * f) then cgp\<lparr>cg_frotor := fr, cg_rotor := int (h' * f)\<rparr> else cgp\<lparr>cg_frotor := fr\<rparr>"
    have ok: "cg_ok fs ?cgp" using assms(3,5) s(4,5) by (simp add: cg_ok_rotors)
    have mm: "m = cg_blksfree ?cgp" "cg_cgx ?cgp = cg_cgx cgp" using assms(5) by simp_all
    obtain fs' cgp' where r: "take_block fs ?cgp (h' * f) sz = Inr (cgbase fs (cg_cgx ?cgp) + int (h' * f), fs', cgp')"
      "group_step (fs, ?cgp) (fs', cgp')" "{h' * f..<h' * f + n} \<subseteq> free_of m" "free_of (cg_blksfree cgp') = free_of m - {h' * f..<h' * f + n}"
      using tb[OF ok mm(1) s(2) p(2)] assms(10) mm(2) by (metis (no_types, lifting))
    have "group_step (fs, cgp) (fs', cgp')" using r(2) by (simp split: if_splits)
    moreover have "ffs_alloccgblk E fs cgp bpref sz = take_block fs ?cgp (h' * f) sz"
      unfolding unf using False s(1) p(1) assms(4) by (simp del: of_nat_mult)
    ultimately show ?thesis using r(1,3,4) unfolding mm(2) by (auto simp del: of_nat_mult)
  qed
qed

end
