(* ===== verification/Ddfs_Space.thy ===== *)
theory Ddfs_Space
  imports Ddfs_Group
begin

text \<open>
  Allocation, extension and freeing of fragments against the set of free fragments of the whole file
  system. The invariant of the state is that every group's summary, the copies of the summaries in the
  superblock and its totals agree with the free maps.
\<close>

section \<open>Fragments that fit\<close>

text \<open>\<open>n\<close> consecutive free fragments within one block.\<close>

definition fits :: "nat \<Rightarrow> byte list \<Rightarrow> nat \<Rightarrow> bool" where
  "fits f m n \<longleftrightarrow> (\<exists>h < nblocks f m. \<exists>p. p + n \<le> f \<and> (\<forall>i < n. isset m (h * f + p + i)))"

lemma extend_run:
  assumes "0 < n" "p + n \<le> length bs" "\<forall>i < n. bs ! (p + i)"
  shows "\<exists>k q. n \<le> k \<and> run_at bs k q"
  using assms
proof (induction "length bs - n" arbitrary: n p rule: less_induct)
  case less
  show ?case
  proof (cases "run_at bs n p")
    case False
    then consider "0 < p" "bs ! (p - 1)" | "p + n < length bs" "bs ! (p + n)"
      using less.prems unfolding run_at_def by force
    then show ?thesis
    proof cases
      case 1
      have "\<forall>i < Suc n. bs ! (p - 1 + i)"
      proof (intro allI impI)
        fix i assume "i < Suc n"
        then show "bs ! (p - 1 + i)" using 1 less.prems(3) by (cases i) (auto dest!: spec[of _ "i - 1"])
      qed
      moreover have "length bs - Suc n < length bs - n" "p - 1 + Suc n \<le> length bs" using 1(1) less.prems(1,2) by linarith+
      ultimately show ?thesis using less.hyps[of "Suc n" "p - 1"] by (meson Suc_leD zero_less_Suc)
    next
      case 2
      then have "\<forall>i < Suc n. bs ! (p + i)" using less.prems(3) by (auto simp: less_Suc_eq)
      moreover have "length bs - Suc n < length bs - n" "p + Suc n \<le> length bs" using 2(1) less.prems(1) by linarith+
      ultimately show ?thesis using less.hyps[of "Suc n" p] by (meson Suc_leD zero_less_Suc)
    qed
  qed auto
qed

lemma fits_run: "0 < n \<Longrightarrow> fits f m n \<longleftrightarrow> (\<exists>h < nblocks f m. \<exists>k \<ge> n. k \<in> set (run_lengths 0 (blk_bits f m h)))"
proof -
  assume n: "0 < n"
  have "(\<exists>p. p + n \<le> f \<and> (\<forall>i < n. isset m (h * f + p + i))) \<longleftrightarrow> (\<exists>k \<ge> n. k \<in> set (run_lengths 0 (blk_bits f m h)))" for h
  proof
    assume "\<exists>p. p + n \<le> f \<and> (\<forall>i < n. isset m (h * f + p + i))"
    then obtain p where "p + n \<le> f" "\<forall>i < n. blk_bits f m h ! (p + i)" by (auto simp: add.assoc)
    then show "\<exists>k \<ge> n. k \<in> set (run_lengths 0 (blk_bits f m h))"
      using extend_run[OF n, of p "blk_bits f m h"] n in_run_lengths by (metis length_blk_bits less_le_trans)
  next
    assume "\<exists>k \<ge> n. k \<in> set (run_lengths 0 (blk_bits f m h))"
    then obtain k q where "n \<le> k" "run_at (blk_bits f m h) k q" using n in_run_lengths by (metis less_le_trans)
    then show "\<exists>p. p + n \<le> f \<and> (\<forall>i < n. isset m (h * f + p + i))"
      by (intro exI[of _ q]) (auto simp: run_at_def add.assoc)
  qed
  then show ?thesis unfolding fits_def by simp
qed

lemma find_allocsiz_spec:
  "i \<le> find_allocsiz fl i n \<and> find_allocsiz fl i n \<le> i + n \<and>
   (find_allocsiz fl i n < i + n \<longrightarrow> fl ! find_allocsiz fl i n \<noteq> 0) \<and>
   (\<forall>k. i \<le> k \<and> k < find_allocsiz fl i n \<longrightarrow> fl ! k = 0)"
proof (induction fl i n rule: find_allocsiz.induct)
  case (2 fl i n)
  have "fl ! k = 0" if "fl ! i = 0" "i \<le> k" "k < find_allocsiz fl (Suc i) n" for k
    using 2 that by (cases "k = i") auto
  then show ?case using 2 by auto
qed auto

text \<open>A group in which nothing fits has no free block and no run of the size or above, and conversely.\<close>

lemma counts_fits:
  assumes "counts_ok f m cs frsum" "0 < n" "n \<le> f"
  shows "fits f m n \<longleftrightarrow> cs_nbfree cs \<noteq> 0 \<or> (\<exists>k. n \<le> k \<and> k < f \<and> frsum ! k \<noteq> 0)"
proof
  assume "fits f m n"
  then obtain h k where h: "h < nblocks f m" "n \<le> k" "k \<in> set (run_lengths 0 (blk_bits f m h))"
    using fits_run[OF assms(2)] by blast
  show "cs_nbfree cs \<noteq> 0 \<or> (\<exists>k. n \<le> k \<and> k < f \<and> frsum ! k \<noteq> 0)"
  proof (cases "k < f")
    case True
    have "1 \<le> k" using h(2) assms(2) by simp
    then have "frsum ! k \<noteq> 0" using counts_no_run[OF assms(1) _ True _ h(1)] h(3) by blast
    then show ?thesis using h(2) True by blast
  next
    case False
    obtain q where q: "run_at (blk_bits f m h) k q" using h(2,3) assms(2) in_run_lengths by (metis less_le_trans)
    then have "q + k \<le> f" unfolding run_at_def length_blk_bits by (rule conjunct1)
    then have "k = f" using False by simp
    then have "full (blk_bits f m h)" using q run_full by blast
    then show ?thesis using counts_none[OF assms(1) _ h(1)] by blast
  qed
next
  assume "cs_nbfree cs \<noteq> 0 \<or> (\<exists>k. n \<le> k \<and> k < f \<and> frsum ! k \<noteq> 0)"
  then show "fits f m n"
  proof
    assume "cs_nbfree cs \<noteq> 0"
    then obtain h where "h < nblocks f m" "full (blk_bits f m h)" using counts_block_ex[OF assms(1)] by blast
    then show ?thesis using full_run[of f m h] assms(2,3) unfolding fits_run[OF assms(2)] by (meson less_le_trans)
  next
    assume "\<exists>k. n \<le> k \<and> k < f \<and> frsum ! k \<noteq> 0"
    then obtain k where "n \<le> k" "k < f" "frsum ! k \<noteq> 0" by blast
    moreover from this have "1 \<le> k" using assms(2) by simp
    ultimately show ?thesis using counts_run_ex[OF assms(1), of k] unfolding fits_run[OF assms(2)] by blast
  qed
qed

section \<open>Taking part of a run\<close>

lemma runs_pos: "run_at bs k p \<Longrightarrow> 0 < k \<Longrightarrow> 0 < runs bs k"
  using in_run_lengths[of k bs] count_list_0_iff[of bs] unfolding runs_def by (metis count_list_0_iff gr0I)

text \<open>Fragments \<open>q\<close> to \<open>q + j\<close> of block \<open>h\<close> start a run of \<open>k\<close> and are taken from it.\<close>

lemma take_run_ok:
  assumes "cg_ok fs cgp" "f = nat (fs_frag fs)" "f \<in> {1, 2, 4, 8}" "m = cg_blksfree cgp" "h < nblocks f m"
    "run_at (blk_bits f m h) k q" "0 < j" "j \<le> k" "k < f" "m' = clr_frags m (h * f + q) j"
    "frsum = (if j \<noteq> k then add_at (add_at (cg_frsum cgp) k (- 1)) (k - j) 1 else add_at (cg_frsum cgp) k (- 1))"
  shows "cg_ok fs (cgp\<lparr>cg_blksfree := m', cg_frsum := frsum, cg_cs := (cg_cs cgp)\<lparr>cs_nffree := cs_nffree (cg_cs cgp) - int j\<rparr>\<rparr>)"
    and "{h * f + q..<h * f + q + j} \<subseteq> free_of m" "free_of m' = free_of m - {h * f + q..<h * f + q + j}"
proof -
  note c = cg_okD[OF assms(1), folded assms(4)]
  have f0: "0 < f" "f \<le> 8" using assms(3) by auto
  have qk: "q + k \<le> f" using assms(6) by (simp add: run_at_def)
  have in_map: "h * f + f \<le> 8 * length m" by (rule block_in_map[OF assms(3,5)])
  then have hq: "h * f + q + j \<le> 8 * length m" using qk assms(8) by simp
  have ag: "agree_off f h m m'" using clr_frags_agree(1)[OF assms(3,5), of q j] qk assms(8,10) by simp
  show sub: "{h * f + q..<h * f + q + j} \<subseteq> free_of m"
  proof
    fix x assume "x \<in> {h * f + q..<h * f + q + j}"
    then obtain i where i: "x = h * f + (q + i)" "i < j" by (metis add.assoc add_less_cancel_left atLeastLessThan_iff le_Suc_ex)
    then have "blk_bits f m h ! (q + i)" "q + i < f" using assms(6,8) qk by (auto simp: run_at_def)
    then have "isset m (h * f + (q + i))" by simp
    then show "x \<in> free_of m" using i in_map qk assms(8) by (auto simp: free_of_def)
  qed
  show fr: "free_of m' = free_of m - {h * f + q..<h * f + q + j}" unfolding assms(10) by (rule free_of_clr[OF hq])
  have nth: "blk_bits f m' h ! i \<longleftrightarrow> blk_bits f m h ! i \<and> \<not> (q \<le> i \<and> i < q + j)" if "i < length (blk_bits f m h)" for i
    using that by (auto simp: assms(10) isset_clr_frags[OF hq])
  note t = take_from_run[OF assms(6) _ nth assms(7,8)]
  have nfull: "\<not> full (blk_bits f m h)" using run_not_full[OF assms(6)] assms(7-9) by simp
  show "cg_ok fs (cgp\<lparr>cg_blksfree := m', cg_frsum := frsum, cg_cs := (cg_cs cgp)\<lparr>cs_nffree := cs_nffree (cg_cs cgp) - int j\<rparr>\<rparr>)"
  proof (rule cg_ok_block[OF assms(1) _ _ assms(2) f0(1), of h])
    fix r :: nat assume r: "1 \<le> r" "r < f"
    have "frsum ! r = cg_frsum cgp ! r - of_bool (r = k) + of_bool (r = k - j)"
      using r assms(7-9,11) c(2) f0(2) by (simp add: add_at_nth)
    also have "\<dots> = cg_frsum cgp ! r - int (runs (blk_bits f m h) r) + int (runs (blk_bits f m' h) r)"
      using t(1)[of r] runs_pos[OF assms(6)] r assms(7,8) by (auto simp: of_nat_diff)
    finally show "cg_frsum (cgp\<lparr>cg_blksfree := m', cg_frsum := frsum, cg_cs := (cg_cs cgp)\<lparr>cs_nffree := cs_nffree (cg_cs cgp) - int j\<rparr>\<rparr>) ! r =
      cg_frsum cgp ! r - int (runs (blk_bits f (cg_blksfree cgp) h) r) +
      int (runs (blk_bits f (cg_blksfree (cgp\<lparr>cg_blksfree := m', cg_frsum := frsum, cg_cs := (cg_cs cgp)\<lparr>cs_nffree := cs_nffree (cg_cs cgp) - int j\<rparr>\<rparr>)) h) r)"
      using assms(4) by simp
  qed (use ag assms(5,11) c(2,4-6,8) fr nfull t(2,3,4) in \<open>simp_all add: assms(4)[symmetric] nb_def nf_def of_nat_diff\<close>)
qed

end
