(* ===== verification/Ddfs_Free.thy ===== *)
theory Ddfs_Free
  imports Ddfs_Space
begin

text \<open>
  The invariant of the allocator's state and its abstraction, the set of free fragments of the file
  system, with the effect on it of writing back one changed cylinder group. The operations of
  \<open>ddfs_alloc.c\<close> on a device that can be read are characterised by their effect on that set.
\<close>

section \<open>State and abstraction\<close>

definition free_set :: "alloc_st \<Rightarrow> int set" where
  "free_set st = {cgbase (a_fs st) (int c) + int j | c j. c < length (a_cgs st) \<and> j \<in> free_of (cg_blksfree (a_cgs st ! c))}"

definition group_ok :: "ddfs_fs \<Rightarrow> fs_summary_info \<Rightarrow> nat \<Rightarrow> cg \<Rightarrow> bool" where
  "group_ok fs si c cgp \<longleftrightarrow> cg_ok fs cgp \<and> cg_chkmagic cgp \<and> cg_cgx cgp = int c \<and> si_csp si ! c = cg_cs cgp"

definition alloc_inv :: "alloc_st \<Rightarrow> bool" where
  "alloc_inv st \<longleftrightarrow> fs_ok (a_fs st) \<and> length (a_cgs st) = nat (fs_ncg (a_fs st)) \<and>
     (case fs_si (a_fs st) of None \<Rightarrow> False
      | Some si \<Rightarrow> length (si_csp si) = length (a_cgs st) \<and> (\<forall>c < length (a_cgs st). group_ok (a_fs st) si c (a_cgs st ! c))) \<and>
     cst_nbfree (fs_cstotal (a_fs st)) = (\<Sum>cgp \<leftarrow> a_cgs st. cs_nbfree (cg_cs cgp)) \<and>
     cst_nffree (fs_cstotal (a_fs st)) = (\<Sum>cgp \<leftarrow> a_cgs st. cs_nffree (cg_cs cgp)) \<and> 0 \<notin> free_set st"

text \<open>A device whose groups can be read, with their check-hashes in order.\<close>

locale readable = scan_function "e_scanc E" for E :: alloc_env +
  assumes bread_ok: "e_bread_cg E c = 0"
    and ckhash_ok: "\<not> e_ckhash_bad E c"

definition loop_env :: alloc_env where
  "loop_env = \<lparr>e_scanc = scan_loop, e_bread_cg = (\<lambda>c. 0), e_ckhash_bad = (\<lambda>c. False),
     e_memcchr = (\<lambda>xs b n. index_of (\<lambda>x. x \<noteq> b) (take n xs)), e_reread_cg = (\<lambda>c. 0), e_gen = (\<lambda>blk i. 1 + int i)\<rparr>"

interpretation loop_env: readable loop_env
  by unfold_locales (simp_all add: loop_env_def loop.scanc)

lemma sum_list_put: "c < length xs \<Longrightarrow> (\<Sum>x \<leftarrow> xs[c := y]. g x) = (\<Sum>x \<leftarrow> xs. g x) - g (xs ! c) + (g y :: int)"
  by (induction xs arbitrary: c) (auto split: nat.splits)

lemma inv_group:
  assumes "alloc_inv st" "c < length (a_cgs st)"
  obtains si where "fs_si (a_fs st) = Some si" "length (si_csp si) = length (a_cgs st)" "cg_ok (a_fs st) (a_cgs st ! c)"
    "cg_chkmagic (a_cgs st ! c)" "cg_cgx (a_cgs st ! c) = int c" "si_csp si ! c = cg_cs (a_cgs st ! c)"
  using assms unfolding alloc_inv_def group_ok_def by (auto split: option.splits)

lemma inv_cs: "alloc_inv st \<Longrightarrow> c < length (a_cgs st) \<Longrightarrow> fs_cs (a_fs st) c = cg_cs (a_cgs st ! c)"
  by (erule inv_group, assumption) (simp add: fs_cs_def)

lemma group_step_marks:
  "group_step x (fs', cgp') \<Longrightarrow> group_step x (ACTIVECLEAR fs' d, cgp')" "group_step x (fs', cgp') \<Longrightarrow> group_step x (set_fmod fs', cgp')"
  by (cases x; simp add: group_step_defs acct_active acct_fmod)+

lemma group_step_write: "group_step x y \<Longrightarrow> group_write x y"
  by (simp add: group_step_def)

text \<open>Writing a group back.\<close>

lemma write_group:
  assumes "alloc_inv st" "c < length (a_cgs st)" "group_write (a_fs st, a_cgs st ! c) (fs', cgp')"
    "0 \<notin> free_set (bdwrite_cg c fs' cgp' st)"
  shows "alloc_inv (bdwrite_cg c fs' cgp' st)"
proof -
  obtain si where si: "fs_si (a_fs st) = Some si" "length (si_csp si) = length (a_cgs st)" "cg_cgx (a_cgs st ! c) = int c"
     "si_csp si ! c = cg_cs (a_cgs st ! c)" "cg_chkmagic (a_cgs st ! c)" using inv_group[OF assms(1,2)] by metis
  have gs: "acct c (cg_cs (a_cgs st ! c)) (cg_cs cgp') (a_fs st) fs'" "cg_ok (a_fs st) cgp'" "cg_cgx cgp' = int c"
    "cg_magic cgp' = cg_magic (a_cgs st ! c)" using assms(3) si(3) by (simp_all add: group_write_def)
  note geo = geom_eqD[OF acct_geom[OF gs(1)]]
  obtain si' where si': "fs_si fs' = Some si'" "si_csp si' = (si_csp si)[c := cg_cs cgp']"
    using gs(1) si(1,2,4) assms(2) unfolding acct_def by metis
  have "group_ok fs' si' d ((a_cgs st)[c := cgp'] ! d)" if "d < length (a_cgs st)" for d
  proof (cases "d = c")
    case True
    then show ?thesis using gs(2-4) si(2,5) si'(2) assms(2) by (simp add: group_ok_def geo cg_chkmagic_def)
  next
    case False
    moreover have "group_ok (a_fs st) si d (a_cgs st ! d)" using assms(1) si(1) that by (simp add: alloc_inv_def)
    ultimately show ?thesis using si'(2) by (simp add: group_ok_def geo)
  qed
  then show ?thesis using assms(1,2,4) si si' gs(1)
    unfolding alloc_inv_def bdwrite_cg_def by (auto simp: geo acct_def sum_list_put)
qed

lemma free_bounds:
  assumes "alloc_inv st" "c < length (a_cgs st)" "j \<in> free_of (cg_blksfree (a_cgs st ! c))"
  shows "int j < fs_fpg (a_fs st)"
  using cg_okD(7,8) assms by (metis inv_group le_trans less_le_trans)

lemma cgbase_inj:
  assumes "cgbase fs (int c) + int i = cgbase fs (int d) + int j" "int i < fs_fpg fs" "int j < fs_fpg fs"
  shows "c = d \<and> i = j"
proof -
  have "(cgbase fs (int c) + int i) div fs_fpg fs = int c" "(cgbase fs (int d) + int j) div fs_fpg fs = int d"
    using assms(2,3) by (simp_all add: cgbase_def)
  then have "c = d" using assms(1) by simp
  then show ?thesis using assms(1) by simp
qed

lemma free_set_put:
  assumes "alloc_inv st" "c < length (a_cgs st)" "geom_eq fs' (a_fs st)"
  shows "free_set (bdwrite_cg c fs' cgp' st) =
    (free_set st - (\<lambda>j. cgbase (a_fs st) (int c) + int j) ` {j. int j < fs_fpg (a_fs st)}) \<union>
    (\<lambda>j. cgbase (a_fs st) (int c) + int j) ` free_of (cg_blksfree cgp')"
proof -
  let ?b = "\<lambda>c j. cgbase (a_fs st) (int c) + int j"
  let ?R = "?b c ` {j. int j < fs_fpg (a_fs st)}"
  have off: "?b d j \<notin> ?R" if "d \<noteq> c" "d < length (a_cgs st)" "j \<in> free_of (cg_blksfree (a_cgs st ! d))" for d j
    using cgbase_inj[of "a_fs st" d j c] free_bounds[OF assms(1) that(2,3)] that(1) by blast
  have on: "?b c j \<in> ?R" if "j \<in> free_of (cg_blksfree (a_cgs st ! c))" for j
    using free_bounds[OF assms(1,2) that] by blast
  have old: "x \<in> free_set st - ?R \<longleftrightarrow>
      (\<exists>d j. d \<noteq> c \<and> x = ?b d j \<and> d < length (a_cgs st) \<and> j \<in> free_of (cg_blksfree (a_cgs st ! d)))" for x
  proof
    assume "x \<in> free_set st - ?R"
    then obtain d j where dj: "x = ?b d j" "d < length (a_cgs st)" "j \<in> free_of (cg_blksfree (a_cgs st ! d))" and R: "x \<notin> ?R"
      unfolding free_set_def by fast
    have "d \<noteq> c" using dj on R by metis
    then show "\<exists>d j. d \<noteq> c \<and> x = ?b d j \<and> d < length (a_cgs st) \<and> j \<in> free_of (cg_blksfree (a_cgs st ! d))"
      using dj by blast
  next
    assume "\<exists>d j. d \<noteq> c \<and> x = ?b d j \<and> d < length (a_cgs st) \<and> j \<in> free_of (cg_blksfree (a_cgs st ! d))"
    then obtain d j where dj: "d \<noteq> c" "x = ?b d j" "d < length (a_cgs st)" "j \<in> free_of (cg_blksfree (a_cgs st ! d))" by blast
    then have "x \<in> free_set st" unfolding free_set_def by blast
    then show "x \<in> free_set st - ?R" using off[OF dj(1,3,4)] dj(2) by simp
  qed
  have new: "x \<in> free_set (bdwrite_cg c fs' cgp' st) \<longleftrightarrow>
      (\<exists>d j. d \<noteq> c \<and> x = ?b d j \<and> d < length (a_cgs st) \<and> j \<in> free_of (cg_blksfree (a_cgs st ! d))) \<or> x \<in> ?b c ` free_of (cg_blksfree cgp')" for x
    unfolding free_set_def bdwrite_cg_def using assms(2) geom_eqD(6)[OF assms(3)]
    by (auto simp: nth_list_update split: if_splits)
  show ?thesis by (rule set_eqI) (simp only: Un_iff old new)
qed

lemma dtog_base: "int p < fs_fpg fs \<Longrightarrow> dtog fs (cgbase fs (int c) + int p) = int c"
  by (simp add: dtog_def cgbase_def)

text \<open>What a step on the blocks of one group leaves alone.\<close>

definition block_frame :: "alloc_st \<Rightarrow> alloc_st \<Rightarrow> bool" where
  "block_frame st st' \<longleftrightarrow> geom_eq (a_fs st') (a_fs st) \<and> length (a_cgs st') = length (a_cgs st) \<and> a_iblks st' = a_iblks st \<and>
     (\<forall>c < length (a_cgs st). same_inodes (a_cgs st ! c) (a_cgs st' ! c) \<and> cg_ndblk (a_cgs st' ! c) = cg_ndblk (a_cgs st ! c)) \<and>
     cst_nifree (fs_cstotal (a_fs st')) = cst_nifree (fs_cstotal (a_fs st)) \<and>
     cst_ndir (fs_cstotal (a_fs st')) = cst_ndir (fs_cstotal (a_fs st))"

lemma block_frame_refl [simp]: "block_frame st st"
  by (simp add: block_frame_def same_inodes_def)

lemma block_frame_trans: "block_frame a b \<Longrightarrow> block_frame b c \<Longrightarrow> block_frame a c"
  unfolding block_frame_def by (auto simp: same_inodes_def intro: geom_trans)

lemma write_frame:
  assumes "c < length (a_cgs st)" "group_step (a_fs st, a_cgs st ! c) (fs', cgp')"
  shows "block_frame st (bdwrite_cg c fs' cgp' st)"
  using assms by (auto simp: block_frame_def bdwrite_cg_def group_step_defs acct_def nth_list_update)

text \<open>\<open>takes st b n st'\<close>: fragments \<open>b\<close> to \<open>b + n\<close>, all free before, are the ones no longer free.\<close>

definition takes :: "alloc_st \<Rightarrow> int \<Rightarrow> nat \<Rightarrow> alloc_st \<Rightarrow> bool" where
  "takes st b n st' \<longleftrightarrow> alloc_inv st' \<and> block_frame st st' \<and> 0 < b \<and> {b..<b + int n} \<subseteq> free_set st \<and> free_set st' = free_set st - {b..<b + int n}"

lemma image_range: "(\<lambda>j. b + int j) ` {p..<p + n} = {b + int p..<b + int p + int n}"
proof
  show "{b + int p..<b + int p + int n} \<subseteq> (\<lambda>j. b + int j) ` {p..<p + n}"
  proof
    fix x assume "x \<in> {b + int p..<b + int p + int n}"
    then show "x \<in> (\<lambda>j. b + int j) ` {p..<p + n}" by (intro image_eqI[of _ _ "nat (x - b)"]) auto
  qed
qed auto

lemma inv_cgbase: "alloc_inv st \<Longrightarrow> 0 \<le> cgbase (a_fs st) (int c)"
  by (simp add: alloc_inv_def fs_ok_def cgbase_def)

lemma write_take:
  assumes "alloc_inv st" "c < length (a_cgs st)" "group_step (a_fs st, a_cgs st ! c) (fs', cgp')" "1 \<le> n"
    "{p..<p + n} \<subseteq> free_of (cg_blksfree (a_cgs st ! c))"
    "free_of (cg_blksfree cgp') = free_of (cg_blksfree (a_cgs st ! c)) - {p..<p + n}"
  shows "takes st (cgbase (a_fs st) (int c) + int p) n (bdwrite_cg c fs' cgp' st)"
proof -
  let ?b = "\<lambda>j. cgbase (a_fs st) (int c) + int j"
  have geo: "geom_eq fs' (a_fs st)" using assms(3) acct_geom by (auto simp: group_step_defs)
  have m: "?b ` free_of (cg_blksfree (a_cgs st ! c)) = free_set st \<inter> ?b ` {j. int j < fs_fpg (a_fs st)}" (is "?l = ?r")
  proof
    show "?l \<subseteq> ?r" using free_bounds[OF assms(1,2)] assms(2) by (auto simp: free_set_def)
    show "?r \<subseteq> ?l" using cgbase_inj[of "a_fs st" _ _ c] free_bounds[OF assms(1)] unfolding free_set_def by blast
  qed
  have inj: "inj ?b" by (rule injI) simp
  have sub: "{?b p..<?b p + int n} \<subseteq> ?l" using assms(5) unfolding image_range[symmetric] by (rule image_mono)
  have fr: "free_set (bdwrite_cg c fs' cgp' st) = free_set st - {?b p..<?b p + int n}"
    unfolding free_set_put[OF assms(1,2) geo] assms(6) image_set_diff[OF inj] image_range m using sub m by blast
  have "?b p \<in> free_set st" using sub m assms(4) by auto
  then have "?b p \<noteq> 0" using assms(1) by (auto simp: alloc_inv_def)
  then have "0 < ?b p" using inv_cgbase[OF assms(1), of c] by simp
  moreover have "0 \<notin> free_set (bdwrite_cg c fs' cgp' st)" using fr assms(1) by (simp add: alloc_inv_def)
  ultimately show ?thesis using write_group[OF assms(1,2) group_step_write[OF assms(3)]] write_frame[OF assms(2,3)] fr sub m
    unfolding takes_def by blast
qed

section \<open>Allocation within a group\<close>

lemma whole_frags:
  assumes "geometry_ok fs" "sz = int n * fs_fsize fs"
  shows "numfrags fs sz = int n" "sz = fs_bsize fs \<longleftrightarrow> int n = fs_frag fs"
  using macros_div(4)[OF assms(1)] geometryD(2,9)[OF assms(1)] unfolding assms(2) by auto

context readable
begin

lemma getcg_ok: "alloc_inv st \<Longrightarrow> c < length (a_cgs st) \<Longrightarrow> ffs_getcg E st c = Inr (a_cgs st ! c)"
  by (erule inv_group, assumption) (simp add: ffs_getcg_def bread_ok ckhash_ok)

lemma alloccg_block:
  assumes "alloc_inv st" "c < length (a_cgs st)" "f = nat (fs_frag (a_fs st))" "cs_nbfree (cg_cs (a_cgs st ! c)) \<noteq> 0"
    "rsize = int n * fs_fsize (a_fs st)" "1 \<le> n" "n \<le> f"
  shows "\<exists>b fs' cgp'. ffs_alloccgblk E (a_fs st) (a_cgs st ! c) bpref rsize = Inr (b, fs', cgp') \<and>
    dtog (a_fs st) b = int c \<and> takes st b n (bdwrite_cg c (ACTIVECLEAR fs' c) cgp' st)"
proof -
  have ok: "fs_ok (a_fs st)" "cg_ok (a_fs st) (a_cgs st ! c)" "cg_cgx (a_cgs st ! c) = int c"
    using assms(1) inv_group[OF assms(1,2)] by (auto simp: alloc_inv_def)
  note nf = whole_frags(1)[OF fs_okD(1)[OF ok(1)] assms(5)]
  obtain p fs' cgp' where r: "ffs_alloccgblk E (a_fs st) (a_cgs st ! c) bpref rsize = Inr (cgbase (a_fs st) (int c) + int p, fs', cgp')"
      "group_step (a_fs st, a_cgs st ! c) (fs', cgp')" "{p..<p + n} \<subseteq> free_of (cg_blksfree (a_cgs st ! c))"
      "free_of (cg_blksfree cgp') = free_of (cg_blksfree (a_cgs st ! c)) - {p..<p + n}"
    using alloccgblk_spec[OF scan_function_axioms ok(1,2) assms(3) refl assms(4) nf assms(6,7), of bpref] ok(3) by auto
  have "p \<in> free_of (cg_blksfree (a_cgs st ! c))" using r(3) assms(6) by auto
  then have "dtog (a_fs st) (cgbase (a_fs st) (int c) + int p) = int c"
    by (intro dtog_base free_bounds[OF assms(1,2)])
  then show ?thesis using r(1) write_take[OF assms(1,2) group_step_marks(1)[OF r(2)] assms(6) r(3,4)] by blast
qed

lemma alloccg_frags:
  assumes "alloc_inv st" "c < length (a_cgs st)" "f = nat (fs_frag (a_fs st))" "1 \<le> n"
    "n \<le> k" "k < f" "cg_frsum (a_cgs st ! c) ! k \<noteq> 0"
  shows "\<exists>bno cgp b fs' cgp'. ffs_mapsearch E (a_fs st) (a_cgs st ! c) bpref k = Inr (bno, cgp) \<and> 0 \<le> bno \<and>
    take_frags (a_fs st) c cgp (nat bno) n k = (b, fs', cgp') \<and> dtog (a_fs st) b = int c \<and> takes st b n (bdwrite_cg c fs' cgp' st)"
proof -
  let ?fs = "a_fs st" and ?cgp = "a_cgs st ! c"
  let ?m = "cg_blksfree ?cgp"
  have ok: "fs_ok ?fs" "cg_ok ?fs ?cgp" "cg_cgx ?cgp = int c"
    using assms(1) inv_group[OF assms(1,2)] by (auto simp: alloc_inv_def)
  note g = fs_okD[OF ok(1)] and d = cg_okD[OF ok(2)]
  have f: "f \<in> {1, 2, 4, 8}" using frag_nat[OF g(1) assms(3)] by auto
  have k: "1 \<le> k" "k \<le> f" using assms(4-6) by auto
  obtain h p fr where s: "ffs_mapsearch E ?fs ?cgp bpref k = Inr (int (h * f + p), ?cgp\<lparr>cg_frotor := fr\<rparr>)"
      "h < nblocks f ?m" "run_at (blk_bits f ?m h) k p" "0 \<le> fr" "nat (fr div 8) < length ?m"
    using mapsearch_finds[OF scan_function_axioms g(1) assms(3) k d(1) refl _ _ counts_run_ex[OF d(3)[folded assms(3)] k(1) assms(6,7)], of bpref]
      map_start_ok[OF ok(1,2), of bpref] by auto
  define cgp1 where "cgp1 = ?cgp\<lparr>cg_frotor := fr\<rparr>"
  define m' where "m' = clr_frags ?m (h * f + p) n"
  define frsum where "frsum = (if n \<noteq> k then add_at (add_at (cg_frsum ?cgp) k (- 1)) (k - n) 1 else add_at (cg_frsum ?cgp) k (- 1))"
  have ok1: "cg_ok ?fs cgp1" "?m = cg_blksfree cgp1" "cg_frsum cgp1 = cg_frsum ?cgp"
    using cg_ok_rotors(1)[OF ok(2) s(4,5)] by (simp_all add: cgp1_def)
  note t = take_run_ok[OF ok1(1) assms(3) f ok1(2) s(2,3) _ assms(5,6) m'_def, unfolded ok1(3), OF _ frsum_def]
  have n0: "0 < n" using assms(4) by simp
  define cgp2 where "cgp2 = cgp1\<lparr>cg_blksfree := m', cg_frsum := frsum\<rparr>"
  obtain fs' cgp' where an: "add_nffree (- int n) (?fs, cgp2) = (fs', cgp')" by fastforce
  have cgp': "cgp' = cgp2\<lparr>cg_cs := (cg_cs ?cgp)\<lparr>cs_nffree := cs_nffree (cg_cs ?cgp) - int n\<rparr>\<rparr>"
      and ac: "acct c (cg_cs ?cgp) (cg_cs cgp') ?fs fs'"
    using acct_nffree[of "- int n" ?fs cgp2 fs' cgp'] an ok(3) by (simp_all add: cgp2_def cgp1_def)
  have "group_step (?fs, ?cgp) (fs', cgp')"
    using ac t(1)[OF n0] ok(3) by (simp add: group_step_defs cgp' cgp2_def cgp1_def)
  moreover have "{h * f + p..<h * f + p + n} \<subseteq> free_of ?m" "free_of (cg_blksfree cgp') = free_of ?m - {h * f + p..<h * f + p + n}"
    using t(2,3)[OF n0] by (simp_all add: cgp' cgp2_def)
  ultimately have tk: "takes st (cgbase ?fs (int c) + int (h * f + p)) n (bdwrite_cg c (ACTIVECLEAR (set_fmod fs') c) cgp' st)"
    by (intro write_take[OF assms(1,2) _ assms(4)] group_step_marks)
  have "h * f + p \<in> free_of ?m" using t(2)[OF n0] n0 by auto
  then have dg: "dtog ?fs (cgbase ?fs (int c) + int (h * f + p)) = int c"
    by (intro dtog_base free_bounds[OF assms(1,2)])
  have "cgbase fs' = cgbase ?fs" using geom_eqD(6)[OF acct_geom[OF ac]] .
  then have "take_frags ?fs c cgp1 (h * f + p) n k = (cgbase ?fs (int c) + int (h * f + p), ACTIVECLEAR (set_fmod fs') c, cgp')"
    unfolding take_frags_def Let_def using an by (cases "n = k") (simp_all add: cgp2_def cgp1_def m'_def frsum_def)
  then show ?thesis using s(1) tk dg unfolding cgp1_def
    by (metis nat_int of_nat_0_le_iff)
qed

end

end
