(* ===== verification/Ddfs_Ops.thy ===== *)
theory Ddfs_Ops
  imports Ddfs_Free
begin

text \<open>
  \<open>ffs_alloccg\<close>, \<open>ffs_fragextend\<close> and \<open>ffs_blkfree_cg\<close> on a readable device: what they do to the set of
  free fragments on every branch, and that they keep the invariant of the state.
\<close>

section \<open>Allocating\<close>

context readable
begin

lemma alloccg_spec:
  assumes "alloc_inv st" "c < length (a_cgs st)" "f = nat (fs_frag (a_fs st))" "sz = int k * fs_fsize (a_fs st)" "1 \<le> k" "k \<le> f"
    "rsize = int n * fs_fsize (a_fs st)" "1 \<le> n" "n \<le> f" "rsize = sz \<or> k = f"
  shows "if fits f (cg_blksfree (a_cgs st ! c)) k
    then \<exists>b st'. ffs_alloccg E c bpref sz rsize st = Inr (b, st') \<and> dtog (a_fs st) b = int c \<and> takes st b n st'
    else ffs_alloccg E c bpref sz rsize st = Inr (0, st)"
proof -
  let ?fs = "a_fs st" and ?cgp = "a_cgs st ! c"
  have ok: "fs_ok ?fs" "cg_ok ?fs ?cgp" using assms(1) inv_group[OF assms(1,2)] by (auto simp: alloc_inv_def)
  note g = fs_okD(1)[OF ok(1)] and d = cg_okD[OF ok(2)]
  have f: "fs_frag ?fs = int f" "0 < f" using frag_nat[OF g assms(3)] by auto
  have cs: "fs_cs ?fs c = cg_cs ?cgp" by (rule inv_cs[OF assms(1,2)])
  have k0: "0 < k" using assms(5) by simp
  have bs: "sz = fs_bsize ?fs \<longleftrightarrow> k = f" and nk: "numfrags ?fs sz = int k"
    using whole_frags[OF g assms(4)] f(1) by auto
  have fit: "fits f (cg_blksfree ?cgp) k \<longleftrightarrow> cs_nbfree (cg_cs ?cgp) \<noteq> 0 \<or> (\<exists>i. k \<le> i \<and> i < f \<and> cg_frsum ?cgp ! i \<noteq> 0)"
    by (rule counts_fits[OF d(3)[folded assms(3)] k0 assms(6)])
  note blk = alloccg_block[OF assms(1-3) _ assms(7-9), of bpref]
  show ?thesis
  proof (cases "k = f")
    case True
    show ?thesis
    proof (cases "cs_nbfree (cg_cs ?cgp) = 0")
      case False
      then show ?thesis using blk[OF False] True bs fit getcg_ok[OF assms(1,2)] by (auto simp: ffs_alloccg_def cs)
    qed (use True bs fit in \<open>auto simp: ffs_alloccg_def cs\<close>)
  next
    case False
    then have kf: "k < f" and nk': "n = k" using assms(4,6,7,10) geometryD(2)[OF g] by auto
    define a where "a = find_allocsiz (cg_frsum ?cgp) k (f - k)"
    have a: "k \<le> a" "a \<le> f" "a < f \<longrightarrow> cg_frsum ?cgp ! a \<noteq> 0" "\<forall>i. k \<le> i \<and> i < a \<longrightarrow> cg_frsum ?cgp ! i = 0"
      using find_allocsiz_spec[of k "cg_frsum ?cgp" "f - k"] kf by (auto simp: a_def)
    have call: "ffs_alloccg E c bpref sz rsize st = (if a = f then
          (if cs_nbfree (cg_cs ?cgp) = 0 then Inr (0, st)
           else case ffs_alloccgblk E ?fs ?cgp bpref rsize of Inl e \<Rightarrow> Inl e
             | Inr (b, fs, cgp) \<Rightarrow> Inr (b, bdwrite_cg c (ACTIVECLEAR fs c) cgp st))
        else case ffs_mapsearch E ?fs ?cgp bpref a of Inl e \<Rightarrow> Inl e
          | Inr (bno, cgp) \<Rightarrow> if bno < 0 then Inr (0, st)
              else let (blkno, fs, cgp) = take_frags ?fs c cgp (nat bno) k a in Inr (blkno, bdwrite_cg c fs cgp st))"
      unfolding ffs_alloccg_def Let_def cs getcg_ok[OF assms(1,2)] sum.case bs nk f(1) nat_int a_def[symmetric]
      using False by (simp only: simp_thms if_False)
    show ?thesis
    proof (cases "a = f")
      case True
      have "fits f (cg_blksfree ?cgp) k \<longleftrightarrow> cs_nbfree (cg_cs ?cgp) \<noteq> 0" using fit a(4) True by auto
      then show ?thesis using blk True unfolding call by (auto split: if_splits)
    next
      case False
      then have af: "a < f" using a(2) by simp
      have "fits f (cg_blksfree ?cgp) k" using fit af a(1,3) by blast
      moreover obtain bno cgp b fs' cgp' where "ffs_mapsearch E ?fs ?cgp bpref a = Inr (bno, cgp)" "0 \<le> bno"
          "take_frags ?fs c cgp (nat bno) k a = (b, fs', cgp')" "dtog ?fs b = int c" "takes st b k (bdwrite_cg c fs' cgp' st)"
        using alloccg_frags[OF assms(1-3,5) a(1) af a(3)[rule_format, OF af], of bpref] by blast
      ultimately show ?thesis using False nk' unfolding call by simp
    qed
  qed
qed

end

section \<open>Extending a fragment\<close>

lemma first_clr_spec:
  "i \<le> first_clr m b i n \<and> first_clr m b i n \<le> i + n \<and> (\<forall>j. i \<le> j \<and> j < first_clr m b i n \<longrightarrow> isset m (b + j)) \<and>
   (first_clr m b i n < i + n \<longrightarrow> \<not> isset m (b + first_clr m b i n))"
proof (induction m b i n rule: first_clr.induct)
  case (2 m b i n)
  show ?case
  proof (cases "isclr m (b + i)")
    case False
    have "isset m (b + j)" if "i \<le> j" "j < first_clr m b (Suc i) n" for j
      using 2[OF False] that False by (cases "j = i") (auto simp: isclr_isset)
    then show ?thesis using 2[OF False] False by auto
  qed (auto simp: isclr_isset)
qed auto

lemma fragnum_group:
  assumes "fs_ok fs" "f = nat (fs_frag fs)"
  shows "fragnum fs (cgbase fs c + int (h * f + i)) = int (i mod f)"
proof -
  note g = fs_okD[OF assms(1)]
  have f: "fs_frag fs = int f" "0 < f" using frag_nat[OF g(1) assms(2)] by auto
  obtain r where r: "fs_fpg fs = int f * r" using g(3) f(1) by (auto elim: dvdE)
  have "cgbase fs c + int (h * f + i) = int i + int f * (r * c + int h)" unfolding cgbase_def r by (simp add: algebra_simps)
  then show ?thesis unfolding macros_div(9)[OF g(1)] f(1) by (simp only: mod_mult_self2 zmod_int)
qed

lemma dtogd_base: "int p < fs_fpg fs \<Longrightarrow> dtogd fs (cgbase fs c + int p) = int p"
  by (simp add: dtogd_def cgbase_def)

text \<open>The fragments from \<open>o1\<close> on, up to the first that is taken, are a run of the block.\<close>

lemma run_after:
  assumes "q + o1 \<le> f" "0 < o1" "\<not> isset m (h * f + (q + o1 - 1))" "o1 \<le> i" "q + i \<le> f"
    "\<And>j. o1 \<le> j \<Longrightarrow> j < i \<Longrightarrow> isset m (h * f + (q + j))" "q + i < f \<Longrightarrow> \<not> isset m (h * f + (q + i))"
  shows "run_at (blk_bits f m h) (i - o1) (q + o1)"
proof -
  have "blk_bits f m h ! (q + o1 + j)" if "j < i - o1" for j
    using assms(6)[of "o1 + j"] that assms(5) by (simp add: add.assoc)
  moreover have "q + i < f \<Longrightarrow> \<not> blk_bits f m h ! (q + i)" using assms(7) by simp
  moreover have "\<not> blk_bits f m h ! (q + o1 - 1)" using assms(1-3) by simp
  ultimately show ?thesis unfolding run_at_def using assms(1,2,4,5) by (auto simp: le_less)
qed

lemma nf_ge:
  assumes "p + n \<le> length bs" "\<forall>i < n. bs ! (p + i)" "\<not> full bs"
  shows "int n \<le> nf bs"
proof -
  have "take n (drop p bs) = replicate n True" using assms(1,2) by (intro nth_equalityI) auto
  then have "bs = take p bs @ replicate n True @ drop (p + n) bs" by (metis add.commute append_take_drop_id drop_drop)
  then have "filter id bs = filter id (take p bs) @ replicate n True @ filter id (drop (p + n) bs)"
    by (metis filter_append filter_replicate id_apply)
  then show ?thesis using assms(3) by (simp add: nf_def)
qed

lemma nf_nonneg: "0 \<le> nf bs"
  by (simp add: nf_def)

lemma counts_nf_ge:
  assumes "counts_ok f m cs frsum" "h < nblocks f m"
  shows "nf (blk_bits f m h) \<le> cs_nffree cs"
  using assms sum_nonneg_leq_bound[of "{..<nblocks f m}" "\<lambda>h. nf (blk_bits f m h)"] nf_nonneg
  by (metis (no_types, lifting) counts_ok_def finite_lessThan lessThan_iff member_le_sum Diff_iff)

context readable
begin

lemma fragextend_spec:
  assumes "alloc_inv st" "c < length (a_cgs st)" "f = nat (fs_frag (a_fs st))" "m = cg_blksfree (a_cgs st ! c)"
    "bprev = cgbase (a_fs st) (int c) + int (h * f + q)" "h < nblocks f m" "int (h * f + q) < fs_fpg (a_fs st)"
    "osize = int o1 * fs_fsize (a_fs st)" "nsize = int n1 * fs_fsize (a_fs st)" "1 \<le> o1" "o1 < n1" "n1 \<le> f" "q + o1 \<le> f"
    "\<not> isset m (h * f + (q + o1 - 1))"
  shows "if q + n1 \<le> f \<and> (\<forall>i. o1 \<le> i \<and> i < n1 \<longrightarrow> isset m (h * f + (q + i)))
    then \<exists>st'. ffs_fragextend E c bprev osize nsize st = Inr (bprev, st') \<and> takes st (bprev + int o1) (n1 - o1) st'
    else ffs_fragextend E c bprev osize nsize st = Inr (0, st)"
proof -
  let ?fs = "a_fs st" and ?cgp = "a_cgs st ! c"
  have ok: "fs_ok ?fs" "cg_ok ?fs ?cgp" "cg_cgx ?cgp = int c" using assms(1) inv_group[OF assms(1,2)] by (auto simp: alloc_inv_def)
  note g = fs_okD(1)[OF ok(1)] and d = cg_okD[OF ok(2), folded assms(4)]
  have f: "f \<in> {1, 2, 4, 8}" "fs_frag ?fs = int f" "0 < f" using frag_nat[OF g assms(3)] by auto
  have cs: "fs_cs ?fs c = cg_cs ?cgp" by (rule inv_cs[OF assms(1,2)])
  have nums: "numfrags ?fs nsize = int n1" "numfrags ?fs osize = int o1" "numfrags ?fs (nsize - osize) = int n1 - int o1"
  proof -
    have "nsize - osize = int (n1 - o1) * fs_fsize ?fs" using assms(8,9,11) by (simp add: of_nat_diff left_diff_distrib)
    from whole_frags(1)[OF g this] show "numfrags ?fs (nsize - osize) = int n1 - int o1" using assms(11) by (simp add: of_nat_diff)
  qed (rule whole_frags(1)[OF g] assms(8,9))+
  have q: "q < f" using assms(10,13) by simp
  have b1: "fragnum ?fs bprev = int q" unfolding assms(5) fragnum_group[OF ok(1) assms(3)] using q by simp
  have b2: "fragnum ?fs (bprev + int n1 - 1) = int ((q + (n1 - 1)) mod f)"
  proof -
    have "bprev + int n1 - 1 = cgbase ?fs (int c) + int (h * f + (q + (n1 - 1)))" using assms(5,11) by simp
    then show ?thesis by (simp only: fragnum_group[OF ok(1) assms(3)])
  qed
  have cross: "int ((q + (n1 - 1)) mod f) < int q \<longleftrightarrow> \<not> q + n1 \<le> f"
  proof (cases "q + n1 \<le> f")
    case False
    then have "(q + (n1 - 1)) mod f = q + (n1 - 1) - f" using assms(11,12) q by (simp add: mod_if)
    then show ?thesis using False assms(11,12) by simp
  qed (use assms(11) in simp)
  have bno: "nat (dtogd ?fs bprev) = h * f + q" unfolding assms(5) dtogd_base[OF assms(7)] by (rule nat_int)
  have base: "nat (int f - int q) = f - q" by simp
  define i0 where "i0 = first_clr m (h * f + q) o1 (n1 - o1)"
  have i0: "i0 < n1 \<longleftrightarrow> \<not> (\<forall>i. o1 \<le> i \<and> i < n1 \<longrightarrow> isset m (h * f + (q + i)))"
    using first_clr_spec[of o1 m "h * f + q" "n1 - o1"] assms(11) unfolding i0_def[symmetric] add.assoc by auto
  have few: "cs_nffree (cg_cs ?cgp) < int n1 - int o1 \<Longrightarrow> \<not> (q + n1 \<le> f \<and> (\<forall>i. o1 \<le> i \<and> i < n1 \<longrightarrow> isset m (h * f + (q + i))))"
  proof
    assume less: "cs_nffree (cg_cs ?cgp) < int n1 - int o1"
      and fr: "q + n1 \<le> f \<and> (\<forall>i. o1 \<le> i \<and> i < n1 \<longrightarrow> isset m (h * f + (q + i)))"
    have "\<not> full (blk_bits f m h)" using assms(10,13,14) unfolding full_blk by (intro notI) (auto dest: spec[of _ "q + o1 - 1"])
    moreover have "\<forall>i < n1 - o1. blk_bits f m h ! (q + o1 + i)" using fr by (auto simp: add.assoc)
    ultimately have "int (n1 - o1) \<le> nf (blk_bits f m h)" using fr assms(11) by (intro nf_ge[of "q + o1"]) auto
    then show False using counts_nf_ge[OF d(3)[folded assms(3)] assms(6)] less assms(11) by (simp add: of_nat_diff)
  qed
  note unf = ffs_fragextend_def Let_def cs nums b1 b2 cross bno getcg_ok[OF assms(1,2)] sum.case assms(4)[symmetric] nat_int
    f(2) base i0_def[symmetric]
  show ?thesis
  proof (cases "q + n1 \<le> f \<and> (\<forall>i. o1 \<le> i \<and> i < n1 \<longrightarrow> isset m (h * f + (q + i)))")
    case False
    then show ?thesis using i0 unfolding unf by auto
  next
    case True
    define i where "i = first_clr m (h * f + q) n1 (f - q - n1)"
    have i: "n1 \<le> i" "q + i \<le> f" "\<And>j. n1 \<le> j \<Longrightarrow> j < i \<Longrightarrow> isset m (h * f + (q + j))" "q + i < f \<Longrightarrow> \<not> isset m (h * f + (q + i))"
      using first_clr_spec[of n1 m "h * f + q" "f - q - n1"] True unfolding i_def[symmetric] add.assoc by auto
    have set: "isset m (h * f + (q + j))" if "o1 \<le> j" "j < i" for j
      using i(3)[of j] True that by (cases "n1 \<le> j") auto
    have r: "run_at (blk_bits f m h) (i - o1) (q + o1)"
      by (rule run_after[OF assms(13)]) (use i set assms(10,11,14) in \<open>auto simp del: add_diff_assoc\<close>)
    define m' where "m' = clr_frags m (h * f + (q + o1)) (n1 - o1)"
    define frsum where "frsum = (if n1 - o1 \<noteq> i - o1 then add_at (add_at (cg_frsum ?cgp) (i - o1) (- 1)) (i - o1 - (n1 - o1)) 1
      else add_at (cg_frsum ?cgp) (i - o1) (- 1))"
    have n: "0 < n1 - o1" "n1 - o1 \<le> i - o1" "i - o1 < f" "1 \<le> n1 - o1" using i(1,2) assms(10,11) q by auto
    note t = take_run_ok[OF ok(2) assms(3) f(1) assms(4,6) r n(1-3) m'_def frsum_def]
    define cgp2 where "cgp2 = ?cgp\<lparr>cg_frsum := frsum, cg_blksfree := m'\<rparr>"
    obtain fs' cgp' where an: "add_nffree (- int (n1 - o1)) (?fs, cgp2) = (fs', cgp')" by fastforce
    have cgp': "cgp' = cgp2\<lparr>cg_cs := (cg_cs ?cgp)\<lparr>cs_nffree := cs_nffree (cg_cs ?cgp) - int (n1 - o1)\<rparr>\<rparr>"
        and ac: "acct c (cg_cs ?cgp) (cg_cs cgp') ?fs fs'"
      using acct_nffree[of "- int (n1 - o1)" ?fs cgp2 fs' cgp'] an ok(3) by (simp_all add: cgp2_def)
    have "cgp2 = ?cgp\<lparr>cg_blksfree := m', cg_frsum := frsum\<rparr>" by (cases ?cgp) (simp add: cgp2_def)
    then have "group_step (?fs, ?cgp) (fs', cgp')" using ac t(1) ok(3) by (simp add: group_step_defs cgp')
    then have tk: "takes st (cgbase ?fs (int c) + int (h * f + (q + o1))) (n1 - o1) (bdwrite_cg c (ACTIVECLEAR (set_fmod fs') c) cgp' st)"
      using t(2,3) by (intro write_take[OF assms(1,2) _ n(4)] group_step_marks) (simp_all add: cgp' cgp2_def assms(4)[symmetric])
    have fs: "frsum = (if i \<noteq> n1 then add_at (add_at (cg_frsum ?cgp) (i - o1) (- 1)) (i - n1) 1 else add_at (cg_frsum ?cgp) (i - o1) (- 1))"
      using i(1) assms(11) by (auto simp: frsum_def)
    have "\<not> i0 < n1" "\<not> \<not> q + n1 \<le> f" "\<not> cs_nffree (cg_cs ?cgp) < int n1 - int o1" using True i0 few by blast+
    then have "ffs_fragextend E c bprev osize nsize st = Inr (bprev, bdwrite_cg c (ACTIVECLEAR (set_fmod fs') c) cgp' st)"
      unfolding unf i_def[symmetric] fs[symmetric] using an by (simp add: cgp2_def m'_def add.assoc)
    moreover have "cgbase ?fs (int c) + int (h * f + (q + o1)) = bprev + int o1" unfolding assms(5) by simp
    ultimately show ?thesis using True tk by metis
  qed
qed

end

end
