(* ===== verification/Ddfs_Release.thy ===== *)
theory Ddfs_Release
  imports Ddfs_Ops
begin

text \<open>
  \<open>ffs_blkfree_cg\<close>: giving back a block or some fragments of one adds exactly these fragments to the
  free ones, reassembling the block when it becomes complete; giving back what is free already is a
  panic.
\<close>

section \<open>Giving fragments back\<close>

text \<open>\<open>gives st b n st'\<close>: fragments \<open>b\<close> to \<open>b + n\<close>, none of them free before, are free now.\<close>

definition gives :: "alloc_st \<Rightarrow> int \<Rightarrow> nat \<Rightarrow> alloc_st \<Rightarrow> bool" where
  "gives st b n st' \<longleftrightarrow> alloc_inv st' \<and> block_frame st st' \<and> {b..<b + int n} \<inter> free_set st = {} \<and> free_set st' = free_set st \<union> {b..<b + int n}"

lemma free_set_group:
  assumes "alloc_inv st" "c < length (a_cgs st)" "int j < fs_fpg (a_fs st)"
  shows "cgbase (a_fs st) (int c) + int j \<in> free_set st \<longleftrightarrow> j \<in> free_of (cg_blksfree (a_cgs st ! c))"
proof
  assume "cgbase (a_fs st) (int c) + int j \<in> free_set st"
  then obtain d i where d: "cgbase (a_fs st) (int c) + int j = cgbase (a_fs st) (int d) + int i" "d < length (a_cgs st)"
      "i \<in> free_of (cg_blksfree (a_cgs st ! d))" unfolding free_set_def by blast
  then show "j \<in> free_of (cg_blksfree (a_cgs st ! c))"
    using cgbase_inj[OF d(1) assms(3) free_bounds[OF assms(1) d(2,3)]] by simp
qed (use assms(2) in \<open>auto simp: free_set_def\<close>)

lemma write_give:
  assumes "alloc_inv st" "c < length (a_cgs st)" "group_step (a_fs st, a_cgs st ! c) (fs', cgp')"
    "int (p + n) \<le> fs_fpg (a_fs st)" "{p..<p + n} \<inter> free_of (cg_blksfree (a_cgs st ! c)) = {}"
    "free_of (cg_blksfree cgp') = free_of (cg_blksfree (a_cgs st ! c)) \<union> {p..<p + n}" "0 < cgbase (a_fs st) (int c) + int p"
  shows "gives st (cgbase (a_fs st) (int c) + int p) n (bdwrite_cg c fs' cgp' st)"
proof -
  let ?b = "\<lambda>j. cgbase (a_fs st) (int c) + int j"
  let ?R = "?b ` {j. int j < fs_fpg (a_fs st)}"
  have geo: "geom_eq fs' (a_fs st)" using assms(3) acct_geom by (auto simp: group_step_defs)
  have m: "?b ` free_of (cg_blksfree (a_cgs st ! c)) = free_set st \<inter> ?R"
    using free_set_group[OF assms(1,2)] free_bounds[OF assms(1,2)] by blast
  have dis: "{?b p..<?b p + int n} \<inter> free_set st = {}"
  proof -
    have "?b j \<notin> free_set st" if "j \<in> {p..<p + n}" for j
      using free_set_group[OF assms(1,2), of j] that assms(4,5) by auto
    then show ?thesis unfolding image_range[symmetric] by blast
  qed
  have fr: "free_set (bdwrite_cg c fs' cgp' st) = free_set st \<union> {?b p..<?b p + int n}"
    unfolding free_set_put[OF assms(1,2) geo] assms(6) image_Un image_range m by blast
  have "0 \<notin> free_set (bdwrite_cg c fs' cgp' st)" using fr assms(1,7) by (auto simp: alloc_inv_def)
  then show ?thesis using write_group[OF assms(1,2) group_step_write[OF assms(3)]] write_frame[OF assms(2,3)] fr dis
    unfolding gives_def by blast
qed

text \<open>The counts of a block that gets fragments back.\<close>

lemma count_add:
  assumes "length bs' = length bs" "\<And>i. i < length bs \<Longrightarrow> bs' ! i \<longleftrightarrow> bs ! i \<or> (q \<le> i \<and> i < q + n)"
    "q + n \<le> length bs" "\<And>i. q \<le> i \<Longrightarrow> i < q + n \<Longrightarrow> \<not> bs ! i"
  shows "length (filter id bs') = length (filter id bs) + n"
proof -
  have "{i. i < length bs' \<and> id (bs' ! i)} = {i. i < length bs \<and> id (bs ! i)} \<union> {q..<q + n}"
    using assms(1-3) by auto
  moreover have "{i. i < length bs \<and> id (bs ! i)} \<inter> {q..<q + n} = {}" using assms(4) by auto
  ultimately show ?thesis unfolding length_filter_conv_card by (simp add: card_Un_disjoint)
qed

lemma give_counts:
  assumes "length bs' = length bs" "\<And>i. i < length bs \<Longrightarrow> bs' ! i \<longleftrightarrow> bs ! i \<or> (q \<le> i \<and> i < q + n)"
    "q + n \<le> length bs" "\<And>i. q \<le> i \<Longrightarrow> i < q + n \<Longrightarrow> \<not> bs ! i" "0 < n"
  shows "nb bs = 0" "nb bs' = of_bool (full bs')" "nf bs' = nf bs + int n - (if full bs' then int (length bs) else 0)"
proof -
  have nfl: "\<not> full bs" using assms(3-5) unfolding full_def by (metis add_strict_increasing in_set_conv_nth le_refl less_le_trans add.commute le_add1 less_add_same_cancel1)
  then show "nb bs = 0" by (simp add: nb_def)
  show "nb bs' = of_bool (full bs')" by (simp add: nb_def)
  have c: "length (filter id bs') = length (filter id bs) + n" by (rule count_add[OF assms(1-4)])
  have "full bs' \<Longrightarrow> int (length (filter id bs)) + int n = int (length bs)" using c assms(1) by (simp add: full_def flip: of_nat_add)
  then show "nf bs' = nf bs + int n - (if full bs' then int (length bs) else 0)"
    using c nfl by (simp add: nf_def)
qed

text \<open>The size summary after the counts of the old block have been taken out and those of the new one put in.\<close>

lemma fragacct_twice:
  assumes "geometry_ok fs" "f = nat (fs_frag fs)" "length fl = 8"
  shows "length (ffs_fragacct fs (blkmap fs cp' (h * f)) (ffs_fragacct fs (blkmap fs cp (h * f)) fl (- 1)) 1) = 8"
    and "1 \<le> k \<Longrightarrow> k < f \<Longrightarrow>
      ffs_fragacct fs (blkmap fs cp' (h * f)) (ffs_fragacct fs (blkmap fs cp (h * f)) fl (- 1)) 1 ! k =
      fl ! k - int (runs (blk_bits f cp h) k) + int (runs (blk_bits f cp' h) k)"
proof -
  have f: "f \<le> 8" using frag_nat[OF assms(1,2)] by auto
  note s = fragacct_spec[OF assms(1), folded assms(2)] and b = blkmap_spec[OF assms(1,2)]
  have l: "length (ffs_fragacct fs (blkmap fs cp (h * f)) fl (- 1)) = 8" using s[OF b(1)] f assms(3) by simp
  show "length (ffs_fragacct fs (blkmap fs cp' (h * f)) (ffs_fragacct fs (blkmap fs cp (h * f)) fl (- 1)) 1) = 8"
    using s[OF b(1)] f l by simp
  show "ffs_fragacct fs (blkmap fs cp' (h * f)) (ffs_fragacct fs (blkmap fs cp (h * f)) fl (- 1)) 1 ! k =
      fl ! k - int (runs (blk_bits f cp h) k) + int (runs (blk_bits f cp' h) k)" if "1 \<le> k" "k < f"
    using f l assms(3) that by (simp add: s[OF b(1)] b(2))
qed

section \<open>Whole blocks and parts of one\<close>

lemma below_ndblk: "(\<And>j. j \<in> S \<Longrightarrow> int j < d) \<Longrightarrow> j \<in> S \<union> {a..<b} \<Longrightarrow> int b \<le> d \<Longrightarrow> int j < d"
  by auto

lemma free_block_spec:
  assumes "fs_ok fs" "cg_ok fs cgp" "f = nat (fs_frag fs)" "m = cg_blksfree cgp" "h < nblocks f m" "\<forall>i < f. \<not> isset m (h * f + i)"
    "int (h * f + f) \<le> cg_ndblk cgp"
  shows "\<exists>fs' cgp'. free_block fs cgp h = Inr (fs', cgp') \<and> group_step (fs, cgp) (fs', cgp') \<and>
    free_of (cg_blksfree cgp') = free_of m \<union> {h * f..<h * f + f}"
proof -
  note g = fs_okD[OF assms(1)] and k = cg_okD[OF assms(2), folded assms(4)]
  have f: "f \<in> {1, 2, 4, 8}" "0 < f" using frag_nat[OF g(1) assms(3)] by auto
  have hf: "h * f + f \<le> 8 * length m" by (rule block_in_map[OF f(1) assms(5)])
  then have h8: "h * f div 8 < length m" using f(2) by linarith
  obtain m1 where m1: "ffs_setblock fs m h = Inr m1" "agree_off f h m m1" "\<forall>i < f. isset m1 (h * f + i)"
    using setclr_block(1)[OF g(1) assms(3) h8] by blast
  obtain x y fs1 where ca: "ffs_clusteracct fs (cgp\<lparr>cg_blksfree := m1\<rparr>) h 1 =
      (fs1, cgp\<lparr>cg_blksfree := m1, cg_clustersfree := x, cg_clustersum := y\<rparr>)"
      "acct (nat (cg_cgx cgp)) (cg_cs cgp) (cg_cs cgp) fs fs1"
    using clusteracct_frame[of fs "cgp\<lparr>cg_blksfree := m1\<rparr>" h 1 "nat (cg_cgx cgp)" "cg_cs cgp"] by auto
  define cgp1 where "cgp1 = cgp\<lparr>cg_blksfree := m1, cg_clustersfree := x, cg_clustersum := y\<rparr>"
  obtain fs2 cgp2 where an: "add_nbfree 1 (fs1, cgp1) = (fs2, cgp2)" by fastforce
  have cgp2: "cgp2 = cgp1\<lparr>cg_cs := (cg_cs cgp)\<lparr>cs_nbfree := cs_nbfree (cg_cs cgp) + 1\<rparr>\<rparr>"
    and "acct (nat (cg_cgx cgp)) (cg_cs cgp) (cg_cs cgp2) fs1 fs2"
    using acct_nbfree[of 1 fs1 cgp1 fs2 cgp2] an by (auto simp: cgp1_def)
  then have a2: "acct (nat (cg_cgx cgp)) (cg_cs cgp) (cg_cs cgp2) fs fs2" using acct_trans[OF ca(2)] by blast
  have b: "blk_bits f m h = replicate f False" "blk_bits f m1 h = replicate f True"
    using assms(6) m1(3) unfolding blk_bits_all by auto
  have "free_of m1 = (free_of m - {h * f..<h * f + f}) \<union> {h * f + i | i. i < f \<and> True}"
    by (rule free_of_agree[OF m1(2) _ hf f(2)]) (use m1(3) in simp)
  also have "{h * f + i | i. i < f \<and> True} = {h * f..<h * f + f}" by (auto intro: le_Suc_ex) (metis add_less_cancel_left le_Suc_ex)
  finally have fr1: "free_of m1 = free_of m \<union> {h * f..<h * f + f}" by blast
  have nd: "int j < cg_ndblk cgp" if "j \<in> free_of m1" for j by (rule below_ndblk[OF k(8) that[unfolded fr1] assms(7)])
  have "cg_ok fs cgp2"
    by (rule cg_ok_block[OF assms(2) _ _ assms(3) f(2), of h]) (use m1(2) assms(5) f(2) k(2,4-6) nd in
      \<open>simp_all add: cgp2 cgp1_def b block_values runs_full runs_empty assms(4)[symmetric]\<close>)
  then have "group_step (fs, cgp) (fs2, cgp2)" using a2 by (simp add: group_step_defs cgp2 cgp1_def)
  moreover have "free_block fs cgp h = Inr (fs2, cgp2)"
    unfolding free_block_def assms(4)[symmetric] m1(1) sum.case ca(1) Let_def case_prod_conv cgp1_def[symmetric] an ..
  moreover have "cg_blksfree cgp2 = m1" by (simp add: cgp2 cgp1_def)
  ultimately show ?thesis using fr1 by blast
qed

lemma free_part_spec:
  assumes "fs_ok fs" "cg_ok fs cgp" "f = nat (fs_frag fs)" "m = cg_blksfree cgp" "h < nblocks f m" "q + n \<le> f" "0 < n"
    "int (h * f + q + n) \<le> cg_ndblk cgp"
  shows "if \<forall>j. h * f + q \<le> j \<and> j < h * f + q + n \<longrightarrow> \<not> isset m j
    then \<exists>fs' cgp'. free_part fs cgp (h * f) (h * f + q) n = Inr (fs', cgp') \<and> group_step (fs, cgp) (fs', cgp') \<and>
      free_of (cg_blksfree cgp') = free_of m \<union> {h * f + q..<h * f + q + n}
    else free_part fs cgp (h * f) (h * f + q) n = Inl (Panic ''ffs_blkfree_cg: freeing free frag'')"
proof -
  note g = fs_okD[OF assms(1)] and k = cg_okD[OF assms(2), folded assms(4)]
  have f: "f \<in> {1, 2, 4, 8}" "fs_frag fs = int f" "0 < f" using frag_nat[OF g(1) assms(3)] by auto
  have hf: "h * f + q + n \<le> 8 * length m" using block_in_map[OF f(1) assms(5)] assms(6) by simp
  note ff = free_frags_set[OF hf]
  show ?thesis
  proof (cases "\<forall>j. h * f + q \<le> j \<and> j < h * f + q + n \<longrightarrow> \<not> isset m j")
    case False
    have "free_part fs cgp (h * f) (h * f + q) n = Inl (Panic ''ffs_blkfree_cg: freeing free frag'')"
      unfolding free_part_def Let_def assms(4)[symmetric] ff if_not_P[OF False] sum.case ..
    then show ?thesis using False by (simp only: if_False)
  next
    case True
    define m1 where "m1 = set_frags m (h * f + q) n"
    have ag: "agree_off f h m m1" unfolding m1_def by (rule clr_frags_agree(2)[OF f(1) assms(5,6)])
    have nth: "blk_bits f m1 h ! i \<longleftrightarrow> blk_bits f m h ! i \<or> (q \<le> i \<and> i < q + n)" if "i < length (blk_bits f m h)" for i
      using that by (auto simp: m1_def isset_set_frags[OF hf])
    have clr: "\<not> blk_bits f m h ! i" if "q \<le> i" "i < q + n" for i using True that assms(6) by (simp add: add.assoc)
    note cnt = give_counts[OF _ nth _ clr assms(7), simplified, OF assms(6)]
    have fr: "free_of m1 = free_of m \<union> {h * f + q..<h * f + q + n}" unfolding m1_def by (rule free_of_set[OF hf])
    have nd: "int j < cg_ndblk cgp" if "j \<in> free_of m1" for j by (rule below_ndblk[OF k(8) that[unfolded fr] assms(8)])
    define frsum where "frsum = ffs_fragacct fs (blkmap fs m1 (h * f)) (ffs_fragacct fs (blkmap fs m (h * f)) (cg_frsum cgp) (- 1)) 1"
    have frs: "length frsum = 8" "\<And>k. 1 \<le> k \<Longrightarrow> k < f \<Longrightarrow>
        frsum ! k = cg_frsum cgp ! k - int (runs (blk_bits f m h) k) + int (runs (blk_bits f m1 h) k)"
      unfolding frsum_def using fragacct_twice[OF g(1) assms(3) k(2)] by blast+
    let ?c = "nat (cg_cgx cgp)"
    obtain fs1 cgp1 where a1: "add_nffree (int n) (fs, cgp\<lparr>cg_blksfree := m1\<rparr>) = (fs1, cgp1)" by fastforce
    have cgp1: "cgp1 = cgp\<lparr>cg_blksfree := m1, cg_cs := (cg_cs cgp)\<lparr>cs_nffree := cs_nffree (cg_cs cgp) + int n\<rparr>\<rparr>"
      and ac1: "acct ?c (cg_cs cgp) (cg_cs cgp1) fs fs1"
      using acct_nffree[of "int n" fs "cgp\<lparr>cg_blksfree := m1\<rparr>" fs1 cgp1] a1 by auto
    note geo = geom_eqD[OF acct_geom[OF ac1]]
    have hh: "nat (fragstoblks fs (int (h * f))) = h"
      unfolding macros_div(7)[OF g(1)] f(2) zdiv_int[symmetric] nat_int using f(3) by simp
    have isb: "ffs_isblock fs m1 h = Inr (full (blk_bits f m1 h))" using isblock_spec(1)[OF g(1) assms(3), of m1 h] by (simp add: full_blk)
    define cgp2 where "cgp2 = cgp1\<lparr>cg_frsum := frsum\<rparr>"
    have run: "free_part fs cgp (h * f) (h * f + q) n = (if full (blk_bits f m1 h) then
        (case add_nffree (- int f) (fs1, cgp2) of (fs, cgp) \<Rightarrow> case ffs_clusteracct fs cgp h 1 of (fs, cgp) \<Rightarrow> Inr (add_nbfree 1 (fs, cgp)))
        else Inr (fs1, cgp2))"
      unfolding free_part_def Let_def assms(4)[symmetric] ff if_P[OF True] sum.case m1_def[symmetric] a1 case_prod_conv geo
        frsum_def[symmetric] cgp2_def[symmetric] hh isb f(2) by (simp split: bool.splits)
    show ?thesis
    proof (cases "full (blk_bits f m1 h)")
      case False
      have "cg_ok fs cgp2"
        by (rule cg_ok_block[OF assms(2) _ _ assms(3) f(3), of h]) (use ag assms(5) k(4-6) nd frs cnt False in
          \<open>simp_all add: cgp2_def cgp1 assms(4)[symmetric]\<close>)
      then have "group_step (fs, cgp) (fs1, cgp2)" using ac1 by (simp add: group_step_defs cgp2_def cgp1)
      then show ?thesis using True False run fr by (auto simp: cgp2_def cgp1)
    next
      case full: True
      obtain fs3 cgp3 where a3: "add_nffree (- int f) (fs1, cgp2) = (fs3, cgp3)" by fastforce
      have cgp3: "cgp3 = cgp2\<lparr>cg_cs := (cg_cs cgp1)\<lparr>cs_nffree := cs_nffree (cg_cs cgp1) - int f\<rparr>\<rparr>"
        and ac3: "acct ?c (cg_cs cgp1) (cg_cs cgp3) fs1 fs3"
        using acct_nffree[of "- int f" fs1 cgp2 fs3 cgp3] a3 by (auto simp: cgp2_def cgp1)
      obtain x y fs4 where ca: "ffs_clusteracct fs3 cgp3 h 1 = (fs4, cgp3\<lparr>cg_clustersfree := x, cg_clustersum := y\<rparr>)"
          "acct ?c (cg_cs cgp3) (cg_cs cgp3) fs3 fs4"
        using clusteracct_frame[of fs3 cgp3 h 1 ?c "cg_cs cgp3"] by auto
      define cgp4 where "cgp4 = cgp3\<lparr>cg_clustersfree := x, cg_clustersum := y\<rparr>"
      obtain fs5 cgp5 where a5: "add_nbfree 1 (fs4, cgp4) = (fs5, cgp5)" by fastforce
      have cgp5: "cgp5 = cgp4\<lparr>cg_cs := (cg_cs cgp3)\<lparr>cs_nbfree := cs_nbfree (cg_cs cgp3) + 1\<rparr>\<rparr>"
        and ac5: "acct ?c (cg_cs cgp3) (cg_cs cgp5) fs4 fs5"
        using acct_nbfree[of 1 fs4 cgp4 fs5 cgp5] a5 by (auto simp: cgp4_def cgp3 cgp2_def cgp1)
      have ac: "acct ?c (cg_cs cgp) (cg_cs cgp5) fs fs5"
        by (rule acct_trans[OF ac1 acct_trans[OF ac3 acct_trans[OF ca(2) ac5]]])
      have "cg_ok fs cgp5"
        by (rule cg_ok_block[OF assms(2) _ _ assms(3) f(3), of h]) (use ag assms(5) k(4-6) nd frs cnt full in
          \<open>simp_all add: cgp5 cgp4_def cgp3 cgp2_def cgp1 assms(4)[symmetric]\<close>)
      then have "group_step (fs, cgp) (fs5, cgp5)" using ac by (simp add: group_step_defs cgp5 cgp4_def cgp3 cgp2_def cgp1)
      moreover have "free_part fs cgp (h * f) (h * f + q) n = Inr (fs5, cgp5)"
        unfolding run if_P[OF full] a3 case_prod_conv ca(1) cgp4_def[symmetric] a5 ..
      moreover have "cg_blksfree cgp5 = m1" by (simp add: cgp5 cgp4_def cgp3 cgp2_def cgp1)
      ultimately show ?thesis using True fr by auto
    qed
  qed
qed

context readable
begin

lemma blkfree_parts:
  assumes "alloc_inv st" "c < length (a_cgs st)" "f = nat (fs_frag (a_fs st))"
    "bno = cgbase (a_fs st) (int c) + int (h * f + q)" "q + n \<le> f" "1 \<le> n" "sz = int n * fs_fsize (a_fs st)"
    "int (h * f + q) < fs_fpg (a_fs st)" "bno < fs_size (a_fs st)" "0 \<le> bno"
  shows "ffs_blkfree_cg E snap bno sz st =
    (if n = f then
       (if \<forall>i < f. \<not> isset (cg_blksfree (a_cgs st ! c)) (h * f + i) then
          (case free_block (a_fs st) (a_cgs st ! c) h of Inl e \<Rightarrow> Inl e
           | Inr (fs, cgp) \<Rightarrow> Inr (bdwrite_cg c (ACTIVECLEAR (set_fmod fs) c) cgp st))
        else if snap then Inr st else Inl (Panic ''ffs_blkfree_cg: freeing free block''))
     else
       (case free_part (a_fs st) (a_cgs st ! c) (h * f) (h * f + q) n of Inl e \<Rightarrow> Inl e
        | Inr (fs, cgp) \<Rightarrow> Inr (bdwrite_cg c (ACTIVECLEAR (set_fmod fs) c) cgp st)))"
proof -
  let ?fs = "a_fs st"
  have ok: "fs_ok ?fs" using assms(1) by (simp add: alloc_inv_def)
  note g = fs_okD(1)[OF ok]
  have f: "fs_frag ?fs = int f" "0 < f" using frag_nat[OF g assms(3)] by auto
  have sz: "0 \<le> sz" "sz \<le> fs_bsize ?fs" "fragoff ?fs sz = 0" "numfrags ?fs sz = int n" "sz = fs_bsize ?fs \<longleftrightarrow> n = f"
    using assms(5,7) geometryD(2,9)[OF g] whole_frags[OF g assms(7)] macros_div(2)[OF g] f(1) by (simp_all add: mult_right_mono)
  have q: "q < f" using assms(5,6) by simp
  have u32: "sz mod 2 ^ 32 \<le> fs_bsize ?fs" "bno mod 2 ^ 32 < fs_size ?fs"
    using sz(1,2) assms(9,10) zmod_le_nonneg_dividend[of sz "2 ^ 32"] zmod_le_nonneg_dividend[of bno "2 ^ 32"] by linarith+
  have fn: "fragnum ?fs bno = int q" unfolding assms(4) fragnum_group[OF ok assms(3)] using q by simp
  have dt: "nat (dtog ?fs bno) = c" "nat (dtogd ?fs bno) = h * f + q"
    unfolding assms(4) dtog_base[OF assms(8)] dtogd_base[OF assms(8)] by (rule nat_int)+
  have fq: "nat (fragnum ?fs (int (h * f + q))) = q"
    using fragnum_group[OF ok assms(3), of 0 h q] q by (simp add: cgbase_def)
  have fb: "nat (fragstoblks ?fs (int (h * f + q))) = h" "nat (fragstoblks ?fs (int (h * f))) = h"
    unfolding macros_div(7)[OF g] f(1) zdiv_int[symmetric] nat_int using q f(2) by simp_all
  have q0: "n = f \<Longrightarrow> q = 0" using assms(5) by simp
  have guard: "\<not> (fs_bsize ?fs < sz mod 2 ^ 32 \<or> fragoff ?fs sz \<noteq> 0 \<or> fs_frag ?fs < fragnum ?fs bno + numfrags ?fs sz)"
    "\<not> fs_size ?fs \<le> bno mod 2 ^ 32" using u32 sz fn f(1) assms(5) by auto
  have bb: "h * f + q - q = h * f" by simp
  show ?thesis
    unfolding ffs_blkfree_cg_def Let_def if_not_P[OF guard(1)] if_not_P[OF guard(2)]
    unfolding dt getcg_ok[OF assms(1,2)] sum.case sz(4,5)
      fb fq bb nat_int isblock_spec(2)[OF g assms(3)]
    by (cases "n = f"; cases "\<forall>i < f. \<not> isset (cg_blksfree (a_cgs st ! c)) (h * f + i)"; cases snap) (auto split: bool.split)
qed

text \<open>Freeing adds the fragments; freeing one that is free already is a panic.\<close>

lemma blkfree_spec:
  assumes "alloc_inv st" "c < length (a_cgs st)" "f = nat (fs_frag (a_fs st))"
    "bno = cgbase (a_fs st) (int c) + int (h * f + q)" "q + n \<le> f" "1 \<le> n" "sz = int n * fs_fsize (a_fs st)"
    "int (h * f + q + n) \<le> cg_ndblk (a_cgs st ! c)" "bno < fs_size (a_fs st)" "0 < bno"
  shows "if {bno..<bno + int n} \<inter> free_set st = {}
    then \<exists>st'. ffs_blkfree_cg E False bno sz st = Inr st' \<and> gives st bno n st'
    else \<exists>msg. ffs_blkfree_cg E False bno sz st = Inl (Panic msg)"
proof -
  let ?fs = "a_fs st" and ?cgp = "a_cgs st ! c"
  let ?m = "cg_blksfree ?cgp"
  have ok: "fs_ok ?fs" "cg_ok ?fs ?cgp" using assms(1) inv_group[OF assms(1,2)] by (auto simp: alloc_inv_def)
  note g = fs_okD[OF ok(1)] and k = cg_okD[OF ok(2)]
  have f: "f \<in> {1, 2, 4, 8}" "0 < f" using frag_nat[OF g(1) assms(3)] by auto
  have fpg: "int (h * f + q + n) \<le> fs_fpg ?fs" using assms(8) k(7) by linarith
  then have p: "int (h * f + q) < fs_fpg ?fs" using assms(6) by linarith
  have h: "h < nblocks f ?m"
  proof -
    have "fs_fpg ?fs \<le> 8 * int (length ?m)" unfolding k(1) howmany_def using g(2) by linarith
    then have "h * f < length ?m * 8" using p by linarith
    also have "length ?m * 8 = nblocks f ?m * f" using f(1) by (auto simp: nblocks_def)
    finally show ?thesis by simp
  qed
  have free: "{bno..<bno + int n} \<inter> free_set st = {} \<longleftrightarrow> (\<forall>j. h * f + q \<le> j \<and> j < h * f + q + n \<longrightarrow> \<not> isset ?m j)"
  proof -
    have "{bno..<bno + int n} \<inter> free_set st = {} \<longleftrightarrow> (\<forall>j \<in> {h * f + q..<h * f + q + n}. cgbase ?fs (int c) + int j \<notin> free_set st)"
      unfolding assms(4) image_range[symmetric] by blast
    also have "\<dots> \<longleftrightarrow> (\<forall>j \<in> {h * f + q..<h * f + q + n}. j \<notin> free_of ?m)"
    proof (intro ball_cong refl)
      fix j assume "j \<in> {h * f + q..<h * f + q + n}"
      then have "int j < int (h * f + q + n)" unfolding of_nat_less_iff by simp
      then show "cgbase ?fs (int c) + int j \<notin> free_set st \<longleftrightarrow> j \<notin> free_of ?m"
        using free_set_group[OF assms(1,2), of j] fpg by simp
    qed
    also have "\<dots> \<longleftrightarrow> (\<forall>j. h * f + q \<le> j \<and> j < h * f + q + n \<longrightarrow> \<not> isset ?m j)"
      using block_in_map[OF f(1) h] assms(5) by (auto simp: free_of_def)
    finally show ?thesis .
  qed
  note parts = blkfree_parts[OF assms(1-7) p assms(9) order_less_imp_le[OF assms(10)], of False]
  have give: "gives st bno n (bdwrite_cg c (ACTIVECLEAR (set_fmod fs') c) cgp' st)"
    if "group_step (?fs, ?cgp) (fs', cgp')" "free_of (cg_blksfree cgp') = free_of ?m \<union> {h * f + q..<h * f + q + n}"
      "{bno..<bno + int n} \<inter> free_set st = {}" for fs' cgp'
  proof -
    have "{h * f + q..<h * f + q + n} \<inter> free_of ?m = {}" using that(3) unfolding free by (auto simp: free_of_def)
    then show ?thesis unfolding assms(4)
      by (intro write_give[OF assms(1,2) _ fpg] group_step_marks that assms(10)[unfolded assms(4)])
  qed
  show ?thesis
  proof (cases "n = f")
    case True
    then have q0: "q = 0" using assms(5) by simp
    have all: "(\<forall>i < f. \<not> isset ?m (h * f + i)) \<longleftrightarrow> {bno..<bno + int n} \<inter> free_set st = {}"
      unfolding free by (auto simp: q0 True le_iff_add)
    show ?thesis
    proof (cases "{bno..<bno + int n} \<inter> free_set st = {}")
      case e: True
      obtain fs' cgp' where "free_block ?fs ?cgp h = Inr (fs', cgp')" "group_step (?fs, ?cgp) (fs', cgp')"
          "free_of (cg_blksfree cgp') = free_of ?m \<union> {h * f..<h * f + f}"
        using free_block_spec[OF ok assms(3) refl h] all e assms(8) True q0 by auto
      then show ?thesis using e give all q0 True unfolding parts by auto
    qed (use all True in \<open>auto simp add: parts\<close>)
  next
    case False
    note fp = free_part_spec[OF ok assms(3) refl h assms(5) _ assms(8), folded free]
    show ?thesis
    proof (cases "{bno..<bno + int n} \<inter> free_set st = {}")
      case True
      then obtain fs' cgp' where "free_part ?fs ?cgp (h * f) (h * f + q) n = Inr (fs', cgp')" "group_step (?fs, ?cgp) (fs', cgp')"
          "free_of (cg_blksfree cgp') = free_of ?m \<union> {h * f + q..<h * f + q + n}"
        using fp assms(6) by auto
      then show ?thesis using True give False unfolding parts by auto
    qed (use fp assms(6) False in \<open>simp add: parts\<close>)
  qed
qed

end

end
