(* ===== verification/Ddfs_Hash.thy ===== *)
theory Ddfs_Hash
  imports Ddfs_Release
begin

text \<open>
  The overflow policy across cylinder groups, \<open>ffs_hashalloc\<close>: whatever the allocator of a group, the
  preferred group, the quadratic rehash and the brute-force search together try every group, so the
  request fails only if no group has room. The contract of a group's allocator is the locale
  \<open>group_allocator\<close>.
\<close>

section \<open>Trying every group\<close>

locale group_allocator =
  fixes allocator :: allocator
    and inv :: "alloc_st \<Rightarrow> bool"
    and room :: "alloc_st \<Rightarrow> nat \<Rightarrow> bool"
    and result :: "alloc_st \<Rightarrow> int \<Rightarrow> alloc_st \<Rightarrow> bool"
  assumes hit: "inv st \<Longrightarrow> c < nat (fs_ncg (a_fs st)) \<Longrightarrow> room st c \<Longrightarrow>
      \<exists>b st'. allocator c pref st = Inr (b, st') \<and> b \<noteq> 0 \<and> result st b st'"
    and miss: "inv st \<Longrightarrow> c < nat (fs_ncg (a_fs st)) \<Longrightarrow> \<not> room st c \<Longrightarrow> allocator c pref st = Inr (0, st)"
begin

text \<open>\<open>found st r\<close>: the outcome \<open>r\<close> is a successful allocation from \<open>st\<close>.\<close>

definition found :: "alloc_st \<Rightarrow> fault + int \<times> alloc_st \<Rightarrow> bool" where
  "found st r \<longleftrightarrow> (\<exists>b st'. r = Inr (b, st') \<and> b \<noteq> 0 \<and> result st b st')"

lemma try_cases:
  assumes "inv st" "c < nat (fs_ncg (a_fs st))"
  obtains "room st c" "found st (allocator c pref st)" | "\<not> room st c" "allocator c pref st = Inr (0, st)"
  using hit[OF assms] miss[OF assms] unfolding found_def by blast

lemma quad_rehash_step:
  assumes "inv st" "ncg = nat (fs_ncg (a_fs st))" "cg < ncg" "0 < i" "i < ncg" "c = (if ncg \<le> cg + i then cg + i - ncg else cg + i)"
  shows "room st c \<Longrightarrow> found st (quad_rehash allocator ncg cg i st)"
    and "\<not> room st c \<Longrightarrow> quad_rehash allocator ncg cg i st = quad_rehash allocator ncg c (i * 2) st"
proof -
  note unf = quad_rehash.simps[of allocator ncg cg i st]
  have c: "c < nat (fs_ncg (a_fs st))" using assms(2-6) by auto
  show "room st c \<Longrightarrow> found st (quad_rehash allocator ncg cg i st)"
    using hit[OF assms(1) c, of 0] assms(4,5) unfolding unf found_def assms(6)[symmetric] Let_def by auto
  show "\<not> room st c \<Longrightarrow> quad_rehash allocator ncg cg i st = quad_rehash allocator ncg c (i * 2) st"
    using miss[OF assms(1) c, of 0] assms(4,5) unfolding unf assms(6)[symmetric] Let_def by simp
qed

lemma quad_rehash_result:
  assumes "inv st" "ncg = nat (fs_ncg (a_fs st))" "cg < ncg"
  shows "found st (quad_rehash allocator ncg cg i st) \<and> (\<exists>c < ncg. room st c) \<or> quad_rehash allocator ncg cg i st = Inr (0, st)"
  using assms(3)
proof (induction "ncg - i" arbitrary: cg i rule: less_induct)
  case less
  show ?case
  proof (cases "0 < i \<and> i < ncg")
    case True
    define c where "c = (if ncg \<le> cg + i then cg + i - ncg else cg + i)"
    have c: "c < ncg" using True less.prems by (auto simp: c_def)
    note step = quad_rehash_step[OF assms(1,2) less.prems _ _ c_def]
    show ?thesis
    proof (cases "room st c")
      case False
      have "ncg - i * 2 < ncg - i" using True by linarith
      then show ?thesis using step(2)[OF _ _ False] less.hyps[of "i * 2" c] c True by simp
    qed (use step(1) True c in blast)
  next
    case False
    then show ?thesis unfolding quad_rehash.simps[of allocator ncg cg i st] if_not_P[OF False] by simp
  qed
qed

lemma brute_force_result:
  assumes "inv st" "ncg = nat (fs_ncg (a_fs st))" "cg < ncg" "n \<le> ncg"
  shows "if \<exists>i < n. room st ((cg + i) mod ncg) then found st (brute_force allocator ncg cg n st)
    else brute_force allocator ncg cg n st = Inr (0, st)"
  using assms(3,4)
proof (induction n arbitrary: cg)
  case (Suc n)
  define cg' where "cg' = (if cg + 1 = ncg then 0 else cg + 1)"
  have cg': "cg' < ncg" using Suc.prems(1) by (simp add: cg'_def)
  have sh: "(cg + Suc i) mod ncg = (cg' + i) mod ncg" for i
  proof (cases "cg + 1 = ncg")
    case True
    then have e: "cg + Suc i = i + ncg" by simp
    show ?thesis unfolding e using True by (simp add: cg'_def)
  qed (simp add: cg'_def)
  have ex: "(\<exists>i < Suc n. room st ((cg + i) mod ncg)) \<longleftrightarrow> room st cg \<or> (\<exists>i < n. room st ((cg' + i) mod ncg))"
  proof -
    have "(\<exists>i < Suc n. P i) \<longleftrightarrow> P 0 \<or> (\<exists>i < n. P (Suc i))" for P by (metis less_Suc_eq_0_disj)
    then show ?thesis using Suc.prems(1) by (simp only: sh add_0_right mod_less)
  qed
  note ih = Suc.IH[OF cg' Suc_leD[OF Suc.prems(2)]]
  have "cg < nat (fs_ncg (a_fs st))" using Suc.prems(1) assms(2) by simp
  then consider "room st cg" "found st (allocator cg 0 st)" | "\<not> room st cg" "allocator cg 0 st = Inr (0, st)"
    by (rule try_cases[OF assms(1)])
  then show ?case
  proof cases
    case 1
    then show ?thesis unfolding ex by (auto simp: found_def)
  next
    case 2
    then have "brute_force allocator ncg cg (Suc n) st = brute_force allocator ncg cg' n st" by (simp add: cg'_def)
    then show ?thesis using ih 2(1) unfolding ex by simp
  qed
qed simp

text \<open>Every group is reached: the preferred one, its successor by the first rehash, the rest by the search.\<close>

lemma all_groups:
  fixes cg c ncg :: nat
  assumes "cg < ncg" "c < ncg"
  shows "c = cg \<or> c = (if ncg \<le> cg + 1 then cg + 1 - ncg else cg + 1) \<or> (\<exists>i < ncg - 2. c = ((cg + 2) mod ncg + i) mod ncg)"
proof -
  define d where "d = (if cg \<le> c then c - cg else c + ncg - cg)"
  have "d < ncg \<and> (cg + d = c \<or> cg + d = c + ncg)"
  proof (cases "cg \<le> c")
    case True
    then show ?thesis using assms unfolding d_def if_P[OF True] by arith
  next
    case False
    then show ?thesis using assms unfolding d_def if_not_P[OF False] by arith
  qed
  then have d: "d < ncg" "c = (cg + d) mod ncg" using assms(2) by auto
  show ?thesis
  proof (cases "d < 2")
    case True
    then consider "d = 0" | "d = 1" by linarith
    then show ?thesis
    proof cases
      case 1
      then show ?thesis using d(2) assms(1) by simp
    next
      case 2
      then show ?thesis using d(2) assms(1) by (cases "cg + 1 = ncg") auto
    qed
  next
    case False
    then have "cg + d = (cg + 2) + (d - 2)" by simp
    then have "c = ((cg + 2) mod ncg + (d - 2)) mod ncg" unfolding d(2) by (simp only: mod_add_left_eq)
    then show ?thesis using False d(1) by (intro disjI2 exI[of _ "d - 2"]) simp
  qed
qed

lemma hashalloc:
  assumes "inv st" "cg < nat (fs_ncg (a_fs st))"
  shows "if \<exists>c < nat (fs_ncg (a_fs st)). room st c then \<exists>b st'. ffs_hashalloc cg pref allocator st = Inr (b, st') \<and> b \<noteq> 0 \<and> result st b st'
    else ffs_hashalloc cg pref allocator st = Inr (0, st)"
proof -
  define ncg where "ncg = nat (fs_ncg (a_fs st))"
  have cg: "cg < ncg" using assms(2) by (simp add: ncg_def)
  let ?q = "quad_rehash allocator ncg cg 1 st" and ?b = "brute_force allocator ncg ((cg + 2) mod ncg) (ncg - 2) st"
  let ?c1 = "if ncg \<le> cg + 1 then cg + 1 - ncg else cg + 1"
  note unf = ffs_hashalloc_def Let_def ncg_def[symmetric]
  show ?thesis unfolding found_def[symmetric] ncg_def[symmetric]
  proof (rule try_cases[OF assms, of pref])
    assume "room st cg" "found st (allocator cg pref st)"
    then show "if \<exists>c<ncg. room st c then found st (ffs_hashalloc cg pref allocator st) else ffs_hashalloc cg pref allocator st = Inr (0, st)"
      using cg unfolding unf by (auto simp: found_def)
  next
    assume no: "\<not> room st cg" "allocator cg pref st = Inr (0, st)"
    then have s1: "ffs_hashalloc cg pref allocator st = (case ?q of Inl f \<Rightarrow> Inl f | Inr (r, st) \<Rightarrow> if r \<noteq> 0 then Inr (r, st)
        else brute_force allocator ncg ((cg + 2) mod ncg) (ncg - 2) st)" unfolding unf by simp
    have "found st ?q \<and> (\<exists>c < ncg. room st c) \<or> ?q = Inr (0, st)" by (rule quad_rehash_result[OF assms(1) ncg_def cg])
    then show "if \<exists>c<ncg. room st c then found st (ffs_hashalloc cg pref allocator st) else ffs_hashalloc cg pref allocator st = Inr (0, st)"
    proof
      assume "found st ?q \<and> (\<exists>c < ncg. room st c)"
      then show ?thesis unfolding s1 by (auto simp: found_def)
    next
      assume q0: "?q = Inr (0, st)"
      then have s2: "ffs_hashalloc cg pref allocator st = ?b" unfolding s1 by simp
      have bf: "if \<exists>i < ncg - 2. room st (((cg + 2) mod ncg + i) mod ncg) then found st ?b else ?b = Inr (0, st)"
        by (rule brute_force_result[OF assms(1) ncg_def]) (use cg in auto)
      have c1: "\<not> room st ?c1"
      proof (cases "1 < ncg")
        case True
        then show ?thesis using quad_rehash_step(1)[OF assms(1) ncg_def cg _ True refl] q0 by (auto simp: found_def)
      next
        case False
        then show ?thesis using no(1) cg by (auto simp: not_less le_Suc_eq)
      qed
      have "(\<exists>c<ncg. room st c) \<longleftrightarrow> (\<exists>i < ncg - 2. room st (((cg + 2) mod ncg + i) mod ncg))"
      proof
        assume "\<exists>c<ncg. room st c"
        then obtain c where c: "c < ncg" "room st c" by blast
        then have "c \<noteq> cg" "c \<noteq> ?c1" using no(1) c1 by metis+
        then obtain i where "i < ncg - 2" "c = ((cg + 2) mod ncg + i) mod ncg" using all_groups[OF cg c(1)] by blast
        then show "\<exists>i < ncg - 2. room st (((cg + 2) mod ncg + i) mod ncg)" using c(2) by blast
      next
        assume "\<exists>i < ncg - 2. room st (((cg + 2) mod ncg + i) mod ncg)"
        then obtain i where i: "room st (((cg + 2) mod ncg + i) mod ncg)" by blast
        have "((cg + 2) mod ncg + i) mod ncg < ncg" using cg by (intro mod_less_divisor) simp
        then show "\<exists>c<ncg. room st c" using i by blast
      qed
      then show ?thesis using bf unfolding s2 by simp
    qed
  qed
qed

end

section \<open>Blocks and fragments\<close>

text \<open>The block allocator on a readable device, for requests of \<open>k\<close> fragments of which \<open>n\<close> are kept.\<close>

definition block_inv :: "nat \<Rightarrow> nat \<Rightarrow> int \<Rightarrow> int \<Rightarrow> alloc_st \<Rightarrow> bool" where
  "block_inv k n sz rsize st \<longleftrightarrow> alloc_inv st \<and> sz = int k * fs_fsize (a_fs st) \<and> rsize = int n * fs_fsize (a_fs st) \<and> 1 \<le> k \<and> k \<le> nat (fs_frag (a_fs st)) \<and> 1 \<le> n \<and> n \<le> nat (fs_frag (a_fs st)) \<and>
     (n = k \<or> k = nat (fs_frag (a_fs st)))"

definition block_room :: "nat \<Rightarrow> alloc_st \<Rightarrow> nat \<Rightarrow> bool" where
  "block_room k st c \<longleftrightarrow> fits (nat (fs_frag (a_fs st))) (cg_blksfree (a_cgs st ! c)) k"

definition block_allocator :: "alloc_env \<Rightarrow> int \<Rightarrow> int \<Rightarrow> allocator" where
  "block_allocator E sz rsize = (\<lambda>c pref st. ffs_alloccg E c pref sz rsize st)"

context readable
begin

lemma block_allocator: "group_allocator (block_allocator E sz rsize) (block_inv k n sz rsize) (block_room k) (\<lambda>st b st'. takes st b n st')"
proof
  fix st c pref assume i: "block_inv k n sz rsize st" and c: "c < nat (fs_ncg (a_fs st))"
  then have a: "alloc_inv st" "c < length (a_cgs st)" by (simp_all add: block_inv_def alloc_inv_def)
  have "if block_room k st c
      then \<exists>b st'. block_allocator E sz rsize c pref st = Inr (b, st') \<and> dtog (a_fs st) b = int c \<and> takes st b n st'
      else block_allocator E sz rsize c pref st = Inr (0, st)"
    unfolding block_allocator_def block_room_def
    by (rule alloccg_spec[OF a refl, of sz k rsize n]) (use i in \<open>auto simp: block_inv_def\<close>)
  then show "block_room k st c \<Longrightarrow> \<exists>b st'. block_allocator E sz rsize c pref st = Inr (b, st') \<and> b \<noteq> 0 \<and> takes st b n st'"
    and "\<not> block_room k st c \<Longrightarrow> block_allocator E sz rsize c pref st = Inr (0, st)"
    by (auto simp: takes_def)
qed

end

sublocale readable < blocks: group_allocator "block_allocator E sz rsize" "block_inv k n sz rsize" "block_room k" "\<lambda>st b st'. takes st b n st'" for k n sz rsize
  by (rule block_allocator)

end
