(* ===== verification/Ddfs_Nodes.thy ===== *)
theory Ddfs_Nodes
  imports Ddfs_Hash
begin

text \<open>
  The rest of a cylinder group's allocation in \<open>ddfs_alloc.c\<close>: inodes (\<open>ffs_nodealloccg\<close>, \<open>ffs_freefile\<close>,
  \<open>ffs_checkfreefile\<close>), clusters of blocks (\<open>ffs_clusteralloc\<close>) and the consistency check
  \<open>ffs_checkblk\<close>. One thread runs, so the buffer of an inode block is never owned by another.
\<close>

section \<open>Inodes\<close>

definition IFMT :: int where "IFMT = 0xF000"
definition IFDIR :: int where "IFDIR = 0x4000"

definition is_dir :: "int \<Rightarrow> bool" where
  "is_dir mode \<longleftrightarrow> mode AND IFMT = IFDIR"

definition add_nifree :: "int \<Rightarrow> ddfs_fs \<times> cg \<Rightarrow> ddfs_fs \<times> cg" where
  "add_nifree n = (\<lambda>(fs, cgp).
     (upd_cs (nat (cg_cgx cgp)) (\<lambda>cs. cs\<lparr>cs_nifree := cs_nifree cs + n\<rparr>)
        (upd_total (\<lambda>t. t\<lparr>cst_nifree := cst_nifree t + n\<rparr>) fs),
      cgp\<lparr>cg_cs := (cg_cs cgp)\<lparr>cs_nifree := cs_nifree (cg_cs cgp) + n\<rparr>\<rparr>))"

definition add_ndir :: "int \<Rightarrow> ddfs_fs \<times> cg \<Rightarrow> ddfs_fs \<times> cg" where
  "add_ndir n = (\<lambda>(fs, cgp).
     (upd_cs (nat (cg_cgx cgp)) (\<lambda>cs. cs\<lparr>cs_ndir := cs_ndir cs + n\<rparr>)
        (upd_total (\<lambda>t. t\<lparr>cst_ndir := cst_ndir t + n\<rparr>) fs),
      cgp\<lparr>cg_cs := (cg_cs cgp)\<lparr>cs_ndir := cs_ndir (cg_cs cgp) + n\<rparr>\<rparr>))"

text \<open>\<open>ffs(~*loc) - 1\<close>: the index of the lowest clear bit of a byte (8 when there is none, since the operand is
  promoted before it is complemented).\<close>

fun low_clear :: "byte \<Rightarrow> nat \<Rightarrow> nat \<Rightarrow> nat" where
  "low_clear b i 0 = i"
| "low_clear b i (Suc n) = (if \<not> bit b i then i else low_clear b (Suc i) n)"

text \<open>The search for a free inode of the group, up to the label \<open>gotit\<close>.\<close>

definition find_inode :: "alloc_env \<Rightarrow> ddfs_fs \<Rightarrow> cg \<Rightarrow> int \<Rightarrow> fault + nat" where
  "find_inode E fs cgp ipref =
     (let inosused = cg_inosused cgp in
      if ipref \<noteq> 0 \<and> isclr inosused (nat (ipref mod fs_ipg fs)) then Inr (nat (ipref mod fs_ipg fs))
      else
        let start = nat (cg_irotor cgp div 8); len = nat (howmany (fs_ipg fs - cg_irotor cgp) 8) in
        case e_memcchr E (drop start inosused) 0xff len of
          Some loc \<Rightarrow> Inr ((start + loc) * 8 + low_clear (inosused ! (start + loc)) 0 8)
        | None \<Rightarrow>
            (case e_memcchr E inosused 0xff (start + 1) of
               Some loc \<Rightarrow> Inr (loc * 8 + low_clear (inosused ! loc) 0 8)
             | None \<Rightarrow> Inl (Panic ''ffs_nodealloccg: map corrupted'')))"

text \<open>Taking inode \<open>ino\<close> of the group.\<close>

definition take_inode :: "nat \<Rightarrow> int \<Rightarrow> nat \<Rightarrow> cg \<Rightarrow> alloc_st \<Rightarrow> int \<times> alloc_st" where
  "take_inode c mode ino cgp st =
     (let fs = ACTIVECLEAR (a_fs st) c;
          cgp = cgp\<lparr>cg_irotor := int ino, cg_inosused := setbit (cg_inosused cgp) ino\<rparr>;
          (fs, cgp) = add_nifree (- 1) (fs, cgp);
          fs = set_fmod fs;
          (fs, cgp) = (if is_dir mode then add_ndir 1 (fs, cgp) else (fs, cgp))
      in (int c * fs_ipg fs + int ino, bdwrite_cg c fs cgp st))"

text \<open>From the label \<open>restart\<close> on. When the inode lies in a block that is not initialised yet, the next
  block of inodes is, and the search starts again. Without progress, at \<open>INOPB = 0\<close>, it does not end.\<close>

function nodealloc :: "alloc_env \<Rightarrow> nat \<Rightarrow> int \<Rightarrow> int \<Rightarrow> cg \<Rightarrow> alloc_st \<Rightarrow> fault + int \<times> alloc_st" where
  "nodealloc E c mode ipref cgp st =
     (if cs_nifree (cg_cs cgp) = 0 then Inr (0, st)
      else case find_inode E (a_fs st) cgp ipref of Inl f \<Rightarrow> Inl f
      | Inr ino \<Rightarrow>
        let fs = a_fs st; old = cg_initediblk cgp in
        if fs_magic fs = FS_DDFS_MAGIC \<and> old < int ino + INOPB fs \<and> old < cg_niblk cgp then
          if INOPB fs \<le> 0 then Inl NoReturn
          else
            let blk = ino_to_fsba fs (int c * fs_ipg fs + old);
                st = st\<lparr>a_iblks := (blk, map (e_gen E blk) [0..<nat (INOPB fs)]) # a_iblks st, a_fs := ACTIVECLEAR fs c\<rparr>
            in if e_reread_cg E c \<noteq> 0 then Inr (e_reread_cg E c, st)
               else nodealloc E c mode (int ino) (cgp\<lparr>cg_initediblk := old + INOPB fs\<rparr>) st
        else Inr (take_inode c mode ino cgp st))"
  by pat_completeness auto
termination
  by (relation "measure (\<lambda>(E, c, mode, ipref, cgp, st). nat (cg_niblk cgp - cg_initediblk cgp))") auto

declare nodealloc.simps [simp del]

definition ffs_nodealloccg :: "alloc_env \<Rightarrow> int \<Rightarrow> allocator" where
  "ffs_nodealloccg E mode c ipref st =
     (if cs_nifree (fs_cs (a_fs st) c) = 0 then Inr (0, st)
      else case ffs_getcg E st c of Inl e \<Rightarrow> Inr (0, st)
      | Inr cgp \<Rightarrow> nodealloc E c mode ipref cgp st)"

text \<open>\<open>ffs_freefile\<close> on the disk device, or on a snapshot of it; a read error is returned.\<close>

definition ffs_freefile :: "alloc_env \<Rightarrow> int \<Rightarrow> int \<Rightarrow> alloc_st \<Rightarrow> fault + errno \<times> alloc_st" where
  "ffs_freefile E ino mode st =
     (let fs = a_fs st; c = nat (ino_to_cg fs ino) in
      if fs_ipg fs * fs_ncg fs \<le> ino then Inl (Panic ''ffs_freefile: range'')
      else case ffs_getcg E st c of Inl e \<Rightarrow> Inr (e, st)
      | Inr cgp \<Rightarrow>
        let cgino = nat (ino mod fs_ipg fs) in
        if isclr (cg_inosused cgp) cgino \<and> fs_ronly fs = 0 then Inl (Panic ''ffs_freefile: freeing free inode'')
        else
          let cgp = cgp\<lparr>cg_inosused := clrbit (cg_inosused cgp) cgino\<rparr>;
              cgp = (if int cgino < cg_irotor cgp then cgp\<lparr>cg_irotor := int cgino\<rparr> else cgp);
              (fs, cgp) = add_nifree 1 (fs, cgp);
              (fs, cgp) = (if is_dir mode then add_ndir (- 1) (fs, cgp) else (fs, cgp))
          in Inr (0, bdwrite_cg c (ACTIVECLEAR (set_fmod fs) c) cgp st))"

definition ffs_vfree :: "alloc_env \<Rightarrow> int \<Rightarrow> int \<Rightarrow> alloc_st \<Rightarrow> fault + errno \<times> alloc_st" where
  "ffs_vfree E ino mode st = ffs_freefile E ino mode st"

definition ffs_checkfreefile :: "alloc_env \<Rightarrow> bool \<Rightarrow> int \<Rightarrow> alloc_st \<Rightarrow> bool" where
  "ffs_checkfreefile E is_device ino st =
     (let fs = a_fs st in
      if \<not> is_device then True
      else if fs_ipg fs * fs_ncg fs \<le> ino then True
      else case ffs_getcg E st (nat (ino_to_cg fs ino)) of Inl e \<Rightarrow> True
      | Inr cgp \<Rightarrow> isclr (cg_inosused cgp) (nat (ino mod fs_ipg fs)))"

section \<open>Clusters\<close>

text \<open>The first index from \<open>i\<close> to \<open>i + n - 1\<close> with a positive count.\<close>

fun clus_avail :: "int list \<Rightarrow> nat \<Rightarrow> nat \<Rightarrow> nat option" where
  "clus_avail sump i 0 = None"
| "clus_avail sump i (Suc n) = (if 0 < sump ! i then Some i else clus_avail sump (Suc i) n)"

text \<open>The last block of the first run of \<open>len\<close> blocks at or after \<open>got\<close>; \<open>n\<close> blocks are left to look at.\<close>

fun clus_search :: "byte list \<Rightarrow> nat \<Rightarrow> nat \<Rightarrow> nat \<Rightarrow> nat \<Rightarrow> nat option" where
  "clus_search freemap len got run 0 = None"
| "clus_search freemap len got run (Suc n) =
     (if isset freemap got then
        if Suc run = len then Some got else clus_search freemap len (Suc got) (Suc run) n
      else clus_search freemap len (Suc got) 0 n)"

text \<open>The two loops over the blocks found: all must be free in the block map, and each is allocated.\<close>

fun all_blocks :: "ddfs_fs \<Rightarrow> byte list \<Rightarrow> nat \<Rightarrow> nat \<Rightarrow> fault + unit" where
  "all_blocks fs blksfree h 0 = Inr ()"
| "all_blocks fs blksfree h (Suc n) =
     (case ffs_isblock fs blksfree h of Inl f \<Rightarrow> Inl f
      | Inr False \<Rightarrow> Inl (Panic ''ffs_clusteralloc: map mismatch'')
      | Inr True \<Rightarrow> all_blocks fs blksfree (Suc h) n)"

fun take_cluster :: "alloc_env \<Rightarrow> ddfs_fs \<Rightarrow> cg \<Rightarrow> int \<Rightarrow> nat \<Rightarrow> fault + ddfs_fs \<times> cg" where
  "take_cluster E fs cgp bno 0 = Inr (fs, cgp)"
| "take_cluster E fs cgp bno (Suc n) =
     (case ffs_alloccgblk E fs cgp bno (fs_bsize fs) of Inl f \<Rightarrow> Inl f
      | Inr (b, fs, cgp) \<Rightarrow>
          if b \<noteq> bno then Inl (Panic ''ffs_clusteralloc: lost block'') else take_cluster E fs cgp (bno + fs_frag fs) n)"

definition ffs_clusteralloc :: "alloc_env \<Rightarrow> nat \<Rightarrow> int \<Rightarrow> nat \<Rightarrow> alloc_st \<Rightarrow> fault + int \<times> alloc_st" where
  "ffs_clusteralloc E c bpref len st =
     (let fs = a_fs st in
      case fs_si fs of None \<Rightarrow> Inl NullDeref
      | Some si \<Rightarrow>
        if si_maxcluster si ! c < int len then Inr (0, st)
        else case ffs_getcg E st c of Inl e \<Rightarrow> Inr (0, st)
        | Inr cgp \<Rightarrow>
          (case clus_avail (cg_clustersum cgp) len (Suc (nat (fs_contigsumsize fs)) - len) of
             None \<Rightarrow> Inr (0, st\<lparr>a_fs := fs\<lparr>fs_si := Some (si\<lparr>si_maxcluster := (si_maxcluster si)[c := max_cluster (cg_clustersum cgp) (len - 1)]\<rparr>)\<rparr>\<rparr>)
           | Some _ \<Rightarrow>
             let bpref = (if dtog fs bpref \<noteq> int c then cgdata fs (int c) else blknum fs bpref);
                 start = nat (fragstoblks fs (dtogd fs bpref))
             in case clus_search (cg_clustersfree cgp) len start 0 (nat (cg_nclusterblks cgp) - start) of
                  None \<Rightarrow> Inr (0, st)
                | Some got \<Rightarrow>
                  let first = got + 1 - len; bno = cgbase fs (int c) + blkstofrags fs (int first) in
                  (case all_blocks fs (cg_blksfree cgp) first len of Inl f \<Rightarrow> Inl f
                   | Inr _ \<Rightarrow>
                     if dtog fs bno \<noteq> int c then Inl (Panic ''ffs_clusteralloc: allocated out of group'')
                     else case take_cluster E fs cgp bno len of Inl f \<Rightarrow> Inl f
                     | Inr (fs, cgp) \<Rightarrow> Inr (bno, bdwrite_cg c (ACTIVECLEAR fs c) cgp st))))"

section \<open>Checking an allocation\<close>

fun count_set :: "byte list \<Rightarrow> nat \<Rightarrow> nat \<Rightarrow> nat" where
  "count_set m bno 0 = 0"
| "count_set m bno (Suc n) = (if isset m bno then 1 else 0) + count_set m (Suc bno) n"

definition ffs_checkblk :: "alloc_env \<Rightarrow> int \<Rightarrow> int \<Rightarrow> alloc_st \<Rightarrow> fault + bool" where
  "ffs_checkblk E bno sz st =
     (let fs = a_fs st in
      if fs_bsize fs < sz mod 2 ^ 32 \<or> fragoff fs sz \<noteq> 0 then Inl (Panic ''ffs_checkblk: bad size'')
      else if fs_size fs \<le> bno mod 2 ^ 32 then Inl (Panic ''ffs_checkblk: bad block'')
      else case ffs_getcg E st (nat (dtog fs bno)) of Inl e \<Rightarrow> Inl (Panic ''ffs_checkblk: cylinder group read failed'')
      | Inr cgp \<Rightarrow>
        let cgbno = nat (dtogd fs bno) in
        if sz = fs_bsize fs then
          (case ffs_isblock fs (cg_blksfree cgp) (nat (fragstoblks fs (int cgbno))) of Inl f \<Rightarrow> Inl f | Inr free \<Rightarrow> Inr (\<not> free))
        else
          let frags = nat (numfrags fs sz); free = count_set (cg_blksfree cgp) cgbno frags in
          if free \<noteq> 0 \<and> free \<noteq> frags then Inl (Panic ''ffs_checkblk: partially free fragment'') else Inr (free = 0))"

end
