(* ===== verification/Ddfs_Inodes.thy ===== *)
theory Ddfs_Inodes
  imports Ddfs_Nodes
begin

text \<open>
  Inode allocation against the set of free inodes of the file system: \<open>ffs_nodealloccg\<close> takes one free
  inode of the group, in an initialised inode block, whenever the group has one, \<open>ffs_freefile\<close> gives one
  back, and both keep the inode counts of the groups, the superblock and the maps in agreement.
\<close>

section \<open>State and abstraction\<close>

definition free_inodes :: "alloc_st \<Rightarrow> int set" where
  "free_inodes st = {int c * fs_ipg (a_fs st) + int j | c j. c < length (a_cgs st) \<and> int j < fs_ipg (a_fs st) \<and>
     \<not> isset (cg_inosused (a_cgs st ! c)) j}"

definition clear_below :: "byte list \<Rightarrow> nat \<Rightarrow> nat set" where
  "clear_below m n = {j. j < n \<and> \<not> isset m j}"

definition inodes_ok :: "ddfs_fs \<Rightarrow> cg \<Rightarrow> bool" where
  "inodes_ok fs cgp \<longleftrightarrow> 8 * int (length (cg_inosused cgp)) = fs_ipg fs \<and>
     cs_nifree (cg_cs cgp) = int (card (clear_below (cg_inosused cgp) (nat (fs_ipg fs)))) \<and>
     0 \<le> cg_irotor cgp \<and> cg_irotor cgp < fs_ipg fs \<and> cg_niblk cgp = fs_ipg fs \<and> 0 \<le> cg_initediblk cgp"

definition node_inv :: "alloc_st \<Rightarrow> bool" where
  "node_inv st \<longleftrightarrow> alloc_inv st \<and> 0 < INOPB (a_fs st) \<and> (\<forall>c < length (a_cgs st). inodes_ok (a_fs st) (a_cgs st ! c)) \<and>
     cst_nifree (fs_cstotal (a_fs st)) = (\<Sum>cgp \<leftarrow> a_cgs st. cs_nifree (cg_cs cgp)) \<and> 0 \<notin> free_inodes st"

lemma node_group:
  assumes "node_inv st" "c < length (a_cgs st)"
  shows "alloc_inv st" "cg_ok (a_fs st) (a_cgs st ! c)" "cg_cgx (a_cgs st ! c) = int c" "inodes_ok (a_fs st) (a_cgs st ! c)"
proof -
  show inv: "alloc_inv st" using assms(1) by (simp add: node_inv_def)
  show "cg_ok (a_fs st) (a_cgs st ! c)" "cg_cgx (a_cgs st ! c) = int c" by (rule inv_group[OF inv assms(2)], assumption)+
  show "inodes_ok (a_fs st) (a_cgs st ! c)" using assms by (simp add: node_inv_def)
qed

lemma finite_clear [simp]: "finite (clear_below m n)"
  by (simp add: clear_below_def)

text \<open>The contract of \<open>memcchr\<close>: the first byte that differs. The group can be read again.\<close>

locale node_device = readable +
  assumes memcchr: "n \<le> length xs \<Longrightarrow> e_memcchr E xs b n = index_of (\<lambda>x. x \<noteq> b) (take n xs)"
    and reread_ok: "e_reread_cg E c = 0"

interpretation loop_env: node_device loop_env
  by unfold_locales (simp_all add: loop_env_def)

section \<open>Finding a free inode\<close>

lemma low_clear_spec: "low_clear b i n \<le> i + n \<and> (low_clear b i n < i + n \<longrightarrow> \<not> bit b (low_clear b i n)) \<and>
    (\<forall>j. i \<le> j \<and> j < low_clear b i n \<longrightarrow> bit b j)"
proof (induction b i n rule: low_clear.induct)
  case (2 b i n)
  show ?case
  proof (cases "bit b i")
    case True
    have "bit b j" if "i \<le> j" "j < low_clear b (Suc i) n" for j
      using 2 True that by (cases "j = i") auto
    then show ?thesis using 2 True by auto
  qed auto
qed auto

lemma byte_not_ff: "(b :: byte) \<noteq> 0xff \<longleftrightarrow> (\<exists>i < 8. \<not> bit b i)"
proof -
  have "(0xff :: byte) = mask 8" by (simp add: byte_masks)
  then show ?thesis by (auto simp: bit_eq_iff bit_mask_iff possible_bit_def dest: bit_imp_le_length)
qed

lemma low_clear_byte: "(b :: byte) \<noteq> 0xff \<Longrightarrow> low_clear b 0 8 < 8 \<and> \<not> bit b (low_clear b 0 8)"
  using low_clear_spec[of b 0 8] byte_not_ff[of b] by (metis add_0 le_neq_implies_less zero_le)

context node_device
begin

lemma find_inode_spec:
  assumes "inodes_ok fs cgp" "cs_nifree (cg_cs cgp) \<noteq> 0"
  shows "\<exists>ino. find_inode E fs cgp ipref = Inr ino \<and> int ino < fs_ipg fs \<and> \<not> isset (cg_inosused cgp) ino"
proof -
  let ?m = "cg_inosused cgp"
  have ok: "8 * int (length ?m) = fs_ipg fs" "0 \<le> cg_irotor cgp" "cg_irotor cgp < fs_ipg fs"
    "cs_nifree (cg_cs cgp) = int (card (clear_below ?m (nat (fs_ipg fs))))" using assms(1) by (auto simp: inodes_ok_def)
  have "card (clear_below ?m (nat (fs_ipg fs))) \<noteq> 0" using ok(4) assms(2) by simp
  then have "clear_below ?m (nat (fs_ipg fs)) \<noteq> {}" by auto
  moreover have n: "nat (fs_ipg fs) = 8 * length ?m" using ok(1) by linarith
  ultimately obtain j where j: "j < 8 * length ?m" "\<not> isset ?m j" unfolding n by (auto simp: clear_below_def)
  have bj: "j div 8 < length ?m" "?m ! (j div 8) \<noteq> 0xff" using j unfolding byte_not_ff by (auto simp: isset_bit intro!: exI[of _ "j mod 8"])
  have hit: "int ((i * 8 + low_clear (?m ! i) 0 8)) < fs_ipg fs \<and> \<not> isset ?m (i * 8 + low_clear (?m ! i) 0 8)"
    if "i < length ?m" "?m ! i \<noteq> 0xff" for i
    using low_clear_byte[OF that(2)] that(1) ok(1) by (auto simp: isset_bit)
  define s where "s = nat (cg_irotor cgp div 8)"
  have s: "s < length ?m" "nat (howmany (fs_ipg fs - cg_irotor cgp) 8) = length ?m - s"
    using ok(1-3) unfolding s_def howmany_def by linarith+
  show ?thesis
  proof (cases "ipref \<noteq> 0 \<and> isclr ?m (nat (ipref mod fs_ipg fs))")
    case True
    have "0 < fs_ipg fs" using ok(2,3) by linarith
    then show ?thesis using True by (simp add: find_inode_def isclr_isset)
  next
    case False
    note unf = find_inode_def Let_def if_not_P[OF False] s_def[symmetric] s(2)
    have l: "length ?m - s \<le> length (drop s ?m)" "s + 1 \<le> length ?m" using s(1) by auto
    note sc = memcchr[OF l(1), of "0xff"] memcchr[OF l(2), of "0xff"]
    show ?thesis
    proof (cases "index_of (\<lambda>x. x \<noteq> (0xff :: byte)) (take (length ?m - s) (drop s ?m))")
      case (Some i)
      have "i < length ?m - s" "?m ! (s + i) \<noteq> 0xff" using index_of_SomeD(1,2)[OF Some] by auto
      then show ?thesis using hit[of "s + i"] Some unfolding unf sc by simp
    next
      case None
      have "j div 8 < s"
      proof (rule ccontr)
        assume "\<not> j div 8 < s"
        then have "?m ! (j div 8) \<in> set (take (length ?m - s) (drop s ?m))"
          using bj(1) by (auto simp: in_set_conv_nth intro!: exI[of _ "j div 8 - s"])
        then show False using None bj(2) by (auto simp: index_of_None)
      qed
      then have "?m ! (j div 8) \<in> set (take (s + 1) ?m)" using s(1) by (auto simp: in_set_conv_nth intro!: exI[of _ "j div 8"])
      then obtain i where i: "index_of (\<lambda>x. x \<noteq> (0xff :: byte)) (take (s + 1) ?m) = Some i"
        using bj(2) index_of_ex[of _ "take (s + 1) ?m" "\<lambda>x. x \<noteq> (0xff :: byte)"] by blast
      have "i < length ?m" "?m ! i \<noteq> 0xff" using index_of_SomeD(1,2)[OF i] by auto
      then show ?thesis using hit[of i] None i unfolding unf sc by simp
    qed
  qed
qed

end

section \<open>Writing a group back\<close>

lemma acct_nifree:
  "add_nifree n (fs, cgp) = (fs', cgp') \<Longrightarrow> nat (cg_cgx cgp) = c \<Longrightarrow>
   acct c (cg_cs cgp) (cg_cs cgp') fs fs' \<and> cgp' = cgp\<lparr>cg_cs := (cg_cs cgp)\<lparr>cs_nifree := cs_nifree (cg_cs cgp) + n\<rparr>\<rparr>"
  by (auto simp: add_nifree_def acct_def upd_cs_def upd_total_def)

lemma acct_ndir:
  "add_ndir n (fs, cgp) = (fs', cgp') \<Longrightarrow> nat (cg_cgx cgp) = c \<Longrightarrow>
   acct c (cg_cs cgp) (cg_cs cgp') fs fs' \<and> cgp' = cgp\<lparr>cg_cs := (cg_cs cgp)\<lparr>cs_ndir := cs_ndir (cg_cs cgp) + n\<rparr>\<rparr>"
  by (auto simp: add_ndir_def acct_def upd_cs_def upd_total_def)

lemma geom_inodes: "geom_eq fs' fs \<Longrightarrow> fs_ipg fs' = fs_ipg fs \<and> INOPB fs' = INOPB fs"
  by (subst (1 2) geom_form, assumption+) (simp add: INOPB_def)

lemma geom_eq_trans_iff: "geom_eq b a \<Longrightarrow> geom_eq c b \<longleftrightarrow> geom_eq c a"
  by (cases a, cases b, cases c) (auto simp: geom_eq_def)

text \<open>\<open>inode_write c cgp\<close>: what is written differs from the old group in its inode map, the counts and the rotor only.\<close>

definition same_blocks :: "cg \<Rightarrow> cg \<Rightarrow> bool" where
  "same_blocks cgp cgp' \<longleftrightarrow> cg_blksfree cgp' = cg_blksfree cgp \<and> cg_frsum cgp' = cg_frsum cgp \<and> cg_rotor cgp' = cg_rotor cgp \<and>
     cg_frotor cgp' = cg_frotor cgp \<and> cg_cgx cgp' = cg_cgx cgp \<and> cg_magic cgp' = cg_magic cgp \<and> cg_ndblk cgp' = cg_ndblk cgp \<and>
     cg_niblk cgp' = cg_niblk cgp \<and> cs_nbfree (cg_cs cgp') = cs_nbfree (cg_cs cgp) \<and> cs_nffree (cg_cs cgp') = cs_nffree (cg_cs cgp)"

lemma same_blocks_ok:
  assumes "same_blocks cgp cgp'"
  shows "cg_ok fs cgp' \<longleftrightarrow> cg_ok fs cgp"
proof -
  note eqs = assms[unfolded same_blocks_def]
  show ?thesis unfolding cg_ok_def counts_ok_def conjunct1[OF eqs] conjunct2[OF eqs, THEN conjunct1]
    by (simp only: eqs)
qed

lemma free_inodes_put:
  assumes "c < length (a_cgs st)" "fs_ipg fs' = fs_ipg (a_fs st)" "int i < fs_ipg (a_fs st)"
    "\<And>j. j \<noteq> i \<Longrightarrow> isset (cg_inosused cgp') j \<longleftrightarrow> isset (cg_inosused (a_cgs st ! c)) j"
  shows "free_inodes (bdwrite_cg c fs' cgp' st) =
    (let x = int c * fs_ipg (a_fs st) + int i in if isset (cg_inosused cgp') i then free_inodes st - {x} else insert x (free_inodes st))"
proof -
  let ?ipg = "fs_ipg (a_fs st)"
  let ?x = "int c * ?ipg + int i"
  have inj: "d = c \<and> j = i" if "int d * ?ipg + int j = ?x" "int j < ?ipg" for d j
  proof -
    have "(int d * ?ipg + int j) div ?ipg = int d" "?x div ?ipg = int c" using that(2) assms(3) by simp_all
    then have "d = c" using that(1) by simp
    then show ?thesis using that(1) by simp
  qed
  have mem: "y \<in> free_inodes (bdwrite_cg c fs' cgp' st) \<longleftrightarrow> (if y = ?x then \<not> isset (cg_inosused cgp') i else y \<in> free_inodes st)" for y
  proof (cases "y = ?x")
    case True
    have "y \<in> free_inodes (bdwrite_cg c fs' cgp' st) \<longleftrightarrow>
        (\<exists>d j. int d * ?ipg + int j = ?x \<and> int j < ?ipg \<and> d < length (a_cgs st) \<and> \<not> isset (cg_inosused ((a_cgs st)[c := cgp'] ! d)) j)"
      unfolding free_inodes_def bdwrite_cg_def True by (auto simp: assms(2) eq_commute)
    also have "\<dots> \<longleftrightarrow> \<not> isset (cg_inosused cgp') i"
    proof
      assume "\<not> isset (cg_inosused cgp') i"
      then show "\<exists>d j. int d * ?ipg + int j = ?x \<and> int j < ?ipg \<and> d < length (a_cgs st) \<and> \<not> isset (cg_inosused ((a_cgs st)[c := cgp'] ! d)) j"
        using assms(1,3) by (intro exI[of _ c] exI[of _ i]) simp
    qed (use inj assms(1) in fastforce)
    finally show ?thesis using True by simp
  next
    case False
    have "isset (cg_inosused ((a_cgs st)[c := cgp'] ! d)) j \<longleftrightarrow> isset (cg_inosused (a_cgs st ! d)) j"
      if "y = int d * ?ipg + int j" "d < length (a_cgs st)" for d j
      using assms(4)[of j] that False by (cases "d = c") auto
    then show ?thesis using False assms(2) by (auto simp: free_inodes_def bdwrite_cg_def)
  qed
  show ?thesis by (rule set_eqI) (simp add: mem Let_def)
qed

lemma free_set_same:
  assumes "c < length (a_cgs st)" "geom_eq fs' (a_fs st)" "cg_blksfree cgp' = cg_blksfree (a_cgs st ! c)"
  shows "free_set (bdwrite_cg c fs' cgp' st) = free_set st"
proof -
  have "cg_blksfree ((a_cgs st)[c := cgp'] ! d) = cg_blksfree (a_cgs st ! d)" for d
    using assms(1,3) by (cases "d = c") auto
  then show ?thesis by (simp add: free_set_def bdwrite_cg_def geom_eqD(6)[OF assms(2)])
qed

lemma write_inodes:
  assumes "node_inv st" "c < length (a_cgs st)" "acct c (cg_cs (a_cgs st ! c)) (cg_cs cgp') (a_fs st) fs'"
    "same_blocks (a_cgs st ! c) cgp'" "inodes_ok (a_fs st) cgp'" "0 \<notin> free_inodes (bdwrite_cg c fs' cgp' st)"
  shows "node_inv (bdwrite_cg c fs' cgp' st) \<and> free_set (bdwrite_cg c fs' cgp' st) = free_set st"
proof -
  have i: "alloc_inv st" "cg_ok (a_fs st) (a_cgs st ! c)" "cg_cgx (a_cgs st ! c) = int c"
    by (rule node_group[OF assms(1,2)])+
  note g = acct_geom[OF assms(3)]
  have "group_write (a_fs st, a_cgs st ! c) (fs', cgp')"
    using assms(3,4) same_blocks_ok[OF assms(4), of "a_fs st"] i(2,3) by (simp add: group_write_def same_blocks_def)
  moreover have fs: "free_set (bdwrite_cg c fs' cgp' st) = free_set st"
    using assms(4) by (intro free_set_same[OF assms(2) g]) (simp add: same_blocks_def)
  ultimately have inv: "alloc_inv (bdwrite_cg c fs' cgp' st)"
    using write_group[OF i(1) assms(2)] i(1) by (simp add: alloc_inv_def)
  have ok: "inodes_ok fs' = inodes_ok (a_fs st)" "INOPB fs' = INOPB (a_fs st)"
    using geom_inodes[OF g] by (simp_all add: inodes_ok_def fun_eq_iff)
  have "inodes_ok (a_fs st) ((a_cgs st)[c := cgp'] ! d)" if "d < length (a_cgs st)" for d
    using assms(1,2,5) that by (cases "d = c") (auto simp: node_inv_def)
  then show ?thesis using assms(1-3,6) inv fs ok
    by (auto simp: node_inv_def bdwrite_cg_def sum_list_put acct_def)
qed

section \<open>Taking an inode\<close>

lemma clear_below_set: "j div 8 < length m \<Longrightarrow> clear_below (setbit m j) n = clear_below m n - {j}"
  by (auto simp: clear_below_def isset_setbit)

lemma clear_below_clr: "j div 8 < length m \<Longrightarrow> j < n \<Longrightarrow> clear_below (clrbit m j) n = insert j (clear_below m n)"
  by (auto simp: clear_below_def isset_clrbit)

lemma card_remove_int: "finite S \<Longrightarrow> x \<in> S \<Longrightarrow> int (card (S - {x})) = int (card S) - 1"
  using card_Suc_Diff1[of S x] by simp

text \<open>\<open>takes_inode c mode st j st'\<close>: inode \<open>j\<close> of group \<open>c\<close> was free and is taken, in an initialised block.\<close>

definition inode_no :: "alloc_st \<Rightarrow> nat \<Rightarrow> nat \<Rightarrow> int" where
  "inode_no st c j = int c * fs_ipg (a_fs st) + int j"

definition takes_inode :: "nat \<Rightarrow> int \<Rightarrow> alloc_st \<Rightarrow> nat \<Rightarrow> alloc_st \<Rightarrow> bool" where
  "takes_inode c mode st j st' \<longleftrightarrow> node_inv st' \<and> int j < fs_ipg (a_fs st) \<and> inode_no st c j \<in> free_inodes st \<and>
     free_inodes st' = free_inodes st - {inode_no st c j} \<and> free_set st' = free_set st \<and>
     geom_eq (a_fs st') (a_fs st) \<and> length (a_cgs st') = length (a_cgs st) \<and> int j < cg_initediblk (a_cgs st' ! c) \<and>
     cst_ndir (fs_cstotal (a_fs st')) = cst_ndir (fs_cstotal (a_fs st)) + of_bool (is_dir mode)"

lemma active_same: "geom_eq (ACTIVECLEAR fs c) fs \<and> acct c cs cs fs (ACTIVECLEAR fs c)"
  using acct_active[OF acct_refl] acct_geom by blast

lemma take_inode_spec:
  assumes "node_inv st" "c < length (a_cgs st)" "cgp = (a_cgs st ! c)\<lparr>cg_initediblk := n\<rparr>" "int j < n"
    "int j < fs_ipg (a_fs st)" "\<not> isset (cg_inosused cgp) j"
  shows "\<exists>st'. take_inode c mode j cgp st = (inode_no st c j, st') \<and> takes_inode c mode st j st' \<and> a_iblks st' = a_iblks st"
proof -
  let ?fs = "a_fs st" and ?old = "a_cgs st ! c"
  have ok: "inodes_ok ?fs ?old" "nat (cg_cgx ?old) = c" using node_group[OF assms(1,2)] by simp_all
  have j: "j div 8 < length (cg_inosused ?old)" using ok(1) assms(5) unfolding inodes_ok_def by linarith
  define c1 where "c1 = cgp\<lparr>cg_irotor := int j, cg_inosused := setbit (cg_inosused cgp) j\<rparr>"
  obtain f2 c2 where n2: "add_nifree (- 1) (ACTIVECLEAR ?fs c, c1) = (f2, c2)" by fastforce
  obtain f3 c3 where n3: "(if is_dir mode then add_ndir 1 (set_fmod f2, c2) else (set_fmod f2, c2)) = (f3, c3)" by fastforce
  have c1: "nat (cg_cgx c1) = c" "cg_cs c1 = cg_cs ?old" using ok(2) by (simp_all add: c1_def assms(3))
  note a2 = acct_nifree[OF n2 c1(1)]
  have g2: "nat (cg_cgx c2) = c" using a2 c1(1) by simp
  have a3: "acct c (cg_cs c2) (cg_cs c3) (set_fmod f2) f3 \<and> c3 = c2\<lparr>cg_cs := (cg_cs c2)\<lparr>cs_ndir := cs_ndir (cg_cs c2) + of_bool (is_dir mode)\<rparr>\<rparr>"
    using n3 acct_ndir[of 1 "set_fmod f2" c2 f3 c3 c] g2 by (auto split: if_splits)
  have "acct c (cg_cs ?old) (cg_cs c2) ?fs (set_fmod f2)"
    using active_same[of ?fs c "cg_cs ?old"] a2 c1(2) by (intro acct_fmod) (metis acct_trans)
  then have ac: "acct c (cg_cs ?old) (cg_cs c3) ?fs f3" using a3 acct_trans by blast
  have c3: "cg_inosused c3 = setbit (cg_inosused ?old) j" "cg_initediblk c3 = n" "same_blocks ?old c3" "cg_irotor c3 = int j"
      "cg_niblk c3 = cg_niblk ?old" "cs_nifree (cg_cs c3) = cs_nifree (cg_cs ?old) - 1"
      "cs_ndir (cg_cs c3) = cs_ndir (cg_cs ?old) + of_bool (is_dir mode)"
    using a2 a3 by (simp_all add: same_blocks_def c1_def assms(3))
  have mem: "j \<in> clear_below (cg_inosused ?old) (nat (fs_ipg ?fs))" using assms(3,5,6) by (simp add: clear_below_def)
  have "inodes_ok ?fs c3" using ok(1) assms(4,5)
    by (simp add: inodes_ok_def c3 clear_below_set[OF j] card_remove_int[OF finite_clear mem])
  moreover have fi: "free_inodes (bdwrite_cg c f3 c3 st) = free_inodes st - {inode_no st c j}"
    using free_inodes_put[OF assms(2) _ assms(5), of f3 c3] geom_inodes[OF acct_geom[OF ac]]
    by (simp add: c3 isset_setbit[OF j] Let_def inode_no_def)
  moreover have "inode_no st c j \<in> free_inodes st" using assms(2,3,5,6) by (auto simp: free_inodes_def inode_no_def)
  moreover have "0 \<notin> free_inodes (bdwrite_cg c f3 c3 st)" using assms(1) fi by (simp add: node_inv_def)
  moreover have "take_inode c mode j cgp st = (inode_no st c j, bdwrite_cg c f3 c3 st)"
    using n2 n3 geom_inodes[OF acct_geom[OF ac]] by (simp add: take_inode_def Let_def c1_def inode_no_def)
  ultimately show ?thesis
    using write_inodes[OF assms(1,2) ac c3(3)] ac assms(2,4,5) acct_geom[OF ac] c3(2,7) unfolding takes_inode_def
    by (auto simp: bdwrite_cg_def acct_def)
qed

text \<open>The restarts: a block of inodes is initialised, and nothing else changes.\<close>

lemma init_block:
  assumes "node_inv st" "c < length (a_cgs st)"
  shows "node_inv (st\<lparr>a_iblks := x, a_fs := ACTIVECLEAR (a_fs st) c\<rparr>)"
    "free_inodes (st\<lparr>a_iblks := x, a_fs := ACTIVECLEAR (a_fs st) c\<rparr>) = free_inodes st"
    "free_set (st\<lparr>a_iblks := x, a_fs := ACTIVECLEAR (a_fs st) c\<rparr>) = free_set st"
proof -
  let ?st = "bdwrite_cg c (ACTIVECLEAR (a_fs st) c) (a_cgs st ! c) st"
  have eq: "st\<lparr>a_iblks := x, a_fs := ACTIVECLEAR (a_fs st) c\<rparr> = ?st\<lparr>a_iblks := x\<rparr>" by (simp add: bdwrite_cg_def)
  have ipg: "fs_ipg (ACTIVECLEAR (a_fs st) c) = fs_ipg (a_fs st)" by (simp add: ACTIVECLEAR_def)
  have iblks: "node_inv (s\<lparr>a_iblks := x\<rparr>) = node_inv s" "free_inodes (s\<lparr>a_iblks := x\<rparr>) = free_inodes s"
    "free_set (s\<lparr>a_iblks := x\<rparr>) = free_set s" for s
    by (simp_all add: node_inv_def alloc_inv_def free_inodes_def free_set_def cong: option.case_cong)
  have fi: "free_inodes ?st = free_inodes st" using ipg by (simp add: free_inodes_def bdwrite_cg_def)
  then have "node_inv ?st \<and> free_set ?st = free_set st"
    using write_inodes[OF assms active_same[THEN conjunct2]] node_group[OF assms] assms(1) by (simp add: same_blocks_def node_inv_def)
  then show "node_inv (st\<lparr>a_iblks := x, a_fs := ACTIVECLEAR (a_fs st) c\<rparr>)"
    "free_inodes (st\<lparr>a_iblks := x, a_fs := ACTIVECLEAR (a_fs st) c\<rparr>) = free_inodes st"
    "free_set (st\<lparr>a_iblks := x, a_fs := ACTIVECLEAR (a_fs st) c\<rparr>) = free_set st"
    unfolding eq iblks fi by simp_all
qed

text \<open>The block of inode \<open>j\<close> of group \<open>c\<close> was initialised before, or has been since, if the groups have whole blocks of inodes initialised.\<close>

definition block_ready :: "nat \<Rightarrow> alloc_st \<Rightarrow> nat \<Rightarrow> alloc_st \<Rightarrow> bool" where
  "block_ready c st j st' \<longleftrightarrow> INOPB (a_fs st) dvd cg_initediblk (a_cgs st ! c) \<longrightarrow>
     int j < cg_initediblk (a_cgs st ! c) \<or> map_of (a_iblks st') (ino_to_fsba (a_fs st) (inode_no st c j)) \<noteq> None"

lemma same_inode_block:
  assumes "0 \<le> n" "n \<le> j" "j < n + INOPB fs" "INOPB fs dvd n" "j < fs_ipg fs"
  shows "ino_to_fsba fs (int c * fs_ipg fs + j) = ino_to_fsba fs (int c * fs_ipg fs + n)"
proof -
  obtain k where k: "n = INOPB fs * k" using assms(4) by blast
  have P: "0 < INOPB fs" using assms(2,3) by linarith
  have "j div INOPB fs = k" by (rule int_div_pos_eq[where r = "j - n"]) (use assms(2,3) k in simp_all)
  moreover have "n div INOPB fs = k" using P by (simp add: k)
  moreover have "(int c * fs_ipg fs + x) div fs_ipg fs = int c" "(int c * fs_ipg fs + x) mod fs_ipg fs = x" if "0 \<le> x" "x < fs_ipg fs" for x
    using that by simp_all
  ultimately show ?thesis using assms(1,2,5) by (simp add: ino_to_fsba_def ino_to_cg_def)
qed

text \<open>A group has room for an inode, and an inode has been taken in some group.\<close>

definition inode_room :: "alloc_st \<Rightarrow> nat \<Rightarrow> bool" where
  "inode_room st c \<longleftrightarrow> (\<exists>j. inode_no st c j \<in> free_inodes st \<and> int j < fs_ipg (a_fs st))"

definition new_inode :: "int \<Rightarrow> alloc_st \<Rightarrow> int \<Rightarrow> alloc_st \<Rightarrow> bool" where
  "new_inode mode st ino st' \<longleftrightarrow> (\<exists>c j. ino = inode_no st c j \<and> c < length (a_cgs st) \<and> takes_inode c mode st j st' \<and> block_ready c st j st')"

context node_device
begin

lemma nodealloc_spec:
  assumes "node_inv st" "c < length (a_cgs st)" "cgp = (a_cgs st ! c)\<lparr>cg_initediblk := n\<rparr>" "0 \<le> n"
    "cs_nifree (cg_cs cgp) \<noteq> 0"
  shows "\<exists>j st'. nodealloc E c mode ipref cgp st = Inr (inode_no st c j, st') \<and> takes_inode c mode st j st' \<and>
    (\<forall>b. map_of (a_iblks st) b \<noteq> None \<longrightarrow> map_of (a_iblks st') b \<noteq> None) \<and>
    (INOPB (a_fs st) dvd n \<longrightarrow> int j < n \<or> map_of (a_iblks st') (ino_to_fsba (a_fs st) (inode_no st c j)) \<noteq> None)"
  using assms
proof (induction "nat (fs_ipg (a_fs st) - n)" arbitrary: st n cgp ipref rule: less_induct)
  case less
  let ?fs = "a_fs st"
  note grp = node_group[OF less.prems(1,2)]
  have ok: "inodes_ok ?fs cgp" "cg_initediblk cgp = n" "cg_niblk cgp = fs_ipg ?fs"
    using grp(4) less.prems(3,4) by (simp_all add: inodes_ok_def)
  have fs: "fs_magic ?fs = FS_DDFS_MAGIC" "0 < INOPB ?fs" "\<not> INOPB ?fs \<le> 0"
    using less.prems(1) fs_okD(6) by (simp_all add: node_inv_def alloc_inv_def)
  obtain j where j: "find_inode E ?fs cgp ipref = Inr j" "int j < fs_ipg ?fs" "\<not> isset (cg_inosused cgp) j"
    using find_inode_spec[OF ok(1) less.prems(5)] by blast
  note unf = nodealloc.simps[of E c mode ipref cgp st, unfolded j(1) Let_def ok fs(1), simplified less.prems(5) fs(3) reread_ok, simplified]
  show ?case
  proof (cases "n < int j + INOPB ?fs \<and> n < fs_ipg ?fs")
    case True
    let ?st = "st\<lparr>a_iblks := (ino_to_fsba ?fs (int c * fs_ipg ?fs + n), map (e_gen E (ino_to_fsba ?fs (int c * fs_ipg ?fs + n))) [0..<nat (INOPB ?fs)]) # a_iblks st,
      a_fs := ACTIVECLEAR ?fs c\<rparr>"
    note ib = init_block[OF less.prems(1,2)]
    have geo: "geom_eq (ACTIVECLEAR ?fs c) ?fs" using active_same by blast
    have ipg: "fs_ipg (ACTIVECLEAR ?fs c) = fs_ipg ?fs" using geom_inodes[OF geo] by blast
    have m: "nat (fs_ipg (a_fs ?st) - (n + INOPB ?fs)) < nat (fs_ipg ?fs - n)" using True fs(2) ipg by simp
    have inb: "INOPB (a_fs ?st) = INOPB ?fs" "ino_to_fsba (a_fs ?st) = ino_to_fsba ?fs"
      by (simp_all add: ACTIVECLEAR_def INOPB_def ino_to_fsba_def cgimin_def cgstart_def cgbase_def ino_to_cg_def blkstofrags_def fun_eq_iff)
    have no: "inode_no ?st c i = inode_no st c i" for i by (simp add: inode_no_def ipg)
    have tk: "takes_inode c mode ?st i st' = takes_inode c mode st i st'" for i st'
      using ib geom_eq_trans_iff[OF geo] by (simp add: takes_inode_def inode_no_def ipg) (simp add: ACTIVECLEAR_def)
    obtain i st' where i: "nodealloc E c mode (int j) (cgp\<lparr>cg_initediblk := n + INOPB ?fs\<rparr>) ?st = Inr (inode_no st c i, st')" "takes_inode c mode st i st'"
      "\<And>b. map_of (a_iblks ?st) b \<noteq> None \<Longrightarrow> map_of (a_iblks st') b \<noteq> None"
      "INOPB ?fs dvd n + INOPB ?fs \<Longrightarrow> int i < n + INOPB ?fs \<or> map_of (a_iblks st') (ino_to_fsba ?fs (inode_no st c i)) \<noteq> None"
      using less.hyps[OF m, of "cgp\<lparr>cg_initediblk := n + INOPB ?fs\<rparr>" "int j", unfolded no tk inb] ib less.prems fs(2) by auto
    have "int i < n \<or> map_of (a_iblks st') (ino_to_fsba ?fs (inode_no st c i)) \<noteq> None" if "INOPB ?fs dvd n"
    proof (cases "n \<le> int i \<and> int i < n + INOPB ?fs")
      case True
      have "int i < fs_ipg ?fs" using i(2) by (simp add: takes_inode_def)
      then have "ino_to_fsba ?fs (inode_no st c i) = ino_to_fsba ?fs (int c * fs_ipg ?fs + n)"
        unfolding inode_no_def using True that less.prems(4) by (intro same_inode_block) simp_all
      then show ?thesis using i(3)[of "ino_to_fsba ?fs (int c * fs_ipg ?fs + n)"] by simp
    next
      case False
      then show ?thesis using i(4) that by auto
    qed
    moreover have "map_of (a_iblks st') b \<noteq> None" if "map_of (a_iblks st) b \<noteq> None" for b
      by (rule i(3)) (use that in simp)
    ultimately show ?thesis using i(1,2) unfolding unf if_P[OF True] by (intro exI[of _ i] exI[of _ st']) simp
  next
    case False
    then have "int j < n" using fs(2) j(2) by linarith
    then obtain st' where "take_inode c mode j cgp st = (inode_no st c j, st')" "takes_inode c mode st j st'" "a_iblks st' = a_iblks st"
      using take_inode_spec[OF less.prems(1-3) _ j(2,3)] by blast
    then show ?thesis using \<open>int j < n\<close> unfolding unf if_not_P[OF False] by (intro exI[of _ j] exI[of _ st']) simp
  qed
qed

lemma nodealloccg_spec:
  assumes "node_inv st" "c < length (a_cgs st)"
  shows "if \<exists>j. inode_no st c j \<in> free_inodes st \<and> int j < fs_ipg (a_fs st)
    then \<exists>j st'. ffs_nodealloccg E mode c ipref st = Inr (inode_no st c j, st') \<and> takes_inode c mode st j st' \<and> block_ready c st j st'
    else ffs_nodealloccg E mode c ipref st = Inr (0, st)"
proof -
  note grp = node_group[OF assms]
  have cs: "fs_cs (a_fs st) c = cg_cs (a_cgs st ! c)" by (rule inv_cs[OF grp(1) assms(2)])
  have ipg: "0 < fs_ipg (a_fs st)" using grp(4) unfolding inodes_ok_def by linarith
  have mem: "inode_no st c j \<in> free_inodes st \<longleftrightarrow> j \<in> clear_below (cg_inosused (a_cgs st ! c)) (nat (fs_ipg (a_fs st)))"
    if "int j < fs_ipg (a_fs st)" for j
  proof -
    have "d = c \<and> i = j" if "int d * fs_ipg (a_fs st) + int i = inode_no st c j" "int i < fs_ipg (a_fs st)" for d i
    proof -
      have "(int d * fs_ipg (a_fs st) + int i) div fs_ipg (a_fs st) = int d" "inode_no st c j div fs_ipg (a_fs st) = int c"
        using \<open>int j < fs_ipg (a_fs st)\<close> that(2) ipg by (simp_all add: inode_no_def)
      then have "d = c" using that(1) by simp
      then show ?thesis using that(1) by (simp add: inode_no_def)
    qed
    moreover have "int c * fs_ipg (a_fs st) + int j = inode_no st c j" by (simp add: inode_no_def)
    moreover have "j < nat (fs_ipg (a_fs st))" using that by simp
    ultimately show ?thesis using that assms(2) unfolding free_inodes_def clear_below_def mem_Collect_eq by metis
  qed
  have lt: "int j < fs_ipg (a_fs st)" if "j \<in> clear_below (cg_inosused (a_cgs st ! c)) (nat (fs_ipg (a_fs st)))" for j
    using that unfolding clear_below_def mem_Collect_eq by linarith
  have "(\<exists>j. inode_no st c j \<in> free_inodes st \<and> int j < fs_ipg (a_fs st)) \<longleftrightarrow>
      clear_below (cg_inosused (a_cgs st ! c)) (nat (fs_ipg (a_fs st))) \<noteq> {}"
    using mem lt by blast
  then have ex: "(\<exists>j. inode_no st c j \<in> free_inodes st \<and> int j < fs_ipg (a_fs st)) \<longleftrightarrow> cs_nifree (cg_cs (a_cgs st ! c)) \<noteq> 0"
    using grp(4) by (simp add: inodes_ok_def)
  have eta: "a_cgs st ! c = (a_cgs st ! c)\<lparr>cg_initediblk := cg_initediblk (a_cgs st ! c)\<rparr>" by simp
  have "0 \<le> cg_initediblk (a_cgs st ! c)" using grp(4) by (simp add: inodes_ok_def)
  from nodealloc_spec[OF assms eta this] show ?thesis unfolding ex
    by (simp add: ffs_nodealloccg_def cs getcg_ok[OF grp(1) assms(2)] block_ready_def) blast
qed

text \<open>Freeing: the inode is back in the set, or was there already and the kernel stops.\<close>

lemma freefile_spec:
  assumes "node_inv st" "c < length (a_cgs st)" "int j < fs_ipg (a_fs st)" "ino = inode_no st c j" "0 < ino" "fs_ronly (a_fs st) = 0"
  shows "if isset (cg_inosused (a_cgs st ! c)) j
    then \<exists>st'. ffs_freefile E ino mode st = Inr (0, st') \<and> node_inv st' \<and> free_inodes st' = insert ino (free_inodes st) \<and>
      free_set st' = free_set st \<and> cst_ndir (fs_cstotal (a_fs st')) = cst_ndir (fs_cstotal (a_fs st)) - of_bool (is_dir mode) \<and> geom_eq (a_fs st') (a_fs st)
    else ino \<in> free_inodes st \<and> ffs_freefile E ino mode st = Inl (Panic ''ffs_freefile: freeing free inode'')"
proof -
  let ?fs = "a_fs st" and ?old = "a_cgs st ! c" and ?ipg = "fs_ipg (a_fs st)"
  note grp = node_group[OF assms(1,2)]
  have len: "length (a_cgs st) = nat (fs_ncg ?fs)" using grp(1) by (simp add: alloc_inv_def)
  have cj: "nat (ino_to_cg ?fs ino) = c" "nat (ino mod ?ipg) = j" using assms(3,4) by (simp_all add: ino_to_cg_def inode_no_def)
  have "int c + 1 \<le> fs_ncg ?fs" using assms(2) len by simp
  then have "(int c + 1) * ?ipg \<le> fs_ncg ?fs * ?ipg" using assms(3) by (intro mult_right_mono) simp_all
  then have range: "\<not> ?ipg * fs_ncg ?fs \<le> ino" using assms(3,4) by (simp add: inode_no_def algebra_simps)
  have cgx: "nat (cg_cgx ?old) = c" using grp(3) by simp
  have jl: "j div 8 < length (cg_inosused ?old)" using grp(4) assms(3) unfolding inodes_ok_def by linarith
  note unf = ffs_freefile_def Let_def cj if_not_P[OF range] getcg_ok[OF grp(1) assms(2)] sum.case isclr_isset assms(6)
  show ?thesis
  proof (cases "isset (cg_inosused ?old) j")
    case False
    then have "ino \<in> free_inodes st" using assms(2-4) by (auto simp: free_inodes_def inode_no_def)
    then show ?thesis using False unfolding unf by simp
  next
    case True
    define c0 where "c0 = ?old\<lparr>cg_inosused := clrbit (cg_inosused ?old) j\<rparr>"
    define c1 where "c1 = (if int j < cg_irotor c0 then c0\<lparr>cg_irotor := int j\<rparr> else c0)"
    obtain f2 c2 where n2: "add_nifree 1 (?fs, c1) = (f2, c2)" by fastforce
    obtain f3 c3 where n3: "(if is_dir mode then add_ndir (- 1) (f2, c2) else (f2, c2)) = (f3, c3)" by fastforce
    have c1: "nat (cg_cgx c1) = c" "cg_cs c1 = cg_cs ?old" using cgx by (simp_all add: c1_def c0_def)
    note a2 = acct_nifree[OF n2 c1(1)]
    have g2: "nat (cg_cgx c2) = c" using a2 c1(1) by simp
    have a3: "acct c (cg_cs c2) (cg_cs c3) f2 f3 \<and> c3 = c2\<lparr>cg_cs := (cg_cs c2)\<lparr>cs_ndir := cs_ndir (cg_cs c2) - of_bool (is_dir mode)\<rparr>\<rparr>"
      using n3 acct_ndir[of "- 1" f2 c2 f3 c3 c] g2 by (auto split: if_splits)
    define fs' where "fs' = ACTIVECLEAR (set_fmod f3) c"
    have "acct c (cg_cs ?old) (cg_cs c3) ?fs f3" using a2 a3 c1(2) acct_trans by metis
    then have ac: "acct c (cg_cs ?old) (cg_cs c3) ?fs fs'" unfolding fs'_def by (intro acct_active acct_fmod)
    have c3: "cg_inosused c3 = clrbit (cg_inosused ?old) j" "cg_initediblk c3 = cg_initediblk ?old" "same_blocks ?old c3"
        "cg_irotor c3 = (if int j < cg_irotor ?old then int j else cg_irotor ?old)" "cg_niblk c3 = cg_niblk ?old"
        "cs_nifree (cg_cs c3) = cs_nifree (cg_cs ?old) + 1"
        "cs_ndir (cg_cs c3) = cs_ndir (cg_cs ?old) - of_bool (is_dir mode)"
      using a2 a3 by (simp_all add: same_blocks_def c1_def c0_def)
    have "j \<notin> clear_below (cg_inosused ?old) (nat ?ipg)" "j < nat ?ipg" using True assms(3) by (simp_all add: clear_below_def)
    then have "inodes_ok ?fs c3" using grp(4) assms(3)
      by (simp add: inodes_ok_def c3 clear_below_clr[OF jl])
    moreover have fi: "free_inodes (bdwrite_cg c fs' c3 st) = insert ino (free_inodes st)"
      using free_inodes_put[OF assms(2) _ assms(3), of fs' c3] geom_inodes[OF acct_geom[OF ac]]
      by (simp add: c3 isset_clrbit[OF jl] Let_def inode_no_def assms(4))
    moreover have "0 \<notin> free_inodes (bdwrite_cg c fs' c3 st)" using assms(1,5) fi by (simp add: node_inv_def)
    ultimately have "node_inv (bdwrite_cg c fs' c3 st) \<and> free_set (bdwrite_cg c fs' c3 st) = free_set st"
      using write_inodes[OF assms(1,2) ac c3(3)] by blast
    moreover have "ffs_freefile E ino mode st = Inr (0, bdwrite_cg c fs' c3 st)"
    proof -
      have "\<not> (\<not> isset (cg_inosused ?old) j \<and> (0 :: int) = 0)" using True by simp
      then show ?thesis
        unfolding unf fs'_def c0_def[symmetric] unfolding c1_def[symmetric] n2 prod.case unfolding n3 prod.case by (rule if_not_P)
    qed
    moreover have "cst_ndir (fs_cstotal fs') = cst_ndir (fs_cstotal ?fs) - of_bool (is_dir mode)"
      using ac c3(7) by (simp add: acct_def)
    ultimately show ?thesis using True fi acct_geom[OF ac] by (simp add: bdwrite_cg_def)
  qed
qed

text \<open>Inode allocation follows the contract of a group's allocator, so that \<open>ffs_hashalloc\<close> finds an inode
  whenever there is one.\<close>

lemma inode_allocator: "group_allocator (ffs_nodealloccg E mode) node_inv inode_room (new_inode mode)"
proof
  fix st c pref assume i: "node_inv st" and "c < nat (fs_ncg (a_fs st))"
  then have c: "c < length (a_cgs st)" by (simp add: node_inv_def alloc_inv_def)
  note s = nodealloccg_spec[OF i c, of mode pref, folded inode_room_def]
  show "\<not> inode_room st c \<Longrightarrow> ffs_nodealloccg E mode c pref st = Inr (0, st)" using s by simp
  assume "inode_room st c"
  then obtain j st' where j: "ffs_nodealloccg E mode c pref st = Inr (inode_no st c j, st')" "takes_inode c mode st j st'" "block_ready c st j st'"
    using s by auto
  have "inode_no st c j \<noteq> 0" using j(2) i unfolding takes_inode_def node_inv_def by metis
  then show "\<exists>b st'. ffs_nodealloccg E mode c pref st = Inr (b, st') \<and> b \<noteq> 0 \<and> new_inode mode st b st'"
    using j c unfolding new_inode_def by blast
qed

end

sublocale node_device < inodes: group_allocator "ffs_nodealloccg E mode" node_inv inode_room "new_inode mode" for mode
  by (rule inode_allocator)

end
