(* ===== verification/Ddfs_Vget.thy ===== *)
theory Ddfs_Vget
  imports Ddfs_Inodes Ddfs_Dedup
begin

text \<open>
  Inodes in memory, and how a vnode is made for one: \<open>ffs_vgetf\<close> and \<open>ffs_load_inode\<close> (\<open>ddfs_vfsops.c\<close>)
  with the check-hash of a disk inode (\<open>ddfs_subr.c\<close>). The kernel's vnode cache, its allocation of vnodes and
  the reading of a block of inodes are parameters.
\<close>

section \<open>Inodes in memory\<close>

definition u32 :: "int \<Rightarrow> int" where
  "u32 x = x mod 2 ^ 32"

text \<open>\<open>dinode_u\<close> of \<open>struct inode\<close>: the fields of a disk inode that both formats have and the code uses (owner, links and the other
  times are left out); the last four are the words after the block addresses in \<open>struct ufs2_dinode\<close>.\<close>

record dinode =
  di_mode :: int
  di_size :: int
  di_blocks :: int
  di_birthtime :: int
  di_birthnsec :: int
  di_gen :: int
  di_flags :: int
  di_db :: "int list"
  di_ib :: "int list"
  di_modrev :: int
  di_freelink :: int
  di_ckhash :: int
  di_spare :: "int list"

record inode =
  i_number :: int
  i_flag :: int
  i_size :: int
  i_gen :: int
  i_flags :: int
  i_mode :: int
  i_din :: dinode

definition IN_CHANGE :: int where "IN_CHANGE = 0x2"
definition IN_UPDATE :: int where "IN_UPDATE = 0x4"
definition IN_MODIFIED :: int where "IN_MODIFIED = 0x8"
definition IN_NEEDSYNC :: int where "IN_NEEDSYNC = 0x10"
definition IN_UFS2 :: int where "IN_UFS2 = 0x400"
definition IN_IBLKDATA :: int where "IN_IBLKDATA = 0x800"
definition IN_SIZEMOD :: int where "IN_SIZEMOD = 0x1000"

definition UFS_INODE_SET_FLAG :: "int \<Rightarrow> inode \<Rightarrow> inode" where
  "UFS_INODE_SET_FLAG flags ip = ip\<lparr>i_flag := i_flag ip OR flags\<rparr>"

definition DIP_blocks :: "(int \<Rightarrow> int) \<Rightarrow> inode \<Rightarrow> inode" where
  "DIP_blocks g ip = ip\<lparr>i_din := (i_din ip)\<lparr>di_blocks := g (di_blocks (i_din ip))\<rparr>\<rparr>"

section \<open>Getting a vnode\<close>

text \<open>From the kernel: the vnode cache (the vnode found, with whether it is doomed), \<open>getnewvnode\<close>, \<open>insmntque\<close>,
  \<open>ufs_vinit\<close>, CRC-32C, whether a failed device is being cleaned up, a read-only mount, random numbers; and a read
  of a block of inodes, which depends on the blocks the allocator has initialised (\<open>a_iblks\<close>).\<close>

record vget_env =
  vg_hash_get :: "int \<Rightarrow> errno \<times> (bool \<times> inode) option"
  vg_hash_insert :: "int \<Rightarrow> errno \<times> inode option"
  vg_getnewvnode :: errno
  vg_insmntque :: errno
  vg_breadz :: "(int \<times> int list) list \<Rightarrow> int \<Rightarrow> errno \<times> dinode list"
  vg_crc32c :: "dinode \<Rightarrow> int"
  vg_fsfail :: "errno \<Rightarrow> bool"
  vg_vinit :: errno
  vg_rdonly :: bool
  vg_random :: "int list"

definition ffs_verify_dinode_ckhash :: "vget_env \<Rightarrow> ddfs_fs \<Rightarrow> dinode \<Rightarrow> errno" where
  "ffs_verify_dinode_ckhash G fs dip =
     (if di_mode dip = 0 \<or> fs_metackhash fs AND CK_INODE = 0 then 0
      else if di_ckhash dip = vg_crc32c G (dip\<lparr>di_ckhash := 0\<rparr>) then 0 else EINVAL)"

text \<open>\<open>I_IS_UFS1\<close>: the first version of the format has no check-hash.\<close>

definition ffs_load_inode :: "vget_env \<Rightarrow> ddfs_fs \<Rightarrow> dinode list \<Rightarrow> int \<Rightarrow> inode \<Rightarrow> fault + errno \<times> inode" where
  "ffs_load_inode G fs dips ino ip =
     (let n = nat (ino_to_fsbo fs ino) in
      if length dips \<le> n then Inl OutOfBounds
      else
        let dip = dips ! n; error = (if i_flag ip AND IN_UFS2 = 0 then 0 else ffs_verify_dinode_ckhash G fs dip) in
        if error \<noteq> 0 \<and> \<not> vg_fsfail G error then Inr (error, ip)
        else Inr (0, ip\<lparr>i_din := dip, i_mode := di_mode dip, i_size := di_size dip, i_flags := di_flags dip, i_gen := di_gen dip\<rparr>))"

text \<open>The inode as it is before its contents are read: zero but for its number and its format.\<close>

definition vget_inode :: "ddfs_fs \<Rightarrow> int \<Rightarrow> inode" where
  "vget_inode fs ino = \<lparr>i_number = ino, i_flag = (if fs_magic fs = FS_UFS1_MAGIC then 0 else IN_UFS2), i_size = 0, i_gen = 0, i_flags = 0,
     i_mode = 0, i_din = \<lparr>di_mode = 0, di_size = 0, di_blocks = 0, di_birthtime = 0, di_birthnsec = 0, di_gen = 0, di_flags = 0,
       di_db = replicate 12 0, di_ib = replicate 3 0, di_modrev = 0, di_freelink = 0, di_ckhash = 0, di_spare = [0, 0]\<rparr>\<rparr>"

text \<open>A generation number for an inode that has none; it does not end if no random number is positive.\<close>

definition first_gen :: "vget_env \<Rightarrow> inode \<Rightarrow> fault + inode" where
  "first_gen G ip =
     (if i_gen ip \<noteq> 0 then Inr ip
      else case List.find (\<lambda>r. r \<noteq> 0) (vg_random G) of None \<Rightarrow> Inl NoReturn
      | Some g \<Rightarrow> Inr (if vg_rdonly G then ip\<lparr>i_gen := g\<rparr>
          else (UFS_INODE_SET_FLAG IN_MODIFIED ip)\<lparr>i_gen := g, i_din := (i_din ip)\<lparr>di_gen := u32 g\<rparr>\<rparr>))"

definition ffs_vgetf :: "vget_env \<Rightarrow> bool \<Rightarrow> bool \<Rightarrow> ddfs_fs \<Rightarrow> (int \<times> int list) list \<Rightarrow> int \<Rightarrow> fault + errno \<times> inode option" where
  "ffs_vgetf G replace replace_doomed fs iblks ino =
     (case vg_hash_get G ino of (error, found) \<Rightarrow>
      if error \<noteq> 0 then Inr (error, None)
      else case (case found of Some (doomed, ip) \<Rightarrow> if \<not> replace \<or> \<not> replace_doomed \<or> \<not> doomed then Some ip else None | None \<Rightarrow> None) of
        Some ip \<Rightarrow> Inr (0, Some ip)
      | None \<Rightarrow>
        if vg_getnewvnode G \<noteq> 0 then Inr (vg_getnewvnode G, None)
        else if vg_insmntque G \<noteq> 0 then Inr (vg_insmntque G, None)
        else case vg_hash_insert G ino of (error, other) \<Rightarrow>
          if error \<noteq> 0 then Inr (error, None)
          else case other of
            Some ip \<Rightarrow> (if replace then Inl (Panic ''ffs_vgetf: FFSV_REPLACE'') else Inr (0, Some ip))
          | None \<Rightarrow>
            (case vg_breadz G iblks (fsbtodb fs (ino_to_fsba fs ino)) of (error, dips) \<Rightarrow>
             if error \<noteq> 0 then Inr (error, None)
             else case ffs_load_inode G fs dips ino (vget_inode fs ino) of Inl f \<Rightarrow> Inl f
             | Inr (error, ip) \<Rightarrow>
               if error \<noteq> 0 then Inr (error, None)
               else if vg_vinit G \<noteq> 0 then Inr (vg_vinit G, None)
               else case first_gen G ip of Inl f \<Rightarrow> Inl f | Inr ip \<Rightarrow> Inr (0, Some ip)))"

section \<open>The vnode of a free inode\<close>

text \<open>Calls of the kernel that succeed, and find no vnode of the inode.\<close>

definition vget_calls :: "vget_env \<Rightarrow> int \<Rightarrow> bool" where
  "vget_calls G ino \<longleftrightarrow> vg_hash_get G ino = (0, None) \<and> vg_hash_insert G ino = (0, None) \<and> vg_getnewvnode G = 0 \<and> vg_insmntque G = 0 \<and>
     vg_vinit G = 0 \<and> (\<exists>r \<in> set (vg_random G). r \<noteq> 0) \<and> (\<forall>r \<in> set (vg_random G). 0 \<le> r \<and> r < 2 ^ 32)"

text \<open>The block of the inode can be read and has it free: its mode is zero.\<close>

definition blank_inode :: "vget_env \<Rightarrow> ddfs_fs \<Rightarrow> (int \<times> int list) list \<Rightarrow> int \<Rightarrow> bool" where
  "blank_inode G fs iblks ino \<longleftrightarrow> (\<exists>dips. vg_breadz G iblks (fsbtodb fs (ino_to_fsba fs ino)) = (0, dips) \<and>
     nat (ino_to_fsbo fs ino) < length dips \<and> (let dip = dips ! nat (ino_to_fsbo fs ino) in di_mode dip = 0 \<and> 0 \<le> di_gen dip \<and> di_gen dip < 2 ^ 32))"

lemma vgetf_blank:
  assumes "vget_calls G ino" "blank_inode G fs iblks ino"
  shows "\<exists>ip. ffs_vgetf G replace doomed fs iblks ino = Inr (0, Some ip) \<and> i_number ip = ino \<and> i_mode ip = 0 \<and> 0 < i_gen ip \<and> i_gen ip < 2 ^ 32"
proof -
  obtain dips where d: "vg_breadz G iblks (fsbtodb fs (ino_to_fsba fs ino)) = (0, dips)" "nat (ino_to_fsbo fs ino) < length dips"
      "di_mode (dips ! nat (ino_to_fsbo fs ino)) = 0" "0 \<le> di_gen (dips ! nat (ino_to_fsbo fs ino))" "di_gen (dips ! nat (ino_to_fsbo fs ino)) < 2 ^ 32"
    using assms(2) by (auto simp: blank_inode_def Let_def)
  note c = assms(1)[unfolded vget_calls_def]
  define dip where "dip = dips ! nat (ino_to_fsbo fs ino)"
  define ip where "ip = (vget_inode fs ino)\<lparr>i_din := dip, i_mode := di_mode dip, i_size := di_size dip, i_flags := di_flags dip, i_gen := di_gen dip\<rparr>"
  have load: "ffs_load_inode G fs dips ino (vget_inode fs ino) = Inr (0, ip)"
    using d(2,3) by (simp add: ffs_load_inode_def ffs_verify_dinode_ckhash_def Let_def dip_def ip_def)
  obtain ip' where g: "first_gen G ip = Inr ip'" "i_number ip' = ino" "i_mode ip' = 0" "0 < i_gen ip'" "i_gen ip' < 2 ^ 32"
  proof (cases "i_gen ip = 0")
    case True
    obtain r where r: "List.find (\<lambda>r. r \<noteq> 0) (vg_random G) = Some r" using c by (cases "List.find (\<lambda>r. r \<noteq> 0) (vg_random G)") (auto simp: find_None_iff)
    then have "r \<noteq> 0" "r \<in> set (vg_random G)" by (auto simp: find_Some_iff)
    then have "0 < r" "r < 2 ^ 32" using c by force+
    then show ?thesis using that True r d(3) by (simp add: first_gen_def UFS_INODE_SET_FLAG_def ip_def vget_inode_def dip_def split: if_splits)
  next
    case False
    then show ?thesis using that[of ip] d(3-5) by (simp add: first_gen_def ip_def vget_inode_def dip_def)
  qed
  have "ffs_vgetf G replace doomed fs iblks ino = Inr (0, Some ip')" using c d(1) load g(1) by (simp add: ffs_vgetf_def)
  then show ?thesis using g(2-5) by blast
qed

end
