(* ===== verification/Ddfs_Vnode.thy ===== *)
theory Ddfs_Vnode
  imports Ddfs_Vget
begin

text \<open>
  The allocator as the rest of ddfs calls it: the placement policies (\<open>ffs_dirpref\<close>, \<open>ffs_blkpref_ufs1\<close>,
  \<open>ffs_blkpref_ufs2\<close>), allocation of a block, a longer fragment or an inode for a file (\<open>ffs_alloc\<close>,
  \<open>ffs_realloccg\<close>, \<open>ffs_valloc\<close>) and \<open>ffs_blkfree\<close>, which asks the deduplication table before it frees.
  Quotas and soft updates are off, so that \<open>softdep_request_cleanup\<close> changes nothing here; no snapshot
  exists, and the device does not want to be told of deleted blocks (\<open>UM_CANDELETE\<close> is clear).
\<close>

definition UFS_NIADDR :: int where "UFS_NIADDR = 3"

definition NINDIR :: "ddfs_fs \<Rightarrow> int" where
  "NINDIR fs = fs_nindir fs"

definition FS_OPTTIME :: int where "FS_OPTTIME = 0"
definition FS_OPTSPACE :: int where "FS_OPTSPACE = 1"
definition FS_UNCLEAN :: int where "FS_UNCLEAN = 1"

section \<open>Placement\<close>

text \<open>The groups in the order a search that starts at \<open>pref\<close> and wraps around visits them.\<close>

definition groups_from :: "ddfs_fs \<Rightarrow> nat \<Rightarrow> nat list" where
  "groups_from fs pref = [pref..<nat (fs_ncg fs)] @ [0..<pref]"

definition avg :: "ddfs_fs \<Rightarrow> int \<Rightarrow> int" where
  "avg fs n = u32 (tdiv n (fs_ncg fs))"

text \<open>A first-level directory (\<open>VV_ROOT\<close>): the group with the fewest directories among those with at least
  the average of free inodes and blocks, from a random one on.\<close>

definition emptiest :: "ddfs_fs \<Rightarrow> int \<Rightarrow> int \<Rightarrow> nat \<times> int \<Rightarrow> nat \<Rightarrow> nat \<times> int" where
  "emptiest fs avgifree avgbfree = (\<lambda>(mincg, minndir) c.
     if u32 (cs_ndir (fs_cs fs c)) < minndir \<and> avgifree \<le> u32 (cs_nifree (fs_cs fs c)) \<and> avgbfree \<le> u32 (cs_nbfree (fs_cs fs c))
     then (c, u32 (cs_ndir (fs_cs fs c))) else (mincg, minndir))"

definition dirpref_root :: "ddfs_fs \<Rightarrow> int \<Rightarrow> int" where
  "dirpref_root fs random =
     (let prefcg = nat (random mod fs_ncg fs);
          (mincg, minndir) = foldl (emptiest fs (avg fs (cst_nifree (fs_cstotal fs))) (avg fs (cst_nbfree (fs_cstotal fs))))
            (prefcg, fs_ipg fs) (groups_from fs prefcg)
      in u32 (fs_ipg fs * int mincg))"

text \<open>The limits of the policy; sizes are of type \<open>int\<close>, counts of type \<open>u_int\<close>.\<close>

definition max_dirs :: "ddfs_fs \<Rightarrow> int" where
  "max_dirs fs = min (u32 (avg fs (cst_ndir (fs_cstotal fs)) + fs_ipg fs div 16)) (fs_ipg fs)"

definition three_quarters :: "int \<Rightarrow> int" where
  "three_quarters n = max 1 (n - n div 4)"

definition max_contigdirs :: "ddfs_fs \<Rightarrow> int" where
  "max_contigdirs fs =
     (let avgbfree = avg fs (cst_nbfree (fs_cstotal fs)); avgndir = avg fs (cst_ndir (fs_cstotal fs));
          cgsize = wrap_s 32 (fs_fsize fs * fs_fpg fs);
          dirsize = wrap_s 32 (fs_avgfilesize fs * fs_avgfpdir fs);
          curdirsize = (if avgndir \<noteq> 0 then u32 (cgsize - avgbfree * fs_bsize fs) div avgndir else 0);
          dirsize = (if u32 dirsize < curdirsize then wrap_s 32 curdirsize else dirsize);
          n = (if dirsize \<le> 0 then 0 else min (u32 (avgbfree * fs_bsize fs) div dirsize) 255);
          n = (if 0 < fs_avgfpdir fs then min n (fs_ipg fs div fs_avgfpdir fs) else n)
      in if n = 0 then 1 else n)"

definition suits :: "ddfs_fs \<Rightarrow> nat \<Rightarrow> bool" where
  "suits fs c \<longleftrightarrow> u32 (cs_ndir (fs_cs fs c)) < max_dirs fs \<and>
     three_quarters (avg fs (cst_nifree (fs_cstotal fs))) \<le> u32 (cs_nifree (fs_cs fs c)) \<and>
     three_quarters (avg fs (cst_nbfree (fs_cstotal fs))) \<le> u32 (cs_nbfree (fs_cs fs c)) \<and>
     (case fs_si fs of Some si \<Rightarrow> int (si_contigdirs si ! c) < max_contigdirs fs | None \<Rightarrow> False)"

text \<open>Without a suitable group: the first from the preferred one on with the average of free inodes, else the
  first from 0 on below the preferred one, else the preferred one, where that loop ends.\<close>

definition ffs_dirpref :: "ddfs_fs \<Rightarrow> inode \<Rightarrow> bool \<Rightarrow> int \<Rightarrow> int" where
  "ffs_dirpref fs pip root random =
     (if root then dirpref_root fs random
      else
        let prefcg = nat (ino_to_cg fs (i_number pip)); avgifree = avg fs (cst_nifree (fs_cstotal fs));
            plenty = (\<lambda>c. avgifree \<le> u32 (cs_nifree (fs_cs fs c)))
        in case List.find (suits fs) (groups_from fs prefcg) of
             Some c \<Rightarrow> u32 (fs_ipg fs * int c)
           | None \<Rightarrow>
             (case List.find plenty [prefcg..<nat (fs_ncg fs)] of
                Some c \<Rightarrow> u32 (fs_ipg fs * int c)
              | None \<Rightarrow> u32 (fs_ipg fs * int (case List.find plenty [0..<prefcg] of Some c \<Rightarrow> c | None \<Rightarrow> prefcg))))"

text \<open>\<open>ffs_check_blkno\<close> is installed on an untrusted mount only.\<close>

definition BLK_SNAP :: int where "BLK_SNAP = 2"

definition ffs_check_blkno :: "ddfs_fs \<Rightarrow> int \<Rightarrow> int \<Rightarrow> errno" where
  "ffs_check_blkno fs daddr blksize =
     (let c = dtog fs daddr; end_daddr = daddr + numfrags fs blksize in
      if daddr mod 2 ^ 64 \<le> BLK_SNAP \<or>
         end_daddr mod 2 ^ 64 \<le> fs_size fs \<and>
           (0 < c \<and> end_daddr \<le> cgsblock fs c \<or>
            cgdmin fs c \<le> daddr \<and> end_daddr \<le> cgbase fs c + fs_fpg fs)
      then 0 else EINTEGRITY)"

definition UFS_CHECK_BLKNO :: "bool \<Rightarrow> ddfs_fs \<Rightarrow> int \<Rightarrow> int \<Rightarrow> errno" where
  "UFS_CHECK_BLKNO untrusted fs daddr blksize = (if untrusted then ffs_check_blkno fs daddr blksize else 0)"

text \<open>Where the next block of a file should go. \<open>bap\<close> is the array of block addresses that holds the block
  at \<open>indx\<close>. The group found for a new section is noted in \<open>fs_cgrotor\<close>.\<close>

definition blkpref :: "bool \<Rightarrow> ddfs_fs \<Rightarrow> inode \<Rightarrow> int \<Rightarrow> int \<Rightarrow> int list \<Rightarrow> int \<times> ddfs_fs" where
  "blkpref untrusted fs ip lbn indx bap =
     (let inocg = ino_to_cg fs (i_number ip); db = di_db (i_din ip); ib = di_ib (i_din ip) in
      if indx < 0 then
        (if indx = - 1 \<and> lbn < UFS_NDADDR + NINDIR fs \<and> db ! nat (UFS_NDADDR - 1) \<noteq> 0
         then db ! nat (UFS_NDADDR - 1) + fs_frag fs else cgmeta fs inocg, fs)
      else if lbn = UFS_NDADDR \<and> ib ! 0 \<noteq> 0 \<and> cgdata fs inocg \<le> ib ! 0 \<and> ib ! 0 < cgbase fs (inocg + 1)
      then (ib ! 0 + fs_frag fs, fs)
      else
        let prevbn = (if indx = 0 then 0 else bap ! nat (indx - 1));
            prevbn = (if indx \<noteq> 0 \<and> UFS_CHECK_BLKNO untrusted fs prevbn (fs_bsize fs) \<noteq> 0 then 0 else prevbn)
        in if indx mod fs_maxbpg fs = 0 \<or> prevbn = 0 then
             if is_dir (i_mode ip) then (cgmeta fs inocg, fs)
             else if lbn < UFS_NDADDR + NINDIR fs then (cgdata fs inocg, fs)
             else
               let startcg = nat ((if indx = 0 \<or> prevbn = 0 then u32 (inocg + lbn div fs_maxbpg fs)
                                   else u32 (dtog fs prevbn + 1)) mod fs_ncg fs);
                   avgbfree = avg fs (cst_nbfree (fs_cstotal fs))
               in (case List.find (\<lambda>c. avgbfree \<le> u32 (cs_nbfree (fs_cs fs c))) ([startcg..<nat (fs_ncg fs)] @ [0..<startcg + 1]) of
                     Some c \<Rightarrow> (cgdata fs (int c), fs\<lparr>fs_cgrotor := int c\<rparr>)
                   | None \<Rightarrow> (0, fs))
           else (prevbn + fs_frag fs, fs))"

definition ffs_blkpref_ufs1 :: "bool \<Rightarrow> ddfs_fs \<Rightarrow> inode \<Rightarrow> int \<Rightarrow> int \<Rightarrow> int list \<Rightarrow> int \<times> ddfs_fs" where
  "ffs_blkpref_ufs1 = blkpref"

definition ffs_blkpref_ufs2 :: "bool \<Rightarrow> ddfs_fs \<Rightarrow> inode \<Rightarrow> int \<Rightarrow> int \<Rightarrow> int list \<Rightarrow> int \<times> ddfs_fs" where
  "ffs_blkpref_ufs2 = blkpref"

section \<open>Allocating a block for a file\<close>

text \<open>The credential: whether it is \<open>NOCRED\<close>, and whether \<open>priv_check_cred\<close> keeps it from the reserve. The
  flags of the call that the allocator looks at. \<open>fsfail\<close>: \<open>UM_FSFAIL_CLEANUP\<close> is set on the mount.\<close>

record cred =
  cr_nocred :: bool
  cr_noreserve :: bool

record ioflags =
  io_ext :: bool
  io_buflocked :: bool
  io_sync :: bool
  ba_clrbuf :: bool
  ba_metaonly :: bool

definition dd_btodb :: "int \<Rightarrow> int" where
  "dd_btodb n = drop_bit 9 n"

definition ENXIO :: errno where "ENXIO = 6"

text \<open>One attempt, from the label \<open>retry\<close>; 0 where the code goes to \<open>nospace\<close>.\<close>

definition alloc_try :: "alloc_env \<Rightarrow> cred \<Rightarrow> inode \<Rightarrow> int \<Rightarrow> int \<Rightarrow> alloc_st \<Rightarrow> fault + int \<times> alloc_st" where
  "alloc_try E cred ip bpref sz st =
     (let fs = a_fs st in
      if sz = fs_bsize fs \<and> cst_nbfree (fs_cstotal fs) = 0 then Inr (0, st)
      else if cr_noreserve cred \<and> freespace fs (fs_minfree fs) - numfrags fs sz < 0 then Inr (0, st)
      else
        let bpref = (if fs_size fs \<le> bpref then 0 else bpref);
            c = (if bpref = 0 then ino_to_cg fs (i_number ip) else dtog fs bpref)
        in ffs_hashalloc (nat c) bpref (\<lambda>c pref st. ffs_alloccg E c pref sz sz st) st)"

definition charge :: "int \<Rightarrow> ioflags \<Rightarrow> inode \<Rightarrow> inode" where
  "charge sz flags ip = UFS_INODE_SET_FLAG (if io_ext flags then IN_CHANGE else IN_CHANGE OR IN_UPDATE)
     (DIP_blocks (\<lambda>n. n + dd_btodb sz) ip)"

text \<open>The checks under \<open>#ifdef INVARIANTS\<close> are included.\<close>

definition ffs_alloc :: "alloc_env \<Rightarrow> bool \<Rightarrow> cred \<Rightarrow> inode \<Rightarrow> int \<Rightarrow> int \<Rightarrow> ioflags \<Rightarrow> alloc_st \<Rightarrow>
    fault + errno \<times> int \<times> inode \<times> alloc_st" where
  "ffs_alloc E fsfail cred ip bpref sz flags st =
     (let fs = a_fs st; fail = (\<lambda>st. Inr (if fsfail then ENXIO else ENOSPC, 0, ip, st)) in
      if fs_bsize fs < u32 sz \<or> fragoff fs sz \<noteq> 0 then Inl (Panic ''ffs_alloc: bad size'')
      else if cr_nocred cred then Inl (Panic ''ffs_alloc: missing credential'')
      else case alloc_try E cred ip bpref sz st of Inl f \<Rightarrow> Inl f
      | Inr (bno, st) \<Rightarrow>
        if 0 < bno then Inr (0, bno, charge sz flags ip, st)
        else if io_buflocked flags then fail st
        else case alloc_try E cred ip bpref sz st of Inl f \<Rightarrow> Inl f
        | Inr (bno, st) \<Rightarrow> if 0 < bno then Inr (0, bno, charge sz flags ip, st) else fail st)"

section \<open>Freeing a block of a file\<close>

text \<open>The block goes back to the free map unless the table still counts references to it.\<close>

definition ffs_blkfree :: "'k kern \<Rightarrow> alloc_env \<Rightarrow> int \<Rightarrow> int \<Rightarrow> 'k \<times> alloc_st \<Rightarrow> fault + 'k \<times> alloc_st" where
  "ffs_blkfree K E bno sz = (\<lambda>(ks, st).
     case ddtable_unref K (a_fs st) (word_of_int bno) ks of Inl f \<Rightarrow> Inl f
     | Inr (refcount, ks) \<Rightarrow>
       if 0 < refcount then Inr (ks, st)
       else case ffs_blkfree_cg E False bno sz st of Inl f \<Rightarrow> Inl f | Inr st \<Rightarrow> Inr (ks, st))"

section \<open>Reallocating a fragment\<close>

text \<open>A buffer of a file's vnode. \<open>grow_buf\<close>: \<open>allocbuf\<close>, and the new part cleared.\<close>

record vbuf =
  vb_lblkno :: int
  vb_blkno :: int
  vb_data :: "byte list"

definition grow_buf :: "int \<Rightarrow> int \<Rightarrow> vbuf \<Rightarrow> vbuf" where
  "grow_buf osize nsize bp = bp\<lparr>vb_data := take (nat osize) (vb_data bp) @ replicate (nat (nsize - osize)) 0\<rparr>"

text \<open>The size to ask for, and the optimisation goal after the switch on it.\<close>

definition realloc_request :: "ddfs_fs \<Rightarrow> int \<Rightarrow> fault + int \<times> ddfs_fs" where
  "realloc_request fs nsize =
     (if fs_optim fs = FS_OPTSPACE then
        Inr (nsize, if fs_minfree fs \<le> 5 \<or> tdiv (fs_dsize fs * fs_minfree fs) (2 * 100) < cst_nffree (fs_cstotal fs) then fs
             else fs\<lparr>fs_optim := FS_OPTTIME\<rparr>)
      else if fs_optim fs = FS_OPTTIME then
        Inr (fs_bsize fs, if cst_nffree (fs_cstotal fs) < tdiv (fs_dsize fs * (fs_minfree fs - 2)) 100 then fs
             else fs\<lparr>fs_optim := FS_OPTSPACE\<rparr>)
      else Inl (Panic ''ffs_realloccg: bad optim''))"

datatype realloc = Failed errno | Moved vbuf inode | NoSpace

text \<open>One attempt, from the label \<open>retry\<close>. \<open>bread\<close> is \<open>bread_gb\<close> on the file. Here and in \<open>ffs_realloccg\<close> the
  checks under \<open>#ifdef INVARIANTS\<close> are included.\<close>

definition realloc_try :: "'k kern \<Rightarrow> alloc_env \<Rightarrow> cred \<Rightarrow> (int \<Rightarrow> int \<Rightarrow> errno \<times> vbuf) \<Rightarrow> inode \<Rightarrow> int \<Rightarrow> int \<Rightarrow> int \<Rightarrow> int \<Rightarrow> int \<Rightarrow>
    ioflags \<Rightarrow> 'k \<times> alloc_st \<Rightarrow> fault + realloc \<times> 'k \<times> alloc_st" where
  "realloc_try K E cred bread ip lbprev bprev bpref osize nsize flags = (\<lambda>(ks, st).
     let fs = a_fs st in
     if cr_noreserve cred \<and> freespace fs (fs_minfree fs) - numfrags fs (nsize - osize) < 0 then Inr (NoSpace, ks, st)
     else if bprev = 0 then Inl (Panic ''ffs_realloccg: bad bprev'')
     else let (error, bp) = bread lbprev osize in
       if error \<noteq> 0 then Inr (Failed error, ks, st)
       else if vb_blkno bp = vb_lblkno bp \<and> UFS_NDADDR \<le> lbprev then Inl (Panic ''ffs_realloccg: lbprev out of range'')
       else
         let bp = (if vb_blkno bp = vb_lblkno bp then bp\<lparr>vb_blkno := fsbtodb fs bprev\<rparr> else bp);
             c = nat (dtog fs bprev)
         in case ffs_fragextend E c bprev osize nsize st of Inl f \<Rightarrow> Inl f
         | Inr (bno, st) \<Rightarrow>
           if bno \<noteq> 0 then
             (if vb_blkno bp \<noteq> fsbtodb fs bno then Inl (Panic ''ffs_realloccg: bad blockno'')
              else Inr (Moved (grow_buf osize nsize bp) (charge (nsize - osize) flags ip), ks, st))
           else case realloc_request (a_fs st) nsize of Inl f \<Rightarrow> Inl f
           | Inr (request, fs) \<Rightarrow>
             (case ffs_hashalloc c (if fs_size fs \<le> bpref then 0 else bpref)
                (\<lambda>c pref st. ffs_alloccg E c pref request nsize st) (st\<lparr>a_fs := fs\<rparr>) of Inl f \<Rightarrow> Inl f
              | Inr (bno, st) \<Rightarrow>
                if bno \<le> 0 then Inr (NoSpace, ks, st)
                else case ffs_blkfree K E bprev osize (ks, st) of Inl f \<Rightarrow> Inl f
                | Inr (ks, st) \<Rightarrow> Inr (Moved (grow_buf osize nsize (bp\<lparr>vb_blkno := fsbtodb fs bno\<rparr>))
                    (charge (nsize - osize) flags ip), ks, st)))"

definition ffs_realloccg :: "'k kern \<Rightarrow> alloc_env \<Rightarrow> bool \<Rightarrow> cred \<Rightarrow> (int \<Rightarrow> int \<Rightarrow> errno \<times> vbuf) \<Rightarrow> inode \<Rightarrow> int \<Rightarrow> int \<Rightarrow> int \<Rightarrow> int \<Rightarrow>
    int \<Rightarrow> ioflags \<Rightarrow> 'k \<times> alloc_st \<Rightarrow> fault + errno \<times> vbuf option \<times> inode \<times> 'k \<times> alloc_st" where
  "ffs_realloccg K E fsfail cred bread ip lbprev bprev bpref osize nsize flags = (\<lambda>(ks, st).
     let fs = a_fs st;
         attempt = realloc_try K E cred bread ip lbprev bprev bpref osize nsize flags;
         fail = (\<lambda>(ks, st). Inr (if fsfail then ENXIO else ENOSPC, None, ip, ks, st))
     in if fs_bsize fs < u32 osize \<or> fragoff fs osize \<noteq> 0 \<or> fs_bsize fs < u32 nsize \<or> fragoff fs nsize \<noteq> 0
        then Inl (Panic ''ffs_realloccg: bad size'')
        else if cr_nocred cred then Inl (Panic ''ffs_realloccg: missing credential'')
        else case attempt (ks, st) of Inl f \<Rightarrow> Inl f
        | Inr (Failed e, w) \<Rightarrow> Inr (e, None, ip, w)
        | Inr (Moved bp ip, w) \<Rightarrow> Inr (0, Some bp, ip, w)
        | Inr (NoSpace, w) \<Rightarrow>
          if io_buflocked flags then fail w
          else case attempt w of Inl f \<Rightarrow> Inl f
          | Inr (Failed e, w) \<Rightarrow> Inr (e, None, ip, w)
          | Inr (Moved bp ip, w) \<Rightarrow> Inr (0, Some bp, ip, w)
          | Inr (NoSpace, w) \<Rightarrow> fail w)"

section \<open>Allocating an inode\<close>

text \<open>The new generation number: \<open>rs\<close> are the numbers \<open>arc4random\<close> gives; \<^const>\<open>None\<close> if none will do.\<close>

fun new_gen :: "int \<Rightarrow> int list \<Rightarrow> int option" where
  "new_gen g [] = (if g \<noteq> 0 \<and> (g + 1) mod 2 ^ 64 \<noteq> 0 then Some (g + 1) else None)"
| "new_gen g (r # rs) = (if g \<noteq> 0 \<and> (g + 1) mod 2 ^ 64 \<noteq> 0 then Some (g + 1) else new_gen r rs)"

definition set_contigdirs :: "nat \<Rightarrow> (nat \<Rightarrow> nat) \<Rightarrow> ddfs_fs \<Rightarrow> ddfs_fs" where
  "set_contigdirs c g fs = fs\<lparr>fs_si := map_option (\<lambda>si. si\<lparr>si_contigdirs := (si_contigdirs si)[c := g (si_contigdirs si ! c)]\<rparr>) (fs_si fs)\<rparr>"

text \<open>What \<open>ffs_valloc\<close> takes from outside: what \<open>ffs_vgetf\<close> does, random numbers for the placement and the generation,
  the time.\<close>

record valloc_env =
  v_get :: vget_env
  v_random :: int
  v_gens :: "int list"
  v_time :: "int \<times> int"

definition valloc_try :: "alloc_env \<Rightarrow> valloc_env \<Rightarrow> inode \<Rightarrow> bool \<Rightarrow> int \<Rightarrow> alloc_st \<Rightarrow> fault + int \<times> alloc_st" where
  "valloc_try E V pip root mode st =
     (let fs = a_fs st in
      if cst_nifree (fs_cstotal fs) = 0 then Inr (0, st)
      else
        let ipref = (if is_dir mode then ffs_dirpref fs pip root (v_random V) else i_number pip);
            ipref = (if u32 (fs_ncg fs * fs_ipg fs) \<le> ipref then 0 else ipref);
            c = nat (ino_to_cg fs ipref);
            fs = set_contigdirs c (\<lambda>n. if is_dir mode then if n < 255 then n + 1 else n else n - 1) fs
        in ffs_hashalloc c ipref (ffs_nodealloccg E mode) (st\<lparr>a_fs := fs\<rparr>))"

text \<open>The inode found is made ready for a new file. \<open>ffs_vfree\<close> gives it back when its vnode cannot be had.\<close>

definition ready_inode :: "valloc_env \<Rightarrow> ddfs_fs \<Rightarrow> inode \<Rightarrow> fault + inode" where
  "ready_inode V fs ip =
     (if i_mode ip \<noteq> 0 then Inl (Panic ''ffs_valloc: dup alloc'')
      else case new_gen (i_gen ip) (v_gens V) of None \<Rightarrow> Inl NoReturn
      | Some g \<Rightarrow>
        let blocks = (if di_blocks (i_din ip) \<noteq> 0 \<and> fs_flags fs AND FS_UNCLEAN = 0 then 0 else di_blocks (i_din ip));
            din = (i_din ip)\<lparr>di_blocks := blocks, di_flags := 0, di_gen := u32 g\<rparr>;
            din = (if fs_magic fs = FS_DDFS_MAGIC then din\<lparr>di_birthtime := fst (v_time V), di_birthnsec := snd (v_time V)\<rparr> else din)
        in Inr (ip\<lparr>i_flags := 0, i_gen := g, i_din := din, i_flag := (if fs_magic fs = FS_DDFS_MAGIC then IN_UFS2 else 0)\<rparr>))"

definition ffs_valloc :: "alloc_env \<Rightarrow> valloc_env \<Rightarrow> bool \<Rightarrow> inode \<Rightarrow> bool \<Rightarrow> int \<Rightarrow> alloc_st \<Rightarrow>
    fault + errno \<times> inode option \<times> alloc_st" where
  "ffs_valloc E V fsfail pip root mode st =
     (let use = (\<lambda>ino st. case ffs_vgetf (v_get V) True False (a_fs st) (a_iblks st) ino of Inl f \<Rightarrow> Inl f | Inr (error, ipo) \<Rightarrow>
            if error \<noteq> 0 then (case ffs_vfree E ino mode st of Inl f \<Rightarrow> Inl f | Inr (e, st) \<Rightarrow> Inr (error, None, st))
            else case ipo of None \<Rightarrow> Inl NullDeref
            | Some ip \<Rightarrow> (case ready_inode V (a_fs st) ip of Inl f \<Rightarrow> Inl f | Inr ip \<Rightarrow> Inr (0, Some ip, st)))
      in case valloc_try E V pip root mode st of Inl f \<Rightarrow> Inl f
         | Inr (ino, st) \<Rightarrow>
           if ino \<noteq> 0 then use ino st
           else case valloc_try E V pip root mode st of Inl f \<Rightarrow> Inl f
           | Inr (ino, st) \<Rightarrow> if ino \<noteq> 0 then use ino st else Inr (if fsfail then ENXIO else ENOSPC, None, st))"

end
