(* ===== verification/Ddfs_Entry.thy ===== *)
theory Ddfs_Entry
  imports Ddfs_Vnode
begin

text \<open>
  The entry points of the allocator against its abstract state: \<open>ffs_alloc\<close> and \<open>ffs_valloc\<close> succeed exactly
  when some group has what is asked for, \<open>ffs_dirpref\<close> names a group of the file system, \<open>ffs_blkfree\<close>
  frees a shared block with its last reference only.
\<close>

section \<open>Blocks\<close>

lemma counts_nonneg: "counts_ok f m cs frsum \<Longrightarrow> 0 \<le> cs_nbfree cs"
  by (auto simp: counts_ok_def nb_def intro: sum_nonneg)

lemma none_fits:
  assumes "alloc_inv st" "cst_nbfree (fs_cstotal (a_fs st)) = 0" "f = nat (fs_frag (a_fs st))" "c < length (a_cgs st)"
  shows "\<not> fits f (cg_blksfree (a_cgs st ! c)) f"
proof -
  have ok: "\<And>d. d < length (a_cgs st) \<Longrightarrow> cg_ok (a_fs st) (a_cgs st ! d)" using inv_group[OF assms(1)] by blast
  have f: "0 < f" using frag_nat[OF fs_okD(1) assms(3)] assms(1) by (simp add: alloc_inv_def)
  have "\<forall>x \<in> set (a_cgs st). 0 \<le> cs_nbfree (cg_cs x)"
    using ok cg_okD(3) counts_nonneg by (metis in_set_conv_nth)
  moreover have "(\<Sum>x \<leftarrow> a_cgs st. cs_nbfree (cg_cs x)) = 0" using assms(1,2) by (simp add: alloc_inv_def)
  ultimately have "\<forall>x \<in> set (a_cgs st). cs_nbfree (cg_cs x) = 0" by (subst (asm) sum_list_nonneg_eq_0_iff) auto
  then have "cs_nbfree (cg_cs (a_cgs st ! c)) = 0" using assms(4) by simp
  then show ?thesis using counts_fits[OF cg_okD(3)[OF ok[OF assms(4)], folded assms(3)] f order_refl] by simp
qed

text \<open>A request the allocator can place: its size, and where it starts to look.\<close>

definition place_ok :: "ddfs_fs \<Rightarrow> int \<Rightarrow> int \<Rightarrow> bool" where
  "place_ok fs ino bpref \<longleftrightarrow> 0 \<le> ino \<and> ino < fs_ipg fs * fs_ncg fs \<and> 0 < fs_ipg fs \<and> 0 \<le> bpref \<and>
     0 < fs_ncg fs \<and> fs_size fs \<le> fs_fpg fs * fs_ncg fs"

lemma div_less:
  fixes x n m :: int
  assumes "x < n * m" "0 < n"
  shows "x div n < m"
proof (rule ccontr)
  assume "\<not> x div n < m"
  then have "n * m \<le> n * (x div n)" using assms(2) by simp
  then show False using assms mult_div_mod_eq[of n x] pos_mod_sign[of n x] by linarith
qed

lemma place_group:
  assumes "place_ok fs ino bpref" "0 < fs_fpg fs" "b = (if fs_size fs \<le> bpref then 0 else bpref)"
  shows "nat (if b = 0 then ino_to_cg fs ino else dtog fs b) < nat (fs_ncg fs)"
proof (cases "b = 0")
  case True
  then show ?thesis using assms(1) div_less[of ino "fs_ipg fs" "fs_ncg fs"] by (simp add: place_ok_def ino_to_cg_def)
next
  case False
  then have "b < fs_fpg fs * fs_ncg fs" using assms(1,3) by (auto simp: place_ok_def split: if_splits)
  then show ?thesis using assms(1,2) False div_less[of b "fs_fpg fs" "fs_ncg fs"] by (simp add: place_ok_def dtog_def)
qed

definition may_use :: "ddfs_fs \<Rightarrow> cred \<Rightarrow> int \<Rightarrow> bool" where
  "may_use fs cred sz \<longleftrightarrow> \<not> (cr_noreserve cred \<and> freespace fs (fs_minfree fs) - numfrags fs sz < 0)"

context readable
begin

lemma alloc_try_spec:
  assumes "alloc_inv st" "f = nat (fs_frag (a_fs st))" "sz = int k * fs_fsize (a_fs st)" "1 \<le> k" "k \<le> f"
    "place_ok (a_fs st) (i_number ip) bpref" "may_use (a_fs st) cred sz"
  shows "if \<exists>c < nat (fs_ncg (a_fs st)). block_room k st c
    then \<exists>b st'. alloc_try E cred ip bpref sz st = Inr (b, st') \<and> takes st b k st'
    else alloc_try E cred ip bpref sz st = Inr (0, st)"
proof -
  let ?fs = "a_fs st"
  have g: "geometry_ok ?fs" "0 < fs_fpg ?fs" "length (a_cgs st) = nat (fs_ncg ?fs)"
    using assms(1) by (auto simp: alloc_inv_def dest: fs_okD)
  have f: "fs_frag ?fs = int f" "0 < f" using frag_nat[OF g(1) assms(2)] by auto
  show ?thesis
  proof (cases "sz = fs_bsize ?fs \<and> cst_nbfree (fs_cstotal ?fs) = 0")
    case True
    then have "k = f" using whole_frags(2)[OF g(1) assms(3)] f(1) by simp
    then have "\<not> block_room k st c" if "c < nat (fs_ncg ?fs)" for c
      using none_fits[OF assms(1) _ assms(2), of c] True that g(3) assms(2) by (simp add: block_room_def)
    then show ?thesis using True by (auto simp: alloc_try_def)
  next
    case False
    define b where "b = (if fs_size ?fs \<le> bpref then 0 else bpref)"
    define c where "c = nat (if b = 0 then ino_to_cg ?fs (i_number ip) else dtog ?fs b)"
    have c: "c < nat (fs_ncg ?fs)" using place_group[OF assms(6) g(2) b_def] by (simp add: c_def)
    have inv: "block_inv k k sz sz st" using assms(1-5) by (simp add: block_inv_def)
    have "may_use ?fs cred sz \<Longrightarrow> alloc_try E cred ip bpref sz st = ffs_hashalloc c b (\<lambda>c pref st. ffs_alloccg E c pref sz sz st) st"
      using False by (auto simp: alloc_try_def may_use_def Let_def b_def c_def)
    then have call: "alloc_try E cred ip bpref sz st = ffs_hashalloc c b (\<lambda>c pref st. ffs_alloccg E c pref sz sz st) st"
      using assms(7) by simp
    show ?thesis using blocks.hashalloc[OF inv c, of b] unfolding call block_allocator_def by (auto split: if_splits)
  qed
qed

lemma ffs_alloc_spec:
  assumes "alloc_inv st" "f = nat (fs_frag (a_fs st))" "sz = int k * fs_fsize (a_fs st)" "1 \<le> k" "k \<le> f"
    "place_ok (a_fs st) (i_number ip) bpref" "\<not> cr_nocred cred"
  shows "if may_use (a_fs st) cred sz \<and> (\<exists>c < nat (fs_ncg (a_fs st)). block_room k st c)
    then \<exists>b st'. ffs_alloc E fsfail cred ip bpref sz flags st = Inr (0, b, charge sz flags ip, st') \<and> takes st b k st'
    else ffs_alloc E fsfail cred ip bpref sz flags st = Inr (if fsfail then ENXIO else ENOSPC, 0, ip, st)"
proof -
  let ?fs = "a_fs st"
  have g: "geometry_ok ?fs" using assms(1) by (auto simp: alloc_inv_def dest: fs_okD)
  have f: "fs_frag ?fs = int f" using frag_nat[OF g assms(2)] by auto
  have sz: "0 \<le> sz" "sz \<le> fs_bsize ?fs" "fragoff ?fs sz = 0"
    using assms(3,5) geometryD(2,9)[OF g] macros_div(2)[OF g] f(1) by (simp_all add: mult_right_mono)
  have "\<not> (fs_bsize ?fs < u32 sz \<or> fragoff ?fs sz \<noteq> 0)"
    using sz zmod_le_nonneg_dividend[of sz "2 ^ 32"] by (simp add: u32_def)
  note unf = ffs_alloc_def Let_def if_not_P[OF this] if_not_P[OF assms(7)]
  show ?thesis
  proof (cases "may_use ?fs cred sz")
    case True
    show ?thesis using alloc_try_spec[OF assms(1-6) True] True unfolding unf by (fastforce simp: takes_def split: if_splits)
  next
    case False
    then have "alloc_try E cred ip bpref sz st = Inr (0, st)" by (simp add: alloc_try_def Let_def may_use_def)
    then show ?thesis using False unfolding unf by simp
  qed
qed

end

section \<open>Freeing with the table\<close>

locale dedup_device = readable E + table: healthy_kernel K img hash devsize
  for E :: alloc_env and K :: "'k kern" and img hash devsize
begin

lemma ffs_blkfree_spec:
  assumes "table_ok (a_fs st) devsize" "dd_inv (ddtab (a_fs st) (img ks))" "word_of_int bno = (b :: 64 word)"
  shows "dd_map (ddtab (a_fs st) (img ks)) key = Some (b, n) \<Longrightarrow> 1 < n \<Longrightarrow>
      \<exists>ks'. ffs_blkfree K E bno sz (ks, st) = Inr (ks', st) \<and> dd_inv (ddtab (a_fs st) (img ks')) \<and>
        dd_map (ddtab (a_fs st) (img ks')) = (dd_map (ddtab (a_fs st) (img ks)))(key \<mapsto> (b, n - 1))"
    and "dd_map (ddtab (a_fs st) (img ks)) key = Some (b, 1) \<Longrightarrow>
      \<exists>ks'. ffs_blkfree K E bno sz (ks, st) = map_sum id (\<lambda>st'. (ks', st')) (ffs_blkfree_cg E False bno sz st) \<and>
        dd_inv (ddtab (a_fs st) (img ks')) \<and> dd_map (ddtab (a_fs st) (img ks')) = (dd_map (ddtab (a_fs st) (img ks)))(key := None)"
    and "b \<notin> fst ` ran (dd_map (ddtab (a_fs st) (img ks))) \<Longrightarrow>
      \<exists>ks'. ffs_blkfree K E bno sz (ks, st) = map_sum id (\<lambda>st'. (ks', st')) (ffs_blkfree_cg E False bno sz st) \<and>
        ddtab (a_fs st) (img ks') = ddtab (a_fs st) (img ks)"
proof -
  let ?t = "ddtab (a_fs st) (img ks)"
  obtain ks' where u: "ddtable_unref K (a_fs st) b ks = Inr (fst (dd_release b ?t), ks')" "ddtab (a_fs st) (img ks') = snd (dd_release b ?t)"
    using table.unref_refines[OF assms(1), of b ks] by (metis fst_conv prod.collapse)
  have hit: "fst (dd_release b ?t) = int n - 1 \<and> dd_inv (snd (dd_release b ?t)) \<and>
      dd_map (snd (dd_release b ?t)) = (dd_map ?t)(key := (if n = 1 then None else Some (b, n - 1)))"
    if "dd_map ?t key = Some (b, n)" for n
    using list_release_hit[OF assms(2) that] by auto
  show "dd_map ?t key = Some (b, n) \<Longrightarrow> 1 < n \<Longrightarrow>
      \<exists>ks'. ffs_blkfree K E bno sz (ks, st) = Inr (ks', st) \<and> dd_inv (ddtab (a_fs st) (img ks')) \<and>
        dd_map (ddtab (a_fs st) (img ks')) = (dd_map ?t)(key \<mapsto> (b, n - 1))"
    using hit[of n] u by (intro exI[of _ ks']) (simp add: ffs_blkfree_def assms(3))
  show "dd_map ?t key = Some (b, 1) \<Longrightarrow>
      \<exists>ks'. ffs_blkfree K E bno sz (ks, st) = map_sum id (\<lambda>st'. (ks', st')) (ffs_blkfree_cg E False bno sz st) \<and>
        dd_inv (ddtab (a_fs st) (img ks')) \<and> dd_map (ddtab (a_fs st) (img ks')) = (dd_map ?t)(key := None)"
    using hit[of 1] u by (intro exI[of _ ks']) (simp add: ffs_blkfree_def assms(3) split: sum.splits)
  show "b \<notin> fst ` ran (dd_map ?t) \<Longrightarrow>
      \<exists>ks'. ffs_blkfree K E bno sz (ks, st) = map_sum id (\<lambda>st'. (ks', st')) (ffs_blkfree_cg E False bno sz st) \<and>
        ddtab (a_fs st) (img ks') = ?t"
    using list_release_miss[OF assms(2)] u by (intro exI[of _ ks']) (simp add: ffs_blkfree_def assms(3) split: sum.splits)
qed

end

interpretation loop_ram: dedup_device loop_env "ram_kern devsize ts" ram_img ram_lookup devsize for devsize ts
  by (intro dedup_device.intro loop_env.readable_axioms ram.healthy_kernel_axioms)

section \<open>Inodes\<close>

lemma groups_from_set: "p \<le> nat (fs_ncg fs) \<Longrightarrow> set (groups_from fs p) = {..<nat (fs_ncg fs)}"
  by (auto simp: groups_from_def)

lemma find_in: "List.find P xs = Some x \<Longrightarrow> x \<in> set xs \<and> P x"
  by (auto simp: find_Some_iff)

lemma find_none: "List.find P xs = None \<longleftrightarrow> (\<forall>x \<in> set xs. \<not> P x)"
  by (auto simp: find_None_iff)

lemma emptiest_in: "fst (foldl (emptiest fs a b) (c, n) cs) \<in> insert c (set cs)"
proof (induction cs arbitrary: c n)
  case (Cons d cs)
  obtain c' n' where e: "emptiest fs a b (c, n) d = (c', n')" by fastforce
  then have "c' = c \<or> c' = d" by (auto simp: emptiest_def split: if_splits)
  then show ?case using Cons[of c' n'] e by auto
qed simp

text \<open>\<open>ffs_dirpref\<close> gives the first inode of a group, a suitable one if there is one.\<close>

lemma dirpref_group:
  assumes "0 < fs_ncg fs" "0 < fs_ipg fs" "fs_ipg fs * fs_ncg fs < 2 ^ 32" "0 \<le> i_number pip" "i_number pip < fs_ipg fs * fs_ncg fs"
  obtains c where "c < nat (fs_ncg fs)" "ffs_dirpref fs pip root random = fs_ipg fs * int c"
    "\<not> root \<Longrightarrow> \<exists>d < nat (fs_ncg fs). suits fs d \<Longrightarrow> suits fs c"
proof -
  let ?n = "nat (fs_ncg fs)"
  have u: "u32 (fs_ipg fs * int c) = fs_ipg fs * int c" if "c < ?n" for c
  proof -
    have "fs_ipg fs * int c \<le> fs_ipg fs * fs_ncg fs" using assms(1,2) that by (intro mult_left_mono) auto
    then have "fs_ipg fs * int c < 2 ^ 32" using assms(3) by (rule le_less_trans)
    moreover have "0 \<le> fs_ipg fs * int c" using assms(2) by simp
    ultimately show ?thesis by (simp add: u32_def)
  qed
  have p: "nat (ino_to_cg fs (i_number pip)) < ?n" using div_less[OF assms(5,2)] assms(1) by (simp add: ino_to_cg_def)
  show thesis
  proof (cases root)
    case True
    let ?p = "nat (random mod fs_ncg fs)"
    have r: "?p < ?n" using assms(1) by simp
    define f where "f = foldl (emptiest fs (avg fs (cst_nifree (fs_cstotal fs))) (avg fs (cst_nbfree (fs_cstotal fs)))) (?p, fs_ipg fs) (groups_from fs ?p)"
    have "fst f \<in> insert ?p (set (groups_from fs ?p))" unfolding f_def by (rule emptiest_in)
    then have "fst f < ?n" using r groups_from_set[of ?p fs] by auto
    moreover have "ffs_dirpref fs pip root random = u32 (fs_ipg fs * int (fst f))"
      using True by (simp add: ffs_dirpref_def dirpref_root_def f_def Let_def case_prod_beta)
    ultimately show thesis using that[of "fst f"] u True by simp
  next
    case False
    let ?p = "nat (ino_to_cg fs (i_number pip))"
    note gs = groups_from_set[OF order_less_imp_le[OF p]]
    let ?plenty = "\<lambda>c. avg fs (cst_nifree (fs_cstotal fs)) \<le> u32 (cs_nifree (fs_cs fs c))"
    show thesis
    proof (cases "List.find (suits fs) (groups_from fs ?p)")
      case (Some c)
      then have "c < ?n" "suits fs c" using find_in[OF Some] gs by auto
      then show thesis using that[of c] u False Some by (simp add: ffs_dirpref_def Let_def)
    next
      case None
      then have no: "\<not> (\<exists>d < ?n. suits fs d)" using find_none[of "suits fs"] gs by auto
      define c where "c = (case List.find ?plenty [?p..<?n] of Some c \<Rightarrow> c | None \<Rightarrow>
          (case List.find ?plenty [0..<?p] of Some c \<Rightarrow> c | None \<Rightarrow> ?p))"
      have "c < ?n"
      proof (cases "List.find ?plenty [?p..<?n]")
        case (Some d)
        then show ?thesis using find_in[OF Some] by (simp add: c_def)
      next
        case none: None
        then show ?thesis using p find_in[of ?plenty "[0..<?p]"] by (cases "List.find ?plenty [0..<?p]") (auto simp: c_def)
      qed
      moreover have "ffs_dirpref fs pip root random = u32 (fs_ipg fs * int c)"
        using False None by (simp add: ffs_dirpref_def Let_def c_def split: option.splits)
      ultimately show thesis using that[of c] u no by simp
    qed
  qed
qed

lemma contigdirs_inv:
  "node_inv (st\<lparr>a_fs := set_contigdirs c g (a_fs st)\<rparr>) = node_inv st"
  "free_inodes (st\<lparr>a_fs := set_contigdirs c g (a_fs st)\<rparr>) = free_inodes st"
  "free_set (st\<lparr>a_fs := set_contigdirs c g (a_fs st)\<rparr>) = free_set st"
proof -
  have geo: "geom_eq (set_contigdirs c g (a_fs st)) (a_fs st)" by (simp add: set_contigdirs_def)
  note g = geom_eqD[OF geo] geom_inodes[OF geo]
  have si: "fs_si (set_contigdirs c g (a_fs st)) =
      map_option (\<lambda>si. si\<lparr>si_contigdirs := (si_contigdirs si)[c := g (si_contigdirs si ! c)]\<rparr>) (fs_si (a_fs st))"
    "fs_cstotal (set_contigdirs c g (a_fs st)) = fs_cstotal (a_fs st)" by (simp_all add: set_contigdirs_def)
  show fs: "free_set (st\<lparr>a_fs := set_contigdirs c g (a_fs st)\<rparr>) = free_set st" by (simp add: free_set_def g)
  show fi: "free_inodes (st\<lparr>a_fs := set_contigdirs c g (a_fs st)\<rparr>) = free_inodes st" by (simp add: free_inodes_def g)
  have "alloc_inv (st\<lparr>a_fs := set_contigdirs c g (a_fs st)\<rparr>) = alloc_inv st"
    unfolding alloc_inv_def fs by (cases "fs_si (a_fs st)") (simp_all add: g group_ok_def si)
  then show "node_inv (st\<lparr>a_fs := set_contigdirs c g (a_fs st)\<rparr>) = node_inv st"
    unfolding node_inv_def fi by (simp add: g inodes_ok_def si)
qed

text \<open>The superblock a placement of inodes works on.\<close>

definition nodes_ok :: "ddfs_fs \<Rightarrow> bool" where
  "nodes_ok fs \<longleftrightarrow> 0 < fs_ncg fs \<and> 0 < fs_ipg fs \<and> fs_ipg fs * fs_ncg fs < 2 ^ 32"

lemma sum_list_pos_ex: "(\<Sum>x \<leftarrow> xs. (f x :: int)) \<noteq> 0 \<Longrightarrow> \<exists>x \<in> set xs. f x \<noteq> 0"
  by (induction xs) auto

text \<open>The inode lies in a part of its group that has been initialised; and what \<open>ffs_valloc\<close> gives for it.\<close>

definition inited :: "alloc_st \<Rightarrow> int \<Rightarrow> bool" where
  "inited st ino \<longleftrightarrow> ino mod fs_ipg (a_fs st) < cg_initediblk (a_cgs st ! nat (ino div fs_ipg (a_fs st)))"

definition fresh_inode :: "valloc_env \<Rightarrow> ddfs_fs \<Rightarrow> int \<Rightarrow> inode \<Rightarrow> bool" where
  "fresh_inode V fs ino ip \<longleftrightarrow> i_number ip = ino \<and> i_mode ip = 0 \<and> 0 < i_gen ip \<and> di_gen (i_din ip) = u32 (i_gen ip) \<and>
     i_flags ip = 0 \<and> di_flags (i_din ip) = 0 \<and> (fs_flags fs AND FS_UNCLEAN = 0 \<longrightarrow> di_blocks (i_din ip) = 0) \<and>
     (fs_magic fs = FS_DDFS_MAGIC \<longrightarrow> i_flag ip = IN_UFS2 \<and> (di_birthtime (i_din ip), di_birthnsec (i_din ip)) = v_time V)"

lemma geom_blank:
  assumes "geom_eq fs' fs"
  shows "blank_inode G fs' = blank_inode G fs"
  by (subst geom_form[OF assms]) (simp add: blank_inode_def fsbtodb_def ino_to_fsba_def ino_to_fsbo_def cgimin_def cgstart_def cgbase_def
      ino_to_cg_def blkstofrags_def INOPB_def fun_eq_iff)

context node_device
begin

lemma valloc_try_spec:
  assumes "node_inv st" "nodes_ok (a_fs st)" "0 \<le> i_number pip" "i_number pip < fs_ipg (a_fs st) * fs_ncg (a_fs st)"
  shows "if free_inodes st \<noteq> {}
    then \<exists>ino st'. valloc_try E V pip root mode st = Inr (ino, st') \<and> ino \<noteq> 0 \<and> new_inode mode st ino st'
    else valloc_try E V pip root mode st = Inr (0, st)"
proof (cases "cst_nifree (fs_cstotal (a_fs st)) = 0")
  case True
  have "\<And>c. c < length (a_cgs st) \<Longrightarrow> inodes_ok (a_fs st) (a_cgs st ! c)" using node_group(4)[OF assms(1)] .
  then have pos: "\<forall>x \<in> set (a_cgs st). 0 \<le> cs_nifree (cg_cs x)" by (auto simp: in_set_conv_nth inodes_ok_def)
  have "(\<Sum>x \<leftarrow> a_cgs st. cs_nifree (cg_cs x)) = 0" using assms(1) True by (simp add: node_inv_def)
  then have zero: "\<forall>x \<in> set (a_cgs st). cs_nifree (cg_cs x) = 0" using pos by (subst (asm) sum_list_nonneg_eq_0_iff) auto
  have "free_inodes st = {}"
  proof (rule ccontr)
    assume "free_inodes st \<noteq> {}"
    then obtain c j where j: "c < length (a_cgs st)" "int j < fs_ipg (a_fs st)" "\<not> isset (cg_inosused (a_cgs st ! c)) j"
      by (auto simp: free_inodes_def)
    then have "j \<in> clear_below (cg_inosused (a_cgs st ! c)) (nat (fs_ipg (a_fs st)))" by (simp add: clear_below_def)
    then have "cs_nifree (cg_cs (a_cgs st ! c)) \<noteq> 0"
      using node_group(4)[OF assms(1) j(1)] by (auto simp: inodes_ok_def)
    then show False using zero j(1) by simp
  qed
  then show ?thesis using True by (simp add: valloc_try_def)
next
  case False
  let ?fs = "a_fs st" and ?n = "nat (fs_ncg (a_fs st))"
  have n: "0 < fs_ncg ?fs" "0 < fs_ipg ?fs" "fs_ipg ?fs * fs_ncg ?fs < 2 ^ 32" using assms(2) by (auto simp: nodes_ok_def)
  have len: "length (a_cgs st) = ?n" using assms(1) by (simp add: node_inv_def alloc_inv_def)
  define p where "p = (if is_dir mode then ffs_dirpref ?fs pip root (v_random V) else i_number pip)"
  have p: "0 \<le> p \<and> p < fs_ipg ?fs * fs_ncg ?fs"
  proof (cases "is_dir mode")
    case True
    obtain c where "c < ?n" "ffs_dirpref ?fs pip root (v_random V) = fs_ipg ?fs * int c"
      using dirpref_group[OF n assms(3,4)] by metis
    then show ?thesis using True n(1,2) by (simp add: p_def)
  next
    case False
    then show ?thesis using assms(3,4) by (simp add: p_def)
  qed
  have "fs_ncg ?fs * fs_ipg ?fs mod 2 ^ 32 = fs_ncg ?fs * fs_ipg ?fs" using n by (simp add: mult.commute)
  then have range: "\<not> u32 (fs_ncg ?fs * fs_ipg ?fs) \<le> p" using p by (simp add: u32_def mult.commute)
  define c where "c = nat (ino_to_cg ?fs p)"
  have c: "c < ?n" using p n div_less[of p "fs_ipg ?fs" "fs_ncg ?fs"] by (simp add: c_def ino_to_cg_def)
  define g where "g = (\<lambda>n :: nat. if is_dir mode then if n < 255 then n + 1 else n else n - 1)"
  define st1 where "st1 = st\<lparr>a_fs := set_contigdirs c g ?fs\<rparr>"
  have call: "valloc_try E V pip root mode st = ffs_hashalloc c p (ffs_nodealloccg E mode) st1"
    unfolding valloc_try_def Let_def if_not_P[OF False] p_def[symmetric] if_not_P[OF range] c_def[symmetric] g_def[symmetric] st1_def ..
  note inv1 = contigdirs_inv[where st = st and c = c and g = g, folded st1_def]
  have geo: "geom_eq (a_fs st1) ?fs" by (simp add: st1_def set_contigdirs_def)
  note g1 = geom_inodes[OF geo] geom_eqD(15)[OF geo]
  have cgs: "a_cgs st1 = a_cgs st" by (simp add: st1_def)
  obtain x where "x \<in> set (a_cgs st)" "cs_nifree (cg_cs x) \<noteq> 0"
    using False assms(1) sum_list_pos_ex[of "\<lambda>x. cs_nifree (cg_cs x)" "a_cgs st"] by (auto simp: node_inv_def)
  then obtain d where d: "d < length (a_cgs st)" "cs_nifree (cg_cs (a_cgs st ! d)) \<noteq> 0" by (auto simp: in_set_conv_nth)
  then have "clear_below (cg_inosused (a_cgs st ! d)) (nat (fs_ipg ?fs)) \<noteq> {}"
    using node_group(4)[OF assms(1) d(1)] by (auto simp: inodes_ok_def)
  then obtain j where j: "j < nat (fs_ipg ?fs)" "\<not> isset (cg_inosused (a_cgs st ! d)) j" by (auto simp: clear_below_def)
  then have j2: "int j < fs_ipg ?fs" by simp
  then have f: "inode_no st d j \<in> free_inodes st" "int j < fs_ipg ?fs"
    using d(1) j(2) unfolding free_inodes_def inode_no_def by blast+
  have same: "inode_no st1 c j = inode_no st c j" for c j by (simp add: inode_no_def g1)
  have "inode_room st1 d" unfolding inode_room_def same inv1(2) using f g1 by auto
  then have ex: "\<exists>c < nat (fs_ncg (a_fs st1)). inode_room st1 c" using d(1) len g1 by auto
  have "node_inv st1" "c < nat (fs_ncg (a_fs st1))" using assms(1) inv1(1) c g1 by simp_all
  from inodes.hashalloc[OF this, of p mode] obtain ino st' where r: "ffs_hashalloc c p (ffs_nodealloccg E mode) st1 = Inr (ino, st')" "ino \<noteq> 0" "new_inode mode st1 ino st'"
    using ex by metis
  have "fs_cstotal (a_fs st1) = fs_cstotal ?fs" by (simp add: st1_def set_contigdirs_def)
  moreover have "INOPB (a_fs st1) = INOPB ?fs" "ino_to_fsba (a_fs st1) = ino_to_fsba ?fs"
    by (simp_all add: st1_def set_contigdirs_def INOPB_def ino_to_fsba_def cgimin_def cgstart_def cgbase_def ino_to_cg_def blkstofrags_def fun_eq_iff)
  ultimately have "new_inode mode st ino st'"
    using r(3) geom_eq_trans_iff[OF geo] unfolding new_inode_def takes_inode_def block_ready_def same inv1 cgs by (simp add: g1)
  then show ?thesis using r f(1) unfolding call by auto
qed

text \<open>\<open>ffs_valloc\<close> on a file system with a free inode whose vnode can be had.\<close>

lemma ffs_valloc_full:
  assumes "node_inv st" "nodes_ok (a_fs st)" "0 \<le> i_number pip" "i_number pip < fs_ipg (a_fs st) * fs_ncg (a_fs st)" "free_inodes st = {}"
  shows "ffs_valloc E V fsfail pip root mode st = Inr (if fsfail then ENXIO else ENOSPC, None, st)"
  using valloc_try_spec[OF assms(1-4), of V root mode] assms(5) by (simp add: ffs_valloc_def)

lemma ffs_valloc_spec:
  assumes "node_inv st" "nodes_ok (a_fs st)" "0 \<le> i_number pip" "i_number pip < fs_ipg (a_fs st) * fs_ncg (a_fs st)" "free_inodes st \<noteq> {}"
    "\<And>ino. ino \<in> free_inodes st \<Longrightarrow> vget_calls (v_get V) ino" "\<And>c. c < length (a_cgs st) \<Longrightarrow> INOPB (a_fs st) dvd cg_initediblk (a_cgs st ! c)"
    "\<And>iblks ino. ino \<in> free_inodes st \<Longrightarrow> inited st ino \<or> map_of iblks (ino_to_fsba (a_fs st) ino) \<noteq> None \<Longrightarrow> blank_inode (v_get V) (a_fs st) iblks ino"
  shows "\<exists>ino ip st'. ffs_valloc E V fsfail pip root mode st = Inr (0, Some ip, st') \<and> new_inode mode st ino st' \<and> fresh_inode V (a_fs st) ino ip"
proof -
  obtain ino st' where r: "valloc_try E V pip root mode st = Inr (ino, st')" "ino \<noteq> 0" "new_inode mode st ino st'"
    using valloc_try_spec[OF assms(1-4), of V root mode] assms(5) by auto
  obtain c j where cj: "ino = inode_no st c j" "c < length (a_cgs st)" "takes_inode c mode st j st'" "block_ready c st j st'"
    using r(3) by (auto simp: new_inode_def)
  have geo: "geom_eq (a_fs st') (a_fs st)" and free: "ino \<in> free_inodes st" and j: "int j < fs_ipg (a_fs st)"
    using cj(1,3) by (auto simp: takes_inode_def)
  have "ino div fs_ipg (a_fs st) = int c" "ino mod fs_ipg (a_fs st) = int j" using j by (simp_all add: cj(1) inode_no_def)
  then have "inited st ino \<or> map_of (a_iblks st') (ino_to_fsba (a_fs st) ino) \<noteq> None"
    using cj(4) assms(7)[OF cj(2)] by (simp add: block_ready_def inited_def cj(1))
  then have "blank_inode (v_get V) (a_fs st') (a_iblks st') ino" using assms(8)[OF free] geom_blank[OF geo] by simp
  then obtain ip where ip: "ffs_vgetf (v_get V) True False (a_fs st') (a_iblks st') ino = Inr (0, Some ip)" "i_number ip = ino" "i_mode ip = 0"
      "0 < i_gen ip" "i_gen ip < 2 ^ 32" using vgetf_blank[OF assms(6)[OF free]] by blast
  have fs: "fs_magic (a_fs st') = fs_magic (a_fs st)" "fs_flags (a_fs st') = fs_flags (a_fs st)" by (subst geom_form[OF geo], simp)+
  have "(i_gen ip + 1) mod 2 ^ 64 = i_gen ip + 1" using ip(4,5) by (intro mod_pos_pos_trivial) simp_all
  then have "new_gen (i_gen ip) (v_gens V) = Some (i_gen ip + 1)" using ip(4) by (cases "v_gens V") simp_all
  then obtain ip' where "ready_inode V (a_fs st') ip = Inr ip'" "fresh_inode V (a_fs st) ino ip'"
    using ip(2-4) by (simp add: ready_inode_def fresh_inode_def Let_def fs)
  then show ?thesis using r ip(1) by (auto simp: ffs_valloc_def)
qed

end

end
