(* ===== verification/Ddfs_Write.thy ===== *)
theory Ddfs_Write
  imports Ddfs_Entry
begin

text \<open>
  Writing a file: \<open>ffs_balloc_ufs2\<close> (\<open>ddfs_balloc.c\<close>) for the direct blocks and \<open>ffs_write\<close>
  (\<open>ddfs_vnops.c\<close>), which looks every block it has changed up in the deduplication table. The state is
  the inode, the buffers of the file, the table's device and the allocator. Arguments stand for the
  branch of \<open>ffs_balloc_ufs2\<close> that allocates indirect blocks and for \<open>ffs_truncate\<close> and
  \<open>ffs_update\<close> of \<open>ddfs_inode.c\<close>, which are not modelled. A buffer is valid as a whole or not at all,
  and when its contents reach the device, at \<open>vb_blkno\<close>, is left to the buffer cache.
\<close>

section \<open>State\<close>

definition EPERM :: errno where "EPERM = 1"
definition EBADF :: errno where "EBADF = 9"
definition EFBIG :: errno where "EFBIG = 27"

record 'k file_st =
  f_ip :: inode
  f_bufs :: "(int \<times> vbuf) list"
  f_ks :: 'k
  f_st :: alloc_st

text \<open>From the kernel: \<open>bread\<close> and \<open>getblk\<close> of a block that has no buffer yet, the memory after a buffer's data,
  whether a buffer is mapped and what of it was not transferred (\<open>b_resid\<close>),
  SHA-1, what the flags of a fresh table entry happen to hold, \<open>vn_rlimit_fsize\<close>.\<close>

record 'k file_env =
  fe_bread :: "int \<Rightarrow> int \<Rightarrow> errno \<times> vbuf"
  fe_getblk :: "int \<Rightarrow> int \<Rightarrow> vbuf option"
  fe_tail :: "vbuf \<Rightarrow> byte list"
  fe_mapped :: "vbuf \<Rightarrow> bool"
  fe_resid :: "vbuf \<Rightarrow> nat"
  fe_sha1 :: "byte list \<Rightarrow> byte list"
  fe_junk :: "16 word"
  fe_rlimit :: bool
  fe_fsfail :: bool
  fe_untrusted :: bool
  fe_indirect :: "int \<Rightarrow> int \<Rightarrow> ioflags \<Rightarrow> 'k file_st \<Rightarrow> fault + errno \<times> vbuf option \<times> 'k file_st"
  fe_truncate :: "int \<Rightarrow> 'k file_st \<Rightarrow> 'k file_st"
  fe_update :: "'k file_st \<Rightarrow> errno \<times> 'k file_st"

definition file_bread :: "'k file_env \<Rightarrow> 'k file_st \<Rightarrow> int \<Rightarrow> int \<Rightarrow> errno \<times> vbuf" where
  "file_bread F s lbn sz = (case map_of (f_bufs s) lbn of Some bp \<Rightarrow> (0, bp) | None \<Rightarrow> fe_bread F lbn sz)"

text \<open>\<open>getblk\<close> with whether the buffer holds data already, and \<open>vfs_bio_clrbuf\<close>, which clears one that does not.\<close>

definition file_getblk :: "'k file_env \<Rightarrow> 'k file_st \<Rightarrow> int \<Rightarrow> int \<Rightarrow> (bool \<times> vbuf) option" where
  "file_getblk F s lbn sz = (case map_of (f_bufs s) lbn of Some bp \<Rightarrow> Some (True, bp)
     | None \<Rightarrow> map_option (\<lambda>bp. (False, bp)) (fe_getblk F lbn sz))"

definition clrbuf :: "bool \<Rightarrow> vbuf \<Rightarrow> vbuf" where
  "clrbuf valid bp = (if valid then bp else bp\<lparr>vb_data := replicate (length (vb_data bp)) 0\<rparr>)"

definition smalllblktosize :: "ddfs_fs \<Rightarrow> int \<Rightarrow> int" where
  "smalllblktosize fs blk = push_bit (fs_bshift fs) blk"

definition dd_blksize :: "ddfs_fs \<Rightarrow> inode \<Rightarrow> int \<Rightarrow> int" where
  "dd_blksize fs ip lbn = (if UFS_NDADDR \<le> lbn \<or> smalllblktosize fs (lbn + 1) \<le> i_size ip then fs_bsize fs
     else fragroundup fs (blkoff fs (i_size ip)))"

section \<open>Block allocation\<close>

definition set_db :: "nat \<Rightarrow> int \<Rightarrow> inode \<Rightarrow> inode" where
  "set_db i b ip = ip\<lparr>i_din := (i_din ip)\<lparr>di_db := (di_db (i_din ip))[i := b]\<rparr>\<rparr>"

definition set_size :: "int \<Rightarrow> inode \<Rightarrow> inode" where
  "set_size n ip = ip\<lparr>i_size := n, i_din := (i_din ip)\<lparr>di_size := n\<rparr>\<rparr>"

text \<open>\<open>ffs_realloccg\<close> for block \<open>i\<close>, with the preference of \<open>ffs_blkpref_ufs2\<close>.\<close>

definition file_realloc :: "'k kern \<Rightarrow> alloc_env \<Rightarrow> 'k file_env \<Rightarrow> cred \<Rightarrow> nat \<Rightarrow> int \<Rightarrow> int \<Rightarrow> ioflags \<Rightarrow> 'k file_st \<Rightarrow>
    fault + errno \<times> vbuf option \<times> 'k file_st" where
  "file_realloc K E F cred i osize nsize flags s =
     (let ip = f_ip s; db = di_db (i_din ip);
          (pref, fs) = ffs_blkpref_ufs2 (fe_untrusted F) (a_fs (f_st s)) ip (int i) (int i) db
      in case ffs_realloccg K E (fe_fsfail F) cred (file_bread F s) ip (int i) (db ! i) pref osize nsize flags
           (f_ks s, (f_st s)\<lparr>a_fs := fs\<rparr>) of Inl f \<Rightarrow> Inl f
         | Inr (error, bp, ip, ks, st) \<Rightarrow> Inr (error, bp, s\<lparr>f_ip := ip, f_ks := ks, f_st := st\<rparr>))"

text \<open>A last fragment before block \<open>lbn\<close> becomes a whole block.\<close>

definition balloc_extend :: "'k kern \<Rightarrow> alloc_env \<Rightarrow> 'k file_env \<Rightarrow> cred \<Rightarrow> int \<Rightarrow> ioflags \<Rightarrow> 'k file_st \<Rightarrow> fault + errno \<times> 'k file_st" where
  "balloc_extend K E F cred lbn flags s =
     (let fs = a_fs (f_st s); nb = lblkno fs (i_size (f_ip s)); osize = dd_blksize fs (f_ip s) nb in
      if nb < UFS_NDADDR \<and> nb < lbn \<and> osize < fs_bsize fs \<and> 0 < osize then
        (case file_realloc K E F cred (nat nb) osize (fs_bsize fs) flags s of Inl f \<Rightarrow> Inl f
         | Inr (error, None, s) \<Rightarrow> Inr (error, s)
         | Inr (error, Some bp, s) \<Rightarrow>
           let ip = set_db (nat nb) (dbtofsb fs (vb_blkno bp)) (set_size (smalllblktosize fs (nb + 1)) (f_ip s)) in
           Inr (0, s\<lparr>f_ip := UFS_INODE_SET_FLAG (IN_SIZEMOD OR IN_CHANGE OR IN_UPDATE OR IN_IBLKDATA) ip,
             f_bufs := (nb, bp) # f_bufs s\<rparr>))
      else Inr (0, s))"

text \<open>The direct blocks; \<open>placed\<close> is the end of the two branches that may have moved the block.\<close>

definition placed :: "nat \<Rightarrow> vbuf \<Rightarrow> 'k file_st \<Rightarrow> errno \<times> vbuf option \<times> 'k file_st" where
  "placed i bp s = (0, Some bp, s\<lparr>f_ip := UFS_INODE_SET_FLAG (IN_CHANGE OR IN_UPDATE OR IN_IBLKDATA)
     (set_db i (dbtofsb (a_fs (f_st s)) (vb_blkno bp)) (f_ip s))\<rparr>)"

definition balloc_direct :: "'k kern \<Rightarrow> alloc_env \<Rightarrow> 'k file_env \<Rightarrow> cred \<Rightarrow> int \<Rightarrow> int \<Rightarrow> ioflags \<Rightarrow> 'k file_st \<Rightarrow>
    fault + errno \<times> vbuf option \<times> 'k file_st" where
  "balloc_direct K E F cred lbn sz flags s =
     (let fs = a_fs (f_st s); ip = f_ip s; i = nat lbn; nb = di_db (i_din ip) ! i; full = smalllblktosize fs (lbn + 1) in
      if ba_metaonly flags then Inl (Panic ''ffs_balloc_ufs2: BA_METAONLY for direct block'')
      else if nb \<noteq> 0 \<and> full \<le> i_size ip then
        (if ba_clrbuf flags then
           (case file_bread F s lbn (fs_bsize fs) of (error, bp) \<Rightarrow>
              if error \<noteq> 0 then Inr (error, None, s) else Inr (0, Some (bp\<lparr>vb_blkno := fsbtodb fs nb\<rparr>), s))
         else case file_getblk F s lbn (fs_bsize fs) of None \<Rightarrow> Inr (EIO, None, s)
           | Some (valid, bp) \<Rightarrow> Inr (0, Some ((clrbuf valid bp)\<lparr>vb_blkno := fsbtodb fs nb\<rparr>), s))
      else if nb \<noteq> 0 then
        (let osize = fragroundup fs (blkoff fs (i_size ip)); nsize = fragroundup fs sz in
         if nsize \<le> osize then
           (case file_bread F s lbn osize of (error, bp) \<Rightarrow>
              if error \<noteq> 0 then Inr (error, None, s) else Inr (placed i (bp\<lparr>vb_blkno := fsbtodb fs nb\<rparr>) s))
         else case file_realloc K E F cred i osize nsize flags s of Inl f \<Rightarrow> Inl f
           | Inr (error, None, s) \<Rightarrow> Inr (error, None, s)
           | Inr (error, Some bp, s) \<Rightarrow> Inr (placed i bp s))
      else
        (let nsize = (if i_size ip < full then fragroundup fs sz else fs_bsize fs);
             (pref, fs') = ffs_blkpref_ufs2 (fe_untrusted F) fs ip lbn lbn (di_db (i_din ip))
         in case ffs_alloc E (fe_fsfail F) cred ip pref nsize flags ((f_st s)\<lparr>a_fs := fs'\<rparr>) of Inl f \<Rightarrow> Inl f
            | Inr (error, newb, ip, st) \<Rightarrow>
              let s = s\<lparr>f_ip := ip, f_st := st\<rparr> in
              if error \<noteq> 0 then Inr (error, None, s)
              else case file_getblk F s lbn nsize of None \<Rightarrow> Inl NullDeref
              | Some (valid, bp) \<Rightarrow>
                Inr (placed i ((if ba_clrbuf flags then clrbuf valid bp else bp)\<lparr>vb_blkno := fsbtodb fs newb\<rparr>) s)))"

definition ffs_balloc_ufs2 :: "'k kern \<Rightarrow> alloc_env \<Rightarrow> 'k file_env \<Rightarrow> cred \<Rightarrow> int \<Rightarrow> int \<Rightarrow> ioflags \<Rightarrow> 'k file_st \<Rightarrow>
    fault + errno \<times> vbuf option \<times> 'k file_st" where
  "ffs_balloc_ufs2 K E F cred ufsoffset sz flags s =
     (let fs = a_fs (f_st s); lbn = lblkno fs ufsoffset; sz = blkoff fs ufsoffset + sz in
      if fs_bsize fs < sz then Inl (Panic ''ffs_balloc_ufs2: blk too big'')
      else if lbn < 0 then Inr (EFBIG, None, s)
      else case balloc_extend K E F cred lbn flags s of Inl f \<Rightarrow> Inl f
      | Inr (error, s) \<Rightarrow>
        if error \<noteq> 0 then Inr (error, None, s)
        else if lbn < UFS_NDADDR then balloc_direct K E F cred lbn sz flags s
        else fe_indirect F lbn sz flags s)"

section \<open>Deduplicating a block\<close>

text \<open>\<open>di_db[lbn]\<close> of \<open>struct ufs2_dinode\<close>, as the 64-bit word at that place: past the twelve direct addresses
  it is an indirect address or what follows them, past the structure it is out of bounds.\<close>

definition di_word :: "dinode \<Rightarrow> nat \<Rightarrow> fault + 64 word" where
  "di_word d i =
     (if i < 12 then Inr (word_of_int (di_db d ! i))
      else if i < 15 then Inr (word_of_int (di_ib d ! (i - 12)))
      else if i = 15 then Inr (word_of_int (di_modrev d))
      else if i = 16 then Inr (word_of_int (di_freelink d + 2 ^ 32 * di_ckhash d))
      else if i = 17 then Inr (word_of_int (di_spare d ! 0 + 2 ^ 32 * di_spare d ! 1))
      else Inl OutOfBounds)"

definition set_di_word :: "nat \<Rightarrow> 64 word \<Rightarrow> dinode \<Rightarrow> dinode" where
  "set_di_word i w d =
     (if i < 12 then d\<lparr>di_db := (di_db d)[i := sint w]\<rparr>
      else if i < 15 then d\<lparr>di_ib := (di_ib d)[i - 12 := sint w]\<rparr>
      else if i = 15 then d\<lparr>di_modrev := uint w\<rparr>
      else if i = 16 then d\<lparr>di_freelink := u32 (uint w), di_ckhash := uint w div 2 ^ 32\<rparr>
      else d\<lparr>di_spare := [u32 (uint w), uint w div 2 ^ 32]\<rparr>)"

text \<open>The contents of \<open>bp\<close> from \<open>blkoffset\<close> on are looked up; when the table has them in another block, the file
  is pointed to that one and the old block is freed.\<close>

definition dedup_block :: "'k kern \<Rightarrow> alloc_env \<Rightarrow> 'k file_env \<Rightarrow> nat \<Rightarrow> nat \<Rightarrow> vbuf \<Rightarrow> 'k file_st \<Rightarrow> fault + 'k file_st" where
  "dedup_block K E F lbn blkoffset bp s =
     (let hash = snd (hash_block (fe_sha1 F) (drop blkoffset (vb_data bp @ fe_tail F bp)) (nat DDFS_BLOCKSIZE)); ip = f_ip s in
      case di_word (i_din ip) lbn of Inl f \<Rightarrow> Inl f
      | Inr oldblk \<Rightarrow>
        (case ddtable_alloc K (a_fs (f_st s)) (fe_junk F) hash oldblk (f_ks s) of Inl f \<Rightarrow> Inl f
         | Inr ((_, newblk), ks) \<Rightarrow>
           if newblk = oldblk then Inr (s\<lparr>f_ks := ks\<rparr>)
           else
             let ip = ip\<lparr>i_din := set_di_word lbn newblk (i_din ip)\<rparr> in
             case ffs_blkfree K E (sint oldblk) DDFS_BLOCKSIZE (ks, f_st s) of Inl f \<Rightarrow> Inl f
             | Inr (ks, st) \<Rightarrow> Inr (s\<lparr>f_ip := UFS_INODE_SET_FLAG (IN_MODIFIED OR IN_NEEDSYNC) ip, f_ks := ks, f_st := st\<rparr>)))"

section \<open>Writing\<close>

datatype file_type = VREG | VLNK | VDIR | VOTHER

record write_flags =
  w_ext :: bool
  w_append :: bool
  w_sync :: bool
  w_unit :: bool
  w_datasync :: bool

definition ISUID :: int where "ISUID = 0x800"
definition ISGID :: int where "ISGID = 0x400"

text \<open>\<open>APPEND\<close> of the kernel, in \<open>i_flags\<close>: \<open>SF_APPEND | UF_APPEND\<close>.\<close>

definition APPEND :: int where "APPEND = 0x40004"

text \<open>One block of the loop, with the buffer \<open>bp\<close> of \<open>UFS_BALLOC\<close>; gives the error and the size of the transfer.\<close>

definition write_block :: "'k kern \<Rightarrow> alloc_env \<Rightarrow> 'k file_env \<Rightarrow> int \<Rightarrow> int \<Rightarrow> int \<Rightarrow> vbuf \<Rightarrow> uio \<Rightarrow> 'k file_st \<Rightarrow>
    fault + errno \<times> int \<times> uio \<times> 'k file_st" where
  "write_block K E F lbn blkoffset xfersize bp u s =
     (let fs = a_fs (f_st s); ip = f_ip s; cached = map_of (f_bufs s) lbn \<noteq> None;
          ip = (if i_size ip < uio_offset u + xfersize
                then UFS_INODE_SET_FLAG (IN_SIZEMOD OR IN_CHANGE) (set_size (uio_offset u + xfersize) ip) else ip);
          s = s\<lparr>f_ip := ip\<rparr>; xfersize = min (dd_blksize fs ip lbn - int (fe_resid F bp)) xfersize
      in if \<not> fe_mapped F bp then Inr (EIO, xfersize, u, s)
         else if int (length (vb_data bp)) < blkoffset + min xfersize (int (uio_resid u)) then Inl OutOfBounds
         else case k_uiomove_in K (f_ks s) (nat xfersize) u of (error, bytes, u, ks) \<Rightarrow>
           let bp = bp\<lparr>vb_data := overlay (nat blkoffset) bytes (vb_data bp)\<rparr> in
           case dedup_block K E F (nat lbn) (nat blkoffset) bp (s\<lparr>f_ks := ks\<rparr>) of Inl f \<Rightarrow> Inl f
           | Inr s \<Rightarrow>
             let bp = (if error \<noteq> 0 \<and> \<not> cached \<and> fs_bsize fs = xfersize then clrbuf False bp else bp) in
             Inr (error, xfersize, u, s\<lparr>f_bufs := (lbn, bp) # f_bufs s\<rparr>))"

partial_function (option) ffs_write_loop ::
  "'k kern \<Rightarrow> alloc_env \<Rightarrow> 'k file_env \<Rightarrow> cred \<Rightarrow> bool \<Rightarrow> uio \<Rightarrow> 'k file_st \<Rightarrow> (fault + errno \<times> uio \<times> 'k file_st) option" where
  "ffs_write_loop K E F cred sync u s =
     (if 0 < uio_resid u then
        let fs = a_fs (f_st s); lbn = lblkno fs (uio_offset u); blkoffset = blkoff fs (uio_offset u);
            xfersize = min (fs_bsize fs - blkoffset) (int (uio_resid u));
            flags = \<lparr>io_ext = False, io_buflocked = False, io_sync = sync, ba_clrbuf = xfersize < fs_bsize fs, ba_metaonly = False\<rparr>
        in case ffs_balloc_ufs2 K E F cred (uio_offset u) xfersize flags s of Inl f \<Rightarrow> Some (Inl f)
           | Inr (error, bp, s) \<Rightarrow>
             if error \<noteq> 0 then Some (Inr (error, u, s))
             else case bp of None \<Rightarrow> Some (Inl NullDeref)
             | Some bp \<Rightarrow>
               (case write_block K E F lbn blkoffset xfersize bp u s of Inl f \<Rightarrow> Some (Inl f)
                | Inr (error, xfersize, u, s) \<Rightarrow>
                  if error \<noteq> 0 \<or> xfersize = 0 then Some (Inr (error, u, s))
                  else ffs_write_loop K E F cred sync u (s\<lparr>f_ip := UFS_INODE_SET_FLAG (IN_CHANGE OR IN_UPDATE) (f_ip s)\<rparr>))
      else Some (Inr (0, u, s)))"

text \<open>After the loop: the set-id bits (\<open>retain\<close>: the credential exists and may not keep them), the undoing of a partial
  write of a unit, the synchronous update of the inode.\<close>

definition write_out :: "'k file_env \<Rightarrow> bool \<Rightarrow> write_flags \<Rightarrow> int \<Rightarrow> nat \<Rightarrow> errno \<times> uio \<times> 'k file_st \<Rightarrow> errno \<times> uio \<times> 'k file_st" where
  "write_out F noretain flags osize resid = (\<lambda>(error, u, s).
     let ip = f_ip s;
         ip = (if i_mode ip AND (ISUID OR ISGID) \<noteq> 0 \<and> uio_resid u < resid \<and> noretain
               then ip\<lparr>i_mode := i_mode ip AND NOT (ISUID OR ISGID)\<rparr> else ip);
         s = s\<lparr>f_ip := ip\<rparr>
     in if error \<noteq> 0 then
          (if w_unit flags then
             (error, u\<lparr>uio_offset := uio_offset u - int (resid - uio_resid u), uio_resid := resid\<rparr>, fe_truncate F osize s)
           else (error, u, s))
        else if uio_resid u < resid \<and> w_sync flags then
          let (error, s) = (if \<not> w_datasync flags \<or> i_flags ip AND (IN_SIZEMOD OR IN_IBLKDATA) \<noteq> 0 then fe_update F s else (0, s))
          in (if fe_fsfail F \<or> error = ENXIO then ENXIO else error, u, s)
        else (0, u, s))"

definition ffs_write :: "'k kern \<Rightarrow> alloc_env \<Rightarrow> 'k file_env \<Rightarrow> cred \<Rightarrow> bool \<Rightarrow> file_type \<Rightarrow> write_flags \<Rightarrow> uio \<Rightarrow> 'k file_st \<Rightarrow>
    (fault + errno \<times> uio \<times> 'k file_st) option" where
  "ffs_write K E F cred noretain vtype flags u s =
     (let ip = f_ip s; fs = a_fs (f_st s); u' = (if vtype = VREG \<and> w_append flags then u\<lparr>uio_offset := i_size ip\<rparr> else u) in
      if w_ext flags then Some (Inl (Panic ''ffs_write+IO_EXT''))
      else if vtype = VREG \<and> i_flags ip AND APPEND \<noteq> 0 \<and> uio_offset u' \<noteq> i_size ip then Some (Inr (EPERM, u', s))
      else if vtype = VDIR then Some (Inl (Panic ''ffs_write: dir write''))
      else if vtype = VOTHER then Some (Inl (Panic ''ffs_write: type''))
      else if fs_maxfilesize fs < uio_offset u' + int (uio_resid u') then Some (Inr (EFBIG, u', s))
      else if fe_rlimit F then Some (Inr (EFBIG, u', s))
      else case ffs_write_loop K E F cred (w_sync flags) u' s of None \<Rightarrow> None
        | Some (Inl f) \<Rightarrow> Some (Inl f)
        | Some (Inr r) \<Rightarrow> Some (Inr (write_out F noretain flags (i_size ip) (uio_resid u') r)))"

end
