(* ===== verification/Ddfs_Store.thy ===== *)
theory Ddfs_Store
  imports Ddfs_Write
begin

text \<open>
  What a deduplicated write does to the file, to the table and to the free blocks, on a volume whose block
  and fragment sizes are both 4096 (the one \<open>newfs-ddfs\<close> makes): contents the table knows are shared, and
  the block allocated for them goes back, contents it does not know are stored and recorded. The lemmas
  compose the allocator, the table and the write path.
\<close>

section \<open>The group rotor\<close>

definition rotor :: "int \<Rightarrow> alloc_st \<Rightarrow> alloc_st" where
  "rotor x st = st\<lparr>a_fs := (a_fs st)\<lparr>fs_cgrotor := x\<rparr>\<rparr>"

lemma rotor_fs: "fs_ok (fs\<lparr>fs_cgrotor := x\<rparr>) = fs_ok fs" "cg_ok (fs\<lparr>fs_cgrotor := x\<rparr>) = cg_ok fs"
  "cgbase (fs\<lparr>fs_cgrotor := x\<rparr>) = cgbase fs"
  by (simp_all add: fs_ok_def geometry_ok_def cg_ok_def cgbase_def fun_eq_iff)

lemma rotor_state [simp]: "a_cgs (rotor x st) = a_cgs st" "free_set (rotor x st) = free_set st"
  "block_room k (rotor x st) = block_room k st" "free_inodes (rotor x st) = free_inodes st"
  by (simp_all add: rotor_def free_set_def rotor_fs block_room_def fun_eq_iff free_inodes_def)

lemma rotor_inv [simp]: "alloc_inv (rotor x st) = alloc_inv st"
  unfolding alloc_inv_def rotor_state by (simp add: rotor_def rotor_fs group_ok_def cong: option.case_cong)

lemma rotor_table: "table_ok (fs\<lparr>fs_cgrotor := x\<rparr>) = table_ok fs" "ddtab (fs\<lparr>fs_cgrotor := x\<rparr>) = ddtab fs"
  by (simp_all add: table_ok_def ddtab_def ddbase_def ddcount_def num_blocks_def entries_per_block_def geometry_ok_def fun_eq_iff)

lemma geom_table: "geom_eq fs' fs \<Longrightarrow> table_ok fs' = table_ok fs \<and> ddtab fs' = ddtab fs"
  by (subst (1 2) geom_form, assumption+)
    (simp add: table_ok_def ddtab_def ddbase_def ddcount_def num_blocks_def entries_per_block_def geometry_ok_def fun_eq_iff)

lemma geom_table_place: "geom_eq fs' fs \<Longrightarrow> ddbase fs' = ddbase fs \<and> ddcount fs' = ddcount fs"
  by (subst (1 2) geom_form, assumption+) (simp add: ddbase_def ddcount_def num_blocks_def entries_per_block_def)

lemma blkpref_ok:
  assumes "fs_ok fs" "0 < fs_ipg fs" "0 \<le> i_number ip" "\<And>b. b \<in> set bap \<union> set (di_db (i_din ip)) \<union> set (di_ib (i_din ip)) \<Longrightarrow> 0 \<le> b"
    "0 \<le> indx" "indx \<le> int (length bap)" "length (di_ib (i_din ip)) = 3"
  shows "\<exists>x p. blkpref untrusted fs ip lbn indx bap = (p, fs\<lparr>fs_cgrotor := x\<rparr>) \<and> 0 \<le> p"
proof -
  note g = fs_okD[OF assms(1)]
  have fr: "0 \<le> fs_frag fs" using frag_nat[OF g(1) refl] by auto
  have base: "0 \<le> cgbase fs c" if "0 \<le> c" for c using g(2) that by (simp add: cgbase_def)
  have data: "0 \<le> cgdata fs c" "0 \<le> cgmeta fs c" if "0 \<le> c" for c
    using base[OF that] g(4-6) by (simp_all add: cgdata_def cgmeta_def cgdmin_def cgstart_def)
  have ino: "0 \<le> ino_to_cg fs (i_number ip)" using assms(2,3) by (simp add: ino_to_cg_def pos_imp_zdiv_nonneg_iff)
  have ib: "0 \<le> di_ib (i_din ip) ! 0" using assms(4,7) by simp
  have prev: "0 \<le> bap ! nat (indx - 1)" if "indx \<noteq> 0" using assms(4-6) that by (intro assms(4)) auto
  have eta: "(v, fs) = (v, fs\<lparr>fs_cgrotor := fs_cgrotor fs\<rparr>)" for v :: int by simp
  have ex: "\<exists>x. fs = fs\<lparr>fs_cgrotor := x\<rparr>" by (intro exI[of _ "fs_cgrotor fs"]) simp
  define prevbn where "prevbn = (if indx = 0 then 0 else bap ! nat (indx - 1))"
  define pb where "pb = (if indx \<noteq> 0 \<and> UFS_CHECK_BLKNO untrusted fs prevbn (fs_bsize fs) \<noteq> 0 then 0 else prevbn)"
  have pb: "0 \<le> pb" using prev by (simp add: pb_def prevbn_def)
  have neg: "\<not> indx < 0" using assms(5) by simp
  note unf = blkpref_def Let_def if_not_P[OF neg] prevbn_def[symmetric] pb_def[symmetric]
  show ?thesis
  proof (cases "lbn = UFS_NDADDR \<and> di_ib (i_din ip) ! 0 \<noteq> 0 \<and> cgdata fs (ino_to_cg fs (i_number ip)) \<le> di_ib (i_din ip) ! 0 \<and>
      di_ib (i_din ip) ! 0 < cgbase fs (ino_to_cg fs (i_number ip) + 1)")
    case True
    then show ?thesis using ib fr eta unfolding unf if_P[OF True] by (metis add_nonneg_nonneg)
  next
    case False
    note unf2 = unf if_not_P[OF False]
    show ?thesis
    proof (cases "indx mod fs_maxbpg fs = 0 \<or> pb = 0")
      case here: True
      define groups where "groups = [nat ((if indx = 0 \<or> pb = 0 then u32 (ino_to_cg fs (i_number ip) + lbn div fs_maxbpg fs)
          else u32 (dtog fs pb + 1)) mod fs_ncg fs)..<nat (fs_ncg fs)] @ [0..<nat ((if indx = 0 \<or> pb = 0
          then u32 (ino_to_cg fs (i_number ip) + lbn div fs_maxbpg fs) else u32 (dtog fs pb + 1)) mod fs_ncg fs) + 1]"
      show ?thesis unfolding unf2 if_P[OF here] groups_def[symmetric]
        using data[OF ino] data(1)[of "int _"] ex by (auto split: option.split)
    next
      case there: False
      show ?thesis unfolding unf2 if_not_P[OF there] using pb fr eta by (metis add_nonneg_nonneg)
    qed
  qed
qed

section \<open>Volumes and files\<close>

definition volume_ok :: "nat \<Rightarrow> alloc_st \<Rightarrow> bool" where
  "volume_ok devsize st \<longleftrightarrow> alloc_inv st \<and> fs_bsize (a_fs st) = 4096 \<and> fs_frag (a_fs st) = 1 \<and> table_ok (a_fs st) devsize \<and>
     0 < fs_ncg (a_fs st) \<and> 0 < fs_ipg (a_fs st) \<and> fs_size (a_fs st) \<le> fs_fpg (a_fs st) * fs_ncg (a_fs st) \<and>
     fs_size (a_fs st) < 2 ^ 63 \<and> (\<forall>b \<in> free_set st. b < fs_size (a_fs st))"

text \<open>The blocks the table counts references to are not free.\<close>

definition table_sound :: "ddfs_dedup list \<Rightarrow> alloc_st \<Rightarrow> bool" where
  "table_sound t st \<longleftrightarrow> dd_inv t \<and> (\<forall>b \<in> fst ` ran (dd_map t). sint b \<notin> free_set st)"

definition file_ok :: "ddfs_fs \<Rightarrow> inode \<Rightarrow> bool" where
  "file_ok fs ip \<longleftrightarrow> 0 \<le> i_number ip \<and> i_number ip < fs_ipg fs * fs_ncg fs \<and> length (di_db (i_din ip)) = 12 \<and> length (di_ib (i_din ip)) = 3 \<and>
     (\<forall>b \<in> set (di_db (i_din ip)) \<union> set (di_ib (i_din ip)). 0 \<le> b)"

text \<open>A block of data in some group.\<close>

definition data_block :: "alloc_st \<Rightarrow> int \<Rightarrow> bool" where
  "data_block st b \<longleftrightarrow> 0 < b \<and> b < fs_size (a_fs st) \<and>
     (\<exists>c j. c < length (a_cgs st) \<and> b = cgbase (a_fs st) (int c) + int j \<and> int j < cg_ndblk (a_cgs st ! c))"

lemma free_data_block:
  assumes "volume_ok devsize st" "b \<in> free_set st"
  shows "data_block st b"
proof -
  have inv: "alloc_inv st" "b < fs_size (a_fs st)" using assms by (auto simp: volume_ok_def)
  obtain c j where b: "c < length (a_cgs st)" "b = cgbase (a_fs st) (int c) + int j" "j \<in> free_of (cg_blksfree (a_cgs st ! c))"
    using assms(2) by (auto simp: free_set_def)
  have "int j < cg_ndblk (a_cgs st ! c)" using inv_group[OF inv(1) b(1)] cg_okD(8) b(3) by metis
  moreover have "b \<noteq> 0" using assms(2) inv(1) by (auto simp: alloc_inv_def)
  moreover have "0 \<le> b" using b(2) inv_cgbase[OF inv(1), of c] by simp
  ultimately show ?thesis using inv(2) b(1,2) by (auto simp: data_block_def)
qed

lemma geom_fields:
  assumes "geom_eq fs' fs"
  shows "fs_size fs' = fs_size fs" "fs_ipg fs' = fs_ipg fs" "fs_bshift fs' = fs_bshift fs" "fs_fsbtodb fs' = fs_fsbtodb fs"
    "fs_magic fs' = fs_magic fs" "fs_flags fs' = fs_flags fs" "fs_maxfilesize fs' = fs_maxfilesize fs"
  by (subst geom_form[OF assms], simp)+

lemma frame_data_block:
  assumes "block_frame st st'" "data_block st b"
  shows "data_block st' b"
proof -
  have f: "geom_eq (a_fs st') (a_fs st)" "length (a_cgs st') = length (a_cgs st)"
    "\<And>c. c < length (a_cgs st) \<Longrightarrow> cg_ndblk (a_cgs st' ! c) = cg_ndblk (a_cgs st ! c)"
    using assms(1) by (auto simp: block_frame_def)
  show ?thesis using assms(2) f(3) unfolding data_block_def f(2) geom_fields(1)[OF f(1)] geom_eqD(6)[OF f(1)] by metis
qed

lemma sint_block: "0 \<le> b \<Longrightarrow> b < 2 ^ 63 \<Longrightarrow> sint (word_of_int b :: 64 word) = b"
  by (simp add: sint_sbintrunc' signed_take_bit_int_eq_self)

text \<open>What a write of contents with the key \<open>key\<close> leaves: \<open>t\<close> and \<open>free\<close> are the table and the free blocks before it.\<close>

definition stored :: "('k \<Rightarrow> image) \<Rightarrow> ddfs_dedup list \<Rightarrow> byte list \<Rightarrow> int set \<Rightarrow> nat \<Rightarrow> 'k file_st \<Rightarrow> bool" where
  "stored img t key free i s \<longleftrightarrow>
     (let t' = ddtab (a_fs (f_st s)) (img (f_ks s)); b' = di_db (i_din (f_ip s)) ! i in
      alloc_inv (f_st s) \<and> table_sound t' (f_st s) \<and>
      (case dd_map t key of
         Some (b, n) \<Rightarrow> b' = sint b \<and> free_set (f_st s) = free \<and> dd_map t' = (dd_map t)(key \<mapsto> (b, Suc n))
       | None \<Rightarrow> b' \<in> free \<and> free_set (f_st s) = free - {b'} \<and> dd_map t' = (dd_map t)(key \<mapsto> (word_of_int b', 1))))"

lemma stored_cong: "f_ks s' = f_ks s \<Longrightarrow> f_st s' = f_st s \<Longrightarrow> i_din (f_ip s') = i_din (f_ip s) \<Longrightarrow>
    stored img t key free i s' = stored img t key free i s"
  unfolding stored_def by (simp only:)

section \<open>The lookup of a written block\<close>

definition block_key :: "'k file_env \<Rightarrow> nat \<Rightarrow> vbuf \<Rightarrow> byte list" where
  "block_key F off bp = fe_sha1 F (take 4096 (drop off (vb_data bp @ fe_tail F bp)))"

lemma block_key: "snd (hash_block (fe_sha1 F) (drop off (vb_data bp @ fe_tail F bp)) (nat DDFS_BLOCKSIZE)) = block_key F off bp"
  by (simp add: hash_block_def block_key_def DDFS_BLOCKSIZE_def)

lemma set_di_db: "i < 12 \<Longrightarrow> ip\<lparr>i_din := set_di_word i w (i_din ip)\<rparr> = set_db i (sint w) ip"
  by (simp add: set_di_word_def set_db_def)

context dedup_device
begin

text \<open>Unknown contents are recorded in the block they were written to.\<close>

lemma dedup_new:
  assumes "table_ok (a_fs st) devsize" "t = ddtab (a_fs st) (img ks)" "dd_inv t" "i < 12" "f_ip s = ip" "f_ks s = ks" "f_st s = st"
    "b = word_of_int (di_db (i_din ip) ! i)" "key = block_key F off bp" "length key = 20" "dd_map t key = None"
    "b \<notin> fst ` ran (dd_map t)" "dd_room t" "fe_junk F AND DDFS_DEDUP_FREE = 0"
  shows "\<exists>ks'. dedup_block K E F i off bp s = Inr (s\<lparr>f_ks := ks'\<rparr>) \<and> dd_inv (ddtab (a_fs st) (img ks')) \<and>
    dd_map (ddtab (a_fs st) (img ks')) = (dd_map t)(key \<mapsto> (b, 1))"
proof -
  obtain t' where t': "dd_acquire (fe_junk F) key b t = Some (b, t')" "dd_inv t'" "dd_map t' = (dd_map t)(key \<mapsto> (b, 1))"
    using list_acquire_new[OF assms(3,11-14)] by blast
  obtain ks' where "ddtable_alloc K (a_fs st) (fe_junk F) key b ks = Inr ((0, b), ks')" "ddtab (a_fs st) (img ks') = t'"
    using table.alloc_refines[OF assms(1,10) t'(1)[unfolded assms(2)]] by blast
  then show ?thesis using t'(2,3) assms(4-8)
    unfolding dedup_block_def Let_def block_key assms(9)[symmetric]
    by (intro exI[of _ ks'] conjI) (simp_all add: di_word_def)
qed

text \<open>Known contents: the file shares the recorded block and the one it had is freed.\<close>

lemma dedup_hit:
  assumes "volume_ok devsize st" "t = ddtab (a_fs st) (img ks)" "dd_inv t" "i < 12" "f_ip s = ip" "f_ks s = ks" "f_st s = st"
    "di_db (i_din ip) ! i = old" "data_block st old" "old \<notin> free_set st" "word_of_int old \<notin> fst ` ran (dd_map t)"
    "key = block_key F off bp" "length key = 20" "dd_map t key = Some (b, n)" "n < 65535"
  shows "\<exists>ks' st'. dedup_block K E F i off bp s = Inr (s\<lparr>f_ip := UFS_INODE_SET_FLAG (IN_MODIFIED OR IN_NEEDSYNC) (set_db i (sint b) ip),
      f_ks := ks', f_st := st'\<rparr>) \<and> gives st old 1 st' \<and> dd_inv (ddtab (a_fs st) (img ks')) \<and>
    dd_map (ddtab (a_fs st) (img ks')) = (dd_map t)(key \<mapsto> (b, Suc n))"
proof -
  let ?fs = "a_fs st" and ?old = "word_of_int old :: 64 word"
  have v: "alloc_inv st" "table_ok ?fs devsize" "fs_bsize ?fs = 4096" "fs_frag ?fs = 1" "fs_size ?fs < 2 ^ 63"
    using assms(1) by (simp_all add: volume_ok_def)
  have g: "geometry_ok ?fs" using v(1) by (auto simp: alloc_inv_def dest: fs_okD)
  have fsz: "fs_fsize ?fs = 4096" using geometryD(9)[OF g] v(3,4) by simp
  obtain t' where t': "dd_acquire (fe_junk F) key ?old t = Some (b, t')" "dd_inv t'" "dd_map t' = (dd_map t)(key \<mapsto> (b, Suc n))"
    using list_acquire_hit[OF assms(3,14,15)] by blast
  obtain ks1 where a: "ddtable_alloc K ?fs (fe_junk F) key ?old ks = Inr ((0, b), ks1)" "ddtab ?fs (img ks1) = t'"
    using table.alloc_refines[OF v(2) assms(13) t'(1)[unfolded assms(2)]] by blast
  have "b \<in> fst ` ran (dd_map t)" using assms(14) by (force simp: ran_def)
  then have ne: "b \<noteq> ?old" using assms(11) by blast
  have old: "0 < old" "old < fs_size ?fs" using assms(9) by (simp_all add: data_block_def)
  obtain c j where cj: "c < length (a_cgs st)" "old = cgbase ?fs (int c) + int j" "int j < cg_ndblk (a_cgs st ! c)"
    using assms(9) by (auto simp: data_block_def)
  have "{old..<old + int 1} \<inter> free_set st = {}" using assms(10) by auto
  then obtain st' where f: "ffs_blkfree_cg E False old 4096 st = Inr st'" "gives st old 1 st'"
    using blkfree_spec[OF v(1) cj(1) refl, of old j 0 1 4096] cj(2,3) v(4) old fsz by (auto split: if_splits)
  have "?old \<notin> fst ` ran (dd_map t')" using assms(11,14) unfolding t'(3) by (auto simp: ran_def split: if_splits) force
  then obtain ks2 where u: "ffs_blkfree K E old 4096 (ks1, st) = Inr (ks2, st')" "ddtab ?fs (img ks2) = t'"
    using ffs_blkfree_spec(3)[of st ks1 old ?old 4096] v(2) a(2) t'(2) f(1) by auto
  have "sint ?old = old" using sint_block old v(5) by simp
  then show ?thesis using a u f(2) t'(2,3) ne assms(4-8) set_di_db[OF assms(4)]
    unfolding dedup_block_def Let_def block_key assms(12)[symmetric]
    by (intro exI[of _ ks2] exI[of _ st'] conjI) (simp_all add: di_word_def DDFS_BLOCKSIZE_def)
qed

text \<open>The lookup changes nothing on the device but the table.\<close>

lemma blkfree_frame:
  assumes "table_ok (a_fs st) devsize" "ffs_blkfree K E bno sz (ks, st) = Inr (ks', st')"
  shows "table_frame (a_fs st) (img ks) (img ks')"
  using assms(2) table.unref_frame[OF assms(1)] by (auto simp: ffs_blkfree_def split: sum.splits if_splits prod.splits)

lemma dedup_frame:
  assumes "table_ok (a_fs (f_st s)) devsize" "\<And>xs. length (fe_sha1 F xs) = 20" "dedup_block K E F i off bp s = Inr s'"
  shows "table_frame (a_fs (f_st s)) (img (f_ks s)) (img (f_ks s'))"
proof -
  define key where "key = block_key F off bp"
  have k: "length key = 20" by (simp add: key_def block_key_def assms(2))
  note d = assms(3)[unfolded dedup_block_def Let_def block_key key_def[symmetric]]
  obtain old where old: "di_word (i_din (f_ip s)) i = Inr old" using d by (cases "di_word (i_din (f_ip s)) i") auto
  obtain r new ks1 where a: "ddtable_alloc K (a_fs (f_st s)) (fe_junk F) key old (f_ks s) = Inr ((r, new), ks1)"
    using d old by (cases "ddtable_alloc K (a_fs (f_st s)) (fe_junk F) key old (f_ks s)") auto
  note f1 = table.alloc_frame[OF assms(1) k a]
  show ?thesis
  proof (cases "new = old")
    case True
    then show ?thesis using d old a f1 by auto
  next
    case False
    then obtain ks2 st2 where b: "ffs_blkfree K E (sint old) DDFS_BLOCKSIZE (ks1, f_st s) = Inr (ks2, st2)" "f_ks s' = ks2"
      using d old a by (auto split: sum.splits)
    then show ?thesis using table_frame_trans[OF f1 blkfree_frame[OF assms(1) b(1)]] by simp
  qed
qed

end

section \<open>Writing a new block\<close>

lemma room_one:
  assumes "alloc_inv st" "fs_frag (a_fs st) = 1" "free_set st \<noteq> {}"
  shows "\<exists>c < nat (fs_ncg (a_fs st)). block_room 1 st c"
proof -
  obtain c j where j: "c < length (a_cgs st)" "j \<in> free_of (cg_blksfree (a_cgs st ! c))" using assms(3) by (auto simp: free_set_def)
  have "fits 1 (cg_blksfree (a_cgs st ! c)) 1" using j(2) unfolding fits_def free_of_def nblocks_def
    by (auto intro!: exI[of _ j])
  then show ?thesis using j(1) assms(1,2) by (auto simp: block_room_def alloc_inv_def)
qed

lemma volume_geometry:
  assumes "volume_ok devsize st"
  shows "geometry_ok (a_fs st)" "fs_ok (a_fs st)" "fs_fsize (a_fs st) = 4096" "fs_bshift (a_fs st) = 12"
    "lblkno (a_fs st) x = x div 4096" "blkoff (a_fs st) x = x mod 4096" "fragroundup (a_fs st) 4096 = 4096"
    "smalllblktosize (a_fs st) x = x * 4096"
proof -
  let ?fs = "a_fs st"
  have v: "fs_bsize ?fs = 4096" "fs_frag ?fs = 1" using assms by (simp_all add: volume_ok_def)
  show ok: "fs_ok ?fs" using assms by (simp add: volume_ok_def alloc_inv_def)
  show g: "geometry_ok ?fs" by (rule fs_okD(1)[OF ok])
  show f: "fs_fsize ?fs = 4096" using geometryD(9)[OF g] v by simp
  have "(2 :: int) ^ fs_bshift ?fs = 2 ^ 12" using geometryD(1)[OF g] v by simp
  then show b: "fs_bshift ?fs = 12" by (simp only: power_inject_exp)
  show "lblkno ?fs x = x div 4096" "blkoff ?fs x = x mod 4096" using macros_div(1,3)[OF g] v by simp_all
  show "fragroundup ?fs 4096 = 4096" using roundups(2)[OF g] f by (simp add: roundup_def)
  show "smalllblktosize ?fs x = x * 4096" using b by (simp add: smalllblktosize_def push_bit_eq_mult)
qed

lemma geom_volume:
  assumes "volume_ok devsize st" "alloc_inv st'" "geom_eq (a_fs st') (a_fs (rotor x st))" "free_set st' \<subseteq> free_set st"
  shows "volume_ok devsize st'"
proof -
  note g = geom_eqD[OF assms(3)] geom_fields[OF assms(3)] geom_table[OF assms(3)]
  show ?thesis using assms(1,2,4) unfolding volume_ok_def g by (auto simp: g rotor_def rotor_table)
qed

text \<open>\<open>UFS_BALLOC\<close> for the block after the end of the file: a free block is taken and becomes the file's.\<close>

definition new_block_env :: "'k file_env \<Rightarrow> bool" where
  "new_block_env F \<longleftrightarrow> (\<forall>lbn sz. \<exists>bp. fe_getblk F lbn sz = Some bp \<and> length (vb_data bp) = nat sz) \<and> (\<forall>bp. fe_mapped F bp \<and> fe_resid F bp = 0) \<and>
     \<not> fe_rlimit F \<and> fe_junk F AND DDFS_DEDUP_FREE = 0 \<and> (\<forall>xs. length (fe_sha1 F xs) = 20)"

context dedup_device
begin

lemma alloc_new:
  assumes "volume_ok devsize st" "file_ok (a_fs st) ip" "0 \<le> p" "\<not> cr_nocred cred" "\<not> cr_noreserve cred" "free_set st \<noteq> {}"
  shows "\<exists>b st'. ffs_alloc E fsfail cred ip p 4096 flags (rotor x st) = Inr (0, b, charge 4096 flags ip, st') \<and>
    takes (rotor x st) b 1 st' \<and> b \<in> free_set st \<and> free_set st' = free_set st - {b} \<and> volume_ok devsize st'"
proof -
  let ?fs = "a_fs st" and ?st = "rotor x st"
  have v: "alloc_inv st" "fs_frag ?fs = 1" using assms(1) by (simp_all add: volume_ok_def)
  have place: "place_ok (a_fs ?st) (i_number ip) p"
    using assms(1-3) by (simp add: place_ok_def volume_ok_def file_ok_def rotor_def)
  have sz: "1 = nat (fs_frag (a_fs ?st))" "4096 = int 1 * fs_fsize (a_fs ?st)"
    using v(2) volume_geometry(3)[OF assms(1)] by (simp_all add: rotor_def)
  have "\<exists>c < nat (fs_ncg (a_fs ?st)). block_room 1 ?st c" 
    using room_one[OF v assms(6)] unfolding rotor_state by (simp add: rotor_def)
  moreover have "may_use (a_fs ?st) cred 4096" using assms(5) by (simp add: may_use_def)
  moreover have "alloc_inv ?st" using v(1) by simp
  ultimately obtain b st' where b: "ffs_alloc E fsfail cred ip p 4096 flags ?st = Inr (0, b, charge 4096 flags ip, st')" "takes ?st b 1 st'"
    using ffs_alloc_spec[OF _ sz order_refl order_refl place assms(4), of fsfail flags] by auto
  have s: "{b..<b + int 1} = {b}" by auto
  have "b \<in> free_set st" "free_set st' = free_set st - {b}" "alloc_inv st'" "geom_eq (a_fs st') (a_fs ?st)"
    using b(2) unfolding takes_def s by (auto simp: block_frame_def)
  then show ?thesis using b geom_volume[OF assms(1), of st' x] by blast
qed

lemma balloc_new:
  assumes "volume_ok devsize st" "file_ok (a_fs st) ip" "new_block_env F" "i < 12" "f_ip s = ip" "f_st s = st"
    "map_of (f_bufs s) (int i) = None" "di_db (i_din ip) ! i = 0" "i_size ip = int i * 4096" "\<not> ba_metaonly flags"
    "\<not> cr_nocred cred" "\<not> cr_noreserve cred" "free_set st \<noteq> {}"
  shows "\<exists>b bp st' ip' x. ffs_balloc_ufs2 K E F cred (int i * 4096) 4096 flags s = Inr (0, Some bp, s\<lparr>f_ip := ip', f_st := st'\<rparr>) \<and>
    vb_blkno bp = fsbtodb (a_fs st) b \<and> length (vb_data bp) = 4096 \<and> b \<in> free_set st \<and> free_set st' = free_set st - {b} \<and>
    i_din ip' = (i_din ip)\<lparr>di_db := (di_db (i_din ip))[i := b], di_blocks := di_blocks (i_din ip) + 8\<rparr> \<and>
    i_size ip' = i_size ip \<and> i_number ip' = i_number ip \<and> i_flags ip' = i_flags ip \<and> i_mode ip' = i_mode ip \<and>
    block_frame (rotor x st) st' \<and> volume_ok devsize st'"
proof -
  let ?fs = "a_fs st"
  have v: "alloc_inv st" "fs_bsize ?fs = 4096" "0 < fs_ipg ?fs" using assms(1) by (simp_all add: volume_ok_def)
  note g = volume_geometry[OF assms(1)]
  have f: "length (di_db (i_din ip)) = 12" "length (di_ib (i_din ip)) = 3" "0 \<le> i_number ip"
    "\<And>b. b \<in> set (di_db (i_din ip)) \<union> set (di_ib (i_din ip)) \<Longrightarrow> 0 \<le> b" using assms(2) by (auto simp: file_ok_def)
  have ba: "0 \<le> b" if "b \<in> set (di_db (i_din ip)) \<union> set (di_db (i_din ip)) \<union> set (di_ib (i_din ip))" for b using f(4) that by blast
  obtain x p where pref: "blkpref (fe_untrusted F) ?fs ip (int i) (int i) (di_db (i_din ip)) = (p, ?fs\<lparr>fs_cgrotor := x\<rparr>)" "0 \<le> p"
    using blkpref_ok[where bap = "di_db (i_din ip)" and indx = "int i" and lbn = "int i" and untrusted = "fe_untrusted F",
        OF g(2) v(3) f(3) ba _ _ f(2)] f(1) assms(4) by (metis nat_int of_nat_0_le_iff of_nat_le_iff less_imp_le_nat Un_iff)
  obtain b st' where b: "ffs_alloc E (fe_fsfail F) cred ip p 4096 flags (rotor x st) = Inr (0, b, charge 4096 flags ip, st')"
      "takes (rotor x st) b 1 st'" "b \<in> free_set st" "free_set st' = free_set st - {b}" "volume_ok devsize st'"
    using alloc_new[OF assms(1,2) pref(2) assms(11-13)] by blast
  have fr: "block_frame (rotor x st) st'" using b(2) by (simp add: takes_def)
  obtain bp where bp: "fe_getblk F (int i) 4096 = Some bp" "length (vb_data bp) = 4096"
    using assms(3) unfolding new_block_env_def by (metis nat_numeral)
  define bp' where "bp' = (if ba_clrbuf flags then clrbuf False bp else bp)\<lparr>vb_blkno := fsbtodb ?fs b\<rparr>"
  have l: "vb_blkno bp' = fsbtodb ?fs b" "length (vb_data bp') = 4096" using bp(2) by (simp_all add: bp'_def clrbuf_def)
  have geo: "geom_eq (a_fs st') (a_fs (rotor x st))" using fr by (simp add: block_frame_def)
  have db: "dbtofsb (a_fs st') (vb_blkno bp') = b"
    using geom_fields(4)[OF geo] by (simp add: dbtofsb_def fsbtodb_def l(1) rotor_def push_bit_eq_mult drop_bit_eq_div)
  have ext: "balloc_extend K E F cred (int i) flags s = Inr (0, s)"
    unfolding balloc_extend_def Let_def assms(5,6) g(5) by (simp add: assms(9))
  define ip' where "ip' = UFS_INODE_SET_FLAG (IN_CHANGE OR IN_UPDATE OR IN_IBLKDATA) (set_db i b (charge 4096 flags ip))"
  have "balloc_direct K E F cred (int i) 4096 flags s = Inr (placed i bp' (s\<lparr>f_ip := charge 4096 flags ip, f_st := st'\<rparr>))"
    using assms(7,8,10) bp(1) b(1) pref(1) unfolding balloc_direct_def Let_def assms(5,6) g(7,8)
    by (simp add: assms(9) rotor_def[symmetric] file_getblk_def ffs_blkpref_ufs2_def bp'_def)
  also have "\<dots> = Inr (0, Some bp', s\<lparr>f_ip := ip', f_st := st'\<rparr>)" by (simp add: placed_def db ip'_def)
  finally have "ffs_balloc_ufs2 K E F cred (int i * 4096) 4096 flags s = Inr (0, Some bp', s\<lparr>f_ip := ip', f_st := st'\<rparr>)"
    using ext assms(4) unfolding ffs_balloc_ufs2_def Let_def assms(6) g(5,6) by (simp add: v(2) UFS_NDADDR_def)
  moreover have "i_din ip' = (i_din ip)\<lparr>di_db := (di_db (i_din ip))[i := b], di_blocks := di_blocks (i_din ip) + 8\<rparr>"
    "i_size ip' = i_size ip" "i_number ip' = i_number ip" "i_flags ip' = i_flags ip" "i_mode ip' = i_mode ip"
    by (simp_all add: ip'_def UFS_INODE_SET_FLAG_def set_db_def charge_def DIP_blocks_def dd_btodb_def)
  ultimately show ?thesis using l b(3-5) fr by blast
qed

text \<open>The transfer of one block up to its lookup.\<close>

lemma write_block_eq:
  assumes "fs_bsize (a_fs (f_st s)) = 4096" "\<And>x. smalllblktosize (a_fs (f_st s)) x = x * 4096" "new_block_env F" "i_size (f_ip s) = int i * 4096"
    "length (vb_data bp) = 4096" "u = \<lparr>uio_offset = int i * 4096, uio_resid = 4096, uio_user = bs\<rparr>" "length bs = 4096"
    "ip = UFS_INODE_SET_FLAG (IN_SIZEMOD OR IN_CHANGE) (set_size (int i * 4096 + 4096) (f_ip s))"
  shows "\<exists>ks'. img ks' = img (f_ks s) \<and> write_block K E F (int i) 0 4096 bp u s =
    map_sum id (\<lambda>s'. (0, 4096, \<lparr>uio_offset = int i * 4096 + 4096, uio_resid = 0, uio_user = []\<rparr>,
        s'\<lparr>f_bufs := (int i, bp\<lparr>vb_data := bs\<rparr>) # f_bufs s'\<rparr>))
      (dedup_block K E F i 0 (bp\<lparr>vb_data := bs\<rparr>) (s\<lparr>f_ip := ip, f_ks := ks'\<rparr>))"
proof -
  have "uio_resid u \<le> length (uio_user u)" using assms(6,7) by simp
  from table.uiomove_in[OF this, of "f_ks s" 4096] obtain ks' where mv: "img ks' = img (f_ks s)" "k_uiomove_in K (f_ks s) 4096 u =
      (0, bs, \<lparr>uio_offset = int i * 4096 + 4096, uio_resid = 0, uio_user = []\<rparr>, ks')" using assms(6,7) by auto
  have blk: "dd_blksize (a_fs (f_st s)) ip (int i) = 4096"
    using assms(1) by (simp add: dd_blksize_def assms(2,8) UFS_INODE_SET_FLAG_def set_size_def)
  have ov: "overlay 0 bs (vb_data bp) = bs" using assms(5,7) by (simp add: overlay_def)
  have grow: "i_size (f_ip s) < uio_offset u + 4096" using assms(4,6) by simp
  have off: "uio_offset u = int i * 4096" "uio_resid u = 4096" using assms(6) by simp_all
  have mp: "\<not> \<not> fe_mapped F bp" and nr: "dd_blksize (a_fs (f_st s)) ip (int i) - int (fe_resid F bp) = 4096"
    using assms(3) blk by (simp_all add: new_block_env_def)
  have "write_block K E F (int i) 0 4096 bp u s =
      (case dedup_block K E F i 0 (bp\<lparr>vb_data := bs\<rparr>) (s\<lparr>f_ip := ip, f_ks := ks'\<rparr>) of Inl f \<Rightarrow> Inl f
       | Inr s' \<Rightarrow> Inr (0, 4096, \<lparr>uio_offset = int i * 4096 + 4096, uio_resid = 0, uio_user = []\<rparr>,
           s'\<lparr>f_bufs := (int i, bp\<lparr>vb_data := bs\<rparr>) # f_bufs s'\<rparr>))"
    unfolding write_block_def Let_def if_P[OF grow] if_not_P[OF mp]
    unfolding off assms(8)[symmetric] nr
    using assms(5) mv(2) by (simp add: ov split: sum.split)
  then show ?thesis using mv(1) by (intro exI[of _ ks'] conjI) (auto split: sum.split)
qed

lemma dedup_fresh:
  assumes vol: "volume_ok devsize st" and t: "t = ddtab (a_fs st) (img ks)" "dd_inv t" "\<And>w. w \<in> fst ` ran (dd_map t) \<Longrightarrow> sint w \<notin> free"
    and b: "b \<in> free" "free_set st = free - {b}" "data_block st b" and i: "i < 12" and s: "f_ip s = ip" "f_ks s = ks" "f_st s = st"
    and ip: "di_db (i_din ip) ! i = b" "length (di_db (i_din ip)) = 12" and k: "key = block_key F 0 bp" and env: "new_block_env F"
    and room: "\<And>b n. dd_map t key = Some (b, n) \<Longrightarrow> n < 65535" "dd_map t key = None \<Longrightarrow> dd_room t"
  shows "\<exists>s'. dedup_block K E F i 0 bp s = Inr s' \<and> i_size (f_ip s') = i_size ip \<and> stored img t key free i s' \<and>
    geom_eq (a_fs (f_st s')) (a_fs st) \<and> (dd_map t key = None \<longrightarrow> di_db (i_din (f_ip s')) ! i = b)"
proof -
  have k20: "length key = 20" using env by (simp add: k new_block_env_def block_key_def)
  have bpos: "0 < b" "b < 2 ^ 63" using vol b(3) by (simp_all add: data_block_def volume_ok_def)
  have inv: "alloc_inv st" using vol by (simp add: volume_ok_def)
  have nin: "word_of_int b \<notin> fst ` ran (dd_map t)" using t(3) b(1) sint_block[of b] bpos by fastforce
  show ?thesis
  proof (cases "dd_map t key")
    case None
    have "table_ok (a_fs st) devsize" using vol by (simp add: volume_ok_def)
    from dedup_new[OF this t(1,2) i s, of "word_of_int b" key F 0 bp] obtain ks' where
      dd: "dedup_block K E F i 0 bp s = Inr (s\<lparr>f_ks := ks'\<rparr>)" "dd_inv (ddtab (a_fs st) (img ks'))"
      and m: "dd_map (ddtab (a_fs st) (img ks')) = (dd_map t)(key \<mapsto> (word_of_int b, 1))"
      using ip(1) k k20 None nin room(2) env by (auto simp: new_block_env_def)
    have "sint w \<notin> free_set st" if "w \<in> fst ` ran (dd_map (ddtab (a_fs st) (img ks')))" for w
    proof -
      have "w = word_of_int b \<or> w \<in> fst ` ran (dd_map t)" using that unfolding m by (force simp: ran_def split: if_splits)
      then show ?thesis using t(3) b(2) sint_block[of b] bpos by auto
    qed
    then show ?thesis using None b inv s ip dd m by (intro exI[of _ "s\<lparr>f_ks := ks'\<rparr>"]) (simp add: stored_def table_sound_def geom_eq_def)
  next
    case (Some cn)
    obtain w n where wn: "cn = (w, n)" by fastforce
    have nf: "b \<notin> free_set st" using b(2) by simp
    from dedup_hit[OF vol t(1,2) i s ip(1) b(3) nf nin k k20] obtain ks' st' where
      dd: "dedup_block K E F i 0 bp s = Inr (s\<lparr>f_ip := UFS_INODE_SET_FLAG (IN_MODIFIED OR IN_NEEDSYNC) (set_db i (sint w) ip),
         f_ks := ks', f_st := st'\<rparr>)" and g: "gives st b 1 st'" and di: "dd_inv (ddtab (a_fs st) (img ks'))"
      and m: "dd_map (ddtab (a_fs st) (img ks')) = (dd_map t)(key \<mapsto> (w, Suc n))"
      using Some wn room(1) by blast
    have one: "{b..<b + int 1} = {b}" by auto
    have fs': "free_set st' = free" using g b unfolding gives_def one by auto
    have tab': "ddtab (a_fs st') = ddtab (a_fs st)" using g geom_table unfolding gives_def block_frame_def by blast
    have "w' \<in> fst ` ran (dd_map t)" if "w' \<in> fst ` ran (dd_map (ddtab (a_fs st) (img ks')))" for w'
      using that Some wn unfolding m by (force simp: ran_def split: if_splits)
    then have "table_sound (ddtab (a_fs st') (img ks')) st'" using di t(3) unfolding table_sound_def tab' fs' by blast
    then show ?thesis using dd g m fs' tab' Some wn i ip(2) unfolding gives_def
      by (auto simp: UFS_INODE_SET_FLAG_def set_db_def stored_def Let_def block_frame_def)
  qed
qed

text \<open>The write of a block after the end of the file.\<close>

lemma write_new_block:
  assumes vol: "volume_ok devsize st" and inode: "file_ok (a_fs st) ip" and env: "new_block_env F" and i: "i < 12"
    and s: "f_ip s = ip" "f_st s = st" "map_of (f_bufs s) (int i) = None"
    and ip: "di_db (i_din ip) ! i = 0" "i_size ip = int i * 4096" and cred: "\<not> cr_nocred cred" "\<not> cr_noreserve cred"
    and free: "free_set st \<noteq> {}" and t: "t = ddtab (a_fs st) (img (f_ks s))" "table_sound t st"
    and u: "u = \<lparr>uio_offset = int i * 4096, uio_resid = 4096, uio_user = bs\<rparr>" "length bs = 4096"
    and max: "int i * 4096 + 4096 \<le> fs_maxfilesize (a_fs st)" and flags: "\<not> w_ext flags" "\<not> w_sync flags"
    and key: "key = fe_sha1 F bs" and room: "case dd_map t key of Some (b, n) \<Rightarrow> n < 65535 | None \<Rightarrow> dd_room t"
  shows "\<exists>s'. ffs_write K E F cred noretain VREG flags u s = Some (Inr (0, \<lparr>uio_offset = int i * 4096 + 4096, uio_resid = 0, uio_user = []\<rparr>, s')) \<and>
    i_size (f_ip s') = int i * 4096 + 4096 \<and> stored img t key (free_set st) i s' \<and> volume_ok devsize (f_st s') \<and>
    fs_maxfilesize (a_fs (f_st s')) = fs_maxfilesize (a_fs st) \<and> (\<exists>x. geom_eq (a_fs (f_st s')) (a_fs (rotor x st))) \<and> table_frame (a_fs st) (img (f_ks s)) (img (f_ks s')) \<and>
    (\<exists>b bp. map_of (f_bufs s') (int i) = Some bp \<and> vb_data bp = bs \<and> vb_blkno bp = fsbtodb (a_fs st) b \<and> b \<in> free_set st \<and>
      (dd_map t key = None \<longrightarrow> di_db (i_din (f_ip s')) ! i = b))"
proof -
  let ?fs = "a_fs st" and ?u = "\<lparr>uio_offset = int i * 4096 + 4096, uio_resid = 0, uio_user = []\<rparr>"
  have r: "dd_map t key = Some (b, n) \<Longrightarrow> n < 65535" "dd_map t key = None \<Longrightarrow> dd_room t" for b n using room by auto
  define bf where "bf = \<lparr>io_ext = False, io_buflocked = False, io_sync = w_sync flags, ba_clrbuf = False, ba_metaonly = False\<rparr>"
  have "\<not> ba_metaonly bf" by (simp add: bf_def)
  from balloc_new[OF vol inode env i s ip this cred free] obtain b bp st1 ip1 x where
    ba: "ffs_balloc_ufs2 K E F cred (int i * 4096) 4096 bf s = Inr (0, Some bp, s\<lparr>f_ip := ip1, f_st := st1\<rparr>)"
    and bp: "length (vb_data bp) = 4096" and blk: "vb_blkno bp = fsbtodb ?fs b" and b: "b \<in> free_set st" "free_set st1 = free_set st - {b}"
    and ip1: "i_din ip1 = (i_din ip)\<lparr>di_db := (di_db (i_din ip))[i := b], di_blocks := di_blocks (i_din ip) + 8\<rparr>"
      "i_size ip1 = i_size ip" and fr: "block_frame (rotor x st) st1" and vol1: "volume_ok devsize st1"
    by blast
  have geo: "geom_eq (a_fs st1) (a_fs (rotor x st))" using fr by (simp add: block_frame_def)
  have tab1: "ddtab (a_fs st1) = ddtab ?fs" using geom_table[OF geo] by (simp add: rotor_def rotor_table)
  define s1 where "s1 = s\<lparr>f_ip := ip1, f_st := st1\<rparr>"
  define ip2 where "ip2 = UFS_INODE_SET_FLAG (IN_SIZEMOD OR IN_CHANGE) (set_size (int i * 4096 + 4096) (f_ip s1))"
  have v1: "fs_bsize (a_fs (f_st s1)) = 4096" "fs_bsize ?fs = 4096" using vol vol1 by (simp_all add: s1_def volume_ok_def)
  have sm: "smalllblktosize (a_fs (f_st s1)) x = x * 4096" for x using volume_geometry(8)[OF vol1] by (simp add: s1_def)
  have sz1: "i_size (f_ip s1) = int i * 4096" using ip(2) ip1(2) by (simp add: s1_def)
  from write_block_eq[OF v1(1) sm env sz1 bp u ip2_def] obtain ks1 where ks1: "img ks1 = img (f_ks s)"
    and wb: "write_block K E F (int i) 0 4096 bp u s1 = map_sum id (\<lambda>s'. (0, 4096, ?u, s'\<lparr>f_bufs := (int i, bp\<lparr>vb_data := bs\<rparr>) # f_bufs s'\<rparr>))
      (dedup_block K E F i 0 (bp\<lparr>vb_data := bs\<rparr>) (s1\<lparr>f_ip := ip2, f_ks := ks1\<rparr>))"
    by (auto simp: s1_def)
  have t1: "t = ddtab (a_fs st1) (img ks1)" using t(1) tab1 ks1 by simp
  have k: "key = block_key F 0 (bp\<lparr>vb_data := bs\<rparr>)" using u(2) key by (simp add: block_key_def)
  have ip2: "di_db (i_din ip2) ! i = b" "length (di_db (i_din ip2)) = 12" "i_size ip2 = int i * 4096 + 4096"
    using inode i ip1(1) by (simp_all add: ip2_def UFS_INODE_SET_FLAG_def set_size_def s1_def file_ok_def)
  have d1: "data_block st1 b" using free_data_block[OF vol b(1)] frame_data_block[OF fr, of b] by (simp add: data_block_def rotor_def rotor_fs)
  have inv: "dd_inv t" "\<And>w. w \<in> fst ` ran (dd_map t) \<Longrightarrow> sint w \<notin> free_set st" using t(2) by (auto simp: table_sound_def)
  have s2: "f_ip (s1\<lparr>f_ip := ip2, f_ks := ks1\<rparr>) = ip2" "f_ks (s1\<lparr>f_ip := ip2, f_ks := ks1\<rparr>) = ks1" "f_st (s1\<lparr>f_ip := ip2, f_ks := ks1\<rparr>) = st1"
    by (simp_all add: s1_def)
  obtain s3 where
    s3: "dedup_block K E F i 0 (bp\<lparr>vb_data := bs\<rparr>) (s1\<lparr>f_ip := ip2, f_ks := ks1\<rparr>) = Inr s3" "i_size (f_ip s3) = int i * 4096 + 4096"
      "stored img t key (free_set st) i s3" "geom_eq (a_fs (f_st s3)) (a_fs st1)" "dd_map t key = None \<longrightarrow> di_db (i_din (f_ip s3)) ! i = b"
    using dedup_fresh[OF vol1 t1 inv b d1 i s2 ip2(1,2) k env] r unfolding ip2(3) by metis
  define s4 where "s4 = s3\<lparr>f_bufs := (int i, bp\<lparr>vb_data := bs\<rparr>) # f_bufs s3, f_ip := UFS_INODE_SET_FLAG (IN_CHANGE OR IN_UPDATE) (f_ip s3)\<rparr>"
  have "write_block K E F (int i) 0 4096 bp u s1 = Inr (0, 4096, ?u, s3\<lparr>f_bufs := (int i, bp\<lparr>vb_data := bs\<rparr>) # f_bufs s3\<rparr>)"
    unfolding wb s3(1) by simp
  then have "ffs_write_loop K E F cred (w_sync flags) u s = ffs_write_loop K E F cred (w_sync flags) ?u s4"
    using ba v1(2) unfolding ffs_write_loop.simps[of K E F cred "w_sync flags" u s] s1_def
    by (simp add: Let_def s u(1) volume_geometry(5,6)[OF vol] bf_def[symmetric] s4_def)
  then have loop: "ffs_write_loop K E F cred (w_sync flags) u s = Some (Inr (0, ?u, s4))"
    by (simp add: ffs_write_loop.simps[of K E F cred "w_sync flags" ?u])
  define s5 where "s5 = snd (snd (write_out F noretain flags (i_size ip) 4096 (0, ?u, s4)))"
  have out: "write_out F noretain flags (i_size ip) 4096 (0, ?u, s4) = (0, ?u, s5)"
    using flags(2) by (simp add: s5_def write_out_def Let_def)
  have u': "u\<lparr>uio_offset := i_size ip\<rparr> = u" using u(1) ip(2) by simp
  have "ffs_write K E F cred noretain VREG flags u s = Some (Inr (0, ?u, s5))"
    using flags(1) max env out unfolding ffs_write_def Let_def s(1,2) u' if_cancel loop
    by (simp add: u(1) ip(2) new_block_env_def)
  moreover have "i_size (f_ip s5) = int i * 4096 + 4096" "stored img t key (free_set st) i s5"
    using s3(2) flags(2) stored_cong[of s5 s3 img t key "free_set st" i] s3(3)
    by (simp_all add: s5_def write_out_def Let_def s4_def UFS_INODE_SET_FLAG_def)
  moreover have geo5: "geom_eq (a_fs (f_st s5)) (a_fs (rotor x st))"
    using s3(4) geo flags(2) geom_trans[of "a_fs (f_st s3)" "a_fs st1"] by (simp add: s5_def write_out_def Let_def s4_def)
  moreover have "volume_ok devsize (f_st s5)"
    using geom_volume[OF vol _ geo5] calculation(3) by (auto simp: stored_def Let_def split: option.splits)
  moreover have "fs_maxfilesize (a_fs (f_st s5)) = fs_maxfilesize ?fs" by (subst geom_form[OF geo5]) (simp add: rotor_def)
  moreover have "map_of (f_bufs s5) (int i) = Some (bp\<lparr>vb_data := bs\<rparr>)" "i_din (f_ip s5) = i_din (f_ip s3)" "f_ks s5 = f_ks s3"
    using flags(2) by (simp_all add: s5_def write_out_def Let_def s4_def UFS_INODE_SET_FLAG_def)
  moreover have "table_frame ?fs (img (f_ks s)) (img (f_ks s3))"
  proof -
    have f: "table_frame (a_fs st1) = table_frame ?fs"
      using geom_table_place[OF geo] by (simp add: table_frame_def fun_eq_iff rotor_def ddbase_def ddcount_def num_blocks_def entries_per_block_def)
    have "table_ok (a_fs st1) devsize" using vol1 by (simp add: volume_ok_def)
    then show ?thesis using dedup_frame[OF _ _ s3(1)] env ks1 by (simp add: s1_def f new_block_env_def)
  qed
  ultimately show ?thesis using s3(5) blk b(1) by (intro exI[of _ s5]) auto
qed

end

end
