(* ===== verification/Ddfs_Run.thy ===== *)
theory Ddfs_Run
  imports Ddfs_Store
begin

text \<open>
  Sequences of operations of the allocator. The invariant of the cylinder groups, of the summaries and of
  the superblock's totals is kept by every operation, so that after any sequence of them the totals that
  \<open>statfs\<close> reports are the numbers of free fragments and of free inodes in the maps.
\<close>

section \<open>The totals count the maps\<close>

lemma card_flags: "int (card {j. j < (n :: nat) \<and> P j}) = (\<Sum>j<n. of_bool (P j))"
proof -
  have "{j. j < n \<and> P j} = {..<n} \<inter> {j. P j}" by auto
  then show ?thesis by (simp add: of_bool_def sum.If_cases)
qed

lemma full_filter: "full bs \<Longrightarrow> filter id bs = bs"
  by (simp add: full_def)

lemma block_count: "(\<Sum>i<f. of_bool (isset m (h * f + i))) = nb (blk_bits f m h) * int f + nf (blk_bits f m h)"
proof -
  have e: "{i. i < length (blk_bits f m h) \<and> id (blk_bits f m h ! i)} = {i. i < f \<and> isset m (h * f + i)}" by auto
  have "(\<Sum>i<f. of_bool (isset m (h * f + i))) = int (length (filter id (blk_bits f m h)))"
    unfolding length_filter_conv_card e card_flags ..
  then show ?thesis using full_filter[of "blk_bits f m h"] by (simp add: nb_def nf_def)
qed

lemma free_of_card:
  assumes "counts_ok f m cs frsum" "f \<in> {1, 2, 4, 8}"
  shows "int (card (free_of m)) = cs_nbfree cs * int f + cs_nffree cs"
proof -
  have n: "8 * length m = nblocks f m * f" using assms(2) by (auto simp: nblocks_def)
  have "int (card (free_of m)) = (\<Sum>j<nblocks f m * f. of_bool (isset m j))"
    unfolding free_of_def card_flags n ..
  also have "\<dots> = (\<Sum>h<nblocks f m. \<Sum>j\<in>{h * f..<h * f + f}. of_bool (isset m j))" by (rule sum.nat_group[symmetric])
  also have "\<dots> = (\<Sum>h<nblocks f m. \<Sum>i<f. of_bool (isset m (h * f + i)))"
  proof (rule sum.cong[OF refl])
    fix h
    show "(\<Sum>j\<in>{h * f..<h * f + f}. of_bool (isset m j)) = (\<Sum>i<f. of_bool (isset m (h * f + i)))"
      using sum.atLeastLessThan_shift_0[of "\<lambda>j. of_bool (isset m j)" "h * f" "h * f + f"] by (simp add: lessThan_atLeast0)
  qed
  also have "\<dots> = cs_nbfree cs * int f + cs_nffree cs"
    using assms(1) by (simp add: block_count sum.distrib sum_distrib_right counts_ok_def)
  finally show ?thesis .
qed

lemma card_groups:
  fixes n :: nat and g :: "nat \<Rightarrow> nat \<Rightarrow> int"
  assumes "\<And>c d i j. i \<in> S c \<Longrightarrow> j \<in> S d \<Longrightarrow> g c i = g d j \<Longrightarrow> c = d \<and> i = j" "\<And>c. finite (S c)"
  shows "card {g c j | c j. c < n \<and> j \<in> S c} = (\<Sum>c<n. card (S c))"
proof -
  have "{g c j | c j. c < n \<and> j \<in> S c} = (\<Union>c<n. g c ` S c)" by auto
  moreover have "card (g c ` S c) = card (S c)" for c using assms(1) by (intro card_image inj_onI) blast
  moreover have disj: "g c ` S c \<inter> g d ` S d = {}" if "c \<noteq> d" for c d using assms(1) that by blast
  moreover have "card (\<Union>c<n. g c ` S c) = (\<Sum>c<n. card (g c ` S c))"
    using assms(2) disj by (intro card_UN_disjoint) auto
  ultimately show ?thesis by simp
qed

lemma sum_nth: "(\<Sum>x \<leftarrow> xs. g x) = (\<Sum>c<length xs. g (xs ! c))"
  by (simp add: sum_list_sum_nth atLeast0LessThan)

text \<open>The free space of the totals is the number of free fragments.\<close>

lemma free_set_card:
  assumes "alloc_inv st"
  shows "int (card (free_set st)) = freespace (a_fs st) 0"
proof -
  let ?S = "\<lambda>c. if c < length (a_cgs st) then free_of (cg_blksfree (a_cgs st ! c)) else {}"
  have fs: "fs_ok (a_fs st)" using assms by (simp add: alloc_inv_def)
  define f where "f = nat (fs_frag (a_fs st))"
  have f: "f \<in> {1, 2, 4, 8}" "fs_frag (a_fs st) = int f" using frag_nat[OF fs_okD(1)[OF fs] f_def] by auto
  have grp: "int (card (?S c)) = cs_nbfree (cg_cs (a_cgs st ! c)) * int f + cs_nffree (cg_cs (a_cgs st ! c))" if "c < length (a_cgs st)" for c
  proof -
    have "cg_ok (a_fs st) (a_cgs st ! c)" using inv_group[OF assms that] by blast
    from free_of_card[OF cg_okD(3)[OF this, folded f_def] f(1)] show ?thesis using that by simp
  qed
  have "free_set st = {cgbase (a_fs st) (int c) + int j | c j. c < length (a_cgs st) \<and> j \<in> ?S c}" unfolding free_set_def by auto
  also have "card \<dots> = (\<Sum>c<length (a_cgs st). card (?S c))"
  proof (rule card_groups)
    fix c d i j assume "i \<in> ?S c" "j \<in> ?S d" "cgbase (a_fs st) (int c) + int i = cgbase (a_fs st) (int d) + int j"
    then show "c = d \<and> i = j" using cgbase_inj free_bounds[OF assms] by (meson empty_iff)
  qed (simp add: free_of_def)
  finally have "int (card (free_set st)) = (\<Sum>c<length (a_cgs st). cs_nbfree (cg_cs (a_cgs st ! c)) * int f + cs_nffree (cg_cs (a_cgs st ! c)))"
    using grp by simp
  also have "\<dots> = cst_nbfree (fs_cstotal (a_fs st)) * int f + cst_nffree (fs_cstotal (a_fs st))"
    using assms unfolding alloc_inv_def sum_nth by (simp add: sum.distrib sum_distrib_right)
  also have "\<dots> = freespace (a_fs st) 0"
    using macros_div(8)[OF fs_okD(1)[OF fs]] f(2) by (simp add: freespace_def tdiv_def)
  finally show ?thesis .
qed

lemma free_inodes_card:
  assumes "node_inv st"
  shows "int (card (free_inodes st)) = cst_nifree (fs_cstotal (a_fs st))"
proof -
  let ?S = "\<lambda>c. if c < length (a_cgs st) then clear_below (cg_inosused (a_cgs st ! c)) (nat (fs_ipg (a_fs st))) else {}"
  have "free_inodes st = {inode_no st c j | c j. c < length (a_cgs st) \<and> j \<in> ?S c}"
    by (auto simp: free_inodes_def inode_no_def clear_below_def zless_nat_eq_int_zless)
  also have "card \<dots> = (\<Sum>c<length (a_cgs st). card (?S c))"
  proof (rule card_groups)
    fix c d i j assume a: "i \<in> ?S c" "j \<in> ?S d" and e: "inode_no st c i = inode_no st d j"
    have "int i < fs_ipg (a_fs st)" "int j < fs_ipg (a_fs st)"
      using a by (auto simp: clear_below_def zless_nat_eq_int_zless split: if_splits)
    then have "inode_no st c i div fs_ipg (a_fs st) = int c" "inode_no st d j div fs_ipg (a_fs st) = int d"
      by (simp_all add: inode_no_def)
    then have "c = d" using e by simp
    then show "c = d \<and> i = j" using e by (simp add: inode_no_def)
  qed simp
  finally have "int (card (free_inodes st)) = (\<Sum>c<length (a_cgs st). cs_nifree (cg_cs (a_cgs st ! c)))"
    using node_group(4)[OF assms] by (simp add: inodes_ok_def)
  then show ?thesis using assms unfolding node_inv_def sum_nth by simp
qed

section \<open>Fragments of a file\<close>

text \<open>\<open>n\<close> allocated fragments from \<open>b\<close> on, within one block of the data of a group.\<close>

definition frags_at :: "alloc_st \<Rightarrow> int \<Rightarrow> nat \<Rightarrow> bool" where
  "frags_at st b n \<longleftrightarrow> 0 < b \<and> b < fs_size (a_fs st) \<and> 1 \<le> n \<and> {b..<b + int n} \<inter> free_set st = {} \<and>
     (\<exists>c h q. c < length (a_cgs st) \<and> b = cgbase (a_fs st) (int c) + int (h * nat (fs_frag (a_fs st)) + q) \<and>
        q + n \<le> nat (fs_frag (a_fs st)) \<and> int (h * nat (fs_frag (a_fs st)) + q + n) \<le> cg_ndblk (a_cgs st ! c))"

lemma node_frame:
  assumes "node_inv st" "alloc_inv st'" "block_frame st st'"
  shows "node_inv st'" "free_inodes st' = free_inodes st"
proof -
  have f: "geom_eq (a_fs st') (a_fs st)" "length (a_cgs st') = length (a_cgs st)"
    "cst_nifree (fs_cstotal (a_fs st')) = cst_nifree (fs_cstotal (a_fs st))"
    "\<And>c. c < length (a_cgs st) \<Longrightarrow> same_inodes (a_cgs st ! c) (a_cgs st' ! c)"
    using assms(3) by (auto simp: block_frame_def)
  note g = geom_inodes[OF f(1)]
  have "cg_inosused (a_cgs st' ! c) = cg_inosused (a_cgs st ! c)" if "c < length (a_cgs st)" for c
    using f(4)[OF that] by (simp add: same_inodes_def)
  then show fi: "free_inodes st' = free_inodes st" unfolding free_inodes_def f(2) conjunct1[OF g] by (simp cong: conj_cong)
  have "inodes_ok (a_fs st') (a_cgs st' ! c)" if "c < length (a_cgs st)" for c
    using node_group(4)[OF assms(1) that] f(4)[OF that] by (simp add: inodes_ok_def g same_inodes_def)
  moreover have "(\<Sum>cgp \<leftarrow> a_cgs st'. cs_nifree (cg_cs cgp)) = (\<Sum>cgp \<leftarrow> a_cgs st. cs_nifree (cg_cs cgp))"
    unfolding sum_nth f(2) using f(4) by (intro sum.cong) (auto simp: same_inodes_def)
  ultimately show "node_inv st'" using assms(1,2) unfolding node_inv_def fi by (simp add: f(2,3) g)
qed

lemma frame_frags:
  assumes "block_frame st st'" "frags_at st b n" "{b..<b + int n} \<inter> free_set st' = {}"
  shows "frags_at st' b n"
proof -
  have f: "geom_eq (a_fs st') (a_fs st)" "length (a_cgs st') = length (a_cgs st)"
    "\<And>c. c < length (a_cgs st) \<Longrightarrow> cg_ndblk (a_cgs st' ! c) = cg_ndblk (a_cgs st ! c)"
    using assms(1) by (auto simp: block_frame_def)
  note g = geom_eqD(6)[OF f(1)] geom_fields(1)[OF f(1)]
  have "fs_frag (a_fs st') = fs_frag (a_fs st)" by (subst geom_form[OF f(1)]) simp
  then show ?thesis using assms(2,3) f(3) unfolding frags_at_def f(2) g by metis
qed

context readable
begin

lemma blkfree_frags:
  assumes "alloc_inv st" "frags_at st b n"
  shows "\<exists>st'. ffs_blkfree_cg E False b (int n * fs_fsize (a_fs st)) st = Inr st' \<and> gives st b n st'"
proof -
  obtain c h q where c: "c < length (a_cgs st)" "b = cgbase (a_fs st) (int c) + int (h * nat (fs_frag (a_fs st)) + q)"
    "q + n \<le> nat (fs_frag (a_fs st))" "int (h * nat (fs_frag (a_fs st)) + q + n) \<le> cg_ndblk (a_cgs st ! c)"
    using assms(2) unfolding frags_at_def by blast
  have f: "0 < b" "b < fs_size (a_fs st)" "1 \<le> n" "{b..<b + int n} \<inter> free_set st = {}" using assms(2) by (auto simp: frags_at_def)
  show ?thesis using blkfree_spec[OF assms(1) c(1) refl c(2,3) f(3) refl c(4) f(2,1)] f(4) by simp
qed

text \<open>\<open>ffs_fragextend\<close> extends a file's fragments exactly when the next ones of their block are free.\<close>

lemma fragextend_frags:
  assumes "alloc_inv st" "frags_at st b o1" "o1 < n1" "n1 \<le> nat (fs_frag (a_fs st))"
  shows "dtog (a_fs st) b = int (nat (dtog (a_fs st) b))"
    and "if fragnum (a_fs st) b + int n1 \<le> fs_frag (a_fs st) \<and> {b + int o1..<b + int n1} \<subseteq> free_set st
    then \<exists>st'. ffs_fragextend E (nat (dtog (a_fs st) b)) b (int o1 * fs_fsize (a_fs st)) (int n1 * fs_fsize (a_fs st)) st = Inr (b, st') \<and>
      takes st (b + int o1) (n1 - o1) st'
    else ffs_fragextend E (nat (dtog (a_fs st) b)) b (int o1 * fs_fsize (a_fs st)) (int n1 * fs_fsize (a_fs st)) st = Inr (0, st)"
proof -
  let ?fs = "a_fs st"
  define f where "f = nat (fs_frag ?fs)"
  have ok: "fs_ok ?fs" using assms(1) by (simp add: alloc_inv_def)
  have f: "fs_frag ?fs = int f" "0 < f" using frag_nat[OF fs_okD(1)[OF ok] f_def] by auto
  obtain c h q where c: "c < length (a_cgs st)" "b = cgbase ?fs (int c) + int (h * f + q)"
    "q + o1 \<le> f" "int (h * f + q + o1) \<le> cg_ndblk (a_cgs st ! c)"
    using assms(2) unfolding frags_at_def f_def by blast
  have o1: "1 \<le> o1" "{b..<b + int o1} \<inter> free_set st = {}" using assms(2) by (auto simp: frags_at_def)
  let ?m = "cg_blksfree (a_cgs st ! c)"
  have gok: "cg_ok ?fs (a_cgs st ! c)" using inv_group[OF assms(1) c(1)] by blast
  note k = cg_okD[OF gok]
  have fpg: "int (h * f + q) < fs_fpg ?fs" using c(4) o1(1) k(7) by linarith
  show dt: "dtog ?fs b = int (nat (dtog ?fs b))" using dtog_base[OF fpg] by (simp add: c(2))
  have nc: "nat (dtog ?fs b) = c" using dtog_base[OF fpg] by (simp add: c(2))
  obtain r where r: "fs_fpg ?fs = int f * r" using fs_okD(3)[OF ok] f(1) by (auto elim: dvdE)
  have "h < nat r"
  proof -
    have "int f * int h < int f * r" using fpg unfolding r by (simp add: mult.commute)
    then have "int h < r" using f(2) by simp
    then show ?thesis by simp
  qed
  then have "int f * (int h + 1) \<le> int f * r" using f(2) by (intro mult_left_mono) auto
  then have blk: "int (h * f + f) \<le> fs_fpg ?fs" unfolding r by (simp add: algebra_simps)
  have "fs_fpg ?fs \<le> 8 * int (length ?m)" using k(1) unfolding howmany_def by linarith
  then have m8: "h * f + f \<le> 8 * length ?m" using blk by linarith
  have mem: "isset ?m (h * f + p) \<longleftrightarrow> cgbase ?fs (int c) + int (h * f + p) \<in> free_set st" if "p < f" for p
    using that blk m8 free_set_group[OF assms(1) c(1), of "h * f + p"] by (simp add: free_of_def)
  have "h * f < nblocks f ?m * f" using m8 f(2) frag_nat[OF fs_okD(1)[OF ok] f_def] by (auto simp: nblocks_def)
  then have h: "h < nblocks f ?m" by simp
  have last: "\<not> isset ?m (h * f + (q + o1 - 1))"
  proof -
    have "cgbase ?fs (int c) + int (h * f + (q + o1 - 1)) = b + (int o1 - 1)" using o1(1) by (simp add: c(2) of_nat_diff)
    then have "cgbase ?fs (int c) + int (h * f + (q + o1 - 1)) \<in> {b..<b + int o1}" using o1(1) by simp
    moreover have "q + o1 - 1 < f" using o1(1) c(3) by linarith
    ultimately show ?thesis using mem[of "q + o1 - 1"] o1(2) by blast
  qed
  have q: "fragnum ?fs b = int q" using fragnum_group[OF ok f_def, of "int c" h q] c(2,3) o1(1)
    by (simp add: add.assoc fragnum_group[OF ok f_def])
  have cond: "fragnum ?fs b + int n1 \<le> fs_frag ?fs \<and> {b + int o1..<b + int n1} \<subseteq> free_set st \<longleftrightarrow>
      q + n1 \<le> f \<and> (\<forall>i. o1 \<le> i \<and> i < n1 \<longrightarrow> isset ?m (h * f + (q + i)))"
  proof -
    have "{b + int o1..<b + int n1} \<subseteq> free_set st \<longleftrightarrow> (\<forall>i. o1 \<le> i \<and> i < n1 \<longrightarrow> b + int i \<in> free_set st)"
    proof
      assume a: "\<forall>i. o1 \<le> i \<and> i < n1 \<longrightarrow> b + int i \<in> free_set st"
      show "{b + int o1..<b + int n1} \<subseteq> free_set st"
      proof
        fix x assume "x \<in> {b + int o1..<b + int n1}"
        then have "x = b + int (nat (x - b))" "o1 \<le> nat (x - b)" "nat (x - b) < n1" by auto
        then show "x \<in> free_set st" using a by metis
      qed
    qed auto
    moreover have "b + int i \<in> free_set st \<longleftrightarrow> isset ?m (h * f + (q + i))" if "q + i < f" for i
      using mem[OF that] by (simp add: c(2) add.assoc)
    ultimately show ?thesis unfolding q f(1) by auto
  qed
  show "if fragnum ?fs b + int n1 \<le> fs_frag ?fs \<and> {b + int o1..<b + int n1} \<subseteq> free_set st
    then \<exists>st'. ffs_fragextend E (nat (dtog ?fs b)) b (int o1 * fs_fsize ?fs) (int n1 * fs_fsize ?fs) st = Inr (b, st') \<and>
      takes st (b + int o1) (n1 - o1) st'
    else ffs_fragextend E (nat (dtog ?fs b)) b (int o1 * fs_fsize ?fs) (int n1 * fs_fsize ?fs) st = Inr (0, st)"
    using fragextend_spec[OF assms(1) c(1) f_def refl c(2) h fpg refl refl o1(1) assms(3) _ c(3) last] assms(4) unfolding cond nc f_def[symmetric] by simp
qed

end

section \<open>Reallocation\<close>

text \<open>The optimisation goal, which \<open>ffs_realloccg\<close> may switch.\<close>

definition optim_to :: "int \<Rightarrow> alloc_st \<Rightarrow> alloc_st" where
  "optim_to x st = st\<lparr>a_fs := (a_fs st)\<lparr>fs_optim := x\<rparr>\<rparr>"

lemma optim_fs: "fs_ok (fs\<lparr>fs_optim := x\<rparr>) = fs_ok fs" "cg_ok (fs\<lparr>fs_optim := x\<rparr>) = cg_ok fs"
  "cgbase (fs\<lparr>fs_optim := x\<rparr>) = cgbase fs" "table_ok (fs\<lparr>fs_optim := x\<rparr>) = table_ok fs" "ddtab (fs\<lparr>fs_optim := x\<rparr>) = ddtab fs"
  by (simp_all add: fs_ok_def geometry_ok_def cg_ok_def cgbase_def fun_eq_iff table_ok_def ddtab_def ddbase_def ddcount_def
    num_blocks_def entries_per_block_def)

lemma optim_state [simp]: "a_cgs (optim_to x st) = a_cgs st" "free_set (optim_to x st) = free_set st"
  "block_room k (optim_to x st) = block_room k st" "free_inodes (optim_to x st) = free_inodes st"
  by (simp_all add: optim_to_def free_set_def optim_fs block_room_def fun_eq_iff free_inodes_def)

lemma optim_inv [simp]: "alloc_inv (optim_to x st) = alloc_inv st"
  unfolding alloc_inv_def optim_state by (simp add: optim_to_def optim_fs group_ok_def cong: option.case_cong)

lemma optim_frags [simp]: "frags_at (optim_to x st) b n = frags_at st b n"
  by (simp add: frags_at_def) (simp add: optim_to_def optim_fs)

lemma optim_nodes [simp]: "node_inv (optim_to x st) = node_inv st"
  by (simp add: node_inv_def) (simp add: optim_to_def inodes_ok_def INOPB_def)

definition goal_ok :: "int \<Rightarrow> bool" where
  "goal_ok x \<longleftrightarrow> x = FS_OPTSPACE \<or> x = FS_OPTTIME"

lemma realloc_request_cases:
  assumes "goal_ok (fs_optim fs)"
  shows "\<exists>x. goal_ok x \<and> realloc_request fs nsize = Inr (if fs_optim fs = FS_OPTSPACE then nsize else fs_bsize fs, fs\<lparr>fs_optim := x\<rparr>)"
proof -
  have e: "goal_ok y \<Longrightarrow> \<exists>x. goal_ok x \<and> (Inr (v, fs\<lparr>fs_optim := y\<rparr>) :: fault + int \<times> ddfs_fs) = Inr (v, fs\<lparr>fs_optim := x\<rparr>)" for v y by blast
  have s: "(Inr (v, fs) :: fault + int \<times> ddfs_fs) = Inr (v, fs\<lparr>fs_optim := fs_optim fs\<rparr>)" for v by simp
  have g: "goal_ok FS_OPTSPACE" "goal_ok FS_OPTTIME" by (simp_all add: goal_ok_def)
  show ?thesis
  proof (cases "fs_optim fs = FS_OPTSPACE")
    case True
    show ?thesis unfolding realloc_request_def if_P[OF True]
      using e[OF g(2), of nsize] e[OF assms, of nsize, folded s] by (simp only: split: if_split) blast
  next
    case False
    then have o: "fs_optim fs = FS_OPTTIME" using assms by (simp add: goal_ok_def)
    show ?thesis unfolding realloc_request_def if_not_P[OF False] if_P[OF o]
      using e[OF g(1), of "fs_bsize fs"] e[OF assms, of "fs_bsize fs", folded s] by (simp only: split: if_split) blast
  qed
qed

text \<open>How many fragments the goal asks for.\<close>

definition asked :: "alloc_st \<Rightarrow> nat \<Rightarrow> nat" where
  "asked st n = (if fs_optim (a_fs st) = FS_OPTSPACE then n else nat (fs_frag (a_fs st)))"

text \<open>The fragments \<open>b\<close> of a file have moved to \<open>b'\<close>; \<open>kept\<close>: the table still counts references to the old ones.\<close>

definition moved :: "bool \<Rightarrow> alloc_st \<Rightarrow> int \<Rightarrow> nat \<Rightarrow> int \<Rightarrow> nat \<Rightarrow> alloc_st \<Rightarrow> bool" where
  "moved kept st b o1 b' n1 st' \<longleftrightarrow> alloc_inv st' \<and> (\<exists>x. goal_ok x \<and> block_frame (optim_to x st) st') \<and> 0 < b' \<and> {b'..<b' + int n1} \<subseteq> free_set st \<and>
     free_set st' = free_set st - {b'..<b' + int n1} \<union> (if kept then {} else {b..<b + int o1})"

context dedup_device
begin

text \<open>\<open>ffs_blkfree\<close> of a file's fragments, whatever the table says of them.\<close>

lemma ffs_blkfree_frags:
  assumes "alloc_inv st" "frags_at st b n" "table_ok (a_fs st) devsize" "dd_inv (ddtab (a_fs st) (img ks))"
  shows "\<exists>kept ks' st'. ffs_blkfree K E b (int n * fs_fsize (a_fs st)) (ks, st) = Inr (ks', st') \<and>
    (if kept then st' = st else gives st b n st') \<and>
    (kept \<longleftrightarrow> (\<exists>key n. dd_map (ddtab (a_fs st) (img ks)) key = Some (word_of_int b, n) \<and> 1 < n)) \<and>
    dd_inv (ddtab (a_fs st) (img ks'))"
proof -
  let ?t = "ddtab (a_fs st) (img ks)" and ?b = "word_of_int b :: 64 word"
  note free = blkfree_frags[OF assms(1,2)] and spec = ffs_blkfree_spec[OF assms(3,4) refl, where bno = b and sz = "int n * fs_fsize (a_fs st)"]
  show ?thesis
  proof (cases "?b \<in> fst ` ran (dd_map ?t)")
    case False
    then have "\<not> (\<exists>key n. dd_map ?t key = Some (?b, n) \<and> 1 < n)" by (force simp: ran_def)
    then show ?thesis using spec(3)[OF False] free assms(4) by (intro exI[of _ False]) auto
  next
    case True
    then obtain key m where m: "dd_map ?t key = Some (?b, m)" by (auto simp: ran_def)
    have uniq: "n' = m" if "dd_map ?t key' = Some (?b, n')" for key' n'
      using m that dd_invD(2)[OF assms(4)] unfolding dd_map_Some[OF assms(4)] by metis
    have "0 < m" by (rule list_count_pos[OF assms(4) m])
    then consider "m = 1" | "1 < m" by linarith
    then show ?thesis
    proof cases
      case 1
      then have "\<not> (\<exists>key n. dd_map ?t key = Some (?b, n) \<and> 1 < n)" using uniq by blast
      then show ?thesis using spec(2)[OF m[unfolded 1]] free by (intro exI[of _ False]) auto
    next
      case 2
      then show ?thesis using spec(1)[OF m] m by (intro exI[of _ True]) auto
    qed
  qed
qed

lemma optim_place [simp]: "place_ok (a_fs (optim_to x st)) ino p = place_ok (a_fs st) ino p"
  "may_use (a_fs (optim_to x st)) cred n = may_use (a_fs st) cred n"
  by (simp_all add: optim_to_def place_ok_def may_use_def freespace_def numfrags_def blkstofrags_def)

lemma realloc_try_spec:
  assumes "alloc_inv st" "frags_at st b o1" "o1 < n1" "n1 \<le> nat (fs_frag (a_fs st))"
    and "osize = int o1 * fs_fsize (a_fs st)" "nsize = int n1 * fs_fsize (a_fs st)"
    and "place_ok (a_fs st) ino pref" "may_use (a_fs st) cred (nsize - osize)"
    and "bread lbprev osize = (0, bp)" "vb_blkno bp = fsbtodb (a_fs st) b" "vb_blkno bp \<noteq> vb_lblkno bp"
    and "goal_ok (fs_optim (a_fs st))"
    and "table_ok (a_fs st) devsize" "t = ddtab (a_fs st) (img ks)" "dd_inv t"
  shows "if fragnum (a_fs st) b + int n1 \<le> fs_frag (a_fs st) \<and> {b + int o1..<b + int n1} \<subseteq> free_set st
    then \<exists>st'. realloc_try K E cred bread ip lbprev b pref osize nsize flags (ks, st) =
        Inr (Moved (grow_buf osize nsize bp) (charge (nsize - osize) flags ip), ks, st') \<and> takes st (b + int o1) (n1 - o1) st'
    else if \<exists>c < nat (fs_ncg (a_fs st)). block_room (asked st n1) st c
    then \<exists>b' kept ks' st'. realloc_try K E cred bread ip lbprev b pref osize nsize flags (ks, st) =
        Inr (Moved (grow_buf osize nsize (bp\<lparr>vb_blkno := fsbtodb (a_fs st) b'\<rparr>)) (charge (nsize - osize) flags ip), ks', st') \<and>
        moved kept st b o1 b' n1 st' \<and> (kept \<longleftrightarrow> (\<exists>key n. dd_map t key = Some (word_of_int b, n) \<and> 1 < n)) \<and>
        dd_inv (ddtab (a_fs st) (img ks'))
    else \<exists>x. goal_ok x \<and> realloc_try K E cred bread ip lbprev b pref osize nsize flags (ks, st) = Inr (NoSpace, ks, optim_to x st)"
proof -
  let ?fs = "a_fs st" and ?once = "realloc_try K E cred bread ip lbprev b pref osize nsize flags (ks, st)"
  have ok: "fs_ok ?fs" "length (a_cgs st) = nat (fs_ncg ?fs)" using assms(1) by (simp_all add: alloc_inv_def)
  define f where "f = nat (fs_frag ?fs)"
  have f: "fs_frag ?fs = int f" "0 < f" using frag_nat[OF fs_okD(1)[OF ok(1)] f_def] by auto
  have b: "0 < b" "b < fs_size ?fs" "1 \<le> o1" using assms(2) by (simp_all add: frags_at_def)
  define c where "c = nat (dtog ?fs b)"
  note ext = fragextend_frags(2)[OF assms(1-4), folded assms(5,6) c_def]
  have "\<not> (cr_noreserve cred \<and> freespace ?fs (fs_minfree ?fs) - numfrags ?fs (nsize - osize) < 0)"
    using assms(8) by (simp add: may_use_def)
  note unf = realloc_try_def Let_def prod.case if_not_P[OF this] assms(9) c_def[symmetric]
  show ?thesis
  proof (cases "fragnum ?fs b + int n1 \<le> fs_frag ?fs \<and> {b + int o1..<b + int n1} \<subseteq> free_set st")
    case True
    then obtain st' where "ffs_fragextend E c b osize nsize st = Inr (b, st')" "takes st (b + int o1) (n1 - o1) st'" using ext by auto
    then have "?once = Inr (Moved (grow_buf osize nsize bp) (charge (nsize - osize) flags ip), ks, st')"
      using b assms(10,11) unfolding unf by simp
    then show ?thesis using \<open>takes st (b + int o1) (n1 - o1) st'\<close> True by auto
  next
    case False
    obtain x where gx: "goal_ok x" and x: "realloc_request ?fs nsize = Inr (if fs_optim ?fs = FS_OPTSPACE then nsize else fs_bsize ?fs, ?fs\<lparr>fs_optim := x\<rparr>)"
      using realloc_request_cases[OF assms(12)] by blast
    define pf where "pf = (if fs_size ?fs \<le> pref then 0 else pref)"
    define k where "k = asked st n1"
    have req: "(if fs_optim ?fs = FS_OPTSPACE then nsize else fs_bsize ?fs) = int k * fs_fsize ?fs"
      using geometryD(9)[OF fs_okD(1)[OF ok(1)]] f(1) by (simp add: k_def asked_def assms(6) f_def[symmetric])
    let ?st = "optim_to x st"
    have k: "block_inv k n1 (int k * fs_fsize ?fs) nsize ?st"
      using assms(1,3,4,6) b(3) f by (simp add: block_inv_def) (simp add: optim_to_def k_def asked_def)
    have cg: "c < nat (fs_ncg (a_fs ?st))"
      using div_less[of b "fs_fpg ?fs" "fs_ncg ?fs"] b assms(7) fs_okD(2)[OF ok(1)] by (simp add: c_def dtog_def place_ok_def optim_to_def)
    have ncg: "fs_ncg (a_fs ?st) = fs_ncg ?fs" by (simp add: optim_to_def)
    define r where "r = ffs_hashalloc c pf (block_allocator E (int k * fs_fsize ?fs) nsize) ?st"
    note ha = blocks.hashalloc[OF k cg, of pf, folded r_def, unfolded optim_state ncg]
    have "ffs_fragextend E c b osize nsize st = Inr (0, st)" using ext False by (simp split: if_splits)
    then have call: "?once = (case r of Inl f \<Rightarrow> Inl f | Inr (bno, st) \<Rightarrow> if bno \<le> 0 then Inr (NoSpace, ks, st)
        else case ffs_blkfree K E b osize (ks, st) of Inl f \<Rightarrow> Inl f
        | Inr (ks, st) \<Rightarrow> Inr (Moved (grow_buf osize nsize (bp\<lparr>vb_blkno := fsbtodb ?fs bno\<rparr>)) (charge (nsize - osize) flags ip), ks, st))"
    proof -
      have ne: "\<not> b = 0" "\<not> vb_blkno bp = vb_lblkno bp" "\<not> (vb_blkno bp = vb_lblkno bp \<and> UFS_NDADDR \<le> lbprev)"
        using b(1) assms(11) by simp_all
      have e: "fsbtodb (?fs\<lparr>fs_optim := x\<rparr>) = fsbtodb ?fs" "fs_size (?fs\<lparr>fs_optim := x\<rparr>) = fs_size ?fs" by (simp_all add: fsbtodb_def fun_eq_iff)
      have z: "\<not> (0 :: errno) \<noteq> 0" "\<not> (0 :: int) \<noteq> 0" by simp_all
      show ?thesis
        unfolding unf if_not_P[OF ne(1)] if_not_P[OF z(1)] if_not_P[OF ne(2)] if_not_P[OF ne(3)] \<open>ffs_fragextend E c b osize nsize st = Inr (0, st)\<close>
          sum.case prod.case if_not_P[OF z(2)] x req e r_def block_allocator_def pf_def optim_to_def ..
    qed
    show ?thesis
    proof (cases "\<exists>c < nat (fs_ncg ?fs). block_room k st c")
      case True
      then obtain b' st1 where b': "r = Inr (b', st1)" "takes ?st b' n1 st1"
        using ha by auto
      have t1: "alloc_inv st1" "block_frame ?st st1" "0 < b'" "{b'..<b' + int n1} \<subseteq> free_set st" "free_set st1 = free_set st - {b'..<b' + int n1}"
        using b'(2) by (simp_all add: takes_def)
      have geo: "geom_eq (a_fs st1) (a_fs ?st)" using t1(2) by (simp add: block_frame_def)
      have tab: "table_ok (a_fs st1) devsize" "ddtab (a_fs st1) = ddtab ?fs" "fs_fsize (a_fs st1) = fs_fsize ?fs"
        using geom_table[OF geo] geom_eqD[OF geo] assms(13) by (simp_all add: optim_to_def optim_fs)
      have "{b..<b + int o1} \<inter> free_set st = {}" using assms(2) by (simp add: frags_at_def)
      then have free_b: "{b..<b + int o1} \<inter> free_set st1 = {}" using t1(5) by blast
      have at1: "frags_at st1 b o1" using frame_frags[OF t1(2), of b o1] assms(2) free_b by simp
      obtain kept ks' st' where fr: "ffs_blkfree K E b osize (ks, st1) = Inr (ks', st')" "if kept then st' = st1 else gives st1 b o1 st'"
        "kept \<longleftrightarrow> (\<exists>key n. dd_map t key = Some (word_of_int b, n) \<and> 1 < n)" "dd_inv (ddtab ?fs (img ks'))"
        using ffs_blkfree_frags[OF t1(1) at1 tab(1), of ks] assms(5,14,15) unfolding tab by metis
      have "moved kept st b o1 b' n1 st'"
        using t1 fr(2) gx block_frame_trans[OF t1(2), of st'] unfolding moved_def gives_def by (cases kept) auto
      then show ?thesis using False True fr b'(1) t1(3) unfolding call k_def[symmetric] by auto
    next
      case none: False
      then have "r = Inr (0, ?st)" using ha by auto
      then have "?once = Inr (NoSpace, ks, ?st)" unfolding call by simp
      then show ?thesis using False none gx unfolding k_def by auto
    qed
  qed
qed

text \<open>One attempt of \<open>ffs_realloccg\<close> keeps the invariants of the blocks and of the table, whatever its outcome.\<close>

lemma realloc_try_keeps:
  assumes "alloc_inv st" "frags_at st b o1" "o1 < n1" "n1 \<le> nat (fs_frag (a_fs st))"
    and "osize = int o1 * fs_fsize (a_fs st)" "nsize = int n1 * fs_fsize (a_fs st)" "place_ok (a_fs st) ino pref"
    and "bread lbprev osize = (0, bp)" "vb_blkno bp = fsbtodb (a_fs st) b" "vb_blkno bp \<noteq> vb_lblkno bp"
    and "goal_ok (fs_optim (a_fs st))"
    and "table_ok (a_fs st) devsize" "dd_inv (ddtab (a_fs st) (img ks))"
    and "realloc_try K E cred bread ip lbprev b pref osize nsize flags (ks, st) = Inr (r, ks', st')"
  shows "alloc_inv st' \<and> (\<exists>x. goal_ok x \<and> block_frame (optim_to x st) st') \<and> dd_inv (ddtab (a_fs st) (img ks')) \<and>
    (r = NoSpace \<longrightarrow> ks' = ks \<and> (\<exists>x. goal_ok x \<and> st' = optim_to x st))"
proof -
  have same: "\<exists>x. goal_ok x \<and> st = optim_to x st" using assms(11) by (intro exI[of _ "fs_optim (a_fs st)"]) (simp add: optim_to_def)
  then have frame: "block_frame st st' \<Longrightarrow> \<exists>x. goal_ok x \<and> block_frame (optim_to x st) st'" for st' by metis
  show ?thesis
  proof (cases "may_use (a_fs st) cred (nsize - osize)")
    case False
    then have "r = NoSpace \<and> ks' = ks \<and> st' = st" using assms(14) by (simp add: realloc_try_def may_use_def Let_def)
    then show ?thesis using assms(1,13) same frame[of st] by simp
  next
    case True
    note spec = realloc_try_spec[where bread = bread and lbprev = lbprev and ip = ip and flags = flags,
        OF assms(1-7) True assms(8-12) refl assms(13), unfolded assms(14)]
    show ?thesis
    proof (cases "fragnum (a_fs st) b + int n1 \<le> fs_frag (a_fs st) \<and> {b + int o1..<b + int n1} \<subseteq> free_set st")
      case True
      then show ?thesis using spec assms(13) frame[of st'] by (auto simp: takes_def)
    next
      case False
      note spec = spec[unfolded if_not_P[OF False]]
      show ?thesis
      proof (cases "\<exists>c < nat (fs_ncg (a_fs st)). block_room (asked st n1) st c")
        case True
        then show ?thesis using spec by (auto simp: moved_def)
      next
        case False
        then obtain x where "goal_ok x" "r = NoSpace" "ks' = ks" "st' = optim_to x st" using spec[unfolded if_not_P[OF False]] by auto
        then show ?thesis using assms(1,13) by (auto intro!: exI[of _ x])
      qed
    qed
  qed
qed

lemma optim_to_twice [simp]: "optim_to y (optim_to x st) = optim_to y st"
  by (simp add: optim_to_def)

lemma ffs_realloccg_keeps:
  assumes "alloc_inv st" "frags_at st b o1" "o1 < n1" "n1 \<le> nat (fs_frag (a_fs st))"
    and "osize = int o1 * fs_fsize (a_fs st)" "nsize = int n1 * fs_fsize (a_fs st)" "place_ok (a_fs st) ino pref"
    and "bread lbprev osize = (0, bp)" "vb_blkno bp = fsbtodb (a_fs st) b" "vb_blkno bp \<noteq> vb_lblkno bp"
    and "goal_ok (fs_optim (a_fs st))"
    and "table_ok (a_fs st) devsize" "dd_inv (ddtab (a_fs st) (img ks))"
    and "ffs_realloccg K E fsfail cred bread ip lbprev b pref osize nsize flags (ks, st) = Inr (e, bpo, ip', ks', st')"
  shows "alloc_inv st' \<and> (\<exists>x. goal_ok x \<and> block_frame (optim_to x st) st') \<and> dd_inv (ddtab (a_fs st) (img ks'))"
proof -
  let ?once = "realloc_try K E cred bread ip lbprev b pref osize nsize flags"
  note keeps = realloc_try_keeps[where bread = bread and lbprev = lbprev and ip = ip and flags = flags, OF assms(1-13)]
  have call: "(case ?once (ks, st) of Inl f \<Rightarrow> Inl f
      | Inr (Failed e, w) \<Rightarrow> Inr (e, None, ip, w) | Inr (Moved bp ip, w) \<Rightarrow> Inr (0, Some bp, ip, w)
      | Inr (NoSpace, w) \<Rightarrow>
        if io_buflocked flags then (case w of (ks, st) \<Rightarrow> Inr (if fsfail then ENXIO else ENOSPC, None, ip, ks, st))
        else case ?once w of Inl f \<Rightarrow> Inl f
        | Inr (Failed e, w) \<Rightarrow> Inr (e, None, ip, w) | Inr (Moved bp ip, w) \<Rightarrow> Inr (0, Some bp, ip, w)
        | Inr (NoSpace, ks, st) \<Rightarrow> Inr (if fsfail then ENXIO else ENOSPC, None, ip, ks, st)) = Inr (e, bpo, ip', ks', st')"
    using assms(14) unfolding ffs_realloccg_def Let_def by (simp split: if_splits)
  show ?thesis
  proof (cases "?once (ks, st)")
    case (Inl f)
    then show ?thesis using call by simp
  next
    case (Inr w)
    obtain r ks1 st1 where w: "w = (r, ks1, st1)" by (cases w)
    note k1 = keeps[OF Inr[unfolded w]]
    show ?thesis
    proof (cases "r = NoSpace \<and> \<not> io_buflocked flags")
      case False
      then have "ks' = ks1 \<and> st' = st1" using call Inr w by (cases r) auto
      then show ?thesis using k1 by blast
    next
      case True
      then obtain x where x: "goal_ok x" "ks1 = ks" "st1 = optim_to x st" using k1 by blast
      have f: "fs_frag (a_fs st1) = fs_frag (a_fs st)" "fs_fsize (a_fs st1) = fs_fsize (a_fs st)" "fsbtodb (a_fs st1) = fsbtodb (a_fs st)"
        "fs_optim (a_fs st1) = x" "table_ok (a_fs st1) = table_ok (a_fs st)" "ddtab (a_fs st1) = ddtab (a_fs st)"
        by (simp_all add: x(3) optim_to_def fsbtodb_def optim_fs fun_eq_iff)
      have i: "alloc_inv st1" "frags_at st1 b o1" "place_ok (a_fs st1) ino pref" using assms(1,2,7) by (simp_all add: x(3))
      note keeps2 = realloc_try_keeps[where st = st1 and bread = bread and lbprev = lbprev and ip = ip and flags = flags and cred = cred and nsize = nsize and osize = osize,
          unfolded f, OF i(1,2) assms(3-6) i(3) assms(8-10) x(1) assms(12,13)]
      have "\<exists>r2. ?once (ks, st1) = Inr (r2, ks', st')" using call Inr w True x(2)
        by (auto split: sum.splits realloc.splits)
      then show ?thesis using keeps2 by (auto simp: x(3))
    qed
  qed
qed

text \<open>Growing a file's last fragments: in place if the next ones are free, else by moving them.\<close>

lemma ffs_realloccg_spec:
  assumes "alloc_inv st" "frags_at st b o1" "o1 < n1" "n1 \<le> nat (fs_frag (a_fs st))"
    and "osize = int o1 * fs_fsize (a_fs st)" "nsize = int n1 * fs_fsize (a_fs st)"
    and "place_ok (a_fs st) ino pref" "may_use (a_fs st) cred (nsize - osize)" "\<not> cr_nocred cred"
    and "bread lbprev osize = (0, bp)" "vb_blkno bp = fsbtodb (a_fs st) b" "vb_blkno bp \<noteq> vb_lblkno bp"
    and "goal_ok (fs_optim (a_fs st))"
    and "table_ok (a_fs st) devsize" "t = ddtab (a_fs st) (img ks)" "dd_inv t"
  shows "fragnum (a_fs st) b + int n1 \<le> fs_frag (a_fs st) \<and> {b + int o1..<b + int n1} \<subseteq> free_set st \<Longrightarrow>
      \<exists>st'. ffs_realloccg K E fsfail cred bread ip lbprev b pref osize nsize flags (ks, st) =
        Inr (0, Some (grow_buf osize nsize bp), charge (nsize - osize) flags ip, ks, st') \<and> takes st (b + int o1) (n1 - o1) st'"
    and "\<not> (fragnum (a_fs st) b + int n1 \<le> fs_frag (a_fs st) \<and> {b + int o1..<b + int n1} \<subseteq> free_set st) \<Longrightarrow>
      \<exists>c < nat (fs_ncg (a_fs st)). block_room (asked st n1) st c \<Longrightarrow>
      \<exists>b' kept ks' st'. ffs_realloccg K E fsfail cred bread ip lbprev b pref osize nsize flags (ks, st) =
        Inr (0, Some (grow_buf osize nsize (bp\<lparr>vb_blkno := fsbtodb (a_fs st) b'\<rparr>)), charge (nsize - osize) flags ip, ks', st') \<and>
        moved kept st b o1 b' n1 st' \<and> (kept \<longleftrightarrow> (\<exists>key n. dd_map t key = Some (word_of_int b, n) \<and> 1 < n))"
proof -
  let ?fs = "a_fs st"
  have g: "geometry_ok ?fs" using assms(1) by (auto simp: alloc_inv_def dest: fs_okD)
  have f: "fs_frag ?fs = int (nat (fs_frag ?fs))" using frag_nat[OF g refl] by auto
  have sz: "0 \<le> x \<and> x \<le> fs_bsize ?fs \<and> fragoff ?fs x = 0" if "x = int n * fs_fsize ?fs" "n \<le> nat (fs_frag ?fs)" for x n
  proof -
    have "int n \<le> fs_frag ?fs" using that(2) f by linarith
    moreover have "0 < fs_fsize ?fs" using g by (auto simp: geometry_ok_def)
    ultimately show ?thesis using that geometryD(9)[OF g] macros_div(2)[OF g] by (simp add: mult_right_mono mult.commute[of "fs_frag ?fs"])
  qed
  have u: "u32 x \<le> x" if "0 \<le> x" for x using that zmod_le_nonneg_dividend[of x "2 ^ 32"] by (simp add: u32_def)
  have "o1 \<le> nat (fs_frag ?fs)" using assms(3,4) by simp
  note so = sz[OF assms(5) this] and sn = sz[OF assms(6,4)]
  have ok: "\<not> (fs_bsize ?fs < u32 osize \<or> fragoff ?fs osize \<noteq> 0 \<or> fs_bsize ?fs < u32 nsize \<or> fragoff ?fs nsize \<noteq> 0)"
    using u[of osize] u[of nsize] so sn by auto
  note unf = ffs_realloccg_def Let_def prod.case if_not_P[OF ok] if_not_P[OF assms(9)]
  note spec = realloc_try_spec[where bread = bread and lbprev = lbprev and ip = ip and flags = flags,
      OF assms(1-8) assms(10-16)]
  { assume "fragnum (a_fs st) b + int n1 \<le> fs_frag (a_fs st) \<and> {b + int o1..<b + int n1} \<subseteq> free_set st"
    from spec[unfolded if_P[OF this]] show "\<exists>st'. ffs_realloccg K E fsfail cred bread ip lbprev b pref osize nsize flags (ks, st) =
        Inr (0, Some (grow_buf osize nsize bp), charge (nsize - osize) flags ip, ks, st') \<and> takes st (b + int o1) (n1 - o1) st'"
      unfolding unf by fastforce }
  { assume no: "\<not> (fragnum (a_fs st) b + int n1 \<le> fs_frag (a_fs st) \<and> {b + int o1..<b + int n1} \<subseteq> free_set st)"
      and "\<exists>c < nat (fs_ncg (a_fs st)). block_room (asked st n1) st c"
    from spec[unfolded if_not_P[OF no] if_P[OF this(2)]] show "\<exists>b' kept ks' st'. ffs_realloccg K E fsfail cred bread ip lbprev b pref osize nsize flags (ks, st) =
        Inr (0, Some (grow_buf osize nsize (bp\<lparr>vb_blkno := fsbtodb (a_fs st) b'\<rparr>)), charge (nsize - osize) flags ip, ks', st') \<and>
        moved kept st b o1 b' n1 st' \<and> (kept \<longleftrightarrow> (\<exists>key n. dd_map t key = Some (word_of_int b, n) \<and> 1 < n))"
      unfolding unf by fastforce }
qed

end

end
