(* ===== verification/Ddfs_System.thy ===== *)
theory Ddfs_System
  imports Ddfs_Run
begin

text \<open>
  The system of allocator and deduplication table as a state machine: the steps are the operations the rest
  of ddfs performs on it. Every reachable state has consistent maps, summaries and totals and a
  well-formed table.
\<close>

inductive ddfs_step :: "'k kern \<Rightarrow> ('k \<Rightarrow> image) \<Rightarrow> alloc_env \<Rightarrow> 'k \<times> alloc_st \<Rightarrow> 'k \<times> alloc_st \<Rightarrow> bool"
  for K img E where
  allocate: "place_ok (a_fs st) (i_number ip) pref \<Longrightarrow> \<not> cr_nocred cred \<Longrightarrow> 1 \<le> k \<Longrightarrow> k \<le> nat (fs_frag (a_fs st)) \<Longrightarrow>
    ffs_alloc E fsfail cred ip pref (int k * fs_fsize (a_fs st)) flags st = Inr (e, b, ip', st') \<Longrightarrow>
    ddfs_step K img E (ks, st) (ks, st')"
| grow: "frags_at st b o1 \<Longrightarrow> o1 < n1 \<Longrightarrow> n1 \<le> nat (fs_frag (a_fs st)) \<Longrightarrow>
    osize = int o1 * fs_fsize (a_fs st) \<Longrightarrow> nsize = int n1 * fs_fsize (a_fs st) \<Longrightarrow> place_ok (a_fs st) ino pref \<Longrightarrow>
    bread lbprev osize = (0, bp) \<Longrightarrow> vb_blkno bp = fsbtodb (a_fs st) b \<Longrightarrow> vb_blkno bp \<noteq> vb_lblkno bp \<Longrightarrow>
    ffs_realloccg K E fsfail cred bread ip lbprev b pref osize nsize flags (ks, st) = Inr (e, bpo, ip', ks', st') \<Longrightarrow>
    ddfs_step K img E (ks, st) (ks', st')"
| free: "frags_at st b n \<Longrightarrow> ffs_blkfree K E b (int n * fs_fsize (a_fs st)) (ks, st) = Inr (ks', st') \<Longrightarrow>
    ddfs_step K img E (ks, st) (ks', st')"
| share: "length key = 20 \<Longrightarrow> junk AND DDFS_DEDUP_FREE = 0 \<Longrightarrow> t = ddtab (a_fs st) (img ks) \<Longrightarrow>
    (case dd_map t key of Some (b0, n) \<Rightarrow> n < 65535 | None \<Rightarrow> b \<notin> fst ` ran (dd_map t) \<and> dd_room t) \<Longrightarrow>
    ddtable_alloc K (a_fs st) junk key b ks = Inr (r, ks') \<Longrightarrow> ddfs_step K img E (ks, st) (ks', st)"
| create: "0 \<le> i_number pip \<Longrightarrow> i_number pip < fs_ipg (a_fs st) * fs_ncg (a_fs st) \<Longrightarrow>
    ffs_valloc E V fsfail pip root mode st = Inr (e, ipo, st') \<Longrightarrow> ddfs_step K img E (ks, st) (ks, st')"
| remove: "0 < ino \<Longrightarrow> ffs_vfree E ino mode st = Inr (e, st') \<Longrightarrow> ddfs_step K img E (ks, st) (ks, st')"

definition ddfs_inv :: "('k \<Rightarrow> image) \<Rightarrow> nat \<Rightarrow> 'k \<times> alloc_st \<Rightarrow> bool" where
  "ddfs_inv img devsize = (\<lambda>(ks, st). node_inv st \<and> nodes_ok (a_fs st) \<and> fs_ronly (a_fs st) = 0 \<and> goal_ok (fs_optim (a_fs st)) \<and>
     table_ok (a_fs st) devsize \<and> dd_inv (ddtab (a_fs st) (img ks)))"

text \<open>What a step on the blocks keeps.\<close>

lemma inv_frame:
  assumes "ddfs_inv img devsize (ks, st)" "goal_ok x" "alloc_inv st'" "block_frame (optim_to x st) st'" "dd_inv (ddtab (a_fs st) (img ks'))"
  shows "ddfs_inv img devsize (ks', st')"
proof -
  have i: "node_inv st" "nodes_ok (a_fs st)" "fs_ronly (a_fs st) = 0" "table_ok (a_fs st) devsize" using assms(1) by (simp_all add: ddfs_inv_def)
  have geo: "geom_eq (a_fs st') (a_fs (optim_to x st))" using assms(4) by (simp add: block_frame_def)
  note g = geom_eqD[OF geo] geom_inodes[OF geo] geom_table[OF geo]
  have "fs_ronly (a_fs st') = fs_ronly (a_fs st)" "fs_optim (a_fs st') = x" by (subst geom_form[OF geo], simp add: optim_to_def)+
  moreover have "node_inv st'" using node_frame(1)[OF _ assms(3,4)] i(1) by simp
  moreover have "nodes_ok (a_fs st')" using i(2) by (simp add: nodes_ok_def g) (simp add: optim_to_def)
  moreover have "table_ok (a_fs st') devsize" "ddtab (a_fs st') = ddtab (a_fs st)" using i(4) by (simp_all add: g) (simp_all add: optim_to_def optim_fs)
  ultimately show ?thesis using i(3) assms(2,5) by (simp add: ddfs_inv_def)
qed

text \<open>\<open>ffs_realloccg\<close> leaves a goal that the allocator knows.\<close>

lemma inv_blocks:
  assumes "ddfs_inv img devsize (ks, st)" "alloc_inv st'" "block_frame st st'" "dd_inv (ddtab (a_fs st) (img ks'))"
  shows "ddfs_inv img devsize (ks', st')"
proof -
  have "st = optim_to (fs_optim (a_fs st)) st" "goal_ok (fs_optim (a_fs st))" using assms(1) by (simp_all add: optim_to_def ddfs_inv_def)
  then show ?thesis using inv_frame[OF assms(1) _ assms(2) _ assms(4), of "fs_optim (a_fs st)"] assms(3) by simp
qed

text \<open>What a step on the inodes keeps.\<close>

lemma inv_nodes:
  assumes "ddfs_inv img devsize (ks, st)" "node_inv st'" "geom_eq (a_fs st') (a_fs st)"
  shows "ddfs_inv img devsize (ks, st')"
proof -
  note g = geom_eqD[OF assms(3)] geom_inodes[OF assms(3)] geom_table[OF assms(3)]
  have "fs_ronly (a_fs st') = fs_ronly (a_fs st)" "fs_optim (a_fs st') = fs_optim (a_fs st)" by (subst geom_form[OF assms(3)], simp)+
  then show ?thesis using assms(1,2) by (simp add: ddfs_inv_def g nodes_ok_def)
qed

locale ddfs_device = node_device E + dedup_device E K img hash devsize
  for E :: alloc_env and K :: "'k kern" and img hash devsize
begin

lemma alloc_keeps:
  assumes "ddfs_inv img devsize (ks, st)" "place_ok (a_fs st) (i_number ip) pref" "\<not> cr_nocred cred" "1 \<le> k" "k \<le> nat (fs_frag (a_fs st))"
    "ffs_alloc E fsfail cred ip pref (int k * fs_fsize (a_fs st)) flags st = Inr (e, b, ip', st')"
  shows "ddfs_inv img devsize (ks, st')"
proof -
  have i: "alloc_inv st" "dd_inv (ddtab (a_fs st) (img ks))" using assms(1) by (simp_all add: ddfs_inv_def node_inv_def)
  have "st' = st \<or> (alloc_inv st' \<and> block_frame st st')"
    using ffs_alloc_spec[OF i(1) refl refl assms(4,5,2,3), of fsfail flags, unfolded assms(6)] by (auto simp: takes_def split: if_splits)
  then show ?thesis using assms(1) inv_blocks[OF assms(1) _ _ i(2), of st'] by blast
qed

lemma free_keeps:
  assumes "ddfs_inv img devsize (ks, st)" "frags_at st b n" "ffs_blkfree K E b (int n * fs_fsize (a_fs st)) (ks, st) = Inr (ks', st')"
  shows "ddfs_inv img devsize (ks', st')"
proof -
  have i: "alloc_inv st" "table_ok (a_fs st) devsize" "dd_inv (ddtab (a_fs st) (img ks))"
    using assms(1) by (simp_all add: ddfs_inv_def node_inv_def)
  obtain kept where "if kept then st' = st else gives st b n st'" and d: "dd_inv (ddtab (a_fs st) (img ks'))"
    using ffs_blkfree_frags[OF i(1) assms(2) i(2,3)] assms(3) by auto
  then have "alloc_inv st'" "block_frame st st'" using i(1) by (auto simp: gives_def split: if_splits)
  then show ?thesis by (rule inv_blocks[OF assms(1) _ _ d])
qed

lemma share_keeps:
  assumes "ddfs_inv img devsize (ks, st)" "length key = 20" "junk AND DDFS_DEDUP_FREE = 0" "t = ddtab (a_fs st) (img ks)"
    "case dd_map t key of Some (b0, n) \<Rightarrow> n < 65535 | None \<Rightarrow> b \<notin> fst ` ran (dd_map t) \<and> dd_room t"
    "ddtable_alloc K (a_fs st) junk key b ks = Inr (r, ks')"
  shows "ddfs_inv img devsize (ks', st)"
proof -
  have i: "table_ok (a_fs st) devsize" "dd_inv t" using assms(1,4) by (simp_all add: ddfs_inv_def)
  obtain b' t' where t': "dd_acquire junk key b t = Some (b', t')" "dd_inv t'"
  proof (cases "dd_map t key")
    case None
    then show ?thesis using list_acquire_new[OF i(2) None _ _ assms(3)] assms(5) that by auto
  next
    case (Some p)
    then show ?thesis using list_acquire_hit[OF i(2)] assms(5) that by (cases p) fastforce
  qed
  have "ddtab (a_fs st) (img ks') = t'" using table.alloc_refines[OF i(1) assms(2), of junk b ks b' t'] t'(1) assms(4,6) by auto
  then show ?thesis using assms(1) t'(2) by (simp add: ddfs_inv_def)
qed

lemma vfree_keeps:
  assumes "ddfs_inv img devsize (ks, st)" "0 < ino" "ffs_vfree E ino mode st = Inr (e, st')"
  shows "ddfs_inv img devsize (ks, st')"
proof -
  let ?fs = "a_fs st"
  have i: "node_inv st" "nodes_ok ?fs" "fs_ronly ?fs = 0" using assms(1) by (simp_all add: ddfs_inv_def)
  have len: "length (a_cgs st) = nat (fs_ncg ?fs)" using i(1) by (simp add: node_inv_def alloc_inv_def)
  have n: "0 < fs_ncg ?fs" "0 < fs_ipg ?fs" using i(2) by (simp_all add: nodes_ok_def)
  have lt: "ino < fs_ipg ?fs * fs_ncg ?fs" using assms(3) by (auto simp: ffs_vfree_def ffs_freefile_def Let_def split: if_splits)
  define c j where "c = nat (ino div fs_ipg ?fs)" and "j = nat (ino mod fs_ipg ?fs)"
  have d: "0 \<le> ino div fs_ipg ?fs" "ino div fs_ipg ?fs < fs_ncg ?fs" "0 \<le> ino mod fs_ipg ?fs" "ino mod fs_ipg ?fs < fs_ipg ?fs"
    using assms(2) n div_less[OF lt n(2)] by (simp_all add: pos_imp_zdiv_nonneg_iff)
  have cj: "c < length (a_cgs st)" "int j < fs_ipg ?fs" "ino = inode_no st c j"
    using d unfolding len by (simp_all add: c_def j_def inode_no_def)
  have "node_inv st' \<and> geom_eq (a_fs st') ?fs"
    using freefile_spec[OF i(1) cj assms(2) i(3), of mode] assms(3) by (auto simp: ffs_vfree_def split: if_splits)
  then show ?thesis using inv_nodes[OF assms(1)] by blast
qed

lemma new_inode_keeps:
  assumes "ddfs_inv img devsize (ks, st)" "new_inode mode st ino st'"
  shows "ddfs_inv img devsize (ks, st')" "0 < ino"
proof -
  obtain c j where cj: "ino = inode_no st c j" "takes_inode c mode st j st'" using assms(2) by (auto simp: new_inode_def)
  then have t: "node_inv st'" "geom_eq (a_fs st') (a_fs st)" "ino \<in> free_inodes st" by (simp_all add: takes_inode_def)
  show "ddfs_inv img devsize (ks, st')" by (rule inv_nodes[OF assms(1) t(1,2)])
  have "ino \<noteq> 0" using t(3) assms(1) by (auto simp: ddfs_inv_def node_inv_def)
  moreover have "0 \<le> ino" using cj(1) assms(1) by (simp add: inode_no_def ddfs_inv_def nodes_ok_def)
  ultimately show "0 < ino" by simp
qed

lemma valloc_keeps:
  assumes "ddfs_inv img devsize (ks, st)" "0 \<le> i_number pip" "i_number pip < fs_ipg (a_fs st) * fs_ncg (a_fs st)"
    "ffs_valloc E V fsfail pip root mode st = Inr (e, ipo, st')"
  shows "ddfs_inv img devsize (ks, st')"
proof -
  have i: "node_inv st" "nodes_ok (a_fs st)" using assms(1) by (simp_all add: ddfs_inv_def)
  note t = valloc_try_spec[OF i assms(2,3), of V root mode]
  show ?thesis
  proof (cases "free_inodes st = {}")
    case True
    then have "st' = st" using t assms(4) by (simp add: ffs_valloc_def)
    then show ?thesis using assms(1) by simp
  next
    case False
    then obtain ino st1 where r: "valloc_try E V pip root mode st = Inr (ino, st1)" "ino \<noteq> 0" "new_inode mode st ino st1" using t by auto
    note k = new_inode_keeps[OF assms(1) r(3)]
    have "st' = st1 \<or> (\<exists>e'. ffs_vfree E ino mode st1 = Inr (e', st'))"
      using assms(4) r(1,2) by (auto simp: ffs_valloc_def Let_def split: sum.splits if_splits option.splits)
    then show ?thesis using k(1) vfree_keeps[OF k] by blast
  qed
qed

lemma step_keeps: "ddfs_step K img E s s' \<Longrightarrow> ddfs_inv img devsize s \<Longrightarrow> ddfs_inv img devsize s'"
proof (induction rule: ddfs_step.induct)
  case (allocate st ip pref cred k fsfail flags e b ip' st' ks)
  then show ?case using alloc_keeps by blast
next
  case (grow st b o1 n1 osize nsize ino pref bread lbprev bp fsfail cred ip flags ks e bpo ip' ks' st')
  have i: "alloc_inv st" "goal_ok (fs_optim (a_fs st))" "table_ok (a_fs st) devsize" "dd_inv (ddtab (a_fs st) (img ks))"
    using grow.prems by (simp_all add: ddfs_inv_def node_inv_def)
  from ffs_realloccg_keeps[where bread = bread and lbprev = lbprev and bp = bp, OF i(1) grow.hyps(1-9) i(2-4) grow.hyps(10)]
  show ?case using inv_frame[OF grow.prems] by blast
next
  case (free st b n ks ks' st')
  then show ?case using free_keeps by blast
next
  case (share key junk t st ks b r ks')
  then show ?case using share_keeps by blast
next
  case (create pip st V fsfail root mode e ipo st' ks)
  then show ?case using valloc_keeps by blast
next
  case (remove ino mode st e st' ks)
  then show ?case using vfree_keeps by blast
qed

lemma steps_keep: "(ddfs_step K img E)\<^sup>*\<^sup>* s s' \<Longrightarrow> ddfs_inv img devsize s \<Longrightarrow> ddfs_inv img devsize s'"
  by (induction rule: rtranclp_induct) (auto dest: step_keeps)

end

interpretation loop_sys: ddfs_device loop_env "ram_kern devsize ts" ram_img ram_lookup devsize for devsize ts
  by (intro ddfs_device.intro loop_env.node_device_axioms loop_ram.dedup_device_axioms)

end
