(* ===== verification/Ddfs_Volume.thy ===== *)
theory Ddfs_Volume
  imports Ddfs_System
begin

text \<open>
  Two small volumes on a memory disk, on which the properties of the allocator and of deduplicated writing
  are applied: one with 4096-byte blocks that are not divided, two cylinder groups and a table of
  128 entries in block 4, and one whose blocks have two fragments of 2048 bytes.
\<close>

section \<open>Checking a group by evaluation\<close>

lemma sum_upt: "(\<Sum>h<n. g h) = sum_list (map g [0..<n])"
  by (simp add: interv_sum_list_conv_sum_set_nat lessThan_atLeast0)

definition counts_check :: "nat \<Rightarrow> byte list \<Rightarrow> csum \<Rightarrow> int list \<Rightarrow> bool" where
  "counts_check f m cs frsum \<longleftrightarrow>
     (let bs = map (blk_bits f m) [0..<nblocks f m] in
      cs_nbfree cs = sum_list (map nb bs) \<and> cs_nffree cs = sum_list (map nf bs) \<and>
      list_all (\<lambda>k. frsum ! k = sum_list (map (\<lambda>b. int (runs b k)) bs)) [1..<f])"

lemma counts_check: "counts_check f m cs frsum \<Longrightarrow> counts_ok f m cs frsum"
  unfolding counts_check_def counts_ok_def Let_def sum_upt by (simp add: comp_def list_all_iff)

definition group_check :: "ddfs_fs \<Rightarrow> cg \<Rightarrow> bool" where
  "group_check fs cgp \<longleftrightarrow> length (cg_blksfree cgp) = nat (howmany (fs_fpg fs) 8) \<and> length (cg_frsum cgp) = 8 \<and>
     counts_check (nat (fs_frag fs)) (cg_blksfree cgp) (cg_cs cgp) (cg_frsum cgp) \<and>
     0 \<le> cg_rotor cgp \<and> 0 \<le> cg_frotor cgp \<and> nat (cg_frotor cgp div 8) < length (cg_blksfree cgp) \<and>
     cg_ndblk cgp \<le> fs_fpg fs \<and> list_all (\<lambda>j. isset (cg_blksfree cgp) j \<longrightarrow> int j < cg_ndblk cgp) [0..<8 * length (cg_blksfree cgp)]"

lemma group_check: "group_check fs cgp \<Longrightarrow> cg_ok fs cgp"
  using counts_check unfolding group_check_def cg_ok_def by (auto simp: free_of_def list_all_iff)

definition nodes_check :: "ddfs_fs \<Rightarrow> cg \<Rightarrow> bool" where
  "nodes_check fs cgp \<longleftrightarrow> 8 * int (length (cg_inosused cgp)) = fs_ipg fs \<and>
     cs_nifree (cg_cs cgp) = int (length (filter (\<lambda>j. \<not> isset (cg_inosused cgp) j) [0..<nat (fs_ipg fs)])) \<and>
     0 \<le> cg_irotor cgp \<and> cg_irotor cgp < fs_ipg fs \<and> cg_niblk cgp = fs_ipg fs \<and> 0 \<le> cg_initediblk cgp"

lemma nodes_check: "nodes_check fs cgp \<Longrightarrow> inodes_ok fs cgp"
proof -
  have "card (clear_below m n) = length (filter (\<lambda>j. \<not> isset m j) [0..<n])" for m n
  proof -
    have "clear_below m n = set (filter (\<lambda>j. \<not> isset m j) [0..<n])" by (auto simp: clear_below_def)
    then show ?thesis using distinct_card[of "filter (\<lambda>j. \<not> isset m j) [0..<n]"] by simp
  qed
  then show "nodes_check fs cgp \<Longrightarrow> inodes_ok fs cgp" by (simp add: nodes_check_def inodes_ok_def)
qed

section \<open>Two volumes\<close>

definition vol_cs :: "nat \<Rightarrow> csum" where
  "vol_cs c = \<lparr>cs_ndir = (if c = 0 then 1 else 0), cs_nbfree = (if c = 0 then 7 else 8), cs_nifree = (if c = 0 then 5 else 8), cs_nffree = 0\<rparr>"

definition vol_fs :: ddfs_fs where
  "vol_fs = \<lparr>fs_dedupfrags = 1, fs_ddblkno = 4, fs_sblkno = 2, fs_cblkno = 5, fs_iblkno = 6, fs_dblkno = 8,
     fs_old_cgoffset = 0, fs_old_cgmask = 0, fs_ncg = 2, fs_bsize = 4096, fs_fsize = 4096, fs_frag = 1, fs_minfree = 0,
     fs_bmask = - 4096, fs_fmask = - 4096, fs_bshift = 12, fs_fshift = 12, fs_maxcontig = 1, fs_maxbpg = 16, fs_fragshift = 0,
     fs_fsbtodb = 3, fs_sbsize = 4096, fs_nindir = 512, fs_inopb = 8, fs_optim = 0, fs_cssize = 4096, fs_cgsize = 4096, fs_ipg = 8, fs_fpg = 16,
     fs_fmod = 0, fs_clean = 1, fs_ronly = 0, fs_cgrotor = 0,
     fs_si = Some \<lparr>si_contigdirs = [0, 0], si_csp = [vol_cs 0, vol_cs 1], si_maxcluster = [0, 0], si_active = None\<rparr>,
     fs_metaspace = 0, fs_sblockactualloc = 65536, fs_sblockloc = 65536,
     fs_cstotal = \<lparr>cst_ndir = 1, cst_nbfree = 15, cst_nifree = 13, cst_nffree = 0, cst_numclusters = 0\<rparr>,
     fs_time = 0, fs_size = 32, fs_dsize = 16, fs_csaddr = 7, fs_avgfilesize = 16384, fs_avgfpdir = 64, fs_ckhash = 0, fs_metackhash = 0, fs_flags = 0,
     fs_contigsumsize = 0, fs_maxfilesize = 49152, fs_qbmask = 4095, fs_qfmask = 4095, fs_magic = FS_DDFS_MAGIC\<rparr>"

definition vol_cg :: "nat \<Rightarrow> cg" where
  "vol_cg c = \<lparr>cg_magic = CG_MAGIC, cg_cgx = int c, cg_ndblk = 16, cg_cs = vol_cs c, cg_rotor = 0, cg_frotor = 0, cg_irotor = 0,
     cg_frsum = replicate 8 0, cg_nclusterblks = 0, cg_niblk = 8, cg_initediblk = 8, cg_inosused = [if c = 0 then 7 else 0],
     cg_blksfree = [0, if c = 0 then 254 else 255], cg_clustersum = [], cg_clustersfree = []\<rparr>"

definition vol :: alloc_st where
  "vol = \<lparr>a_fs = vol_fs, a_cgs = [vol_cg 0, vol_cg 1], a_iblks = []\<rparr>"

text \<open>In the first volume block 8 is in use, in the second fragment 8, the first half of a block.\<close>

definition half_cs :: "nat \<Rightarrow> csum" where
  "half_cs c = (vol_cs c)\<lparr>cs_nbfree := (if c = 0 then 3 else 4), cs_nffree := (if c = 0 then 1 else 0)\<rparr>"

definition half_fs :: ddfs_fs where
  "half_fs = vol_fs\<lparr>fs_dedupfrags := 2, fs_fsize := 2048, fs_frag := 2, fs_fmask := - 2048, fs_fshift := 11, fs_fragshift := 1,
     fs_fsbtodb := 2, fs_qfmask := 2047, fs_cstotal := \<lparr>cst_ndir = 1, cst_nbfree = 7, cst_nifree = 13, cst_nffree = 1, cst_numclusters = 0\<rparr>,
     fs_si := Some \<lparr>si_contigdirs = [0, 0], si_csp = [half_cs 0, half_cs 1], si_maxcluster = [0, 0], si_active = None\<rparr>\<rparr>"

definition half_cg :: "nat \<Rightarrow> cg" where
  "half_cg c = (vol_cg c)\<lparr>cg_cs := half_cs c, cg_frsum := [0, if c = 0 then 1 else 0, 0, 0, 0, 0, 0, 0]\<rparr>"

definition half :: alloc_st where
  "half = \<lparr>a_fs = half_fs, a_cgs = [half_cg 0, half_cg 1], a_iblks = []\<rparr>"

lemma vol_groups: "group_check vol_fs (vol_cg 0)" "group_check vol_fs (vol_cg 1)" "nodes_check vol_fs (vol_cg 0)" "nodes_check vol_fs (vol_cg 1)"
  by code_simp+

lemma half_groups: "group_check half_fs (half_cg 0)" "group_check half_fs (half_cg 1)" "nodes_check half_fs (half_cg 0)" "nodes_check half_fs (half_cg 1)"
  by code_simp+


lemma free_of_filter: "free_of m = set (filter (isset m) [0..<8 * length m])"
  by (auto simp: free_of_def)

lemma free_maps: "free_of [0, 255] = {8..<16}" "free_of [0, 254] = {9..<16}"
proof -
  have "filter (isset [0, 255]) [0..<8 * length [0, 255 :: byte]] = [8..<16]"
    "filter (isset [0, 254]) [0..<8 * length [0, 254 :: byte]] = [9..<16]" by code_simp+
  then show "free_of [0, 255] = {8..<16}" "free_of [0, 254] = {9..<16}" unfolding free_of_filter by (simp_all only: set_upt)
qed

lemma int_image: "{b + int j | j. j \<in> {m..<n}} = {b + int m..<b + int n}"
proof -
  have "{b + int j | j. j \<in> {m..<n}} = (+) b ` int ` {m..<n}" by auto
  then show ?thesis by (simp add: image_int_atLeastLessThan add.commute)
qed

lemma free_set_two: "a_cgs st = [x, y] \<Longrightarrow> free_set st =
    {cgbase (a_fs st) 0 + int j | j. j \<in> free_of (cg_blksfree x)} \<union> {cgbase (a_fs st) 1 + int j | j. j \<in> free_of (cg_blksfree y)}"
  unfolding free_set_def by (force simp: less_Suc_eq)

lemma alloc_two:
  assumes "a_cgs st = [x, y]" "fs_ok (a_fs st)" "fs_ncg (a_fs st) = 2" "fs_si (a_fs st) = Some si" "si_csp si = [cg_cs x, cg_cs y]"
    "group_check (a_fs st) x" "group_check (a_fs st) y" "cg_magic x = CG_MAGIC" "cg_magic y = CG_MAGIC" "cg_cgx x = 0" "cg_cgx y = 1"
    "cst_nbfree (fs_cstotal (a_fs st)) = cs_nbfree (cg_cs x) + cs_nbfree (cg_cs y)"
    "cst_nffree (fs_cstotal (a_fs st)) = cs_nffree (cg_cs x) + cs_nffree (cg_cs y)" "0 \<notin> free_set st"
  shows "alloc_inv st"
  using assms group_check[OF assms(6)] group_check[OF assms(7)]
  by (simp add: alloc_inv_def group_ok_def cg_chkmagic_def less_Suc_eq all_conj_distrib)

lemma node_two:
  assumes "alloc_inv st" "a_cgs st = [x, y]" "0 < INOPB (a_fs st)" "nodes_check (a_fs st) x" "nodes_check (a_fs st) y"
    "cst_nifree (fs_cstotal (a_fs st)) = cs_nifree (cg_cs x) + cs_nifree (cg_cs y)" "isset (cg_inosused x) 0" "0 < fs_ipg (a_fs st)"
  shows "node_inv st"
proof -
  have "0 \<notin> free_inodes st"
  proof
    assume "0 \<in> free_inodes st"
    then obtain c j where c: "int c * fs_ipg (a_fs st) + int j = 0" "\<not> isset (cg_inosused (a_cgs st ! c)) j"
      unfolding free_inodes_def by auto
    have "0 \<le> int c * fs_ipg (a_fs st)" using assms(8) by simp
    then have "j = 0" "int c * fs_ipg (a_fs st) = 0" using c(1) by linarith+
    then have "c = 0" using assms(8) by simp
    then show False using c(2) \<open>j = 0\<close> assms(2,7) by simp
  qed
  moreover have "\<forall>c < length (a_cgs st). inodes_ok (a_fs st) (a_cgs st ! c)"
    using nodes_check[OF assms(4)] nodes_check[OF assms(5)] unfolding assms(2) by (auto simp: less_Suc_eq)
  ultimately show ?thesis using assms(1-3,6) by (simp add: node_inv_def)
qed

lemma vol_cgs: "a_cgs vol = [vol_cg 0, vol_cg 1]" "a_cgs half = [half_cg 0, half_cg 1]" "a_fs vol = vol_fs" "a_fs half = half_fs"
  by (simp_all add: vol_def half_def)

lemma vol_free: "free_set vol = {9..<16} \<union> {24..<32}"
proof -
  have m: "cg_blksfree (vol_cg 0) = [0, 254]" "cg_blksfree (vol_cg 1) = [0, 255]" by (simp_all add: vol_cg_def)
  show ?thesis unfolding free_set_two[OF vol_cgs(1)] m free_maps int_image by (simp add: cgbase_def vol_fs_def vol_def)
qed

lemma half_free: "free_set half = {9..<16} \<union> {24..<32}"
proof -
  have m: "cg_blksfree (half_cg 0) = [0, 254]" "cg_blksfree (half_cg 1) = [0, 255]" by (simp_all add: half_cg_def vol_cg_def)
  show ?thesis unfolding free_set_two[OF vol_cgs(2)] m free_maps int_image by (simp add: cgbase_def half_fs_def vol_fs_def half_def)
qed

lemma vol_geometry: "fs_ok vol_fs"
  by (simp add: fs_ok_def geometry_ok_def vol_fs_def)

lemma half_geometry: "fs_ok half_fs"
  by (simp add: fs_ok_def geometry_ok_def half_fs_def vol_fs_def)

lemmas vol_defs = vol_fs_def vol_cg_def vol_cs_def half_fs_def half_cg_def half_cs_def

lemma vol_inv: "alloc_inv vol" "node_inv vol"
proof -
  show a: "alloc_inv vol"
    by (rule alloc_two[OF vol_cgs(1), where si = "the (fs_si vol_fs)"])
      (simp_all add: vol_cgs vol_free vol_geometry vol_groups[unfolded One_nat_def], simp_all add: vol_defs)
  show "node_inv vol"
    by (rule node_two[OF a vol_cgs(1)]) (simp_all add: vol_cgs vol_groups[unfolded One_nat_def], simp_all add: vol_defs INOPB_def isset_def)
qed

lemma half_inv: "alloc_inv half" "node_inv half"
proof -
  show a: "alloc_inv half"
    by (rule alloc_two[OF vol_cgs(2), where si = "the (fs_si half_fs)"])
      (simp_all add: vol_cgs half_free half_geometry half_groups[unfolded One_nat_def], simp_all add: vol_defs)
  show "node_inv half"
    by (rule node_two[OF a vol_cgs(2)]) (simp_all add: vol_cgs half_groups[unfolded One_nat_def], simp_all add: vol_defs INOPB_def isset_def)
qed

lemma vol_ok: "volume_ok 20480 vol"
proof -
  have "table_ok vol_fs 20480"
    using fs_okD(1)[OF vol_geometry] by (simp add: table_ok_def) (simp add: ddbase_def ddcount_def num_blocks_def entries_per_block_def vol_fs_def sizeof_dedup_def)
  then show ?thesis using vol_inv(1) by (simp add: volume_ok_def vol_free vol_cgs) (auto simp: vol_fs_def)
qed

section \<open>The table of the first volume\<close>

text \<open>All entries free, or the contents whose key is twenty times 7 in block 8 with two references.\<close>

definition vol_entry :: ddfs_dedup where
  "vol_entry = \<lparr>dd_key = replicate 20 7, dd_flags = DDFS_DEDUP_ACTIVE, dd_ref_count = 2, dd_blockptr = 8\<rparr>"

definition vol_ram :: ram where
  "vol_ram = tiny_ram\<lparr>ram_img := poke free_image (16384 + 32 * 0) (encode_dedup vol_entry)\<rparr>"

lemma vol_counts: "ddbase vol_fs = 16384" "ddcount vol_fs = 128"
  by (simp_all add: ddbase_def ddcount_def vol_fs_def num_blocks_def entries_per_block_def sizeof_dedup_def)

lemma vol_table0: "ddtab vol_fs (ram_img tiny_ram) = replicate 128 free_entry"
proof -
  have "peek free_image (16384 + 32 * i) 32 = encode_dedup free_entry" for i
    using free_image_entry[of "512 + i"] by simp
  then show ?thesis
    by (simp add: ddtab_def records_def vol_counts tiny_ram_def decode_encode_dedup map_replicate_const)
qed

lemma vol_table: "ddtab vol_fs (ram_img vol_ram) = (replicate 128 free_entry)[0 := vol_entry]"
proof -
  have "wf_dedup vol_entry" by (simp add: wf_dedup_def vol_entry_def)
  from dedup_codec.records_put[OF _ this, of 0 128 16384 free_image] show ?thesis
    using vol_table0 by (simp add: ddtab_def vol_counts vol_ram_def tiny_ram_def)
qed

lemma vol_entries: "dd_inv (ddtab vol_fs (ram_img vol_ram))" "dd_map (ddtab vol_fs (ram_img vol_ram)) = [replicate 20 7 \<mapsto> (8, 2)]"
  "dd_inv (ddtab vol_fs (ram_img tiny_ram))" "dd_map (ddtab vol_fs (ram_img tiny_ram)) = Map.empty" "dd_room (ddtab vol_fs (ram_img tiny_ram))"
proof -
  have live: "\<not> dd_free vol_entry" by (simp add: dd_free_def vol_entry_def DDFS_DEDUP_FREE_def DDFS_DEDUP_ACTIVE_def)
  have p: "dd_inv ((replicate 128 free_entry)[0 := vol_entry])"
    "dd_map ((replicate 128 free_entry)[0 := vol_entry]) =
      (dd_map (replicate 128 free_entry))(dd_key vol_entry \<mapsto> (dd_blockptr vol_entry, unat (dd_ref_count vol_entry)))"
    by (rule dd_put[OF dd_inv_free]; use live in \<open>simp add: vol_entry_def\<close>)+
  show "dd_inv (ddtab vol_fs (ram_img vol_ram))" unfolding vol_table by (rule p(1))
  show "dd_map (ddtab vol_fs (ram_img vol_ram)) = [replicate 20 7 \<mapsto> (8, 2)]"
    unfolding vol_table p(2) by (simp add: dd_map_free vol_entry_def)
qed (simp_all add: vol_table0 dd_inv_free dd_map_free dd_room_free)

section \<open>A file\<close>

definition vol_inode :: inode where
  "vol_inode = \<lparr>i_number = 2, i_flag = 0, i_size = 0, i_gen = 1, i_flags = 0, i_mode = 0x8000,
     i_din = \<lparr>di_mode = 0x8000, di_size = 0, di_blocks = 0, di_birthtime = 0, di_birthnsec = 0, di_gen = 1, di_flags = 0, di_db = replicate 12 0,
       di_ib = replicate 3 0, di_modrev = 0, di_freelink = 0, di_ckhash = 0, di_spare = [0, 0]\<rparr>\<rparr>"

text \<open>Standing in for SHA-1 is a function that gives the first twenty bytes.\<close>

definition vol_env :: "ram file_env" where
  "vol_env = \<lparr>fe_bread = (\<lambda>lbn sz. (0, \<lparr>vb_lblkno = lbn, vb_blkno = lbn, vb_data = replicate (nat sz) 0\<rparr>)),
     fe_getblk = (\<lambda>lbn sz. Some \<lparr>vb_lblkno = lbn, vb_blkno = lbn, vb_data = replicate (nat sz) 0\<rparr>),
     fe_tail = (\<lambda>bp. []), fe_mapped = (\<lambda>bp. True), fe_resid = (\<lambda>bp. 0), fe_sha1 = (\<lambda>xs. take 20 (xs @ replicate 20 0)), fe_junk = 0, fe_rlimit = False,
     fe_fsfail = False, fe_untrusted = False, fe_indirect = (\<lambda>lbn sz flags s. Inr (EFBIG, None, s)),
     fe_truncate = (\<lambda>n s. s), fe_update = (\<lambda>s. (0, s))\<rparr>"

definition vol_file :: "ram \<Rightarrow> ram file_st" where
  "vol_file ks = \<lparr>f_ip = vol_inode, f_bufs = [], f_ks = ks, f_st = vol\<rparr>"

definition vol_cred :: cred where
  "vol_cred = \<lparr>cr_nocred = False, cr_noreserve = False\<rparr>"

lemma vol_file_ok: "file_ok vol_fs vol_inode" "new_block_env vol_env"
  by (auto simp: file_ok_def vol_inode_def vol_fs_def new_block_env_def vol_env_def)

end
