(* ===== verification/Ddfs_Hazards.thy ===== *)
theory Ddfs_Hazards
  imports Ddfs_System
begin

text \<open>
  Where deduplication and the write path do not fit together: a block is overwritten in place although other
  files share it, the lookup leaves out the head of a block that is written from its middle on, and a
  block number past the twelve direct addresses of an inode changes what follows them.
\<close>

section \<open>Overwriting\<close>

text \<open>\<open>UFS_BALLOC\<close> for a whole block that the file has already: its own block, whoever else uses it.\<close>

context dedup_device
begin

lemma balloc_old:
  assumes "volume_ok devsize st" "new_block_env F" "i < 12" "f_ip s = ip" "f_st s = st" "map_of (f_bufs s) (int i) = None"
    "di_db (i_din ip) ! i = b" "b \<noteq> 0" "(int i + 1) * 4096 \<le> i_size ip" "\<not> ba_metaonly flags" "\<not> ba_clrbuf flags"
  shows "\<exists>bp. ffs_balloc_ufs2 K E F cred (int i * 4096) 4096 flags s = Inr (0, Some bp, s) \<and>
    vb_blkno bp = fsbtodb (a_fs st) b \<and> length (vb_data bp) = 4096"
proof -
  let ?fs = "a_fs st"
  have v: "fs_bsize ?fs = 4096" using assms(1) by (simp add: volume_ok_def)
  note g = volume_geometry[OF assms(1)]
  obtain bp where bp: "fe_getblk F (int i) 4096 = Some bp" "length (vb_data bp) = 4096"
    using assms(2) unfolding new_block_env_def by (metis nat_numeral)
  define bp' where "bp' = (clrbuf False bp)\<lparr>vb_blkno := fsbtodb ?fs b\<rparr>"
  have ext: "balloc_extend K E F cred (int i) flags s = Inr (0, s)"
  proof -
    have "int i * 4096 div 4096 \<le> i_size ip div 4096" using assms(9) by (intro zdiv_mono1) auto
    then have "\<not> i_size ip div 4096 < int i" by simp
    then show ?thesis unfolding balloc_extend_def Let_def assms(4,5) g(5) by simp
  qed
  have "balloc_direct K E F cred (int i) 4096 flags s = Inr (0, Some bp', s)"
    using assms(6-11) bp(1) unfolding balloc_direct_def Let_def assms(4,5) g(8)
    by (simp add: file_getblk_def v bp'_def)
  then have "ffs_balloc_ufs2 K E F cred (int i * 4096) 4096 flags s = Inr (0, Some bp', s)"
    using ext assms(3) unfolding ffs_balloc_ufs2_def Let_def assms(5) g(5,6) by (simp add: v UFS_NDADDR_def)
  moreover have "vb_blkno bp' = fsbtodb ?fs b" "length (vb_data bp') = 4096" using bp(2) by (simp_all add: bp'_def clrbuf_def)
  ultimately show ?thesis by blast
qed

lemma write_block_over:
  assumes "fs_bsize (a_fs (f_st s)) = 4096" "\<And>x. smalllblktosize (a_fs (f_st s)) x = x * 4096" "new_block_env F"
    "(int i + 1) * 4096 \<le> i_size (f_ip s)"
    "length (vb_data bp) = 4096" "u = \<lparr>uio_offset = int i * 4096, uio_resid = 4096, uio_user = bs\<rparr>" "length bs = 4096"
  shows "\<exists>ks'. img ks' = img (f_ks s) \<and> write_block K E F (int i) 0 4096 bp u s =
    map_sum id (\<lambda>s'. (0, 4096, \<lparr>uio_offset = int i * 4096 + 4096, uio_resid = 0, uio_user = []\<rparr>,
        s'\<lparr>f_bufs := (int i, bp\<lparr>vb_data := bs\<rparr>) # f_bufs s'\<rparr>))
      (dedup_block K E F i 0 (bp\<lparr>vb_data := bs\<rparr>) (s\<lparr>f_ks := ks'\<rparr>))"
proof -
  have "uio_resid u \<le> length (uio_user u)" using assms(6,7) by simp
  from table.uiomove_in[OF this, of "f_ks s" 4096] obtain ks' where mv: "img ks' = img (f_ks s)" "k_uiomove_in K (f_ks s) 4096 u =
      (0, bs, \<lparr>uio_offset = int i * 4096 + 4096, uio_resid = 0, uio_user = []\<rparr>, ks')" using assms(6,7) by auto
  have blk: "dd_blksize (a_fs (f_st s)) (f_ip s) (int i) = 4096" using assms(1,4) by (simp add: dd_blksize_def assms(2))
  have ov: "overlay 0 bs (vb_data bp) = bs" using assms(5,7) by (simp add: overlay_def)
  have grow: "\<not> i_size (f_ip s) < uio_offset u + 4096" using assms(4,6) by simp
  have off: "uio_offset u = int i * 4096" "uio_resid u = 4096" using assms(6) by simp_all
  have mp: "\<not> \<not> fe_mapped F bp" and nr: "dd_blksize (a_fs (f_st s)) (f_ip s) (int i) - int (fe_resid F bp) = 4096"
    using assms(3) blk by (simp_all add: new_block_env_def)
  have "write_block K E F (int i) 0 4096 bp u s =
      (case dedup_block K E F i 0 (bp\<lparr>vb_data := bs\<rparr>) (s\<lparr>f_ks := ks'\<rparr>) of Inl f \<Rightarrow> Inl f
       | Inr s' \<Rightarrow> Inr (0, 4096, \<lparr>uio_offset = int i * 4096 + 4096, uio_resid = 0, uio_user = []\<rparr>,
           s'\<lparr>f_bufs := (int i, bp\<lparr>vb_data := bs\<rparr>) # f_bufs s'\<rparr>))"
    unfolding write_block_def Let_def if_not_P[OF grow] if_not_P[OF mp] file_st.surjective[symmetric]
    unfolding off nr
    using assms(5) mv(2) by (simp add: ov split: sum.split)
  then show ?thesis using mv(1) by (intro exI[of _ ks'] conjI) (auto split: sum.split)
qed

text \<open>A block that the table records under \<open>old\<close> gets a second entry.\<close>

lemma dedup_stale:
  assumes "table_ok (a_fs st) devsize" "t = ddtab (a_fs st) (img ks)" "i < 12" "f_ip s = ip" "f_ks s = ks" "f_st s = st"
    "b = word_of_int (di_db (i_din ip) ! i)" "key = block_key F off bp" "length key = 20" "dd_map t key = None"
    "dd_map t old = Some (b, n)" "dd_room t" "fe_junk F AND DDFS_DEDUP_FREE = 0"
  shows "\<exists>ks'. dedup_block K E F i off bp s = Inr (s\<lparr>f_ks := ks'\<rparr>) \<and>
    dd_map (ddtab (a_fs st) (img ks')) key = Some (b, 1) \<and> dd_map (ddtab (a_fs st) (img ks')) old = Some (b, n)"
proof -
  let ?e = "\<lparr>dd_key = key, dd_flags = fe_junk F OR DDFS_DEDUP_ACTIVE, dd_ref_count = 1, dd_blockptr = b\<rparr>"
  obtain f where f: "index_of dd_free t = Some f" using assms(12) index_of_ex unfolding dd_room_def by metis
  have miss: "index_of (dd_match (Some key) None) t = None" using assms(10) by (simp add: dd_map_def)
  obtain ks' where ks': "ddtable_alloc K (a_fs st) (fe_junk F) key b ks = Inr ((0, b), ks')" "ddtab (a_fs st) (img ks') = t[f := ?e]"
    using table.alloc_miss[OF assms(1) miss[unfolded assms(2)] f[unfolded assms(2)] assms(9)] assms(2) by blast
  have "dd_map (t[f := ?e]) key = Some (b, 1)"
    using dd_map_put_new[OF f, of ?e] miss new_entry_live[OF assms(13)] by (simp add: dd_free_def)
  moreover have "dd_map (t[f := ?e]) old = dd_map t old" using dd_map_put_other[OF f, of ?e old] assms(10,11) by fastforce
  ultimately show ?thesis using ks' assms(3-7,11) unfolding dedup_block_def Let_def block_key assms(8)[symmetric]
    by (intro exI[of _ ks'] conjI) (simp_all add: di_word_def)
qed

lemma overwrite_in_place:
  assumes vol: "volume_ok devsize st" and env: "new_block_env F" and i: "i < 12"
    and s: "f_ip s = ip" "f_st s = st" "map_of (f_bufs s) (int i) = None"
    and ip: "di_db (i_din ip) ! i = b" "b \<noteq> 0" "(int i + 1) * 4096 \<le> i_size ip"
    and t: "t = ddtab (a_fs st) (img (f_ks s))" "dd_map t old = Some (word_of_int b, n)" "dd_room t"
    and u: "u = \<lparr>uio_offset = int i * 4096, uio_resid = 4096, uio_user = bs\<rparr>" "length bs = 4096"
    and max: "int i * 4096 + 4096 \<le> fs_maxfilesize (a_fs st)" and flags: "\<not> w_ext flags" "\<not> w_sync flags" "\<not> w_append flags"
    and ap: "i_flags ip AND APPEND = 0" and key: "key = fe_sha1 F bs" "dd_map t key = None"
  shows "\<exists>s' bp. ffs_write K E F cred noretain VREG flags u s = Some (Inr (0, \<lparr>uio_offset = int i * 4096 + 4096, uio_resid = 0, uio_user = []\<rparr>, s')) \<and>
    f_st s' = st \<and> i_din (f_ip s') = i_din ip \<and> map_of (f_bufs s') (int i) = Some bp \<and> vb_blkno bp = fsbtodb (a_fs st) b \<and> vb_data bp = bs \<and>
    dd_map (ddtab (a_fs st) (img (f_ks s'))) key = Some (word_of_int b, 1) \<and> dd_map (ddtab (a_fs st) (img (f_ks s'))) old = Some (word_of_int b, n)"
proof -
  let ?fs = "a_fs st" and ?u = "\<lparr>uio_offset = int i * 4096 + 4096, uio_resid = 0, uio_user = []\<rparr>"
  define bf where "bf = \<lparr>io_ext = False, io_buflocked = False, io_sync = w_sync flags, ba_clrbuf = False, ba_metaonly = False\<rparr>"
  obtain bp where ba: "ffs_balloc_ufs2 K E F cred (int i * 4096) 4096 bf s = Inr (0, Some bp, s)"
    and bp: "vb_blkno bp = fsbtodb ?fs b" "length (vb_data bp) = 4096"
    using balloc_old[OF vol env i s ip, of bf cred] by (auto simp: bf_def)
  have v: "fs_bsize (a_fs (f_st s)) = 4096" "fs_bsize ?fs = 4096" "table_ok ?fs devsize" using vol by (simp_all add: s(2) volume_ok_def)
  have sm: "smalllblktosize (a_fs (f_st s)) x = x * 4096" for x using volume_geometry(8)[OF vol] by (simp add: s(2))
  have "(int i + 1) * 4096 \<le> i_size (f_ip s)" using ip(3) by (simp add: s(1))
  from write_block_over[OF v(1) sm env this bp(2) u] obtain ks1 where ks1: "img ks1 = img (f_ks s)"
    and wb: "write_block K E F (int i) 0 4096 bp u s = map_sum id (\<lambda>s'. (0, 4096, ?u, s'\<lparr>f_bufs := (int i, bp\<lparr>vb_data := bs\<rparr>) # f_bufs s'\<rparr>))
      (dedup_block K E F i 0 (bp\<lparr>vb_data := bs\<rparr>) (s\<lparr>f_ks := ks1\<rparr>))" by blast
  have k: "key = block_key F 0 (bp\<lparr>vb_data := bs\<rparr>)" using u(2) key(1) by (simp add: block_key_def)
  have k20: "length key = 20" using env by (simp add: key(1) new_block_env_def)
  obtain ks2 where d: "dedup_block K E F i 0 (bp\<lparr>vb_data := bs\<rparr>) (s\<lparr>f_ks := ks1\<rparr>) = Inr (s\<lparr>f_ks := ks2\<rparr>)"
    "dd_map (ddtab ?fs (img ks2)) key = Some (word_of_int b, 1)" "dd_map (ddtab ?fs (img ks2)) old = Some (word_of_int b, n)"
    using dedup_stale[OF v(3) _ i, of t ks1 "s\<lparr>f_ks := ks1\<rparr>" ip "word_of_int b" key F 0 "bp\<lparr>vb_data := bs\<rparr>" old n]
      s t ip(1) k k20 key(2) env ks1 by (auto simp: new_block_env_def)
  define s4 where "s4 = s\<lparr>f_ks := ks2, f_bufs := (int i, bp\<lparr>vb_data := bs\<rparr>) # f_bufs s, f_ip := UFS_INODE_SET_FLAG (IN_CHANGE OR IN_UPDATE) (f_ip s)\<rparr>"
  have "write_block K E F (int i) 0 4096 bp u s = Inr (0, 4096, ?u, s\<lparr>f_ks := ks2, f_bufs := (int i, bp\<lparr>vb_data := bs\<rparr>) # f_bufs s\<rparr>)"
    unfolding wb d(1) by simp
  then have "ffs_write_loop K E F cred (w_sync flags) u s = ffs_write_loop K E F cred (w_sync flags) ?u s4"
    using ba v(2) unfolding ffs_write_loop.simps[of K E F cred "w_sync flags" u s]
    by (simp add: Let_def s u(1) volume_geometry(5,6)[OF vol] bf_def[symmetric] s4_def)
  then have loop: "ffs_write_loop K E F cred (w_sync flags) u s = Some (Inr (0, ?u, s4))"
    by (simp add: ffs_write_loop.simps[of K E F cred "w_sync flags" ?u])
  define s5 where "s5 = snd (snd (write_out F noretain flags (i_size ip) 4096 (0, ?u, s4)))"
  have out: "write_out F noretain flags (i_size ip) 4096 (0, ?u, s4) = (0, ?u, s5)"
    using flags(2) by (simp add: s5_def write_out_def Let_def)
  have "ffs_write K E F cred noretain VREG flags u s = Some (Inr (0, ?u, s5))"
  proof -
    have off: "uio_offset u = int i * 4096" "uio_resid u = 4096" using u(1) by simp_all
    show ?thesis using flags(1,3) max env ap unfolding ffs_write_def Let_def s(1,2)
      by (simp add: off loop out new_block_env_def)
  qed
  moreover have "f_st s5 = st" "i_din (f_ip s5) = i_din ip" "f_ks s5 = ks2" "map_of (f_bufs s5) (int i) = Some (bp\<lparr>vb_data := bs\<rparr>)"
    using flags(2) by (simp_all add: s5_def write_out_def Let_def s4_def UFS_INODE_SET_FLAG_def s)
  ultimately show ?thesis using d(2,3) bp(1) by (intro exI[of _ s5] exI[of _ "bp\<lparr>vb_data := bs\<rparr>"]) simp
qed

section \<open>Block numbers past the direct addresses\<close>

lemma clobber:
  assumes "table_ok (a_fs st) devsize" "t = ddtab (a_fs st) (img ks)" "dd_inv t" "12 \<le> i" "i < 15" "length (di_ib (i_din ip)) = 3"
    "f_ip s = ip" "f_ks s = ks" "f_st s = st" "old = di_ib (i_din ip) ! (i - 12)" "0 \<le> old" "old < 2 ^ 63"
    "key = block_key F off bp" "length key = 20" "dd_map t key = Some (b, n)" "n < 65535" "sint b \<noteq> old"
  shows "\<exists>ks'. dedup_block K E F i off bp s = map_sum id (\<lambda>(ks, st).
      s\<lparr>f_ip := UFS_INODE_SET_FLAG (IN_MODIFIED OR IN_NEEDSYNC)
          (ip\<lparr>i_din := (i_din ip)\<lparr>di_ib := (di_ib (i_din ip))[i - 12 := sint b]\<rparr>\<rparr>), f_ks := ks, f_st := st\<rparr>)
        (ffs_blkfree K E old DDFS_BLOCKSIZE (ks', st)) \<and>
    dd_inv (ddtab (a_fs st) (img ks')) \<and> dd_map (ddtab (a_fs st) (img ks')) = (dd_map t)(key \<mapsto> (b, Suc n))"
proof -
  let ?fs = "a_fs st" and ?old = "word_of_int old :: 64 word"
  obtain t' where t': "dd_acquire (fe_junk F) key ?old t = Some (b, t')" "dd_map t' = (dd_map t)(key \<mapsto> (b, Suc n))" "dd_inv t'"
    using list_acquire_hit[OF assms(3,15,16)] by blast
  obtain ks1 where a: "ddtable_alloc K ?fs (fe_junk F) key ?old ks = Inr ((0, b), ks1)" "ddtab ?fs (img ks1) = t'"
    using table.alloc_refines[OF assms(1,14) t'(1)[unfolded assms(2)]] by blast
  have so: "sint ?old = old" by (rule sint_block[OF assms(11,12)])
  then have ne: "b \<noteq> ?old" using assms(17) by auto
  have "\<not> i < 12" using assms(4) by simp
  then show ?thesis using a t'(2,3) ne assms(5,7-10) so
    unfolding dedup_block_def Let_def block_key assms(13)[symmetric]
    by (intro exI[of _ ks1] conjI) (auto simp: di_word_def set_di_word_def split: sum.split)
qed

lemma past_inode: "18 \<le> i \<Longrightarrow> dedup_block K E F i off bp s = Inl OutOfBounds"
  by (simp add: dedup_block_def di_word_def Let_def)

end

end
