(* ===== verification/Ddfs_Read.thy ===== *)
theory Ddfs_Read
  imports Ddfs_Hazards
begin

text \<open>
  Reading a file: \<open>ffs_read\<close> (\<open>ddfs_vnops.c\<close>) with \<open>ffs_read_hole\<close>, on the state of \<open>Ddfs_Write\<close>.
  The four ways it asks for a block differ in what is read ahead, which the buffer cache sees, and give
  the same buffer. Under healthy calls it delivers the file's bytes, and after \<open>ffs_write\<close> the bytes written.
\<close>

section \<open>Definitions\<close>

definition EOVERFLOW :: errno where "EOVERFLOW = 84"
definition IN_ACCESS :: int where "IN_ACCESS = 1"

text \<open>\<open>ZERO_REGION_SIZE\<close> of the kernel on amd64.\<close>

definition ZERO_REGION_SIZE :: nat where "ZERO_REGION_SIZE = 65536"

text \<open>Of the mount: a length below which a symbolic link is short, and whether access times are kept.\<close>

record read_env =
  re_maxsymlinklen :: int
  re_atime :: bool

partial_function (option) ffs_read_hole :: "'k kern \<Rightarrow> nat \<Rightarrow> uio \<Rightarrow> 'k \<Rightarrow> (errno \<times> uio \<times> 'k) option" where
  "ffs_read_hole K xfersize u ks =
     (if 0 < xfersize then
        let tlen = min xfersize ZERO_REGION_SIZE in
        case k_uiomove_out K ks (replicate ZERO_REGION_SIZE 0) tlen u of (error, u', ks) \<Rightarrow>
          if error \<noteq> 0 then Some (error, u', ks)
          else ffs_read_hole K (xfersize - (uio_resid u - uio_resid u')) u' ks
      else Some (0, u, ks))"

definition read_size :: "ddfs_fs \<Rightarrow> inode \<Rightarrow> uio \<Rightarrow> int" where
  "read_size fs ip u = min (min (fs_bsize fs - blkoff fs (uio_offset u)) (int (uio_resid u))) (i_size ip - uio_offset u)"

partial_function (option) ffs_read_loop ::
  "'k kern \<Rightarrow> 'k file_env \<Rightarrow> read_env \<Rightarrow> uio \<Rightarrow> 'k file_st \<Rightarrow> (fault + errno \<times> uio \<times> 'k file_st) option" where
  "ffs_read_loop K F R u s =
     (if 0 < uio_resid u then
        let fs = a_fs (f_st s); ip = f_ip s in
        if i_size ip - uio_offset u \<le> 0 then Some (Inr (0, u, s))
        else
          let lbn = lblkno fs (uio_offset u); sz = dd_blksize fs ip lbn; blkoffset = blkoff fs (uio_offset u);
              xfersize = read_size fs ip u
          in case file_bread F s lbn sz of (error, bp) \<Rightarrow>
          if error = EJUSTRETURN then
            (case ffs_read_hole K (nat xfersize) u (f_ks s) of None \<Rightarrow> None
             | Some (error, u, ks) \<Rightarrow>
               if error = 0 then ffs_read_loop K F R u (s\<lparr>f_ks := ks\<rparr>) else Some (Inr (error, u, s\<lparr>f_ks := ks\<rparr>)))
          else if error \<noteq> 0 then Some (Inr (error, u, s))
          else
            let sz = sz - int (fe_resid F bp) in
            if sz < xfersize \<and> sz = 0 then Some (Inr (0, u, s))
            else
              let xfersize = min sz xfersize in
              if xfersize < 0 \<or> int (length (vb_data bp)) < blkoffset + xfersize then Some (Inl OutOfBounds)
              else case k_uiomove_out K (f_ks s) (drop (nat blkoffset) (vb_data bp)) (nat xfersize) u of (error, u, ks) \<Rightarrow>
                if error \<noteq> 0 then Some (Inr (error, u, s\<lparr>f_ks := ks\<rparr>)) else ffs_read_loop K F R u (s\<lparr>f_ks := ks\<rparr>)
      else Some (Inr (0, u, s)))"

definition ffs_read :: "'k kern \<Rightarrow> 'k file_env \<Rightarrow> read_env \<Rightarrow> file_type \<Rightarrow> bool \<Rightarrow> uio \<Rightarrow> 'k file_st \<Rightarrow>
    (fault + errno \<times> uio \<times> 'k file_st) option" where
  "ffs_read K F R vtype ext u s =
     (let ip = f_ip s; fs = a_fs (f_st s) in
      if ext then Some (Inl (Panic ''ffs_read+IO_EXT''))
      else if vtype = VLNK \<and> wrap_s 32 (i_size ip) < re_maxsymlinklen R then Some (Inl (Panic ''ffs_read: short symlink''))
      else if vtype = VOTHER then Some (Inl (Panic ''ffs_read: type''))
      else if uio_resid u = 0 then Some (Inr (0, u, s))
      else if uio_offset u < 0 then Some (Inl (Panic ''ffs_read: uio->uio_offset < 0''))
      else if uio_offset u < i_size ip \<and> fs_maxfilesize fs \<le> uio_offset u then Some (Inr (EOVERFLOW, u, s))
      else case ffs_read_loop K F R u s of None \<Rightarrow> None
      | Some (Inl f) \<Rightarrow> Some (Inl f)
      | Some (Inr (error, u', s)) \<Rightarrow>
        Some (Inr (error, u', if (error = 0 \<or> uio_resid u' \<noteq> uio_resid u) \<and> re_atime R
          then s\<lparr>f_ip := UFS_INODE_SET_FLAG IN_ACCESS (f_ip s)\<rparr> else s)))"

section \<open>What a file holds\<close>

text \<open>The bytes of a file as its buffers, or the device below them, have them.\<close>

definition file_block :: "'k file_env \<Rightarrow> 'k file_st \<Rightarrow> int \<Rightarrow> errno \<times> vbuf" where
  "file_block F s lbn = file_bread F s lbn (dd_blksize (a_fs (f_st s)) (f_ip s) lbn)"

definition file_byte :: "'k file_env \<Rightarrow> 'k file_st \<Rightarrow> int \<Rightarrow> byte" where
  "file_byte F s p = (let bs = fs_bsize (a_fs (f_st s)) in vb_data (snd (file_block F s (p div bs))) ! nat (p mod bs))"

text \<open>A block that can be read as a whole.\<close>

definition block_readable :: "'k file_env \<Rightarrow> 'k file_st \<Rightarrow> int \<Rightarrow> bool" where
  "block_readable F s lbn \<longleftrightarrow> (case file_block F s lbn of (error, bp) \<Rightarrow> error = 0 \<and> fe_resid F bp = 0 \<and>
     int (length (vb_data bp)) = dd_blksize (a_fs (f_st s)) (f_ip s) lbn)"

definition got :: "'k file_env \<Rightarrow> 'k file_st \<Rightarrow> nat \<Rightarrow> uio \<Rightarrow> uio" where
  "got F s m u = u\<lparr>uio_offset := uio_offset u + int m, uio_resid := uio_resid u - m,
     uio_user := uio_user u @ map (\<lambda>j. file_byte F s (uio_offset u + int j)) [0..<m]\<rparr>"

lemma got_got: "got F s n (got F s m u) = got F s (m + n) u"
proof -
  have "map f [0..<m] @ map (\<lambda>j. f (m + j)) [0..<n] = map f [0..<m + n]" for f :: "nat \<Rightarrow> byte"
    by (intro nth_equalityI) (auto simp: nth_append)
  from this[of "\<lambda>j. file_byte F s (uio_offset u + int j)"]
  have "map (\<lambda>j. file_byte F s (uio_offset u + int j)) [0..<m] @ map (\<lambda>j. file_byte F s (uio_offset u + int m + int j)) [0..<n] =
      map (\<lambda>j. file_byte F s (uio_offset u + int j)) [0..<m + n]" by (simp add: add.assoc)
  then show ?thesis by (simp add: got_def add.assoc)
qed

text \<open>A block is at least as long as what the file has of it.\<close>

lemma read_bounds:
  assumes "geometry_ok fs" "0 \<le> uio_offset u" "uio_offset u < i_size ip" "0 < uio_resid u"
  shows "0 < read_size fs ip u" "blkoff fs (uio_offset u) + read_size fs ip u \<le> dd_blksize fs ip (lblkno fs (uio_offset u))"
    "blkoff fs (uio_offset u) + read_size fs ip u \<le> fs_bsize fs" "0 \<le> blkoff fs (uio_offset u)"
proof -
  let ?o = "uio_offset u" and ?b = "fs_bsize fs"
  have b: "0 < ?b" using geometryD(1)[OF assms(1)] by simp
  have m: "blkoff fs ?o = ?o mod ?b" "lblkno fs ?o = ?o div ?b" using macros_div[OF assms(1)] by simp_all
  have o: "0 \<le> ?o mod ?b" "?o mod ?b < ?b" using b by simp_all
  show "0 < read_size fs ip u" "blkoff fs ?o + read_size fs ip u \<le> ?b" "0 \<le> blkoff fs ?o"
    using assms(3,4) o by (simp_all add: read_size_def m)
  have sm: "smalllblktosize fs x = x * ?b" for x using macros_div(5)[OF assms(1), of x] by (simp add: smalllblktosize_def lblktosize_def)
  show "blkoff fs ?o + read_size fs ip u \<le> dd_blksize fs ip (lblkno fs ?o)"
  proof (cases "UFS_NDADDR \<le> lblkno fs ?o \<or> smalllblktosize fs (lblkno fs ?o + 1) \<le> i_size ip")
    case True
    then show ?thesis using o by (simp add: dd_blksize_def read_size_def m)
  next
    case False
    then have lt: "i_size ip < (?o div ?b + 1) * ?b" unfolding sm m(2) by simp
    have "?o div ?b \<le> i_size ip div ?b" using assms(3) b by (intro zdiv_mono1) auto
    moreover have "i_size ip div ?b < ?o div ?b + 1" using lt b by (intro div_less) (simp_all add: mult.commute)
    ultimately have eq: "i_size ip div ?b = ?o div ?b" by simp
    have "i_size ip - ?o = i_size ip mod ?b - ?o mod ?b"
      using div_mult_mod_eq[of "i_size ip" ?b] div_mult_mod_eq[of ?o ?b] unfolding eq by linarith
    moreover have "i_size ip mod ?b \<le> fragroundup fs (blkoff fs (i_size ip))"
      using roundups(2)[OF assms(1)] roundup_bounds(1) geometryD(2)[OF assms(1)] macros_div(1)[OF assms(1)] by simp
    ultimately show ?thesis using False by (simp add: dd_blksize_def read_size_def m)
  qed
qed

section \<open>Reading delivers the file\<close>

lemma file_ks [simp]: "file_block F (s\<lparr>f_ks := ks\<rparr>) = file_block F s" "file_byte F (s\<lparr>f_ks := ks\<rparr>) = file_byte F s"
  "block_readable F (s\<lparr>f_ks := ks\<rparr>) = block_readable F s" "got F (s\<lparr>f_ks := ks\<rparr>) = got F s"
  by (intro ext, simp add: file_block_def file_byte_def block_readable_def got_def file_bread_def)+

text \<open>The part of one block that is transferred.\<close>

lemma block_part:
  assumes "0 < fs_bsize (a_fs (f_st s))" "x mod fs_bsize (a_fs (f_st s)) + int n \<le> fs_bsize (a_fs (f_st s))"
    "x mod fs_bsize (a_fs (f_st s)) + int n \<le> int (length (vb_data bp))" "snd (file_block F s (x div fs_bsize (a_fs (f_st s)))) = bp"
  shows "take n (drop (nat (x mod fs_bsize (a_fs (f_st s)))) (vb_data bp)) = map (\<lambda>j. file_byte F s (x + int j)) [0..<n]"
proof -
  let ?b = "fs_bsize (a_fs (f_st s))"
  have o: "0 \<le> x mod ?b" using assms(1) by simp
  have "file_byte F s (x + int j) = vb_data bp ! (nat (x mod ?b) + j)" if "j < n" for j
  proof -
    have r: "0 \<le> x mod ?b + int j" "x mod ?b + int j < ?b" using o that assms(2) by simp_all
    have x: "x + int j = ?b * (x div ?b) + (x mod ?b + int j)" using mult_div_mod_eq[of ?b x] by linarith
    have "(x + int j) div ?b = x div ?b" "(x + int j) mod ?b = x mod ?b + int j"
      by (rule int_div_pos_eq[OF x r], rule int_mod_pos_eq[OF x r])
    then show ?thesis using assms(4) o by (simp add: file_byte_def Let_def nat_add_distrib)
  qed
  then show ?thesis using assms(3) o by (intro nth_equalityI) auto
qed

context healthy_kernel
begin

lemma ffs_read_loop_delivers:
  assumes "geometry_ok (a_fs (f_st s))" "0 \<le> uio_offset u" "m = min (uio_resid u) (nat (i_size (f_ip s) - uio_offset u))"
    "\<And>p. uio_offset u \<le> p \<Longrightarrow> p < uio_offset u + int m \<Longrightarrow> block_readable F s (p div fs_bsize (a_fs (f_st s)))"
  shows "\<exists>ks'. ffs_read_loop K F R u s = Some (Inr (0, got F s m u, s\<lparr>f_ks := ks'\<rparr>)) \<and> img ks' = img (f_ks s)"
  using assms
proof (induction "uio_resid u" arbitrary: u s m rule: less_induct)
  case less
  let ?fs = "a_fs (f_st s)" and ?o = "uio_offset u" and ?ip = "f_ip s"
  note loop = ffs_read_loop.simps[of K F R u s]
  have g0: "got F s 0 u = u" by (simp add: got_def)
  show ?case
  proof (cases "uio_resid u = 0 \<or> i_size ?ip \<le> ?o")
    case True
    then show ?thesis using less.prems(3) by (subst loop) (auto simp: g0 intro!: exI[of _ "f_ks s"])
  next
    case False
    then have pos: "0 < uio_resid u" "?o < i_size ?ip" by auto
    define x where "x = nat (read_size ?fs ?ip u)"
    note rb = read_bounds[OF less.prems(1,2) pos(2,1)]
    have b: "0 < fs_bsize ?fs" using geometryD(1)[OF less.prems(1)] by simp
    have mac: "blkoff ?fs ?o = ?o mod fs_bsize ?fs" "lblkno ?fs ?o = ?o div fs_bsize ?fs" using macros_div[OF less.prems(1)] by simp_all
    have x: "read_size ?fs ?ip u = int x" "0 < x" "x \<le> uio_resid u" "int x \<le> i_size ?ip - ?o"
      using rb(1) by (auto simp: x_def read_size_def)
    have xm: "x \<le> m" "0 < m" using x less.prems(3) by linarith+
    have "block_readable F s (lblkno ?fs ?o)" using less.prems(4)[of ?o] xm(2) by (simp add: mac)
    then obtain bp where bp: "file_bread F s (lblkno ?fs ?o) (dd_blksize ?fs ?ip (lblkno ?fs ?o)) = (0, bp)" "fe_resid F bp = 0"
        "int (length (vb_data bp)) = dd_blksize ?fs ?ip (lblkno ?fs ?o)" "snd (file_block F s (lblkno ?fs ?o)) = bp"
      by (auto simp: block_readable_def file_block_def)
    have len: "blkoff ?fs ?o + int x \<le> int (length (vb_data bp))" using rb(2) x(1) bp(3) by simp
    then have "x \<le> length (drop (nat (blkoff ?fs ?o)) (vb_data bp))" using rb(4) by simp
    from uiomove_out[OF this, of "f_ks s" u] obtain k1 where
      mv: "k_uiomove_out K (f_ks s) (drop (nat (blkoff ?fs ?o)) (vb_data bp)) x u =
        (0, u\<lparr>uio_offset := ?o + int x, uio_resid := uio_resid u - x, uio_user := uio_user u @ take x (drop (nat (blkoff ?fs ?o)) (vb_data bp))\<rparr>, k1)"
      "img k1 = img (f_ks s)" using x(3) by (auto simp: min_absorb1)
    have part: "take x (drop (nat (blkoff ?fs ?o)) (vb_data bp)) = map (\<lambda>j. file_byte F s (?o + int j)) [0..<x]"
      using block_part[OF b, of ?o x bp F] rb(3) len bp(4) x(1) unfolding mac by simp
    have u1: "k_uiomove_out K (f_ks s) (drop (nat (blkoff ?fs ?o)) (vb_data bp)) x u = (0, got F s x u, k1)"
      unfolding mv(1) part by (simp add: got_def)
    have size: "min (dd_blksize ?fs ?ip (lblkno ?fs ?o)) (int x) = int x" using rb(2,4) x(1) by simp
    have "\<not> dd_blksize ?fs ?ip (lblkno ?fs ?o) < int x" using rb(2,4) x(1) by simp
    then have step: "ffs_read_loop K F R u s = ffs_read_loop K F R (got F s x u) (s\<lparr>f_ks := k1\<rparr>)"
      using pos bp(1,2) len by (subst loop) (simp add: Let_def x(1) EJUSTRETURN_def size u1)
    have r: "uio_resid (got F s x u) = uio_resid u - x" "uio_offset (got F s x u) = ?o + int x" by (simp_all add: got_def)
    have "\<exists>ks'. ffs_read_loop K F R (got F s x u) (s\<lparr>f_ks := k1\<rparr>) =
        Some (Inr (0, got F (s\<lparr>f_ks := k1\<rparr>) (m - x) (got F s x u), (s\<lparr>f_ks := k1\<rparr>)\<lparr>f_ks := ks'\<rparr>)) \<and> img ks' = img (f_ks (s\<lparr>f_ks := k1\<rparr>))"
    proof (rule less.hyps)
      show "uio_resid (got F s x u) < uio_resid u" using r(1) x(2,3) by simp
      show "m - x = min (uio_resid (got F s x u)) (nat (i_size (f_ip (s\<lparr>f_ks := k1\<rparr>)) - uio_offset (got F s x u)))"
        using less.prems(3) x(3,4) by (simp add: r)
      show "block_readable F (s\<lparr>f_ks := k1\<rparr>) (p div fs_bsize (a_fs (f_st (s\<lparr>f_ks := k1\<rparr>))))"
        if "uio_offset (got F s x u) \<le> p" "p < uio_offset (got F s x u) + int (m - x)" for p
        using that less.prems(4)[of p] xm(1) by (simp add: r)
    qed (use less.prems(1,2) in \<open>simp_all add: r\<close>)
    then show ?thesis using step mv(2) xm(1) by (simp add: got_got)
  qed
qed

lemma ffs_read_delivers:
  assumes "geometry_ok (a_fs (f_st s))" "0 \<le> uio_offset u" "m = min (uio_resid u) (nat (i_size (f_ip s) - uio_offset u))"
    "\<And>p. uio_offset u \<le> p \<Longrightarrow> p < uio_offset u + int m \<Longrightarrow> block_readable F s (p div fs_bsize (a_fs (f_st s)))"
    "vtype \<in> {VREG, VDIR}" "i_size (f_ip s) \<le> fs_maxfilesize (a_fs (f_st s))"
  shows "\<exists>ks'. ffs_read K F R vtype False u s = Some (Inr (0, got F s m u,
      s\<lparr>f_ip := (if 0 < uio_resid u \<and> re_atime R then UFS_INODE_SET_FLAG IN_ACCESS (f_ip s) else f_ip s), f_ks := ks'\<rparr>)) \<and>
    img ks' = img (f_ks s)"
proof (cases "uio_resid u = 0")
  case True
  then show ?thesis using assms(3,5) by (intro exI[of _ "f_ks s"]) (auto simp: ffs_read_def Let_def got_def)
next
  case False
  from ffs_read_loop_delivers[OF assms(1-4)] obtain ks' where "ffs_read_loop K F R u s = Some (Inr (0, got F s m u, s\<lparr>f_ks := ks'\<rparr>))"
    "img ks' = img (f_ks s)" by blast
  then show ?thesis using False assms(2,5,6) by (intro exI[of _ ks']) (auto simp: ffs_read_def Let_def)
qed

end

section \<open>The contents on the device\<close>

text \<open>Block \<open>b\<close> does not meet the table; and the contents the table records are those on the device: each recorded block has
  the bytes with its key.\<close>

definition outside_table :: "ddfs_fs \<Rightarrow> int \<Rightarrow> bool" where
  "outside_table fs b \<longleftrightarrow> 0 \<le> b \<and> (4096 * nat b + 4096 \<le> ddbase fs \<or> ddbase fs + 32 * ddcount fs \<le> 4096 * nat b)"

definition contents_ok :: "(byte list \<Rightarrow> byte list) \<Rightarrow> ddfs_fs \<Rightarrow> image \<Rightarrow> bool" where
  "contents_ok sha fs d \<longleftrightarrow> (\<forall>key b n. dd_map (ddtab fs d) key = Some (b, n) \<longrightarrow>
     outside_table fs (sint b) \<and> sha (peek d (4096 * nat (sint b)) 4096) = key)"

text \<open>A buffer as the buffer cache writes it to the device, and a file whose blocks are read from the device \<open>d\<close>: \<open>ufs_bmap\<close>
  finds direct block \<open>lbn\<close> in \<open>di_db\<close>.\<close>

definition disk_buf :: "vbuf \<Rightarrow> buf" where
  "disk_buf bp = \<lparr>b_blkno = nat (vb_blkno bp), b_data = vb_data bp, b_resid = 0\<rparr>"

definition device_reads :: "'k file_env \<Rightarrow> image \<Rightarrow> 'k file_st \<Rightarrow> 'k file_env" where
  "device_reads F d s = F\<lparr>fe_bread := (\<lambda>lbn sz. let b = fsbtodb (a_fs (f_st s)) (di_db (i_din (f_ip s)) ! nat lbn) in
     (0, \<lparr>vb_lblkno = lbn, vb_blkno = b, vb_data = peek d (nat (512 * b)) (nat sz)\<rparr>))\<rparr>"

lemma outside_table:
  assumes "outside_table fs b" "length bs = 4096"
  shows "ddtab fs (poke d (4096 * nat b) bs) = ddtab fs d" "table_frame fs d d' \<Longrightarrow> peek d' (4096 * nat b) 4096 = peek d (4096 * nat b) 4096"
proof -
  show "ddtab fs (poke d (4096 * nat b) bs) = ddtab fs d"
    unfolding ddtab_def by (rule records_poke_elsewhere) (use assms in \<open>auto simp: outside_table_def\<close>)
  show "table_frame fs d d' \<Longrightarrow> peek d' (4096 * nat b) 4096 = peek d (4096 * nat b) 4096"
    using assms(1) unfolding table_frame_def outside_table_def by blast
qed

text \<open>After the write of a new block and of its buffer to the device, the device has its bytes where the file points to.\<close>

lemma stored_contents:
  assumes "t = ddtab fs d0" "contents_ok sha fs d0" "\<And>w. w \<in> fst ` ran (dd_map t) \<Longrightarrow> sint w \<notin> free" "\<And>b. b \<in> free \<Longrightarrow> outside_table fs b \<and> b < 2 ^ 63"
    "key = sha bs" "length bs = 4096" "\<And>w n. dd_map t key = Some (w, n) \<Longrightarrow> peek d0 (4096 * nat (sint w)) 4096 = bs"
    "table_frame fs d0 d1" "b \<in> free" "d = poke d1 (4096 * nat b) bs"
    "case dd_map t key of Some (w, n) \<Rightarrow> b' = sint w \<and> dd_map (ddtab fs d1) = (dd_map t)(key \<mapsto> (w, Suc n))
     | None \<Rightarrow> b' = b \<and> dd_map (ddtab fs d1) = (dd_map t)(key \<mapsto> (word_of_int b', 1))"
  shows "contents_ok sha fs d" "ddtab fs d = ddtab fs d1" "peek d (4096 * nat b') 4096 = bs" "0 \<le> b'"
proof -
  have b: "outside_table fs b" "0 \<le> b" "sint (word_of_int b :: 64 word) = b"
    using assms(4)[OF assms(9)] sint_block[of b] by (auto simp: outside_table_def)
  show tab: "ddtab fs d = ddtab fs d1" unfolding assms(10) by (rule outside_table(1)[OF b(1) assms(6)])
  have new: "peek d (4096 * nat b) 4096 = bs" unfolding assms(10) by (rule peek_poke_same) (simp add: assms(6))
  have old: "outside_table fs (sint w)" "peek d (4096 * nat (sint w)) 4096 = peek d0 (4096 * nat (sint w)) 4096"
      "sha (peek d0 (4096 * nat (sint w)) 4096) = k" if "dd_map t k = Some (w, n)" for k w n
  proof -
    show o: "outside_table fs (sint w)" and "sha (peek d0 (4096 * nat (sint w)) 4096) = k"
      using assms(2) that unfolding contents_ok_def assms(1) by blast+
    have "w \<in> fst ` ran (dd_map t)" using that by (force simp: ran_def)
    then have "sint w \<noteq> b" using assms(3,9) by blast
    then have "nat (sint w) \<noteq> nat b" using o b(2) by (simp add: outside_table_def eq_nat_nat_iff)
    then have "4096 * nat (sint w) + 4096 \<le> 4096 * nat b \<or> 4096 * nat b + length bs \<le> 4096 * nat (sint w)" using assms(6) by linarith
    then have "peek d (4096 * nat (sint w)) 4096 = peek d1 (4096 * nat (sint w)) 4096" unfolding assms(10) by (rule peek_poke_disjoint)
    then show "peek d (4096 * nat (sint w)) 4096 = peek d0 (4096 * nat (sint w)) 4096" using outside_table(2)[OF o assms(6,8)] by simp
  qed
  show "peek d (4096 * nat b') 4096 = bs" "0 \<le> b'"
    using assms(7,11) new b(2) old(1,2)[of key] by (auto simp: outside_table_def split: option.splits)
  have "outside_table fs (sint w) \<and> sha (peek d (4096 * nat (sint w)) 4096) = k" if "dd_map (ddtab fs d1) k = Some (w, n)" for k w n
  proof (cases "k = key")
    case False
    then have "dd_map t k = Some (w, n)" using assms(11) that by (auto split: option.splits)
    then show ?thesis using old by simp
  next
    case True
    then show ?thesis using assms(5,7,11) that new b(1,3) old(1,2)[of key] by (auto split: option.splits)
  qed
  then show "contents_ok sha fs d" unfolding contents_ok_def tab by blast
qed

context dedup_device
begin

text \<open>The buffer cache writes the buffer of the new block.\<close>

lemma write_back:
  assumes "volume_ok devsize st" "vb_data bp = bs" "vb_blkno bp = fsbtodb (a_fs st) b" "b \<in> free_set st" "length bs = 4096"
    "4096 * nat (fs_size (a_fs st)) \<le> devsize"
  shows "\<exists>ks'. k_bwrite K ks (disk_buf bp) = (0, ks') \<and> img ks' = poke (img ks) (4096 * nat b) bs"
proof -
  note g = volume_geometry[OF assms(1)]
  have b: "0 \<le> b" "b < fs_size (a_fs st)" using free_data_block[OF assms(1,4)] by (simp_all add: data_block_def)
  have e: "512 * fsbtodb (a_fs st) b = 4096 * b" using fsbtodb_bytes[OF g(1), of b] g(3) by simp
  then have "0 \<le> fsbtodb (a_fs st) b" using b(1) by linarith
  then have at: "512 * b_blkno (disk_buf bp) = 4096 * nat b" using e b(1) unfolding disk_buf_def assms(3) by simp
  have "nat b + 1 \<le> nat (fs_size (a_fs st))" using b by linarith
  then have "512 * b_blkno (disk_buf bp) + length (b_data (disk_buf bp)) \<le> devsize"
    unfolding at using assms(2,5,6) by (simp add: disk_buf_def)
  from table.bwrite[OF this, of ks] show ?thesis unfolding at by (auto simp: disk_buf_def assms(2))
qed

lemma stored_device:
  assumes "volume_ok devsize st" "stored img t key (free_set st) i s'" "geom_eq (a_fs (f_st s')) (a_fs (rotor x st))"
    "table_frame (a_fs st) (img ks) (img (f_ks s'))" "t = ddtab (a_fs st) (img ks)" "table_sound t st" "contents_ok sha (a_fs st) (img ks)"
    "\<forall>b \<in> free_set st. outside_table (a_fs st) b" "\<forall>b n. dd_map t key = Some (b, n) \<longrightarrow> peek (img ks) (4096 * nat (sint b)) 4096 = bs"
    "key = sha bs" "length bs = 4096" "b \<in> free_set st" "dd_map t key = None \<longrightarrow> di_db (i_din (f_ip s')) ! i = b"
    "d = poke (img (f_ks s')) (4096 * nat b) bs"
  shows "contents_ok sha (a_fs (f_st s')) d" "table_sound (ddtab (a_fs (f_st s')) d) (f_st s')"
    "peek d (4096 * nat (di_db (i_din (f_ip s')) ! i)) 4096 = bs" "0 \<le> di_db (i_din (f_ip s')) ! i"
proof -
  let ?fs = "a_fs st" and ?fs' = "a_fs (f_st s')" and ?b' = "di_db (i_din (f_ip s')) ! i"
  have f: "ddtab ?fs' = ddtab ?fs" "ddbase ?fs' = ddbase ?fs" "ddcount ?fs' = ddcount ?fs"
    using geom_table[OF assms(3)] geom_table_place[OF assms(3)] by (simp_all add: rotor_def rotor_table ddbase_def ddcount_def num_blocks_def entries_per_block_def)
  then have cf: "contents_ok sha ?fs' = contents_ok sha ?fs" by (simp add: contents_ok_def outside_table_def fun_eq_iff)
  have fin: "b < 2 ^ 63" if "b \<in> free_set st" for b using assms(1) that by (force simp: volume_ok_def)
  have live: "\<And>w. w \<in> fst ` ran (dd_map t) \<Longrightarrow> sint w \<notin> free_set st" using assms(6) by (auto simp: table_sound_def)
  have ts: "table_sound (ddtab ?fs (img (f_ks s'))) (f_st s')" using assms(2) by (simp add: stored_def Let_def f)
  have "case dd_map t key of Some (w, n) \<Rightarrow> ?b' = sint w \<and> dd_map (ddtab ?fs (img (f_ks s'))) = (dd_map t)(key \<mapsto> (w, Suc n))
     | None \<Rightarrow> ?b' = b \<and> dd_map (ddtab ?fs (img (f_ks s'))) = (dd_map t)(key \<mapsto> (word_of_int ?b', 1))"
    using assms(2,13) by (auto simp: stored_def Let_def f split: option.splits prod.splits)
  note c = stored_contents[OF assms(5,7) live _ assms(10,11) assms(9)[rule_format] assms(4,12,14) this]
  show "contents_ok sha ?fs' d" "peek d (4096 * nat ?b') 4096 = bs" "0 \<le> ?b'" unfolding cf by (rule c; use assms(8) fin in blast)+
  have "ddtab ?fs d = ddtab ?fs (img (f_ks s'))" by (rule c(2)) (use assms(8) fin in blast)+
  then show "table_sound (ddtab ?fs' d) (f_st s')" using ts by (simp add: f)
qed

lemma read_device:
  assumes "volume_ok devsize (f_st s')" "i_size (f_ip s') = int i * 4096 + 4096" "peek (img ks) (4096 * nat (di_db (i_din (f_ip s')) ! i)) 4096 = bs"
    "0 \<le> di_db (i_din (f_ip s')) ! i" "length bs = 4096" "int i * 4096 + 4096 \<le> fs_maxfilesize (a_fs (f_st s'))" "new_block_env F"
    "u = \<lparr>uio_offset = int i * 4096, uio_resid = 4096, uio_user = []\<rparr>"
  shows "\<exists>u'' s''. ffs_read K (device_reads F (img ks) s') R VREG False u (s'\<lparr>f_bufs := [], f_ks := ks\<rparr>) = Some (Inr (0, u'', s'')) \<and>
    uio_user u'' = bs \<and> uio_resid u'' = 0"
proof -
  let ?F = "device_reads F (img ks) s'" and ?s = "s'\<lparr>f_bufs := [], f_ks := ks\<rparr>"
  note g = volume_geometry[OF assms(1)]
  have b: "fs_bsize (a_fs (f_st s')) = 4096" using assms(1) by (simp add: volume_ok_def)
  have d: "dd_blksize (a_fs (f_st s')) (f_ip s') (int i) = 4096" using g(8) assms(2) by (simp add: dd_blksize_def b)
  have at: "nat (512 * fsbtodb (a_fs (f_st s')) (di_db (i_din (f_ip s')) ! i)) = 4096 * nat (di_db (i_din (f_ip s')) ! i)"
    using fsbtodb_bytes[OF g(1)] g(3) assms(4) by (simp add: nat_mult_distrib)
  define bp where "bp = \<lparr>vb_lblkno = int i, vb_blkno = fsbtodb (a_fs (f_st s')) (di_db (i_din (f_ip s')) ! i), vb_data = bs\<rparr>"
  have bl: "file_block ?F ?s (int i) = (0, bp)"
    by (simp add: file_block_def file_bread_def device_reads_def d at assms(3) Let_def bp_def)
  have q: "p div 4096 = int i" if "int i * 4096 \<le> p" "p < int i * 4096 + 4096" for p using that by linarith
  have res: "fe_resid ?F bp = 0" using assms(7) by (simp add: device_reads_def new_block_env_def)
  have readable: "block_readable ?F ?s (p div fs_bsize (a_fs (f_st ?s)))" if "uio_offset u \<le> p" "p < uio_offset u + int 4096" for p
  proof -
    have "p div 4096 = int i" using q[of p] that by (simp add: assms(8))
    then show ?thesis using bl res by (simp add: block_readable_def b d) (simp add: bp_def assms(5))
  qed
  have byte: "file_byte ?F ?s (int i * 4096 + int j) = bs ! j" if "j < 4096" for j
    using q[of "int i * 4096 + int j"] that bl by (simp add: file_byte_def b) (simp add: bp_def)
  have "map (\<lambda>j. file_byte ?F ?s (int i * 4096 + int j)) [0..<4096] = bs" using assms(5) byte by (intro nth_equalityI) auto
  then have r: "uio_user (got ?F ?s 4096 u) = bs" "uio_resid (got ?F ?s 4096 u) = 0" by (simp_all add: got_def assms(8))
  have m: "4096 = min (uio_resid u) (nat (i_size (f_ip ?s) - uio_offset u))" by (simp add: assms(2,8))
  have o: "geometry_ok (a_fs (f_st ?s))" "0 \<le> uio_offset u" "VREG \<in> {VREG, VDIR}" "i_size (f_ip ?s) \<le> fs_maxfilesize (a_fs (f_st ?s))"
    using g(1) assms(2,6,8) by simp_all
  show ?thesis using table.ffs_read_delivers[OF o(1,2) m readable o(3,4), of R] r by blast
qed

end

end
