(* ===== verification/Ddfs_Claims.thy ===== *)
theory Ddfs_Claims
  imports Ddfs_Volume Ddfs_Read
begin

text \<open>
  The properties of ddfs beyond its table: deduplicated writing, the allocator with the table in front of
  it, and the invariant of the whole. The witnesses apply them on the volumes of \<open>Ddfs_Volume\<close>.
\<close>

lemmas vol_ram_device = loop_ram.dedup_device_axioms[of 20480 "\<lparr>tv_sec = 1, tv_nsec = 2\<rparr>"]
  and vol_sys_device = loop_sys.ddfs_device_axioms[of 20480 "\<lparr>tv_sec = 1, tv_nsec = 2\<rparr>"]

abbreviation vol_kern :: "ram kern" where
  "vol_kern \<equiv> ram_kern 20480 \<lparr>tv_sec = 1, tv_nsec = 2\<rparr>"

text \<open>A mount that keeps access times, and a file of 5000 bytes whose blocks have no buffer.\<close>

definition vol_reads :: read_env where
  "vol_reads = \<lparr>re_maxsymlinklen = 0, re_atime = True\<rparr>"

definition long_file :: "ram file_st" where
  "long_file = (vol_file vol_ram)\<lparr>f_ip := vol_inode\<lparr>i_size := 5000\<rparr>\<rparr>"

section \<open>Deduplicated writing\<close>

text \<open>C2: Writing a whole new block of a file deduplicates it. On a volume of 4096-byte blocks, \<open>ffs_write\<close> of
  4096 bytes at the end of a file, where block \<open>i\<close> of its direct blocks is not allocated, returns 0 and has
  consumed the request. If the table knows the key of the bytes, the file points to the block that
  has them, its count is one more, and the free blocks are the ones from before: the block allocated for the
  write has been given back. If not, the file has a block that was free, and the table has the key for it.\<close>

theorem ffs_write_dedups:
  assumes "dedup_device E K img hash devsize" "volume_ok devsize st" "file_ok (a_fs st) ip" "new_block_env F" "i < 12"
    and "f_ip s = ip" "f_st s = st" "map_of (f_bufs s) (int i) = None" "di_db (i_din ip) ! i = 0" "i_size ip = int i * 4096"
    and "\<not> cr_nocred cred" "\<not> cr_noreserve cred" "free_set st \<noteq> {}" "t = ddtab (a_fs st) (img (f_ks s))" "table_sound t st"
    and "u = \<lparr>uio_offset = int i * 4096, uio_resid = 4096, uio_user = bs\<rparr>" "length bs = 4096"
    and "int i * 4096 + 4096 \<le> fs_maxfilesize (a_fs st)" "\<not> w_ext flags" "\<not> w_sync flags"
    and "key = fe_sha1 F bs" "case dd_map t key of Some (b, n) \<Rightarrow> n < 65535 | None \<Rightarrow> dd_room t"
  shows "\<exists>s' b'. ffs_write K E F cred noretain VREG flags u s =
      Some (Inr (0, \<lparr>uio_offset = int i * 4096 + 4096, uio_resid = 0, uio_user = []\<rparr>, s')) \<and>
    i_size (f_ip s') = int i * 4096 + 4096 \<and> di_db (i_din (f_ip s')) ! i = b' \<and>
    alloc_inv (f_st s') \<and> table_sound (ddtab (a_fs (f_st s')) (img (f_ks s'))) (f_st s') \<and>
    (case dd_map t key of
       Some (b, n) \<Rightarrow> b' = sint b \<and> free_set (f_st s') = free_set st \<and>
         dd_map (ddtab (a_fs (f_st s')) (img (f_ks s'))) = (dd_map t)(key \<mapsto> (b, Suc n))
     | None \<Rightarrow> b' \<in> free_set st \<and> free_set (f_st s') = free_set st - {b'} \<and>
         dd_map (ddtab (a_fs (f_st s')) (img (f_ks s'))) = (dd_map t)(key \<mapsto> (word_of_int b', 1)))"
proof -
  obtain s' where "ffs_write K E F cred noretain VREG flags u s =
      Some (Inr (0, \<lparr>uio_offset = int i * 4096 + 4096, uio_resid = 0, uio_user = []\<rparr>, s'))" "i_size (f_ip s') = int i * 4096 + 4096"
    "stored img t key (free_set st) i s'"
    using dedup_device.write_new_block[OF assms(1-22), of noretain] by blast
  then show ?thesis by (intro exI[of _ s'] exI[of _ "di_db (i_din (f_ip s')) ! i"]) (simp add: stored_def Let_def)
qed

theorem ffs_write_dedups_witness:
  "\<exists>s'. ffs_write vol_kern loop_env vol_env vol_cred False VREG \<lparr>w_ext = False, w_append = False, w_sync = False, w_unit = False, w_datasync = False\<rparr>
      \<lparr>uio_offset = 0, uio_resid = 4096, uio_user = replicate 4096 7\<rparr> (vol_file vol_ram) =
      Some (Inr (0, \<lparr>uio_offset = 4096, uio_resid = 0, uio_user = []\<rparr>, s')) \<and>
    di_db (i_din (f_ip s')) ! 0 = 8 \<and> free_set (f_st s') = free_set vol \<and>
    dd_map (ddtab (a_fs (f_st s')) (ram_img (f_ks s'))) = [replicate 20 7 \<mapsto> (8, 3)]"
proof -
  let ?u = "\<lparr>uio_offset = 0, uio_resid = 4096, uio_user = replicate 4096 7\<rparr> :: uio"
  let ?w = "\<lparr>w_ext = False, w_append = False, w_sync = False, w_unit = False, w_datasync = False\<rparr>"
  have b: "fst ` ran (dd_map (ddtab vol_fs (ram_img vol_ram))) = {8}" by (simp add: vol_entries)
  have t: "table_sound (ddtab vol_fs (ram_img vol_ram)) vol"
    unfolding table_sound_def b by (simp add: vol_entries vol_free)
  have "\<exists>s' b'. ffs_write vol_kern loop_env vol_env vol_cred False VREG ?w ?u (vol_file vol_ram) =
      Some (Inr (0, \<lparr>uio_offset = int 0 * 4096 + 4096, uio_resid = 0, uio_user = []\<rparr>, s')) \<and>
    i_size (f_ip s') = int 0 * 4096 + 4096 \<and> di_db (i_din (f_ip s')) ! 0 = b' \<and>
    alloc_inv (f_st s') \<and> table_sound (ddtab (a_fs (f_st s')) (ram_img (f_ks s'))) (f_st s') \<and>
    (case dd_map (ddtab vol_fs (ram_img vol_ram)) (replicate 20 7) of
       Some (b, n) \<Rightarrow> b' = sint b \<and> free_set (f_st s') = free_set vol \<and>
         dd_map (ddtab (a_fs (f_st s')) (ram_img (f_ks s'))) = (dd_map (ddtab vol_fs (ram_img vol_ram)))(replicate 20 7 \<mapsto> (b, Suc n))
     | None \<Rightarrow> b' \<in> free_set vol \<and> free_set (f_st s') = free_set vol - {b'} \<and>
         dd_map (ddtab (a_fs (f_st s')) (ram_img (f_ks s'))) = (dd_map (ddtab vol_fs (ram_img vol_ram)))(replicate 20 7 \<mapsto> (word_of_int b', 1)))"
    by (rule ffs_write_dedups[OF vol_ram_device vol_ok, where ip = vol_inode and bs = "replicate 4096 7"])
      (simp_all add: vol_cgs vol_file_ok vol_entries vol_free vol_file_def t, simp_all add: vol_inode_def vol_cred_def vol_fs_def vol_env_def)
  then show ?thesis by (simp add: vol_entries) blast
qed

section \<open>Reading\<close>

text \<open>C11: \<open>ffs_read\<close> delivers the file: from any offset it returns 0 with the bytes the file holds from there on, as
  many as were asked for or as there are before the end of the file, across block boundaries and
  into a last block that is only a fragment. Of the state, the device keeps its contents, and the inode gets \<open>IN_ACCESS\<close> if something
  was asked for and the mount keeps access times; everything else is as before.\<close>

theorem ffs_read_delivers_file:
  assumes "healthy_kernel K img hash devsize" "geometry_ok (a_fs (f_st s))" "0 \<le> uio_offset u" "m = min (uio_resid u) (nat (i_size (f_ip s) - uio_offset u))"
    and "\<And>p. uio_offset u \<le> p \<Longrightarrow> p < uio_offset u + int m \<Longrightarrow> block_readable F s (p div fs_bsize (a_fs (f_st s)))"
    and "vtype \<in> {VREG, VDIR}" "i_size (f_ip s) \<le> fs_maxfilesize (a_fs (f_st s))"
  shows "\<exists>ks'. ffs_read K F R vtype False u s = Some (Inr (0, \<lparr>uio_offset = uio_offset u + int m, uio_resid = uio_resid u - m,
      uio_user = uio_user u @ map (\<lambda>j. file_byte F s (uio_offset u + int j)) [0..<m]\<rparr>,
      s\<lparr>f_ip := (if 0 < uio_resid u \<and> re_atime R then (f_ip s)\<lparr>i_flag := i_flag (f_ip s) OR IN_ACCESS\<rparr> else f_ip s), f_ks := ks'\<rparr>)) \<and>
    img ks' = img (f_ks s)"
proof -
  have "got F s m u = \<lparr>uio_offset = uio_offset u + int m, uio_resid = uio_resid u - m,
      uio_user = uio_user u @ map (\<lambda>j. file_byte F s (uio_offset u + int j)) [0..<m]\<rparr>" by (cases u) (simp add: got_def)
  then show ?thesis using healthy_kernel.ffs_read_delivers[OF assms, of R] by (simp only: UFS_INODE_SET_FLAG_def)
qed

theorem ffs_read_delivers_file_witness:
  "\<exists>s'. ffs_read vol_kern vol_env vol_reads VREG False \<lparr>uio_offset = 3000, uio_resid = 4000, uio_user = []\<rparr> long_file =
    Some (Inr (0, \<lparr>uio_offset = 5000, uio_resid = 2000, uio_user = replicate 2000 0\<rparr>, s')) \<and>
    f_ip s' = (f_ip long_file)\<lparr>i_flag := IN_ACCESS\<rparr> \<and> f_st s' = vol"
proof -
  have l: "f_st long_file = vol" "i_size (f_ip long_file) = 5000" "f_bufs long_file = []"
    by (simp_all add: long_file_def vol_file_def)
  have g: "geometry_ok (a_fs vol)" using fs_okD(1)[OF vol_geometry] by (simp add: vol_cgs)
  have b: "fs_bsize (a_fs vol) = 4096" "fs_maxfilesize (a_fs vol) = 49152" by (simp_all add: vol_cgs vol_fs_def)
  have fr: "fragroundup (a_fs vol) 904 = 4096"
    using roundups(2)[OF g, of 904] volume_geometry(3)[OF vol_ok] by (simp add: roundup_def)
  have d: "dd_blksize (a_fs vol) (f_ip long_file) 0 = 4096" "dd_blksize (a_fs vol) (f_ip long_file) 1 = 4096"
    using volume_geometry(6,8)[OF vol_ok] l(2) fr by (simp_all add: dd_blksize_def b UFS_NDADDR_def)
  have bl: "file_block vol_env long_file lbn = (0, \<lparr>vb_lblkno = lbn, vb_blkno = lbn, vb_data = replicate 4096 0\<rparr>)" if "lbn \<in> {0, 1}" for lbn
    using that d by (auto simp: file_block_def l file_bread_def vol_env_def)
  have q: "p div 4096 \<in> {0, 1}" if "3000 \<le> p" "p < 5000" for p :: int
  proof (cases "p < 4096")
    case True
    then have "p div 4096 = 0" using that by linarith
    then show ?thesis by simp
  next
    case False
    then have "p div 4096 = 1" using that by linarith
    then show ?thesis by simp
  qed
  have res: "fe_resid vol_env bp = 0" for bp by (simp add: vol_env_def)
  have r: "block_readable vol_env long_file (p div 4096)" if "3000 \<le> p" "p < 5000" for p
    using bl[OF q[OF that]] q[OF that] d res by (auto simp: block_readable_def l)
  have z: "file_byte vol_env long_file p = 0" if "3000 \<le> p" "p < 5000" for p
    using bl[OF q[OF that]] by (simp add: file_byte_def l b nat_less_iff)
  have n: "map (\<lambda>j. file_byte vol_env long_file (3000 + int j)) [0..<2000] = replicate 2000 0"
    by (intro nth_equalityI) (simp_all add: z)
  have "(2000 :: nat) = min (uio_resid \<lparr>uio_offset = 3000, uio_resid = 4000, uio_user = []\<rparr>)
      (nat (i_size (f_ip long_file) - uio_offset \<lparr>uio_offset = 3000, uio_resid = 4000, uio_user = []\<rparr>))" by (simp add: l)
  note rd = ffs_read_delivers_file[OF ram.healthy_kernel_axioms[of 20480 "\<lparr>tv_sec = 1, tv_nsec = 2\<rparr>"] _ _ this,
      where F = vol_env and vtype = VREG and R = vol_reads]
  have "i_flag (f_ip long_file) = 0" by (simp add: long_file_def vol_file_def vol_inode_def)
  then show ?thesis using rd g r n by (simp add: l b vol_reads_def) (elim exE conjE, rule exI, rule conjI, assumption, simp add: l)
qed

text \<open>C12: What \<open>ffs_write\<close> stores in a new block comes back through the device, whether the block has been deduplicated
  or not. On a volume whose table is true to the device (every recorded block holds the bytes with its key), after the write the
  buffer of the block goes to the device, to where \<open>vb_blkno\<close> says; all buffers are dropped, and the file is read
  through its block addresses from the device: \<open>ffs_read\<close> gives the bytes written. The table is still true to the device, and no
  block it records is free. The block recorded under the same SHA-1, if there is one, is taken to hold the same bytes (no
  collision), and no free block to lie in the table.\<close>

theorem ffs_write_read:
  assumes "dedup_device E K img hash devsize" "volume_ok devsize st" "file_ok (a_fs st) ip" "new_block_env F" "i < 12"
    and "f_ip s = ip" "f_st s = st" "map_of (f_bufs s) (int i) = None" "di_db (i_din ip) ! i = 0" "i_size ip = int i * 4096"
    and "\<not> cr_nocred cred" "\<not> cr_noreserve cred" "free_set st \<noteq> {}" "t = ddtab (a_fs st) (img (f_ks s))" "table_sound t st"
    and "u = \<lparr>uio_offset = int i * 4096, uio_resid = 4096, uio_user = bs\<rparr>" "length bs = 4096"
    and "int i * 4096 + 4096 \<le> fs_maxfilesize (a_fs st)" "\<not> w_ext flags" "\<not> w_sync flags"
    and "key = fe_sha1 F bs" "case dd_map t key of Some (b, n) \<Rightarrow> n < 65535 | None \<Rightarrow> dd_room t"
    and "contents_ok (fe_sha1 F) (a_fs st) (img (f_ks s))" "\<forall>b \<in> free_set st. outside_table (a_fs st) b"
    and "\<forall>b n. dd_map t key = Some (b, n) \<longrightarrow> peek (img (f_ks s)) (4096 * nat (sint b)) 4096 = bs"
    and "4096 * nat (fs_size (a_fs st)) \<le> devsize"
  shows "\<exists>u' s' bp ks u'' s''. ffs_write K E F cred noretain VREG flags u s = Some (Inr (0, u', s')) \<and>
    map_of (f_bufs s') (int i) = Some bp \<and> k_bwrite K (f_ks s') (disk_buf bp) = (0, ks) \<and>
    ffs_read K (device_reads F (img ks) s') R VREG False \<lparr>uio_offset = int i * 4096, uio_resid = 4096, uio_user = []\<rparr>
      (s'\<lparr>f_bufs := [], f_ks := ks\<rparr>) = Some (Inr (0, u'', s'')) \<and> uio_user u'' = bs \<and> uio_resid u'' = 0 \<and>
    contents_ok (fe_sha1 F) (a_fs (f_st s')) (img ks) \<and> table_sound (ddtab (a_fs (f_st s')) (img ks)) (f_st s')"
proof -
  obtain s' x b bp where w: "ffs_write K E F cred noretain VREG flags u s =
      Some (Inr (0, \<lparr>uio_offset = int i * 4096 + 4096, uio_resid = 0, uio_user = []\<rparr>, s'))"
    and s': "i_size (f_ip s') = int i * 4096 + 4096" "stored img t key (free_set st) i s'" "volume_ok devsize (f_st s')"
      "fs_maxfilesize (a_fs (f_st s')) = fs_maxfilesize (a_fs st)" "geom_eq (a_fs (f_st s')) (a_fs (rotor x st))"
      "table_frame (a_fs st) (img (f_ks s)) (img (f_ks s'))"
    and bp: "map_of (f_bufs s') (int i) = Some bp" "vb_data bp = bs" "vb_blkno bp = fsbtodb (a_fs st) b" "b \<in> free_set st"
      "dd_map t key = None \<longrightarrow> di_db (i_din (f_ip s')) ! i = b"
    using dedup_device.write_new_block[OF assms(1-22), of noretain] by (elim exE conjE) (rule that)
  obtain ks where ks: "k_bwrite K (f_ks s') (disk_buf bp) = (0, ks)" "img ks = poke (img (f_ks s')) (4096 * nat b) bs"
    using dedup_device.write_back[OF assms(1,2) bp(2,3,4) assms(17,26)] by blast
  note c = dedup_device.stored_device[OF assms(1,2) s'(2,5,6) assms(14,15,23-25,21,17) bp(4,5) ks(2)]
  have m: "int i * 4096 + 4096 \<le> fs_maxfilesize (a_fs (f_st s'))" using s'(4) assms(18) by simp
  show ?thesis using w bp(1) ks(1) c(1,2) dedup_device.read_device[OF assms(1) s'(3,1) c(3,4) assms(17) m assms(4) refl, where R = R] by blast
qed

text \<open>A device that has all blocks of the volume, with twenty-odd times 7 in block 8, as the table says.\<close>

definition true_ram :: ram where
  "true_ram = vol_ram\<lparr>ram_img := poke (ram_img vol_ram) (4096 * nat 8) (replicate 4096 7)\<rparr>"

lemma true_device: "ddtab vol_fs (ram_img true_ram) = ddtab vol_fs (ram_img vol_ram)" "contents_ok (fe_sha1 vol_env) vol_fs (ram_img true_ram)"
  "volume_ok 131072 vol" "peek (ram_img true_ram) 32768 4096 = replicate 4096 7" "b \<in> free_set vol \<Longrightarrow> outside_table vol_fs b"
proof -
  have "outside_table vol_fs 8" by (simp add: outside_table_def vol_counts)
  then show t: "ddtab vol_fs (ram_img true_ram) = ddtab vol_fs (ram_img vol_ram)"
    using outside_table(1)[of vol_fs 8 "replicate 4096 7" "ram_img vol_ram"] by (simp add: true_ram_def)
  show p: "peek (ram_img true_ram) 32768 4096 = replicate 4096 7"
    using peek_poke_same[of 4096 "replicate 4096 7" "ram_img vol_ram" 32768] by (simp add: true_ram_def)
  show "contents_ok (fe_sha1 vol_env) vol_fs (ram_img true_ram)"
    using p by (auto simp: contents_ok_def t vol_entries outside_table_def vol_counts vol_env_def)
  show "volume_ok 131072 vol" using vol_ok by (auto simp: volume_ok_def table_ok_def)
  show "b \<in> free_set vol \<Longrightarrow> outside_table vol_fs b" by (auto simp: vol_free outside_table_def vol_counts)
qed

theorem ffs_write_read_witness:
  "\<exists>u' s' bp ks u'' s''. ffs_write (ram_kern 131072 \<lparr>tv_sec = 1, tv_nsec = 2\<rparr>) loop_env vol_env vol_cred False VREG
      \<lparr>w_ext = False, w_append = False, w_sync = False, w_unit = False, w_datasync = False\<rparr>
      \<lparr>uio_offset = int 0 * 4096, uio_resid = 4096, uio_user = replicate 4096 7\<rparr> (vol_file true_ram) = Some (Inr (0, u', s')) \<and>
    map_of (f_bufs s') (int 0) = Some bp \<and> k_bwrite (ram_kern 131072 \<lparr>tv_sec = 1, tv_nsec = 2\<rparr>) (f_ks s') (disk_buf bp) = (0, ks) \<and>
    ffs_read (ram_kern 131072 \<lparr>tv_sec = 1, tv_nsec = 2\<rparr>) (device_reads vol_env (ram_img ks) s') vol_reads VREG False
      \<lparr>uio_offset = int 0 * 4096, uio_resid = 4096, uio_user = []\<rparr> (s'\<lparr>f_bufs := [], f_ks := ks\<rparr>) = Some (Inr (0, u'', s'')) \<and>
    uio_user u'' = replicate 4096 7 \<and> uio_resid u'' = 0 \<and>
    contents_ok (fe_sha1 vol_env) (a_fs (f_st s')) (ram_img ks) \<and> table_sound (ddtab (a_fs (f_st s')) (ram_img ks)) (f_st s')"
proof -
  have b: "fst ` ran (dd_map (ddtab vol_fs (ram_img vol_ram))) = {8}" by (simp add: vol_entries)
  have t: "table_sound (ddtab vol_fs (ram_img vol_ram)) vol"
    unfolding table_sound_def b by (simp add: vol_entries vol_free)
  show ?thesis
    by (rule ffs_write_read[OF loop_ram.dedup_device_axioms true_device(3), where ip = vol_inode and bs = "replicate 4096 7" and
          key = "replicate 20 7" and t = "ddtab (a_fs vol) (ram_img true_ram)"])
      (simp_all add: vol_cgs vol_file_ok true_device vol_entries vol_free vol_file_def t split: if_splits, simp_all add: vol_inode_def vol_cred_def vol_fs_def vol_env_def)
qed

section \<open>The allocator\<close>

text \<open>C4: \<open>ffs_alloc\<close> finds space whenever there is some. A request for \<open>k\<close> fragments, by a caller allowed to
  take them, succeeds exactly if \<open>k\<close> consecutive free fragments lie in one block of some group, whatever
  place is preferred; the fragments given were free, and no others change. Otherwise it fails with
  \<open>ENOSPC\<close> (\<open>ENXIO\<close> on a failed device) and changes nothing.\<close>

theorem ffs_alloc_finds:
  assumes "readable E" "alloc_inv st" "1 \<le> k" "k \<le> nat (fs_frag (a_fs st))" "place_ok (a_fs st) (i_number ip) bpref" "\<not> cr_nocred cred"
    and "sz = int k * fs_fsize (a_fs st)"
  shows "if may_use (a_fs st) cred sz \<and> (\<exists>c < nat (fs_ncg (a_fs st)). fits (nat (fs_frag (a_fs st))) (cg_blksfree (a_cgs st ! c)) k)
    then \<exists>b st'. ffs_alloc E fsfail cred ip bpref sz flags st = Inr (0, b, charge sz flags ip, st') \<and>
      alloc_inv st' \<and> 0 < b \<and> {b..<b + int k} \<subseteq> free_set st \<and> free_set st' = free_set st - {b..<b + int k}
    else ffs_alloc E fsfail cred ip bpref sz flags st = Inr (if fsfail then ENXIO else ENOSPC, 0, ip, st)"
proof -
  note spec = readable.ffs_alloc_spec[OF assms(1,2) refl assms(7,3-6), of fsfail flags, unfolded block_room_def takes_def]
  show ?thesis
  proof (cases "may_use (a_fs st) cred sz \<and> (\<exists>c < nat (fs_ncg (a_fs st)). fits (nat (fs_frag (a_fs st))) (cg_blksfree (a_cgs st ! c)) k)")
    case True
    from spec[unfolded if_P[OF this]] show ?thesis unfolding if_P[OF True] by blast
  next
    case False
    from spec[unfolded if_not_P[OF this]] show ?thesis unfolding if_not_P[OF False] .
  qed
qed

theorem ffs_alloc_finds_witness:
  "\<exists>b st'. ffs_alloc loop_env False vol_cred vol_inode 12 4096 \<lparr>io_ext = False, io_buflocked = False, io_sync = False, ba_clrbuf = False, ba_metaonly = False\<rparr> vol =
      Inr (0, b, charge 4096 \<lparr>io_ext = False, io_buflocked = False, io_sync = False, ba_clrbuf = False, ba_metaonly = False\<rparr> vol_inode, st') \<and>
    b \<in> free_set vol \<and> free_set st' = free_set vol - {b}"
proof -
  have "fits 1 (cg_blksfree (a_cgs vol ! 0)) 1" unfolding fits_def by (intro exI[of _ 9] conjI exI[of _ 0]) (simp_all add: vol_cgs vol_cg_def nblocks_def isset_def)
  then have "\<exists>c < nat (fs_ncg (a_fs vol)). fits (nat (fs_frag (a_fs vol))) (cg_blksfree (a_cgs vol ! c)) 1"
    by (intro exI[of _ 0]) (simp add: vol_cgs vol_fs_def)
  moreover have "may_use (a_fs vol) vol_cred 4096" by (simp add: may_use_def vol_cred_def)
  ultimately have c: "may_use (a_fs vol) vol_cred 4096 \<and>
      (\<exists>c < nat (fs_ncg (a_fs vol)). fits (nat (fs_frag (a_fs vol))) (cg_blksfree (a_cgs vol ! c)) 1)" by blast
  have p: "place_ok (a_fs vol) (i_number vol_inode) 12" "1 \<le> nat (fs_frag (a_fs vol))" "4096 = int 1 * fs_fsize (a_fs vol)"
    by (simp_all add: place_ok_def vol_cgs vol_fs_def vol_inode_def)
  have cr: "\<not> cr_nocred vol_cred" by (simp add: vol_cred_def)
  have one: "{b..<b + int 1} = {b}" for b :: int by auto
  from ffs_alloc_finds[OF loop_env.readable_axioms vol_inv(1) order_refl p(2,1) cr p(3), unfolded if_P[OF c] one] show ?thesis by blast
qed

text \<open>\<open>ffs_hashalloc\<close> tries every group: for an allocator that succeeds on a group exactly if the group has
  room, it finds a result whenever some group has room, and gives 0 with the state unchanged otherwise.\<close>

theorem ffs_hashalloc_complete:
  assumes "group_allocator allocator invariant room result" "invariant st" "cg < nat (fs_ncg (a_fs st))"
  shows "if \<exists>c < nat (fs_ncg (a_fs st)). room st c then \<exists>b st'. ffs_hashalloc cg pref allocator st = Inr (b, st') \<and> b \<noteq> 0 \<and> result st b st'
    else ffs_hashalloc cg pref allocator st = Inr (0, st)"
  by (rule group_allocator.hashalloc[OF assms])

theorem ffs_hashalloc_complete_witness:
  "\<exists>ino st'. ffs_hashalloc 1 8 (ffs_nodealloccg loop_env 0x8000) vol = Inr (ino, st') \<and> ino \<noteq> 0 \<and> new_inode 0x8000 vol ino st'"
proof -
  have "inode_no vol 0 3 \<in> free_inodes vol"
    by (simp add: free_inodes_def inode_no_def vol_cgs) (rule exI[of _ 0], simp add: vol_fs_def vol_cg_def isset_def)
  then have "inode_room vol 0" unfolding inode_room_def by (intro exI[of _ 3]) (simp add: vol_cgs vol_fs_def)
  then have "\<exists>c < 2. inode_room vol c" by (intro exI[of _ 0]) simp
  then show ?thesis
    using ffs_hashalloc_complete[OF loop_env.inode_allocator[of "0x8000"] vol_inv(2), where cg = 1 and pref = 8] by (simp add: vol_cgs vol_fs_def)
qed





text \<open>C19: \<open>ffs_blkfree_cg\<close> frees exactly the fragments it is told to, and stops the kernel on a double free:
  for fragments within one block of a group's data, it puts them back, and nothing else, if none of them is
  free, and panics if one is.\<close>

theorem ffs_blkfree_cg_exact:
  assumes "readable E" "alloc_inv st" "c < length (a_cgs st)" "f = nat (fs_frag (a_fs st))"
    and "bno = cgbase (a_fs st) (int c) + int (h * f + q)" "q + n \<le> f" "1 \<le> n" "int (h * f + q + n) \<le> cg_ndblk (a_cgs st ! c)"
    and "bno < fs_size (a_fs st)" "0 < bno"
  shows "if {bno..<bno + int n} \<inter> free_set st = {}
    then \<exists>st'. ffs_blkfree_cg E False bno (int n * fs_fsize (a_fs st)) st = Inr st' \<and> alloc_inv st' \<and>
      free_set st' = free_set st \<union> {bno..<bno + int n}
    else \<exists>msg. ffs_blkfree_cg E False bno (int n * fs_fsize (a_fs st)) st = Inl (Panic msg)"
proof -
  note spec = readable.blkfree_spec[OF assms(1-7) refl assms(8-10), unfolded gives_def]
  show ?thesis
  proof (cases "{bno..<bno + int n} \<inter> free_set st = {}")
    case True
    from spec[unfolded if_P[OF this]] show ?thesis unfolding if_P[OF True] by blast
  next
    case False
    from spec[unfolded if_not_P[OF this]] show ?thesis unfolding if_not_P[OF False] .
  qed
qed

theorem ffs_blkfree_cg_exact_witness:
  "(\<exists>st'. ffs_blkfree_cg loop_env False 8 4096 vol = Inr st' \<and> free_set st' = insert 8 (free_set vol)) \<and>
    (\<exists>msg. ffs_blkfree_cg loop_env False 9 4096 vol = Inl (Panic msg))"
proof -
  have g: "0 < length (a_cgs vol)" "1 = nat (fs_frag (a_fs vol))" "cgbase (a_fs vol) (int 0) = 0" "cg_ndblk (a_cgs vol ! 0) = 16"
    "fs_size (a_fs vol) = 32" "int 1 * fs_fsize (a_fs vol) = 4096"
    by (simp_all add: vol_cgs vol_fs_def vol_cg_def cgbase_def)
  have e: "8 = cgbase (a_fs vol) (int 0) + int (8 * 1 + 0)" "9 = cgbase (a_fs vol) (int 0) + int (9 * 1 + 0)" unfolding g(3) by simp_all
  have one: "{b..<b + int 1} = {b}" for b :: int by auto
  have "{8} \<inter> free_set vol = {}" "{9} \<inter> free_set vol \<noteq> {}" by (simp_all add: vol_free)
  then show ?thesis
    using ffs_blkfree_cg_exact[OF loop_env.readable_axioms vol_inv(1) g(1,2) e(1), of 1] ffs_blkfree_cg_exact[OF loop_env.readable_axioms vol_inv(1) g(1,2) e(2), of 1]
    unfolding one g(4-6) by auto
qed

text \<open>C16: A shared block is freed with its last reference only: \<open>ffs_blkfree\<close> of a block the table counts more than
  one reference to takes one off and leaves the free map as it is; with the last reference the key leaves the
  table and the fragments become free; a block the table does not know is freed at once.\<close>

theorem ffs_blkfree_last_reference:
  assumes "dedup_device E K img hash devsize" "alloc_inv st" "table_ok (a_fs st) devsize" "frags_at st b n"
    and "t = ddtab (a_fs st) (img ks)" "dd_inv t"
  shows "\<exists>ks' st'. ffs_blkfree K E b (int n * fs_fsize (a_fs st)) (ks, st) = Inr (ks', st') \<and> alloc_inv st' \<and>
    (\<forall>key m. dd_map t key = Some (word_of_int b, m) \<longrightarrow>
       dd_map (ddtab (a_fs st) (img ks')) = (dd_map t)(key := (if m = 1 then None else Some (word_of_int b, m - 1))) \<and>
       free_set st' = free_set st \<union> (if m = 1 then {b..<b + int n} else {})) \<and>
    (word_of_int b \<notin> fst ` ran (dd_map t) \<longrightarrow>
       ddtab (a_fs st) (img ks') = t \<and> free_set st' = free_set st \<union> {b..<b + int n})"
proof -
  let ?b = "word_of_int b :: 64 word"
  obtain st1 where free: "ffs_blkfree_cg E False b (int n * fs_fsize (a_fs st)) st = Inr st1" "alloc_inv st1"
    "free_set st1 = free_set st \<union> {b..<b + int n}"
    using readable.blkfree_frags[OF dedup_device.axioms(1)[OF assms(1)] assms(2,4)] by (auto simp: gives_def)
  note spec = dedup_device.ffs_blkfree_spec[OF assms(1,3) assms(6)[unfolded assms(5)] refl, where bno = b and sz = "int n * fs_fsize (a_fs st)",
      folded assms(5)]
  show ?thesis
  proof (cases "?b \<in> fst ` ran (dd_map t)")
    case False
    then have "dd_map t key \<noteq> Some (?b, m)" for key m by (force simp: ran_def)
    then show ?thesis using spec(3)[OF False] free by auto
  next
    case True
    then obtain key m where m: "dd_map t key = Some (?b, m)" by (auto simp: ran_def)
    have uniq: "dd_map t key' = Some (?b, m') \<Longrightarrow> key' = key \<and> m' = m" for key' m'
      using m dd_invD(2)[OF assms(6)] unfolding dd_map_Some[OF assms(6)] by metis
    have "0 < m" by (rule list_count_pos[OF assms(6) m])
    then consider "m = 1" | "1 < m" by linarith
    then show ?thesis
    proof cases
      case 1
      obtain ks' where k: "ffs_blkfree K E b (int n * fs_fsize (a_fs st)) (ks, st) = Inr (ks', st1)"
        "dd_map (ddtab (a_fs st) (img ks')) = (dd_map t)(key := None)"
        using spec(2)[OF m[unfolded 1]] free(1) by auto
      have "key' = key \<and> m' = 1" if "dd_map t key' = Some (?b, m')" for key' m' using uniq[OF that] 1 by simp
      then show ?thesis using k free(2,3) True by (intro exI[of _ ks'] exI[of _ st1]) auto
    next
      case 2
      obtain ks' where k: "ffs_blkfree K E b (int n * fs_fsize (a_fs st)) (ks, st) = Inr (ks', st)"
        "dd_map (ddtab (a_fs st) (img ks')) = (dd_map t)(key \<mapsto> (?b, m - 1))"
        using spec(1)[OF m 2] by blast
      have "key' = key \<and> m' = m \<and> m' \<noteq> 1" if "dd_map t key' = Some (?b, m')" for key' m' using uniq[OF that] 2 by simp
      then show ?thesis using k assms(2) True by (intro exI[of _ ks'] exI[of _ st]) auto
    qed
  qed
qed

lemma vol_frags: "frags_at vol 8 1"
proof -
  have "nat (fs_frag (a_fs vol)) = 1" "fs_size (a_fs vol) = 32" "cgbase (a_fs vol) (int 0) = 0" "cg_ndblk (a_cgs vol ! 0) = 16" "length (a_cgs vol) = 2"
    by (simp_all add: vol_cgs vol_fs_def vol_cg_def cgbase_def)
  then show ?thesis unfolding frags_at_def vol_free
    by (intro conjI exI[of _ 0] exI[of _ 8]) auto
qed

theorem ffs_blkfree_last_reference_witness:
  "\<exists>ks' st'. ffs_blkfree vol_kern loop_env 8 4096 (vol_ram, vol) = Inr (ks', st') \<and> free_set st' = free_set vol \<and>
    dd_map (ddtab (a_fs vol) (ram_img ks')) = [replicate 20 7 \<mapsto> (8, 1)]"
proof -
  have t: "table_ok (a_fs vol) 20480" using vol_ok by (simp add: volume_ok_def)
  have v: "a_fs vol = vol_fs" "int 1 * fs_fsize vol_fs = 4096" by (simp_all add: vol_cgs vol_fs_def)
  have w: "word_of_int 8 = (8 :: 64 word)" by simp
  have two: "[replicate 20 (7 :: byte) \<mapsto> (8 :: 64 word, 2 :: nat)] (replicate 20 7) = Some (8, 2)" by simp
  from ffs_blkfree_last_reference[OF vol_ram_device vol_inv(1) t vol_frags refl, of vol_ram, unfolded v vol_entries w] vol_entries(1) two
  obtain ks' st' where "ffs_blkfree vol_kern loop_env 8 4096 (vol_ram, vol) = Inr (ks', st')"
    "dd_map (ddtab vol_fs (ram_img ks')) = [replicate 20 7 \<mapsto> (8, 2)](replicate 20 7 := (if 2 = (1 :: nat) then None else Some (8, 2 - 1)))"
    "free_set st' = free_set vol \<union> (if 2 = (1 :: nat) then {8..<8 + int 1} else {})" by blast
  then show ?thesis unfolding v by simp
qed

lemma data_block_frags:
  assumes "data_block st b" "fs_frag (a_fs st) = 1" "b \<notin> free_set st"
  shows "frags_at st b 1"
proof -
  have f: "nat (fs_frag (a_fs st)) = 1" using assms(2) by simp
  have one: "{b..<b + int 1} = {b}" by auto
  obtain c j where c: "c < length (a_cgs st)" "b = cgbase (a_fs st) (int c) + int j" "int j < cg_ndblk (a_cgs st ! c)"
    using assms(1) by (auto simp: data_block_def)
  have "int (j * 1 + 0 + 1) \<le> cg_ndblk (a_cgs st ! c)" "b = cgbase (a_fs st) (int c) + int (j * 1 + 0)" using c by simp_all
  then have "\<exists>c h q. c < length (a_cgs st) \<and> b = cgbase (a_fs st) (int c) + int (h * 1 + q) \<and> q + 1 \<le> 1 \<and> int (h * 1 + q + 1) \<le> cg_ndblk (a_cgs st ! c)"
    using c(1) by (intro exI[of _ c] exI[of _ j] exI[of _ 0] conjI) simp_all
  then show ?thesis using assms(1,3) unfolding frags_at_def f one data_block_def by simp
qed

text \<open>Allocating a block and freeing it again restores the set of free blocks: on a volume of undivided
  blocks \<open>ffs_alloc\<close> of one block followed by \<open>ffs_blkfree\<close> of the block it gave, which the table does not
  know, leaves the free blocks, the totals and the table as they were.\<close>

theorem alloc_free_restores:
  assumes "dedup_device E K img hash devsize" "volume_ok devsize st" "file_ok (a_fs st) ip" "0 \<le> bpref" "\<not> cr_nocred cred" "\<not> cr_noreserve cred"
    and "t = ddtab (a_fs st) (img ks)" "table_sound t st" "free_set st \<noteq> {}"
  shows "\<exists>b st1 ks' st2. ffs_alloc E fsfail cred ip bpref 4096 flags st = Inr (0, b, charge 4096 flags ip, st1) \<and>
    free_set st1 = free_set st - {b} \<and> b \<in> free_set st \<and>
    (word_of_int b \<notin> fst ` ran (dd_map t) \<longrightarrow>
      ffs_blkfree K E b 4096 (ks, st1) = Inr (ks', st2) \<and> free_set st2 = free_set st \<and>
      freespace (a_fs st2) 0 = freespace (a_fs st) 0 \<and> ddtab (a_fs st2) (img ks') = t)"
proof -
  have rot: "rotor (fs_cgrotor (a_fs st)) st = st" by (simp add: rotor_def)
  obtain b st1 where b: "ffs_alloc E fsfail cred ip bpref 4096 flags st = Inr (0, b, charge 4096 flags ip, st1)" "takes st b 1 st1"
    "b \<in> free_set st" "free_set st1 = free_set st - {b}" "volume_ok devsize st1"
    using dedup_device.alloc_new[OF assms(1-6,9), of fsfail flags "fs_cgrotor (a_fs st)"] unfolding rot by blast
  have fr: "block_frame st st1" "geom_eq (a_fs st1) (a_fs st)" using b(2) by (simp_all add: takes_def block_frame_def)
  have d: "data_block st1 b" by (rule frame_data_block[OF fr(1) free_data_block[OF assms(2) b(3)]])
  have v: "alloc_inv st1" "fs_frag (a_fs st1) = 1" "table_ok (a_fs st1) devsize" "alloc_inv st" using b(5) assms(2) by (simp_all add: volume_ok_def)
  have at: "frags_at st1 b 1" using data_block_frags[OF d v(2)] b(4) by simp
  have tab: "ddtab (a_fs st1) = ddtab (a_fs st)" "fs_fsize (a_fs st1) = 4096"
    using geom_table[OF fr(2)] volume_geometry(3)[OF b(5)] by simp_all
  have inv: "dd_inv (ddtab (a_fs st1) (img ks))" using assms(7,8) by (simp add: tab table_sound_def)
  obtain st2 where st2: "ffs_blkfree_cg E False b 4096 st1 = Inr st2" "gives st1 b 1 st2"
    using readable.blkfree_frags[OF dedup_device.axioms(1)[OF assms(1)] v(1) at] tab(2) by auto
  have "{b..<b + int 1} = {b}" by auto
  then have fs2: "free_set st2 = free_set st" "alloc_inv st2" using st2(2) b(3,4) unfolding gives_def by auto
  then have space: "freespace (a_fs st2) 0 = freespace (a_fs st) 0" using free_set_card[of st2] free_set_card[of st] v(4) by simp
  have tab2: "ddtab (a_fs st2) = ddtab (a_fs st)" using st2(2) geom_table tab(1) unfolding gives_def block_frame_def by metis
  show ?thesis
  proof (cases "word_of_int b \<in> fst ` ran (dd_map t)")
    case True
    then show ?thesis using b(1,3,4) by blast
  next
    case False
    then obtain ks' where "ffs_blkfree K E b 4096 (ks, st1) = Inr (ks', st2)" "ddtab (a_fs st1) (img ks') = ddtab (a_fs st1) (img ks)"
      using dedup_device.ffs_blkfree_spec(3)[OF assms(1) v(3) inv refl, of b 4096] st2(1) assms(7) unfolding tab(1) by auto
    then show ?thesis using b(1,3,4) fs2(1) space tab2 tab(1) assms(7)
      by (intro exI[of _ b] exI[of _ st1] exI[of _ ks'] exI[of _ st2]) simp
  qed
qed

theorem alloc_free_restores_witness:
  "\<exists>b st1 ks' st2. ffs_alloc loop_env False vol_cred vol_inode 0 4096 \<lparr>io_ext = False, io_buflocked = False, io_sync = False, ba_clrbuf = False, ba_metaonly = False\<rparr> vol =
      Inr (0, b, charge 4096 \<lparr>io_ext = False, io_buflocked = False, io_sync = False, ba_clrbuf = False, ba_metaonly = False\<rparr> vol_inode, st1) \<and>
    free_set st1 = free_set vol - {b} \<and> ffs_blkfree vol_kern loop_env b 4096 (tiny_ram, st1) = Inr (ks', st2) \<and> free_set st2 = free_set vol"
proof -
  have t: "table_sound (ddtab vol_fs (ram_img tiny_ram)) vol" by (simp add: table_sound_def vol_entries)
  have f: "file_ok (a_fs vol) vol_inode" "\<not> cr_nocred vol_cred" "\<not> cr_noreserve vol_cred" "free_set vol \<noteq> {}"
    by (simp_all add: vol_cgs vol_file_ok vol_cred_def vol_free)
  from alloc_free_restores[OF vol_ram_device vol_ok f(1) order_refl f(2,3) _ t f(4), of tiny_ram] show ?thesis
    unfolding vol_cgs vol_entries by fastforce
qed

text \<open>C17: \<open>ffs_realloccg\<close> grows the last fragments of a file from \<open>o1\<close> to \<open>n1\<close>: in place, taking exactly the
  fragments that follow, whenever these are free and in the same block; otherwise, if some group has room for
  what the optimisation goal asks for, into fragments that were free, and the old ones become free, unless
  the table still counts more than one reference to them. The buffer keeps its data, cleared beyond the old
  size, and has the address of the new place.\<close>

theorem ffs_realloccg_grows:
  assumes "dedup_device E K img hash devsize" "alloc_inv st" "frags_at st b o1" "o1 < n1" "n1 \<le> nat (fs_frag (a_fs st))"
    and "osize = int o1 * fs_fsize (a_fs st)" "nsize = int n1 * fs_fsize (a_fs st)"
    and "place_ok (a_fs st) ino pref" "may_use (a_fs st) cred (nsize - osize)" "\<not> cr_nocred cred"
    and "bread lbprev osize = (0, bp)" "vb_blkno bp = fsbtodb (a_fs st) b" "vb_blkno bp \<noteq> vb_lblkno bp"
    and "goal_ok (fs_optim (a_fs st))" "table_ok (a_fs st) devsize" "t = ddtab (a_fs st) (img ks)" "dd_inv t"
    and "in_place \<longleftrightarrow> fragnum (a_fs st) b + int n1 \<le> fs_frag (a_fs st) \<and> {b + int o1..<b + int n1} \<subseteq> free_set st"
    and "in_place \<or> (\<exists>c < nat (fs_ncg (a_fs st)). fits (nat (fs_frag (a_fs st))) (cg_blksfree (a_cgs st ! c)) (asked st n1))"
  shows "\<exists>bp' b' ks' st'. ffs_realloccg K E fsfail cred bread ip lbprev b pref osize nsize flags (ks, st) =
      Inr (0, Some bp', charge (nsize - osize) flags ip, ks', st') \<and> alloc_inv st' \<and>
    vb_blkno bp' = fsbtodb (a_fs st) b' \<and> vb_data bp' = take (nat osize) (vb_data bp) @ replicate (nat (nsize - osize)) 0 \<and>
    (if in_place then b' = b \<and> free_set st' = free_set st - {b + int o1..<b + int n1}
     else {b'..<b' + int n1} \<subseteq> free_set st \<and> free_set st' = free_set st - {b'..<b' + int n1} \<union>
       (if \<exists>key m. dd_map t key = Some (word_of_int b, m) \<and> 1 < m then {} else {b..<b + int o1}))"
proof (cases in_place)
  case True
  note spec = dedup_device.ffs_realloccg_spec(1)[where bread = bread and lbprev = lbprev and fsfail = fsfail and ip = ip and flags = flags,
      OF assms(1-17) True[unfolded assms(18)]]
  then obtain st' where st': "ffs_realloccg K E fsfail cred bread ip lbprev b pref osize nsize flags (ks, st) =
      Inr (0, Some (grow_buf osize nsize bp), charge (nsize - osize) flags ip, ks, st')" "takes st (b + int o1) (n1 - o1) st'" by blast
  have "b + int o1 + int (n1 - o1) = b + int n1" using assms(4) by simp
  then have "alloc_inv st'" "free_set st' = free_set st - {b + int o1..<b + int n1}" using st'(2) by (simp_all add: takes_def)
  then show ?thesis using True st'(1) assms(12)
    by (intro exI[of _ "grow_buf osize nsize bp"] exI[of _ b] exI[of _ ks] exI[of _ st']) (simp add: grow_buf_def)
next
  case False
  then have room: "\<exists>c < nat (fs_ncg (a_fs st)). block_room (asked st n1) st c" using assms(19) by (simp add: block_room_def)
  note spec = dedup_device.ffs_realloccg_spec(2)[where bread = bread and lbprev = lbprev and fsfail = fsfail and ip = ip and flags = flags,
      OF assms(1-17) False[unfolded assms(18)] room]
  then obtain b' kept ks' st' where st': "ffs_realloccg K E fsfail cred bread ip lbprev b pref osize nsize flags (ks, st) =
      Inr (0, Some (grow_buf osize nsize (bp\<lparr>vb_blkno := fsbtodb (a_fs st) b'\<rparr>)), charge (nsize - osize) flags ip, ks', st')"
    "moved kept st b o1 b' n1 st'" "kept \<longleftrightarrow> (\<exists>key m. dd_map t key = Some (word_of_int b, m) \<and> 1 < m)" by blast
  then show ?thesis using False unfolding moved_def st'(3)[symmetric]
    by (intro exI[of _ "grow_buf osize nsize (bp\<lparr>vb_blkno := fsbtodb (a_fs st) b'\<rparr>)"] exI[of _ b'] exI[of _ ks'] exI[of _ st'])
      (simp add: grow_buf_def)
qed

lemma half_frags: "frags_at half 8 1"
proof -
  have g: "nat (fs_frag (a_fs half)) = 2" "fs_size (a_fs half) = 32" "cgbase (a_fs half) (int 0) = 0" "cg_ndblk (a_cgs half ! 0) = 16" "length (a_cgs half) = 2"
    by (simp_all add: vol_cgs half_fs_def vol_fs_def half_cg_def vol_cg_def cgbase_def)
  show ?thesis unfolding frags_at_def half_free g
    by (intro conjI exI[of _ 0] exI[of _ 4]) (use g in auto)
qed

lemma half_table: "dd_inv (ddtab (a_fs half) (ram_img tiny_ram))"
proof -
  have d: "ddbase half_fs = 8192" "ddcount half_fs = 128"
    by (simp_all add: ddbase_def ddcount_def half_fs_def vol_fs_def num_blocks_def entries_per_block_def sizeof_dedup_def)
  have "peek free_image (8192 + 32 * i) 32 = encode_dedup free_entry" for i using free_image_entry[of "256 + i"] by simp
  then have "ddtab half_fs (ram_img tiny_ram) = replicate 128 free_entry"
    by (simp add: ddtab_def records_def d tiny_ram_def decode_encode_dedup map_replicate_const)
  then show ?thesis by (simp add: vol_cgs dd_inv_free)
qed

theorem ffs_realloccg_grows_witness:
  "\<exists>bp' ks' st'. ffs_realloccg vol_kern loop_env False vol_cred (\<lambda>lbn sz. (0, \<lparr>vb_lblkno = 0, vb_blkno = 32, vb_data = replicate 2048 1\<rparr>)) vol_inode
      0 8 0 2048 4096 \<lparr>io_ext = False, io_buflocked = False, io_sync = False, ba_clrbuf = False, ba_metaonly = False\<rparr> (tiny_ram, half) =
    Inr (0, Some bp', charge 2048 \<lparr>io_ext = False, io_buflocked = False, io_sync = False, ba_clrbuf = False, ba_metaonly = False\<rparr> vol_inode, ks', st') \<and>
    vb_blkno bp' = 32 \<and> vb_data bp' = replicate 2048 1 @ replicate 2048 0 \<and> free_set st' = free_set half - {9}"
proof -
  have g: "2 \<le> nat (fs_frag (a_fs half))" "2048 = int 1 * fs_fsize (a_fs half)" "4096 = int 2 * fs_fsize (a_fs half)" "place_ok (a_fs half) 2 0"
    "goal_ok (fs_optim (a_fs half))" "fsbtodb (a_fs half) 8 = 32" "fragnum (a_fs half) 8 = 0" "fs_frag (a_fs half) = 2"
    by (simp_all add: vol_cgs half_fs_def vol_fs_def place_ok_def goal_ok_def FS_OPTTIME_def fsbtodb_def fragnum_def)
  have t: "table_ok (a_fs half) 20480" using fs_okD(1)[OF half_geometry]
    by (simp add: table_ok_def vol_cgs) (simp add: ddbase_def ddcount_def num_blocks_def entries_per_block_def half_fs_def vol_fs_def sizeof_dedup_def)
  have c: "may_use (a_fs half) vol_cred (4096 - 2048)" "\<not> cr_nocred vol_cred" by (simp_all add: may_use_def vol_cred_def)
  have inp: "True \<longleftrightarrow> fragnum (a_fs half) 8 + int 2 \<le> fs_frag (a_fs half) \<and> {8 + int 1..<8 + int 2} \<subseteq> free_set half"
    by (auto simp: g half_free)
  have i: "i_number vol_inode = 2" by (simp add: vol_inode_def)
  have e: "{8 + int 1..<8 + int 2} = {9}" by auto
  from ffs_realloccg_grows[OF vol_ram_device half_inv(1) half_frags _ g(1-4) c _ _ _ g(5) t refl half_table inp,
      where bread = "\<lambda>lbn sz. (0, \<lparr>vb_lblkno = 0, vb_blkno = 32, vb_data = replicate 2048 1\<rparr>)" and lbprev = 0 and
        bp = "\<lparr>vb_lblkno = 0, vb_blkno = 32, vb_data = replicate 2048 1\<rparr>" and ip = vol_inode and fsfail = False and
        flags = "\<lparr>io_ext = False, io_buflocked = False, io_sync = False, ba_clrbuf = False, ba_metaonly = False\<rparr>", unfolded e]
  show ?thesis by (simp add: g(6)) blast
qed

section \<open>The invariant of the whole\<close>

text \<open>C3: Whatever sequence of allocations, growths, frees, table references, inode creations and removals is
  run on a consistent file system, it stays consistent: group maps agree with their counts and the summaries,
  the table stays well-formed, and the superblock totals are the numbers of free fragments and inodes.\<close>

theorem ddfs_runs_consistent:
  assumes "ddfs_device E K img hash devsize" "(ddfs_step K img E)\<^sup>*\<^sup>* (ks, st) (ks', st')" "ddfs_inv img devsize (ks, st)"
  shows "ddfs_inv img devsize (ks', st') \<and> freespace (a_fs st') 0 = int (card (free_set st')) \<and>
    cst_nifree (fs_cstotal (a_fs st')) = int (card (free_inodes st'))"
proof -
  have i: "ddfs_inv img devsize (ks', st')" by (rule ddfs_device.steps_keep[OF assms])
  then have "alloc_inv st'" "node_inv st'" by (simp_all add: ddfs_inv_def node_inv_def)
  then show ?thesis using i free_set_card free_inodes_card by simp
qed

lemma vol_sys_inv: "ddfs_inv ram_img 20480 (vol_ram, vol)"
  using vol_inv vol_ok vol_entries(1)
  by (simp add: ddfs_inv_def volume_ok_def vol_cgs) (simp add: nodes_ok_def goal_ok_def vol_fs_def FS_OPTTIME_def)

theorem ddfs_runs_consistent_witness:
  "\<exists>ks' st'. (ddfs_step vol_kern ram_img loop_env)\<^sup>*\<^sup>* (vol_ram, vol) (ks', st') \<and> free_set st' = free_set vol \<union> {8} \<and>
    freespace (a_fs st') 0 = int (card (free_set st')) \<and> cst_nifree (fs_cstotal (a_fs st')) = int (card (free_inodes st'))"
proof -
  let ?key = "replicate 20 7 :: byte list" and ?step = "ddfs_step vol_kern ram_img loop_env"
  have t: "table_ok (a_fs vol) 20480" using vol_ok by (simp add: volume_ok_def)
  have v: "a_fs vol = vol_fs" "int 1 * fs_fsize vol_fs = 4096" by (simp_all add: vol_cgs vol_fs_def)
  have w: "word_of_int 8 = (8 :: 64 word)" by simp
  have two: "dd_map (ddtab (a_fs vol) (ram_img vol_ram)) ?key = Some (8, 2)" by (simp add: v vol_entries)
  have i0: "dd_inv (ddtab (a_fs vol) (ram_img vol_ram))" by (simp add: v vol_entries)
  from loop_ram.ffs_blkfree_spec(1)[OF t i0 w two, where sz = 4096 and ts = "\<lparr>tv_sec = 1, tv_nsec = 2\<rparr>"] obtain ks1 where
    f1: "ffs_blkfree vol_kern loop_env 8 4096 (vol_ram, vol) = Inr (ks1, vol)" and i1: "dd_inv (ddtab (a_fs vol) (ram_img ks1))"
    and m1: "dd_map (ddtab (a_fs vol) (ram_img ks1)) = [?key \<mapsto> (8, 1)]" by (auto simp: v vol_entries)
  have s1: "?step (vol_ram, vol) (ks1, vol)" using ddfs_step.free[OF vol_frags, of vol_kern loop_env vol_ram] f1 unfolding v by simp
  have last: "\<not> (\<exists>key n. dd_map (ddtab (a_fs vol) (ram_img ks1)) key = Some (word_of_int 8, n) \<and> 1 < n)" unfolding m1 by simp
  from loop_ram.ffs_blkfree_frags[OF vol_inv(1) vol_frags t i1, where ts = "\<lparr>tv_sec = 1, tv_nsec = 2\<rparr>"] last obtain ks2 st2 where
    f2: "ffs_blkfree vol_kern loop_env 8 4096 (ks1, vol) = Inr (ks2, st2)" and g: "gives vol 8 1 st2" unfolding v by metis
  have s2: "?step (ks1, vol) (ks2, st2)" using ddfs_step.free[OF vol_frags, of vol_kern loop_env ks1] f2 unfolding v by simp
  have run: "?step\<^sup>*\<^sup>* (vol_ram, vol) (ks2, st2)" using s1 s2 by (meson converse_rtranclp_into_rtranclp rtranclp.rtrancl_refl)
  have "{8..<8 + int 1} = {8}" by auto
  then have "free_set st2 = free_set vol \<union> {8}" using g by (simp add: gives_def)
  then show ?thesis using run ddfs_runs_consistent[OF vol_sys_device run vol_sys_inv] by blast
qed

section \<open>Where it goes wrong\<close>

text \<open>A file whose first block is the shared block of \<open>vol_ram\<close>.\<close>

definition shared_inode :: inode where
  "shared_inode = vol_inode\<lparr>i_size := 4096, i_din := (i_din vol_inode)\<lparr>di_size := 4096, di_db := 8 # replicate 11 0\<rparr>\<rparr>"

definition shared_file :: "ram file_st" where
  "shared_file = (vol_file vol_ram)\<lparr>f_ip := shared_inode\<rparr>"

lemma shared_fields: "f_ip shared_file = shared_inode" "f_st shared_file = vol" "f_bufs shared_file = []" "f_ks shared_file = vol_ram"
  by (simp_all add: shared_file_def vol_file_def)

lemma vol_room: "dd_room (ddtab vol_fs (ram_img vol_ram))"
proof -
  have "dd_free free_entry" "(replicate 128 free_entry)[0 := vol_entry] ! 1 = free_entry" by (simp_all add: dd_free_def free_entry_def DDFS_DEDUP_FREE_def)
  then show ?thesis unfolding vol_table dd_room_def by (metis length_list_update length_replicate nth_mem one_less_numeral_iff semiring_norm(76))
qed

text \<open>C27: There is no copy on write. \<open>ffs_write\<close> of a whole block that the file shares with others, with bytes
  the table does not know, writes into the shared block: the file keeps its block address, the buffer that goes there
  holds the new bytes, and the table has the block under two keys, the old one with all its references.\<close>

theorem ffs_write_overwrites_shared:
  assumes "dedup_device E K img hash devsize" "volume_ok devsize st" "new_block_env F" "i < 12"
    and "f_ip s = ip" "f_st s = st" "map_of (f_bufs s) (int i) = None"
    and "di_db (i_din ip) ! i = b" "b \<noteq> 0" "(int i + 1) * 4096 \<le> i_size ip"
    and "t = ddtab (a_fs st) (img (f_ks s))" "dd_map t old = Some (word_of_int b, n)" "dd_room t"
    and "u = \<lparr>uio_offset = int i * 4096, uio_resid = 4096, uio_user = bs\<rparr>" "length bs = 4096"
    and "int i * 4096 + 4096 \<le> fs_maxfilesize (a_fs st)" "\<not> w_ext flags" "\<not> w_sync flags" "\<not> w_append flags"
    and "i_flags ip AND APPEND = 0" "key = fe_sha1 F bs" "dd_map t key = None"
  shows "\<exists>s' bp. ffs_write K E F cred noretain VREG flags u s =
      Some (Inr (0, \<lparr>uio_offset = int i * 4096 + 4096, uio_resid = 0, uio_user = []\<rparr>, s')) \<and>
    f_st s' = st \<and> di_db (i_din (f_ip s')) ! i = b \<and>
    map_of (f_bufs s') (int i) = Some bp \<and> vb_blkno bp = fsbtodb (a_fs st) b \<and> vb_data bp = bs \<and>
    dd_map (ddtab (a_fs st) (img (f_ks s'))) key = Some (word_of_int b, 1) \<and>
    dd_map (ddtab (a_fs st) (img (f_ks s'))) old = Some (word_of_int b, n)"
  using dedup_device.overwrite_in_place[OF assms, of cred noretain] assms(8) by fastforce

theorem ffs_write_overwrites_shared_witness:
  "\<exists>s' bp. ffs_write vol_kern loop_env vol_env vol_cred False VREG \<lparr>w_ext = False, w_append = False, w_sync = False, w_unit = False, w_datasync = False\<rparr>
      \<lparr>uio_offset = 0, uio_resid = 4096, uio_user = replicate 4096 5\<rparr> shared_file =
      Some (Inr (0, \<lparr>uio_offset = 4096, uio_resid = 0, uio_user = []\<rparr>, s')) \<and>
    di_db (i_din (f_ip s')) ! 0 = 8 \<and> map_of (f_bufs s') 0 = Some bp \<and> vb_blkno bp = 64 \<and> vb_data bp = replicate 4096 5 \<and>
    dd_map (ddtab vol_fs (ram_img (f_ks s'))) (replicate 20 7) = Some (8, 2)"
proof -
  let ?u = "\<lparr>uio_offset = 0, uio_resid = 4096, uio_user = replicate 4096 5\<rparr> :: uio"
  let ?w = "\<lparr>w_ext = False, w_append = False, w_sync = False, w_unit = False, w_datasync = False\<rparr>"
  have "\<exists>s' bp. ffs_write vol_kern loop_env vol_env vol_cred False VREG ?w ?u shared_file =
      Some (Inr (0, \<lparr>uio_offset = int 0 * 4096 + 4096, uio_resid = 0, uio_user = []\<rparr>, s')) \<and>
    f_st s' = vol \<and> di_db (i_din (f_ip s')) ! 0 = 8 \<and>
    map_of (f_bufs s') (int 0) = Some bp \<and> vb_blkno bp = fsbtodb (a_fs vol) 8 \<and> vb_data bp = replicate 4096 5 \<and>
    dd_map (ddtab (a_fs vol) (ram_img (f_ks s'))) (replicate 20 5) = Some (word_of_int 8, 1) \<and>
    dd_map (ddtab (a_fs vol) (ram_img (f_ks s'))) (replicate 20 7) = Some (word_of_int 8, 2)"
    by (rule ffs_write_overwrites_shared[OF vol_ram_device vol_ok, where ip = shared_inode and old = "replicate 20 7" and n = 2 and
        key = "replicate 20 5" and bs = "replicate 4096 5" and b = 8 and t = "ddtab (a_fs vol) (ram_img vol_ram)"])
      (simp_all add: vol_cgs vol_file_ok vol_entries vol_room shared_fields, simp_all add: shared_inode_def vol_inode_def vol_fs_def vol_env_def)
  moreover have "fsbtodb vol_fs 8 = 64" by (simp add: fsbtodb_def vol_fs_def)
  ultimately show ?thesis by (simp add: vol_cgs) blast
qed

text \<open>A file that holds block 7, as its first block and as its first block of pointers.\<close>

definition own_inode :: inode where
  "own_inode = vol_inode\<lparr>i_size := 4096, i_din := (i_din vol_inode)\<lparr>di_size := 4096, di_db := 7 # replicate 11 0, di_ib := [7, 0, 0]\<rparr>\<rparr>"

definition own_file :: "ram file_st" where
  "own_file = (vol_file vol_ram)\<lparr>f_ip := own_inode\<rparr>"

lemma own_fields: "f_ip own_file = own_inode" "f_st own_file = vol" "f_ks own_file = vol_ram"
  "di_db (i_din own_inode) = 7 # replicate 11 0" "di_ib (i_din own_inode) = [7, 0, 0]"
  by (simp_all add: own_file_def vol_file_def own_inode_def)

lemma own_frags: "data_block vol 7" "7 \<notin> free_set vol" "frags_at vol 7 1"
proof -
  show f: "7 \<notin> free_set vol" by (simp add: vol_free)
  show d: "data_block vol 7" unfolding data_block_def
    by (intro conjI exI[of _ 0] exI[of _ 7]) (simp_all add: vol_cgs vol_fs_def vol_cg_def cgbase_def)
  show "frags_at vol 7 1" by (rule data_block_frags[OF d _ f]) (simp add: vol_cgs vol_fs_def)
qed

text \<open>The lookup leaves out the head of a block that is written from its middle on: when the table knows the
  bytes from \<open>off\<close> on, as it does after the same write to a block with another head, the file
  is pointed to that other block and loses its own head.\<close>

theorem dedup_block_loses_head:
  assumes "dedup_device E K img hash devsize" "volume_ok devsize st" "t = ddtab (a_fs st) (img ks)" "dd_inv t" "i < 12"
    and "f_ip s = ip" "f_ks s = ks" "f_st s = st" "di_db (i_din ip) ! i = old" "data_block st old" "old \<notin> free_set st"
    and "word_of_int old \<notin> fst ` ran (dd_map t)" "i < length (di_db (i_din ip))"
    and "drop off (vb_data bp) = drop off (vb_data other)" "off \<le> length (vb_data bp)" "off \<le> length (vb_data other)"
    and "fe_tail F bp = fe_tail F other"
    and "dd_map t (block_key F off other) = Some (b, n)" "length (block_key F off other) = 20" "n < 65535"
  shows "\<exists>s'. dedup_block K E F i off bp s = Inr s' \<and> di_db (i_din (f_ip s')) ! i = sint b \<and> old \<in> free_set (f_st s') \<and>
    dd_map (ddtab (a_fs st) (img (f_ks s'))) = (dd_map t)(block_key F off other \<mapsto> (b, Suc n))"
proof -
  have k: "block_key F off other = block_key F off bp" using assms(14-17) by (simp add: block_key_def)
  have "{old..<old + int 1} = {old}" by auto
  then show ?thesis
    using dedup_device.dedup_hit[OF assms(1-12) k assms(19,18,20)] assms(13)
    by (auto simp: gives_def set_db_def UFS_INODE_SET_FLAG_def)
qed

theorem dedup_block_loses_head_witness:
  "\<exists>s'. dedup_block vol_kern loop_env vol_env 0 2048 \<lparr>vb_lblkno = 0, vb_blkno = 56, vb_data = replicate 2048 1 @ replicate 2048 7\<rparr> own_file = Inr s' \<and>
    di_db (i_din (f_ip s')) ! 0 = 8 \<and> 7 \<in> free_set (f_st s')"
proof -
  let ?bp = "\<lambda>x. \<lparr>vb_lblkno = 0, vb_blkno = 56, vb_data = replicate 2048 x @ replicate 2048 7\<rparr> :: vbuf"
  have k: "block_key vol_env 2048 (?bp 2) = replicate 20 7" by (simp add: block_key_def vol_env_def)
  have d: "dd_map (ddtab (a_fs vol) (ram_img vol_ram)) (block_key vol_env 2048 (?bp 2)) = Some (8, 2)"
    by (simp add: k vol_cgs vol_entries)
  have "\<exists>s'. dedup_block vol_kern loop_env vol_env 0 2048 (?bp 1) own_file = Inr s' \<and> di_db (i_din (f_ip s')) ! 0 = sint (8 :: 64 word) \<and>
    7 \<in> free_set (f_st s') \<and> dd_map (ddtab (a_fs vol) (ram_img (f_ks s'))) =
      (dd_map (ddtab (a_fs vol) (ram_img vol_ram)))(block_key vol_env 2048 (?bp 2) \<mapsto> (8, Suc 2))"
    by (rule dedup_block_loses_head[OF vol_ram_device vol_ok refl, where ip = own_inode and b = 8 and n = 2])
      (simp_all add: k d[unfolded k] own_fields own_frags vol_cgs vol_entries, simp_all add: vol_env_def)
  then show ?thesis by auto
qed

text \<open>C28: Past the twelve direct addresses the deduplicated write changes something else: the address of a block
  12, 13 or 14 that the table knows overwrites an indirect address of the inode, whose block of pointers is
  released; a block number from 18 on is read past the end of the inode.\<close>

theorem dedup_block_clobbers_indirect:
  assumes "dedup_device E K img hash devsize" "table_ok (a_fs st) devsize" "t = ddtab (a_fs st) (img ks)" "dd_inv t"
    and "12 \<le> i" "i < 15" "length (di_ib (i_din ip)) = 3" "f_ip s = ip" "f_ks s = ks" "f_st s = st"
    and "old = di_ib (i_din ip) ! (i - 12)" "0 \<le> old" "old < 2 ^ 63" "alloc_inv st" "frags_at st old k" "fs_fsize (a_fs st) * int k = 4096"
    and "word_of_int old \<notin> fst ` ran (dd_map t)" "key = block_key F off bp" "length key = 20" "dd_map t key = Some (b, n)" "n < 65535"
    and "18 \<le> far"
  shows "(\<exists>s'. dedup_block K E F i off bp s = Inr s' \<and> di_ib (i_din (f_ip s')) ! (i - 12) = sint b \<and>
      di_db (i_din (f_ip s')) = di_db (i_din ip) \<and> {old..<old + int k} \<subseteq> free_set (f_st s')) \<and>
    dedup_block K E F far off bp s = Inl OutOfBounds"
proof -
  have w: "word_of_int old \<noteq> b" using assms(17,20) by (force simp: ran_def)
  have "sint (word_of_int old :: 64 word) = old" by (rule sint_block[OF assms(12,13)])
  then have ne: "sint b \<noteq> old" using w by auto
  obtain ks1 where c: "dedup_block K E F i off bp s = map_sum id (\<lambda>(ks, st).
      s\<lparr>f_ip := UFS_INODE_SET_FLAG (IN_MODIFIED OR IN_NEEDSYNC)
          (ip\<lparr>i_din := (i_din ip)\<lparr>di_ib := (di_ib (i_din ip))[i - 12 := sint b]\<rparr>\<rparr>), f_ks := ks, f_st := st\<rparr>)
        (ffs_blkfree K E old DDFS_BLOCKSIZE (ks1, st))"
    "dd_inv (ddtab (a_fs st) (img ks1))" "dd_map (ddtab (a_fs st) (img ks1)) = (dd_map t)(key \<mapsto> (b, Suc n))"
    using dedup_device.clobber[OF assms(1-13,18-21) ne] by metis
  have "dd_map t key' \<noteq> Some (word_of_int old, m)" for key' m using assms(17) by (force simp: ran_def)
  then have "dd_map (ddtab (a_fs st) (img ks1)) key' \<noteq> Some (word_of_int old, m)" for key' m using w unfolding c(3) by auto
  moreover have "int k * fs_fsize (a_fs st) = DDFS_BLOCKSIZE" using assms(16) by (simp add: DDFS_BLOCKSIZE_def mult.commute)
  ultimately obtain ks2 st2 where f: "ffs_blkfree K E old DDFS_BLOCKSIZE (ks1, st) = Inr (ks2, st2)" "gives st old k st2"
    using dedup_device.ffs_blkfree_frags[OF assms(1,14,15,2) c(2)] by metis
  have far: "dedup_block K E F far off bp s = Inl OutOfBounds" by (rule dedup_device.past_inode[OF assms(1,22)])
  show ?thesis using f(2) assms(5-7) far unfolding c(1) f(1)
    by (simp add: gives_def UFS_INODE_SET_FLAG_def)
qed

theorem dedup_block_clobbers_indirect_witness:
  "\<exists>s'. dedup_block vol_kern loop_env vol_env 12 0 \<lparr>vb_lblkno = 12, vb_blkno = 56, vb_data = replicate 4096 7\<rparr> own_file = Inr s' \<and>
    di_ib (i_din (f_ip s')) ! 0 = 8 \<and> 7 \<in> free_set (f_st s')"
proof -
  let ?bp = "\<lparr>vb_lblkno = 12, vb_blkno = 56, vb_data = replicate 4096 7\<rparr> :: vbuf"
  have k: "replicate 20 7 = block_key vol_env 0 ?bp" by (simp add: block_key_def vol_env_def)
  have t: "table_ok vol_fs 20480" using vol_ok by (simp add: volume_ok_def vol_cgs)
  have f: "fs_fsize vol_fs = 4096" "7 \<notin> free_set vol" by (simp_all add: vol_fs_def vol_free)
  have "(\<exists>s'. dedup_block vol_kern loop_env vol_env 12 0 ?bp own_file = Inr s' \<and> di_ib (i_din (f_ip s')) ! (12 - 12) = sint (8 :: 64 word) \<and>
      di_db (i_din (f_ip s')) = di_db (i_din own_inode) \<and> {7..<7 + int 1} \<subseteq> free_set (f_st s')) \<and>
    dedup_block vol_kern loop_env vol_env 18 0 ?bp own_file = Inl OutOfBounds"
    by (rule dedup_block_clobbers_indirect[OF vol_ram_device, where st = vol and ip = own_inode and b = 8 and n = 2 and
          t = "ddtab (a_fs vol) (ram_img vol_ram)" and key = "replicate 20 7" and k = 1, OF _ refl])
      (simp_all add: k[symmetric] t f own_fields own_frags[unfolded One_nat_def] vol_inv vol_cgs vol_entries)
  then obtain s' where s': "dedup_block vol_kern loop_env vol_env 12 0 ?bp own_file = Inr s'" "di_ib (i_din (f_ip s')) ! 0 = 8"
    "{7..<7 + int 1} \<subseteq> free_set (f_st s')" by auto
  then have "7 \<in> free_set (f_st s')" by auto
  then show ?thesis using s' by blast
qed

end
