(* ===== verification/Newfs_Layout.thy ===== *)
theory Newfs_Layout
  imports Ddfs_Vnode
begin

text \<open>
  \<open>deduplicating-fs/tools/newfs-ddfs\<close>, first part: the options as \<open>main\<close> of \<open>newfs.c\<close> completes them and the
  layout that \<open>mkfs\<close> computes from them, up to the superblock it writes. The global variables of the program
  are a record. Arithmetic is without overflow except where a loop runs into it: the density of inodes is
  lowered until the map of a cylinder group fits a block, or until \<open>density\<close> leaves the range of an \<open>int\<close>.
  The historic fields of the superblock, which only the first version of the format uses, are left out.
\<close>

section \<open>Definitions\<close>

definition FS_MAXCONTIG :: int where "FS_MAXCONTIG = 16"
definition MINFREE :: int where "MINFREE = 8"
definition MINCYLGRPS :: int where "MINCYLGRPS = 1"
definition DFL_FRAGSIZE :: int where "DFL_FRAGSIZE = 4096"
definition DFL_BLKSIZE :: int where "DFL_BLKSIZE = 4096"
definition MAXBLKSPERCG :: int where "MAXBLKSPERCG = 0x7fffffff"
definition NFPI :: int where "NFPI = 2"
definition UFS_ROOTINO :: int where "UFS_ROOTINO = 2"

definition MAXBLKPG :: "int \<Rightarrow> int" where
  "MAXBLKPG bsize = bsize div 8"

definition POWEROF2 :: "int \<Rightarrow> bool" where
  "POWEROF2 num \<longleftrightarrow> num AND (num - 1) = 0"

text \<open>The constants with \<open>sizeof\<close>: \<open>struct fs\<close>, \<open>struct csum\<close>, the two inode formats and their addresses.\<close>

definition sizeof_fs :: int where "sizeof_fs = 1376"
definition sizeof_csum :: int where "sizeof_csum = 16"
definition sizeof_dinode :: "int \<Rightarrow> int" where "sizeof_dinode oflag = (if oflag = 1 then 128 else 256)"
definition sizeof_daddr :: "int \<Rightarrow> int" where "sizeof_daddr oflag = (if oflag = 1 then 4 else 8)"

text \<open>The globals of \<open>newfs.c\<close> and \<open>mkfs.c\<close> the layout reads or writes. \<open>g_maxphys\<close> is the kernel's \<open>MAXPHYS\<close>,
  \<open>g_sblock\<close> is \<open>disk.d_fs\<close>; \<open>g_fs_maxbsize\<close> and \<open>g_fs_providersize\<close> are fields of it that the kernel model lacks.
  \<open>g_utime\<close> is the time, \<open>g_ckhash\<close> the check-hashes that the running system knows (\<open>getosreldate\<close>).\<close>

record newfs =
  g_Oflag :: int
  g_fssize :: int
  g_mediasize :: int
  g_sectorsize :: int
  g_realsectorsize :: int
  g_fsize :: int
  g_bsize :: int
  g_maxbsize :: int
  g_maxblkspercg :: int
  g_minfree :: int
  g_metaspace :: int
  g_opt :: int
  g_density :: int
  g_maxcontig :: int
  g_maxbpg :: int
  g_avgfilesize :: int
  g_avgfilesperdir :: int
  g_maxphys :: int
  g_part_ofs :: int
  g_Rflag :: bool
  g_nflag :: bool
  g_sblock :: ddfs_fs
  g_fs_maxbsize :: int
  g_fs_providersize :: int
  g_utime :: int
  g_ckhash :: int

text \<open>How the program stops early: a call of \<open>exit\<close>, or an operation whose result C leaves undefined.\<close>

datatype stop = Quit int | Overflow | Division_by_zero | Never

text \<open>\<open>main\<close> of \<open>newfs.c\<close> after its options and the device have been read.\<close>

definition newfs_defaults :: "newfs \<Rightarrow> stop + newfs" where
  "newfs_defaults g =
     (if g_sectorsize g \<le> 0 then Inl (Quit 1)
      else
        let g1 = (if g_fsize g \<le> 0 then g\<lparr>g_fsize := max DFL_FRAGSIZE (g_sectorsize g)\<rparr> else g);
          g2 = (if g_bsize g1 \<le> 0 then g1\<lparr>g_bsize := min DFL_BLKSIZE (8 * g_fsize g1)\<rparr> else g1);
          g3 = (if g_minfree g2 < MINFREE \<and> g_opt g2 \<noteq> FS_OPTSPACE then g2\<lparr>g_opt := FS_OPTSPACE\<rparr> else g2);
          g4 = g3\<lparr>g_realsectorsize := g_sectorsize g3\<rparr>;
          g5 = (if g_sectorsize g4 \<noteq> 512
            then g4\<lparr>g_fssize := g_fssize g4 * (g_sectorsize g4 div 512), g_sectorsize := 512\<rparr> else g4)
        in Inr (g5\<lparr>g_nflag := True\<rparr>))"

definition getfssize :: "int \<Rightarrow> int \<Rightarrow> int \<Rightarrow> stop + int" where
  "getfssize fsz disksize reserved =
     (let available = disksize - reserved in
      if available \<le> 0 then Inl (Quit 1) else if fsz = 0 then Inr available else if available < fsz then Inl (Quit 1) else Inr fsz)"

fun ilog2_loop :: "int \<Rightarrow> nat \<Rightarrow> nat \<Rightarrow> stop + nat" where
  "ilog2_loop val n 0 = Inl (Quit 1)"
| "ilog2_loop val n (Suc k) = (if push_bit n 1 = val then Inr n else ilog2_loop val (Suc n) k)"

definition ilog2 :: "int \<Rightarrow> stop + nat" where
  "ilog2 val = ilog2_loop val 0 31"

subsection \<open>Sizes of blocks and fragments\<close>

definition clamp_sizes :: "newfs \<Rightarrow> stop + int \<times> int" where
  "clamp_sizes g =
     (if \<not> POWEROF2 (g_bsize g) then Inl (Quit 16)
      else if \<not> POWEROF2 (g_fsize g) then Inl (Quit 17)
      else
        let f1 = (if g_fsize g < g_sectorsize g then g_sectorsize g else g_fsize g);
          b1 = (if MAXBSIZE < g_bsize g then MAXBSIZE else g_bsize g);
          b2 = (if b1 < MINBSIZE then MINBSIZE else b1);
          f2 = (if MAXBSIZE < f1 then MAXBSIZE else f1);
          b3 = (if b2 < f2 then f2 else b2);
          f3 = (if f2 * MAXFRAG < b3 then b3 div MAXFRAG else f2)
        in Inr (b3, f3))"

definition extent_size :: "int \<Rightarrow> newfs \<Rightarrow> newfs" where
  "extent_size b g =
     (let mb = (if g_maxbsize g = 0 then g_bsize g else g_maxbsize g) in
      g\<lparr>g_maxbsize := mb, g_fs_maxbsize :=
        (if mb < g_bsize g \<or> \<not> POWEROF2 mb then b
         else if FS_MAXCONTIG * b < g_fs_maxbsize g then FS_MAXCONTIG * b
         else mb)\<rparr>)"

definition contig_sizes :: "int \<Rightarrow> newfs \<Rightarrow> newfs" where
  "contig_sizes b g =
     (let c = (if g_maxcontig g = 0 then max 1 (g_maxphys g div g_bsize g) else g_maxcontig g);
        mc = max c (g_fs_maxbsize g div b)
      in g\<lparr>g_maxcontig := c, g_sblock := (g_sblock g)\<lparr>fs_maxcontig := mc,
           fs_contigsumsize := (if 1 < mc then min mc FS_MAXCONTIG else fs_contigsumsize (g_sblock g))\<rparr>\<rparr>)"

definition block_sizes :: "newfs \<Rightarrow> stop + newfs" where
  "block_sizes g =
     (case clamp_sizes g of Inl x \<Rightarrow> Inl x
      | Inr (b, f) \<Rightarrow>
        let g1 = contig_sizes b (extent_size b (g\<lparr>g_sblock := (g_sblock g)\<lparr>fs_bsize := b, fs_fsize := f\<rparr>\<rparr>)) in
        (case (ilog2 b, ilog2 f) of (Inr bs, Inr fsh) \<Rightarrow>
           let bm = NOT (b - 1); fm = NOT (f - 1); fr = drop_bit fsh b in
           (case ilog2 fr of Inl x \<Rightarrow> Inl x
            | Inr frsh \<Rightarrow>
              if MAXFRAG < fr then Inl (Quit 21)
              else (case ilog2 (f div g_sectorsize g) of Inl x \<Rightarrow> Inl x
                | Inr db \<Rightarrow>
                  let fs = (g_sblock g1)\<lparr>fs_bmask := bm, fs_fmask := fm, fs_qbmask := NOT bm, fs_qfmask := NOT fm, fs_bshift := bs,
                        fs_fshift := fsh, fs_frag := fr, fs_fragshift := frsh, fs_fsbtodb := db\<rparr>;
                    size = dbtofsb fs (g_fssize g1)
                  in Inr (g1\<lparr>g_fssize := size, g_fs_providersize := dbtofsb fs (g_mediasize g1 div g_sectorsize g1),
                        g_sblock := fs\<lparr>fs_size := size, fs_magic := FS_BAD_MAGIC\<rparr>\<rparr>)))
         | _ \<Rightarrow> Inl (Quit 1)))"

subsection \<open>Sections of a cylinder group\<close>

fun max_file :: "ddfs_fs \<Rightarrow> nat \<Rightarrow> int \<Rightarrow> int \<Rightarrow> int" where
  "max_file fs 0 sizepb sz = sz"
| "max_file fs (Suc i) sizepb sz = max_file fs i (sizepb * fs_nindir fs) (sz + sizepb * fs_nindir fs)"

definition sections :: "newfs \<Rightarrow> newfs" where
  "sections g =
     (let fs = g_sblock g; loc = (if g_Oflag g = 1 then SBLOCK_UFS1 else SBLOCK_UFS2);
        extra = roundup (g_mediasize g div DEDUP_FRAC) (fs_fsize fs);
        sb = roundup (howmany (loc + SBLOCKSIZE) (fs_fsize fs)) (fs_frag fs);
        dd = sb + howmany SBLOCKSIZE (fs_fsize fs);
        ddn = wrap_s 32 (roundup (howmany extra (fs_fsize fs)) (fs_frag fs));
        cb = roundup (dd + ddn) (fs_frag fs) + roundup (howmany SBLOCKSIZE (fs_fsize fs)) (fs_frag fs);
        fs1 = fs\<lparr>fs_sblockloc := loc, fs_sblockactualloc := loc, fs_nindir := fs_bsize fs div sizeof_daddr (g_Oflag g),
          fs_inopb := fs_bsize fs div sizeof_dinode (g_Oflag g), fs_sblkno := sb, fs_ddblkno := dd, fs_dedupfrags := ddn,
          fs_cblkno := cb, fs_iblkno := cb + fs_frag fs\<rparr>
      in g\<lparr>g_sblock := fs1\<lparr>fs_maxfilesize := max_file fs1 3 (fs_bsize fs) (fs_bsize fs * UFS_NDADDR - 1)\<rparr>\<rparr>)"

subsection \<open>Size of a cylinder group\<close>

text \<open>The inodes for \<open>fs_fpg\<close> fragments, and the smallest group for the inodes.\<close>

definition set_ipg :: "int \<Rightarrow> ddfs_fs \<Rightarrow> ddfs_fs" where
  "set_ipg fpi fs = fs\<lparr>fs_ipg := roundup (howmany (fs_fpg fs) fpi) (INOPB fs)\<rparr>"

definition inode_end :: "ddfs_fs \<Rightarrow> int" where
  "inode_end fs = roundup (fs_iblkno fs + fs_ipg fs div INOPF fs) (fs_frag fs)"

definition set_fpg :: "int \<Rightarrow> ddfs_fs \<Rightarrow> ddfs_fs" where
  "set_fpg minfpg fs = fs\<lparr>fs_fpg := max (inode_end fs) minfpg\<rparr>"

definition group_for :: "int \<Rightarrow> ddfs_fs \<Rightarrow> ddfs_fs" where
  "group_for fpi fs =
     (let minfpg = min (fpi * INOPB fs) (fs_size fs);
        fs1 = set_fpg minfpg (fs\<lparr>fs_ipg := INOPB fs\<rparr>);
        fs2 = set_fpg minfpg (set_ipg fpi fs1)
      in set_ipg fpi fs2)"

text \<open>One turn lowers \<open>density\<close>. The results of the loop: a restart, or the superblock with the fragments per inode.\<close>

datatype density = Restart int | Fits int ddfs_fs

function density_loop :: "int \<Rightarrow> int \<Rightarrow> ddfs_fs \<Rightarrow> stop + density" where
  "density_loop minfpi dens fs =
     (let fpi = max (numfrags fs dens) 1; fs' = group_for fpi fs in
      if fpi < minfpi then Inr (Restart dens)
      else if CGSIZE fs' < fs_bsize fs then Inr (Fits fpi fs')
      else if fs_fsize fs \<le> 0 then Inl Never
      else if dens - fs_fsize fs < - (2 ^ 31) then Inl Overflow
      else density_loop minfpi (dens - fs_fsize fs) fs')"
  by pat_completeness auto

termination
  by (relation "measure (\<lambda>(m, d, fs). nat (d + 2 ^ 31))") (auto simp: Let_def)

declare density_loop.simps [simp del]

text \<open>Packing more blocks into a group.\<close>

function pack_loop :: "newfs \<Rightarrow> int \<Rightarrow> ddfs_fs \<Rightarrow> stop + ddfs_fs" where
  "pack_loop g fpi fs =
     (if fs_fpg fs < g_maxblkspercg g then
        let fs1 = set_ipg fpi fs; less = set_ipg fpi (fs1\<lparr>fs_fpg := fs_fpg fs1 - fs_frag fs1\<rparr>) in
        if 1 < g_Oflag g \<or> g_Oflag g = 1 \<and> fs_ipg fs1 \<le> 0x7fff then
          if fs_fpg fs1 = 0 then Inl Division_by_zero
          else if fs_size fs1 div fs_fpg fs1 < MINCYLGRPS then Inr fs1
          else if CGSIZE fs1 < fs_bsize fs1 then
            (if fs_frag fs1 \<le> 0 then Inl Never else pack_loop g fpi (fs1\<lparr>fs_fpg := fs_fpg fs1 + fs_frag fs1\<rparr>))
          else if CGSIZE fs1 = fs_bsize fs1 then Inr fs1
          else Inr less
        else Inr less
      else Inr fs)"
  by pat_completeness auto

termination
  by (relation "measure (\<lambda>(g, fpi, fs). nat (g_maxblkspercg g - fs_fpg fs))") (auto simp: Let_def set_ipg_def)

declare pack_loop.simps [simp del]

text \<open>Making the groups smaller until the last one is large enough, or there is none.\<close>

function last_loop :: "int \<Rightarrow> ddfs_fs \<Rightarrow> stop + ddfs_fs" where
  "last_loop fpi fs =
     (if fs_fpg fs \<le> 0 then Inl Division_by_zero
      else
        let fs1 = fs\<lparr>fs_ncg := howmany (fs_size fs) (fs_fpg fs)\<rparr> in
        if fs_size fs1 < inode_end fs1 then Inl (Quit 28)
        else if inode_end fs1 \<le> fs_size fs1 mod fs_fpg fs1 \<or> fs_size fs1 mod fs_fpg fs1 = 0 then Inr fs1
        else if fs_frag fs1 \<le> 0 then Inl Never
        else last_loop fpi (set_ipg fpi (fs1\<lparr>fs_fpg := fs_fpg fs1 - fs_frag fs1\<rparr>)))"
  by pat_completeness auto

termination
  by (relation "measure (\<lambda>(fpi, fs). nat (fs_fpg fs))") (auto simp: Let_def set_ipg_def)

declare last_loop.simps [simp del]

definition min_frags :: "newfs \<Rightarrow> int" where
  "min_frags g = 1 + g_fssize g div (2 ^ 32 - INOPB (g_sblock g))"

definition set_density :: "int \<Rightarrow> newfs \<Rightarrow> newfs" where
  "set_density minfpi g =
     (if g_density g = 0 then g\<lparr>g_density := max NFPI minfpi * g_fsize g\<rparr>
      else if g_density g < minfpi * g_fsize g then g\<lparr>g_density := minfpi * g_fsize g\<rparr>
      else g)"

text \<open>From the label \<open>restart\<close> on. A restart doubles both sizes; it keeps \<open>fssize\<close>, which counts fragments by then.\<close>

function groups :: "newfs \<Rightarrow> stop + newfs" where
  "groups g =
     (case block_sizes g of Inl x \<Rightarrow> Inl x
      | Inr g1 \<Rightarrow>
        let g2 = set_density (min_frags (sections g1)) (sections g1) in
        (case density_loop (min_frags g2) (g_density g2) (g_sblock g2) of Inl x \<Rightarrow> Inl x
         | Inr (Restart d) \<Rightarrow>
             if g_bsize g \<le> 0 then Inl Never
             else if 2 ^ 30 \<le> g_bsize g \<or> 2 ^ 30 \<le> g_fsize g then Inl Overflow
             else groups (g2\<lparr>g_bsize := 2 * g_bsize g, g_fsize := 2 * g_fsize g, g_density := d\<rparr>)
         | Inr (Fits fpi fs) \<Rightarrow>
             (case pack_loop g2 fpi fs of Inl x \<Rightarrow> Inl x
              | Inr fs1 \<Rightarrow> map_sum id (\<lambda>fs2. g2\<lparr>g_sblock := fs2\<rparr>) (last_loop fpi fs1))))"
  by pat_completeness auto

termination
  by (relation "measure (\<lambda>g. nat (2 ^ 30 - g_bsize g))") auto

declare groups.simps [simp del]

subsection \<open>The rest of the superblock\<close>

text \<open>The identifier \<open>fs_id\<close> is left out.\<close>

definition superblock :: "newfs \<Rightarrow> ddfs_fs" where
  "superblock g =
     (let fs = g_sblock g;
        fs1 = fs\<lparr>fs_cgsize := fragroundup fs (CGSIZE fs), fs_dblkno := fs_iblkno fs + fs_ipg fs div INOPF fs\<rparr>;
        fs2 = fs1\<lparr>fs_csaddr := cgdmin fs1 0, fs_cssize := fragroundup fs1 (fs_ncg fs1 * sizeof_csum)\<rparr>;
        sbs = min (fragroundup fs2 sizeof_fs) SBLOCKSIZE;
        space = (if 0 < g_metaspace g \<and> g_metaspace g < fs_fpg fs2 div 2 then blknum fs2 (g_metaspace g)
          else if g_metaspace g \<noteq> - 1 then blknum fs2 (fs_fpg fs2 * g_minfree g div 200) else fs_metaspace fs2);
        csfrags = howmany (fs_cssize fs2) (fs_fsize fs2);
        dsize = fs_size fs2 - fs_sblkno fs2 - fs_ncg fs2 * (fs_dblkno fs2 - fs_sblkno fs2)
      in fs2\<lparr>fs_sbsize := max sbs (g_realsectorsize g), fs_minfree := g_minfree g, fs_metaspace := space,
        fs_maxbpg := (if g_maxbpg g = 0 then MAXBLKPG (fs_bsize fs2) else g_maxbpg g), fs_optim := g_opt g, fs_cgrotor := 0,
        fs_fmod := 0, fs_ronly := 0, fs_clean := 1, fs_dsize := dsize - csfrags, fs_time := g_utime g,
        fs_flags := (if 1 < g_Oflag g then fs_flags fs2 OR FS_METACKHASH else fs_flags fs2),
        fs_metackhash := (if 1 < g_Oflag g then fs_metackhash fs2 OR g_ckhash g else fs_metackhash fs2),
        fs_cstotal := (fs_cstotal fs2)\<lparr>
          cst_nbfree := fragstoblks fs2 dsize - howmany csfrags (fs_frag fs2),
          cst_nffree := fragnum fs2 (fs_size fs2) + (if 0 < fragnum fs2 csfrags then fs_frag fs2 - fragnum fs2 csfrags else 0),
          cst_nifree := fs_ncg fs2 * fs_ipg fs2 - UFS_ROOTINO, cst_ndir := 0\<rparr>\<rparr>)"

definition mkfs_layout :: "newfs \<Rightarrow> stop + newfs" where
  "mkfs_layout g =
     (if g_fssize g \<le> 0 then Inl (Quit 13)
      else if g_avgfilesize g \<le> 0 then Inl (Quit 14)
      else if g_avgfilesperdir g \<le> 0 then Inl (Quit 15)
      else map_sum id (\<lambda>g'. g'\<lparr>g_sblock := superblock g'\<rparr>)
        (groups (g\<lparr>g_sblock := (g_sblock g)\<lparr>fs_avgfilesize := g_avgfilesize g, fs_avgfpdir := g_avgfilesperdir g\<rparr>\<rparr>)))"

section \<open>Sizes\<close>

lemma ilog2_loop: "ilog2_loop v n k = Inr m \<Longrightarrow> v = 2 ^ m \<and> m < n + k"
  by (induction v n k rule: ilog2_loop.induct) (auto split: if_splits)

lemma ilog2: "ilog2 v = Inr m \<Longrightarrow> v = 2 ^ m \<and> m < 31"
  using ilog2_loop[of v 0 31 m] by (simp add: ilog2_def)

lemma clamp_sizes:
  assumes "clamp_sizes g = Inr (b, f)" "g_sectorsize g = 512"
  shows "4096 \<le> b" "b \<le> 65536" "512 \<le> f" "f \<le> b"
  using assms by (auto simp: clamp_sizes_def Let_def MAXBSIZE_def MINBSIZE_def MAXFRAG_def split: if_splits)

text \<open>What a step leaves alone: all options, and the device.\<close>

definition same_device :: "newfs \<Rightarrow> newfs \<Rightarrow> bool" where
  "same_device g g' \<longleftrightarrow> g_Oflag g' = g_Oflag g \<and> g_mediasize g' = g_mediasize g \<and> g_sectorsize g' = g_sectorsize g \<and>
     g_minfree g' = g_minfree g \<and> g_metaspace g' = g_metaspace g \<and> g_opt g' = g_opt g \<and> g_maxblkspercg g' = g_maxblkspercg g \<and>
     g_realsectorsize g' = g_realsectorsize g \<and> g_part_ofs g' = g_part_ofs g \<and> g_nflag g' = g_nflag g"

lemma extent_size: "same_device g (extent_size b g) \<and> g_fssize (extent_size b g) = g_fssize g \<and> g_sblock (extent_size b g) = g_sblock g"
  by (simp add: same_device_def extent_size_def Let_def)

lemma contig_sizes: "same_device g (contig_sizes b g) \<and> g_fssize (contig_sizes b g) = g_fssize g \<and>
    (\<exists>m c. g_sblock (contig_sizes b g) = (g_sblock g)\<lparr>fs_maxcontig := m, fs_contigsumsize := c\<rparr>)"
proof -
  have "same_device g (contig_sizes b g)" "g_fssize (contig_sizes b g) = g_fssize g"
    by (simp_all add: same_device_def contig_sizes_def Let_def)
  moreover have "g_sblock (contig_sizes b g) = (g_sblock g)\<lparr>fs_maxcontig := fs_maxcontig (g_sblock (contig_sizes b g)),
      fs_contigsumsize := fs_contigsumsize (g_sblock (contig_sizes b g))\<rparr>"
    by (simp add: contig_sizes_def Let_def)
  ultimately show ?thesis by blast
qed

lemma same_device_trans: "same_device a b \<Longrightarrow> same_device b c \<Longrightarrow> same_device a c"
  by (simp add: same_device_def)

lemma block_sizes:
  assumes "block_sizes g = Inr g'" "g_sectorsize g = 512"
  shows "geometry_ok (g_sblock g')" "4096 \<le> fs_bsize (g_sblock g')" "fs_bsize (g_sblock g') \<le> 65536" "same_device g g'"
    "fs_size (g_sblock g') = g_fssize g'" "g_fssize g' = dbtofsb (g_sblock g') (g_fssize g)"
    "fs_magic (g_sblock g') = FS_BAD_MAGIC" "fs_old_cgoffset (g_sblock g') = fs_old_cgoffset (g_sblock g)"
    "fs_metaspace (g_sblock g') = fs_metaspace (g_sblock g)"
    "clamp_sizes g = Inr (fs_bsize (g_sblock g'), fs_fsize (g_sblock g'))"
proof -
  obtain b f where bf: "clamp_sizes g = Inr (b, f)" using assms(1) by (auto simp: block_sizes_def split: sum.splits)
  note cl = clamp_sizes[OF bf assms(2)]
  define g0 where "g0 = g\<lparr>g_sblock := (g_sblock g)\<lparr>fs_bsize := b, fs_fsize := f\<rparr>\<rparr>"
  define g1 where "g1 = contig_sizes b (extent_size b g0)"
  have sd: "same_device g g1" "g_fssize g1 = g_fssize g"
    using contig_sizes[of "extent_size b g0" b] extent_size[of g0 b] by (simp_all add: g1_def same_device_def g0_def)
  obtain m c where sb: "g_sblock g1 = (g_sblock g)\<lparr>fs_bsize := b, fs_fsize := f, fs_maxcontig := m, fs_contigsumsize := c\<rparr>"
    using contig_sizes[of "extent_size b g0" b] extent_size[of g0 b] by (auto simp: g1_def g0_def)
  obtain bs fsh frsh db where i: "ilog2 b = Inr bs" "ilog2 f = Inr fsh" "ilog2 (drop_bit fsh b) = Inr frsh" "drop_bit fsh b \<le> 8"
      "ilog2 (f div g_sectorsize g) = Inr db"
    and g': "g' = g1\<lparr>g_fssize := dbtofsb ((g_sblock g1)\<lparr>fs_bmask := NOT (b - 1), fs_fmask := NOT (f - 1), fs_qbmask := NOT (NOT (b - 1)),
       fs_qfmask := NOT (NOT (f - 1)), fs_bshift := bs, fs_fshift := fsh, fs_frag := drop_bit fsh b, fs_fragshift := frsh, fs_fsbtodb := db\<rparr>) (g_fssize g1),
       g_fs_providersize := g_fs_providersize g', g_sblock := (g_sblock g1)\<lparr>fs_bmask := NOT (b - 1), fs_fmask := NOT (f - 1),
       fs_qbmask := NOT (NOT (b - 1)), fs_qfmask := NOT (NOT (f - 1)), fs_bshift := bs, fs_fshift := fsh, fs_frag := drop_bit fsh b,
       fs_fragshift := frsh, fs_fsbtodb := db, fs_size := g_fssize g', fs_magic := FS_BAD_MAGIC\<rparr>\<rparr>"
    using assms(1) bf unfolding block_sizes_def by (auto simp: Let_def MAXFRAG_def g1_def[unfolded g0_def, symmetric] split: sum.splits if_splits)
  note p = ilog2[OF i(1)] ilog2[OF i(2)] ilog2[OF i(3)] ilog2[OF i(5)]
  have le: "fsh \<le> bs" using cl(4) p by (simp add: power_increasing_iff)
  have fr: "drop_bit fsh b = 2 ^ (bs - fsh)" using p(1) le by (simp add: drop_bit_eq_div power_diff)
  then have "frsh = bs - fsh" using p(3) by (metis power_inject_exp one_less_numeral_iff semiring_norm(76))
  moreover have "frsh \<le> 3"
  proof (rule ccontr)
    assume "\<not> frsh \<le> 3"
    then have "(2 :: int) ^ 4 \<le> 2 ^ frsh" by (intro power_increasing) auto
    then show False using i(4) p(3) by simp
  qed
  moreover have "fsh = 9 + db"
  proof -
    have "(2 :: int) ^ 9 \<le> 2 ^ fsh" using cl(3) p(2) by simp
    then have "9 \<le> fsh" by (simp only: power_increasing_iff)
    then have "f div 512 = 2 ^ (fsh - 9)" using p(2) power_diff[of "2 :: int" 9 fsh] by simp
    then have "db = fsh - 9" using p(4) assms(2) by (metis power_inject_exp one_less_numeral_iff semiring_norm(76))
    then show ?thesis using \<open>9 \<le> fsh\<close> by simp
  qed
  ultimately show "geometry_ok (g_sblock g')"
    using p le fr by (subst g') (simp add: geometry_ok_def sb)
  show "4096 \<le> fs_bsize (g_sblock g')" "fs_bsize (g_sblock g') \<le> 65536" using cl(1,2) by (subst g', simp add: sb)+
  show "same_device g g'" using sd(1) by (subst g') (simp add: same_device_def)
  show "fs_size (g_sblock g') = g_fssize g'" by (subst g') simp
  show "g_fssize g' = dbtofsb (g_sblock g') (g_fssize g)" by (subst (1 2) g') (simp add: dbtofsb_def sd(2))
  show "fs_magic (g_sblock g') = FS_BAD_MAGIC" "fs_old_cgoffset (g_sblock g') = fs_old_cgoffset (g_sblock g)"
    "fs_metaspace (g_sblock g') = fs_metaspace (g_sblock g)" by (subst g', simp add: sb)+
  show "clamp_sizes g = Inr (fs_bsize (g_sblock g'), fs_fsize (g_sblock g'))" using bf by (subst (1 2) g') (simp add: sb)
qed

section \<open>The sections\<close>

lemma howmany_bounds: "0 < y \<Longrightarrow> x \<le> howmany x y * y" "0 < y \<Longrightarrow> howmany x y * y < x + y"
  using roundup_bounds(1,2)[of y x] by (simp_all add: roundup_def howmany_def)

lemma howmany_nonneg: "0 < y \<Longrightarrow> 0 \<le> x \<Longrightarrow> 0 \<le> howmany x y"
  by (simp add: howmany_def pos_imp_zdiv_nonneg_iff)

lemma roundup_id: "0 < y \<Longrightarrow> y dvd x \<Longrightarrow> roundup x y = x"
  by (auto simp: roundup_def elim!: dvdE)

text \<open>In bytes: the superblock, the table, the copy of the superblock behind it, and the group's own block do not
  overlap, and the table has the size that is asked for.\<close>

definition sections_ok :: "int \<Rightarrow> ddfs_fs \<Rightarrow> bool" where
  "sections_ok media fs \<longleftrightarrow> geometry_ok fs \<and> 4096 \<le> fs_bsize fs \<and> fs_bsize fs \<le> 65536 \<and>
     fs_sblockactualloc fs = fs_sblockloc fs \<and> 0 \<le> fs_sblockloc fs \<and> fs_sblockloc fs + SBLOCKSIZE \<le> fs_fsize fs * fs_sblkno fs \<and>
     fs_fsize fs * fs_sblkno fs + SBLOCKSIZE \<le> fs_fsize fs * fs_ddblkno fs \<and>
     0 \<le> fs_dedupfrags fs \<and> fs_frag fs dvd fs_dedupfrags fs \<and> media div DEDUP_FRAC \<le> fs_fsize fs * fs_dedupfrags fs \<and>
     fs_fsize fs * (fs_ddblkno fs + fs_dedupfrags fs) + SBLOCKSIZE \<le> fs_fsize fs * fs_cblkno fs \<and>
     fs_iblkno fs = fs_cblkno fs + fs_frag fs \<and> fs_frag fs dvd fs_iblkno fs \<and> 8 dvd INOPB fs \<and> 0 < INOPB fs \<and>
     INOPB fs = fs_frag fs * INOPF fs"

lemma inode_blocks:
  assumes "geometry_ok fs" "4096 \<le> fs_bsize fs" "fs_inopb fs = fs_bsize fs div 2 ^ k" "k \<le> 8"
  shows "8 dvd INOPB fs" "0 < INOPB fs" "INOPB fs = fs_frag fs * INOPF fs"
proof -
  note g = geometryD[OF assms(1)]
  have "(2 :: int) ^ 12 \<le> 2 ^ fs_bshift fs" using assms(2) g(1) by simp
  then have b: "12 \<le> fs_bshift fs" by (simp only: power_increasing_iff)
  then have i: "fs_inopb fs = 2 ^ (fs_bshift fs - k)" using assms(3,4) g(1) by (simp add: power_diff)
  have "(2 :: int) ^ 3 dvd 2 ^ (fs_bshift fs - k)" by (rule le_imp_power_dvd) (use b assms(4) in linarith)
  then show "8 dvd INOPB fs" by (simp add: INOPB_def i)
  show "0 < INOPB fs" by (simp add: INOPB_def i)
  have "fs_fragshift fs \<le> fs_bshift fs - k" using b g(4) assms(4) by linarith
  then show "INOPB fs = fs_frag fs * INOPF fs"
    by (simp add: INOPB_def INOPF_def i g(3) drop_bit_eq_div flip: power_add power_diff)
qed

lemma section_bounds:
  fixes f r loc media :: int
  assumes "512 \<le> f" "0 < r" "r \<le> 8" "0 \<le> loc" "0 \<le> media" "media < 2 ^ 42"
    and "sb = roundup (howmany (loc + 8192) f) r" "dd = sb + howmany 8192 f"
    and "n = roundup (howmany (roundup (media div 8) f) f) r"
    and "cb = roundup (dd + n) r + roundup (howmany 8192 f) r"
  shows "loc + 8192 \<le> f * sb" "f * sb + 8192 \<le> f * dd" "0 \<le> n" "n < 2 ^ 31" "media div 8 \<le> f * n" "f * (dd + n) + 8192 \<le> f * cb"
    "r dvd n" "r dvd cb"
proof -
  have f: "0 < f" using assms(1) by simp
  have up: "a * f \<le> b * f" if "a \<le> b" for a b using that f by simp
  have "loc + 8192 \<le> howmany (loc + 8192) f * f" using howmany_bounds(1)[OF f] .
  also have "\<dots> \<le> sb * f" unfolding assms(7) by (rule up) (rule roundup_bounds(1)[OF assms(2)])
  finally show "loc + 8192 \<le> f * sb" by (simp add: mult.commute)
  have h: "8192 \<le> howmany 8192 f * f" using howmany_bounds(1)[OF f] .
  then show "f * sb + 8192 \<le> f * dd" unfolding assms(8) by (simp add: algebra_simps)
  define e where "e = howmany (roundup (media div 8) f) f"
  have e: "roundup (media div 8) f \<le> e * f" "e * f < roundup (media div 8) f + f" unfolding e_def by (rule howmany_bounds[OF f])+
  note m = roundup_bounds(1,2)[OF f, of "media div 8"]
  have "media div 8 \<le> e * f" using e(1) m(1) by linarith
  also have "\<dots> \<le> n * f" unfolding assms(9) e_def[symmetric] by (rule up) (rule roundup_bounds(1)[OF assms(2)])
  finally show md: "media div 8 \<le> f * n" by (simp add: mult.commute)
  show "0 \<le> n"
  proof (rule ccontr)
    assume "\<not> 0 \<le> n"
    then have "f * n \<le> f * (- 1)" using f by (intro mult_left_mono) auto
    then show False using md assms(5) f pos_imp_zdiv_nonneg_iff[of 8 media] by simp
  qed
  have "media div 8 < 2 ^ 39" using assms(6) by simp
  then have "e * f < 2 ^ 39 + 2 * f" using e(2) m(2) by linarith
  then have "(e - 2) * f < 2 ^ 39" by (simp add: left_diff_distrib)
  moreover have "(e - 2) * 512 \<le> (e - 2) * f" if "0 \<le> e - 2" using that assms(1) by (intro mult_left_mono)
  ultimately have "e < 2 ^ 31 - 16" by (cases "0 \<le> e - 2") auto
  then show "n < 2 ^ 31" using roundup_bounds(2)[OF assms(2), of e] assms(3) by (simp add: assms(9) e_def[symmetric])
  have "(dd + n) * f + howmany 8192 f * f \<le> cb * f"
    unfolding distrib_right[symmetric] assms(10)
    by (rule up) (intro add_mono roundup_bounds(1)[OF assms(2)])
  then show "f * (dd + n) + 8192 \<le> f * cb" using h by (simp add: mult.commute)
  show "r dvd n" "r dvd cb" using roundup_bounds(3)[OF assms(2)] by (simp_all add: assms(9,10))
qed

lemma sections:
  assumes "geometry_ok (g_sblock g)" "4096 \<le> fs_bsize (g_sblock g)" "fs_bsize (g_sblock g) \<le> 65536" "0 \<le> g_mediasize g" "g_mediasize g < 2 ^ 42"
  shows "sections_ok (g_mediasize g) (g_sblock (sections g))" "same_device g (sections g)" "g_fssize (sections g) = g_fssize g"
    "fs_size (g_sblock (sections g)) = fs_size (g_sblock g)" "fs_metaspace (g_sblock (sections g)) = fs_metaspace (g_sblock g)"
    "fs_old_cgoffset (g_sblock (sections g)) = fs_old_cgoffset (g_sblock g)"
    "fs_sblockloc (g_sblock (sections g)) = (if g_Oflag g = 1 then SBLOCK_UFS1 else SBLOCK_UFS2)"
proof -
  let ?fs = "g_sblock g" and ?fs' = "g_sblock (sections g)"
  define loc where "loc = (if g_Oflag g = 1 then SBLOCK_UFS1 else SBLOCK_UFS2)"
  define k where "k = (if g_Oflag g = 1 then 7 else 8 :: nat)"
  note g = geometryD[OF assms(1)]
  have f: "512 \<le> fs_fsize ?fs" unfolding g(10) by simp
  have r: "0 < fs_frag ?fs" "fs_frag ?fs \<le> 8" using frag_cases[OF assms(1)] by auto
  have "0 \<le> loc" by (simp add: loc_def SBLOCK_UFS1_def SBLOCK_UFS2_def)
  note b = section_bounds[OF f r this assms(4,5) refl refl refl refl]
  have w: "wrap_s 32 (roundup (howmany (roundup (g_mediasize g div 8) (fs_fsize ?fs)) (fs_fsize ?fs)) (fs_frag ?fs)) =
    roundup (howmany (roundup (g_mediasize g div 8) (fs_fsize ?fs)) (fs_fsize ?fs)) (fs_frag ?fs)"
    using b(3,4) by (intro wrap_s_id) auto
  have geo: "geometry_ok ?fs'" using assms(1) by (simp add: geometry_ok_def sections_def Let_def)
  have i: "fs_inopb ?fs' = fs_bsize ?fs' div 2 ^ k" by (simp add: sections_def Let_def sizeof_dinode_def k_def)
  have bs: "fs_bsize ?fs' = fs_bsize ?fs" "fs_fsize ?fs' = fs_fsize ?fs" "fs_frag ?fs' = fs_frag ?fs"
    by (simp_all add: sections_def Let_def)
  have n: "INOPB ?fs' = fs_frag ?fs' * INOPF ?fs'" "8 dvd INOPB ?fs'" "0 < INOPB ?fs'"
    using inode_blocks[OF geo _ i] assms(2) bs by (auto simp: k_def)
  have eqs: "fs_sblockloc ?fs' = loc" "fs_sblockactualloc ?fs' = loc" "fs_sblkno ?fs' = roundup (howmany (loc + 8192) (fs_fsize ?fs)) (fs_frag ?fs)"
    "fs_ddblkno ?fs' = fs_sblkno ?fs' + howmany 8192 (fs_fsize ?fs)"
    "fs_dedupfrags ?fs' = roundup (howmany (roundup (g_mediasize g div 8) (fs_fsize ?fs)) (fs_fsize ?fs)) (fs_frag ?fs)"
    "fs_cblkno ?fs' = roundup (fs_ddblkno ?fs' + fs_dedupfrags ?fs') (fs_frag ?fs) + roundup (howmany 8192 (fs_fsize ?fs)) (fs_frag ?fs)"
    "fs_iblkno ?fs' = fs_cblkno ?fs' + fs_frag ?fs"
    by (simp_all add: sections_def Let_def loc_def SBLOCKSIZE_def DEDUP_FRAC_def w)
  show "sections_ok (g_mediasize g) ?fs'"
    using geo bs assms(2,3) n b \<open>0 \<le> loc\<close> unfolding sections_ok_def SBLOCKSIZE_def DEDUP_FRAC_def by (simp add: eqs)
  show "same_device g (sections g)" "g_fssize (sections g) = g_fssize g" "fs_size ?fs' = fs_size ?fs"
    "fs_metaspace ?fs' = fs_metaspace ?fs" "fs_old_cgoffset ?fs' = fs_old_cgoffset ?fs"
    "fs_sblockloc ?fs' = (if g_Oflag g = 1 then SBLOCK_UFS1 else SBLOCK_UFS2)"
    by (simp_all add: same_device_def sections_def Let_def)
qed

section \<open>The groups\<close>

definition regroups :: "ddfs_fs \<Rightarrow> ddfs_fs \<Rightarrow> bool" where
  "regroups fs fs' \<longleftrightarrow> fs' = fs\<lparr>fs_ipg := fs_ipg fs', fs_fpg := fs_fpg fs', fs_ncg := fs_ncg fs'\<rparr>"

lemma regroups_trans: "regroups a b \<Longrightarrow> regroups b c \<Longrightarrow> regroups a c"
  by (cases a, cases b, cases c) (simp add: regroups_def)

lemma regroups_steps [simp]: "regroups fs fs" "regroups fs (set_ipg n fs)" "regroups fs (fs\<lparr>fs_fpg := p\<rparr>)" "regroups fs (fs\<lparr>fs_ncg := p\<rparr>)"
    "regroups fs (fs\<lparr>fs_ipg := i\<rparr>)" "regroups fs (set_fpg n fs)"
  by (simp_all add: regroups_def set_ipg_def set_fpg_def)

lemma regroups_more: "regroups a b \<Longrightarrow> regroups a (set_ipg n b)" "regroups a b \<Longrightarrow> regroups a (set_fpg m b)"
  by (erule regroups_trans, simp)+

lemma regroups_group_for [simp]: "regroups fs (group_for n fs)"
  unfolding group_for_def Let_def by (intro regroups_more regroups_steps)

lemma regroups_keep:
  assumes "regroups fs fs'"
  shows "sections_ok media fs' = sections_ok media fs" "fs_size fs' = fs_size fs" "INOPB fs' = INOPB fs" "fs_frag fs' = fs_frag fs"
    "fs_magic fs' = fs_magic fs" "fs_metaspace fs' = fs_metaspace fs" "fs_old_cgoffset fs' = fs_old_cgoffset fs" "geometry_ok fs' = geometry_ok fs"
    "fs_iblkno fs' = fs_iblkno fs" "INOPF fs' = INOPF fs" "fs_bsize fs' = fs_bsize fs" "fs_fsize fs' = fs_fsize fs"
    "fs_contigsumsize fs' = fs_contigsumsize fs" "numfrags fs' = numfrags fs" "fragstoblks fs' = fragstoblks fs"
    "fs_sblockloc fs' = fs_sblockloc fs"
  by (subst assms[unfolded regroups_def], simp add: sections_ok_def INOPB_def INOPF_def geometry_ok_def numfrags_def fragstoblks_def fun_eq_iff)+

definition ipg_ok :: "ddfs_fs \<Rightarrow> bool" where
  "ipg_ok fs \<longleftrightarrow> INOPB fs dvd fs_ipg fs \<and> 0 < fs_ipg fs \<and> 0 < fs_fpg fs"

lemma set_ipg_ok: "0 < fs_fpg fs \<Longrightarrow> 1 \<le> n \<Longrightarrow> 0 < INOPB fs \<Longrightarrow> ipg_ok (set_ipg n fs)"
  using howmany_bounds(1)[of n "fs_fpg fs"] roundup_bounds(1,3)[of "INOPB fs" "howmany (fs_fpg fs) n"]
  by (auto simp: ipg_ok_def set_ipg_def INOPB_def zero_less_mult_iff dest: order.strict_trans2)

lemma inode_end_pos:
  assumes "sections_ok media fs" "ipg_ok fs"
  shows "inode_end fs = fs_iblkno fs + fs_ipg fs div INOPF fs" "fs_iblkno fs < inode_end fs" "fs_frag fs dvd inode_end fs"
proof -
  have f: "0 < fs_frag fs" "INOPB fs = fs_frag fs * INOPF fs" "0 < INOPB fs" "fs_frag fs dvd fs_iblkno fs"
    using assms(1) frag_pos by (auto simp: sections_ok_def)
  obtain k where k: "fs_ipg fs = INOPB fs * k" "0 < fs_ipg fs" using assms(2) by (auto simp: ipg_ok_def)
  have "0 < k" using k f(3) by (simp add: zero_less_mult_iff)
  have d: "fs_ipg fs div INOPF fs = fs_frag fs * k" using k(1) f(1-3) by (auto simp: zero_less_mult_iff)
  then show "inode_end fs = fs_iblkno fs + fs_ipg fs div INOPF fs" using f(1,4) by (simp add: inode_end_def roundup_id)
  then show "fs_iblkno fs < inode_end fs" "fs_frag fs dvd inode_end fs" using d f(1,4) \<open>0 < k\<close> by simp_all
qed

lemma sections_pos:
  assumes "sections_ok media fs" "0 \<le> media"
  shows "0 < fs_sblkno fs" "fs_sblkno fs < fs_ddblkno fs" "fs_ddblkno fs + fs_dedupfrags fs < fs_cblkno fs" "fs_cblkno fs < fs_iblkno fs"
    "0 < fs_iblkno fs"
proof -
  have o: "geometry_ok fs" "0 \<le> fs_sblockloc fs" "fs_sblockloc fs + 8192 \<le> fs_fsize fs * fs_sblkno fs"
    "fs_fsize fs * fs_sblkno fs + 8192 \<le> fs_fsize fs * fs_ddblkno fs" "fs_iblkno fs = fs_cblkno fs + fs_frag fs" "0 \<le> fs_dedupfrags fs"
    "fs_fsize fs * (fs_ddblkno fs + fs_dedupfrags fs) + 8192 \<le> fs_fsize fs * fs_cblkno fs"
    using assms(1) by (simp_all add: sections_ok_def SBLOCKSIZE_def)
  have f: "0 < fs_fsize fs" using geometryD(2)[OF o(1)] by simp
  have lt: "a < b" if "fs_fsize fs * a + 8192 \<le> fs_fsize fs * b" for a b
  proof -
    have "fs_fsize fs * a < fs_fsize fs * b" using that by linarith
    then show ?thesis using f by simp
  qed
  show p: "0 < fs_sblkno fs" "fs_sblkno fs < fs_ddblkno fs" "fs_ddblkno fs + fs_dedupfrags fs < fs_cblkno fs" "fs_cblkno fs < fs_iblkno fs"
    using lt[of 0 "fs_sblkno fs"] lt[OF o(4)] lt[OF o(7)] o(2,3,5) frag_pos[OF o(1)] by simp_all
  show "0 < fs_iblkno fs" using p o(6) by linarith
qed

lemma group_for_ok:
  assumes "sections_ok media fs" "0 \<le> media" "1 \<le> n"
  shows "ipg_ok (group_for n fs)" "fs_iblkno fs < fs_fpg (group_for n fs)"
proof -
  have i: "0 < INOPB fs" using assms(1) by (simp add: sections_ok_def)
  have step: "fs_iblkno fs' < fs_fpg (set_fpg m fs')" if "sections_ok media fs'" "INOPB fs' dvd fs_ipg fs'" "0 < fs_ipg fs'" for fs' m
  proof -
    have "ipg_ok (fs'\<lparr>fs_fpg := 1\<rparr>)" using that by (simp add: ipg_ok_def INOPB_def)
    moreover have "sections_ok media (fs'\<lparr>fs_fpg := 1\<rparr>)" using that(1) regroups_keep(1)[OF regroups_steps(3)] by simp
    ultimately have "fs_iblkno fs' < inode_end (fs'\<lparr>fs_fpg := 1\<rparr>)" using inode_end_pos(2)[of media "fs'\<lparr>fs_fpg := 1\<rparr>"] by simp
    then show ?thesis by (simp add: set_fpg_def inode_end_def INOPF_def max_def)
  qed
  have pos: "0 < fs_iblkno fs" using sections_pos(5)[OF assms(1,2)] .
  define m where "m = min (n * INOPB fs) (fs_size fs)"
  define fs1 where "fs1 = set_fpg m (fs\<lparr>fs_ipg := INOPB fs\<rparr>)"
  have r1: "regroups fs fs1" by (simp add: fs1_def set_fpg_def regroups_def)
  have s0: "regroups fs (fs\<lparr>fs_ipg := INOPB fs\<rparr>)" by (simp add: regroups_def)
  have "fs_iblkno fs < fs_fpg fs1" unfolding fs1_def
    using step[of "fs\<lparr>fs_ipg := INOPB fs\<rparr>" m] i assms(1) regroups_keep(1)[OF s0] by (simp add: INOPB_def)
  then have o1: "ipg_ok (set_ipg n fs1)" using set_ipg_ok assms(3) i pos regroups_keep(3)[OF r1] by simp
  have r2: "regroups fs (set_ipg n fs1)" by (rule regroups_trans[OF r1]) simp
  define fs2 where "fs2 = set_fpg m (set_ipg n fs1)"
  have p2: "fs_iblkno fs < fs_fpg fs2" unfolding fs2_def
    using step[of "set_ipg n fs1" m] o1 assms(1) regroups_keep(1,9)[OF r2] by (simp add: ipg_ok_def)
  moreover have "INOPB fs2 = INOPB fs" using regroups_keep(3)[OF r2] by (simp add: fs2_def set_fpg_def INOPB_def)
  ultimately have "ipg_ok (set_ipg n fs2)" using set_ipg_ok assms(3) i pos by simp
  then show "ipg_ok (group_for n fs)" "fs_iblkno fs < fs_fpg (group_for n fs)"
    using p2 by (simp_all add: group_for_def Let_def fs2_def fs1_def m_def) (simp add: set_ipg_def)
qed

lemma density_loop:
  assumes "density_loop minfpi dens fs = Inr (Fits n fs')" "sections_ok media fs" "0 \<le> media"
  shows "regroups fs fs' \<and> ipg_ok fs' \<and> 1 \<le> n \<and> CGSIZE fs' < fs_bsize fs'"
  using assms
proof (induction minfpi dens fs rule: density_loop.induct)
  case (1 minfpi dens fs)
  define n' where "n' = max (numfrags fs dens) 1"
  define fs1 where "fs1 = group_for n' fs"
  have r: "regroups fs fs1" by (simp add: fs1_def)
  have u: "(if n' < minfpi then Inr (Restart dens) else if CGSIZE fs1 < fs_bsize fs then Inr (Fits n' fs1)
      else if fs_fsize fs \<le> 0 then Inl Never else if dens - fs_fsize fs < - (2 ^ 31) then Inl Overflow
      else density_loop minfpi (dens - fs_fsize fs) fs1) = Inr (Fits n fs')"
    using "1.prems"(1)[unfolded density_loop.simps[of minfpi dens fs] Let_def, folded n'_def, folded fs1_def] .
  show ?case
  proof (cases "CGSIZE fs1 < fs_bsize fs")
    case True
    then have "n = n'" "fs' = fs1" using u by (auto split: if_splits)
    then show ?thesis using r True group_for_ok[OF "1.prems"(2,3), of n'] regroups_keep(11)[OF r] by (simp add: fs1_def n'_def)
  next
    case False
    then have l: "density_loop minfpi (dens - fs_fsize fs) fs1 = Inr (Fits n fs')" "\<not> n' < minfpi" "\<not> fs_fsize fs \<le> 0"
      "\<not> dens - fs_fsize fs < - (2 ^ 31)" using u by (auto split: if_splits)
    have "regroups fs1 fs' \<and> ipg_ok fs' \<and> 1 \<le> n \<and> CGSIZE fs' < fs_bsize fs'"
      by (rule "1.IH"[OF n'_def fs1_def l(2) False l(3,4,1)]) (use "1.prems"(2,3) regroups_keep(1)[OF r] in simp_all)
    then show ?thesis using regroups_trans[OF r] by blast
  qed
qed

text \<open>The later loops keep the number of inodes a multiple of what a block on_disk.\<close>

definition ipg_mult :: "ddfs_fs \<Rightarrow> bool" where
  "ipg_mult fs \<longleftrightarrow> INOPB fs dvd fs_ipg fs \<and> (0 < fs_fpg fs \<longrightarrow> 0 < fs_ipg fs)"

lemma set_ipg_mult: "1 \<le> n \<Longrightarrow> 0 < INOPB fs \<Longrightarrow> ipg_mult (set_ipg n fs)"
  using set_ipg_ok[of fs n] roundup_bounds(3)[of "INOPB fs" "howmany (fs_fpg fs) n"]
  by (auto simp: ipg_mult_def ipg_ok_def set_ipg_def INOPB_def)

lemma pack_loop:
  assumes "pack_loop g n fs = Inr fs'" "ipg_mult fs" "1 \<le> n" "0 < INOPB fs" "0 < fs_fpg fs" "0 < fs_frag fs"
  shows "regroups fs fs' \<and> ipg_mult fs'"
  using assms
proof (induction g n fs rule: pack_loop.induct)
  case (1 g n fs)
  define fs1 where "fs1 = set_ipg n fs"
  define less where "less = set_ipg n (fs1\<lparr>fs_fpg := fs_fpg fs1 - fs_frag fs1\<rparr>)"
  define more where "more = fs1\<lparr>fs_fpg := fs_fpg fs1 + fs_frag fs1\<rparr>"
  have r: "regroups fs fs1" "regroups fs1 less" "regroups fs1 more"
    unfolding less_def by (intro regroups_more regroups_steps | simp add: fs1_def more_def)+
  note i = regroups_keep(3)[OF r(1)] regroups_keep(4)[OF r(1)]
  have m: "ipg_mult fs1" "ipg_mult less" unfolding fs1_def less_def using "1.prems"(3,4) i
    by (simp_all add: set_ipg_mult INOPB_def fs1_def)
  have o: "0 < fs_ipg fs1" "INOPB fs1 dvd fs_ipg fs1" "fs_fpg fs1 = fs_fpg fs" using m(1) "1.prems"(5) by (simp_all add: ipg_mult_def fs1_def set_ipg_def)
  note u = "1.prems"(1)[unfolded pack_loop.simps[of g n fs] Let_def, folded fs1_def, folded less_def more_def]
  show ?case
  proof (cases "fs' = fs \<or> fs' = fs1 \<or> fs' = less")
    case True
    then show ?thesis using r m "1.prems"(2) regroups_trans by auto
  next
    case False
    then have c: "fs_fpg fs < g_maxblkspercg g" "1 < g_Oflag g \<or> g_Oflag g = 1 \<and> fs_ipg fs1 \<le> 0x7fff" "fs_fpg fs1 \<noteq> 0"
      "\<not> fs_size fs1 div fs_fpg fs1 < MINCYLGRPS" "CGSIZE fs1 < fs_bsize fs1" "\<not> fs_frag fs1 \<le> 0" "pack_loop g n more = Inr fs'"
      using u by (simp_all split: if_splits)
    have "regroups more fs' \<and> ipg_mult fs'"
      by (rule "1.IH"[OF c(1) fs1_def less_def c(2-6), folded more_def, OF c(7)])
        (use "1.prems"(3-6) i o in \<open>simp_all add: more_def ipg_mult_def INOPB_def\<close>)
    then show ?thesis using r regroups_trans by blast
  qed
qed

definition groups_ok :: "ddfs_fs \<Rightarrow> bool" where
  "groups_ok fs \<longleftrightarrow> ipg_ok fs \<and> fs_ncg fs = howmany (fs_size fs) (fs_fpg fs) \<and> inode_end fs \<le> fs_size fs \<and>
     (inode_end fs \<le> fs_size fs mod fs_fpg fs \<or> fs_size fs mod fs_fpg fs = 0)"

lemma last_loop:
  assumes "last_loop n fs = Inr fs'" "ipg_mult fs" "1 \<le> n" "0 < INOPB fs"
  shows "regroups fs fs' \<and> groups_ok fs'"
  using assms
proof (induction n fs rule: last_loop.induct)
  case (1 n fs)
  define fs1 where "fs1 = fs\<lparr>fs_ncg := howmany (fs_size fs) (fs_fpg fs)\<rparr>"
  define next_fs where "next_fs = set_ipg n (fs1\<lparr>fs_fpg := fs_fpg fs1 - fs_frag fs1\<rparr>)"
  have r: "regroups fs fs1" "regroups fs1 next_fs" unfolding next_fs_def by (simp add: fs1_def) (intro regroups_more regroups_steps)
  note i = regroups_keep(3)[OF r(1)] regroups_keep(3)[OF r(2)]
  have fpg: "\<not> fs_fpg fs \<le> 0" using "1.prems"(1) by (subst (asm) last_loop.simps) (simp split: if_splits)
  note u = "1.prems"(1)[unfolded last_loop.simps[of n fs] Let_def if_not_P[OF fpg], folded fs1_def, folded next_fs_def]
  show ?case
  proof (cases "inode_end fs1 \<le> fs_size fs1 mod fs_fpg fs1 \<or> fs_size fs1 mod fs_fpg fs1 = 0")
    case True
    then have "fs' = fs1" "\<not> fs_size fs1 < inode_end fs1" using u by (simp_all split: if_splits)
    then show ?thesis using r True "1.prems"(2) fpg i by (simp add: groups_ok_def ipg_ok_def ipg_mult_def) (simp add: fs1_def)
  next
    case False
    then have l: "\<not> fs_size fs1 < inode_end fs1" "\<not> fs_frag fs1 \<le> 0" "last_loop n next_fs = Inr fs'"
      using u by (simp_all split: if_splits)
    have "ipg_mult next_fs" unfolding next_fs_def using "1.prems"(3,4) i by (intro set_ipg_mult) (simp_all add: INOPB_def fs1_def)
    then have "regroups next_fs fs' \<and> groups_ok fs'"
      by (rule "1.IH"[OF fpg fs1_def l(1) False l(2), folded next_fs_def, OF l(3)]) (use "1.prems"(3,4) i in simp_all)
    then show ?thesis using r regroups_trans by blast
  qed
qed

definition device_ok :: "newfs \<Rightarrow> bool" where
  "device_ok g \<longleftrightarrow> g_sectorsize g = 512 \<and> 0 \<le> g_fssize g \<and> 512 * g_fssize g \<le> g_mediasize g \<and> g_mediasize g < 2 ^ 42"

lemma size_bytes:
  assumes "geometry_ok fs" "0 \<le> n"
  shows "fs_fsize fs * dbtofsb fs n \<le> 512 * n" "0 \<le> dbtofsb fs n" "dbtofsb fs n \<le> n"
proof -
  have "2 ^ fs_fsbtodb fs * (n div 2 ^ fs_fsbtodb fs) \<le> n" by (simp add: minus_mod_eq_mult_div[symmetric])
  then show "fs_fsize fs * dbtofsb fs n \<le> 512 * n" unfolding geometryD(10)[OF assms(1)] by (simp add: dbtofsb_def drop_bit_eq_div)
  show "0 \<le> dbtofsb fs n" using assms(2) by (simp add: dbtofsb_def)
  show "dbtofsb fs n \<le> n" using assms(2) by (simp add: dbtofsb_def drop_bit_eq_div zdiv_mono2[of n 1 "2 ^ fs_fsbtodb fs", simplified])
qed

lemma set_density: "g_sblock (set_density m g) = g_sblock g" "same_device g (set_density m g)" "g_fssize (set_density m g) = g_fssize g"
  by (simp_all add: set_density_def same_device_def)

definition grouped :: "newfs \<Rightarrow> newfs \<Rightarrow> bool" where
  "grouped g g' \<longleftrightarrow> same_device g g' \<and> sections_ok (g_mediasize g) (g_sblock g') \<and> groups_ok (g_sblock g') \<and>
     0 \<le> fs_size (g_sblock g') \<and> fs_size (g_sblock g') \<le> g_fssize g \<and> fs_fsize (g_sblock g') * fs_size (g_sblock g') \<le> g_mediasize g \<and>
     fs_metaspace (g_sblock g') = fs_metaspace (g_sblock g) \<and> fs_old_cgoffset (g_sblock g') = fs_old_cgoffset (g_sblock g) \<and>
     fs_sblockloc (g_sblock g') = (if g_Oflag g = 1 then SBLOCK_UFS1 else SBLOCK_UFS2)"

lemma groups_grouped:
  assumes "groups g = Inr g'" "device_ok g"
  shows "grouped g g'"
  using assms
proof (induction g rule: groups.induct)
  case (1 g)
  have d: "g_sectorsize g = 512" "0 \<le> g_fssize g" "512 * g_fssize g \<le> g_mediasize g" "g_mediasize g < 2 ^ 42" "0 \<le> g_mediasize g"
    using "1.prems"(2) by (simp_all add: device_ok_def)
  obtain g1 where g1: "block_sizes g = Inr g1"
    using "1.prems"(1)[unfolded groups.simps[of g]] by (cases "block_sizes g") auto
  note b = block_sizes[OF g1 d(1)]
  define g2 where "g2 = set_density (min_frags (sections g1)) (sections g1)"
  have m: "g_mediasize g1 = g_mediasize g" using b(4) by (simp add: same_device_def)
  note sc = sections[OF b(1-3), unfolded m, OF d(5,4)]
  have sd: "same_device g g2" using b(4) sc(2) set_density(2) same_device_trans unfolding g2_def by blast
  have sb: "g_sblock g2 = g_sblock (sections g1)" "g_fssize g2 = g_fssize g1" using sc(3) by (simp_all add: g2_def set_density)
  note len = size_bytes[OF b(1) d(2), folded b(6)]
  have size: "0 \<le> fs_size (g_sblock g2)" "fs_size (g_sblock g2) \<le> g_fssize g" "fs_fsize (g_sblock g2) * fs_size (g_sblock g2) \<le> g_mediasize g"
  proof -
    have "fs_fsize (g_sblock (sections g1)) = fs_fsize (g_sblock g1)" by (simp add: sections_def Let_def)
    then show "0 \<le> fs_size (g_sblock g2)" "fs_size (g_sblock g2) \<le> g_fssize g" "fs_fsize (g_sblock g2) * fs_size (g_sblock g2) \<le> g_mediasize g"
      using len b(5) d(3) sc(4) by (simp_all add: sb)
  qed
  obtain r where r: "density_loop (min_frags g2) (g_density g2) (g_sblock g2) = Inr r"
    using "1.prems"(1)[unfolded groups.simps[of g], unfolded g1 sum.case Let_def, folded g2_def]
    by (cases "density_loop (min_frags g2) (g_density g2) (g_sblock g2)") auto
  show ?case
  proof (cases r)
    case (Restart dn)
    define g3 where "g3 = g2\<lparr>g_bsize := 2 * g_bsize g, g_fsize := 2 * g_fsize g, g_density := dn\<rparr>"
    have c: "\<not> g_bsize g \<le> 0" "\<not> (2 ^ 30 \<le> g_bsize g \<or> 2 ^ 30 \<le> g_fsize g)" "groups g3 = Inr g'"
      using "1.prems"(1)[unfolded groups.simps[of g], unfolded g1 sum.case Let_def, folded g2_def, unfolded r sum.case Restart density.case]
      by (simp_all add: g3_def split: if_splits)
    have "device_ok g3" using d sd sb(2) len by (simp add: device_ok_def same_device_def g3_def)
    then have "grouped g3 g'" by (rule "1.IH"[OF g1 g2_def r Restart c(1,2), folded g3_def, OF c(3)])
    moreover have "g_fssize g3 \<le> g_fssize g" using sb(2) len(3) by (simp add: g3_def)
    moreover have "same_device g g3" "fs_metaspace (g_sblock g3) = fs_metaspace (g_sblock g)" "fs_old_cgoffset (g_sblock g3) = fs_old_cgoffset (g_sblock g)"
      using sd sb(1) sc(5,6) b(8,9) by (simp_all add: same_device_def g3_def)
    ultimately show ?thesis unfolding grouped_def using same_device_trans[of g g3 g'] by (simp add: same_device_def)
  next
    case (Fits n fs)
    have fits: "density_loop (min_frags g2) (g_density g2) (g_sblock g2) = Inr (Fits n fs)" using r Fits by simp
    obtain fs1 fs2 where l: "pack_loop g2 n fs = Inr fs1" "last_loop n fs1 = Inr fs2" "g' = g2\<lparr>g_sblock := fs2\<rparr>"
      using "1.prems"(1)[unfolded groups.simps[of g], unfolded g1 sum.case Let_def, folded g2_def, unfolded r sum.case Fits density.case]
      by (auto split: sum.splits simp: map_sum_def)
    have so: "sections_ok (g_mediasize g) (g_sblock g2)" using sc(1) by (simp add: sb)
    then have pos: "0 < INOPB (g_sblock g2)" "0 < fs_frag (g_sblock g2)" using frag_pos by (auto simp: sections_ok_def)
    have f: "regroups (g_sblock g2) fs" "ipg_ok fs" "1 \<le> n" using density_loop[OF fits so d(5)] by blast+
    note k = regroups_keep[OF f(1)]
    have p: "regroups fs fs1" "ipg_mult fs1"
      using pack_loop[OF l(1)] f(2,3) pos by (simp_all add: k ipg_mult_def ipg_ok_def)
    have q: "regroups fs1 fs2" "groups_ok fs2" using last_loop[OF l(2) p(2) f(3)] pos k regroups_keep[OF p(1)] by simp_all
    have "regroups (g_sblock g2) fs2" using regroups_trans f(1) p(1) q(1) by blast
    note k2 = regroups_keep[OF this]
    show ?thesis using so q(2) sd size b(4,8,9) sc(5-7)
      by (simp add: grouped_def l(3) k2 same_device_def sb(1)[symmetric])
  qed
qed

section \<open>The superblock\<close>

definition rest_ok :: "ddfs_fs \<Rightarrow> bool" where
  "rest_ok fs \<longleftrightarrow> fs_dblkno fs = inode_end fs \<and> fs_csaddr fs = fs_dblkno fs \<and> fs_cgsize fs = roundup (CGSIZE fs) (fs_fsize fs) \<and>
     fs_cssize fs = roundup (fs_ncg fs * sizeof_csum) (fs_fsize fs) \<and> 0 \<le> fs_metaspace fs \<and> fs_ronly fs = 0 \<and>
     (let csfrags = howmany (fs_cssize fs) (fs_fsize fs); dsize = fs_size fs - fs_sblkno fs - fs_ncg fs * (fs_dblkno fs - fs_sblkno fs) in
      cst_nbfree (fs_cstotal fs) = dsize div fs_frag fs - howmany csfrags (fs_frag fs) \<and>
      cst_nffree (fs_cstotal fs) = fs_size fs mod fs_frag fs +
        (if 0 < csfrags mod fs_frag fs then fs_frag fs - csfrags mod fs_frag fs else 0) \<and>
      cst_nifree (fs_cstotal fs) = fs_ncg fs * fs_ipg fs - UFS_ROOTINO \<and> cst_ndir (fs_cstotal fs) = 0)"

lemma superblock_keep:
  "sections_ok media (superblock g) = sections_ok media (g_sblock g)" "groups_ok (superblock g) = groups_ok (g_sblock g)"
  "fs_size (superblock g) = fs_size (g_sblock g)" "fs_fsize (superblock g) = fs_fsize (g_sblock g)" "fs_optim (superblock g) = g_opt g"
  "fs_ncg (superblock g) = fs_ncg (g_sblock g)" "fs_frag (superblock g) = fs_frag (g_sblock g)" "fs_bsize (superblock g) = fs_bsize (g_sblock g)"
  by (simp_all add: superblock_def Let_def sections_ok_def groups_ok_def INOPB_def INOPF_def geometry_ok_def ipg_ok_def inode_end_def)

lemma metaspace_nonneg:
  assumes "geometry_ok fs" "0 \<le> x"
  shows "0 \<le> blknum fs x"
  using assms frag_pos[OF assms(1)] by (simp add: macros_div pos_imp_zdiv_nonneg_iff)

lemma superblock_rest:
  assumes "sections_ok media (g_sblock g)" "groups_ok (g_sblock g)" "fs_old_cgoffset (g_sblock g) = 0" "0 \<le> fs_metaspace (g_sblock g)" "0 \<le> g_minfree g"
  shows "rest_ok (superblock g)"
proof -
  let ?fs = "g_sblock g" and ?s = "superblock g"
  have geo: "geometry_ok ?fs" and ipg: "ipg_ok ?fs" using assms(1,2) by (simp_all add: sections_ok_def groups_ok_def)
  have "sections_ok media ?s" using assms(1) by (simp only: superblock_keep(1))
  then have geos: "geometry_ok ?s" by (simp add: sections_ok_def)
  have e: "inode_end ?s = inode_end ?fs" by (simp add: inode_end_def superblock_def Let_def INOPF_def)
  have f: "fs_dblkno ?s = fs_iblkno ?fs + fs_ipg ?fs div INOPF ?fs" "fs_csaddr ?s = fs_dblkno ?s"
    "fs_cgsize ?s = fragroundup ?s (CGSIZE ?s)" "fs_cssize ?s = fragroundup ?s (fs_ncg ?s * sizeof_csum)" "fs_ronly ?s = 0"
    by (simp_all add: superblock_def Let_def cgdmin_def cgstart_def cgbase_def assms(3) fragroundup_def CGSIZE_def fragstoblks_def INOPF_def)
  have m: "0 \<le> fs_metaspace ?s"
  proof -
    have "fs_metaspace ?s = (if 0 < g_metaspace g \<and> g_metaspace g < fs_fpg ?fs div 2 then blknum ?fs (g_metaspace g)
        else if g_metaspace g \<noteq> - 1 then blknum ?fs (fs_fpg ?fs * g_minfree g div 200) else fs_metaspace ?fs)"
      by (simp add: superblock_def Let_def blknum_def)
    moreover have "0 \<le> fs_fpg ?fs * g_minfree g div 200" using ipg assms(5) by (simp add: ipg_ok_def pos_imp_zdiv_nonneg_iff)
    ultimately show ?thesis using metaspace_nonneg[OF geo] assms(4) by simp
  qed
  define csf where "csf = howmany (fs_cssize ?s) (fs_fsize ?s)"
  define dsz where "dsz = fs_size ?s - fs_sblkno ?s - fs_ncg ?s * (fs_dblkno ?s - fs_sblkno ?s)"
  have t: "cst_nbfree (fs_cstotal ?s) = fragstoblks ?s dsz - howmany csf (fs_frag ?s)"
    "cst_nffree (fs_cstotal ?s) = fragnum ?s (fs_size ?s) + (if 0 < fragnum ?s csf then fs_frag ?s - fragnum ?s csf else 0)"
    "cst_nifree (fs_cstotal ?s) = fs_ncg ?s * fs_ipg ?s - UFS_ROOTINO" "cst_ndir (fs_cstotal ?s) = 0"
    by (simp_all add: superblock_def Let_def csf_def dsz_def fragstoblks_def fragnum_def)
  show ?thesis unfolding rest_ok_def Let_def csf_def[symmetric] dsz_def[symmetric]
    using f(1) inode_end_pos(1)[OF assms(1) ipg] m
    by (simp add: e f(2-5) t roundups[OF geos] macros_div[OF geos])
qed

text \<open>Everything the layout promises.\<close>

definition newfs_layout_ok :: "int \<Rightarrow> ddfs_fs \<Rightarrow> bool" where
  "newfs_layout_ok media fs \<longleftrightarrow> sections_ok media fs \<and> groups_ok fs \<and> rest_ok fs \<and> 0 \<le> fs_size fs \<and> fs_fsize fs * fs_size fs \<le> media"

text \<open>\<open>disk.d_fs\<close> is static memory, zero at the start.\<close>

definition options_ok :: "newfs \<Rightarrow> bool" where
  "options_ok g \<longleftrightarrow> device_ok g \<and> 0 \<le> g_minfree g \<and> fs_metaspace (g_sblock g) = 0 \<and> fs_old_cgoffset (g_sblock g) = 0"

lemma layout:
  assumes "mkfs_layout g = Inr g'" "options_ok g"
  shows "newfs_layout_ok (g_mediasize g) (g_sblock g')" "same_device g g'" "fs_optim (g_sblock g') = g_opt g" "fs_size (g_sblock g') \<le> g_fssize g"
    "fs_sbsize (g_sblock g') \<le> max SBLOCKSIZE (g_realsectorsize g)" "fs_sblockloc (g_sblock g') = (if g_Oflag g = 1 then SBLOCK_UFS1 else SBLOCK_UFS2)"
proof -
  define g1 where "g1 = g\<lparr>g_sblock := (g_sblock g)\<lparr>fs_avgfilesize := g_avgfilesize g, fs_avgfpdir := g_avgfilesperdir g\<rparr>\<rparr>"
  obtain g2 where g2: "groups g1 = Inr g2" "g' = g2\<lparr>g_sblock := superblock g2\<rparr>"
    using assms(1) by (auto simp: mkfs_layout_def g1_def map_sum_def split: if_splits sum.splits)
  have o: "device_ok g1" "fs_old_cgoffset (g_sblock g1) = 0" "fs_metaspace (g_sblock g1) = 0" "0 \<le> g_minfree g1" "same_device g g1"
    using assms(2) by (simp_all add: options_ok_def device_ok_def g1_def same_device_def)
  note gr = groups_grouped[OF g2(1) o(1), unfolded grouped_def]
  then have d: "same_device g g2" using same_device_trans o(5) by blast
  then have "rest_ok (superblock g2)" using gr o(2-4) by (intro superblock_rest[of "g_mediasize g"]) (simp_all add: same_device_def g1_def)
  then show "newfs_layout_ok (g_mediasize g) (g_sblock g')" using gr by (simp add: newfs_layout_ok_def g2(2) superblock_keep g1_def)
  show "same_device g g'" using d by (simp add: same_device_def g2(2))
  show "fs_optim (g_sblock g') = g_opt g" using d by (simp add: same_device_def g2(2) superblock_keep)
  show "fs_size (g_sblock g') \<le> g_fssize g" using gr by (simp add: g2(2) superblock_keep g1_def)
  show "fs_sbsize (g_sblock g') \<le> max SBLOCKSIZE (g_realsectorsize g)" using d by (simp add: same_device_def g2(2) superblock_def Let_def)
  show "fs_sblockloc (g_sblock g') = (if g_Oflag g = 1 then SBLOCK_UFS1 else SBLOCK_UFS2)"
    using gr by (simp add: g2(2) superblock_def Let_def g1_def)
qed

section \<open>A device that is too large\<close>

lemma group_for_large:
  assumes "sections_ok media fs" "0 \<le> media" "1 \<le> n" "8 * fs_bsize fs \<le> fs_iblkno fs"
  shows "\<not> CGSIZE (group_for n fs) < fs_bsize fs"
proof -
  let ?g = "group_for n fs"
  have g: "ipg_ok ?g" "fs_iblkno fs < fs_fpg ?g" using group_for_ok[OF assms(1-3)] .
  have geo: "geometry_ok ?g" using assms(1) regroups_keep(8)[OF regroups_group_for] by (simp add: sections_ok_def)
  have "fs_fpg ?g \<le> howmany (fs_fpg ?g) 8 * 8" by (rule howmany_bounds(1)) simp
  then have "fs_bsize fs \<le> howmany (fs_fpg ?g) 8" using g(2) assms(4) by linarith
  moreover have "0 \<le> howmany (fs_ipg ?g) 8" "0 \<le> howmany (fragstoblks ?g (fs_fpg ?g)) 8"
    using g(1) frag_pos[OF geo] by (auto intro!: howmany_nonneg simp: ipg_ok_def macros_div[OF geo] pos_imp_zdiv_nonneg_iff)
  ultimately show ?thesis by (simp add: CGSIZE_def)
qed

lemma density_diverges:
  assumes "sections_ok media fs" "0 \<le> media" "8 * fs_bsize fs \<le> fs_iblkno fs"
  shows "density_loop 1 dens fs = Inl Overflow"
  using assms
proof (induction "1 :: int" dens fs rule: density_loop.induct)
  case (1 dens fs)
  define n where "n = max (numfrags fs dens) 1"
  define fs1 where "fs1 = group_for n fs"
  have n: "\<not> n < 1" "1 \<le> n" by (simp_all add: n_def)
  have large: "\<not> CGSIZE fs1 < fs_bsize fs" unfolding fs1_def by (rule group_for_large[OF "1.prems"(1,2) n(2) "1.prems"(3)])
  have f: "\<not> fs_fsize fs \<le> 0" using "1.prems"(1) geometryD(2)[of fs] by (simp add: sections_ok_def)
  note k = regroups_keep[OF regroups_group_for[of fs n], folded fs1_def]
  note u = density_loop.simps[of 1 dens fs, unfolded Let_def, folded n_def, folded fs1_def, unfolded if_not_P[OF n(1)] if_not_P[OF large] if_not_P[OF f]]
  show ?case
  proof (cases "dens - fs_fsize fs < - (2 ^ 31)")
    case True
    then show ?thesis unfolding u by simp
  next
    case False
    have "density_loop 1 (dens - fs_fsize fs) fs1 = Inl Overflow"
      by (rule "1.hyps"[OF n_def fs1_def n(1) large f False]) (use "1.prems" k in simp_all)
    then show ?thesis using False unfolding u by simp
  qed
qed

text \<open>The table takes an eighth of the device, of every group; a map of it must fit a block.\<close>

lemma groups_diverges:
  assumes "block_sizes g = Inr g1" "device_ok g" "64 * (fs_bsize (g_sblock g1) * fs_fsize (g_sblock g1)) \<le> g_mediasize g" "g_mediasize g < 2 ^ 40"
  shows "groups g = Inl Overflow"
proof -
  have d: "g_sectorsize g = 512" "0 \<le> g_fssize g" "512 * g_fssize g \<le> g_mediasize g" "0 \<le> g_mediasize g" "g_mediasize g < 2 ^ 42"
    using assms(2,4) by (simp_all add: device_ok_def)
  note b = block_sizes[OF assms(1) d(1)]
  have m: "g_mediasize g1 = g_mediasize g" using b(4) by (simp add: same_device_def)
  note sc = sections[OF b(1-3), unfolded m, OF d(4,5)]
  define g2 where "g2 = set_density (min_frags (sections g1)) (sections g1)"
  have sb: "g_sblock g2 = g_sblock (sections g1)" "g_fssize g2 = g_fssize g1" using sc(3) by (simp_all add: g2_def set_density)
  have so: "sections_ok (g_mediasize g) (g_sblock g2)" using sc(1) by (simp add: sb)
  have f: "fs_fsize (g_sblock g2) = fs_fsize (g_sblock g1)" "fs_bsize (g_sblock g2) = fs_bsize (g_sblock g1)"
    by (simp_all add: sb sections_def Let_def)
  have "INOPB (g_sblock g2) \<le> fs_bsize (g_sblock g1)"
    using order.strict_implies_order[OF int_div_less_self[of "fs_bsize (g_sblock g1)" 128]]
      order.strict_implies_order[OF int_div_less_self[of "fs_bsize (g_sblock g1)" 256]] b(2)
    by (simp add: sb sections_def Let_def INOPB_def sizeof_dinode_def)
  moreover have "g_fssize g1 < 2 ^ 31" using size_bytes(3)[OF b(1) d(2)] b(6) d(3) assms(4) by simp
  ultimately have one: "min_frags g2 = 1"
    using b(3) size_bytes(2)[OF b(1) d(2)] b(6) by (simp add: min_frags_def sb(2) div_pos_pos_trivial)
  have "g_mediasize g div DEDUP_FRAC \<le> fs_fsize (g_sblock g2) * fs_dedupfrags (g_sblock g2)" using so by (simp add: sections_ok_def)
  then have "fs_fsize (g_sblock g2) * (8 * fs_bsize (g_sblock g2)) \<le> fs_fsize (g_sblock g2) * fs_dedupfrags (g_sblock g2)"
    using assms(3) by (simp add: f DEDUP_FRAC_def algebra_simps)
  moreover have "0 < fs_fsize (g_sblock g2)" using so geometryD(2)[of "g_sblock g2"] by (simp add: sections_ok_def)
  ultimately have "8 * fs_bsize (g_sblock g2) \<le> fs_dedupfrags (g_sblock g2)" by (simp only: mult_le_cancel_left_pos)
  then have "8 * fs_bsize (g_sblock g2) \<le> fs_iblkno (g_sblock g2)" using sections_pos[OF so d(4)] by linarith
  then have "density_loop 1 (g_density g2) (g_sblock g2) = Inl Overflow" by (rule density_diverges[OF so d(4)])
  then show ?thesis unfolding groups.simps[of g] assms(1) by (simp add: g2_def[symmetric] one)
qed

lemma default_sizes:
  assumes "g_bsize g = 4096" "g_fsize g = 4096" "g_sectorsize g = 512"
  obtains g1 where "block_sizes g = Inr g1" "fs_bsize (g_sblock g1) = 4096" "fs_fsize (g_sblock g1) = 4096"
proof -
  have c: "clamp_sizes g = Inr (4096, 4096)"
    by (simp add: clamp_sizes_def assms POWEROF2_def MAXBSIZE_def MINBSIZE_def MAXFRAG_def)
  have "ilog2 4096 = Inr 12" "ilog2 1 = Inr 0" "ilog2 8 = Inr 3" by code_simp+
  then obtain g1 where g1: "block_sizes g = Inr g1"
    using c by (simp add: block_sizes_def Let_def assms(3) MAXFRAG_def drop_bit_eq_div)
  then have "fs_bsize (g_sblock g1) = 4096" "fs_fsize (g_sblock g1) = 4096"
    using block_sizes(10)[OF g1 assms(3)] c by simp_all
  with g1 show ?thesis by (rule that)
qed

end
