(* ===== verification/Newfs_Group.thy ===== *)
theory Newfs_Group
  imports Newfs_Layout Ddfs_Inodes
begin

text \<open>
  \<open>initcg\<close> of \<open>deduplicating-fs/tools/newfs-ddfs/mkfs.c\<close>: the first contents of a cylinder group. The group
  it builds has counts that agree with its maps, whatever the size of a fragment; its free fragments are those
  behind the group's own metadata and, in all groups but the first, the blocks in front of the superblock's copy.
\<close>

section \<open>Definitions\<close>

subsection \<open>Blocks of a map\<close>

text \<open>The program has its own block operations; on a number of fragments they do not know they print a message.\<close>

definition newfs_isblock :: "ddfs_fs \<Rightarrow> byte list \<Rightarrow> nat \<Rightarrow> bool" where
  "newfs_isblock fs cp h =
     (if fs_frag fs = 8 then cp ! h = 0xff
      else if fs_frag fs = 4 then (let msk = push_bit ((h mod 2) * 4) 0x0f in cp ! (h div 2) AND msk = msk)
      else if fs_frag fs = 2 then (let msk = push_bit ((h mod 4) * 2) 0x03 in cp ! (h div 4) AND msk = msk)
      else if fs_frag fs = 1 then (let msk = push_bit (h mod 8) 0x01 in cp ! (h div 8) AND msk = msk)
      else False)"

definition newfs_clrblock :: "ddfs_fs \<Rightarrow> byte list \<Rightarrow> nat \<Rightarrow> byte list" where
  "newfs_clrblock fs cp h =
     (if fs_frag fs = 8 then cp[h := 0]
      else if fs_frag fs = 4 then cp[h div 2 := cp ! (h div 2) AND NOT (push_bit ((h mod 2) * 4) 0x0f)]
      else if fs_frag fs = 2 then cp[h div 4 := cp ! (h div 4) AND NOT (push_bit ((h mod 4) * 2) 0x03)]
      else if fs_frag fs = 1 then cp[h div 8 := cp ! (h div 8) AND NOT (push_bit (h mod 8) 0x01)]
      else cp)"

definition newfs_setblock :: "ddfs_fs \<Rightarrow> byte list \<Rightarrow> nat \<Rightarrow> byte list" where
  "newfs_setblock fs cp h =
     (if fs_frag fs = 8 then cp[h := 0xff]
      else if fs_frag fs = 4 then cp[h div 2 := cp ! (h div 2) OR push_bit ((h mod 2) * 4) 0x0f]
      else if fs_frag fs = 2 then cp[h div 4 := cp ! (h div 4) OR push_bit ((h mod 4) * 2) 0x03]
      else if fs_frag fs = 1 then cp[h div 8 := cp ! (h div 8) OR push_bit (h mod 8) 0x01]
      else cp)"

subsection \<open>The header\<close>

text \<open>Where the maps end, counted from the start of the group (\<open>cg_space\<close> is at byte 168): \<open>cg_nextfreeoff\<close>.\<close>

definition cg_nextfreeoff :: "int \<Rightarrow> ddfs_fs \<Rightarrow> int" where
  "cg_nextfreeoff oflag fs =
     (let iusedoff = (if oflag = 2 then 168 else 168 + 4 + 2);
        nextoff = iusedoff + howmany (fs_ipg fs) 8 + howmany (fs_fpg fs) 8;
        clusteroff = roundup nextoff 4 - 4 + (fs_contigsumsize fs + 1) * 4
      in if 0 < fs_contigsumsize fs then clusteroff + howmany (fragstoblks fs (fs_fpg fs)) 8 else nextoff)"

text \<open>The group when its header is filled in, with empty maps. The second component of a map is its length in bytes.\<close>

definition empty_cg :: "int \<Rightarrow> ddfs_fs \<Rightarrow> nat \<Rightarrow> int \<Rightarrow> cg" where
  "empty_cg oflag fs cylno ndblk =
     \<lparr>cg_magic = CG_MAGIC, cg_cgx = int cylno, cg_ndblk = ndblk,
      cg_cs = \<lparr>cs_ndir = 0, cs_nbfree = 0, cs_nifree = fs_ipg fs, cs_nffree = 0\<rparr>, cg_rotor = 0, cg_frotor = 0, cg_irotor = 0,
      cg_frsum = replicate 8 0, cg_nclusterblks = (if 0 < fs_contigsumsize fs then ndblk div fs_frag fs else 0),
      cg_niblk = (if oflag = 2 then fs_ipg fs else 0), cg_initediblk = (if oflag = 2 then min (fs_ipg fs) (2 * INOPB fs) else 0),
      cg_inosused = replicate (nat (howmany (fs_ipg fs) 8)) 0, cg_blksfree = replicate (nat (howmany (fs_fpg fs) 8)) 0,
      cg_clustersum = replicate (nat (fs_contigsumsize fs) + 1) 0,
      cg_clustersfree = replicate (nat (howmany (fragstoblks fs (fs_fpg fs)) 8)) 0\<rparr>"

fun reserve_inodes :: "nat \<Rightarrow> nat \<Rightarrow> cg \<Rightarrow> cg" where
  "reserve_inodes i 0 acg = acg"
| "reserve_inodes i (Suc n) acg = reserve_inodes (Suc i) n (acg\<lparr>cg_inosused := setbit (cg_inosused acg) i,
     cg_cs := (cg_cs acg)\<lparr>cs_nifree := cs_nifree (cg_cs acg) - 1\<rparr>\<rparr>)"

subsection \<open>The free map\<close>

definition free_whole :: "ddfs_fs \<Rightarrow> nat \<Rightarrow> cg \<Rightarrow> cg" where
  "free_whole fs d acg =
     (let blkno = d div nat (fs_frag fs) in
      acg\<lparr>cg_blksfree := newfs_setblock fs (cg_blksfree acg) blkno,
        cg_clustersfree := (if 0 < fs_contigsumsize fs then setbit (cg_clustersfree acg) blkno else cg_clustersfree acg),
        cg_cs := (cg_cs acg)\<lparr>cs_nbfree := cs_nbfree (cg_cs acg) + 1\<rparr>\<rparr>)"

text \<open>\<open>fs_frag\<close> is positive by now; the functions say so to end.\<close>

function free_low :: "ddfs_fs \<Rightarrow> nat \<Rightarrow> nat \<Rightarrow> cg \<Rightarrow> cg" where
  "free_low fs dlower d acg =
     (if d < dlower \<and> 0 < fs_frag fs then free_low fs dlower (d + nat (fs_frag fs)) (free_whole fs d acg) else acg)"
  by pat_completeness auto

termination
  by (relation "measure (\<lambda>(fs, dlower, d, acg). dlower - d)") auto

function free_data :: "ddfs_fs \<Rightarrow> nat \<Rightarrow> nat \<Rightarrow> cg \<Rightarrow> nat \<times> cg" where
  "free_data fs ndblk d acg =
     (if d + nat (fs_frag fs) \<le> ndblk \<and> 0 < fs_frag fs then free_data fs ndblk (d + nat (fs_frag fs)) (free_whole fs d acg) else (d, acg))"
  by pat_completeness auto

termination
  by (relation "measure (\<lambda>(fs, ndblk, d, acg). ndblk - d)") auto

declare free_low.simps [simp del] free_data.simps [simp del]

definition free_part_of :: "nat \<Rightarrow> nat \<Rightarrow> cg \<Rightarrow> cg" where
  "free_part_of d n acg = acg\<lparr>cg_frsum := add_at (cg_frsum acg) n 1, cg_blksfree := set_frags (cg_blksfree acg) d n,
     cg_cs := (cg_cs acg)\<lparr>cs_nffree := cs_nffree (cg_cs acg) + int n\<rparr>\<rparr>"

definition free_space :: "ddfs_fs \<Rightarrow> nat \<Rightarrow> nat \<Rightarrow> cg \<Rightarrow> cg" where
  "free_space fs dupper ndblk acg =
     (let f = nat (fs_frag fs); i = dupper mod f;
        acg1 = (if i \<noteq> 0 then free_part_of dupper (f - i) acg else acg);
        dupper1 = (if i \<noteq> 0 then dupper + f - i else dupper);
        (d, acg2) = free_data fs ndblk dupper1 acg1
      in if d < ndblk then free_part_of d (ndblk - d) acg2 else acg2)"

subsection \<open>The cluster summary\<close>

definition end_run :: "ddfs_fs \<Rightarrow> int \<Rightarrow> int list \<Rightarrow> int list" where
  "end_run fs run sump = (if run \<noteq> 0 then add_at sump (nat (min run (fs_contigsumsize fs))) 1 else sump)"

fun cluster_runs :: "ddfs_fs \<Rightarrow> byte list \<Rightarrow> nat \<Rightarrow> nat \<Rightarrow> int \<Rightarrow> int list \<Rightarrow> int list" where
  "cluster_runs fs mapp i 0 run sump = end_run fs run sump"
| "cluster_runs fs mapp i (Suc n) run sump =
     (if isset mapp i then cluster_runs fs mapp (Suc i) n (run + 1) sump
      else cluster_runs fs mapp (Suc i) n 0 (end_run fs run sump))"

subsection \<open>The group\<close>

definition cg_dmax :: "ddfs_fs \<Rightarrow> nat \<Rightarrow> int" where
  "cg_dmax fs cylno = min (cgbase fs (int cylno) + fs_fpg fs) (fs_size fs)"

definition cg_dlower :: "ddfs_fs \<Rightarrow> nat \<Rightarrow> int" where
  "cg_dlower fs cylno = cgsblock fs (int cylno) - cgbase fs (int cylno)"

definition cg_dupper :: "ddfs_fs \<Rightarrow> nat \<Rightarrow> int" where
  "cg_dupper fs cylno = cgdmin fs (int cylno) - cgbase fs (int cylno) + (if cylno = 0 then howmany (fs_cssize fs) (fs_fsize fs) else 0)"

definition initcg :: "int \<Rightarrow> ddfs_fs \<Rightarrow> nat \<Rightarrow> stop + cg" where
  "initcg oflag fs cylno =
     (let ndblk = cg_dmax fs cylno - cgbase fs (int cylno);
        acg = empty_cg oflag fs cylno ndblk
      in if fs_cgsize fs < cg_nextfreeoff oflag fs then Inl (Quit 37)
      else
        let acg1 = (if cylno = 0 then reserve_inodes 0 (nat UFS_ROOTINO) acg else acg);
          acg2 = (if 0 < cylno then free_low fs (nat (cg_dlower fs cylno)) 0 acg1 else acg1);
          acg3 = free_space fs (nat (cg_dupper fs cylno)) (nat ndblk) acg2
        in Inr (if 0 < fs_contigsumsize fs
          then acg3\<lparr>cg_clustersum := cluster_runs fs (cg_clustersfree acg3) 0 (nat (cg_nclusterblks acg3)) 0 (cg_clustersum acg3)\<rparr>
          else acg3))"

section \<open>Freeing parts of an empty map\<close>

text \<open>\<open>grows f acg T acg'\<close>: the fragments in \<open>T\<close> have become free, the counts follow the map, nothing else has changed.\<close>

definition grows :: "nat \<Rightarrow> cg \<Rightarrow> nat set \<Rightarrow> cg \<Rightarrow> bool" where
  "grows f acg T acg' \<longleftrightarrow> free_of (cg_blksfree acg') = free_of (cg_blksfree acg) \<union> T \<and>
     length (cg_blksfree acg') = length (cg_blksfree acg) \<and> length (cg_frsum acg') = length (cg_frsum acg) \<and>
     (counts_ok f (cg_blksfree acg) (cg_cs acg) (cg_frsum acg) \<longrightarrow> counts_ok f (cg_blksfree acg') (cg_cs acg') (cg_frsum acg')) \<and>
     cg_magic acg' = cg_magic acg \<and> cg_cgx acg' = cg_cgx acg \<and> cg_ndblk acg' = cg_ndblk acg \<and> cg_rotor acg' = cg_rotor acg \<and>
     cg_frotor acg' = cg_frotor acg \<and> cg_irotor acg' = cg_irotor acg \<and> cg_niblk acg' = cg_niblk acg \<and> cg_initediblk acg' = cg_initediblk acg \<and>
     cg_inosused acg' = cg_inosused acg \<and> cs_nifree (cg_cs acg') = cs_nifree (cg_cs acg) \<and> cs_ndir (cg_cs acg') = cs_ndir (cg_cs acg)"

lemma grows_refl [simp]: "grows f acg {} acg"
  by (simp add: grows_def)

lemma grows_trans: "grows f a T b \<Longrightarrow> grows f b U c \<Longrightarrow> grows f a (T \<union> U) c"
  unfolding grows_def by (simp add: Un_assoc)

lemma growsD:
  assumes "grows f acg T acg'"
  shows "free_of (cg_blksfree acg') = free_of (cg_blksfree acg) \<union> T" "length (cg_blksfree acg') = length (cg_blksfree acg)"
    "length (cg_frsum acg') = length (cg_frsum acg)"
    "counts_ok f (cg_blksfree acg) (cg_cs acg) (cg_frsum acg) \<Longrightarrow> counts_ok f (cg_blksfree acg') (cg_cs acg') (cg_frsum acg')"
    "cg_magic acg' = cg_magic acg" "cg_cgx acg' = cg_cgx acg" "cg_ndblk acg' = cg_ndblk acg" "cg_rotor acg' = cg_rotor acg"
    "cg_frotor acg' = cg_frotor acg" "cg_irotor acg' = cg_irotor acg" "cg_niblk acg' = cg_niblk acg" "cg_initediblk acg' = cg_initediblk acg"
    "cg_inosused acg' = cg_inosused acg" "cs_nifree (cg_cs acg') = cs_nifree (cg_cs acg)" "cs_ndir (cg_cs acg') = cs_ndir (cg_cs acg)"
  using assms unfolding grows_def by simp_all

lemma newfs_blocks:
  assumes "geometry_ok fs"
  shows "ffs_setblock fs cp h = Inr (newfs_setblock fs cp h)" "ffs_clrblock fs cp h = Inr (newfs_clrblock fs cp h)"
    "ffs_isblock fs cp h = Inr (newfs_isblock fs cp h)"
  using frag_cases[OF assms]
  by (auto simp: ffs_setblock_def newfs_setblock_def ffs_clrblock_def newfs_clrblock_def ffs_isblock_def newfs_isblock_def Let_def)

lemma free_of_block:
  assumes "f \<in> {1, 2, 4, 8}" "h < nblocks f m" "agree_off f h m m'" "\<And>i. i < f \<Longrightarrow> isset m' (h * f + i) \<longleftrightarrow> p \<le> i \<and> i < p + n"
    "\<And>i. i < f \<Longrightarrow> \<not> isset m (h * f + i)" "p + n \<le> f"
  shows "free_of m' = free_of m \<union> {h * f + p..<h * f + p + n}"
proof -
  have f: "0 < f" using assms(1) by auto
  have b: "h * f + f \<le> 8 * length m" by (rule block_in_map[OF assms(1,2)])
  have "isset m' j \<longleftrightarrow> isset m j \<or> (h * f + p \<le> j \<and> j < h * f + p + n)" for j
  proof (cases "j div f = h")
    case True
    then obtain i where i: "j = h * f + i" "i < f" using f by (metis div_mult_mod_eq mod_less_divisor)
    then show ?thesis using assms(4,5)[of i] by auto
  next
    case False
    then show ?thesis using assms(3) block_frags[OF assms(6), of h j] by (auto simp: agree_off_def)
  qed
  then show ?thesis using b assms(3,6) by (auto simp: free_of_def agree_off_def)
qed

lemma clear_bits: "\<forall>i < f. \<not> isset m (h * f + i) \<Longrightarrow> blk_bits f m h = replicate f False"
  by (simp add: blk_bits_all)

lemma free_whole_grows:
  assumes "geometry_ok fs" "f = nat (fs_frag fs)" "m = cg_blksfree acg" "h < nblocks f m" "\<And>i. i < f \<Longrightarrow> \<not> isset m (h * f + i)"
  shows "grows f acg {h * f..<h * f + f} (free_whole fs (h * f) acg)"
proof -
  note fr = frag_nat[OF assms(1,2)]
  then have f: "f \<in> {1, 2, 4, 8}" "0 < f" by simp_all
  have l: "h * f div 8 < length m" using block_in_map[OF f(1) assms(4)] f(2) by linarith
  define m' where "m' = newfs_setblock fs m h"
  have m': "agree_off f h m m'" "\<And>i. i < f \<Longrightarrow> isset m' (h * f + i)"
    using setclr_block(1)[OF assms(1,2) l] newfs_blocks(1)[OF assms(1), of m h] by (auto simp: m'_def)
  have b: "blk_bits f m h = replicate f False" "blk_bits f m' h = replicate f True" using assms(5) m'(2) by (simp_all add: blk_bits_all)
  define w where "w = free_whole fs (h * f) acg"
  have w: "cg_blksfree w = m'" "cg_frsum w = cg_frsum acg" "cs_nbfree (cg_cs w) = cs_nbfree (cg_cs acg) + 1"
    "cs_nffree (cg_cs w) = cs_nffree (cg_cs acg)"
    using f(2) by (simp_all add: w_def free_whole_def Let_def m'_def assms(2,3) flip: assms(2))
  have "counts_ok f m' (cg_cs w) (cg_frsum acg)" if "counts_ok f m (cg_cs acg) (cg_frsum acg)"
    by (rule counts_update[OF that m'(1) assms(4) f(2)]) (use f(2) in \<open>simp_all add: b block_values w runs_full runs_empty\<close>)
  moreover have "free_of m' = free_of m \<union> {h * f..<h * f + f}"
    using free_of_block[OF f(1) assms(4) m'(1), of 0 f] m'(2) assms(5) by simp
  moreover have "length m' = length m" using m'(1) by (simp add: agree_off_def)
  ultimately show ?thesis unfolding grows_def w_def[symmetric] w(1,2) using assms(3) by (simp add: w_def free_whole_def Let_def)
qed

lemma front_values:
  assumes "0 < n" "n < f"
  shows "nb (replicate n True @ replicate (f - n) False) = 0" "nf (replicate n True @ replicate (f - n) False) = int n"
    "runs (replicate n True @ replicate (f - n) False) k = of_bool (k = n)"
proof -
  have "run_lengths 0 (replicate (f - n) False) = []" by (simp add: run_lengths_none)
  then have "run_lengths 0 (replicate n True @ replicate (f - n) False) = [n]"
    using run_lengths_mid[of "[]" "replicate (f - n) False" n] assms by simp
  then show "runs (replicate n True @ replicate (f - n) False) k = of_bool (k = n)" by (simp add: runs_def)
  show "nb (replicate n True @ replicate (f - n) False) = 0" "nf (replicate n True @ replicate (f - n) False) = int n"
    using assms by (auto simp: nb_def nf_def full_def filter_replicate)
qed

text \<open>The end of a block, or its front.\<close>

lemma free_part_grows:
  assumes "f \<in> {1, 2, 4, 8}" "m = cg_blksfree acg" "h < nblocks f m" "\<And>i. i < f \<Longrightarrow> \<not> isset m (h * f + i)"
    and "0 < n" "n < f" "p = 0 \<or> p + n = f" "length (cg_frsum acg) = 8"
  shows "grows f acg {h * f + p..<h * f + p + n} (free_part_of (h * f + p) n acg)"
proof -
  have pn: "p + n \<le> f" "0 < f" "f \<le> 8" using assms(1,6,7) by auto
  define m' where "m' = set_frags m (h * f + p) n"
  have ag: "agree_off f h m m'" unfolding m'_def by (rule clr_frags_agree(2)[OF assms(1,3) pn(1)])
  have hf: "h * f + p + n \<le> 8 * length m" using block_in_map[OF assms(1,3)] pn(1) by simp
  have iss: "isset m' (h * f + i) \<longleftrightarrow> p \<le> i \<and> i < p + n" if "i < f" for i
    using that assms(4) by (auto simp: m'_def isset_set_frags[OF hf])
  have b: "blk_bits f m h = replicate f False" using assms(4) by (simp add: blk_bits_all)
  have b': "nb (blk_bits f m' h) = 0 \<and> nf (blk_bits f m' h) = int n \<and> (\<forall>k. runs (blk_bits f m' h) k = of_bool (k = n))"
  proof (cases "p = 0")
    case True
    have "blk_bits f m' h = replicate n True @ replicate (f - n) False"
      by (rule nth_equalityI) (use True assms(6) iss in \<open>auto simp: nth_append\<close>)
    then show ?thesis using front_values[OF assms(5,6)] by simp
  next
    case False
    then have p: "0 < p" "p < f" "n = f - p" using assms(5,7) by auto
    have "blk_bits f m' h = replicate p False @ replicate (f - p) True"
      by (rule nth_equalityI) (use p iss in \<open>auto simp: nth_append\<close>)
    then show ?thesis using block_values(5,6)[OF p(1,2)] runs_rest[OF p(1,2)] p(2,3) by simp
  qed
  define w where "w = free_part_of (h * f + p) n acg"
  have w: "cg_blksfree w = m'" "cg_frsum w = add_at (cg_frsum acg) n 1" "cs_nbfree (cg_cs w) = cs_nbfree (cg_cs acg)"
    "cs_nffree (cg_cs w) = cs_nffree (cg_cs acg) + int n"
    by (simp_all add: w_def free_part_of_def m'_def assms(2))
  have "counts_ok f m' (cg_cs w) (cg_frsum w)" if "counts_ok f m (cg_cs acg) (cg_frsum acg)"
    by (rule counts_update[OF that ag assms(3) pn(2)])
      (use pn assms(5,6,8) b' in \<open>simp_all add: b block_values w runs_empty add_at_nth\<close>)
  moreover have "free_of m' = free_of m \<union> {h * f + p..<h * f + p + n}" by (rule free_of_block[OF assms(1,3) ag iss assms(4) pn(1)])
  ultimately show ?thesis unfolding grows_def w_def[symmetric] w(1,2) using assms(2) by (simp add: w_def free_part_of_def m'_def)
qed

lemma clear_at: "j \<notin> free_of m \<Longrightarrow> j < 8 * length m \<Longrightarrow> \<not> isset m j"
  by (simp add: free_of_def)

lemma block_clear:
  assumes "f \<in> {1, 2, 4, 8}" "{h * f..<h * f + f} \<inter> free_of m = {}" "h < nblocks f m" "i < f"
  shows "\<not> isset m (h * f + i)"
proof (rule clear_at)
  show "h * f + i \<notin> free_of m" using assms(2,4) by (auto simp: disjoint_iff)
  show "h * f + i < 8 * length m" using block_in_map[OF assms(1,3)] assms(4) by simp
qed

lemma nblocks_less: "f \<in> {1, 2, 4, 8} \<Longrightarrow> h * f + f \<le> 8 * length m \<Longrightarrow> h < nblocks f m"
  by (auto simp: nblocks_def)

lemma nblocks_any: "f \<in> {1, 2, 4, 8} \<Longrightarrow> h * f < 8 * length m \<Longrightarrow> h < nblocks f m"
  by (auto simp: nblocks_def)

text \<open>The loops over whole blocks, from block \<open>k\<close> to block \<open>n\<close>.\<close>

lemma free_low_grows:
  assumes "geometry_ok fs" "f = nat (fs_frag fs)" "k \<le> n" "dl \<le> n * f" "n * f < dl + f"
    "free_of (cg_blksfree acg) \<inter> {k * f..<n * f} = {}" "n * f \<le> 8 * length (cg_blksfree acg)"
  shows "grows f acg {k * f..<n * f} (free_low fs dl (k * f) acg)"
  using assms(3,6,7)
proof (induction "n - k" arbitrary: k acg)
  case 0
  then have "k = n" by simp
  then show ?case using assms(4) by (simp add: free_low.simps)
next
  case (Suc q)
  note fr = frag_nat[OF assms(1,2)]
  then have f: "f \<in> {1, 2, 4, 8}" "0 < f" by simp_all
  have k: "Suc k \<le> n" "q = n - Suc k" using Suc.hyps(2) by simp_all
  have kn: "k * f + f \<le> n * f" using mult_le_mono1[OF k(1), of f] by simp
  then have h: "k < nblocks f (cg_blksfree acg)" using nblocks_less[OF f(1)] Suc.prems(3) by simp
  have clear: "\<not> isset (cg_blksfree acg) (k * f + i)" if "i < f" for i
    by (rule block_clear[OF f(1) _ h that]) (use Suc.prems(2) kn in \<open>auto simp: disjoint_iff\<close>)
  let ?w = "free_whole fs (k * f) acg"
  have w: "grows f acg {k * f..<k * f + f} ?w" by (rule free_whole_grows[OF assms(1,2) refl h clear])
  have "grows f ?w {Suc k * f..<n * f} (free_low fs dl (Suc k * f) ?w)"
  proof (rule Suc.hyps(1)[OF k(2,1)])
    show "free_of (cg_blksfree ?w) \<inter> {Suc k * f..<n * f} = {}"
      unfolding growsD(1)[OF w] using Suc.prems(2) by (auto simp: disjoint_iff)
    show "n * f \<le> 8 * length (cg_blksfree ?w)" using growsD(2)[OF w] Suc.prems(3) by simp
  qed
  moreover have "k * f < dl" using kn assms(5) by linarith
  then have "free_low fs dl (k * f) acg = free_low fs dl (Suc k * f) ?w"
    using f(2) fr by (subst free_low.simps) (simp add: add.commute)
  moreover have "{k * f..<n * f} = {k * f..<k * f + f} \<union> {Suc k * f..<n * f}" using kn by auto
  ultimately show ?case using grows_trans[OF w] by simp
qed

lemma free_data_grows:
  assumes "geometry_ok fs" "f = nat (fs_frag fs)" "k \<le> n" "n * f \<le> ndblk" "ndblk < n * f + f"
    "free_of (cg_blksfree acg) \<inter> {k * f..<n * f} = {}" "n * f \<le> 8 * length (cg_blksfree acg)"
  shows "\<exists>acg'. free_data fs ndblk (k * f) acg = (n * f, acg') \<and> grows f acg {k * f..<n * f} acg'"
  using assms(3,6,7)
proof (induction "n - k" arbitrary: k acg)
  case 0
  then have "k = n" by simp
  then show ?case using assms(2,5) by (simp add: free_data.simps)
next
  case (Suc q)
  note fr = frag_nat[OF assms(1,2)]
  then have f: "f \<in> {1, 2, 4, 8}" "0 < f" by simp_all
  have k: "Suc k \<le> n" "q = n - Suc k" using Suc.hyps(2) by simp_all
  have kn: "k * f + f \<le> n * f" using mult_le_mono1[OF k(1), of f] by simp
  then have h: "k < nblocks f (cg_blksfree acg)" using nblocks_less[OF f(1)] Suc.prems(3) by simp
  have clear: "\<not> isset (cg_blksfree acg) (k * f + i)" if "i < f" for i
    by (rule block_clear[OF f(1) _ h that]) (use Suc.prems(2) kn in \<open>auto simp: disjoint_iff\<close>)
  let ?w = "free_whole fs (k * f) acg"
  have w: "grows f acg {k * f..<k * f + f} ?w" by (rule free_whole_grows[OF assms(1,2) refl h clear])
  have "\<exists>acg'. free_data fs ndblk (Suc k * f) ?w = (n * f, acg') \<and> grows f ?w {Suc k * f..<n * f} acg'"
  proof (rule Suc.hyps(1)[OF k(2,1)])
    show "free_of (cg_blksfree ?w) \<inter> {Suc k * f..<n * f} = {}"
      unfolding growsD(1)[OF w] using Suc.prems(2) by (auto simp: disjoint_iff)
    show "n * f \<le> 8 * length (cg_blksfree ?w)" using growsD(2)[OF w] Suc.prems(3) by simp
  qed
  then obtain acg' where r: "free_data fs ndblk (Suc k * f) ?w = (n * f, acg')" "grows f ?w {Suc k * f..<n * f} acg'" by blast
  have "k * f + f \<le> ndblk" using kn assms(4) by linarith
  then have "free_data fs ndblk (k * f) acg = free_data fs ndblk (Suc k * f) ?w"
    using f(2) fr by (subst free_data.simps) (simp add: add.commute)
  moreover have "{k * f..<n * f} = {k * f..<k * f + f} \<union> {Suc k * f..<n * f}" using kn by auto
  ultimately show ?case using grows_trans[OF w r(2)] r(1) by auto
qed

text \<open>From fragment \<open>dupper\<close> to the end of the group: the rest of a block, whole blocks, the front of a block.\<close>

lemma free_space_grows:
  assumes "geometry_ok fs" "f = nat (fs_frag fs)" "\<And>j. j \<in> free_of (cg_blksfree acg) \<Longrightarrow> j < dupper div f * f"
    "ndblk \<le> 8 * length (cg_blksfree acg)" "length (cg_frsum acg) = 8" "(dupper + f - 1) div f * f \<le> ndblk"
  shows "grows f acg {dupper..<ndblk} (free_space fs dupper ndblk acg)"
proof -
  note fr = frag_nat[OF assms(1,2)]
  then have f: "f \<in> {1, 2, 4, 8}" "0 < f" by simp_all
  define i where "i = dupper mod f"
  define k where "k = (dupper + f - 1) div f"
  define n where "n = ndblk div f"
  define acg1 where "acg1 = (if i \<noteq> 0 then free_part_of dupper (f - i) acg else acg)"
  have i: "i < f" using f(2) by (simp add: i_def)
  define q where "q = dupper div f"
  have d: "dupper = q * f + i" by (simp add: q_def i_def)
  have low: "x < dupper" if "x \<in> free_of (cg_blksfree acg)" for x
    by (rule less_le_trans[OF assms(3)[OF that]]) (simp add: d q_def[symmetric])
  have k: "k = (if i = 0 then q else Suc q)"
  proof (cases "i = 0")
    case True
    have "(q * f + (f - 1)) div f = q" using f(2) by (metis add.commute add_0 diff_less div_less div_mult_self3 less_numeral_extra(1) neq0_conv)
    moreover have "dupper + f - 1 = q * f + (f - 1)" using True d f(2) by simp
    ultimately show ?thesis using True by (simp add: k_def)
  next
    case False
    have "(Suc q * f + (i - 1)) div f = Suc q" using i f(2)
      by (metis add.commute add_0 div_less div_mult_self3 less_imp_diff_less neq0_conv)
    moreover have "dupper + f - 1 = Suc q * f + (i - 1)" using False d by simp
    ultimately show ?thesis using False by (simp add: k_def)
  qed
  have up: "(if i \<noteq> 0 then dupper + f - i else dupper) = k * f" "dupper \<le> k * f" using d i by (auto simp: k)
  have n: "n * f \<le> ndblk" "ndblk < n * f + f"
    unfolding n_def using mod_less_divisor[OF f(2), of ndblk] div_mult_mod_eq[of ndblk f] by linarith+
  have kf: "k * f \<le> ndblk" using assms(6) by (simp add: k_def)
  then have kn: "k \<le> n" using f(2) unfolding n_def by (metis div_le_mono nonzero_mult_div_cancel_right neq0_conv)
  have nf: "k * f \<le> n * f" using mult_le_mono1[OF kn] .
  have g1: "grows f acg {dupper..<k * f} acg1"
  proof (cases "i = 0")
    case True
    then show ?thesis using d by (simp add: acg1_def k)
  next
    case False
    have h: "q < nblocks f (cg_blksfree acg)" using False kf assms(4) by (intro nblocks_less[OF f(1)]) (simp add: k)
    have clear: "\<not> isset (cg_blksfree acg) (q * f + j)" if "j < f" for j
      by (rule block_clear[OF f(1) _ h that]) (metis assms(3) atLeastLessThan_iff disjoint_iff not_le q_def)
    have "grows f acg {q * f + i..<q * f + i + (f - i)} (free_part_of (q * f + i) (f - i) acg)"
      by (rule free_part_grows[OF f(1) refl h clear]) (use False i assms(5) in auto)
    moreover have "q * f + i + (f - i) = k * f" using False i by (simp add: k)
    ultimately show ?thesis using False by (simp add: acg1_def d)
  qed
  note s1 = growsD[OF g1]
  have "\<exists>acg'. free_data fs ndblk (k * f) acg1 = (n * f, acg') \<and> grows f acg1 {k * f..<n * f} acg'"
  proof (rule free_data_grows[OF assms(1,2) kn n])
    show "free_of (cg_blksfree acg1) \<inter> {k * f..<n * f} = {}"
    proof -
      have "x < k * f" if "x \<in> free_of (cg_blksfree acg) \<union> {dupper..<k * f}" for x
        using that low[of x] up(2) by auto
      then show ?thesis unfolding s1(1) by (metis atLeastLessThan_iff disjoint_iff not_le)
    qed
    show "n * f \<le> 8 * length (cg_blksfree acg1)" using s1(2) n(1) assms(4) by simp
  qed
  then obtain acg2 where g2: "free_data fs ndblk (k * f) acg1 = (n * f, acg2)" "grows f acg1 {k * f..<n * f} acg2" by blast
  note s2 = growsD[OF g2(2)]
  have g3: "grows f acg2 {n * f..<ndblk} (if n * f < ndblk then free_part_of (n * f) (ndblk - n * f) acg2 else acg2)"
  proof (cases "n * f < ndblk")
    case True
    have h: "n < nblocks f (cg_blksfree acg2)" using True s1(2) s2(2) assms(4) by (intro nblocks_any[OF f(1)]) simp
    have "x < n * f" if "x \<in> free_of (cg_blksfree acg2)" for x
    proof -
      have "x \<in> free_of (cg_blksfree acg) \<or> x < n * f" using that nf unfolding s2(1) s1(1) by (metis Un_iff atLeastLessThan_iff order_less_le_trans)
      then show ?thesis using low[of x] up(2) nf by linarith
    qed
    then have clear: "\<not> isset (cg_blksfree acg2) (n * f + j)" if "j < f" for j
      by (intro block_clear[OF f(1) _ h that]) (metis atLeastLessThan_iff disjoint_iff not_le)
    have "grows f acg2 {n * f + 0..<n * f + 0 + (ndblk - n * f)} (free_part_of (n * f + 0) (ndblk - n * f) acg2)"
      by (rule free_part_grows[OF f(1) refl h clear]) (use True n assms(5) s1(3) s2(3) in auto)
    then show ?thesis using True by simp
  qed simp
  have "{dupper..<ndblk} = {dupper..<k * f} \<union> {k * f..<n * f} \<union> {n * f..<ndblk}"
    using up(2) n(1) nf by (simp only: ivl_disj_un_two(3) order.trans[OF up(2) nf])
  moreover have "free_space fs dupper ndblk acg = (if n * f < ndblk then free_part_of (n * f) (ndblk - n * f) acg2 else acg2)"
    unfolding free_space_def Let_def assms(2)[symmetric] i_def[symmetric] acg1_def[symmetric] up(1) g2(1) by simp
  ultimately show ?thesis using grows_trans[OF grows_trans[OF g1 g2(2)] g3] by simp
qed

section \<open>The group\<close>

lemma roundup_nat: "0 < f \<Longrightarrow> roundup (int x) (int f) = int ((x + f - 1) div f * f)"
  by (simp add: roundup_def zdiv_int of_nat_diff algebra_simps)

lemma isset_zeros: "j < 8 * n \<Longrightarrow> \<not> isset (replicate n 0) j"
  by (simp add: isset_def)

lemma free_of_zeros: "free_of (replicate n 0) = {}"
  using isset_zeros by (auto simp: free_of_def)

lemma counts_zeros:
  assumes "f \<in> {1, 2, 4, 8}" "cs_nbfree cs = 0" "cs_nffree cs = 0"
  shows "counts_ok f (replicate n 0) cs (replicate 8 0)"
proof -
  have f: "0 < f" "f \<le> 8" using assms(1) by auto
  have "blk_bits f (replicate n 0) h = replicate f False" if "h < nblocks f (replicate n 0)" for h
    unfolding blk_bits_all using block_in_map[OF assms(1) that] isset_zeros[of _ n] by simp
  then show ?thesis using f assms(2,3) by (simp add: counts_ok_def block_values runs_empty)
qed

lemma reserve_two:
  "reserve_inodes 0 (nat UFS_ROOTINO) acg = acg\<lparr>cg_inosused := setbit (setbit (cg_inosused acg) 0) 1,
     cg_cs := (cg_cs acg)\<lparr>cs_nifree := cs_nifree (cg_cs acg) - 2\<rparr>\<rparr>"
  by (simp add: UFS_ROOTINO_def numeral_2_eq_2)

lemma next_fits:
  assumes "fs_cgsize fs = roundup (CGSIZE fs) (fs_fsize fs)" "0 < fs_fsize fs"
  shows "\<not> fs_cgsize fs < cg_nextfreeoff oflag fs"
proof -
  have "CGSIZE fs \<le> fs_cgsize fs" unfolding assms(1) by (rule roundup_bounds(1)[OF assms(2)])
  moreover have "roundup x 4 < x + 4" for x by (rule roundup_bounds(2)) simp
  note this[of "168 + howmany (fs_ipg fs) 8 + howmany (fs_fpg fs) 8"] this[of "174 + howmany (fs_ipg fs) 8 + howmany (fs_fpg fs) 8"]
  ultimately show ?thesis
    by (cases "0 < fs_contigsumsize fs"; cases "oflag = 2") (simp_all add: cg_nextfreeoff_def CGSIZE_def Let_def algebra_simps)
qed

text \<open>The metadata of group \<open>c\<close> leaves room, and what is in front of the superblock's copy does not reach its end.\<close>

definition group_fits :: "ddfs_fs \<Rightarrow> nat \<Rightarrow> bool" where
  "group_fits fs c \<longleftrightarrow> 0 \<le> cg_dupper fs c \<and> roundup (cg_dupper fs c) (fs_frag fs) \<le> cg_dmax fs c - cgbase fs (int c) \<and>
     (0 < c \<longrightarrow> 0 \<le> cg_dlower fs c \<and> roundup (cg_dlower fs c) (fs_frag fs) \<le> cg_dupper fs c div fs_frag fs * fs_frag fs)"

text \<open>The fragments that are free in a new group.\<close>

definition new_free :: "ddfs_fs \<Rightarrow> nat \<Rightarrow> nat set" where
  "new_free fs c = (if c = 0 then {} else {0..<nat (roundup (cg_dlower fs c) (fs_frag fs))}) \<union>
     {nat (cg_dupper fs c)..<nat (cg_dmax fs c - cgbase fs (int c))}"

lemma initcg_maps:
  assumes "geometry_ok fs" "0 < fs_fpg fs" "fs_cgsize fs = roundup (CGSIZE fs) (fs_fsize fs)" "group_fits fs c"
  shows "\<exists>acg. initcg oflag fs c = Inr acg \<and> cg_ok fs acg \<and> free_of (cg_blksfree acg) = new_free fs c \<and>
    (let acg0 = empty_cg oflag fs c (cg_dmax fs c - cgbase fs (int c)); acg1 = (if c = 0 then reserve_inodes 0 (nat UFS_ROOTINO) acg0 else acg0) in
     cg_magic acg = cg_magic acg1 \<and> cg_cgx acg = cg_cgx acg1 \<and> cg_ndblk acg = cg_ndblk acg1 \<and> cg_irotor acg = cg_irotor acg1 \<and>
     cg_niblk acg = cg_niblk acg1 \<and> cg_initediblk acg = cg_initediblk acg1 \<and> cg_inosused acg = cg_inosused acg1 \<and>
     cs_nifree (cg_cs acg) = cs_nifree (cg_cs acg1) \<and> cs_ndir (cg_cs acg) = 0)"
proof -
  define f where "f = nat (fs_frag fs)"
  note fr = frag_nat[OF assms(1) f_def]
  then have f: "f \<in> {1, 2, 4, 8}" "0 < f" and ff: "fs_frag fs = int f" by simp_all
  have fsz: "0 < fs_fsize fs" using geometryD(2)[OF assms(1)] by simp
  define ndblk where "ndblk = cg_dmax fs c - cgbase fs (int c)"
  define acg0 where "acg0 = empty_cg oflag fs c ndblk"
  define acg1 where "acg1 = (if c = 0 then reserve_inodes 0 (nat UFS_ROOTINO) acg0 else acg0)"
  define dl where "dl = nat (cg_dlower fs c)"
  define du where "du = nat (cg_dupper fs c)"
  define L where "L = nat (howmany (fs_fpg fs) 8)"
  have L: "fs_fpg fs \<le> 8 * int L" "0 < L"
    using howmany_bounds(1)[of 8 "fs_fpg fs"] assms(2) by (simp_all add: L_def)
  have m1: "cg_blksfree acg1 = replicate L 0" "cg_frsum acg1 = replicate 8 0" "cs_nbfree (cg_cs acg1) = 0" "cs_nffree (cg_cs acg1) = 0"
    "cg_rotor acg1 = 0" "cg_frotor acg1 = 0" "cg_ndblk acg1 = ndblk" "cs_ndir (cg_cs acg1) = 0"
    by (simp_all add: acg1_def acg0_def empty_cg_def reserve_two L_def)
  have c1: "counts_ok f (cg_blksfree acg1) (cg_cs acg1) (cg_frsum acg1)" unfolding m1(1,2) by (rule counts_zeros[OF f(1) m1(3,4)])
  have fit: "0 \<le> cg_dupper fs c" "roundup (cg_dupper fs c) (fs_frag fs) \<le> ndblk"
    "0 < c \<Longrightarrow> 0 \<le> cg_dlower fs c \<and> roundup (cg_dlower fs c) (fs_frag fs) \<le> cg_dupper fs c div fs_frag fs * fs_frag fs"
    using assms(4) by (simp_all add: group_fits_def ndblk_def)
  have duf: "cg_dupper fs c = int du" using fit(1) by (simp add: du_def)
  have "int ((du + f - 1) div f * f) \<le> ndblk" using fit(2) unfolding duf ff roundup_nat[OF f(2)] .
  then have nd: "0 \<le> ndblk" "(du + f - 1) div f * f \<le> nat ndblk" by linarith+
  have ndf: "ndblk \<le> fs_fpg fs" by (simp add: ndblk_def cg_dmax_def)
  define acg2 where "acg2 = (if 0 < c then free_low fs dl 0 acg1 else acg1)"
  define low where "low = (if c = 0 then 0 else (dl + f - 1) div f)"
  have low: "low * f \<le> du div f * f" "c \<noteq> 0 \<Longrightarrow> int (low * f) = roundup (cg_dlower fs c) (fs_frag fs)"
    "c \<noteq> 0 \<Longrightarrow> dl \<le> low * f" "c \<noteq> 0 \<Longrightarrow> low * f < dl + f"
  proof -
    show r: "int (low * f) = roundup (cg_dlower fs c) (fs_frag fs)" if "c \<noteq> 0"
    proof -
      have "cg_dlower fs c = int dl" using fit(3) that by (simp add: dl_def)
      then show ?thesis using roundup_nat[OF f(2), of dl] that by (simp add: low_def ff)
    qed
    show "low * f \<le> du div f * f"
    proof (cases "c = 0")
      case False
      then have "int (low * f) \<le> int (du div f * f)" using r fit(3) by (simp add: duf ff zdiv_int)
      then show ?thesis by linarith
    qed (simp add: low_def)
    show "dl \<le> low * f" "low * f < dl + f" if "c \<noteq> 0"
    proof -
      have "(dl + f - 1) mod f < f" "(dl + f - 1) div f * f + (dl + f - 1) mod f = dl + f - 1" using f(2) by (simp_all only: mod_less_divisor div_mult_mod_eq)
      then show "dl \<le> low * f" "low * f < dl + f" using f(2) unfolding low_def if_not_P[OF that] by linarith+
    qed
  qed
  have lown: "low * f \<le> nat ndblk"
  proof -
    have "du div f * f \<le> (du + f - 1) div f * f" using f(2) by (intro mult_le_mono1 div_le_mono) simp
    then show ?thesis using low(1) nd(2) by linarith
  qed
  then have lowL: "low * f \<le> 8 * L" using nd(1) ndf L(1) by linarith
  have g2: "grows f acg1 {0..<low * f} acg2"
  proof (cases "c = 0")
    case False
    have "grows f acg1 {0 * f..<low * f} (free_low fs dl (0 * f) acg1)"
      by (rule free_low_grows[OF assms(1) f_def]) (use False low(3,4) lowL in \<open>simp_all add: m1(1) free_of_zeros\<close>)
    then show ?thesis using False by (simp add: acg2_def)
  qed (simp add: acg2_def low_def)
  note s2 = growsD[OF g2]
  define acg3 where "acg3 = free_space fs du (nat ndblk) acg2"
  have g3: "grows f acg2 {du..<nat ndblk} acg3" unfolding acg3_def
  proof (rule free_space_grows[OF assms(1) f_def _ _ _ nd(2)])
    show "j < du div f * f" if "j \<in> free_of (cg_blksfree acg2)" for j
      using that less_le_trans[OF _ low(1)] unfolding s2(1) m1(1) free_of_zeros by (metis Un_empty_left atLeastLessThan_iff)
    show "nat ndblk \<le> 8 * length (cg_blksfree acg2)" using nd(1) ndf L(1) by (simp add: s2(2) m1(1))
    show "length (cg_frsum acg2) = 8" by (simp add: s2(3) m1(2))
  qed
  note g = growsD[OF grows_trans[OF g2 g3]]
  define acg where "acg = (if 0 < fs_contigsumsize fs
    then acg3\<lparr>cg_clustersum := cluster_runs fs (cg_clustersfree acg3) 0 (nat (cg_nclusterblks acg3)) 0 (cg_clustersum acg3)\<rparr> else acg3)"
  have "initcg oflag fs c = Inr acg"
    using next_fits[OF assms(3) fsz] unfolding initcg_def Let_def ndblk_def[symmetric] acg0_def[symmetric] acg1_def[symmetric]
      dl_def[symmetric] acg2_def[symmetric] du_def[symmetric] acg3_def[symmetric] acg_def[symmetric] by simp
  moreover have a: "cg_blksfree acg = cg_blksfree acg3" "cg_cs acg = cg_cs acg3" "cg_frsum acg = cg_frsum acg3" "cg_ndblk acg = cg_ndblk acg3"
    "cg_rotor acg = cg_rotor acg3" "cg_frotor acg = cg_frotor acg3" "cg_magic acg = cg_magic acg3" "cg_cgx acg = cg_cgx acg3"
    "cg_irotor acg = cg_irotor acg3" "cg_niblk acg = cg_niblk acg3" "cg_initediblk acg = cg_initediblk acg3" "cg_inosused acg = cg_inosused acg3"
    by (simp_all add: acg_def)
  moreover have fo: "free_of (cg_blksfree acg) = {0..<low * f} \<union> {du..<nat ndblk}"
    using g(1) by (simp add: a m1(1) free_of_zeros)
  moreover have "new_free fs c = {0..<low * f} \<union> {du..<nat ndblk}"
  proof (cases "c = 0")
    case False
    show ?thesis unfolding new_free_def low(2)[OF False, symmetric] nat_int using False by (simp add: ndblk_def du_def)
  qed (simp add: new_free_def low_def ndblk_def du_def)
  moreover have "cg_ok fs acg"
  proof -
    have "counts_ok f (cg_blksfree acg) (cg_cs acg) (cg_frsum acg)" using g(4)[OF c1] by (simp add: a)
    moreover have "int j < ndblk" if "j \<in> free_of (cg_blksfree acg)" for j
    proof -
      have "j < nat ndblk" using that lown less_le_trans unfolding fo by auto
      then show ?thesis using nd(1) by linarith
    qed
    ultimately show ?thesis using L(2) ndf unfolding cg_ok_def f_def[symmetric]
      by (simp add: a g(2,3,7-9)) (simp add: m1 L_def)
  qed
  moreover have "cs_ndir (cg_cs acg) = 0" using g(15) m1(8) by (simp add: a)
  ultimately show ?thesis using g(5-15) unfolding Let_def ndblk_def[symmetric] acg0_def[symmetric] acg1_def[symmetric] by simp
qed

text \<open>The inodes of a new group in the second version of the format.\<close>

lemma inode_bytes: "0 < fs_ipg fs \<Longrightarrow> 8 dvd fs_ipg fs \<Longrightarrow> 8 * int (nat (howmany (fs_ipg fs) 8)) = fs_ipg fs"
  using howmany_bounds(1)[of 8 "fs_ipg fs"] roundup_id[of 8 "fs_ipg fs"] by (simp add: roundup_def howmany_def)

lemma clear_below_all: "clear_below (replicate n 0) (8 * n) = {0..<8 * n}"
  using isset_zeros by (auto simp: clear_below_def)

lemma initcg_spec:
  assumes "geometry_ok fs" "0 < fs_fpg fs" "fs_cgsize fs = roundup (CGSIZE fs) (fs_fsize fs)" "group_fits fs c"
    and "0 < fs_ipg fs" "8 dvd fs_ipg fs" "0 < INOPB fs"
  shows "\<exists>acg. initcg 2 fs c = Inr acg \<and> cg_ok fs acg \<and> inodes_ok fs acg \<and> cg_chkmagic acg \<and> cg_cgx acg = int c \<and>
    cg_ndblk acg = cg_dmax fs c - cgbase fs (int c) \<and> cs_ndir (cg_cs acg) = 0 \<and>
    cs_nifree (cg_cs acg) = fs_ipg fs - (if c = 0 then UFS_ROOTINO else 0) \<and>
    free_of (cg_blksfree acg) = new_free fs c \<and> (\<forall>j < nat (fs_ipg fs). isset (cg_inosused acg) j \<longleftrightarrow> c = 0 \<and> j < nat UFS_ROOTINO)"
proof -
  define n where "n = nat (howmany (fs_ipg fs) 8)"
  have n: "8 * int n = fs_ipg fs" using inode_bytes[OF assms(5,6)] by (simp add: n_def)
  then have n0: "0 < n" "nat (fs_ipg fs) = 8 * n" using assms(5) by linarith+
  define acg0 where "acg0 = empty_cg 2 fs c (cg_dmax fs c - cgbase fs (int c))"
  define acg1 where "acg1 = (if c = 0 then reserve_inodes 0 (nat UFS_ROOTINO) acg0 else acg0)"
  obtain acg where acg: "initcg 2 fs c = Inr acg" "cg_ok fs acg" "free_of (cg_blksfree acg) = new_free fs c"
    "cg_magic acg = cg_magic acg1" "cg_cgx acg = cg_cgx acg1" "cg_ndblk acg = cg_ndblk acg1" "cg_irotor acg = cg_irotor acg1"
    "cg_niblk acg = cg_niblk acg1" "cg_initediblk acg = cg_initediblk acg1" "cg_inosused acg = cg_inosused acg1"
    "cs_nifree (cg_cs acg) = cs_nifree (cg_cs acg1)" "cs_ndir (cg_cs acg) = 0"
    using initcg_maps[OF assms(1-4), of 2] unfolding Let_def acg0_def[symmetric] acg1_def[symmetric] by metis
  have m: "cg_inosused acg1 = (if c = 0 then setbit (setbit (replicate n 0) 0) 1 else replicate n 0)"
    "cs_nifree (cg_cs acg1) = fs_ipg fs - (if c = 0 then 2 else 0)" "cg_irotor acg1 = 0" "cg_niblk acg1 = fs_ipg fs"
    "cg_initediblk acg1 = min (fs_ipg fs) (2 * INOPB fs)" "cg_magic acg1 = CG_MAGIC" "cg_cgx acg1 = int c"
    "cg_ndblk acg1 = cg_dmax fs c - cgbase fs (int c)"
    by (simp_all add: acg1_def acg0_def empty_cg_def reserve_two n_def)
  have cl: "clear_below (cg_inosused acg1) (8 * n) = (if c = 0 then {0..<8 * n} - {0} - {1} else {0..<8 * n})"
    using n0(1) by (simp add: m(1) clear_below_set clear_below_all)
  have iss: "isset (cg_inosused acg1) j \<longleftrightarrow> c = 0 \<and> j < nat UFS_ROOTINO" if "j < 8 * n" for j
  proof -
    have "isset (cg_inosused acg1) j \<longleftrightarrow> j \<notin> clear_below (cg_inosused acg1) (8 * n)" using that by (simp add: clear_below_def)
    then show ?thesis using that unfolding cl by (auto simp: UFS_ROOTINO_def)
  qed
  have "int (card (clear_below (cg_inosused acg1) (8 * n))) = fs_ipg fs - (if c = 0 then 2 else 0)"
    using n n0(1) unfolding cl by (simp add: card_Diff_singleton)
  then have "inodes_ok fs acg" using n n0 assms(5,7) unfolding inodes_ok_def n0(2) acg by (simp add: m)
  then show ?thesis using acg m iss n0(2) by (auto simp: cg_chkmagic_def UFS_ROOTINO_def)
qed

end
