(* ===== verification/Newfs.thy ===== *)
theory Newfs
  imports Newfs_Group Ddfs_System
begin

text \<open>
  \<open>mkfs\<close> of \<open>deduplicating-fs/tools/newfs-ddfs/mkfs.c\<close>: the writing of a file system. The functions of
  \<open>libufs\<close> are a record of parameters. The model is that of the second version of the format, which is the only
  one \<open>ddfs\<close> mounts, without the options that stop early (\<open>-N\<close>, \<open>-X\<close>), erase the device first (\<open>-E\<close>) or update
  a disk label; messages are left out.
\<close>

section \<open>Definitions\<close>

subsection \<open>The library and the state\<close>

text \<open>\<open>lu_bwrite\<close> gets the sector and the bytes; \<open>lu_sbwrite\<close> writes the superblock and its summary (which it finds in
  \<open>fs_csp\<close>), \<open>lu_cgwrite\<close> a cylinder group; \<open>lu_bread_cg\<close> is what \<open>bread\<close> puts into the group's buffer. The remaining
  fields: the structure \<open>struct fs\<close> as bytes in memory, a superblock read from a sector (nothing if that fails), the bytes
  of a sector, random numbers, the writing of an inode, and the time.\<close>

record dir_node =
  dn_mode :: int
  dn_nlink :: int
  dn_size :: int
  dn_db0 :: int
  dn_blocks :: int
  dn_time :: int
  dn_gid :: int

record 'w libufs =
  lu_bwrite :: "int \<Rightarrow> byte list \<Rightarrow> 'w \<Rightarrow> int \<times> 'w"
  lu_sbwrite :: "ddfs_fs \<Rightarrow> csum list \<Rightarrow> 'w \<Rightarrow> int \<times> 'w"
  lu_cgwrite :: "ddfs_fs \<Rightarrow> cg \<Rightarrow> 'w \<Rightarrow> int \<times> 'w"
  lu_bread_cg :: "int \<Rightarrow> int \<Rightarrow> 'w \<Rightarrow> cg"
  lu_memory :: "ddfs_fs \<Rightarrow> nat \<Rightarrow> byte list"
  lu_bread_fs :: "int \<Rightarrow> 'w \<Rightarrow> ddfs_fs option"
  lu_bread :: "int \<Rightarrow> int \<Rightarrow> 'w \<Rightarrow> byte list option"
  lu_random :: "nat \<Rightarrow> nat \<Rightarrow> 32 word"
  lu_putinode :: "ddfs_fs \<Rightarrow> int \<Rightarrow> dir_node \<Rightarrow> 'w \<Rightarrow> int \<times> 'w"
  lu_utime :: int
  lu_operator :: "int option"

text \<open>The globals, the summary \<open>fscs\<close>, the I/O buffer of two blocks and the device. Each group has one entry of the summary; what pads it is left out.\<close>

record 'w mkst =
  mk_g :: newfs
  mk_fscs :: "csum list"
  mk_iobuf :: "byte list"
  mk_w :: 'w

abbreviation mk_fs :: "'w mkst \<Rightarrow> ddfs_fs" where
  "mk_fs s \<equiv> g_sblock (mk_g s)"

definition set_fs :: "ddfs_fs \<Rightarrow> 'w mkst \<Rightarrow> 'w mkst" where
  "set_fs fs s = s\<lparr>mk_g := (mk_g s)\<lparr>g_sblock := fs\<rparr>\<rparr>"

definition upd_total0 :: "(csum_total \<Rightarrow> csum_total) \<Rightarrow> (csum \<Rightarrow> csum) \<Rightarrow> 'w mkst \<Rightarrow> 'w mkst" where
  "upd_total0 h k s = (set_fs ((mk_fs s)\<lparr>fs_cstotal := h (fs_cstotal (mk_fs s))\<rparr>) s)\<lparr>mk_fscs := (mk_fscs s)[0 := k (mk_fscs s ! 0)]\<rparr>"

text \<open>A call whose failure ends the program with code \<open>n\<close>.\<close>

definition must :: "int \<Rightarrow> int \<times> 'w \<Rightarrow> 'w mkst \<Rightarrow> stop + 'w mkst" where
  "must n r s = (if fst r < 0 then Inl (Quit n) else Inr (s\<lparr>mk_w := snd r\<rparr>))"

definition wtfs :: "'w libufs \<Rightarrow> int \<Rightarrow> byte list \<Rightarrow> 'w mkst \<Rightarrow> stop + 'w mkst" where
  "wtfs L bno bf s = must 36 (lu_bwrite L (g_part_ofs (mk_g s) + bno) bf (mk_w s)) s"

text \<open>\<open>sbwrite\<close> and \<open>cgwrite\<close> return 0 when they succeed.\<close>

definition write_super :: "'w libufs \<Rightarrow> 'w mkst \<Rightarrow> stop + 'w mkst" where
  "write_super L s = (let r = lu_sbwrite L (mk_fs s) (mk_fscs s) (mk_w s) in
     if fst r \<noteq> 0 then Inl (Quit 1) else Inr (s\<lparr>mk_w := snd r\<rparr>))"

definition write_cg :: "'w libufs \<Rightarrow> cg \<Rightarrow> 'w mkst \<Rightarrow> stop + 'w mkst" where
  "write_cg L acg s = (let r = lu_cgwrite L (mk_fs s) acg (mk_w s) in
     if fst r \<noteq> 0 then Inl (Quit 1) else Inr (s\<lparr>mk_w := snd r\<rparr>))"

definition read_cg :: "'w libufs \<Rightarrow> int \<Rightarrow> 'w mkst \<Rightarrow> stop + cg" where
  "read_cg L n s =
     (let acg = lu_bread_cg L (g_part_ofs (mk_g s) + fsbtodb (mk_fs s) (cgtod (mk_fs s) 0)) (fs_cgsize (mk_fs s)) (mk_w s) in
      if cg_magic acg = CG_MAGIC then Inr acg else Inl (Quit n))"

subsection \<open>Cylinder groups\<close>

text \<open>Two blocks of inodes get their generation numbers; \<open>di_gen\<close> is at byte 80 of the 256 of an inode.\<close>

fun put_gens :: "(nat \<Rightarrow> 32 word) \<Rightarrow> nat \<Rightarrow> byte list \<Rightarrow> byte list" where
  "put_gens rnd 0 buf = buf"
| "put_gens rnd (Suc i) buf = put_gens rnd i (overlay (256 * i + 80) (le_bytes 4 (unat (rnd i))) buf)"

definition output_group :: "'w libufs \<Rightarrow> nat \<Rightarrow> cg \<Rightarrow> 'w mkst \<Rightarrow> stop + 'w mkst" where
  "output_group L c acg s =
     (let fs = mk_fs s; s1 = s\<lparr>mk_fscs := (mk_fscs s)[c := cg_cs acg]\<rparr> in
      case write_super L (set_fs (fs\<lparr>fs_sblockactualloc := 512 * fsbtodb fs (cgsblock fs (int c))\<rparr>) s1) of Inl x \<Rightarrow> Inl x
      | Inr s2 \<Rightarrow> (case write_cg L acg (set_fs fs s2) of Inl x \<Rightarrow> Inl x
        | Inr s3 \<Rightarrow>
          let s4 = s3\<lparr>mk_iobuf := put_gens (lu_random L c) (nat (cg_initediblk acg)) (mk_iobuf s3)\<rparr> in
          wtfs L (fsbtodb fs (cgimin fs (int c))) (mk_iobuf s4) s4))"

fun write_groups :: "'w libufs \<Rightarrow> nat \<Rightarrow> nat \<Rightarrow> 'w mkst \<Rightarrow> stop + 'w mkst" where
  "write_groups L c 0 s = Inr s"
| "write_groups L c (Suc n) s =
     (case initcg (g_Oflag (mk_g s)) (mk_fs s) c of Inl x \<Rightarrow> Inl x
      | Inr acg \<Rightarrow> (case output_group L c acg s of Inl x \<Rightarrow> Inl x | Inr s1 \<Rightarrow> write_groups L (Suc c) n s1))"

subsection \<open>The root directory\<close>

text \<open>The number of bytes an entry takes: the name with its end, rounded up to four, after eight of header.\<close>

definition dirsiz :: "string \<Rightarrow> nat" where
  "dirsiz name = 8 + (length name + 1 + 3) div 4 * 4"

definition dirent_bytes :: "int \<Rightarrow> nat \<Rightarrow> string \<Rightarrow> byte list" where
  "dirent_bytes ino reclen name = take (dirsiz name) (le_bytes 4 (nat ino) @ le_bytes 2 reclen @ [4, of_nat (length name)] @
     map (\<lambda>c. word_of_nat (of_char c)) name @ replicate 4 0)"

text \<open>The prototypes and the offset of the next entry; the last entry takes the space that is left.\<close>

fun makedir :: "(int \<times> string) list \<Rightarrow> nat \<Rightarrow> byte list \<Rightarrow> byte list" where
  "makedir [] cp buf = buf"
| "makedir [(ino, name)] cp buf = overlay cp (dirent_bytes ino (512 - cp) name) buf"
| "makedir ((ino, name) # e # es) cp buf =
     makedir (e # es) (cp + dirsiz name) (overlay cp (dirent_bytes ino (dirsiz name) name) buf)"

definition root_dir :: "(int \<times> string) list" where
  "root_dir = [(UFS_ROOTINO, ''.''), (UFS_ROOTINO, ''..''), (UFS_ROOTINO + 1, ''.snap'')]"

definition snap_dir :: "(int \<times> string) list" where
  "snap_dir = [(UFS_ROOTINO + 1, ''.''), (UFS_ROOTINO, ''..'')]"

text \<open>The search of \<open>alloc\<close> for a free block.\<close>

function find_block :: "ddfs_fs \<Rightarrow> byte list \<Rightarrow> nat \<Rightarrow> nat \<Rightarrow> nat option" where
  "find_block fs m ndblk d =
     (if d < ndblk \<and> 0 < fs_frag fs then
        if newfs_isblock fs m (d div nat (fs_frag fs)) then Some d else find_block fs m ndblk (d + nat (fs_frag fs))
      else None)"
  by pat_completeness auto

termination
  by (relation "measure (\<lambda>(fs, m, ndblk, d). ndblk - d)") auto

declare find_block.simps [simp del]

definition take_first :: "ddfs_fs \<Rightarrow> int \<Rightarrow> int \<Rightarrow> nat \<Rightarrow> cg \<Rightarrow> cg" where
  "take_first fs sz mode d acg =
     (let blkno = nat (fragstoblks fs (int d)); fr = nat (howmany sz (fs_fsize fs)); n = nat (fs_frag fs);
        acg1 = acg\<lparr>cg_blksfree := newfs_clrblock fs (cg_blksfree acg) blkno,
          cg_clustersfree := (if 0 < fs_contigsumsize fs then clrbit (cg_clustersfree acg) blkno else cg_clustersfree acg),
          cg_cs := (cg_cs acg)\<lparr>cs_nbfree := cs_nbfree (cg_cs acg) - 1,
            cs_ndir := cs_ndir (cg_cs acg) + (if mode AND IFDIR \<noteq> 0 then 1 else 0)\<rparr>\<rparr>
      in if sz \<noteq> fs_bsize fs then
           acg1\<lparr>cg_cs := (cg_cs acg1)\<lparr>cs_nffree := cs_nffree (cg_cs acg1) + int (n - fr)\<rparr>,
             cg_frsum := add_at (cg_frsum acg1) (n - fr) 1, cg_blksfree := set_frags (cg_blksfree acg1) (d + fr) (n - fr)\<rparr>
         else acg1)"

definition newfs_alloc :: "'w libufs \<Rightarrow> int \<Rightarrow> int \<Rightarrow> 'w mkst \<Rightarrow> stop + int \<times> 'w mkst" where
  "newfs_alloc L sz mode s =
     (case read_cg L 38 s of Inl x \<Rightarrow> Inl x
      | Inr acg \<Rightarrow>
        let fs = mk_fs s; dir = (if mode AND IFDIR \<noteq> 0 then 1 else 0);
          nff = (if sz \<noteq> fs_bsize fs then fs_frag fs - howmany sz (fs_fsize fs) else 0) in
        if cs_nbfree (cg_cs acg) = 0 then Inl (Quit 39)
        else (case find_block fs (cg_blksfree acg) (nat (cg_ndblk acg)) 0 of None \<Rightarrow> Inl (Quit 40)
          | Some d \<Rightarrow>
            let s1 = upd_total0
                (\<lambda>t. t\<lparr>cst_nbfree := cst_nbfree t - 1, cst_ndir := cst_ndir t + dir, cst_nffree := cst_nffree t + nff\<rparr>)
                (\<lambda>c. c\<lparr>cs_nbfree := cs_nbfree c - 1, cs_ndir := cs_ndir c + dir, cs_nffree := cs_nffree c + nff\<rparr>) s in
            map_sum id (Pair (int d)) (write_cg L (take_first fs sz mode d acg) s1)))"

definition iput :: "'w libufs \<Rightarrow> dir_node \<Rightarrow> int \<Rightarrow> 'w mkst \<Rightarrow> stop + 'w mkst" where
  "iput L node ino s =
     (case read_cg L 31 s of Inl x \<Rightarrow> Inl x
      | Inr acg \<Rightarrow>
        (case write_cg L (acg\<lparr>cg_cs := (cg_cs acg)\<lparr>cs_nifree := cs_nifree (cg_cs acg) - 1\<rparr>,
            cg_inosused := setbit (cg_inosused acg) (nat ino)\<rparr>) s of Inl x \<Rightarrow> Inl x
         | Inr s1 \<Rightarrow>
           let s2 = upd_total0 (\<lambda>t. t\<lparr>cst_nifree := cst_nifree t - 1\<rparr>) (\<lambda>c. c\<lparr>cs_nifree := cs_nifree c - 1\<rparr>) s1 in
           must 32 (lu_putinode L (mk_fs s2) ino node (mk_w s2)) s2))"

text \<open>One directory of \<open>fsinit\<close>: its block, its inode. The first 512 bytes of the I/O buffer become the directory;
  what follows them in the fragment that is written is left from the inodes.\<close>

definition make_directory :: "'w libufs \<Rightarrow> (int \<times> string) list \<Rightarrow> dir_node \<Rightarrow> int \<Rightarrow> 'w mkst \<Rightarrow> stop + 'w mkst" where
  "make_directory L proto node ino s =
     (let fs = mk_fs s; buf = makedir proto 0 (overlay 0 (replicate 512 0) (mk_iobuf s)) in
      case newfs_alloc L (fs_fsize fs) (dn_mode node) (s\<lparr>mk_iobuf := buf\<rparr>) of Inl x \<Rightarrow> Inl x
      | Inr (b, s1) \<Rightarrow>
        (case wtfs L (fsbtodb (mk_fs s1) b) (take (nat (fs_fsize fs)) buf) s1 of Inl x \<Rightarrow> Inl x
         | Inr s2 \<Rightarrow> iput L (node\<lparr>dn_size := 512, dn_db0 := b, dn_blocks := fragroundup (mk_fs s2) 512 div 512\<rparr>) ino s2))"

definition fsinit :: "'w libufs \<Rightarrow> 'w mkst \<Rightarrow> stop + 'w mkst" where
  "fsinit L s =
     (let entries = (if g_nflag (mk_g s) then 2 else 3); mode = IFDIR OR 493;
        root = \<lparr>dn_mode = mode, dn_nlink = int entries, dn_size = 0, dn_db0 = 0, dn_blocks = 0, dn_time = lu_utime L, dn_gid = 0\<rparr> in
      case make_directory L (take entries root_dir) root UFS_ROOTINO s of Inl x \<Rightarrow> Inl x
      | Inr s1 \<Rightarrow>
        if g_nflag (mk_g s) then Inr s1
        else make_directory L snap_dir (root\<lparr>dn_mode := mode OR 16, dn_gid := (case lu_operator L of None \<Rightarrow> 0 | Some n \<Rightarrow> n),
          dn_nlink := 2\<rparr>) (UFS_ROOTINO + 1) s1)"

subsection \<open>Old superblocks\<close>

text \<open>A superblock of the first version that is found on the device is invalidated, with its copies.\<close>

fun wipe_copies :: "'w libufs \<Rightarrow> ddfs_fs \<Rightarrow> nat \<Rightarrow> nat \<Rightarrow> 'w mkst \<Rightarrow> 'w mkst" where
  "wipe_copies L old c 0 s = s"
| "wipe_copies L old c (Suc n) s =
     (let at = fsbtodb old (cgsblock old (int c)) in
      if g_fssize (mk_g s) < at then s
      else wipe_copies L old (Suc c) n
        (s\<lparr>mk_w := snd (lu_bwrite L (g_part_ofs (mk_g s) + at) (lu_memory L old (nat SBLOCKSIZE)) (mk_w s))\<rparr>))"

definition wipe_old :: "'w libufs \<Rightarrow> 'w mkst \<Rightarrow> stop + 'w mkst" where
  "wipe_old L s =
     (let at = g_part_ofs (mk_g s) + SBLOCK_UFS1 div 512 in
      if SBLOCK_UFS1 < g_realsectorsize (mk_g s) then Inr s
      else (case lu_bread_fs L at (mk_w s) of None \<Rightarrow> Inl (Quit 1)
        | Some old \<Rightarrow>
          if fs_magic old \<noteq> FS_UFS1_MAGIC then Inr s
          else
            let old1 = old\<lparr>fs_magic := 0\<rparr>;
              s1 = s\<lparr>mk_w := snd (lu_bwrite L at (lu_memory L old1 (nat SBLOCKSIZE)) (mk_w s))\<rparr>
            in Inr (wipe_copies L old1 0 (nat (fs_ncg old1)) s1)))"

subsection \<open>Recovery information and the deduplication table\<close>

definition recovery_bytes :: "ddfs_fs \<Rightarrow> byte list" where
  "recovery_bytes fs = concat (map (\<lambda>x. le_bytes 4 (nat (x mod 2 ^ 32)))
     [fs_magic fs, int (fs_fsbtodb fs), fs_sblkno fs, fs_fpg fs, fs_ncg fs])"

definition write_recovery :: "'w libufs \<Rightarrow> 'w mkst \<Rightarrow> stop + 'w mkst" where
  "write_recovery L s =
     (let rs = g_realsectorsize (mk_g s); at = (SBLOCK_UFS2 - rs) div 512 in
      if fs_magic (mk_fs s) \<noteq> FS_DDFS_MAGIC then Inr s
      else (case lu_bread L (g_part_ofs (mk_g s) + at) rs (mk_w s) of None \<Rightarrow> Inl (Quit 1)
        | Some buf \<Rightarrow> wtfs L at (overlay (nat rs - 20) (recovery_bytes (mk_fs s)) buf) s))"

text \<open>A fragment full of free entries: from byte \<open>i\<close> on, and the writing of all fragments. The sector is computed from
  \<open>DEV_BSIZE\<close>, and without the offset of the partition.\<close>

function fill_entries :: "nat \<Rightarrow> nat \<Rightarrow> byte list \<Rightarrow> byte list" where
  "fill_entries fsize i buf = (if i < fsize then fill_entries fsize (i + sizeof_dedup) (overlay i (encode_dedup free_entry) buf) else buf)"
  by pat_completeness auto

termination
  by (relation "measure (\<lambda>(fsize, i, buf). fsize - i)") (auto simp: sizeof_dedup_def)

declare fill_entries.simps [simp del]

fun write_table :: "'w libufs \<Rightarrow> byte list \<Rightarrow> nat \<Rightarrow> nat \<Rightarrow> 'w mkst \<Rightarrow> stop + 'w mkst" where
  "write_table L buf i 0 s = Inr s"
| "write_table L buf i (Suc n) s =
     (case must 36 (lu_bwrite L (fs_fsize (mk_fs s) div 512 * (fs_ddblkno (mk_fs s) + int i)) buf (mk_w s)) s of Inl x \<Rightarrow> Inl x
      | Inr s1 \<Rightarrow> write_table L buf (Suc i) n s1)"

subsection \<open>The program\<close>

text \<open>\<open>calloc\<close> clears the summary and the I/O buffer; the superblock refers to the summary from then on.\<close>

definition mkfs :: "'w libufs \<Rightarrow> newfs \<Rightarrow> 'w \<Rightarrow> stop + 'w mkst" where
  "mkfs L g w =
     (if g_fssize g \<le> 0 then Inl (Quit 13)
      else
        case wtfs L (g_fssize g - g_realsectorsize g div 512) (lu_memory L (g_sblock g) (nat (g_realsectorsize g)))
          \<lparr>mk_g = g, mk_fscs = [], mk_iobuf = [], mk_w = w\<rparr> of Inl x \<Rightarrow> Inl x
        | Inr s \<Rightarrow>
        (case mkfs_layout g of Inl x \<Rightarrow> Inl x
         | Inr g1 \<Rightarrow>
         let ncg = nat (fs_ncg (g_sblock g1));
           zero = \<lparr>cs_ndir = 0, cs_nbfree = 0, cs_nifree = 0, cs_nffree = 0\<rparr> in
         (case wipe_old L \<lparr>mk_g = g1, mk_fscs = replicate ncg zero, mk_iobuf = replicate (nat (2 * fs_bsize (g_sblock g1))) 0, mk_w = mk_w s\<rparr>
            of Inl x \<Rightarrow> Inl x
          | Inr s1 \<Rightarrow> (case write_super L s1 of Inl x \<Rightarrow> Inl x
            | Inr s2 \<Rightarrow> (case write_groups L 0 ncg (set_fs ((mk_fs s2)\<lparr>fs_magic := FS_DDFS_MAGIC\<rparr>) s2) of Inl x \<Rightarrow> Inl x
              | Inr s3 \<Rightarrow> (case fsinit L s3 of Inl x \<Rightarrow> Inl x
                | Inr s4 \<Rightarrow> (case write_super L s4 of Inl x \<Rightarrow> Inl x
                  | Inr s5 \<Rightarrow> (case write_recovery L s5 of Inl x \<Rightarrow> Inl x
                    | Inr s6 \<Rightarrow>
                      let fsz = nat (fs_fsize (mk_fs s6)) in
                      write_table L (fill_entries fsz 0 (replicate fsz 0)) 0 (nat (fs_dedupfrags (mk_fs s6))) s6))))))))"

end
