(* ===== verification/Newfs_Device.thy ===== *)
theory Newfs_Device
  imports Newfs Ddfs_Store
begin

text \<open>
  What the writing of a file system relies on of \<open>libufs\<close> and the device, and what it leaves: a cylinder group
  that has been written is read back until something else is written over it, and \<open>mkfs\<close> writes nothing over
  the first group. The result is a file system in the state that the allocator and the table need.
\<close>

section \<open>The contract\<close>

definition apart :: "int \<Rightarrow> int \<Rightarrow> int \<Rightarrow> int \<Rightarrow> bool" where
  "apart a n b m \<longleftrightarrow> a + n \<le> b \<or> b + m \<le> a"

locale newfs_device =
  fixes L :: "'w libufs" and img :: "'w \<Rightarrow> image"
  assumes bwrite: "0 \<le> s \<Longrightarrow> 0 \<le> fst (lu_bwrite L s d w)"
    and bwrite_img: "0 \<le> s \<Longrightarrow> img (snd (lu_bwrite L s d w)) = poke (img w) (nat (512 * s)) d"
    and bwrite_cg: "0 \<le> s \<Longrightarrow> apart (512 * s) (int (length d)) (512 * t) n \<Longrightarrow> lu_bread_cg L t n (snd (lu_bwrite L s d w)) = lu_bread_cg L t n w"
    and cgwrite: "fst (lu_cgwrite L fs acg w) = 0"
    and cgwrite_cg: "lu_bread_cg L (fsbtodb fs (cgtod fs (cg_cgx acg))) (fs_cgsize fs) (snd (lu_cgwrite L fs acg w)) = acg"
    and sbwrite: "fst (lu_sbwrite L fs csp w) = 0"
    and sbwrite_cg: "apart (fs_sblockactualloc fs) (fs_sbsize fs) (512 * t) n \<Longrightarrow> apart (fs_fsize fs * fs_csaddr fs) (fs_cssize fs) (512 * t) n \<Longrightarrow>
      lu_bread_cg L t n (snd (lu_sbwrite L fs csp w)) = lu_bread_cg L t n w"
    and putinode: "0 \<le> fst (lu_putinode L fs ino node w)"
    and putinode_cg: "apart (fs_fsize fs * ino_to_fsba fs ino) (fs_bsize fs) (512 * t) n \<Longrightarrow>
      lu_bread_cg L t n (snd (lu_putinode L fs ino node w)) = lu_bread_cg L t n w"
    and bread_fs: "lu_bread_fs L t w \<noteq> None"
    and bread: "\<exists>buf. lu_bread L t n w = Some buf \<and> length buf = nat n"
begin

text \<open>The first group on the device, where the superblock has it.\<close>

definition first_cg :: "ddfs_fs \<Rightarrow> 'w \<Rightarrow> cg" where
  "first_cg fs w = lu_bread_cg L (fsbtodb fs (cgtod fs 0)) (fs_cgsize fs) w"

end

section \<open>A layout of one group\<close>

text \<open>The superblock while the group is written, for blocks that are not divided.\<close>

definition one_group :: "int \<Rightarrow> ddfs_fs \<Rightarrow> bool" where
  "one_group media fs \<longleftrightarrow> sections_ok media fs \<and> groups_ok fs \<and> 0 \<le> media \<and> fs_dblkno fs = inode_end fs \<and> fs_csaddr fs = fs_dblkno fs \<and>
     fs_cgsize fs = roundup (CGSIZE fs) (fs_fsize fs) \<and> fs_cssize fs = roundup (fs_ncg fs * sizeof_csum) (fs_fsize fs) \<and>
     fs_magic fs = FS_DDFS_MAGIC \<and> fs_frag fs = 1 \<and> fs_ncg fs = 1 \<and> CGSIZE fs \<le> fs_bsize fs \<and> fs_sbsize fs \<le> SBLOCKSIZE \<and>
     fs_sblockloc fs = SBLOCK_UFS2 \<and> fs_dblkno fs + 1 < fs_size fs"

lemma one_groupD:
  assumes "one_group media fs"
  shows "geometry_ok fs" "fs_fsize fs = fs_bsize fs" "4096 \<le> fs_fsize fs" "ipg_ok fs" "fs_cssize fs = fs_fsize fs" "fs_cgsize fs = fs_fsize fs"
    "fs_size fs \<le> fs_fpg fs" "fs_dblkno fs = inode_end fs" "0 < INOPB fs" "8 dvd INOPB fs"
proof -
  show "0 < INOPB fs" "8 dvd INOPB fs" using assms unfolding one_group_def sections_ok_def by blast+
  show geo: "geometry_ok fs" and b: "fs_fsize fs = fs_bsize fs" and f: "4096 \<le> fs_fsize fs" and ipg: "ipg_ok fs" and "fs_dblkno fs = inode_end fs"
    using assms geometryD(9)[of fs] by (simp_all add: one_group_def sections_ok_def groups_ok_def)
  have one: "roundup x (fs_fsize fs) = fs_fsize fs" if "0 < x" "x \<le> fs_fsize fs" for x
  proof -
    have "(x + (fs_fsize fs - 1)) div fs_fsize fs = 1" by (rule int_div_pos_eq[where r = "x - 1"]) (use that in linarith)+
    then show ?thesis by (simp add: roundup_def)
  qed
  show "fs_cssize fs = fs_fsize fs" using assms f one[of 16] by (simp add: one_group_def sizeof_csum_def)
  have "0 < CGSIZE fs"
    using ipg howmany_nonneg[of 8 "fs_ipg fs"] howmany_nonneg[of 8 "fs_fpg fs"] howmany_nonneg[of 8 "fragstoblks fs (fs_fpg fs)"] assms
    by (simp add: CGSIZE_def ipg_ok_def macros_div[OF geo] one_group_def)
  then show "fs_cgsize fs = fs_fsize fs" using assms one[of "CGSIZE fs"] b by (simp add: one_group_def)
  have "howmany (fs_size fs) (fs_fpg fs) = 1" "0 < fs_fpg fs" using assms by (simp_all add: one_group_def groups_ok_def ipg_ok_def)
  then show "fs_size fs \<le> fs_fpg fs" using howmany_bounds(1)[of "fs_fpg fs" "fs_size fs"] by simp
qed

lemma one_group_bytes:
  assumes "one_group media fs" "F = fs_fsize fs"
  shows "512 * fsbtodb fs (cgtod fs 0) = F * fs_cblkno fs" "0 \<le> fs_cblkno fs" "fs_iblkno fs = fs_cblkno fs + 1" "cgimin fs 0 = fs_iblkno fs"
    "cgsblock fs 0 = fs_ddblkno fs + fs_dedupfrags fs" "fs_iblkno fs < fs_dblkno fs"
    "65536 + 8192 \<le> F * fs_cblkno fs" "fs_sblockactualloc fs = 65536" "F * cgsblock fs 0 + 8192 \<le> F * fs_cblkno fs" "0 \<le> fs_ddblkno fs"
    "0 \<le> fs_dedupfrags fs"
proof -
  note d = one_groupD[OF assms(1)]
  have so: "sections_ok media fs" "0 \<le> media" using assms(1) by (simp_all add: one_group_def)
  note p = sections_pos[OF so]
  have st: "cgstart fs 0 = 0" using assms(1) by (simp add: one_group_def cgstart_def cgbase_def)
  show c: "512 * fsbtodb fs (cgtod fs 0) = F * fs_cblkno fs" "cgimin fs 0 = fs_iblkno fs" "cgsblock fs 0 = fs_ddblkno fs + fs_dedupfrags fs"
    unfolding fsbtodb_bytes[OF d(1)] by (simp_all add: assms(2) cgtod_def cgimin_def cgsblock_def st)
  show dd: "0 \<le> fs_dedupfrags fs" using so by (simp add: sections_ok_def)
  show "0 \<le> fs_ddblkno fs" "0 \<le> fs_cblkno fs" using p dd by linarith+
  show "fs_iblkno fs = fs_cblkno fs + 1" "fs_sblockactualloc fs = 65536" "F * cgsblock fs 0 + 8192 \<le> F * fs_cblkno fs"
    using assms c by (simp_all add: one_group_def sections_ok_def SBLOCK_UFS2_def SBLOCKSIZE_def)
  show "fs_iblkno fs < fs_dblkno fs" using inode_end_pos(2)[OF so(1) d(4)] d(8) by simp
  have "F * fs_sblkno fs \<le> F * fs_cblkno fs" using p dd d(3) assms(2) by (intro mult_left_mono) linarith+
  then show "65536 + 8192 \<le> F * fs_cblkno fs"
    using assms by (simp add: one_group_def sections_ok_def SBLOCK_UFS2_def SBLOCKSIZE_def)
qed

text \<open>What is in front of the group's block, or behind it.\<close>

lemma apart_front: "one_group media fs \<Longrightarrow> a + n \<le> fs_fsize fs * fs_cblkno fs \<Longrightarrow> apart a n (512 * fsbtodb fs (cgtod fs 0)) (fs_cgsize fs)"
  using one_group_bytes(1)[OF _ refl] by (simp add: apart_def)

lemma apart_back:
  assumes "one_group media fs" "fs_iblkno fs \<le> b" "a = fs_fsize fs * b"
  shows "apart a n (512 * fsbtodb fs (cgtod fs 0)) (fs_cgsize fs)"
proof -
  note d = one_groupD[OF assms(1)] and e = one_group_bytes[OF assms(1) refl]
  have "fs_fsize fs * (fs_cblkno fs + 1) \<le> a" unfolding assms(3) using assms(2) d(3) e(3) by (intro mult_left_mono) simp_all
  then show ?thesis using e(1) d(6) by (simp add: apart_def distrib_left)
qed

context newfs_device
begin

text \<open>\<open>on_disk\<close>: the group on the device is \<open>acg\<close>, the summary is its summary; of the superblock, the totals may have changed.\<close>

definition on_disk :: "ddfs_fs \<Rightarrow> cg \<Rightarrow> 'w mkst \<Rightarrow> bool" where
  "on_disk fs acg s \<longleftrightarrow> first_cg fs (mk_w s) = acg \<and> mk_fscs s = [cg_cs acg] \<and> g_part_ofs (mk_g s) = 0 \<and> g_nflag (mk_g s) \<and> mk_fs s = fs"

lemma must_ok: "0 \<le> fst r \<Longrightarrow> must n r s = Inr (s\<lparr>mk_w := snd r\<rparr>)"
  by (simp add: must_def)

lemma wtfs_ok: "g_part_ofs (mk_g s) = 0 \<Longrightarrow> 0 \<le> b \<Longrightarrow> wtfs L b bf s = Inr (s\<lparr>mk_w := snd (lu_bwrite L b bf (mk_w s))\<rparr>)"
  using bwrite[of b] by (simp add: wtfs_def must_ok)

lemma write_super_ok: "write_super L s = Inr (s\<lparr>mk_w := snd (lu_sbwrite L (mk_fs s) (mk_fscs s) (mk_w s))\<rparr>)"
  by (simp add: write_super_def sbwrite)

lemma write_cg_ok: "write_cg L acg s = Inr (s\<lparr>mk_w := snd (lu_cgwrite L (mk_fs s) acg (mk_w s))\<rparr>)"
  by (simp add: write_cg_def cgwrite)

lemma read_cg_ok: "on_disk fs acg s \<Longrightarrow> cg_magic acg = CG_MAGIC \<Longrightarrow> read_cg L n s = Inr acg"
  by (simp add: read_cg_def on_disk_def first_cg_def)

lemma first_cg_written: "cg_cgx acg = 0 \<Longrightarrow> first_cg fs (snd (lu_cgwrite L fs acg w)) = acg"
  using cgwrite_cg[of fs acg w] by (simp add: first_cg_def)

lemma first_cg_super:
  assumes "one_group media fs"
  shows "first_cg fs (snd (lu_sbwrite L fs csp w)) = first_cg fs w"
  unfolding first_cg_def
proof (rule sbwrite_cg)
  note d = one_groupD[OF assms] and e = one_group_bytes[OF assms refl]
  have "fs_sbsize fs \<le> 8192" using assms by (simp add: one_group_def SBLOCKSIZE_def)
  then show "apart (fs_sblockactualloc fs) (fs_sbsize fs) (512 * fsbtodb fs (cgtod fs 0)) (fs_cgsize fs)"
    using e(7,8) by (intro apart_front[OF assms]) simp
  show "apart (fs_fsize fs * fs_csaddr fs) (fs_cssize fs) (512 * fsbtodb fs (cgtod fs 0)) (fs_cgsize fs)"
    by (rule apart_back[OF assms _ refl]) (use assms e(6) in \<open>simp add: one_group_def\<close>)
qed

lemma first_cg_bwrite:
  assumes "one_group media fs" "0 \<le> b" "512 * b + int (length bf) \<le> fs_fsize fs * fs_cblkno fs \<or> (\<exists>k. fs_iblkno fs \<le> k \<and> 512 * b = fs_fsize fs * k)"
  shows "first_cg fs (snd (lu_bwrite L b bf w)) = first_cg fs w"
  unfolding first_cg_def by (rule bwrite_cg[OF assms(2)]) (use assms(3) apart_front[OF assms(1)] apart_back[OF assms(1)] in blast)

end

section \<open>Taking the first free block\<close>

lemma whole_isblock:
  assumes "geometry_ok fs" "fs_frag fs = 1"
  shows "newfs_isblock fs m h = isset m h"
proof -
  have one: "(\<forall>i < (1 :: nat). isset m (h * 1 + i)) = isset m h" by simp
  have "nat (fs_frag fs) = 1" using assms(2) by simp
  then show ?thesis using isblock_spec(1)[OF assms(1) refl, of m h] newfs_blocks(3)[OF assms(1), of m h] by (simp only: one sum.inject)
qed

lemma find_first:
  assumes "geometry_ok fs" "fs_frag fs = 1" "d \<le> x" "x < n" "isset m x" "\<And>j. d \<le> j \<Longrightarrow> j < x \<Longrightarrow> \<not> isset m j"
  shows "find_block fs m n d = Some x"
  using assms(3,6)
proof (induction "x - d" arbitrary: d)
  case 0
  then have "d = x" by simp
  then show ?case using assms(2,4,5) by (subst find_block.simps) (simp add: whole_isblock[OF assms(1,2)])
next
  case (Suc k)
  have "\<not> isset m d" using Suc.prems(2)[of d] Suc.hyps(2) by simp
  moreover have "d < n" using Suc.hyps(2) assms(4) by simp
  ultimately have "find_block fs m n d = find_block fs m n (Suc d)"
    using assms(2) by (subst find_block.simps) (simp add: whole_isblock[OF assms(1,2)])
  also have "\<dots> = Some x" by (rule Suc.hyps(1)) (use Suc.hyps(2) Suc.prems(2) in auto)
  finally show ?case .
qed

lemma whole_bits: "blk_bits (Suc 0) m h = [isset m h]" "nb [b] = of_bool b" "nf [b] = 0"
  by (simp_all add: blk_bits_def nb_def nf_def full_def)

definition inode_frame :: "cg \<Rightarrow> cg \<Rightarrow> bool" where
  "inode_frame acg acg' \<longleftrightarrow> cg_magic acg' = cg_magic acg \<and> cg_cgx acg' = cg_cgx acg \<and> cg_ndblk acg' = cg_ndblk acg \<and>
     cg_irotor acg' = cg_irotor acg \<and> cg_niblk acg' = cg_niblk acg \<and> cg_initediblk acg' = cg_initediblk acg \<and>
     cg_inosused acg' = cg_inosused acg \<and> cs_nifree (cg_cs acg') = cs_nifree (cg_cs acg)"

lemma take_first_spec:
  assumes "geometry_ok fs" "fs_frag fs = 1" "fs_fsize fs = fs_bsize fs" "cg_ok fs acg" "x \<in> free_of (cg_blksfree acg)" "mode AND IFDIR \<noteq> 0"
    "acg' = take_first fs (fs_fsize fs) mode x acg"
  shows "cg_ok fs acg'" "free_of (cg_blksfree acg') = free_of (cg_blksfree acg) - {x}" "inode_frame acg acg'"
    "cs_nbfree (cg_cs acg') = cs_nbfree (cg_cs acg) - 1" "cs_nffree (cg_cs acg') = cs_nffree (cg_cs acg)" "cs_ndir (cg_cs acg') = cs_ndir (cg_cs acg) + 1"
proof -
  let ?m = "cg_blksfree acg" and ?m' = "newfs_clrblock fs (cg_blksfree acg) x"
  have x: "x < 8 * length ?m" "isset ?m x" using assms(5) by (simp_all add: free_of_def)
  have n1: "nat (fs_frag fs) = 1" using assms(2) by simp
  have "x * 1 div 8 < length ?m" using x(1) by (simp add: less_mult_imp_div_less mult.commute)
  then obtain m' where m': "ffs_clrblock fs ?m x = Inr m'" "agree_off 1 x ?m m'" "\<forall>i < 1. \<not> isset m' (x * 1 + i)"
    using setclr_block(2)[OF assms(1) n1[symmetric], of x ?m] by blast
  then have mm: "m' = ?m'" using newfs_blocks(2)[OF assms(1), of ?m x] by simp
  have f: "cg_blksfree acg' = ?m'" "cg_frsum acg' = cg_frsum acg" "cg_rotor acg' = cg_rotor acg" "cg_frotor acg' = cg_frotor acg"
    "cg_ndblk acg' = cg_ndblk acg"
    using assms(2,3) by (simp_all add: assms(7) take_first_def Let_def macros_div[OF assms(1)])
  show c: "cs_nbfree (cg_cs acg') = cs_nbfree (cg_cs acg) - 1" "cs_nffree (cg_cs acg') = cs_nffree (cg_cs acg)" "cs_ndir (cg_cs acg') = cs_ndir (cg_cs acg) + 1"
    using assms(3,6) by (simp_all add: assms(7) take_first_def Let_def)
  show "inode_frame acg acg'" using assms(3) by (simp add: inode_frame_def assms(7) take_first_def Let_def)
  have l: "length ?m' = length ?m" using m'(2) by (simp add: agree_off_def mm)
  have iss: "isset ?m' j \<longleftrightarrow> isset ?m j \<and> j \<noteq> x" for j using m'(2,3) by (cases "j = x") (auto simp: agree_off_def mm)
  show fo: "free_of (cg_blksfree acg') = free_of ?m - {x}" using l iss by (auto simp: f free_of_def)
  have co: "counts_ok 1 ?m (cg_cs acg) (cg_frsum acg)" using assms(4) by (simp add: cg_ok_def n1)
  have "counts_ok 1 ?m' (cg_cs acg') (cg_frsum acg)"
    by (rule counts_update[OF co m'(2)[unfolded mm]]) (use x iss c in \<open>simp_all add: nblocks_def whole_bits\<close>)
  moreover have "\<forall>j \<in> free_of ?m'. int j < cg_ndblk acg" using assms(4) fo by (simp add: cg_ok_def f(1))
  ultimately show "cg_ok fs acg'" using assms(4) unfolding cg_ok_def n1 f l by blast
qed

lemma one_group_total: "one_group media (fs\<lparr>fs_cstotal := t\<rparr>) = one_group media fs"
  by (simp add: one_group_def sections_ok_def groups_ok_def geometry_ok_def INOPB_def INOPF_def ipg_ok_def inode_end_def CGSIZE_def fragstoblks_def)

lemma cg_ok_total: "cg_ok (fs\<lparr>fs_cstotal := t\<rparr>) = cg_ok fs" "inodes_ok (fs\<lparr>fs_cstotal := t\<rparr>) = inodes_ok fs"
  by (simp_all add: cg_ok_def inodes_ok_def fun_eq_iff)

section \<open>The root directory\<close>

definition mark_inode :: "nat \<Rightarrow> cg \<Rightarrow> cg" where
  "mark_inode i acg = acg\<lparr>cg_cs := (cg_cs acg)\<lparr>cs_nifree := cs_nifree (cg_cs acg) - 1\<rparr>, cg_inosused := setbit (cg_inosused acg) i\<rparr>"

text \<open>The group with its root directory, and the totals.\<close>

definition rooted_cg :: "ddfs_fs \<Rightarrow> nat \<Rightarrow> cg \<Rightarrow> cg" where
  "rooted_cg fs a acg = mark_inode (nat UFS_ROOTINO) (take_first fs (fs_fsize fs) (IFDIR OR 493) a acg)"

definition rooted_fs :: "ddfs_fs \<Rightarrow> ddfs_fs" where
  "rooted_fs fs = fs\<lparr>fs_cstotal := (fs_cstotal fs)\<lparr>cst_nbfree := cst_nbfree (fs_cstotal fs) - 1, cst_ndir := cst_ndir (fs_cstotal fs) + 1,
     cst_nifree := cst_nifree (fs_cstotal fs) - 1\<rparr>\<rparr>"

context newfs_device
begin

lemma first_cg_total: "first_cg (fs\<lparr>fs_cstotal := t\<rparr>) = first_cg fs"
  by (simp add: first_cg_def fun_eq_iff fsbtodb_def cgtod_def cgstart_def cgbase_def)

lemma alloc_ok:
  assumes "one_group media fs" "on_disk fs acg s" "cg_ok fs acg" "cg_chkmagic acg" "cg_cgx acg = 0"
    "free_of (cg_blksfree acg) = {a..<b}" "a < b" "mode AND IFDIR \<noteq> 0" "int b \<le> cg_ndblk acg"
    "acg' = take_first fs (fs_fsize fs) mode a acg" "T = fs_cstotal fs"
    "fs' = fs\<lparr>fs_cstotal := T\<lparr>cst_nbfree := cst_nbfree T - 1, cst_ndir := cst_ndir T + 1\<rparr>\<rparr>"
  shows "\<exists>s'. newfs_alloc L (fs_fsize fs) mode s = Inr (int a, s') \<and> on_disk fs' acg' s' \<and> mk_g s' = (mk_g s)\<lparr>g_sblock := fs'\<rparr>"
proof -
  note d = one_groupD[OF assms(1)]
  have w: "fs_frag fs = 1" using assms(1) by (simp add: one_group_def)
  have h: "mk_fs s = fs" "mk_fscs s = [cg_cs acg]" "g_part_ofs (mk_g s) = 0" "g_nflag (mk_g s)" using assms(2) by (simp_all add: on_disk_def)
  have n1: "nat (fs_frag fs) = 1" using w by simp
  have co: "counts_ok 1 (cg_blksfree acg) (cg_cs acg) (cg_frsum acg)" using assms(3) by (simp add: cg_ok_def n1)
  have nff: "cs_nffree (cg_cs acg) = 0" using co by (simp add: counts_ok_def whole_bits)
  have nb: "cs_nbfree (cg_cs acg) \<noteq> 0" using free_of_card[OF co] nff assms(6,7) by simp
  have x: "a \<in> free_of (cg_blksfree acg)" using assms(6,7) by simp
  note t = take_first_spec[OF d(1) w d(2) assms(3) x assms(8,10)]
  have clear: "\<not> isset (cg_blksfree acg) j" if "j < a" for j
  proof -
    have "a < 8 * length (cg_blksfree acg)" using x by (simp add: free_of_def)
    then show ?thesis using that assms(6) by (intro clear_at) auto
  qed
  have fb: "find_block fs (cg_blksfree acg) (nat (cg_ndblk acg)) 0 = Some a"
    by (rule find_first[OF d(1) w]) (use x assms(7,9) clear in \<open>auto simp: free_of_def\<close>)
  have cs: "(cg_cs acg)\<lparr>cs_nbfree := cs_nbfree (cg_cs acg) - 1, cs_ndir := cs_ndir (cg_cs acg) + 1\<rparr> = cg_cs acg'"
    using assms(8) d(2) by (simp add: assms(10) take_first_def Let_def)
  define s1 where "s1 = upd_total0 (\<lambda>t. t\<lparr>cst_nbfree := cst_nbfree t - 1, cst_ndir := cst_ndir t + 1, cst_nffree := cst_nffree t + 0\<rparr>)
     (\<lambda>c. c\<lparr>cs_nbfree := cs_nbfree c - 1, cs_ndir := cs_ndir c + 1, cs_nffree := cs_nffree c + 0\<rparr>) s"
  have s1: "mk_g s1 = (mk_g s)\<lparr>g_sblock := fs'\<rparr>" "mk_fscs s1 = [cg_cs acg']" "mk_w s1 = mk_w s"
    using cs by (simp_all add: s1_def upd_total0_def set_fs_def h assms(11,12))
  define s2 where "s2 = s1\<lparr>mk_w := snd (lu_cgwrite L fs' acg' (mk_w s))\<rparr>"
  have "newfs_alloc L (fs_fsize fs) mode s = Inr (int a, s2)"
    using read_cg_ok[OF assms(2), of 38] assms(4,8) nb fb d(2)
    by (simp add: newfs_alloc_def cg_chkmagic_def Let_def h write_cg_ok assms(10))
      (simp add: s2_def s1_def upd_total0_def set_fs_def h assms(10-12))
  moreover have "cg_cgx acg' = 0" using t(3) assms(5) by (simp add: inode_frame_def)
  then have "on_disk fs' acg' s2" using first_cg_written[of acg' fs'] by (simp add: on_disk_def s2_def s1 h)
  moreover have "mk_g s2 = (mk_g s)\<lparr>g_sblock := fs'\<rparr>" by (simp add: s2_def s1)
  ultimately show ?thesis by blast
qed

lemma first_cg_putinode:
  assumes "one_group media fs" "0 \<le> ino" "ino < fs_ipg fs"
  shows "first_cg fs (snd (lu_putinode L fs ino node w)) = first_cg fs w"
  unfolding first_cg_def
proof (rule putinode_cg, rule apart_back[OF assms(1) _ refl])
  note d = one_groupD[OF assms(1)] and e = one_group_bytes[OF assms(1) refl]
  have "ino_to_cg fs ino = 0" using assms(2,3) by (simp add: ino_to_cg_def div_pos_pos_trivial)
  moreover note d(9)
  then have "0 \<le> blkstofrags fs (ino mod fs_ipg fs div INOPB fs)"
    using assms(2,3) frag_pos[OF d(1)] by (simp add: macros_div[OF d(1)] pos_imp_zdiv_nonneg_iff)
  ultimately show "fs_iblkno fs \<le> ino_to_fsba fs ino" using e(4) by (simp add: ino_to_fsba_def)
qed

lemma iput_ok:
  assumes "one_group media fs" "on_disk fs acg s" "cg_chkmagic acg" "cg_cgx acg = 0" "0 \<le> ino" "ino < fs_ipg fs"
    "T = fs_cstotal fs" "fs' = fs\<lparr>fs_cstotal := T\<lparr>cst_nifree := cst_nifree T - 1\<rparr>\<rparr>"
  shows "\<exists>s'. iput L node ino s = Inr s' \<and> on_disk fs' (mark_inode (nat ino) acg) s' \<and> mk_g s' = (mk_g s)\<lparr>g_sblock := fs'\<rparr>"
proof -
  let ?acg' = "mark_inode (nat ino) acg"
  have h: "mk_fs s = fs" "mk_fscs s = [cg_cs acg]" "g_part_ofs (mk_g s) = 0" "g_nflag (mk_g s)" using assms(2) by (simp_all add: on_disk_def)
  define w1 where "w1 = snd (lu_cgwrite L fs ?acg' (mk_w s))"
  define w2 where "w2 = snd (lu_putinode L fs' ino node w1)"
  define s' where "s' = s\<lparr>mk_g := (mk_g s)\<lparr>g_sblock := fs'\<rparr>, mk_fscs := [cg_cs ?acg'], mk_w := w2\<rparr>"
  have "iput L node ino s = Inr s'"
    using read_cg_ok[OF assms(2), of 31] assms(3) putinode
    by (simp add: iput_def cg_chkmagic_def Let_def write_cg_ok mark_inode_def[symmetric] upd_total0_def set_fs_def h must_ok)
      (simp add: s'_def w2_def w1_def assms(7,8) mark_inode_def)
  moreover have "first_cg fs' w2 = ?acg'"
  proof -
    have "one_group media fs'" using assms(1) by (simp add: assms(8) one_group_total)
    then have "first_cg fs' w2 = first_cg fs' w1" unfolding w2_def using assms(5,6) by (intro first_cg_putinode) (simp_all add: assms(8))
    also have "\<dots> = first_cg fs w1" by (simp add: assms(8) first_cg_total)
    also have "\<dots> = ?acg'" unfolding w1_def by (rule first_cg_written) (simp add: mark_inode_def assms(4))
    finally show ?thesis .
  qed
  then have "on_disk fs' ?acg' s'" by (simp add: on_disk_def s'_def h)
  ultimately show ?thesis by (auto simp: s'_def)
qed

lemma fsinit_ok:
  assumes "one_group media fs" "on_disk fs acg s" "cg_ok fs acg" "cg_chkmagic acg" "cg_cgx acg = 0"
    "free_of (cg_blksfree acg) = {a..<b}" "a < b" "int b \<le> cg_ndblk acg" "UFS_ROOTINO < fs_ipg fs" "fs_iblkno fs \<le> int a"
  shows "\<exists>s'. fsinit L s = Inr s' \<and> on_disk (rooted_fs fs) (rooted_cg fs a acg) s' \<and> mk_g s' = (mk_g s)\<lparr>g_sblock := rooted_fs fs\<rparr>"
proof -
  note d = one_groupD[OF assms(1)]
  have h: "mk_fs s = fs" "g_nflag (mk_g s)" using assms(2) by (simp_all add: on_disk_def)
  have m: "(IFDIR OR 493) AND IFDIR \<noteq> 0" by (simp add: IFDIR_def)
  define buf where "buf = makedir (take 2 root_dir) 0 (overlay 0 (replicate 512 0) (mk_iobuf s))"
  define acg1 where "acg1 = take_first fs (fs_fsize fs) (IFDIR OR 493) a acg"
  define T where "T = fs_cstotal fs"
  define fs1 where "fs1 = fs\<lparr>fs_cstotal := T\<lparr>cst_nbfree := cst_nbfree T - 1, cst_ndir := cst_ndir T + 1\<rparr>\<rparr>"
  have x: "a \<in> free_of (cg_blksfree acg)" using assms(6,7) by simp
  have w: "fs_frag fs = 1" using assms(1) by (simp add: one_group_def)
  have si: "inode_frame acg acg1" unfolding acg1_def by (rule take_first_spec(3)[OF d(1) w d(2) assms(3) x m refl])
  have "on_disk fs acg (s\<lparr>mk_iobuf := buf\<rparr>)" using assms(2) by (simp add: on_disk_def)
  then obtain s1 where s1: "newfs_alloc L (fs_fsize fs) (IFDIR OR 493) (s\<lparr>mk_iobuf := buf\<rparr>) = Inr (int a, s1)" "on_disk fs1 acg1 s1"
      "mk_g s1 = (mk_g (s\<lparr>mk_iobuf := buf\<rparr>))\<lparr>g_sblock := fs1\<rparr>"
    using alloc_ok[OF assms(1) _ assms(3-7) m assms(8) acg1_def T_def fs1_def] by blast
  have h1: "mk_fs s1 = fs1" "g_part_ofs (mk_g s1) = 0" using s1(2) by (simp_all add: on_disk_def)
  have o1: "one_group media fs1" using assms(1) by (simp add: fs1_def one_group_total)
  note d1 = one_groupD[OF o1]
  define s2 where "s2 = s1\<lparr>mk_w := snd (lu_bwrite L (fsbtodb fs1 (int a)) (take (nat (fs_fsize fs)) buf) (mk_w s1))\<rparr>"
  have nn: "0 \<le> fsbtodb fs1 (int a)" by (simp add: fsbtodb_def)
  have "first_cg fs1 (mk_w s2) = first_cg fs1 (mk_w s1)"
    unfolding s2_def by simp (rule first_cg_bwrite[OF o1 nn], use assms(10) fsbtodb_bytes[OF d1(1)] in \<open>auto simp: fs1_def\<close>)
  then have h2: "on_disk fs1 acg1 s2" using s1(2) by (simp add: on_disk_def s2_def)
  define node where "node = \<lparr>dn_mode = IFDIR OR 493, dn_nlink = 2, dn_size = 512, dn_db0 = int a, dn_blocks = fragroundup fs1 512 div 512, dn_time = lu_utime L, dn_gid = 0\<rparr>"
  have i: "cg_chkmagic acg1" "cg_cgx acg1 = 0" using si assms(4,5) by (simp_all add: inode_frame_def cg_chkmagic_def)
  have ipg: "0 \<le> UFS_ROOTINO" "UFS_ROOTINO < fs_ipg fs1" using assms(9) by (simp_all add: fs1_def UFS_ROOTINO_def)
  obtain s3 where s3: "iput L node UFS_ROOTINO s2 = Inr s3"
      "on_disk (fs1\<lparr>fs_cstotal := (fs_cstotal fs1)\<lparr>cst_nifree := cst_nifree (fs_cstotal fs1) - 1\<rparr>\<rparr>) (mark_inode (nat UFS_ROOTINO) acg1) s3"
      "mk_g s3 = (mk_g s2)\<lparr>g_sblock := fs1\<lparr>fs_cstotal := (fs_cstotal fs1)\<lparr>cst_nifree := cst_nifree (fs_cstotal fs1) - 1\<rparr>\<rparr>\<rparr>"
    using iput_ok[OF o1 h2 i ipg refl refl] by blast
  have "fsinit L s = Inr s3"
    using s3(1) h by (simp add: fsinit_def make_directory_def Let_def buf_def[symmetric] s1(1) wtfs_ok h1 nn s2_def[symmetric])
      (simp add: s2_def node_def h1)
  moreover have "fs1\<lparr>fs_cstotal := (fs_cstotal fs1)\<lparr>cst_nifree := cst_nifree (fs_cstotal fs1) - 1\<rparr>\<rparr> = rooted_fs fs"
    by (simp add: fs1_def rooted_fs_def T_def)
  ultimately show ?thesis using s3(2,3) s1(3) by (simp add: rooted_cg_def acg1_def s2_def)
qed

lemma write_groups_ok:
  assumes "one_group media fs" "mk_fs s = fs" "mk_fscs s = [x]" "g_part_ofs (mk_g s) = 0" "g_nflag (mk_g s)" "g_Oflag (mk_g s) = 2"
    "initcg 2 fs 0 = Inr acg" "cg_cgx acg = 0"
  shows "\<exists>s'. write_groups L 0 1 s = Inr s' \<and> on_disk fs acg s' \<and> mk_g s' = mk_g s"
proof -
  note d = one_groupD[OF assms(1)] and e = one_group_bytes[OF assms(1) refl]
  define fs1 where "fs1 = fs\<lparr>fs_sblockactualloc := 512 * fsbtodb fs (cgsblock fs 0)\<rparr>"
  define w1 where "w1 = snd (lu_sbwrite L fs1 [cg_cs acg] (mk_w s))"
  define w2 where "w2 = snd (lu_cgwrite L fs acg w1)"
  define buf where "buf = put_gens (lu_random L 0) (nat (cg_initediblk acg)) (mk_iobuf s)"
  define w3 where "w3 = snd (lu_bwrite L (fsbtodb fs (cgimin fs 0)) buf w2)"
  define s' where "s' = s\<lparr>mk_fscs := [cg_cs acg], mk_iobuf := buf, mk_w := w3\<rparr>"
  have nn: "0 \<le> fsbtodb fs (cgimin fs 0)" using e(2,3,4) by (simp add: fsbtodb_def)
  have g: "(mk_g s)\<lparr>g_sblock := fs\<rparr> = mk_g s" using assms(2) by simp
  have "write_groups L 0 1 s = Inr s'"
    using assms(2-7) nn
    by (simp add: One_nat_def output_group_def write_super_ok write_cg_ok wtfs_ok set_fs_def fs1_def[symmetric] Let_def)
      (simp add: s'_def w3_def w2_def w1_def buf_def fs1_def g)
  moreover have "first_cg fs w3 = acg"
  proof -
    have "first_cg fs w3 = first_cg fs w2" unfolding w3_def
      by (rule first_cg_bwrite[OF assms(1) nn]) (use e(4) fsbtodb_bytes[OF d(1)] in auto)
    then show ?thesis using first_cg_written[OF assms(8)] by (simp add: w2_def)
  qed
  ultimately show ?thesis using assms(2,4,5) by (auto simp: on_disk_def s'_def)
qed

lemma recovery_length: "length (recovery_bytes fs) = 20"
  by (simp add: recovery_bytes_def)

lemma write_recovery_ok:
  assumes "one_group media fs" "mk_fs s = fs" "g_part_ofs (mk_g s) = 0" "20 \<le> g_realsectorsize (mk_g s)" "g_realsectorsize (mk_g s) \<le> 8192"
  shows "\<exists>w. write_recovery L s = Inr (s\<lparr>mk_w := w\<rparr>) \<and> first_cg fs w = first_cg fs (mk_w s)"
proof -
  note d = one_groupD[OF assms(1)] and e = one_group_bytes[OF assms(1) refl]
  define rs where "rs = g_realsectorsize (mk_g s)"
  define at where "at = (65536 - rs) div 512"
  obtain buf where buf: "lu_bread L at rs (mk_w s) = Some buf" "length buf = nat rs" using bread by blast
  define new where "new = overlay (nat rs - 20) (recovery_bytes fs) buf"
  have nn: "0 \<le> at" using assms(5) by (simp add: at_def rs_def pos_imp_zdiv_nonneg_iff)
  have l: "length new = nat rs" using assms(4) buf(2) by (simp add: new_def length_overlay recovery_length rs_def)
  have m: "fs_magic fs = FS_DDFS_MAGIC" using assms(1) by (simp add: one_group_def)
  have "write_recovery L s = Inr (s\<lparr>mk_w := snd (lu_bwrite L at new (mk_w s))\<rparr>)"
    using buf(1) nn assms(2,3) by (simp add: write_recovery_def Let_def rs_def[symmetric] SBLOCK_UFS2_def at_def[symmetric] m wtfs_ok new_def)
  moreover have "first_cg fs (snd (lu_bwrite L at new (mk_w s))) = first_cg fs (mk_w s)"
  proof (rule first_cg_bwrite[OF assms(1) nn], rule disjI1)
    have "512 * at \<le> 65536 - rs" by (simp add: at_def minus_mod_eq_mult_div[symmetric])
    then show "512 * at + int (length new) \<le> fs_fsize fs * fs_cblkno fs" using e(7) l assms(4) by (simp add: rs_def)
  qed
  ultimately show ?thesis by blast
qed

end

section \<open>The table\<close>

lemma fill_entries:
  assumes "length buf = 32 * q" "k \<le> q"
  shows "length (fill_entries (32 * q) (32 * k) buf) = 32 * q \<and>
    (\<forall>j < q. slice (32 * j) 32 (fill_entries (32 * q) (32 * k) buf) = (if k \<le> j then encode_dedup free_entry else slice (32 * j) 32 buf))"
  using assms
proof (induction "q - k" arbitrary: k buf)
  case 0
  then show ?case by (simp add: fill_entries.simps)
next
  case (Suc n)
  let ?e = "encode_dedup free_entry"
  define buf1 where "buf1 = overlay (32 * k) ?e buf"
  have k: "n = q - Suc k" "Suc k \<le> q" using Suc.hyps(2) by simp_all
  have le: "length ?e = 32" by (simp add: encode_dedup_32)
  have l: "length buf1 = 32 * q" using Suc.prems(1) k(2) by (simp add: buf1_def le)
  have sl: "slice (32 * j) 32 buf1 = (if j = k then ?e else slice (32 * j) 32 buf)" if "j < q" for j
  proof (cases "j = k")
    case True
    then show ?thesis using Suc.prems(1) k(2) by (simp add: buf1_def le)
  next
    case False
    then have "32 * j + 32 \<le> 32 * k \<or> 32 * k + length ?e \<le> 32 * j" by (simp add: le) linarith
    then show ?thesis using False Suc.prems(1) k(2) that by (simp add: buf1_def slice_overlay_disjoint le)
  qed
  have "32 * k < 32 * q" using k(2) by simp
  then have "fill_entries (32 * q) (32 * k) buf = fill_entries (32 * q) (32 * Suc k) buf1"
    by (subst fill_entries.simps) (simp add: sizeof_dedup_def buf1_def add.commute)
  then show ?case using Suc.hyps(1)[OF k(1) l k(2)] sl by (auto simp: Suc_le_eq)
qed

context newfs_device
begin

lemma write_table_ok:
  assumes "one_group media fs" "mk_fs s = fs" "fs_fsize fs = int (32 * q)" "length buf = 32 * q"
    "\<And>j. j < q \<Longrightarrow> slice (32 * j) 32 buf = encode_dedup free_entry" "int (i + n) \<le> fs_dedupfrags fs" "B = nat (fs_fsize fs * fs_ddblkno fs)"
  shows "\<exists>w. write_table L buf i n s = Inr (s\<lparr>mk_w := w\<rparr>) \<and> first_cg fs w = first_cg fs (mk_w s) \<and>
    (\<forall>j. i * q \<le> j \<and> j < (i + n) * q \<longrightarrow> peek (img w) (B + 32 * j) 32 = encode_dedup free_entry) \<and>
    (\<forall>j. j < i * q \<longrightarrow> peek (img w) (B + 32 * j) 32 = peek (img (mk_w s)) (B + 32 * j) 32)"
  using assms(2,6)
proof (induction n arbitrary: i s)
  case 0
  show ?case by (rule exI[of _ "mk_w s"]) (auto simp: not_less[symmetric])
next
  case (Suc n)
  note d = one_groupD[OF assms(1)] and e = one_group_bytes[OF assms(1) refl]
  define at where "at = fs_fsize fs div 512 * (fs_ddblkno fs + int i)"
  have F: "fs_fsize fs = 512 * (fs_fsize fs div 512)" "0 \<le> fs_fsize fs div 512" using geometryD(10)[OF d(1)] by simp_all
  have nn: "0 \<le> at" using F(2) e(10) by (simp add: at_def)
  have at: "512 * at = fs_fsize fs * (fs_ddblkno fs + int i)" unfolding at_def by (subst (2) F(1)) (simp add: mult.assoc)
  then have na: "nat (512 * at) = B + 32 * (i * q)"
    using e(10) by (simp add: assms(7,3) nat_add_distrib nat_mult_distrib distrib_left)
  define w1 where "w1 = snd (lu_bwrite L at buf (mk_w s))"
  have im: "img w1 = poke (img (mk_w s)) (B + 32 * (i * q)) buf" unfolding w1_def na[symmetric] by (rule bwrite_img[OF nn])
  have cg: "first_cg fs w1 = first_cg fs (mk_w s)" unfolding w1_def
  proof (rule first_cg_bwrite[OF assms(1) nn], rule disjI1)
    have "fs_fsize fs * (fs_ddblkno fs + int i + 1) \<le> fs_fsize fs * cgsblock fs 0"
      using Suc.prems(2) d(3) by (intro mult_left_mono) (simp_all add: e(5))
    then show "512 * at + int (length buf) \<le> fs_fsize fs * fs_cblkno fs"
      using e(9) unfolding at assms(4) by (simp add: assms(3) distrib_left)
  qed
  obtain w where w: "write_table L buf (Suc i) n (s\<lparr>mk_w := w1\<rparr>) = Inr (s\<lparr>mk_w := w\<rparr>)" "first_cg fs w = first_cg fs w1"
    "\<And>j. Suc i * q \<le> j \<Longrightarrow> j < (Suc i + n) * q \<Longrightarrow> peek (img w) (B + 32 * j) 32 = encode_dedup free_entry"
    "\<And>j. j < Suc i * q \<Longrightarrow> peek (img w) (B + 32 * j) 32 = peek (img w1) (B + 32 * j) 32"
    using Suc.IH[of "s\<lparr>mk_w := w1\<rparr>" "Suc i"] Suc.prems by auto
  have "write_table L buf i (Suc n) s = Inr (s\<lparr>mk_w := w\<rparr>)"
    using w(1) bwrite[OF nn] by (simp add: Suc.prems(1) at_def[symmetric] must_ok w1_def)
  moreover have "peek (img w) (B + 32 * j) 32 = encode_dedup free_entry" if j: "i * q \<le> j" "j < (i + Suc n) * q" for j
  proof (cases "j < Suc i * q")
    case True
    define r where "r = j - i * q"
    have r: "j = i * q + r" "r < q" using j(1) True by (simp_all add: r_def)
    have "peek (img w1) (B + 32 * j) 32 = slice (32 * r) 32 buf"
    proof -
      have "slice (32 * r) 32 (peek (img w1) (B + 32 * (i * q)) (32 * q)) = peek (img w1) (B + 32 * (i * q) + 32 * r) 32"
        by (rule slice_peek) (use r(2) in simp)
      moreover have "peek (img w1) (B + 32 * (i * q)) (32 * q) = buf" unfolding im by (rule peek_poke_same) (simp add: assms(4))
      ultimately show ?thesis by (simp add: r(1) algebra_simps)
    qed
    then show ?thesis using w(4)[OF True] assms(5)[OF r(2)] by simp
  next
    case False
    then show ?thesis using w(3)[of j] j(2) by simp
  qed
  moreover have "peek (img w) (B + 32 * j) 32 = peek (img (mk_w s)) (B + 32 * j) 32" if "j < i * q" for j
  proof -
    have "j < Suc i * q" using that by simp
    then have "peek (img w) (B + 32 * j) 32 = peek (img w1) (B + 32 * j) 32" by (rule w(4))
    also have "\<dots> = peek (img (mk_w s)) (B + 32 * j) 32" unfolding im by (rule peek_poke_disjoint) (use that in simp)
    finally show ?thesis .
  qed
  ultimately show ?case using w(2) cg by auto
qed

end

end
