(* ===== verification/Newfs_Format.thy ===== *)
theory Newfs_Format
  imports Newfs_Device Ddfs_Read
begin

text \<open>
  What \<open>mkfs\<close> leaves on the device: a file system of one group in the state the allocator and the table need, with
  every entry of the table free; first the state alone, then the whole run.
\<close>

section \<open>The state\<close>

text \<open>What \<open>ffs_sbget\<close> adds to a superblock it has read, and the state after a mount.\<close>

definition summary_info :: "ddfs_fs \<Rightarrow> csum list \<Rightarrow> fs_summary_info" where
  "summary_info fs csp = \<lparr>si_contigdirs = replicate (nat (fs_ncg fs)) 0, si_csp = csp,
     si_maxcluster = (if 0 < fs_contigsumsize fs then replicate (nat (fs_ncg fs)) (fs_contigsumsize fs) else []), si_active = None\<rparr>"

definition mounted :: "ddfs_fs \<Rightarrow> csum list \<Rightarrow> cg list \<Rightarrow> alloc_st" where
  "mounted fs csp cgs = \<lparr>a_fs = fs\<lparr>fs_si := Some (summary_info fs csp)\<rparr>, a_cgs = cgs, a_iblks = []\<rparr>"

lemma mounted_sel:
  "a_fs (mounted fs csp cgs) = fs\<lparr>fs_si := Some (summary_info fs csp)\<rparr>" "a_cgs (mounted fs csp cgs) = cgs"
  by (simp_all add: mounted_def)

lemma free_set_one:
  assumes "free_of (cg_blksfree acg) = {a..<b}"
  shows "free_set (mounted fs csp [acg]) = int ` {a..<b}"
  using assms by (auto simp: free_set_def mounted_sel cgbase_def)

lemma free_inodes_one: "free_inodes (mounted fs csp [acg]) = int ` clear_below (cg_inosused acg) (nat (fs_ipg fs))"
  unfolding free_inodes_def mounted_sel by (auto simp: clear_below_def)

lemma rooted_sel:
  "fs_cstotal (rooted_fs fs) = (fs_cstotal fs)\<lparr>cst_nbfree := cst_nbfree (fs_cstotal fs) - 1, cst_ndir := cst_ndir (fs_cstotal fs) + 1,
     cst_nifree := cst_nifree (fs_cstotal fs) - 1\<rparr>"
  "cg_ok (rooted_fs fs) = cg_ok fs" "inodes_ok (rooted_fs fs) = inodes_ok fs" "fs_ok (rooted_fs fs) = fs_ok fs"
  "geometry_ok (rooted_fs fs) = geometry_ok fs" "one_group media (rooted_fs fs) = one_group media fs" "rooted_fs fs = fs\<lparr>fs_cstotal := fs_cstotal (rooted_fs fs)\<rparr>"
  by (simp_all add: rooted_fs_def cg_ok_total one_group_total fs_ok_def geometry_ok_def)

lemma one_group_maps:
  assumes "one_group media fs"
  shows "group_fits fs 0" "new_free fs 0 = {nat (fs_dblkno fs + 1)..<nat (fs_size fs)}" "cg_dmax fs 0 = fs_size fs" "cgbase fs 0 = 0" "0 < fs_dblkno fs"
proof -
  note d = one_groupD[OF assms] and e = one_group_bytes[OF assms refl]
  have o: "fs_frag fs = 1" "fs_dblkno fs + 1 < fs_size fs" using assms by (simp_all add: one_group_def)
  have one: "howmany (fs_cssize fs) (fs_fsize fs) = 1"
    unfolding d(5) howmany_def by (rule int_div_pos_eq[where r = "fs_fsize fs - 1"]) (use d(3) in simp_all)
  show b: "cgbase fs 0 = 0" by (simp add: cgbase_def)
  have u: "cg_dupper fs 0 = fs_dblkno fs + 1" by (simp add: cg_dupper_def b one cgdmin_def cgstart_def)
  show m: "cg_dmax fs 0 = fs_size fs" using d(7) by (simp add: cg_dmax_def b)
  show p: "0 < fs_dblkno fs" using e(2,3,6) by simp
  show "group_fits fs 0" using o p by (simp add: group_fits_def u m b roundup_def)
  show "new_free fs 0 = {nat (fs_dblkno fs + 1)..<nat (fs_size fs)}" by (simp add: new_free_def u m b)
qed


text \<open>The state after the directory has been made.\<close>

lemma rooted_group:
  assumes "one_group media fs" "cg_ok fs acg" "inodes_ok fs acg" "cg_chkmagic acg" "cg_cgx acg = 0" "free_of (cg_blksfree acg) = {a..<b}" "a < b"
    "\<forall>j < nat (fs_ipg fs). isset (cg_inosused acg) j \<longleftrightarrow> j < nat UFS_ROOTINO" "UFS_ROOTINO < fs_ipg fs" "acg' = rooted_cg fs a acg"
  shows "cg_ok fs acg'" "inodes_ok fs acg'" "cg_chkmagic acg'" "cg_cgx acg' = 0" "free_of (cg_blksfree acg') = {Suc a..<b}"
    "clear_below (cg_inosused acg') (nat (fs_ipg fs)) = {3..<nat (fs_ipg fs)}" "cs_nbfree (cg_cs acg') = int (b - a) - 1" "cs_nffree (cg_cs acg') = 0"
    "cs_nifree (cg_cs acg') = fs_ipg fs - 3" "cs_ndir (cg_cs acg') = cs_ndir (cg_cs acg) + 1"
proof -
  note d = one_groupD[OF assms(1)]
  have o: "fs_frag fs = 1" "nat (fs_frag fs) = 1" using assms(1) by (simp_all add: one_group_def)
  define acg1 where "acg1 = take_first fs (fs_fsize fs) (IFDIR OR 493) a acg"
  have m: "(IFDIR OR 493) AND IFDIR \<noteq> 0" by (simp add: IFDIR_def)
  have a: "a \<in> free_of (cg_blksfree acg)" using assms(6,7) by simp
  note t = take_first_spec[OF d(1) o(1) d(2) assms(2) a m acg1_def]
  have co: "counts_ok 1 (cg_blksfree acg) (cg_cs acg) (cg_frsum acg)" using assms(2) by (simp add: cg_ok_def o(2))
  have nff: "cs_nffree (cg_cs acg) = 0" using co by (simp add: counts_ok_def whole_bits)
  have nb: "cs_nbfree (cg_cs acg) = int (b - a)" using free_of_card[OF co] nff assms(6) by simp
  have acg': "acg' = mark_inode 2 acg1" by (simp add: assms(10) rooted_cg_def acg1_def UFS_ROOTINO_def)
  have f: "cg_blksfree acg' = cg_blksfree acg1" "cg_frsum acg' = cg_frsum acg1" "cg_rotor acg' = cg_rotor acg1" "cg_frotor acg' = cg_frotor acg1"
    "cg_ndblk acg' = cg_ndblk acg1" "cg_magic acg' = cg_magic acg1" "cg_cgx acg' = cg_cgx acg1" "cg_inosused acg' = setbit (cg_inosused acg1) 2"
    "cg_irotor acg' = cg_irotor acg1" "cg_niblk acg' = cg_niblk acg1" "cg_initediblk acg' = cg_initediblk acg1"
    "cs_nbfree (cg_cs acg') = cs_nbfree (cg_cs acg1)" "cs_nffree (cg_cs acg') = cs_nffree (cg_cs acg1)" "cs_ndir (cg_cs acg') = cs_ndir (cg_cs acg1)"
    "cs_nifree (cg_cs acg') = cs_nifree (cg_cs acg1) - 1"
    by (simp_all add: acg' mark_inode_def)
  show "cg_ok fs acg'" using t(1) unfolding cg_ok_def counts_ok_def f .
  show "free_of (cg_blksfree acg') = {Suc a..<b}" unfolding f(1) t(2) assms(6) using assms(7) by auto
  show "cs_nbfree (cg_cs acg') = int (b - a) - 1" "cs_nffree (cg_cs acg') = 0" "cs_ndir (cg_cs acg') = cs_ndir (cg_cs acg) + 1"
    unfolding f t(4,5,6) by (simp_all add: nb nff)
  have i: "cg_magic acg1 = cg_magic acg" "cg_cgx acg1 = cg_cgx acg" "cg_irotor acg1 = cg_irotor acg" "cg_niblk acg1 = cg_niblk acg"
    "cg_initediblk acg1 = cg_initediblk acg" "cg_inosused acg1 = cg_inosused acg" "cs_nifree (cg_cs acg1) = cs_nifree (cg_cs acg)"
    using t(3) by (simp_all add: inode_frame_def)
  show "cg_chkmagic acg'" "cg_cgx acg' = 0" using assms(4,5) by (simp_all add: cg_chkmagic_def f i)
  have len: "8 * int (length (cg_inosused acg)) = fs_ipg fs" using assms(3) by (simp add: inodes_ok_def)
  have "clear_below (cg_inosused acg) (nat (fs_ipg fs)) = {2..<nat (fs_ipg fs)}"
    using assms(8) by (auto simp: clear_below_def UFS_ROOTINO_def)
  moreover have "2 div 8 < length (cg_inosused acg)" using len assms(9) by (cases "cg_inosused acg") (auto simp: UFS_ROOTINO_def)
  ultimately have "clear_below (setbit (cg_inosused acg) 2) (nat (fs_ipg fs)) = {2..<nat (fs_ipg fs)} - {2}"
    by (simp only: clear_below_set)
  also have "\<dots> = {3..<nat (fs_ipg fs)}" by auto
  finally show cl: "clear_below (cg_inosused acg') (nat (fs_ipg fs)) = {3..<nat (fs_ipg fs)}" unfolding f(8) i(6) .
  have "cs_nifree (cg_cs acg) = fs_ipg fs - 2"
    using assms(3,9) \<open>clear_below (cg_inosused acg) (nat (fs_ipg fs)) = {2..<nat (fs_ipg fs)}\<close> by (simp add: inodes_ok_def UFS_ROOTINO_def)
  then show nif: "cs_nifree (cg_cs acg') = fs_ipg fs - 3" by (simp add: f i)
  show "inodes_ok fs acg'" unfolding inodes_ok_def cl nif using assms(3,9) by (simp add: inodes_ok_def f i UFS_ROOTINO_def)
qed


lemma one_group_table:
  assumes "one_group media fs" "fs_fsize fs * fs_size fs \<le> media"
  shows "table_ok fs (nat media)" "nat (fs_fsize fs) = 32 * entries_per_block fs" "ddcount fs = nat (fs_dedupfrags fs) * entries_per_block fs"
proof -
  note d = one_groupD[OF assms(1)] and e = one_group_bytes[OF assms(1) refl]
  have o: "fs_frag fs = 1" "fs_dblkno fs < fs_size fs" using assms(1) by (simp_all add: one_group_def)
  show b: "nat (fs_fsize fs) = 32 * entries_per_block fs" using bsize_entries(1)[OF d(1)] d(2) by simp
  show c: "ddcount fs = nat (fs_dedupfrags fs) * entries_per_block fs" by (simp add: ddcount_def num_blocks_def o(1))
  have "int (32 * ddcount fs) = fs_fsize fs * fs_dedupfrags fs"
    using arg_cong[OF b, of int] d(3) e(11) unfolding c by simp
  then have "int (ddbase fs + 32 * ddcount fs) = fs_fsize fs * (fs_ddblkno fs + fs_dedupfrags fs)"
    using d(3) e(10) by (simp add: ddbase_def distrib_left)
  also have "\<dots> \<le> fs_fsize fs * fs_size fs"
  proof (rule mult_left_mono)
    have "fs_fsize fs * (fs_ddblkno fs + fs_dedupfrags fs) \<le> fs_fsize fs * fs_cblkno fs" using e(5,9) by simp
    then have "fs_ddblkno fs + fs_dedupfrags fs \<le> fs_cblkno fs" using d(3) by simp
    then show "fs_ddblkno fs + fs_dedupfrags fs \<le> fs_size fs" using e(3,6) o(2) by simp
  qed (use d(3) in simp)
  finally show "table_ok fs (nat media)" using assms(2) d(1) e(10) by (simp add: table_ok_def)
qed

lemma one_group_inodes:
  assumes "one_group media fs"
  shows "UFS_ROOTINO < fs_ipg fs" "8 dvd fs_ipg fs" "fs_ipg fs < 2 ^ 32" "0 < fs_ipg fs"
proof -
  note d = one_groupD[OF assms]
  have ipg: "INOPB fs dvd fs_ipg fs" "0 < fs_ipg fs" "0 < fs_fpg fs" using d(4) by (simp_all add: ipg_ok_def)
  then show "0 < fs_ipg fs" by simp
  show "8 dvd fs_ipg fs" using ipg(1) d(10) by (rule dvd_trans[rotated])
  then show "UFS_ROOTINO < fs_ipg fs" using ipg(2) zdvd_imp_le[of 8 "fs_ipg fs"] by (simp add: UFS_ROOTINO_def)
  have "CGSIZE fs \<le> 65536" using assms by (simp add: one_group_def sections_ok_def)
  moreover have "howmany (fs_ipg fs) 8 \<le> CGSIZE fs"
    using ipg(2,3) howmany_nonneg[of 8 "fs_fpg fs"] howmany_nonneg[of 8 "fragstoblks fs (fs_fpg fs)"] assms
    by (simp add: CGSIZE_def macros_div[OF d(1)] one_group_def)
  ultimately show "fs_ipg fs < 2 ^ 32" using howmany_bounds(1)[of 8 "fs_ipg fs"] by simp
qed

lemma rooted_state:
  assumes "one_group media fs" "rest_ok fs" "initcg 2 fs 0 = Inr acg" "acg' = rooted_cg fs (nat (fs_dblkno fs + 1)) acg"
    "st = mounted (rooted_fs fs) [cg_cs acg'] [acg']"
  shows "node_inv st" "nodes_ok (a_fs st)" "free_set st = {fs_dblkno fs + 2..<fs_size fs}" "free_inodes st = {3..<fs_ipg fs}"
    "cst_ndir (fs_cstotal (a_fs st)) = 1"
proof -
  note d = one_groupD[OF assms(1)] and m = one_group_maps[OF assms(1)] and n = one_group_inodes[OF assms(1)]
  have o: "fs_frag fs = 1" "fs_dblkno fs + 1 < fs_size fs" "fs_ncg fs = 1" "fs_magic fs = FS_DDFS_MAGIC"
      "fs_cgsize fs = roundup (CGSIZE fs) (fs_fsize fs)"
    using assms(1) by (simp_all add: one_group_def)
  have ipg: "0 < fs_fpg fs" using d(4) by (simp add: ipg_ok_def)
  define a where "a = nat (fs_dblkno fs + 1)"
  define b where "b = nat (fs_size fs)"
  have ab: "a < b" "int a = fs_dblkno fs + 1" "int b = fs_size fs" using m(5) o(2) by (simp_all add: a_def b_def)
  obtain x where x: "initcg 2 fs 0 = Inr x \<and> cg_ok fs x \<and> inodes_ok fs x \<and> cg_chkmagic x \<and> cg_cgx x = int 0 \<and>
      cg_ndblk x = cg_dmax fs 0 - cgbase fs (int 0) \<and> cs_ndir (cg_cs x) = 0 \<and> cs_nifree (cg_cs x) = fs_ipg fs - (if (0 :: nat) = 0 then UFS_ROOTINO else 0) \<and>
      free_of (cg_blksfree x) = new_free fs 0 \<and> (\<forall>j < nat (fs_ipg fs). isset (cg_inosused x) j \<longleftrightarrow> (0 :: nat) = 0 \<and> j < nat UFS_ROOTINO)"
    using initcg_spec[OF d(1) ipg o(5) m(1) n(4,2) d(9)] by (rule exE)
  then have "x = acg" using assms(3) by simp
  note x = x[unfolded this m(2)]
  have acg: "cg_ok fs acg" "inodes_ok fs acg" "cg_chkmagic acg" "cg_cgx acg = 0" "cs_ndir (cg_cs acg) = 0" "free_of (cg_blksfree acg) = {a..<b}"
    "\<forall>j < nat (fs_ipg fs). isset (cg_inosused acg) j \<longleftrightarrow> j < nat UFS_ROOTINO"
    using x unfolding a_def b_def by simp_all
  note r = rooted_group[OF assms(1) acg(1-4,6) ab(1) acg(7) n(1) assms(4)[folded a_def]]
  have rest: "0 \<le> fs_metaspace fs" "cst_nbfree (fs_cstotal fs) = (fs_size fs - fs_sblkno fs - fs_ncg fs * (fs_dblkno fs - fs_sblkno fs)) div fs_frag fs -
      howmany (howmany (fs_cssize fs) (fs_fsize fs)) (fs_frag fs)"
    "cst_nffree (fs_cstotal fs) = fs_size fs mod fs_frag fs + (if 0 < howmany (fs_cssize fs) (fs_fsize fs) mod fs_frag fs
      then fs_frag fs - howmany (fs_cssize fs) (fs_fsize fs) mod fs_frag fs else 0)"
    "cst_nifree (fs_cstotal fs) = fs_ncg fs * fs_ipg fs - UFS_ROOTINO" "cst_ndir (fs_cstotal fs) = 0"
    using assms(2) unfolding rest_ok_def Let_def by blast+
  have one: "howmany (fs_cssize fs) (fs_fsize fs) = 1"
    unfolding d(5) howmany_def by (rule int_div_pos_eq[where r = "fs_fsize fs - 1"]) (use d(3) in simp_all)
  have c: "cst_nbfree (fs_cstotal fs) = int (b - a)" "cst_nffree (fs_cstotal fs) = 0" "cst_nifree (fs_cstotal fs) = fs_ipg fs - 2" "cst_ndir (fs_cstotal fs) = 0"
    unfolding rest(2-5) one o(1,3) using ab by (simp_all add: howmany_def UFS_ROOTINO_def)
  have ok: "fs_ok (rooted_fs fs)" unfolding rooted_sel(4) unfolding fs_ok_def using d(1) ipg o(1,4) rest(1) m(5) by simp
  show fr: "free_set st = {fs_dblkno fs + 2..<fs_size fs}"
    unfolding assms(5) unfolding free_set_one[OF r(5)] using ab by (auto simp: image_int_atLeastLessThan)
  have ip: "fs_ipg (rooted_fs fs) = fs_ipg fs" "fs_ncg (rooted_fs fs) = fs_ncg fs" "INOPB (rooted_fs fs) = INOPB fs"
    by (simp_all add: rooted_fs_def INOPB_def)
  show fi: "free_inodes st = {3..<fs_ipg fs}"
    unfolding assms(5) unfolding free_inodes_one ip r(6) using n(4) by (auto simp: image_int_atLeastLessThan)
  show "nodes_ok (a_fs st)" using n(3,4) o(3) by (simp add: nodes_ok_def assms(5) mounted_sel ip)
  show "cst_ndir (fs_cstotal (a_fs st)) = 1" by (simp add: assms(5) mounted_sel rooted_sel(1) c)
  have si: "cg_ok (a_fs st) = cg_ok fs" "inodes_ok (a_fs st) = inodes_ok fs" "fs_ok (a_fs st) = fs_ok (rooted_fs fs)" "INOPB (a_fs st) = INOPB fs"
      "fs_ncg (a_fs st) = 1" "fs_cstotal (a_fs st) = fs_cstotal (rooted_fs fs)" "a_cgs st = [acg']" "fs_si (a_fs st) = Some (summary_info (rooted_fs fs) [cg_cs acg'])"
    by (simp_all add: assms(5) mounted_sel rooted_fs_def cg_ok_def inodes_ok_def fs_ok_def geometry_ok_def INOPB_def o(3) fun_eq_iff)
  have "alloc_inv st"
    using ok r(1,3,4,7,8) fr m(5) c ab
    by (simp add: alloc_inv_def si group_ok_def rooted_sel(1)) (simp add: summary_info_def)
  then show "node_inv st" using r(2,9) fi d(9) by (simp add: node_inv_def si rooted_sel(1) c)
qed

section \<open>The whole run\<close>

text \<open>The options of a run on a whole device, with the second format, and a layout of one group of undivided blocks.\<close>

definition newfs_ready :: "newfs \<Rightarrow> bool" where
  "newfs_ready g \<longleftrightarrow> options_ok g \<and> g_Oflag g = 2 \<and> g_part_ofs g = 0 \<and> g_nflag g \<and>
     20 \<le> g_realsectorsize g \<and> g_realsectorsize g \<le> 8192 \<and> g_realsectorsize g div 512 \<le> g_fssize g"

definition single_group :: "ddfs_fs \<Rightarrow> bool" where
  "single_group fs \<longleftrightarrow> fs_bsize fs = 4096 \<and> fs_frag fs = 1 \<and> fs_ncg fs = 1 \<and> CGSIZE fs \<le> fs_bsize fs \<and> fs_dblkno fs + 1 < fs_size fs"

lemma magic_sel:
  "sections_ok media (fs\<lparr>fs_magic := m\<rparr>) = sections_ok media fs" "groups_ok (fs\<lparr>fs_magic := m\<rparr>) = groups_ok fs"
  "rest_ok (fs\<lparr>fs_magic := m\<rparr>) = rest_ok fs" "CGSIZE (fs\<lparr>fs_magic := m\<rparr>) = CGSIZE fs" "inode_end (fs\<lparr>fs_magic := m\<rparr>) = inode_end fs"
  by (simp_all add: sections_ok_def groups_ok_def rest_ok_def CGSIZE_def inode_end_def geometry_ok_def ipg_ok_def INOPB_def INOPF_def
      fragstoblks_def Let_def)

lemma layout_one_group:
  assumes "mkfs_layout g = Inr g1" "newfs_ready g" "single_group (g_sblock g1)" "fs = (g_sblock g1)\<lparr>fs_magic := FS_DDFS_MAGIC\<rparr>"
  shows "one_group (g_mediasize g) fs" "rest_ok fs" "same_device g g1" "fs_fsize fs * fs_size fs \<le> g_mediasize g"
proof -
  have r: "options_ok g" "g_Oflag g = 2" "g_realsectorsize g \<le> 8192" using assms(2) by (simp_all add: newfs_ready_def)
  note l = layout[OF assms(1) r(1)]
  have lo: "sections_ok (g_mediasize g) (g_sblock g1)" "groups_ok (g_sblock g1)" "rest_ok (g_sblock g1)"
      "fs_fsize (g_sblock g1) * fs_size (g_sblock g1) \<le> g_mediasize g"
    using l(1) unfolding newfs_layout_ok_def by blast+
  show "same_device g g1" by (rule l(2))
  show "rest_ok fs" unfolding assms(4) magic_sel by (rule lo(3))
  show "fs_fsize fs * fs_size fs \<le> g_mediasize g" using lo(4) by (simp add: assms(4))
  have m: "0 \<le> g_mediasize g" using r(1) by (simp add: options_ok_def device_ok_def)
  have e: "fs_dblkno (g_sblock g1) = inode_end (g_sblock g1)" "fs_csaddr (g_sblock g1) = fs_dblkno (g_sblock g1)"
      "fs_cgsize (g_sblock g1) = roundup (CGSIZE (g_sblock g1)) (fs_fsize (g_sblock g1))"
      "fs_cssize (g_sblock g1) = roundup (fs_ncg (g_sblock g1) * sizeof_csum) (fs_fsize (g_sblock g1))"
    using lo(3) unfolding rest_ok_def by blast+
  have "fs_sbsize (g_sblock g1) \<le> SBLOCKSIZE" using l(5) r(3) by (simp add: SBLOCKSIZE_def)
  then show "one_group (g_mediasize g) fs"
    using assms(3) l(6) m unfolding one_group_def assms(4) magic_sel single_group_def
    by (simp only: magic_sel lo(1,2) simp_thms ddfs_fs.simps e(2-4)) (simp add: r(2) e(1) e(2)[unfolded e(1)] e(3,4))
qed

text \<open>A file system of one group with blocks of 4096 bytes is a volume that can be written with deduplication: the blocks that are
  free lie behind the table.\<close>

lemma rooted_volume:
  assumes "one_group media fs" "rest_ok fs" "fs_bsize fs = 4096" "fs_fsize fs * fs_size fs \<le> media" "media < 2 ^ 42"
    "initcg 2 fs 0 = Inr acg" "acg' = rooted_cg fs (nat (fs_dblkno fs + 1)) acg" "st = mounted (rooted_fs fs) [cg_cs acg'] [acg']"
  shows "volume_ok (nat media) st" "\<forall>b \<in> free_set st. outside_table (a_fs st) b" "ddcount (a_fs st) = ddcount fs" "ddbase (a_fs st) = ddbase fs"
    "ddtab (a_fs st) = ddtab fs" "media div 8 \<le> 32 * int (ddcount fs)"
proof -
  note d = one_groupD[OF assms(1)] and n = one_group_inodes[OF assms(1)] and e = one_group_bytes[OF assms(1) refl] and t = one_group_table[OF assms(1,4)]
  note r = rooted_state[OF assms(1,2,6,7,8)]
  have o: "fs_frag fs = 1" "fs_ncg fs = 1" using assms(1) by (simp_all add: one_group_def)
  have f: "fs_bsize (a_fs st) = 4096" "fs_frag (a_fs st) = 1" "fs_ncg (a_fs st) = 1" "fs_ipg (a_fs st) = fs_ipg fs" "fs_fpg (a_fs st) = fs_fpg fs"
      "fs_size (a_fs st) = fs_size fs" "table_ok (a_fs st) = table_ok fs"
    by (simp_all add: assms(3,8) mounted_sel rooted_fs_def o table_ok_def geometry_ok_def ddbase_def ddcount_def num_blocks_def entries_per_block_def fun_eq_iff)
  show c: "ddcount (a_fs st) = ddcount fs" "ddbase (a_fs st) = ddbase fs"
    by (simp_all add: assms(8) mounted_sel rooted_fs_def ddbase_def ddcount_def num_blocks_def entries_per_block_def)
  then show "ddtab (a_fs st) = ddtab fs" by (simp add: ddtab_def fun_eq_iff)
  have sz: "fs_size fs < 2 ^ 63" using assms(3,4,5) d(2) by simp
  have inv: "alloc_inv st" using r(1) by (simp add: node_inv_def)
  have m: "fs_size fs \<le> fs_fpg fs" by (rule d(7))
  have lt: "\<forall>b \<in> free_set st. b < fs_size fs" unfolding r(3) by simp
  show "volume_ok (nat media) st" unfolding volume_ok_def f using inv t(1) n(4) m sz lt by simp
  have tab: "int (ddbase fs + 32 * ddcount fs) = 4096 * (fs_ddblkno fs + fs_dedupfrags fs)"
  proof -
    have "int (32 * ddcount fs) = fs_fsize fs * fs_dedupfrags fs" using arg_cong[OF t(2), of int] d(3) e(11) unfolding t(3) by simp
    then show ?thesis using d(2) assms(3) e(10) by (simp add: ddbase_def)
  qed
  have "fs_fsize fs * (fs_ddblkno fs + fs_dedupfrags fs) \<le> fs_fsize fs * fs_cblkno fs" using e(5,9) by simp
  then have behind: "fs_ddblkno fs + fs_dedupfrags fs < fs_dblkno fs" using d(3) e(3,6) by simp
  have "outside_table (a_fs st) b" if "fs_dblkno fs \<le> b" for b
  proof -
    have "int (ddbase fs + 32 * ddcount fs) \<le> int (4096 * nat b)" using tab behind that e(10,11) by simp
    then show ?thesis using behind that e(10,11) unfolding outside_table_def c by linarith
  qed
  then show "\<forall>b \<in> free_set st. outside_table (a_fs st) b" unfolding r(3) by simp
  have "media div 8 \<le> fs_fsize fs * fs_dedupfrags fs" using assms(1) by (simp add: one_group_def sections_ok_def DEDUP_FRAC_def)
  also have "\<dots> = int (32 * ddcount fs)" using arg_cong[OF t(2), of int] d(3) e(11) unfolding t(3) by simp
  finally show "media div 8 \<le> 32 * int (ddcount fs)" by simp
qed

context newfs_device
begin

lemma wipe_old_ok:
  assumes "g_part_ofs (mk_g s) = 0"
  shows "\<exists>w. wipe_old L s = Inr (s\<lparr>mk_w := w\<rparr>)"
proof -
  have c: "\<exists>w. wipe_copies L old c n s = s\<lparr>mk_w := w\<rparr>" for old c n s
  proof (induction n arbitrary: c s)
    case 0
    show ?case by (rule exI[of _ "mk_w s"]) simp
  next
    case (Suc n)
    show ?case
    proof (cases "g_fssize (mk_g s) < fsbtodb old (cgsblock old (int c))")
      case True
      then show ?thesis by (intro exI[of _ "mk_w s"]) (simp add: Let_def)
    next
      case False
      show ?thesis
        using Suc.IH[of "Suc c" "s\<lparr>mk_w := snd (lu_bwrite L (g_part_ofs (mk_g s) + fsbtodb old (cgsblock old (int c)))
            (lu_memory L old (nat SBLOCKSIZE)) (mk_w s))\<rparr>"] False
        by (auto simp: Let_def)
    qed
  qed
  obtain old where old: "lu_bread_fs L (SBLOCK_UFS1 div 512) (mk_w s) = Some old" using bread_fs by blast
  show ?thesis
  proof (cases "SBLOCK_UFS1 < g_realsectorsize (mk_g s) \<or> fs_magic old \<noteq> FS_UFS1_MAGIC")
    case True
    then show ?thesis using old by (intro exI[of _ "mk_w s"]) (auto simp: wipe_old_def assms Let_def)
  next
    case False
    obtain w where "wipe_copies L (old\<lparr>fs_magic := 0\<rparr>) 0 (nat (fs_ncg old))
        (s\<lparr>mk_w := snd (lu_bwrite L (SBLOCK_UFS1 div 512) (lu_memory L (old\<lparr>fs_magic := 0\<rparr>) (nat SBLOCKSIZE)) (mk_w s))\<rparr>) = s\<lparr>mk_w := w\<rparr>"
      using c[of "old\<lparr>fs_magic := 0\<rparr>" 0 "nat (fs_ncg old)"
        "s\<lparr>mk_w := snd (lu_bwrite L (SBLOCK_UFS1 div 512) (lu_memory L (old\<lparr>fs_magic := 0\<rparr>) (nat SBLOCKSIZE)) (mk_w s))\<rparr>"] by auto
    then show ?thesis using False old by (intro exI[of _ w]) (simp add: wipe_old_def assms Let_def)
  qed
qed

lemma table_written:
  assumes "one_group media fs" "\<And>j. j < ddcount fs \<Longrightarrow> peek d (ddbase fs + 32 * j) 32 = encode_dedup free_entry"
  shows "ddtab fs d = replicate (ddcount fs) free_entry"
  unfolding ddtab_def
  by (rule nth_equalityI) (simp_all add: records_def assms(2) decode_encode_dedup wf_free_entry)

lemma mkfs_ok:
  assumes "mkfs_layout g = Inr g1" "newfs_ready g" "single_group (g_sblock g1)"
  shows "\<exists>s fs. mkfs L g w = Inr s \<and> mk_fs s = rooted_fs fs \<and> fs = (g_sblock g1)\<lparr>fs_magic := FS_DDFS_MAGIC\<rparr> \<and>
    mk_fscs s = [cg_cs (first_cg fs (mk_w s))] \<and>
    (\<exists>acg. initcg 2 fs 0 = Inr acg \<and> first_cg fs (mk_w s) = rooted_cg fs (nat (fs_dblkno fs + 1)) acg) \<and>
    ddtab fs (img (mk_w s)) = replicate (ddcount fs) free_entry"
proof -
  define fs where "fs = (g_sblock g1)\<lparr>fs_magic := FS_DDFS_MAGIC\<rparr>"
  note lo = layout_one_group[OF assms fs_def]
  note d = one_groupD[OF lo(1)] and m = one_group_maps[OF lo(1)] and n = one_group_inodes[OF lo(1)] and e = one_group_bytes[OF lo(1) refl]
    and t = one_group_table[OF lo(1,4)]
  have r: "g_Oflag g = 2" "g_part_ofs g = 0" "g_nflag g" "20 \<le> g_realsectorsize g" "g_realsectorsize g \<le> 8192"
      "g_realsectorsize g div 512 \<le> g_fssize g"
    using assms(2) by (simp_all add: newfs_ready_def)
  then have r1: "g_Oflag g1 = 2" "g_part_ofs g1 = 0" "g_nflag g1" "20 \<le> g_realsectorsize g1" "g_realsectorsize g1 \<le> 8192"
    using lo(3) by (simp_all add: same_device_def)
  have o: "fs_ncg (g_sblock g1) = 1" "fs_cgsize fs = roundup (CGSIZE fs) (fs_fsize fs)"
    using assms(3) lo(1) by (simp_all add: single_group_def one_group_def)
  have pos: "\<not> g_fssize g \<le> 0" using assms(1) by (auto simp: mkfs_layout_def)
  define zero where "zero = \<lparr>cs_ndir = 0, cs_nbfree = 0, cs_nifree = 0, cs_nffree = 0\<rparr>"
  define w0 where "w0 = snd (lu_bwrite L (g_fssize g - g_realsectorsize g div 512) (lu_memory L (g_sblock g) (nat (g_realsectorsize g))) w)"
  define s0 where "s0 = \<lparr>mk_g = g1, mk_fscs = [zero], mk_iobuf = replicate (nat (2 * fs_bsize (g_sblock g1))) 0, mk_w = w0\<rparr>"
  obtain w1 where w1: "wipe_old L s0 = Inr (s0\<lparr>mk_w := w1\<rparr>)" using wipe_old_ok[of s0] r1(2) by (auto simp: s0_def)
  define s2 where "s2 = s0\<lparr>mk_w := snd (lu_sbwrite L (g_sblock g1) [zero] w1)\<rparr>"
  have s2: "write_super L (s0\<lparr>mk_w := w1\<rparr>) = Inr s2" by (simp add: write_super_ok s2_def s0_def)
  define s2' where "s2' = set_fs ((mk_fs s2)\<lparr>fs_magic := FS_DDFS_MAGIC\<rparr>) s2"
  have f2: "mk_fs s2' = fs" "mk_fscs s2' = [zero]" "mk_g s2' = g1\<lparr>g_sblock := fs\<rparr>" by (simp_all add: s2'_def s2_def s0_def set_fs_def fs_def)
  have ipg: "0 < fs_fpg fs" using d(4) by (simp add: ipg_ok_def)
  obtain acg where x: "initcg 2 fs 0 = Inr acg \<and> cg_ok fs acg \<and> inodes_ok fs acg \<and> cg_chkmagic acg \<and> cg_cgx acg = int 0 \<and>
      cg_ndblk acg = cg_dmax fs 0 - cgbase fs (int 0) \<and> cs_ndir (cg_cs acg) = 0 \<and> cs_nifree (cg_cs acg) = fs_ipg fs - (if (0 :: nat) = 0 then UFS_ROOTINO else 0) \<and>
      free_of (cg_blksfree acg) = new_free fs 0 \<and> (\<forall>j < nat (fs_ipg fs). isset (cg_inosused acg) j \<longleftrightarrow> (0 :: nat) = 0 \<and> j < nat UFS_ROOTINO)"
    using initcg_spec[OF d(1) ipg o(2) m(1) n(4,2) d(9)] by (rule exE)
  define a where "a = nat (fs_dblkno fs + 1)"
  define b where "b = nat (fs_size fs)"
  have ab: "a < b" "int b \<le> cg_ndblk acg" "fs_iblkno fs \<le> int a"
    using m(3-5) e(6) x lo(1) by (simp_all add: a_def b_def one_group_def)
  have acg: "cg_ok fs acg" "cg_chkmagic acg" "cg_cgx acg = 0" "free_of (cg_blksfree acg) = {a..<b}" "initcg 2 fs 0 = Inr acg"
    using x unfolding m(2) a_def b_def by simp_all
  obtain s3 where s3: "write_groups L 0 1 s2' = Inr s3" "on_disk fs acg s3" "mk_g s3 = mk_g s2'"
    using write_groups_ok[OF lo(1) f2(1,2) _ _ _ acg(5,3)] r1(1-3) f2(3) by auto
  obtain s4 where s4: "fsinit L s3 = Inr s4" "on_disk (rooted_fs fs) (rooted_cg fs a acg) s4" "mk_g s4 = (mk_g s3)\<lparr>g_sblock := rooted_fs fs\<rparr>"
    using fsinit_ok[OF lo(1) s3(2) acg(1-4) ab(1,2) n(1) ab(3)] by blast
  have o4: "one_group (g_mediasize g) (rooted_fs fs)" using lo(1) by (simp add: rooted_sel(6))
  have f4: "mk_fs s4 = rooted_fs fs" "mk_fscs s4 = [cg_cs (rooted_cg fs a acg)]" "first_cg (rooted_fs fs) (mk_w s4) = rooted_cg fs a acg"
    using s4(2) by (simp_all add: on_disk_def)
  have g4: "g_part_ofs (mk_g s4) = 0" "20 \<le> g_realsectorsize (mk_g s4)" "g_realsectorsize (mk_g s4) \<le> 8192"
    using r1 by (simp_all add: s4(3) s3(3) f2(3))
  define s5 where "s5 = s4\<lparr>mk_w := snd (lu_sbwrite L (rooted_fs fs) [cg_cs (rooted_cg fs a acg)] (mk_w s4))\<rparr>"
  have s5: "write_super L s4 = Inr s5" "first_cg (rooted_fs fs) (mk_w s5) = rooted_cg fs a acg" "mk_fs s5 = rooted_fs fs"
    using first_cg_super[OF o4] f4 by (simp_all add: write_super_ok s5_def)
  have g5: "g_part_ofs (mk_g s5) = 0" "20 \<le> g_realsectorsize (mk_g s5)" "g_realsectorsize (mk_g s5) \<le> 8192" using g4 by (simp_all add: s5_def)
  obtain w6 where w6: "write_recovery L s5 = Inr (s5\<lparr>mk_w := w6\<rparr>)" "first_cg (rooted_fs fs) w6 = rooted_cg fs a acg"
    using write_recovery_ok[OF o4 s5(3) g5] s5(2) by auto
  define q where "q = entries_per_block fs"
  define buf where "buf = fill_entries (nat (fs_fsize fs)) 0 (replicate (nat (fs_fsize fs)) 0)"
  have F: "nat (fs_fsize fs) = 32 * q" "fs_fsize fs = int (32 * q)" using t(2) d(3) by (simp_all add: q_def)
  have buf: "length buf = 32 * q" "\<And>j. j < q \<Longrightarrow> slice (32 * j) 32 buf = encode_dedup free_entry"
    using fill_entries[of "replicate (32 * q) 0" q 0] by (simp_all add: buf_def F(1))
  have ro: "fs_fsize (rooted_fs fs) = fs_fsize fs" "fs_ddblkno (rooted_fs fs) = fs_ddblkno fs" "fs_dedupfrags (rooted_fs fs) = fs_dedupfrags fs"
    by (simp_all add: rooted_fs_def)
  have dn: "int (0 + nat (fs_dedupfrags fs)) \<le> fs_dedupfrags (rooted_fs fs)" using e(11) by (simp add: ro)
  obtain w7 where w7: "write_table L buf 0 (nat (fs_dedupfrags fs)) (s5\<lparr>mk_w := w6\<rparr>) = Inr (s5\<lparr>mk_w := w7\<rparr>)"
      "first_cg (rooted_fs fs) w7 = first_cg (rooted_fs fs) w6"
      "\<forall>j. 0 * q \<le> j \<and> j < (0 + nat (fs_dedupfrags fs)) * q \<longrightarrow> peek (img w7) (ddbase fs + 32 * j) 32 = encode_dedup free_entry"
    using write_table_ok[OF o4 _ _ buf dn, of "s5\<lparr>mk_w := w6\<rparr>" "ddbase fs"] s5(3) F(2) by (auto simp: ro ddbase_def)
  have "mkfs L g w = Inr (s5\<lparr>mk_w := w7\<rparr>)"
  proof -
    have "wtfs L (g_fssize g - g_realsectorsize g div 512) (lu_memory L (g_sblock g) (nat (g_realsectorsize g)))
        \<lparr>mk_g = g, mk_fscs = [], mk_iobuf = [], mk_w = w\<rparr> = Inr \<lparr>mk_g = g, mk_fscs = [], mk_iobuf = [], mk_w = w0\<rparr>"
      using r(2,6) by (simp add: wtfs_ok w0_def)
    then show ?thesis
      using pos assms(1) o(1) w1 s2 s3(1) s4(1) s5(1) w6(1) w7(1)
      by (simp add: mkfs_def Let_def s0_def[symmetric] zero_def[symmetric] s2'_def[symmetric] s5(3) ro buf_def)
  qed
  moreover have "first_cg fs w7 = rooted_cg fs a acg" using w7(2) w6(2) by (simp add: rooted_fs_def first_cg_total)
  moreover have "ddtab fs (img w7) = replicate (ddcount fs) free_entry"
    by (rule table_written[OF lo(1)]) (use w7(3) t(3) in \<open>simp add: q_def\<close>)
  moreover have "mk_fscs s5 = [cg_cs (rooted_cg fs a acg)]" using f4 by (simp add: s5_def)
  ultimately show ?thesis using s5(3) acg(5) fs_def by (intro exI[of _ "s5\<lparr>mk_w := w7\<rparr>"] exI[of _ fs]) (simp add: a_def)
qed

end

end
