(* ===== verification/Newfs_Claims.thy ===== *)
theory Newfs_Claims
  imports Newfs_Format
begin

text \<open>
  The properties of \<open>newfs\<close>, with a device in memory that keeps the contract of \<open>newfs_device\<close> and a file system of
  100 blocks as the example.
\<close>

section \<open>A device in memory\<close>

text \<open>The bytes, and a log of what has been written where: the group that was written, if it was one. A group is read back if
  it is the last that was written to its place; anything else reads as an empty group.\<close>

record disk =
  dk_img :: image
  dk_log :: "(int \<times> int \<times> cg option) list"

definition no_cg :: cg where
  "no_cg = \<lparr>cg_magic = 0, cg_cgx = 0, cg_ndblk = 0, cg_cs = \<lparr>cs_ndir = 0, cs_nbfree = 0, cs_nifree = 0, cs_nffree = 0\<rparr>, cg_rotor = 0,
     cg_frotor = 0, cg_irotor = 0, cg_frsum = [], cg_nclusterblks = 0, cg_niblk = 0, cg_initediblk = 0, cg_inosused = [], cg_blksfree = [],
     cg_clustersum = [], cg_clustersfree = []\<rparr>"

fun logged_cg :: "int \<Rightarrow> int \<Rightarrow> (int \<times> int \<times> cg option) list \<Rightarrow> cg" where
  "logged_cg t n [] = no_cg"
| "logged_cg t n ((a, m, c) # es) =
     (case c of None \<Rightarrow> if apart a m t n then logged_cg t n es else no_cg
      | Some acg \<Rightarrow> if a = t \<and> m = n then acg else if apart a m t n then logged_cg t n es else no_cg)"

definition note_write :: "int \<Rightarrow> int \<Rightarrow> cg option \<Rightarrow> disk \<Rightarrow> disk" where
  "note_write a m c w = w\<lparr>dk_log := (a, m, c) # dk_log w\<rparr>"

definition no_fs :: ddfs_fs where
  "no_fs = \<lparr>fs_dedupfrags = 0, fs_ddblkno = 0, fs_sblkno = 0, fs_cblkno = 0, fs_iblkno = 0, fs_dblkno = 0,
     fs_old_cgoffset = 0, fs_old_cgmask = 0, fs_ncg = 0, fs_bsize = 0, fs_fsize = 0, fs_frag = 0, fs_minfree = 0,
     fs_bmask = 0, fs_fmask = 0, fs_bshift = 0, fs_fshift = 0, fs_maxcontig = 0, fs_maxbpg = 0, fs_fragshift = 0,
     fs_fsbtodb = 0, fs_sbsize = 0, fs_nindir = 0, fs_inopb = 0, fs_optim = 0, fs_cssize = 0, fs_cgsize = 0, fs_ipg = 0, fs_fpg = 0,
     fs_fmod = 0, fs_clean = 0, fs_ronly = 0, fs_cgrotor = 0, fs_si = None, fs_metaspace = 0, fs_sblockactualloc = 0, fs_sblockloc = 0,
     fs_cstotal = \<lparr>cst_ndir = 0, cst_nbfree = 0, cst_nifree = 0, cst_nffree = 0, cst_numclusters = 0\<rparr>,
     fs_time = 0, fs_size = 0, fs_dsize = 0, fs_csaddr = 0, fs_avgfilesize = 0, fs_avgfpdir = 0, fs_ckhash = 0, fs_metackhash = 0, fs_flags = 0,
     fs_contigsumsize = 0, fs_maxfilesize = 0, fs_qbmask = 0, fs_qfmask = 0, fs_magic = 0\<rparr>"

definition mem_ufs :: "disk libufs" where
  "mem_ufs = \<lparr>
     lu_bwrite = (\<lambda>s d w. (0, note_write (512 * s) (int (length d)) None (w\<lparr>dk_img := poke (dk_img w) (nat (512 * s)) d\<rparr>))),
     lu_sbwrite = (\<lambda>fs csp w. (0, note_write (fs_sblockactualloc fs) (fs_sbsize fs) None
        (note_write (fs_fsize fs * fs_csaddr fs) (fs_cssize fs) None w))),
     lu_cgwrite = (\<lambda>fs acg w. (0, note_write (512 * fsbtodb fs (cgtod fs (cg_cgx acg))) (fs_cgsize fs) (Some acg) w)),
     lu_bread_cg = (\<lambda>t n w. logged_cg (512 * t) n (dk_log w)),
     lu_memory = (\<lambda>fs n. replicate n 0), lu_bread_fs = (\<lambda>t w. Some no_fs),
     lu_bread = (\<lambda>t n w. Some (peek (dk_img w) (nat (512 * t)) (nat n))), lu_random = (\<lambda>c i. 1),
     lu_putinode = (\<lambda>fs ino node w. (0, note_write (fs_fsize fs * ino_to_fsba fs ino) (fs_bsize fs) None w)),
     lu_utime = 0, lu_operator = None\<rparr>"

interpretation mem: newfs_device mem_ufs dk_img
  by unfold_locales (simp_all add: mem_ufs_def note_write_def)

section \<open>An example\<close>

text \<open>A device of 100 blocks, with all options left to the program.\<close>

definition demo_newfs :: newfs where
  "demo_newfs = \<lparr>g_Oflag = 2, g_fssize = 800, g_mediasize = 409600, g_sectorsize = 512, g_realsectorsize = 512, g_fsize = 4096, g_bsize = 4096,
     g_maxbsize = 0, g_maxblkspercg = MAXBLKSPERCG, g_minfree = MINFREE, g_metaspace = 0, g_opt = 0, g_density = 0, g_maxcontig = 0, g_maxbpg = 0,
     g_avgfilesize = 16384, g_avgfilesperdir = 64, g_maxphys = 131072, g_part_ofs = 0, g_Rflag = False, g_nflag = True, g_sblock = no_fs,
     g_fs_maxbsize = 0, g_fs_providersize = 0, g_utime = 0, g_ckhash = 7\<rparr>"

lemma demo_ready: "newfs_ready demo_newfs"
  by (simp add: newfs_ready_def options_ok_def device_ok_def demo_newfs_def no_fs_def MINFREE_def)

lemma demo_newfs_layout:
  obtains g where "mkfs_layout demo_newfs = Inr g" "single_group (g_sblock g)" "fs_dblkno (g_sblock g) = 40" "fs_size (g_sblock g) = 100"
    "fs_ipg (g_sblock g) = 64" "fs_dedupfrags (g_sblock g) = 13"
proof -
  have "case mkfs_layout demo_newfs of Inl x \<Rightarrow> False | Inr g \<Rightarrow> single_group (g_sblock g) \<and> fs_dblkno (g_sblock g) = 40 \<and>
      fs_size (g_sblock g) = 100 \<and> fs_ipg (g_sblock g) = 64 \<and> fs_dedupfrags (g_sblock g) = 13"
    by code_simp
  then show ?thesis by (auto split: sum.splits intro: that)
qed

section \<open>The properties\<close>

text \<open>C5: \<open>newfs\<close> makes a file system that can be mounted and written. When the layout is one cylinder group of undivided blocks
  of 4096 bytes, the program succeeds, and the state after a mount (the superblock and summary that were written last, the group
  as it is read back from the device) has the invariant of the allocator, a root directory and nothing else: all blocks behind the
  directory's are free and all inodes but the first three. The table of reference counts has room for an entry per 256 bytes of
  the device, all of them free, and no block that can be allocated lies in it.\<close>

theorem newfs_formats:
  assumes "newfs_device L img" "newfs_ready g" "mkfs_layout g = Inr g1" "single_group (g_sblock g1)"
  shows "\<exists>s cgp st. mkfs L g w = Inr s \<and>
    cgp = lu_bread_cg L (fsbtodb (mk_fs s) (cgtod (mk_fs s) 0)) (fs_cgsize (mk_fs s)) (mk_w s) \<and> st = mounted (mk_fs s) (mk_fscs s) [cgp] \<and>
    node_inv st \<and> nodes_ok (a_fs st) \<and> volume_ok (nat (g_mediasize g)) st \<and>
    free_set st = {fs_dblkno (g_sblock g1) + 2..<fs_size (g_sblock g1)} \<and> free_inodes st = {3..<fs_ipg (g_sblock g1)} \<and>
    ddtab (a_fs st) (img (mk_w s)) = replicate (ddcount (a_fs st)) free_entry \<and> g_mediasize g div 8 \<le> 32 * int (ddcount (a_fs st)) \<and>
    (\<forall>b \<in> free_set st. outside_table (a_fs st) b)"
proof -
  obtain s fs acg where s: "mkfs L g w = Inr s" "mk_fs s = rooted_fs fs" "fs = (g_sblock g1)\<lparr>fs_magic := FS_DDFS_MAGIC\<rparr>"
      "mk_fscs s = [cg_cs (newfs_device.first_cg L fs (mk_w s))]" "initcg 2 fs 0 = Inr acg"
      "newfs_device.first_cg L fs (mk_w s) = rooted_cg fs (nat (fs_dblkno fs + 1)) acg" "ddtab fs (img (mk_w s)) = replicate (ddcount fs) free_entry"
    using newfs_device.mkfs_ok[OF assms(1,3,2,4)] by blast
  note lo = layout_one_group[OF assms(3,2,4) s(3)]
  have b: "fs_bsize fs = 4096" "fs_dblkno fs = fs_dblkno (g_sblock g1)" "fs_size fs = fs_size (g_sblock g1)" "fs_ipg fs = fs_ipg (g_sblock g1)"
    using assms(4) by (simp_all add: s(3) single_group_def)
  have m: "g_mediasize g < 2 ^ 42" using assms(2) by (simp add: newfs_ready_def options_ok_def device_ok_def)
  define cgp where "cgp = rooted_cg fs (nat (fs_dblkno fs + 1)) acg"
  define st where "st = mounted (rooted_fs fs) [cg_cs cgp] [cgp]"
  note r = rooted_state[OF lo(1,2) s(5) cgp_def st_def] and v = rooted_volume[OF lo(1,2) b(1) lo(4) m s(5) cgp_def st_def]
  have "lu_bread_cg L (fsbtodb (mk_fs s) (cgtod (mk_fs s) 0)) (fs_cgsize (mk_fs s)) (mk_w s) = cgp"
    unfolding s(2) newfs_device.first_cg_def[OF assms(1), symmetric]
    using s(6) by (simp add: rooted_fs_def newfs_device.first_cg_total[OF assms(1)] cgp_def)
  moreover have "mk_fscs s = [cg_cs cgp]" using s(4) by (simp add: s(6) cgp_def)
  ultimately show ?thesis
    using s(1,2,7) r v by (intro exI[of _ s] exI[of _ cgp] exI[of _ st]) (simp add: b(2-4) st_def[symmetric])
qed

theorem newfs_formats_witness:
  "\<exists>s cgp st. mkfs mem_ufs demo_newfs \<lparr>dk_img = \<lambda>_. 7, dk_log = []\<rparr> = Inr s \<and> st = mounted (mk_fs s) (mk_fscs s) [cgp] \<and>
    volume_ok 409600 st \<and> free_set st = {42..<100} \<and> free_inodes st = {3..<64} \<and> 1600 \<le> ddcount (a_fs st) \<and>
    ddtab (a_fs st) (dk_img (mk_w s)) = replicate (ddcount (a_fs st)) free_entry"
proof -
  obtain g where g: "mkfs_layout demo_newfs = Inr g" "single_group (g_sblock g)" "fs_dblkno (g_sblock g) = 40" "fs_size (g_sblock g) = 100"
      "fs_ipg (g_sblock g) = 64" by (rule demo_newfs_layout)
  have "g_mediasize demo_newfs = 409600" by (simp add: demo_newfs_def)
  with newfs_formats[OF mem.newfs_device_axioms demo_ready g(1,2), of "\<lparr>dk_img = \<lambda>_. 7, dk_log = []\<rparr>"] show ?thesis
    by (elim exE conjE) (intro exI conjI; (assumption | simp add: g(3-5)))
qed



end
