(* ===== verification/Shell_Lexer.thy ===== *)
theory Shell_Lexer
  imports Prelude
begin

text \<open>
  The scanner of the shell (\<open>shell.l\<close>). \<open>next_token\<close> is what flex makes of the rules: the longest match,
  the first rule among equals. The action of the first rule puts the token into \<open>_linebuf\<close> and a
  pointer to it into \<open>_args\<close>; both arrays are static and keep what earlier lines left there, which the rest of
  the shell can see. A pointer into \<open>_linebuf\<close> is its index.
\<close>

section \<open>The rules\<close>

definition NUL :: char where "NUL = CHR 0x00"

definition word_char :: "char \<Rightarrow> bool" where
  "word_char c \<longleftrightarrow> c \<in> set ''abcdefghijklmnopqrstuvwxyzABCDEFGHIJKLMNOPQRSTUVWXYZ_0123456789/.-''"

definition special_char :: "char \<Rightarrow> bool" where
  "special_char c \<longleftrightarrow> c \<in> set ''()><|&;*''"

definition quote_char :: "char \<Rightarrow> bool" where
  "quote_char c \<longleftrightarrow> c = CHR 0x27 \<or> c = CHR 0x22"

definition newline :: char where "newline = CHR 0x0A"

definition blank :: "char \<Rightarrow> bool" where
  "blank c \<longleftrightarrow> c = CHR '' '' \<or> c = CHR 0x09"

text \<open>What each rule matches, in the order of the file.\<close>

datatype lex_rule = Token | Newline | Blanks | Other

definition lex_match :: "lex_rule \<Rightarrow> string \<Rightarrow> bool" where
  "lex_match r t = (case r of
     Token \<Rightarrow> t \<noteq> [] \<and> (list_all word_char t \<or> list_all special_char t \<or>
       (2 \<le> length t \<and> quote_char (hd t) \<and> last t = hd t \<and> hd t \<notin> set (butlast (tl t))))
   | Newline \<Rightarrow> t = [newline]
   | Blanks \<Rightarrow> t \<noteq> [] \<and> list_all blank t
   | Other \<Rightarrow> length t = 1 \<and> t \<noteq> [newline])"

definition rule_no :: "lex_rule \<Rightarrow> nat" where
  "rule_no r = (case r of Token \<Rightarrow> 0 | Newline \<Rightarrow> 1 | Blanks \<Rightarrow> 2 | Other \<Rightarrow> 3)"

text \<open>The scanner decides on the first character.\<close>

definition next_token :: "string \<Rightarrow> (lex_rule \<times> string \<times> string) option" where
  "next_token s = (case s of [] \<Rightarrow> None
     | c # cs \<Rightarrow> Some
        (if word_char c then (Token, takeWhile word_char s, dropWhile word_char s)
         else if special_char c then (Token, takeWhile special_char s, dropWhile special_char s)
         else if quote_char c \<and> c \<in> set cs
           then (Token, c # takeWhile (\<lambda>x. x \<noteq> c) cs @ [c], tl (dropWhile (\<lambda>x. x \<noteq> c) cs))
         else if c = newline then (Newline, [c], cs)
         else if blank c then (Blanks, takeWhile blank s, dropWhile blank s)
         else (Other, [c], cs)))"

lemma next_token_split: "next_token s = Some (r, t, rest) \<Longrightarrow> s = t @ rest \<and> t \<noteq> []"
proof (cases s)
  case (Cons c cs)
  assume n: "next_token s = Some (r, t, rest)"
  have "c \<in> set cs \<Longrightarrow> dropWhile (\<lambda>x. x \<noteq> c) cs = c # tl (dropWhile (\<lambda>x. x \<noteq> c) cs)"
    using hd_dropWhile[of "\<lambda>x. x \<noteq> c" cs] by (metis (mono_tags, lifting) dropWhile_eq_Nil_conv list.collapse)
  then have "c \<in> set cs \<Longrightarrow> takeWhile (\<lambda>x. x \<noteq> c) cs @ c # tl (dropWhile (\<lambda>x. x \<noteq> c) cs) = cs"
    by (metis takeWhile_dropWhile_id)
  then show ?thesis using n Cons by (auto simp: next_token_def split: if_splits)
qed (simp add: next_token_def)

section \<open>The buffers\<close>

text \<open>\<open>_args\<close> has 1024 elements, \<open>_linebuf\<close> 4096 characters.\<close>

record lexbuf =
  lx_args :: "nat option list"
  lx_count :: nat
  lx_bufpos :: nat
  lx_line :: string

definition lex_init :: lexbuf where
  "lex_init = \<lparr>lx_args = replicate 1024 None, lx_count = 0, lx_bufpos = 0, lx_line = replicate 4096 NUL\<rparr>"

text \<open>The characters of \<open>yytext\<close> up to its first NUL, without a check of \<open>_bufpos\<close>.\<close>

definition put_token :: "string \<Rightarrow> lexbuf \<Rightarrow> fault + lexbuf" where
  "put_token yytext l =
     (if lx_count l < length (lx_args l) - 1 then
        let bytes = takeWhile (\<lambda>c. c \<noteq> NUL) yytext @ [NUL]; n = lx_count l in
        if length (lx_line l) < lx_bufpos l + length bytes then Inl OutOfBounds
        else Inr (l\<lparr>lx_args := (lx_args l)[n := Some (lx_bufpos l), Suc n := None], lx_count := Suc n,
          lx_line := overlay (lx_bufpos l) bytes (lx_line l), lx_bufpos := lx_bufpos l + length bytes\<rparr>)
      else Inr l)"

text \<open>The rest of the input after the line. At its end \<open>yylex\<close> returns as well; what flex does when it is
  called again then is undefined.\<close>

function yylex_loop :: "string \<Rightarrow> lexbuf \<Rightarrow> fault + string \<times> lexbuf" where
  "yylex_loop s l = (case next_token s of None \<Rightarrow> Inr ([], l)
     | Some (Token, yytext, rest) \<Rightarrow> (case put_token yytext l of Inl f \<Rightarrow> Inl f | Inr l \<Rightarrow> yylex_loop rest l)
     | Some (Newline, _, rest) \<Rightarrow> Inr (rest, l)
     | Some (_, _, rest) \<Rightarrow> yylex_loop rest l)"
  by pat_completeness auto

termination yylex_loop
  by (relation "measure (\<lambda>(s, l). length s)") (auto dest: next_token_split)

declare yylex_loop.simps [simp del]

definition yylex :: "string \<Rightarrow> lexbuf \<Rightarrow> fault + string \<times> lexbuf" where
  "yylex s l = yylex_loop s (l\<lparr>lx_count := 0, lx_bufpos := 0, lx_args := (lx_args l)[0 := None]\<rparr>)"

text \<open>\<open>get_args\<close> gives the static array, that is, the state after \<open>yylex\<close>.\<close>

definition get_args :: "string \<Rightarrow> lexbuf \<Rightarrow> fault + string \<times> lexbuf" where
  "get_args s l = yylex s l"

section \<open>Reading the buffers\<close>

text \<open>The string a pointer into \<open>_linebuf\<close> points to, and the arguments up to the first null pointer.\<close>

definition cstr :: "string \<Rightarrow> nat \<Rightarrow> string" where
  "cstr line p = takeWhile (\<lambda>c. c \<noteq> NUL) (drop p line)"

definition words :: "lexbuf \<Rightarrow> string list" where
  "words l = map (\<lambda>p. cstr (lx_line l) (the p)) (takeWhile (\<lambda>p. p \<noteq> None) (lx_args l))"

section \<open>The longest match\<close>

lemmas char_class_defs = word_char_def special_char_def quote_char_def newline_def blank_def

lemma class_disjoint:
  "word_char c \<Longrightarrow> \<not> special_char c \<and> \<not> quote_char c \<and> c \<noteq> newline \<and> \<not> blank c"
  "special_char c \<Longrightarrow> \<not> quote_char c \<and> c \<noteq> newline \<and> \<not> blank c"
  "quote_char c \<Longrightarrow> c \<noteq> newline \<and> \<not> blank c" "blank c \<Longrightarrow> c \<noteq> newline"
  by (auto simp: char_class_defs)

lemma prefix_takeWhile: "s = t @ rest \<Longrightarrow> list_all P t \<Longrightarrow> length t \<le> length (takeWhile P s)"
  by (simp add: list_all_iff)

lemma quoted_first: "c \<notin> set u \<Longrightarrow> takeWhile (\<lambda>x. x \<noteq> c) (u @ c # s) = u \<and> dropWhile (\<lambda>x. x \<noteq> c) (u @ c # s) = c # s"
  by (induction u) auto

lemma token_form: "lex_match Token t \<Longrightarrow> (t \<noteq> [] \<and> list_all word_char t) \<or> (t \<noteq> [] \<and> list_all special_char t) \<or>
    (\<exists>c u. quote_char c \<and> c \<notin> set u \<and> t = c # u @ [c])"
proof -
  assume m: "lex_match Token t"
  have "\<exists>c u. quote_char c \<and> c \<notin> set u \<and> t = c # u @ [c]" if "2 \<le> length t" "quote_char (hd t)" "last t = hd t" "hd t \<notin> set (butlast (tl t))"
  proof -
    have t: "t = hd t # tl t" "tl t \<noteq> []" using that(1) by (cases t; auto)+
    then have "tl t = butlast (tl t) @ [hd t]" using that(3) by (metis append_butlast_last_id last_ConsR)
    then show ?thesis using that(2,4) t(1) by (intro exI[of _ "hd t"] exI[of _ "butlast (tl t)"]) metis
  qed
  then show ?thesis using m by (auto simp: lex_match_def)
qed

lemma next_token_cases:
  assumes "next_token (c # cs) = Some (r, t, rest)"
  obtains (word) "word_char c" "r = Token" "t = takeWhile word_char (c # cs)"
    | (special) "special_char c" "r = Token" "t = takeWhile special_char (c # cs)"
    | (quote) "quote_char c" "r = Token" "t = c # takeWhile (\<lambda>x. x \<noteq> c) cs @ [c]"
    | (line) "c = newline" "r = Newline" "t = [c]"
    | (gap) "blank c" "r = Blanks" "t = takeWhile blank (c # cs)"
    | (other) "\<not> word_char c" "\<not> special_char c" "\<not> (quote_char c \<and> c \<in> set cs)" "c \<noteq> newline" "\<not> blank c" "r = Other" "t = [c]"
  using assms by (simp add: next_token_def split: if_splits)

lemma token_length:
  assumes "next_token s = Some (r, t, rest)" "s = t' @ rest'" "lex_match r' t'"
  shows "length t' \<le> length t"
proof (cases s)
  case Nil
  then show ?thesis using assms(1) by (simp add: next_token_def)
next
  case (Cons c cs)
  have pos: "0 < length t" using next_token_split[OF assms(1)] by simp
  have run: "length t' \<le> length (takeWhile P (c # cs)) \<and> P c" if "t' \<noteq> []" "list_all P t'" for P
    using that prefix_takeWhile[of "c # cs" t' rest' P] assms(2) Cons by (cases t') auto
  consider (token) "lex_match Token t'" | (blanks) "t' \<noteq> []" "list_all blank t'" | (one) "length t' \<le> 1"
    using assms(3) by (cases r') (auto simp: lex_match_def)
  then show ?thesis
  proof cases
    case token
    from token_form[OF this] consider (word) "t' \<noteq> []" "list_all word_char t'" | (special) "t' \<noteq> []" "list_all special_char t'"
      | (quote) q u where "quote_char q" "q \<notin> set u" "t' = q # u @ [q]" by blast
    then show ?thesis
    proof cases
      case word
      from run[OF this] have r: "length t' \<le> length (takeWhile word_char (c # cs))" "word_char c" by auto
      from assms(1)[unfolded Cons] show ?thesis by (cases rule: next_token_cases) (use r class_disjoint[of c] in auto)
    next
      case special
      from run[OF this] have r: "length t' \<le> length (takeWhile special_char (c # cs))" "special_char c" by auto
      from assms(1)[unfolded Cons] show ?thesis by (cases rule: next_token_cases) (use r class_disjoint[of c] in auto)
    next
      case quote
      have q: "c = q" "cs = u @ q # rest'" using quote(3) assms(2) Cons by simp_all
      have "t = q # takeWhile (\<lambda>x. x \<noteq> q) (u @ q # rest') @ [q]"
        using assms(1)[unfolded Cons] by (cases rule: next_token_cases) (use q quote(1) class_disjoint[of c] in auto)
      then show ?thesis using quoted_first[OF quote(2), of rest'] quote(3) by simp
    qed
  next
    case blanks
    from run[OF this] have r: "length t' \<le> length (takeWhile blank (c # cs))" "blank c" by auto
    from assms(1)[unfolded Cons] show ?thesis by (cases rule: next_token_cases) (use r class_disjoint[of c] in auto)
  next
    case one
    then show ?thesis using pos by linarith
  qed
qed

lemma token_match:
  assumes "next_token s = Some (r, t, rest)"
  shows "lex_match r t"
proof -
  obtain c cs where s: "s = c # cs" using assms by (cases s) (auto simp: next_token_def)
  have tw: "list_all P (takeWhile P xs)" for P and xs :: string by (auto simp: list_all_iff dest: set_takeWhileD)
  have first: "x \<in> set (takeWhile (\<lambda>x. x \<noteq> c) cs) \<Longrightarrow> x \<noteq> c" for x by (auto dest: set_takeWhileD)
  from assms[unfolded s] show ?thesis
  proof (cases rule: next_token_cases)
    case quote
    then show ?thesis using first by (auto simp: lex_match_def)
  qed (use tw[of _ cs] in \<open>auto simp: lex_match_def\<close>)
qed

lemma rule_first:
  assumes "next_token s = Some (r, t, rest)" "lex_match r' t"
  shows "rule_no r \<le> rule_no r'"
proof -
  obtain c cs where s: "s = c # cs" using assms(1) by (cases s) (auto simp: next_token_def)
  obtain u where t: "t = c # u" "s = t @ rest" using next_token_split[OF assms(1)] s by (cases t) auto
  have no: "rule_no Token = 0" "rule_no Newline = 1" "rule_no Blanks = 2" "rule_no Other = 3" by (simp_all add: rule_no_def)
  from assms(1)[unfolded s] show ?thesis
  proof (cases rule: next_token_cases)
    case line
    have "\<not> lex_match Token t"
    proof
      assume "lex_match Token t"
      then have "word_char c \<or> special_char c \<or> quote_char c" using token_form[of t] t(1) by auto
      then show False using line(1) class_disjoint by blast
    qed
    then show ?thesis using assms(2) line(2) by (cases r') (simp_all add: no)
  next
    case gap
    have "\<not> lex_match Token t"
    proof
      assume "lex_match Token t"
      then have "word_char c \<or> special_char c \<or> quote_char c" using token_form[of t] t(1) by auto
      then show False using gap(1) class_disjoint by blast
    qed
    moreover have "\<not> lex_match Newline t" using gap(1) t(1) class_disjoint(4) by (auto simp: lex_match_def)
    ultimately show ?thesis using assms(2) gap(2) by (cases r') (simp_all add: no)
  next
    case other
    have "\<not> lex_match Token t"
    proof
      assume "lex_match Token t"
      then have "word_char c \<or> special_char c \<or> (quote_char c \<and> c \<in> set cs)" using token_form[of t] t s by auto
      then show False using other by blast
    qed
    moreover have "\<not> lex_match Newline t" "\<not> lex_match Blanks t" using other t(1) by (auto simp: lex_match_def)
    ultimately show ?thesis using assms(2) other(6) by (cases r') (simp_all add: no)
  qed (simp_all add: no)
qed

section \<open>Reading a line back\<close>

text \<open>The arrays while a line is scanned: the tokens so far lie side by side in \<open>_linebuf\<close>, each with its NUL.\<close>

definition packed :: "string list \<Rightarrow> string" where
  "packed ts = concat (map (\<lambda>t. t @ [NUL]) ts)"

definition lex_ok :: "lexbuf \<Rightarrow> bool" where
  "lex_ok l \<longleftrightarrow> length (lx_args l) = 1024 \<and> length (lx_line l) = 4096"

definition holds :: "lexbuf \<Rightarrow> string list \<Rightarrow> bool" where
  "holds l ts \<longleftrightarrow> lex_ok l \<and> lx_count l = length ts \<and> lx_bufpos l = length (packed ts) \<and> length ts < 1024 \<and>
     take (lx_bufpos l) (lx_line l) = packed ts \<and> lx_args l ! length ts = None \<and>
     (\<forall>i < length ts. lx_args l ! i = Some (length (packed (take i ts))))"

lemma packed_append [simp]: "packed (ts @ us) = packed ts @ packed us" "packed [t] = t @ [NUL]" "packed [] = []"
  by (simp_all add: packed_def)

lemma packed_take: "i < length ts \<Longrightarrow> packed ts = packed (take i ts) @ ts ! i @ NUL # packed (drop (Suc i) ts)"
proof -
  assume "i < length ts"
  then have "ts = take i ts @ [ts ! i] @ drop (Suc i) ts" by (simp add: id_take_nth_drop)
  then have "packed ts = packed (take i ts) @ packed [ts ! i] @ packed (drop (Suc i) ts)" by (metis packed_append(1))
  then show ?thesis by simp
qed

lemma takeWhile_NUL: "NUL \<notin> set t \<Longrightarrow> takeWhile (\<lambda>c. c \<noteq> NUL) t = t"
  by (induction t) auto

lemma put_token_holds:
  assumes "holds l ts" "NUL \<notin> set t" "length (packed (ts @ [t])) \<le> 4096" "length ts < 1023"
  shows "\<exists>l'. put_token t l = Inr l' \<and> holds l' (ts @ [t]) \<and>
    (\<forall>i. length ts + 1 < i \<longrightarrow> lx_args l' ! i = lx_args l ! i)"
proof -
  let ?n = "length ts" and ?b = "length (packed ts)"
  have l: "length (lx_args l) = 1024" "length (lx_line l) = 4096" "lx_count l = ?n" "lx_bufpos l = ?b"
    "take ?b (lx_line l) = packed ts" using assms(1) by (auto simp: holds_def lex_ok_def)
  have fit: "?b + Suc (length t) \<le> 4096" using assms(3) by simp
  define l' where "l' = l\<lparr>lx_args := (lx_args l)[?n := Some ?b, Suc ?n := None], lx_count := Suc ?n,
    lx_line := overlay ?b (t @ [NUL]) (lx_line l), lx_bufpos := ?b + Suc (length t)\<rparr>"
  have p: "put_token t l = Inr l'" using assms(4) l fit by (simp add: put_token_def Let_def takeWhile_NUL assms(2) l'_def)
  have "take (?b + Suc (length t)) (overlay ?b (t @ [NUL]) (lx_line l)) = packed ts @ t @ [NUL]"
    using l fit by (simp add: overlay_def)
  moreover have "lx_args l' ! i = Some (length (packed (take i (ts @ [t]))))" if "i < Suc ?n" for i
    using that assms(1) l(1) assms(4) by (cases "i = ?n") (auto simp: l'_def holds_def nth_list_update)
  ultimately have "holds l' (ts @ [t])" using l fit assms(4) by (simp add: holds_def lex_ok_def l'_def)
  moreover have "\<forall>i. ?n + 1 < i \<longrightarrow> lx_args l' ! i = lx_args l ! i" by (simp add: l'_def)
  ultimately show ?thesis using p by blast
qed

lemma read_args:
  assumes "\<forall>i < length ws. \<exists>p. args ! i = Some p \<and> cstr line p = ws ! i" "args ! length ws = None" "length ws < length args"
  shows "map (\<lambda>p. cstr line (the p)) (takeWhile (\<lambda>p. p \<noteq> None) args) = ws"
proof -
  have split: "args = take (length ws) args @ None # drop (Suc (length ws)) args"
    using assms(2,3) id_take_nth_drop[of "length ws" args] by simp
  have "\<forall>p \<in> set (take (length ws) args). p \<noteq> None" using assms(1,3) by (fastforce simp: in_set_conv_nth)
  then have "takeWhile (\<lambda>p. p \<noteq> None) (take (length ws) args @ None # ps) = take (length ws) args" for ps
    by (simp add: takeWhile_append2)
  then have "takeWhile (\<lambda>p. p \<noteq> None) args = take (length ws) args" using split by metis
  then show ?thesis using assms by (auto intro!: nth_equalityI)
qed

lemma holds_nth:
  assumes "holds l ts" "\<forall>t \<in> set ts. NUL \<notin> set t" "i < length ts"
  shows "\<exists>p. lx_args l ! i = Some p \<and> cstr (lx_line l) p = ts ! i"
proof -
  let ?p = "packed (take i ts)" and ?q = "packed (drop (Suc i) ts) @ drop (lx_bufpos l) (lx_line l)"
  have "take (lx_bufpos l) (lx_line l) = ?p @ ts ! i @ NUL # packed (drop (Suc i) ts)"
    using assms(1) unfolding holds_def packed_take[OF assms(3)] by blast
  then have "lx_line l = ?p @ ts ! i @ NUL # ?q" using append_take_drop_id[of "lx_bufpos l" "lx_line l"] by simp
  then have "drop (length ?p) (lx_line l) = ts ! i @ NUL # ?q" by (metis append_eq_conv_conj)
  moreover have "takeWhile (\<lambda>c. c \<noteq> NUL) (t @ NUL # u) = t" if "NUL \<notin> set t" for t u
    using that by (induction t) auto
  moreover have "NUL \<notin> set (ts ! i)" using assms(2,3) by simp
  ultimately have "cstr (lx_line l) (length ?p) = ts ! i" by (simp add: cstr_def)
  then show ?thesis using assms(1,3) by (simp add: holds_def)
qed

lemma holds_words: "holds l ts \<Longrightarrow> \<forall>t \<in> set ts. NUL \<notin> set t \<Longrightarrow> words l = ts"
  unfolding words_def using holds_nth by (intro read_args) (auto simp: holds_def lex_ok_def)

definition line_of :: "string list \<Rightarrow> string" where
  "line_of ts = concat (map (\<lambda>t. t @ '' '') ts) @ [newline]"

lemma char_facts: "\<not> word_char CHR '' ''" "\<not> special_char CHR '' ''" "\<not> quote_char CHR '' ''" "CHR '' '' \<noteq> newline" "blank CHR '' ''"
  "\<not> blank newline" "\<not> word_char newline" "\<not> special_char newline" "\<not> quote_char newline"
  by (simp_all add: char_class_defs)

lemma next_of_token:
  assumes "lex_match Token t"
  shows "next_token (t @ CHR '' '' # s) = Some (Token, t, CHR '' '' # s)"
  using token_form[OF assms]
proof (elim disjE exE conjE)
  assume t: "t \<noteq> []" "list_all word_char t"
  obtain c u where "t = c # u" using t(1) by (cases t) auto
  then show ?thesis using t(2) char_facts(1) by (auto simp: next_token_def list_all_iff takeWhile_append2 dropWhile_append2)
next
  assume t: "t \<noteq> []" "list_all special_char t"
  obtain c u where "t = c # u" using t(1) by (cases t) auto
  then show ?thesis using t(2) char_facts(2) class_disjoint(1)[of c] by (auto simp: next_token_def list_all_iff takeWhile_append2 dropWhile_append2)
next
  fix c u assume t: "quote_char c" "c \<notin> set u" "t = c # u @ [c]"
  have "\<not> word_char c" "\<not> special_char c" using t(1) class_disjoint[of c] by auto
  then show ?thesis using t quoted_first[OF t(2), of "CHR '' '' # s"] by (auto simp: next_token_def)
qed

lemma next_of_blank:
  assumes "s = [] \<or> \<not> blank (hd s)"
  shows "next_token (CHR '' '' # s) = Some (Blanks, '' '', s)"
  using assms char_facts by (cases s) (auto simp: next_token_def)

lemma line_start: "\<forall>t \<in> set ts. lex_match Token t \<Longrightarrow> \<not> blank (hd (line_of ts @ s)) \<and> line_of ts @ s \<noteq> []"
proof (cases ts)
  case (Cons t us)
  assume "\<forall>t \<in> set ts. lex_match Token t"
  then have "lex_match Token t" using Cons by simp
  from token_form[OF this] obtain c u where "t = c # u" "word_char c \<or> special_char c \<or> quote_char c" by (cases t) auto
  then show ?thesis using Cons class_disjoint[of c] by (auto simp: line_of_def)
qed (simp add: line_of_def char_facts)

lemma scan_line:
  assumes "holds l ts" "\<forall>t \<in> set us. lex_match Token t \<and> NUL \<notin> set t" "length (packed (ts @ us)) \<le> 4096" "length ts + length us < 1024"
  shows "\<exists>l'. yylex_loop (line_of us @ s) l = Inr (s, l') \<and> holds l' (ts @ us) \<and>
    (\<forall>i. length ts + length us < i \<longrightarrow> lx_args l' ! i = lx_args l ! i)"
  using assms
proof (induction us arbitrary: ts l)
  case Nil
  have "next_token (newline # s) = Some (Newline, [newline], s)" using char_facts by (simp add: next_token_def)
  then show ?case using Nil(1) by (simp add: line_of_def yylex_loop.simps[of "newline # s"])
next
  case (Cons t us)
  have t: "lex_match Token t" "NUL \<notin> set t" using Cons.prems(2) by simp_all
  have "length (packed (ts @ [t])) \<le> 4096" "length ts < 1023" using Cons.prems(3,4) by (simp_all add: packed_def)
  from put_token_holds[OF Cons.prems(1) t(2) this] obtain l1 where
    l1: "put_token t l = Inr l1" "holds l1 (ts @ [t])" "\<forall>i. length ts + 1 < i \<longrightarrow> lx_args l1 ! i = lx_args l ! i" by blast
  have r: "\<forall>t \<in> set us. lex_match Token t \<and> NUL \<notin> set t" "length (packed ((ts @ [t]) @ us)) \<le> 4096" "length (ts @ [t]) + length us < 1024"
    using Cons.prems(2-4) by (simp_all add: packed_def)
  from Cons.IH[OF l1(2) r] obtain l2 where l2: "yylex_loop (line_of us @ s) l1 = Inr (s, l2)" "holds l2 ((ts @ [t]) @ us)"
    "\<forall>i. length (ts @ [t]) + length us < i \<longrightarrow> lx_args l2 ! i = lx_args l1 ! i" by blast
  have line: "line_of (t # us) @ s = t @ CHR '' '' # (line_of us @ s)" by (simp add: line_of_def)
  have gap: "next_token (CHR '' '' # (line_of us @ s)) = Some (Blanks, '' '', line_of us @ s)"
    using line_start[of us s] r(1) by (intro next_of_blank) blast
  have "yylex_loop (line_of (t # us) @ s) l = Inr (s, l2)"
    unfolding line using l2(1)
    by (subst yylex_loop.simps) (simp add: next_of_token[OF t(1)] l1(1) yylex_loop.simps[of "CHR '' '' # (line_of us @ s)"] gap)
  then show ?case using l2(2,3) l1(3) by auto
qed

lemma get_args_line:
  assumes "lex_ok l" "\<forall>t \<in> set ts. lex_match Token t \<and> NUL \<notin> set t" "length (packed ts) \<le> 4096" "length ts < 1024"
  shows "\<exists>l'. get_args (line_of ts @ s) l = Inr (s, l') \<and> holds l' ts \<and> words l' = ts \<and>
    (\<forall>i. length ts < i \<longrightarrow> lx_args l' ! i = lx_args l ! i)"
proof -
  have "holds (l\<lparr>lx_count := 0, lx_bufpos := 0, lx_args := (lx_args l)[0 := None]\<rparr>) []"
    using assms(1) by (simp add: holds_def lex_ok_def)
  from scan_line[OF this, of ts s] assms(2-4) obtain l' where l': "yylex (line_of ts @ s) l = Inr (s, l')" "holds l' ts"
    "\<forall>i. length ts < i \<longrightarrow> lx_args l' ! i = (lx_args l)[0 := None] ! i" by (auto simp: yylex_def)
  moreover have "words l' = ts" using holds_words[OF l'(2)] assms(2) by blast
  moreover have "\<forall>i. length ts < i \<longrightarrow> lx_args l' ! i = lx_args l ! i" using l'(3) by simp
  ultimately show ?thesis by (simp add: get_args_def)
qed

text \<open>A line whose words need more than the buffer.\<close>

lemma put_token_over:
  assumes "holds l ts" "NUL \<notin> set t" "4096 < length (packed (ts @ [t]))" "length ts < 1023"
  shows "put_token t l = Inl OutOfBounds"
  using assms by (simp add: put_token_def Let_def holds_def lex_ok_def takeWhile_NUL)

lemma scan_over:
  assumes "holds l ts" "\<forall>t \<in> set us. lex_match Token t \<and> NUL \<notin> set t" "4096 < length (packed (ts @ us))" "length ts + length us < 1024"
  shows "yylex_loop (line_of us @ s) l = Inl OutOfBounds"
  using assms
proof (induction us arbitrary: ts l)
  case Nil
  have "length (take (lx_bufpos l) (lx_line l)) = length (packed ts)" using Nil(1) by (metis holds_def)
  then have "length (packed ts) \<le> 4096" using Nil(1) by (simp add: holds_def lex_ok_def)
  then show ?case using Nil(3) by simp
next
  case (Cons t us)
  have t: "lex_match Token t" "NUL \<notin> set t" "length ts < 1023" using Cons.prems(2,4) by simp_all
  have line: "line_of (t # us) @ s = t @ CHR '' '' # (line_of us @ s)" by (simp add: line_of_def)
  have r: "\<forall>t \<in> set us. lex_match Token t \<and> NUL \<notin> set t" "4096 < length (packed ((ts @ [t]) @ us))" "length (ts @ [t]) + length us < 1024"
    using Cons.prems(2-4) by (simp_all add: packed_def)
  have gap: "next_token (CHR '' '' # (line_of us @ s)) = Some (Blanks, '' '', line_of us @ s)"
    using line_start[of us s] r(1) by (intro next_of_blank) blast
  show ?case
  proof (cases "length (packed (ts @ [t])) \<le> 4096")
    case True
    from put_token_holds[OF Cons.prems(1) t(2) True t(3)] obtain l1 where l1: "put_token t l = Inr l1" "holds l1 (ts @ [t])" by blast
    have "yylex_loop (line_of us @ s) l1 = Inl OutOfBounds" by (rule Cons.IH[OF l1(2) r])
    then show ?thesis unfolding line
      by (subst yylex_loop.simps) (simp add: next_of_token[OF t(1)] l1(1) yylex_loop.simps[of "CHR '' '' # (line_of us @ s)"] gap)
  next
    case False
    then have "put_token t l = Inl OutOfBounds" using put_token_over[OF Cons.prems(1) t(2) _ t(3)] by simp
    then show ?thesis unfolding line by (subst yylex_loop.simps) (simp add: next_of_token[OF t(1)])
  qed
qed

end
