(* ===== verification/Shell.thy ===== *)
theory Shell
  imports Shell_Lexer
begin

text \<open>
  The shell (\<open>myshell.c\<close>). A line's words are looked through for redirections, which open files and set
  flags; \<open>exit\<close> and \<open>cd\<close> are done by the shell, anything else by a child, which removes the
  redirections from its arguments and calls \<open>execvp\<close>. The state is the static arrays of the scanner, the flags and
  the table of open files; what \<open>open\<close>, \<open>chdir\<close>, \<open>fork\<close>, \<open>execvp\<close> and \<open>wait\<close> do is an argument. The
  shell's own printing is left out.
\<close>

section \<open>Files\<close>

definition STDOUT_FILENO :: int where "STDOUT_FILENO = 1"
definition STDERR_FILENO :: int where "STDERR_FILENO = 2"

text \<open>The three combinations of flags; \<open>open\<close> is called without the mode that \<open>O_CREAT\<close> needs.\<close>

datatype open_mode = Read_only | Write_append | Create_truncate

text \<open>A table of open files has a fixed size; \<open>open\<close> takes the lowest number that is free.\<close>

type_synonym 'd fd_table = "'d option list"

definition fd_file :: "'d fd_table \<Rightarrow> int \<Rightarrow> 'd option" where
  "fd_file fds n = (if 0 \<le> n \<and> nat n < length fds then fds ! nat n else None)"

definition fd_close :: "int \<Rightarrow> 'd fd_table \<Rightarrow> 'd fd_table" where
  "fd_close n fds = (if 0 \<le> n then fds[nat n := None] else fds)"

definition fd_dup2 :: "int \<Rightarrow> int \<Rightarrow> 'd fd_table \<Rightarrow> 'd fd_table" where
  "fd_dup2 old new fds = (case fd_file fds old of None \<Rightarrow> fds | Some d \<Rightarrow> fds[nat new := Some d])"

definition fd_free :: "'d fd_table \<Rightarrow> nat option" where
  "fd_free fds = (if None \<in> set fds then Some (length (takeWhile (\<lambda>d. d \<noteq> None) fds)) else None)"

section \<open>The system\<close>

text \<open>How a child ends: it has become another program, it has called \<open>exit\<close>, or a fault has killed it.\<close>

datatype 'd child = Program "'d fd_table" "string list" | Exit "'d fd_table" int | Killed fault

record ('d, 'k) sys =
  sy_open :: "string option \<Rightarrow> open_mode \<Rightarrow> 'k \<Rightarrow> 'd option \<times> 'k"
  sy_chdir :: "string option \<Rightarrow> 'k \<Rightarrow> 'k"
  sy_fork :: "'k \<Rightarrow> bool \<times> 'k"
  sy_execvp :: "string list \<Rightarrow> 'k \<Rightarrow> bool"
  sy_wait :: "'d child \<Rightarrow> 'k \<Rightarrow> 'k"

record 'd shell =
  sh_lex :: lexbuf
  in_flag :: bool
  out_flag :: bool
  ampersand :: bool
  redir_app :: bool
  in_fd :: int
  out_fd :: int
  sh_fds :: "'d fd_table"

definition sh_open :: "('d, 'k) sys \<Rightarrow> string option \<Rightarrow> open_mode \<Rightarrow> 'd fd_table \<times> 'k \<Rightarrow> int \<times> 'd fd_table \<times> 'k" where
  "sh_open S path mode = (\<lambda>(fds, k). case fd_free fds of None \<Rightarrow> (- 1, fds, k)
     | Some n \<Rightarrow> (case sy_open S path mode k of (None, k) \<Rightarrow> (- 1, fds, k) | (Some d, k) \<Rightarrow> (int n, fds[n := Some d], k)))"

section \<open>Redirections\<close>

text \<open>One argument, with the one after it or the null pointer.\<close>

definition parse_arg :: "('d, 'k) sys \<Rightarrow> string \<Rightarrow> string option \<Rightarrow> 'd shell \<times> 'k \<Rightarrow> 'd shell \<times> 'k" where
  "parse_arg S arg next = (\<lambda>(s, k).
     let (s, k) = (if arg = ''<'' then
             (case sh_open S next Read_only (sh_fds s, k) of (fd, fds, k) \<Rightarrow> (s\<lparr>in_flag := True, in_fd := fd, sh_fds := fds\<rparr>, k))
           else (s, k));
         (s, k) = (if arg = ''>>'' then
             (case sh_open S next Write_append (sh_fds s, k) of (fd, fds, k) \<Rightarrow>
               (s\<lparr>redir_app := True, out_flag := True, out_fd := fd, sh_fds := fds\<rparr>, k))
           else if arg = ''>'' \<or> arg = ''>&'' then
             (case sh_open S next Create_truncate (sh_fds s, k) of (fd, fds, k) \<Rightarrow> (s\<lparr>out_flag := True, out_fd := fd, sh_fds := fds\<rparr>, k))
           else (s, k))
     in (if arg = ''>&'' then s\<lparr>ampersand := True\<rparr> else s, k))"

fun parse_args :: "('d, 'k) sys \<Rightarrow> string list \<Rightarrow> 'd shell \<times> 'k \<Rightarrow> 'd shell \<times> 'k" where
  "parse_args S [] st = st"
| "parse_args S (arg # args) st = parse_args S args (parse_arg S arg (case args of [] \<Rightarrow> None | a # _ \<Rightarrow> Some a) st)"

text \<open>The two loops that replace a redirection by the argument after the next one, in place.\<close>

function drop_redirs :: "string set \<Rightarrow> string \<Rightarrow> nat \<Rightarrow> nat option list \<Rightarrow> fault + nat option list" where
  "drop_redirs ops line i args =
     (if length args \<le> i then Inl OutOfBounds
      else case args ! i of None \<Rightarrow> Inr args
      | Some p \<Rightarrow>
        if cstr line p \<notin> ops then drop_redirs ops line (Suc i) args
        else if length args \<le> i + 2 then Inl OutOfBounds
        else drop_redirs ops line (Suc i) (args[i := args ! (i + 2)]))"
  by pat_completeness auto

termination drop_redirs
  by (relation "measure (\<lambda>(ops, line, i, args). length args - i)") auto

declare drop_redirs.simps [simp del]

definition in_ops :: "string set" where "in_ops = {''<'', ''>'', ''>&''}"
definition out_ops :: "string set" where "out_ops = {''>'', ''<'', ''>&'', ''>>''}"

section \<open>The child\<close>

definition argv_of :: "string \<Rightarrow> nat option list \<Rightarrow> string list" where
  "argv_of line args = map (\<lambda>p. cstr line (the p)) (takeWhile (\<lambda>p. p \<noteq> None) args)"

definition handleChild :: "('d, 'k) sys \<Rightarrow> 'd fd_table \<Rightarrow> string list \<Rightarrow> 'k \<Rightarrow> 'd child" where
  "handleChild S fds argv k = (if sy_execvp S argv k then Program fds argv else Exit fds 0)"

definition handleParent :: "('d, 'k) sys \<Rightarrow> 'd child \<Rightarrow> 'k \<Rightarrow> 'k" where
  "handleParent S child k = sy_wait S child k"

text \<open>\<open>strtok\<close> by blanks; the array of the pieces has 100 elements and needs a null pointer at its end.\<close>

function strtok_all :: "string \<Rightarrow> string list" where
  "strtok_all s = (case dropWhile (\<lambda>c. c = CHR '' '') s of [] \<Rightarrow> []
     | c # cs \<Rightarrow> (c # takeWhile (\<lambda>c. c \<noteq> CHR '' '') cs) # strtok_all (dropWhile (\<lambda>c. c \<noteq> CHR '' '') cs))"
  by pat_completeness auto

termination strtok_all
proof (relation "measure length")
  fix s c cs assume d: "dropWhile (\<lambda>c. c = CHR '' '') s = c # cs"
  have "length (dropWhile (\<lambda>c. c \<noteq> CHR '' '') cs) \<le> length cs" by (rule length_dropWhile_le)
  also have "\<dots> < length s" using d length_dropWhile_le[of "\<lambda>c. c = CHR '' ''" s] by simp
  finally show "(dropWhile (\<lambda>c. c \<noteq> CHR '' '') cs, s) \<in> measure length" by simp
qed simp

declare strtok_all.simps [simp del]

definition quote :: char where "quote = CHR 0x22"

definition quoted_echo :: "string list \<Rightarrow> bool" where
  "quoted_echo args = (case args of cmd # a # _ \<Rightarrow> cmd = ''echo'' \<and> a \<noteq> [] \<and> hd a = quote \<and> last a = quote | _ \<Rightarrow> False)"

definition child_echo :: "('d, 'k) sys \<Rightarrow> 'd fd_table \<Rightarrow> string \<Rightarrow> 'k \<Rightarrow> 'd child" where
  "child_echo S fds a k =
     (let toks = strtok_all (butlast (tl a)) in
      if 99 \<le> length toks then Killed OutOfBounds else handleChild S fds (''echo'' # toks) k)"

definition child_redirect :: "('d, 'k) sys \<Rightarrow> 'd shell \<Rightarrow> 'k \<Rightarrow> 'd child" where
  "child_redirect S s k =
     (let line = lx_line (sh_lex s); fds = sh_fds s;
          fds = (if in_flag s then fd_close (in_fd s) fds else fds) in
      case (if in_flag s then drop_redirs in_ops line 0 (lx_args (sh_lex s)) else Inr (lx_args (sh_lex s))) of
        Inl f \<Rightarrow> Killed f
      | Inr args \<Rightarrow>
        if out_flag s then
          (let fds = (if ampersand s then fd_dup2 STDERR_FILENO STDOUT_FILENO fds else fds);
               fds = fd_close (out_fd s) (fd_dup2 (out_fd s) STDOUT_FILENO fds)
           in case drop_redirs out_ops line 0 args of Inl f \<Rightarrow> Killed f
              | Inr args \<Rightarrow> handleChild S fds (argv_of line args) k)
        else handleChild S fds (argv_of line args) k)"

definition shell_child :: "('d, 'k) sys \<Rightarrow> 'd shell \<Rightarrow> 'k \<Rightarrow> 'd child" where
  "shell_child S s k =
     (let args = words (sh_lex s) in
      if args = [''echo''] then Killed NullDeref
      else if quoted_echo args then child_echo S (sh_fds s) (args ! 1) k
      else child_redirect S s k)"

section \<open>The shell\<close>

text \<open>One turn of the loop of \<open>main\<close>: whether it goes on, the rest of the input, the child there was.\<close>

definition shell_line :: "('d, 'k) sys \<Rightarrow> string \<Rightarrow> 'd shell \<times> 'k \<Rightarrow> fault + bool \<times> string \<times> 'd child option \<times> 'd shell \<times> 'k" where
  "shell_line S input = (\<lambda>(s, k).
     case get_args input (sh_lex s) of Inl f \<Rightarrow> Inl f
     | Inr (rest, l) \<Rightarrow>
       let args = words l; (s, k) = parse_args S args (s\<lparr>sh_lex := l\<rparr>, k) in
       case args of [] \<Rightarrow> Inr (True, rest, None, s, k)
       | cmd # params \<Rightarrow>
         if cmd = ''exit'' then Inr (False, rest, None, s, k)
         else if cmd = ''cd'' then Inr (True, rest, None, s, sy_chdir S (case params of [] \<Rightarrow> None | a # _ \<Rightarrow> Some a) k)
         else (case sy_fork S k of (forked, k) \<Rightarrow>
           let s' = s\<lparr>in_flag := False, out_flag := False, ampersand := False\<rparr> in
           if forked then (let child = shell_child S s k in Inr (True, rest, Some child, s', handleParent S child k))
           else Inr (True, rest, None, s', k)))"

lemma yylex_loop_shorter: "yylex_loop s l = Inr (rest, l') \<Longrightarrow> s \<noteq> [] \<Longrightarrow> length rest < length s"
proof (induction "length s" arbitrary: s l rule: less_induct)
  case less
  have "next_token s \<noteq> None" using less.prems(2) by (cases s) (simp_all add: next_token_def)
  then obtain r t u where n: "next_token s = Some (r, t, u)" by auto
  then have "s = t @ u" "t \<noteq> []" using next_token_split by blast+
  then have lt: "length u < length s" by simp
  have "length rest \<le> length u" if "yylex_loop u l2 = Inr (rest, l')" for l2
    using less.hyps[OF lt that] that by (cases "u = []") (simp_all add: yylex_loop.simps[of "[]"] next_token_def)
  then have "length rest \<le> length u"
    using less.prems(1) n by (auto simp: yylex_loop.simps[of s l] split: lex_rule.splits sum.splits)
  then show ?case using lt by simp
qed

lemma get_args_shorter: "get_args s l = Inr (rest, l') \<Longrightarrow> s \<noteq> [] \<Longrightarrow> length rest < length s"
  unfolding get_args_def yylex_def by (rule yylex_loop_shorter)

lemma shell_line_input: "shell_line S input (s, k) = Inr (go_on, rest, r) \<Longrightarrow> \<exists>l. get_args input (sh_lex s) = Inr (rest, l)"
proof -
  assume a: "shell_line S input (s, k) = Inr (go_on, rest, r)"
  obtain rest' l where g: "get_args input (sh_lex s) = Inr (rest', l)" using a by (cases "get_args input (sh_lex s)") (auto simp: shell_line_def)
  obtain s1 k1 where p: "parse_args S (words l) (s\<lparr>sh_lex := l\<rparr>, k) = (s1, k1)" by fastforce
  have "rest' = rest" using a unfolding shell_line_def Let_def
    by (simp add: g p split: list.splits if_splits prod.splits)
  then show ?thesis using g by blast
qed

text \<open>The loop of \<open>main\<close> while there is input: the children it has had, and a fault or the state at the end.\<close>

function shell_main :: "('d, 'k) sys \<Rightarrow> string \<Rightarrow> 'd shell \<times> 'k \<Rightarrow> 'd child list \<times> (fault + 'd shell \<times> 'k)" where
  "shell_main S input st =
     (if input = [] then ([], Inr st)
      else case shell_line S input st of Inl f \<Rightarrow> ([], Inl f)
      | Inr (go_on, rest, child, st) \<Rightarrow>
        let run = (if go_on then shell_main S rest st else ([], Inr st)) in
        ((case child of None \<Rightarrow> [] | Some c \<Rightarrow> [c]) @ fst run, snd run))"
  by pat_completeness auto

termination shell_main
proof (relation "measure (\<lambda>(S, input, st). length input)")
  fix S :: "('d, 'k) sys" and input and st :: "'d shell \<times> 'k" and x y go_on z rest u child st'
  assume a: "input \<noteq> []" "shell_line S input st = Inr x" "(go_on, y) = x" "(rest, z) = y"
  obtain s k where st: "st = (s, k)" by fastforce
  have "shell_line S input (s, k) = Inr (go_on, rest, z)" using a st by simp
  from shell_line_input[OF this] obtain l where "get_args input (sh_lex s) = Inr (rest, l)" ..
  then show "((S, rest, u), (S, input, st)) \<in> measure (\<lambda>(S, input, st). length input)" using get_args_shorter a(1) by simp
qed simp

declare shell_main.simps [simp del]

text \<open>\<open>main\<close> starts with the files it has been given.\<close>

definition shell_init :: "'d fd_table \<Rightarrow> 'd shell" where
  "shell_init fds = \<lparr>sh_lex = lex_init, in_flag = False, out_flag = False, ampersand = False, redir_app = False,
     in_fd = 0, out_fd = 0, sh_fds = fds\<rparr>"

section \<open>Lines with one redirection\<close>

lemma words_argv: "words l = argv_of (lx_line l) (lx_args l)"
  by (simp add: words_def argv_of_def)

lemma parse_plain: "set ws \<inter> out_ops = {} \<Longrightarrow> parse_args S ws st = st"
  by (induction ws arbitrary: st) (auto simp: parse_arg_def out_ops_def)

lemma parse_append: "set ws \<inter> out_ops = {} \<Longrightarrow> parse_args S (ws @ us) st = parse_args S us st"
  by (induction ws arbitrary: st) (auto simp: parse_arg_def out_ops_def)

text \<open>The loops in one step: they run up to the null pointer, and what they copy has not been changed yet.\<close>

definition dropped :: "string set \<Rightarrow> string \<Rightarrow> nat \<Rightarrow> nat option list \<Rightarrow> nat option list" where
  "dropped ops line n args =
     map (\<lambda>i. if i < n \<and> cstr line (the (args ! i)) \<in> ops then args ! (i + 2) else args ! i) [0..<length args]"

lemma drop_redirs_dropped:
  assumes "\<forall>i < n. args ! i \<noteq> None" "args ! n = None" "n + 1 < length args"
  shows "drop_redirs ops line 0 args = Inr (dropped ops line n args)"
proof -
  let ?d = "dropped ops line n args"
  have d: "length ?d = length args" "\<And>i. i < length args \<Longrightarrow> ?d ! i = (if i < n \<and> cstr line (the (args ! i)) \<in> ops then args ! (i + 2) else args ! i)"
    by (simp_all add: dropped_def)
  have "\<forall>cur. length cur = length args \<and> (\<forall>j. i \<le> j \<longrightarrow> cur ! j = args ! j) \<and> (\<forall>j < i. cur ! j = ?d ! j) \<longrightarrow>
      drop_redirs ops line i cur = Inr ?d" if "i \<le> n" for i
    using that
  proof (induction rule: inc_induct)
    case base
    show ?case
    proof (intro allI impI)
      fix cur assume c: "length cur = length args \<and> (\<forall>j. n \<le> j \<longrightarrow> cur ! j = args ! j) \<and> (\<forall>j < n. cur ! j = ?d ! j)"
      have "cur ! j = ?d ! j" if "j < length args" for j using c that d(2) by (cases "j < n") auto
      then have "cur = ?d" using c d(1) by (intro nth_equalityI) auto
      moreover have "cur ! n = None" "n < length cur" using c assms by auto
      ultimately show "drop_redirs ops line n cur = Inr ?d" by (simp add: drop_redirs.simps[of ops line n])
    qed
  next
    case (step i)
    show ?case
    proof (intro allI impI)
      fix cur assume c: "length cur = length args \<and> (\<forall>j. i \<le> j \<longrightarrow> cur ! j = args ! j) \<and> (\<forall>j < i. cur ! j = ?d ! j)"
      obtain p where p: "args ! i = Some p" using assms(1) step.hyps by auto
      have i: "cur ! i = Some p" "i < length args" "i + 2 < length args" "cur ! (i + 2) = args ! (i + 2)" "length cur = length args"
        using c p step.hyps assms(3) by auto
      define nxt where "nxt = (if cstr line p \<in> ops then cur[i := args ! (i + 2)] else cur)"
      have "length nxt = length args \<and> (\<forall>j. Suc i \<le> j \<longrightarrow> nxt ! j = args ! j) \<and> (\<forall>j < Suc i. nxt ! j = ?d ! j)"
        using c i p step.hyps d(2) by (auto simp: nxt_def less_Suc_eq)
      then have "drop_redirs ops line (Suc i) nxt = Inr ?d" using step.IH by blast
      then show "drop_redirs ops line i cur = Inr ?d" using i by (simp add: drop_redirs.simps[of ops line i] nxt_def split: if_splits)
    qed
  qed
  from this[of 0] show ?thesis by simp
qed

lemmas read_argv = read_args[folded argv_of_def]

text \<open>Some plain words, then a redirection and its file, or a redirection at the very end.\<close>

lemma drop_line:
  assumes "holds l (ws @ op # us)" "\<forall>t \<in> set (ws @ op # us). NUL \<notin> set t" "op \<in> ops" "set (ws @ us) \<inter> ops = {}" "length us \<le> 1"
    "length ws + length us < 1022"
  shows "\<exists>args. drop_redirs ops (lx_line l) 0 (lx_args l) = Inr args \<and>
    (us \<noteq> [] \<longrightarrow> argv_of (lx_line l) args = ws) \<and>
    (us = [] \<longrightarrow> argv_of (lx_line l) args = ws @ (case lx_args l ! (length ws + 2) of None \<Rightarrow> [] | Some p \<Rightarrow> [cstr (lx_line l) p]))"
proof -
  let ?ts = "ws @ op # us" and ?A = "lx_args l" and ?line = "lx_line l"
  let ?n = "length ?ts" and ?m = "length ws" and ?d = "dropped ops (lx_line l) (length (ws @ op # us)) (lx_args l)"
  have l: "length ?A = 1024" "?A ! ?n = None" using assms(1) by (simp_all add: holds_def lex_ok_def)
  note nth = holds_nth[OF assms(1,2)]
  have n: "?n + 1 < length ?A" using l assms(6) by simp
  have r: "drop_redirs ops ?line 0 ?A = Inr ?d" using nth l n by (intro drop_redirs_dropped) auto
  have d: "?d ! i = (if i < ?n \<and> cstr ?line (the (?A ! i)) \<in> ops then ?A ! (i + 2) else ?A ! i)" if "i < 1024" for i
    using that l by (simp add: dropped_def)
  have "?ts ! i \<notin> ops" if "i < ?n" "i \<noteq> ?m" for i
  proof -
    have "i - Suc ?m < length us \<or> i < ?m" using that by auto
    then have "?ts ! i \<in> set (ws @ us)" using that by (auto simp: nth_append nth_Cons')
    then show ?thesis using assms(4) by blast
  qed
  then have keep: "?d ! i = ?A ! i" if "i < ?n" "i \<noteq> ?m" for i using that nth[OF that(1)] d[of i] n l by auto
  have at: "?d ! ?m = ?A ! (?m + 2)" using nth[of ?m] d[of ?m] n l assms(3) by auto
  have ws: "\<exists>p. ?d ! i = Some p \<and> cstr ?line p = ws ! i" if "i < ?m" for i
    using keep[of i] nth[of i] that by (auto simp: nth_append)
  have len: "length ?d = 1024" using l by (simp add: dropped_def)
  show ?thesis
  proof (cases "us = []")
    case False
    then have "?m + 2 = ?n" using assms(5) by (cases us) auto
    then have "?d ! ?m = None" using at l(2) by metis
    then have "argv_of ?line ?d = ws" using ws n l len by (intro read_argv) auto
    then show ?thesis using r False by blast
  next
    case True
    have n1: "?d ! (Suc ?m) = None" using True d[of "Suc ?m"] l n by simp
    have "argv_of ?line ?d = ws @ (case ?A ! (?m + 2) of None \<Rightarrow> [] | Some p \<Rightarrow> [cstr ?line p])"
    proof (cases "?A ! (?m + 2)")
      case None
      have "argv_of ?line ?d = ws" by (rule read_argv) (use None ws n l len at in auto)
      then show ?thesis using None by simp
    next
      case (Some p)
      have "argv_of ?line ?d = ws @ [cstr ?line p]"
        by (rule read_argv) (use Some ws n l len at n1 in \<open>auto simp: nth_append less_Suc_eq\<close>)
      then show ?thesis using Some by simp
    qed
    then show ?thesis using r True by blast
  qed
qed

section \<open>Lines that run a command\<close>

text \<open>The words of a line the scanner can take in, and the line of an external command.\<close>

definition line_ok :: "string list \<Rightarrow> bool" where
  "line_ok ts \<longleftrightarrow> (\<forall>t \<in> set ts. lex_match Token t \<and> NUL \<notin> set t) \<and> length ts < 1024 \<and> length (packed ts) \<le> 4096"

definition external :: "string list \<Rightarrow> bool" where
  "external ts \<longleftrightarrow> ts \<noteq> [] \<and> hd ts \<notin> {''exit'', ''cd''} \<and> ts \<noteq> [''echo''] \<and> \<not> quoted_echo ts"

lemma external_append: "external ws \<Longrightarrow> external (ws @ us) \<and> hd (ws @ us) = hd ws"
  by (cases ws; cases "tl ws") (auto simp: external_def quoted_echo_def split: list.splits)

definition no_flags :: "'d shell \<Rightarrow> bool" where
  "no_flags s \<longleftrightarrow> \<not> in_flag s \<and> \<not> out_flag s \<and> \<not> ampersand s"

definition after :: "'d shell \<Rightarrow> 'd shell" where
  "after s = s\<lparr>in_flag := False, out_flag := False, ampersand := False\<rparr>"

lemma read_line:
  assumes "lex_ok (sh_lex s)" "line_ok ts"
  obtains l where "get_args (line_of ts @ rest) (sh_lex s) = Inr (rest, l)" "holds l ts" "words l = ts"
    "\<forall>t \<in> set ts. NUL \<notin> set t" "\<forall>i. length ts < i \<longrightarrow> lx_args l ! i = lx_args (sh_lex s) ! i"
  using get_args_line[OF assms(1), of ts rest] assms(2) by (auto simp: line_ok_def)

lemma run_line:
  assumes "get_args input (sh_lex s) = Inr (rest, l)" "words l = ts" "ts \<noteq> []" "hd ts \<notin> {''exit'', ''cd''}"
    "parse_args S ts (s\<lparr>sh_lex := l\<rparr>, k) = (s1, k1)" "sy_fork S k1 = (True, k2)"
  shows "shell_line S input (s, k) = Inr (True, rest, Some (shell_child S s1 k2), after s1, sy_wait S (shell_child S s1 k2) k2)"
  using assms by (cases ts) (simp_all add: shell_line_def Let_def after_def handleParent_def)

lemma child_external: "words (sh_lex s) = ts \<Longrightarrow> external ts \<Longrightarrow> shell_child S s k = child_redirect S s k"
  by (simp add: shell_child_def external_def)

lemma parse_lex: "sh_lex (fst (parse_args S ts st)) = sh_lex (fst st)"
  by (induction ts arbitrary: st) (auto simp: parse_arg_def Let_def split: prod.splits if_splits)

text \<open>Opening a file changes a free entry only.\<close>

lemma fd_free_none: "fd_free fds = Some n \<Longrightarrow> n < length fds \<and> fds ! n = None"
proof -
  assume f: "fd_free fds = Some n"
  then have "None \<in> set fds" "n = length (takeWhile (\<lambda>d. d \<noteq> None) fds)" by (auto simp: fd_free_def split: if_splits)
  moreover from this have "n < length fds" by (metis (mono_tags, lifting) length_takeWhile_le le_neq_implies_less takeWhile_eq_all_conv takeWhile_eq_take take_all order_refl)
  ultimately show ?thesis using nth_length_takeWhile[of "\<lambda>d. d \<noteq> None" fds] by simp
qed

lemma sh_open_keeps:
  assumes "sh_open S path mode (fds, k) = (fd, fds', k')"
  shows "length fds' = length fds \<and> (\<forall>i < length fds. fds ! i \<noteq> None \<longrightarrow> fds' ! i = fds ! i)"
  using assms fd_free_none[of fds] by (auto simp: sh_open_def nth_list_update split: option.splits prod.splits)

lemma parse_keeps:
  "length (sh_fds (fst (parse_args S ts st))) = length (sh_fds (fst st)) \<and>
   (\<forall>i < length (sh_fds (fst st)). sh_fds (fst st) ! i \<noteq> None \<longrightarrow> sh_fds (fst (parse_args S ts st)) ! i = sh_fds (fst st) ! i)"
proof (induction ts arbitrary: st)
  case (Cons t ts)
  obtain s k where st: "st = (s, k)" by fastforce
  have "length (sh_fds (fst (parse_arg S t u (s, k)))) = length (sh_fds s) \<and>
     (\<forall>i < length (sh_fds s). sh_fds s ! i \<noteq> None \<longrightarrow> sh_fds (fst (parse_arg S t u (s, k))) ! i = sh_fds s ! i)" for u
    by (auto simp: parse_arg_def Let_def dest!: sh_open_keeps split: prod.splits if_splits)
  then show ?case using Cons[of "parse_arg S t (case ts of [] \<Rightarrow> None | a # _ \<Rightarrow> Some a) (s, k)"] by (simp add: st)
qed simp

lemma drop_plain:
  assumes "holds l ts" "\<forall>t \<in> set ts. NUL \<notin> set t" "set ts \<inter> ops = {}" "length ts < 1023"
  shows "\<exists>args. drop_redirs ops (lx_line l) 0 (lx_args l) = Inr args \<and> argv_of (lx_line l) args = ts"
proof -
  let ?A = "lx_args l" and ?line = "lx_line l" and ?n = "length ts"
  have l: "length ?A = 1024" "?A ! ?n = None" using assms(1) by (simp_all add: holds_def lex_ok_def)
  note nth = holds_nth[OF assms(1,2)]
  have "drop_redirs ops ?line 0 ?A = Inr (dropped ops ?line ?n ?A)"
    using nth l assms(4) by (intro drop_redirs_dropped) auto
  moreover have "i < ?n \<Longrightarrow> ts ! i \<notin> ops" for i using assms(3) nth_mem[of i ts] by blast
  then have "dropped ops ?line ?n ?A ! i = ?A ! i" if "i < 1024" for i
    using that nth[of i] l by (auto simp: dropped_def)
  then have "dropped ops ?line ?n ?A = ?A" using l(1) by (intro nth_equalityI) (simp_all add: dropped_def)
  then have "argv_of ?line (dropped ops ?line ?n ?A) = ts"
    using nth l assms(4) by (simp, intro read_argv) auto
  ultimately show ?thesis by blast
qed

end
