(* ===== verification/Shell_Properties.thy ===== *)
theory Shell_Properties
  imports Shell
begin

text \<open>
  The properties of the shell: what its scanner makes of a line, and what the child of a line gets as
  arguments and as standard input and output.
\<close>

section \<open>The scanner\<close>

text \<open>C20: The scanner follows its rules: what it takes from the input matches the rule it applies, no rule
  matches a longer part, and no earlier rule matches the same; it only stops at the end of the input.\<close>

theorem next_token_longest:
  "case next_token s of None \<Rightarrow> s = []
   | Some (r, t, rest) \<Rightarrow> s = t @ rest \<and> lex_match r t \<and>
       (\<forall>r' t' rest'. s = t' @ rest' \<and> lex_match r' t' \<longrightarrow> length t' \<le> length t) \<and> (\<forall>r'. lex_match r' t \<longrightarrow> rule_no r \<le> rule_no r')"
proof (cases "next_token s")
  case None
  then show ?thesis by (cases s) (simp_all add: next_token_def)
next
  case (Some x)
  obtain r t rest where x: "x = (r, t, rest)" by (cases x)
  have n: "next_token s = Some (r, t, rest)" using Some x by simp
  show ?thesis using next_token_split[OF n] token_match[OF n] rule_first[OF n] token_length[OF n] unfolding n option.case prod.case by blast
qed

theorem next_token_longest_witness:
  "next_token ''ls>out'' = Some (Token, ''ls'', ''>out'') \<and> \<not> lex_match Token ''ls>''"
proof -
  have n: "next_token ''ls>out'' = Some (Token, ''ls'', ''>out'')" by (simp add: next_token_def word_char_def)
  have "\<forall>r' t' rest'. ''ls>out'' = t' @ rest' \<and> lex_match r' t' \<longrightarrow> length t' \<le> length ''ls''"
    using next_token_longest[of "''ls>out''"] unfolding n option.case prod.case by blast
  from this[rule_format, of "''ls>''" "''out''" Token] show ?thesis using n by auto
qed

text \<open>C21: \<open>get_args\<close> reads back a line that is made of words: when the words fit the two static arrays, it gives
  exactly them, and leaves the rest of the input.\<close>

theorem get_args_reads_line:
  assumes "lex_ok l" "\<forall>t \<in> set ts. lex_match Token t \<and> NUL \<notin> set t" "length ts < 1024" "length (packed ts) \<le> 4096"
  shows "\<exists>l'. get_args (line_of ts @ s) l = Inr (s, l') \<and> words l' = ts \<and> lex_ok l'"
  using get_args_line[OF assms(1,2,4,3), of s] by (auto simp: holds_def)

theorem get_args_reads_line_witness:
  "\<exists>l'. get_args (''ls -l > out '' @ newline # ''exit'') lex_init = Inr (''exit'', l') \<and> words l' = [''ls'', ''-l'', ''>'', ''out'']"
proof -
  let ?ts = "[''ls'', ''-l'', ''>'', ''out'']"
  have "lex_ok lex_init" by (simp add: lex_ok_def lex_init_def)
  moreover have "\<forall>t \<in> set ?ts. lex_match Token t \<and> NUL \<notin> set t" by (simp add: lex_match_def word_char_def special_char_def NUL_def)
  moreover have "length (packed ?ts) \<le> 4096" by (simp add: packed_def)
  ultimately show ?thesis using get_args_reads_line[of lex_init ?ts "''exit''"] by (auto simp: line_of_def)
qed

text \<open>The scanner does not look where \<open>_linebuf\<close> ends: words that need more than its 4096 characters are written
  past it.\<close>

theorem get_args_overruns:
  assumes "lex_ok l" "\<forall>t \<in> set ts. lex_match Token t \<and> NUL \<notin> set t" "length ts < 1024"
    and "4096 < length (packed ts)"
  shows "get_args (line_of ts @ s) l = Inl OutOfBounds"
proof -
  have "holds (l\<lparr>lx_count := 0, lx_bufpos := 0, lx_args := (lx_args l)[0 := None]\<rparr>) []"
    using assms(1) by (simp add: holds_def lex_ok_def)
  from scan_over[OF this] assms(2-4) show ?thesis by (simp add: get_args_def yylex_def)
qed

theorem get_args_overruns_witness:
  "get_args (line_of [replicate 4096 CHR ''a'']) lex_init = Inl OutOfBounds"
proof -
  let ?w = "replicate 4096 CHR ''a''"
  have "lex_match Token ?w" unfolding lex_match_def by (simp add: list_all_iff word_char_def)
  then have "\<forall>t \<in> set [?w]. lex_match Token t \<and> NUL \<notin> set t" by (simp add: NUL_def)
  from get_args_overruns[OF _ this, of lex_init "[]"] show ?thesis by (simp add: packed_def lex_ok_def lex_init_def)
qed

section \<open>Commands\<close>

text \<open>A system on which everything succeeds and an open file is its name; a terminal is the shell's three files.\<close>

definition tty_sys :: "(string, unit) sys" where
  "tty_sys = \<lparr>sy_open = (\<lambda>path mode k. (path, k)), sy_chdir = (\<lambda>path k. k), sy_fork = (\<lambda>k. (True, k)),
     sy_execvp = (\<lambda>argv k. True), sy_wait = (\<lambda>child k. k)\<rparr>"

definition tty_fds :: "string fd_table" where
  "tty_fds = [Some ''tty'', Some ''tty'', Some ''tty'', None, None]"

lemma tty_shell: "lex_ok (sh_lex (shell_init tty_fds))" "no_flags (shell_init tty_fds)" "sh_fds (shell_init tty_fds) = tty_fds"
  "fd_free tty_fds = Some 3"
  by (simp_all add: shell_init_def lex_ok_def lex_init_def no_flags_def tty_fds_def fd_free_def)

lemma tty_calls: "sy_open tty_sys path mode k = (path, k)" "sy_chdir tty_sys path k = k" "sy_fork tty_sys k = (True, k)"
  "handleChild tty_sys fds argv k = Program fds argv" "sy_wait tty_sys child k = k"
  by (simp_all add: tty_sys_def handleChild_def)

lemmas line_defs = line_ok_def external_def lex_match_def word_char_def special_char_def NUL_def packed_def out_ops_def quoted_echo_def

text \<open>C14: A line that is a plain command, without redirections, is run as it stands: the shell forks a child which
  calls \<open>execvp\<close> with exactly the words of the line and has the files of the shell, then waits for it and goes
  on with the next line, its files and flags unchanged.\<close>

theorem shell_runs_command:
  assumes "lex_ok (sh_lex s)" "line_ok ts" "external ts" "set ts \<inter> out_ops = {}" "no_flags s" "sy_fork S k = (True, k1)"
  shows "\<exists>s'. shell_line S (line_of ts @ rest) (s, k) =
      Inr (True, rest, Some (handleChild S (sh_fds s) ts k1), s', sy_wait S (handleChild S (sh_fds s) ts k1) k1) \<and>
    sh_fds s' = sh_fds s \<and> no_flags s' \<and> lex_ok (sh_lex s')"
proof -
  obtain l where l: "get_args (line_of ts @ rest) (sh_lex s) = Inr (rest, l)" "holds l ts" "words l = ts"
    by (rule read_line[OF assms(1,2)])
  let ?s = "s\<lparr>sh_lex := l\<rparr>"
  have "shell_child S ?s k1 = handleChild S (sh_fds s) ts k1"
    using child_external[of ?s ts S k1] l(3) assms(3,5) words_argv[of l] by (simp add: child_redirect_def no_flags_def)
  then show ?thesis using run_line[OF l(1,3) _ _ parse_plain[OF assms(4)] assms(6)] assms(3) l(2)
    by (intro exI[of _ "after ?s"]) (auto simp: external_def after_def no_flags_def holds_def)
qed

theorem shell_runs_command_witness:
  "\<exists>s'. shell_line tty_sys (line_of [''ls'', ''-l'']) (shell_init tty_fds, ()) = Inr (True, [], Some (Program tty_fds [''ls'', ''-l'']), s', ())"
proof -
  have w: "line_ok [''ls'', ''-l'']" "external [''ls'', ''-l'']" "set [''ls'', ''-l''] \<inter> out_ops = {}" by (simp_all add: line_defs)
  from shell_runs_command[OF tty_shell(1) w tty_shell(2) tty_calls(3), where rest = "[]" and k = "()"] show ?thesis
    by (auto simp: tty_calls tty_shell)
qed

text \<open>C15: Output redirection: in a line \<open>command > file\<close>, \<open>command >> file\<close> or \<open>command >& file\<close>
  the child gets the words of the command and the opened file as its standard output, and every other file as the shell
  has it: with \<open>>&\<close>, too, standard error stays what it was. The shell keeps its copy of the file open.\<close>

theorem shell_redirects_output:
  assumes "lex_ok (sh_lex s)" "line_ok (ws @ [op, f])" "external ws" "set ws \<inter> out_ops = {}" "op \<in> {''>'', ''>>'', ''>&''}" "f \<notin> out_ops"
    and "length ws < 1021" "no_flags s" "fd_free (sh_fds s) = Some n" "2 < n"
    and "sy_open S (Some f) (if op = ''>>'' then Write_append else Create_truncate) k = (Some file, k1)" "sy_fork S k1 = (True, k2)"
  shows "\<exists>s'. shell_line S (line_of (ws @ [op, f]) @ rest) (s, k) =
      Inr (True, rest, Some (handleChild S ((sh_fds s)[1 := Some file]) ws k2), s', sy_wait S (handleChild S ((sh_fds s)[1 := Some file]) ws k2) k2) \<and>
    sh_fds s' = (sh_fds s)[n := Some file] \<and> no_flags s'"
proof -
  let ?ts = "ws @ [op, f]" and ?fds = "sh_fds s"
  obtain l where l: "get_args (line_of ?ts @ rest) (sh_lex s) = Inr (rest, l)" "holds l ?ts" "words l = ?ts" "\<forall>t \<in> set ?ts. NUL \<notin> set t"
    by (rule read_line[OF assms(1,2)])
  define s1 where "s1 = fst (parse_args S ?ts (s\<lparr>sh_lex := l\<rparr>, k))"
  have n: "n < length ?fds" "?fds ! n = None" using fd_free_none[OF assms(9)] by auto
  have o: "sh_open S (Some f) (if op = ''>>'' then Write_append else Create_truncate) (?fds, k) = (int n, ?fds[n := Some file], k1)"
    using assms(9,11) by (simp add: sh_open_def)
  have p: "parse_args S ?ts (s\<lparr>sh_lex := l\<rparr>, k) = (s1, k1) \<and> sh_fds s1 = ?fds[n := Some file] \<and> \<not> in_flag s1 \<and> out_flag s1 \<and>
      out_fd s1 = int n \<and> sh_lex s1 = l"
    using assms(5,6,8) o unfolding s1_def parse_append[OF assms(4)]
    by (auto simp: parse_arg_def no_flags_def out_ops_def)
  have e: "external ?ts" "hd ?ts = hd ws" using external_append[OF assms(3)] by auto
  obtain args where dr: "drop_redirs out_ops (lx_line l) 0 (lx_args l) = Inr args" "argv_of (lx_line l) args = ws"
    using drop_line[of l ws op "[f]" out_ops] l(2,4) assms(4-7) by (auto simp: out_ops_def)
  have fds: "fd_close (int n) (fd_dup2 (int n) 1 (if b then fd_dup2 2 1 (?fds[n := Some file]) else ?fds[n := Some file])) = ?fds[1 := Some file]" for b
    using n assms(10) by (intro nth_equalityI) (auto simp: fd_close_def fd_dup2_def fd_file_def nth_list_update split: option.splits)
  have c: "shell_child S s1 k2 = handleChild S (?fds[1 := Some file]) ws k2"
    using child_external[of s1 ?ts S k2] p l(3) e(1) dr fds[of True] fds[of False]
    by (simp add: child_redirect_def Let_def STDERR_FILENO_def STDOUT_FILENO_def)
  from run_line[OF l(1,3) _ _ conjunct1[OF p] assms(12)] show ?thesis
    using e assms(3) p unfolding c by (intro exI[of _ "after s1"]) (auto simp: external_def after_def no_flags_def)
qed

theorem shell_redirects_output_witness:
  "\<exists>s'. shell_line tty_sys (line_of [''ls'', ''-l'', ''>&'', ''out'']) (shell_init tty_fds, ()) =
    Inr (True, [], Some (Program [Some ''tty'', Some ''out'', Some ''tty'', None, None] [''ls'', ''-l'']), s', ())"
proof -
  have "line_ok ([''ls'', ''-l''] @ [''>&'', ''out''])" "external [''ls'', ''-l'']" "set [''ls'', ''-l''] \<inter> out_ops = {}"
    "''>&'' \<in> {''>'', ''>>'', ''>&''}" "''out'' \<notin> out_ops" "length [''ls'', ''-l''] < 1021" "2 < (3 :: nat)" by (simp_all add: line_defs)
  from shell_redirects_output[OF tty_shell(1) this(1-6) tty_shell(2) _ this(7) tty_calls(1)[of "Some ''out''"] tty_calls(3), where rest = "[]"]
  show ?thesis by (auto simp: tty_calls tty_shell) (simp add: tty_fds_def)
qed

text \<open>Input redirection does not happen: in a line \<open>command < file\<close> the child gets the words of the command and
  the files of the shell, its standard input included, whether the file could be opened or not.\<close>

theorem shell_ignores_input_redirection:
  assumes "lex_ok (sh_lex s)" "line_ok (ws @ [''<'', f])" "external ws" "set ws \<inter> out_ops = {}" "f \<notin> out_ops" "length ws < 1021"
    and "no_flags s" "sy_fork S (snd (sy_open S (Some f) Read_only k)) = (True, k2)" "fd_free (sh_fds s) \<noteq> None"
  shows "\<exists>s'. shell_line S (line_of (ws @ [''<'', f]) @ rest) (s, k) =
      Inr (True, rest, Some (handleChild S (sh_fds s) ws k2), s', sy_wait S (handleChild S (sh_fds s) ws k2) k2)"
proof -
  let ?ts = "ws @ [''<'', f]" and ?fds = "sh_fds s"
  obtain l where l: "get_args (line_of ?ts @ rest) (sh_lex s) = Inr (rest, l)" "holds l ?ts" "words l = ?ts" "\<forall>t \<in> set ?ts. NUL \<notin> set t"
    by (rule read_line[OF assms(1,2)])
  obtain n where n: "fd_free ?fds = Some n" "n < length ?fds" "?fds ! n = None" using assms(9) fd_free_none by blast
  obtain fd fds k1 where o: "sh_open S (Some f) Read_only (?fds, k) = (fd, fds, k1)" by (metis prod_cases3)
  have o': "k1 = snd (sy_open S (Some f) Read_only k)" "fd_close fd fds = ?fds"
    using o n by (auto simp: sh_open_def fd_close_def list_update_same_conv split: option.splits prod.splits)
  define s1 where "s1 = fst (parse_args S ?ts (s\<lparr>sh_lex := l\<rparr>, k))"
  have p: "parse_args S ?ts (s\<lparr>sh_lex := l\<rparr>, k) = (s1, k1) \<and> sh_fds s1 = fds \<and> in_flag s1 \<and> \<not> out_flag s1 \<and> in_fd s1 = fd \<and> sh_lex s1 = l"
    using assms(5,7) o unfolding s1_def parse_append[OF assms(4)]
    by (auto simp: parse_arg_def no_flags_def out_ops_def)
  have e: "external ?ts" "hd ?ts = hd ws" using external_append[OF assms(3)] by auto
  obtain args where dr: "drop_redirs in_ops (lx_line l) 0 (lx_args l) = Inr args" "argv_of (lx_line l) args = ws"
    using drop_line[of l ws "''<''" "[f]" in_ops] l(2,4) assms(4-6) by (auto simp: in_ops_def out_ops_def)
  have c: "shell_child S s1 k2 = handleChild S ?fds ws k2"
    using child_external[of s1 ?ts S k2] p l(3) e(1) dr o'(2) by (simp add: child_redirect_def Let_def)
  have "sy_fork S k1 = (True, k2)" using assms(8) o'(1) by simp
  from run_line[OF l(1,3) _ _ conjunct1[OF p] this] show ?thesis
    using e assms(3) unfolding c by (intro exI[of _ "after s1"]) (auto simp: external_def)
qed

theorem shell_ignores_input_redirection_witness:
  "\<exists>s'. shell_line tty_sys (line_of [''cat'', ''<'', ''in'']) (shell_init tty_fds, ()) = Inr (True, [], Some (Program tty_fds [''cat'']), s', ())"
proof -
  have "line_ok ([''cat''] @ [''<'', ''in''])" "external [''cat'']" "set [''cat''] \<inter> out_ops = {}" "''in'' \<notin> out_ops" "length [''cat''] < 1021"
    by (simp_all add: line_defs)
  from shell_ignores_input_redirection[OF tty_shell(1) this tty_shell(2) tty_calls(3), where rest = "[]"]
  show ?thesis by (auto simp: tty_calls tty_shell)
qed

text \<open>A redirection without a file picks up an argument of an earlier line: the child of a line \<open>command <\<close> gets,
  after the words of the command, the string that the pointer left two places behind the redirection points to, if there is
  one.\<close>

theorem shell_stale_argument:
  assumes "lex_ok (sh_lex s)" "line_ok (ws @ [''<''])" "external ws" "set ws \<inter> out_ops = {}" "length ws < 1021"
    and "no_flags s" "fd_free (sh_fds s) \<noteq> None" "sy_open S None Read_only k = (None, k1)" "sy_fork S k1 = (True, k2)"
    and "lx_args (sh_lex s) ! (length ws + 2) = Some p"
  shows "\<exists>l s' stale. shell_line S (line_of (ws @ [''<'']) @ rest) (s, k) =
      Inr (True, rest, Some (handleChild S (sh_fds s) (ws @ [stale]) k2), s', sy_wait S (handleChild S (sh_fds s) (ws @ [stale]) k2) k2) \<and>
    get_args (line_of (ws @ [''<'']) @ rest) (sh_lex s) = Inr (rest, l) \<and> words l = ws @ [''<''] \<and> stale = cstr (lx_line l) p"
proof -
  let ?ts = "ws @ [''<'']" and ?fds = "sh_fds s"
  obtain l where l: "get_args (line_of ?ts @ rest) (sh_lex s) = Inr (rest, l)" "holds l ?ts" "words l = ?ts" "\<forall>t \<in> set ?ts. NUL \<notin> set t"
    "\<forall>i. length ?ts < i \<longrightarrow> lx_args l ! i = lx_args (sh_lex s) ! i"
    by (rule read_line[OF assms(1,2)])
  have o: "sh_open S None Read_only (?fds, k) = (- 1, ?fds, k1)" using assms(7,8) by (auto simp: sh_open_def)
  define s1 where "s1 = fst (parse_args S ?ts (s\<lparr>sh_lex := l\<rparr>, k))"
  have q: "parse_args S ?ts (s\<lparr>sh_lex := l\<rparr>, k) = (s1, k1) \<and> sh_fds s1 = ?fds \<and> in_flag s1 \<and> \<not> out_flag s1 \<and> in_fd s1 = - 1 \<and> sh_lex s1 = l"
    using assms(6) o unfolding s1_def parse_append[OF assms(4)] by (auto simp: parse_arg_def no_flags_def)
  have e: "external ?ts" "hd ?ts = hd ws" using external_append[OF assms(3)] by auto
  have at: "lx_args l ! (length ws + 2) = Some p" using l(5) assms(10) by simp
  obtain args where dr: "drop_redirs in_ops (lx_line l) 0 (lx_args l) = Inr args" "argv_of (lx_line l) args = ws @ [cstr (lx_line l) p]"
    using drop_line[of l ws "''<''" "[]" in_ops] l(2,4) assms(4,5) at by (auto simp: in_ops_def out_ops_def)
  have c: "shell_child S s1 k2 = handleChild S ?fds (ws @ [cstr (lx_line l) p]) k2"
    using child_external[of s1 ?ts S k2] q l(3) e(1) dr by (simp add: child_redirect_def Let_def fd_close_def)
  from run_line[OF l(1,3) _ _ conjunct1[OF q] assms(9)] show ?thesis
    using e assms(3) l(1,3) unfolding c
    by (intro exI[of _ l] exI[of _ "after s1"] exI[of _ "cstr (lx_line l) p"]) (auto simp: external_def)
qed

text \<open>A shell whose last line had a fourth word, at character 7 of the buffer.\<close>

definition stale_shell :: "string shell" where
  "stale_shell = (shell_init tty_fds)\<lparr>sh_lex := lex_init\<lparr>lx_args := (replicate 1024 None)[3 := Some 7]\<rparr>\<rparr>"

theorem shell_stale_argument_witness:
  "\<exists>stale s'. shell_line tty_sys (line_of [''cat'', ''<'']) (stale_shell, ()) = Inr (True, [], Some (Program tty_fds [''cat'', stale]), s', ())"
proof -
  have s: "lex_ok (sh_lex stale_shell)" "no_flags stale_shell" "sh_fds stale_shell = tty_fds" "lx_args (sh_lex stale_shell) ! (length [''cat''] + 2) = Some 7"
    by (simp_all add: stale_shell_def shell_init_def lex_ok_def lex_init_def no_flags_def numeral_3_eq_3)
  have "line_ok ([''cat''] @ [''<''])" "external [''cat'']" "set [''cat''] \<inter> out_ops = {}" "length [''cat''] < 1021"
    by (simp_all add: line_defs)
  from shell_stale_argument[OF s(1) this s(2) _ tty_calls(1) tty_calls(3) s(4), where rest = "[]"]
  show ?thesis by (auto simp: tty_calls tty_shell s(3))
qed

text \<open>C40: A redirection sticks to the shell when the line is not run by a child: after \<open>cd dir > file\<close> the
  standard output of the next command, whatever it is, is that file.\<close>

theorem shell_redirection_sticks:
  assumes "lex_ok (sh_lex s)" "line_ok [''cd'', dir, ''>'', f]" "dir \<notin> out_ops" "f \<notin> out_ops" "no_flags s"
    and "fd_free (sh_fds s) = Some n" "2 < n" "sy_open S (Some f) Create_truncate k = (Some file, k1)"
    and "line_ok ts" "external ts" "set ts \<inter> out_ops = {}" "length ts < 1023" "sy_fork S (sy_chdir S (Some dir) k1) = (True, k2)"
  shows "fst (shell_main S (line_of [''cd'', dir, ''>'', f] @ line_of ts) (s, k)) = [handleChild S ((sh_fds s)[1 := Some file]) ts k2]"
proof -
  let ?cd = "[''cd'', dir, ''>'', f]" and ?fds = "sh_fds s"
  obtain l where l: "get_args (line_of ?cd @ line_of ts) (sh_lex s) = Inr (line_of ts, l)" "holds l ?cd" "words l = ?cd"
    by (rule read_line[OF assms(1,2)])
  have n: "n < length ?fds" "?fds ! n = None" using fd_free_none[OF assms(6)] by auto
  have o: "sh_open S (Some f) Create_truncate (?fds, k) = (int n, ?fds[n := Some file], k1)" using assms(6,8) by (simp add: sh_open_def)
  define s1 where "s1 = s\<lparr>sh_lex := l, out_flag := True, out_fd := int n, sh_fds := ?fds[n := Some file]\<rparr>"
  have p: "parse_args S ?cd (s\<lparr>sh_lex := l\<rparr>, k) = (s1, k1)" using assms(3,4) o by (simp add: parse_arg_def out_ops_def s1_def)
  have first: "shell_line S (line_of ?cd @ line_of ts) (s, k) = Inr (True, line_of ts, None, s1, sy_chdir S (Some dir) k1)"
    unfolding shell_line_def using l(1,3) p by (simp add: Let_def)
  have s1: "lex_ok (sh_lex s1)" using l(2) by (simp add: s1_def holds_def)
  obtain l2 where l2: "get_args (line_of ts @ []) (sh_lex s1) = Inr ([], l2)" "holds l2 ts" "words l2 = ts" "\<forall>t \<in> set ts. NUL \<notin> set t"
    by (rule read_line[OF s1 assms(9)])
  let ?s = "s1\<lparr>sh_lex := l2\<rparr>"
  obtain args where dr: "drop_redirs out_ops (lx_line l2) 0 (lx_args l2) = Inr args" "argv_of (lx_line l2) args = ts"
    using drop_plain[OF l2(2,4) assms(11,12)] by blast
  have fds: "fd_close (int n) (fd_dup2 (int n) 1 (?fds[n := Some file])) = ?fds[1 := Some file]"
    using n assms(7) by (intro nth_equalityI) (auto simp: fd_close_def fd_dup2_def fd_file_def nth_list_update)
  have c: "shell_child S ?s k2 = handleChild S (?fds[1 := Some file]) ts k2"
    using child_external[of ?s ts S k2] l2(3) assms(5,10) dr fds
    by (simp add: child_redirect_def Let_def s1_def no_flags_def STDOUT_FILENO_def)
  from run_line[OF l2(1,3) _ _ parse_plain[OF assms(11)] assms(13)] have
    "shell_line S (line_of ts) (s1, sy_chdir S (Some dir) k1) = Inr (True, [], Some (handleChild S (?fds[1 := Some file]) ts k2), after ?s,
      sy_wait S (handleChild S (?fds[1 := Some file]) ts k2) k2)" using assms(10) unfolding c by (auto simp: external_def)
  moreover have "line_of ts \<noteq> []" "line_of ?cd @ line_of ts \<noteq> []" by (simp_all add: line_of_def)
  ultimately show ?thesis using first
    by (simp add: shell_main.simps[of S "line_of ?cd @ line_of ts"] shell_main.simps[of S "line_of ts"] shell_main.simps[of S "[]"] Let_def)
qed

theorem shell_redirection_sticks_witness:
  "fst (shell_main tty_sys (line_of [''cd'', ''dir'', ''>'', ''out''] @ line_of [''ls'']) (shell_init tty_fds, ())) =
    [Program [Some ''tty'', Some ''out'', Some ''tty'', None, None] [''ls'']]"
proof -
  have "line_ok [''cd'', ''dir'', ''>'', ''out'']" "''dir'' \<notin> out_ops" "''out'' \<notin> out_ops" "2 < (3 :: nat)"
    "line_ok [''ls'']" "external [''ls'']" "set [''ls''] \<inter> out_ops = {}" "length [''ls''] < 1023" by (simp_all add: line_defs)
  from shell_redirection_sticks[OF tty_shell(1) this(1-3) tty_shell(2) _ this(4) tty_calls(1)[of "Some ''out''"] this(5-8) tty_calls(3)]
  show ?thesis by (simp add: tty_calls tty_shell) (simp add: tty_fds_def)
qed

text \<open>\<open>echo\<close> with a quoted string: the child echoes the words of the string and nothing else of the line, and
  a redirection on it has no effect but to open its file: standard input, output and error are those of the
  shell.\<close>

theorem shell_echo_quoted:
  assumes "lex_ok (sh_lex s)" "ts = ''echo'' # (quote # str @ [quote]) # others" "line_ok ts" "length (strtok_all str) < 99"
    and "snd (parse_args S ts (s\<lparr>sh_lex := l\<rparr>, k)) = k1" "sy_fork S k1 = (True, k2)"
    and "get_args (line_of ts @ rest) (sh_lex s) = Inr (rest, l)" "i < length (sh_fds s)" "sh_fds s ! i = Some d"
  shows "\<exists>fds s'. shell_line S (line_of ts @ rest) (s, k) =
      Inr (True, rest, Some (handleChild S fds (''echo'' # strtok_all str) k2), s', sy_wait S (handleChild S fds (''echo'' # strtok_all str) k2) k2) \<and>
    fds ! i = Some d"
proof -
  obtain l' where l: "get_args (line_of ts @ rest) (sh_lex s) = Inr (rest, l')" "words l' = ts" by (rule read_line[OF assms(1,3)])
  then have w: "words l = ts" using assms(7) by simp
  obtain s1 where s1: "parse_args S ts (s\<lparr>sh_lex := l\<rparr>, k) = (s1, k1)" using assms(5) by (metis surjective_pairing)
  have "sh_lex s1 = l" "sh_fds s1 ! i = Some d" using parse_lex[of S ts "(s\<lparr>sh_lex := l\<rparr>, k)"] parse_keeps[of S ts "(s\<lparr>sh_lex := l\<rparr>, k)"] s1 assms(8,9)
    by auto
  moreover have "quoted_echo ts" using assms(2) by (simp add: quoted_echo_def)
  ultimately have c: "shell_child S s1 k2 = handleChild S (sh_fds s1) (''echo'' # strtok_all str) k2"
    using w assms(2,4) by (simp add: shell_child_def child_echo_def)
  from run_line[OF assms(7) w _ _ s1 assms(6)] show ?thesis
    using assms(2) \<open>sh_fds s1 ! i = Some d\<close> unfolding c by (intro exI[of _ "sh_fds s1"] exI[of _ "after s1"]) auto
qed

theorem shell_echo_quoted_witness:
  "\<exists>fds s'. shell_line tty_sys (line_of [''echo'', quote # ''a b'' @ [quote], ''>'', ''out'']) (shell_init tty_fds, ()) =
    Inr (True, [], Some (Program fds [''echo'', ''a'', ''b'']), s', ()) \<and> fds ! 1 = Some ''tty''"
proof -
  let ?ts = "''echo'' # (quote # ''a b'' @ [quote]) # [''>'', ''out'']"
  have w: "line_ok ?ts" by (simp add: line_defs quote_def quote_char_def)
  have t: "strtok_all ''a b'' = [''a'', ''b'']"
    by (simp add: strtok_all.simps[of "''a b''"] strtok_all.simps[of "'' b''"] strtok_all.simps[of "[]"])
  obtain l where l: "get_args (line_of ?ts @ []) (sh_lex (shell_init tty_fds)) = Inr ([], l)" by (rule read_line[OF tty_shell(1) w])
  have "1 < length (sh_fds (shell_init tty_fds))" "sh_fds (shell_init tty_fds) ! 1 = Some ''tty''" by (simp_all add: tty_shell) (simp_all add: tty_fds_def)
  from shell_echo_quoted[OF tty_shell(1) refl w _ refl tty_calls(3) l this] show ?thesis
    by (auto simp: t tty_calls)
qed

end
