(* ===== verification/Spec2Isabelle.thy ===== *)
theory Spec2Isabelle
  imports Kvfs_Properties Ddfs_Properties Ddfs_Claims Newfs_Claims Shell_Properties
begin

text \<open>
  A verification development for a repository of operating-system projects: \<open>kvfs\<close>, a FreeBSD file
  system that maps 160-bit keys to blocks of 4096 bytes (\<open>key-value-fs\<close>), \<open>ddfs\<close>, FreeBSD's fast file
  system with deduplication of blocks (\<open>deduplicating-fs\<close>), and a small shell (\<open>simple-shell-c\<close>). All paths
  are relative to \<open>src/\<close>.

  \<^bold>\<open>Conventions.\<close> Definitions have the names of the C functions and structures; a loop is a function named
  after the operation it belongs to. State is passed explicitly. A result of type \<open>fault + 'a\<close> is
  \<open>Inl\<close> where the kernel would panic or C leaves the behaviour undefined (\<^const>\<open>NullDeref\<close>,
  \<^const>\<open>OutOfBounds\<close>, \<^const>\<open>Uninitialised\<close>, \<^const>\<open>NoReturn\<close> for a call that never returns, \<^const>\<open>Panic\<close> with the
  function's name). Error numbers of the kernel are the integers the sources return. Code that is not in the
  repository is a record of functions, an argument of what uses it: the buffer cache, vnodes and GEOM
  (\<open>kern\<close> in \<open>Kernel_Iface\<close>), the cylinder groups and byte scans the allocator reads (\<open>alloc_env\<close>), the
  page cache and block map of a file (\<open>file_env\<close>, \<open>read_env\<close>), the vnode cache (\<open>vget_env\<close>), SHA-1, the system
  calls of a process (\<open>sys\<close>).
  What the proofs rely on of it is a locale (\<open>healthy_kernel\<close>, \<open>readable\<close>, \<open>node_device\<close>,
  \<open>dedup_device\<close>, \<open>ddfs_device\<close>, \<open>newfs_device\<close>, \<open>scan_function\<close>), each interpreted on a memory disk or a loop in plain HOL.
  Printing is left out everywhere.

  \<^bold>\<open>kvfs.\<close> \<open>Kvfs_Util\<close> holds \<open>kvfs.h\<close> and \<open>kvfs_util.c\<close> (structures with their little-endian layout, macros, names
  and keys, time stamps); \<open>Mkkvfs\<close> the formatter \<open>tools/mkkvfs.c\<close>; \<open>Kvfs_Vfsops\<close> and
  \<open>Kvfs_Vnops\<close> the module's operations from \<open>kvfs_vfsops.c\<close> and \<open>kvfs_vnops.c\<close>. A mounted file system is a
  record \<open>fs\<close> of the kernel's state, the mount structure \<open>kvfs_mount_t\<close> with the list of free inodes, and
  the vnodes. \<open>Kvfs_Table\<close>, \<open>Kvfs_Disk\<close> and \<open>Kvfs_Cache\<close> relate it to a finite map: the table of inodes
  with its bitmap and free list, the sections of the disk image, the vnode cache; \<open>kvfs_wf\<close> is the
  invariant, \<open>kv\<close> the map. \<open>Kvfs_Refine\<close>, \<open>Kvfs_Io\<close> and \<open>Kvfs_Mount\<close> show what each operation does to
  the map, to the bytes of a transfer, and at mount time; \<open>Kvfs_Example\<close> has a small disk on which the hypotheses
  hold; \<open>Kvfs_Properties\<close> states the properties, with runs of the whole file system as their sum.

  \<^bold>\<open>ddfs.\<close> The sources are FreeBSD's with a table of reference counts in front of the allocator: \<open>ffs_write\<close> hashes
  a block, asks \<open>ddtable_alloc\<close> for the block of these contents, and \<open>ffs_blkfree\<close> asks
  \<open>ddtable_unref\<close> whether a block may be freed. \<open>Ddfs_Fs\<close> is \<open>ddfs_fs.h\<close>, \<open>Ddfs_Util\<close>
  \<open>ddfs_util.c\<close> (the table); \<open>Ddfs_Table\<close> and \<open>Ddfs_Dedup\<close> show the table to be a reference-counted store.
  \<open>Ddfs_Bitmap\<close> holds the maps and pattern tables (\<open>ddfs_subr.c\<close>, \<open>ddfs_tables.c\<close>), \<open>Ddfs_Alloc\<close> and
  \<open>Ddfs_Nodes\<close> allocation and freeing in a cylinder group and the search over the groups, \<open>Ddfs_Vnode\<close> the entry
  points with their placement policies (\<open>ddfs_alloc.c\<close>), \<open>Ddfs_Write\<close> and \<open>Ddfs_Read\<close> writing and
  reading of a file (\<open>ddfs_vnops.c\<close>, \<open>ddfs_balloc.c\<close>); \<open>Ddfs_Vget\<close> makes the vnode of an inode (\<open>ffs_vgetf\<close> of
  \<open>ddfs_vfsops.c\<close>). The kernel is one built with \<open>INVARIANTS\<close>. Between them, \<open>Ddfs_Blocks\<close>, \<open>Ddfs_Search\<close>, \<open>Ddfs_Cg\<close>,
  \<open>Ddfs_Group\<close> and \<open>Ddfs_Space\<close> carry the proofs for one group (maps as sets of free fragments, counts that
  agree with them), \<open>Ddfs_Free\<close>, \<open>Ddfs_Ops\<close>, \<open>Ddfs_Release\<close>, \<open>Ddfs_Hash\<close>, \<open>Ddfs_Inodes\<close> and
  \<open>Ddfs_Entry\<close> those for the whole (\<open>alloc_inv\<close>, \<open>node_inv\<close>; \<open>free_set\<close> and \<open>free_inodes\<close> are the
  abstract state), \<open>Ddfs_Store\<close>, \<open>Ddfs_Run\<close> and \<open>Ddfs_Hazards\<close> those for deduplicated writing, for growing
  fragments and for the places where the two do not fit. \<open>Ddfs_System\<close> is the state machine of all of it,
  \<open>Ddfs_Volume\<close> two small volumes; \<open>Ddfs_Properties\<close> and \<open>Ddfs_Claims\<close> state the properties.

  \<^bold>\<open>newfs.\<close> The program that makes a ddfs file system, \<open>tools/newfs-ddfs\<close>: \<open>Newfs_Layout\<close> has the options and the layout
  \<open>mkfs\<close> computes from them, with what holds of it for every size of block and number of groups; \<open>Newfs_Group\<close> the contents
  of a cylinder group (\<open>initcg\<close>) and that its counts agree with its maps; \<open>Newfs\<close> the writing of groups, root
  directory, superblock and table, over \<open>libufs\<close> as a record of functions. \<open>Newfs_Device\<close> has the contract of a device and
  follows the first group through all writes, \<open>Newfs_Format\<close> puts the run together, and \<open>Newfs_Claims\<close> states that what it
  leaves is a volume on which the properties of \<open>Ddfs_Claims\<close> hold.

  \<^bold>\<open>The shell.\<close> \<open>Shell_Lexer\<close> is the scanner \<open>shell.l\<close> as flex runs its rules, \<open>Shell\<close> the program \<open>myshell.c\<close>,
  \<open>Shell_Properties\<close> what they do with a line.

  \<^bold>\<open>Loops and bounds.\<close> Loops over a table or a range have a measure. The others are partial functions into
  \<open>option\<close>, and the properties show when there is a result: the search of \<open>init_superblock\<close> and the loop of
  \<open>writebuf\<close>, which does not end after a short write (\<open>Mkkvfs\<close>); the copy loops of \<open>kvfs_read\<close> and
  \<open>kvfs_write\<close>, which need not end when a transfer makes no progress (\<open>Kvfs_Vnops\<close>); those of \<open>ffs_read\<close>
  with its holes (\<open>Ddfs_Read\<close>) and of \<open>ffs_write\<close> (\<open>Ddfs_Write\<close>). Fields of on-disk
  structures of kvfs and of the table's entries are words of their width; signed fields of ddfs are integers, evaluated
  without overflow, which holds for any device whose size is a 64-bit number of bytes. No fuel is used.

  \<^bold>\<open>Not modelled.\<close> Of ddfs: soft updates, snapshots, suspension and quotas, which ddfs takes over from FreeBSD
  unchanged and the model assumes to be off; indirect blocks, extended attributes, truncation and the write-back of
  inodes, which work on the buffer cache and the virtual memory system (a write beyond the direct blocks is the
  parameter \<open>fe_indirect\<close>); mounting, with GEOM and the name cache; locks, also those of buffers; reallocation of clusters and batched trims;
  directories, which are the kernel's \<open>ufs\<close> code; the tool \<open>statddfs\<close>, which prints the table; the journal records of
  \<open>ddfs_fs.h\<close>. Of the shell: the messages it prints.
\<close>

end
